(* ===== verification/Prelude.thy ===== *)
theory Prelude
  imports Main "HOL-Library.Word"
begin

text \<open>
  The vocabulary shared by every component of the Grin++ development: machine integers,
  the exceptions of the C++ code as values, the little-endian image of a word in memory
  (what \<^verbatim>\<open>memcpy\<close> sees on a little-endian host), and the generic lemmas on
  words, lists and results that carry the component proofs.
\<close>

unbundle bit_operations_syntax

section \<open>Machine integers\<close>

text \<open>
  A C++ \<^verbatim>\<open>uintN_t\<close> is an \<open>N word\<close>; a signed \<^verbatim>\<open>intN_t\<close> has the
  same representation and is read with \<open>sint\<close>.
\<close>

type_synonym u8 = "8 word"
type_synonym u16 = "16 word"
type_synonym u32 = "32 word"
type_synonym u64 = "64 word"
type_synonym i64 = "64 word"

section \<open>Exceptions as values\<close>

text \<open>
  One constructor per exception class the modelled code throws
  (\<^verbatim>\<open>include/Core/Exceptions\<close>); the message texts are not modelled.
  \<open>UNDEFINED_BEHAVIOUR\<close> is the outcome of a statement whose effect the C++ standard does
  not define (an out-of-range access, a reversed iterator range).
\<close>

datatype exn =
    DESERIALIZATION_EXCEPTION
  | BAD_DATA_EXCEPTION
  | BLOCK_CHAIN_EXCEPTION
  | FILE_EXCEPTION
  | TXHASHSET_EXCEPTION
  | CRYPTO_EXCEPTION
  | DATABASE_EXCEPTION
  | WALLET_EXCEPTION
  | STD_EXCEPTION
  | UNDEFINED_BEHAVIOUR

type_synonym 'a result = "exn + 'a"

definition bind_result :: "'a result \<Rightarrow> ('a \<Rightarrow> 'b result) \<Rightarrow> 'b result" where
  "bind_result m f = (case m of Inl e \<Rightarrow> Inl e | Inr x \<Rightarrow> f x)"

definition guard_result :: "exn \<Rightarrow> bool \<Rightarrow> unit result" where
  "guard_result e ok = (if ok then Inr () else Inl e)"

text \<open>A loop that applies a throwing function to every element and collects the values.\<close>

primrec map_result :: "('a \<Rightarrow> 'b result) \<Rightarrow> 'a list \<Rightarrow> 'b list result" where
  "map_result f [] = Inr []"
| "map_result f (x # xs) = bind_result (f x) (\<lambda>y. bind_result (map_result f xs) (\<lambda>ys. Inr (y # ys)))"

text \<open>A library call that reports failure, answered with an exception.\<close>

definition or_throw :: "exn \<Rightarrow> 'a option \<Rightarrow> 'a result" where
  "or_throw e r = (case r of None \<Rightarrow> Inl e | Some x \<Rightarrow> Inr x)"

section \<open>Words in memory\<close>

text \<open>The first \<open>n\<close> bytes of a word, least significant byte first.\<close>

primrec le_bytes :: "nat \<Rightarrow> 'a::len word \<Rightarrow> u8 list" where
  "le_bytes 0 w = []"
| "le_bytes (Suc n) w = ucast w # le_bytes n (drop_bit 8 w)"

text \<open>The word whose bytes, least significant first, are the given ones.\<close>

primrec of_le_bytes :: "u8 list \<Rightarrow> 'a::len word" where
  "of_le_bytes [] = 0"
| "of_le_bytes (b # bs) = ucast b OR push_bit 8 (of_le_bytes bs)"

text \<open>The size of a machine integer in bytes (\<^verbatim>\<open>sizeof\<close>).\<close>

definition size_of :: "'a::len word itself \<Rightarrow> nat" where
  "size_of _ = LENGTH('a) div 8"

section \<open>std::map\<close>

text \<open>An ordered map is the list of its entries in the order of their keys.\<close>

type_synonym ('k, 'v) std_map = "('k \<times> 'v) list"

fun map_put :: "'k::linorder \<Rightarrow> 'v \<Rightarrow> ('k, 'v) std_map \<Rightarrow> ('k, 'v) std_map" where
  "map_put k v [] = [(k, v)]"
| "map_put k v ((k', v') # m) =
     (if k < k' then (k, v) # (k', v') # m
      else if k = k' then (k, v) # m
      else (k', v') # map_put k v m)"

definition map_erase :: "'k \<Rightarrow> ('k, 'v) std_map \<Rightarrow> ('k, 'v) std_map" where
  "map_erase k m = filter (\<lambda>(k', v). k' \<noteq> k) m"

definition map_ok :: "('k::linorder, 'v) std_map \<Rightarrow> bool" where
  "map_ok m \<longleftrightarrow> sorted_wrt (<) (map fst m)"

named_theorems result_simps \<open>rules that reduce the result monad\<close>
named_theorems byte_simps \<open>lengths and round trips of byte images\<close>

section \<open>Words and naturals\<close>

lemma unat_of_nat_small: "n < 2 ^ 64 \<Longrightarrow> unat (of_nat n :: u64) = n"
  by (simp add: unat_of_nat take_bit_nat_eq_self)

lemma unat_drop_bit_1 [simp]: "unat (drop_bit (Suc 0) (n :: 'a::len word)) = unat n div 2"
  using unat_drop_bit_eq [of "Suc 0" n] by (simp only: drop_bit_Suc drop_bit_0 id_apply)

lemma of_nat_unat_id [simp]: "of_nat (unat (x :: 'a::len word)) = x"
  by simp

lemma unat_Suc_u64: "unat (i :: u64) + 1 < 2 ^ 64 \<Longrightarrow> unat (i + 1) = unat i + 1"
  by (simp add: unat_plus_if')

lemma unat_pred_less [simp]: "w \<noteq> 0 \<Longrightarrow> unat (w - 1 :: 'a::len word) < unat w"
  by (metis measure_unat)

section \<open>Results\<close>

lemma bind_result_Inr [simp, result_simps]: "bind_result (Inr x) f = f x"
  by (simp add: bind_result_def)

lemma bind_result_Inl [simp, result_simps]: "bind_result (Inl e) f = Inl e"
  by (simp add: bind_result_def)

lemma bind_result_eq_Inr_iff [result_simps]:
  "bind_result m f = Inr y \<longleftrightarrow> (\<exists>x. m = Inr x \<and> f x = Inr y)"
  by (cases m) auto

lemma bind_result_eq_Inl_iff:
  "bind_result m f = Inl e \<longleftrightarrow> m = Inl e \<or> (\<exists>x. m = Inr x \<and> f x = Inl e)"
  by (cases m) auto

lemma guard_result_eq_Inr_iff [simp, result_simps]: "guard_result e ok = Inr u \<longleftrightarrow> ok"
  by (simp add: guard_result_def)

lemma guard_result_eq_Inl_iff [simp, result_simps]: "guard_result e ok = Inl e' \<longleftrightarrow> \<not> ok \<and> e' = e"
  by (auto simp add: guard_result_def)

lemma or_throw_eq_Inr_iff [simp, result_simps]: "or_throw e r = Inr x \<longleftrightarrow> r = Some x"
  by (cases r) (simp_all add: or_throw_def)

lemma map_result_eq_Inr_iff:
  "map_result f xs = Inr ys \<longleftrightarrow> list_all2 (\<lambda>x y. f x = Inr y) xs ys"
  by (induction xs arbitrary: ys) (auto simp add: bind_result_eq_Inr_iff list_all2_Cons1)

section \<open>Byte images of words\<close>

lemma length_le_bytes [simp, byte_simps]: "length (le_bytes n w) = n"
  by (induction n arbitrary: w) auto

lemma bit_of_le_bytes:
  "bit (of_le_bytes bs :: 'a::len word) k \<longleftrightarrow>
     k < LENGTH('a) \<and> k div 8 < length bs \<and> bit (bs ! (k div 8)) (k mod 8)"
proof (induction bs arbitrary: k)
  case Nil
  then show ?case by simp
next
  case (Cons b bs)
  show ?case
  proof (cases "k < 8")
    case True
    then show ?thesis by (auto simp add: bit_simps)
  next
    case False
    then have "k div 8 = Suc ((k - 8) div 8)" and "k mod 8 = (k - 8) mod 8"
      by (simp_all add: le_div_geq le_mod_geq)
    with False Cons [of "k - 8"] show ?thesis
      by (auto simp add: bit_simps dest: bit_imp_le_length)
  qed
qed

lemma nth_le_bytes:
  "i < n \<Longrightarrow> le_bytes n w ! i = ucast (drop_bit (8 * i) w)"
proof (induction n arbitrary: w i)
  case 0
  then show ?case by simp
next
  case (Suc n)
  then show ?case by (cases i) (simp_all add: algebra_simps)
qed

lemma of_le_bytes_le_bytes [byte_simps]:
  "of_le_bytes (le_bytes n w) = take_bit (8 * n) w"
proof (rule bit_word_eqI)
  fix k assume k: "k < LENGTH('a)"
  have "8 * (k div 8) + k mod 8 = k" by simp
  then show "bit (of_le_bytes (le_bytes n w) :: 'a word) k \<longleftrightarrow> bit (take_bit (8 * n) w) k"
    using k by (auto simp add: bit_of_le_bytes nth_le_bytes bit_simps less_mult_imp_div_less)
qed

lemma of_le_bytes_full [simp]:
  fixes w :: "'a::len word"
  assumes "LENGTH('a) \<le> 8 * n"
  shows "of_le_bytes (le_bytes n w) = w"
  using assms by (simp add: of_le_bytes_le_bytes take_bit_word_eq_self)

lemma le_bytes_of_le_bytes [byte_simps]:
  assumes "8 * length bs \<le> LENGTH('a::len)"
  shows "le_bytes (length bs) (of_le_bytes bs :: 'a word) = bs"
proof (rule nth_equalityI)
  fix i assume i: "i < length (le_bytes (length bs) (of_le_bytes bs :: 'a word))"
  show "le_bytes (length bs) (of_le_bytes bs :: 'a word) ! i = bs ! i"
  proof (rule bit_word_eqI)
    fix k assume "k < LENGTH(8)"
    then have k: "k < 8" by simp
    then have "(8 * i + k) div 8 = i" and "(8 * i + k) mod 8 = k" by simp_all
    moreover have "8 * i + k < LENGTH('a)" using assms i k by simp
    ultimately show "bit (le_bytes (length bs) (of_le_bytes bs :: 'a word) ! i) k \<longleftrightarrow> bit (bs ! i) k"
      using i k by (simp add: nth_le_bytes bit_simps bit_of_le_bytes)
  qed
qed simp

lemma size_of_simps [simp, byte_simps]:
  "size_of TYPE(8 word) = 1" "size_of TYPE(16 word) = 2"
  "size_of TYPE(32 word) = 4" "size_of TYPE(64 word) = 8"
  by (simp_all add: size_of_def)

section \<open>Ordered maps\<close>

lemma map_ok_Nil [simp]: "map_ok []"
  by (simp add: map_ok_def)

lemma keys_map_put [simp]: "fst ` set (map_put k v m) = insert k (fst ` set m)"
  by (induction k v m rule: map_put.induct) auto

lemma map_ok_put [simp]: "map_ok m \<Longrightarrow> map_ok (map_put k v m)"
proof (induction k v m rule: map_put.induct)
  case (2 k v k' v' m)
  have "\<forall>x\<in>fst ` set (map_put k v m). k' < x" if "\<not> k < k'" "k \<noteq> k'"
    using 2(2) that by (auto simp add: map_ok_def)
  with 2 show ?case by (auto simp add: map_ok_def)
qed (simp add: map_ok_def)

lemma map_of_put [simp]: "map_ok m \<Longrightarrow> map_of (map_put k v m) = (map_of m)(k \<mapsto> v)"
proof (induction k v m rule: map_put.induct)
  case (2 k v k' v' m)
  have none: "map_of m k = None" if "k < k' \<or> k = k'"
    using 2(2) that by (force simp add: map_ok_def map_of_eq_None_iff)
  from 2 have "map_ok m" by (simp add: map_ok_def)
  with 2 none show ?case by (auto simp add: fun_eq_iff)
qed simp

lemma map_ok_erase [simp]: "map_ok m \<Longrightarrow> map_ok (map_erase k m)"
  unfolding map_ok_def map_erase_def by (induction m) auto

lemma map_of_erase [simp]: "map_of (map_erase k m) = (map_of m)(k := None)"
  unfolding map_erase_def by (induction m) (auto simp add: fun_eq_iff)

lemma map_last_max: "map_ok m \<Longrightarrow> p \<in> set m \<Longrightarrow> fst p \<le> fst (last m)"
proof (induction m)
  case (Cons q m)
  then show ?case by (cases "m = []") (auto simp add: map_ok_def less_imp_le)
qed simp

end
