(* ===== verification/Serialization.thy ===== *)
theory Serialization
  imports Prelude
begin

text \<open>
  The byte-level layer: \<^verbatim>\<open>EndianHelper\<close>, \<^verbatim>\<open>Serializer\<close> and
  \<^verbatim>\<open>ByteBuffer\<close> (\<^verbatim>\<open>include/Core/Serialization\<close>), the interface
  every serializable model implements (locales \<open>codec\<close> and \<open>canonical_codec\<close>),
  and the round-trip facts of the primitive readers and writers.

  The host's byte order is an argument \<open>big\<close> of the definitions that inspect it; the
  models above this layer use the little-endian host (\<open>big = False\<close>), which the lemmas
  \<open>Append_on_host_independent\<close> and \<open>ReadBigEndian_on_host_independent\<close> justify.
\<close>

section \<open>EndianHelper\<close>

text \<open>The bytes of a machine integer in the memory of a host (\<^verbatim>\<open>memcpy\<close> out of it and
  into it).\<close>

definition mem_bytes :: "bool \<Rightarrow> 'a::len word \<Rightarrow> u8 list" where
  "mem_bytes big w =
     (if big then rev (le_bytes (size_of TYPE('a word)) w) else le_bytes (size_of TYPE('a word)) w)"

definition of_mem_bytes :: "bool \<Rightarrow> u8 list \<Rightarrow> 'a::len word" where
  "of_mem_bytes big bs = (if big then of_le_bytes (rev bs) else of_le_bytes bs)"

definition IsBigEndian :: "bool \<Rightarrow> bool" where
  "IsBigEndian big \<longleftrightarrow> mem_bytes big (0x01020304 :: u32) ! 0 = 1"

definition changeEndianness16 :: "u16 \<Rightarrow> u16" where
  "changeEndianness16 val = push_bit 8 val OR (drop_bit 8 val AND 0x00ff)"

definition changeEndianness32 :: "u32 \<Rightarrow> u32" where
  "changeEndianness32 val =
     push_bit 24 val OR
     (push_bit 8 val AND 0x00ff0000) OR
     (drop_bit 8 val AND 0x0000ff00) OR
     (drop_bit 24 val AND 0x000000ff)"

definition changeEndianness64 :: "u64 \<Rightarrow> u64" where
  "changeEndianness64 val =
     (let x1 = push_bit 32 (val AND 0x00000000FFFFFFFF) OR drop_bit 32 (val AND 0xFFFFFFFF00000000);
          x2 = push_bit 16 (x1 AND 0x0000FFFF0000FFFF) OR drop_bit 16 (x1 AND 0xFFFF0000FFFF0000);
          x3 = push_bit 8 (x2 AND 0x00FF00FF00FF00FF) OR drop_bit 8 (x2 AND 0xFF00FF00FF00FF00)
      in x3)"

definition GetBigEndian16 :: "bool \<Rightarrow> u16 \<Rightarrow> u16" where
  "GetBigEndian16 big val = (if IsBigEndian big then val else changeEndianness16 val)"

definition GetBigEndian32 :: "bool \<Rightarrow> u32 \<Rightarrow> u32" where
  "GetBigEndian32 big val = (if IsBigEndian big then val else changeEndianness32 val)"

definition GetBigEndian64 :: "bool \<Rightarrow> u64 \<Rightarrow> u64" where
  "GetBigEndian64 big val = (if IsBigEndian big then val else changeEndianness64 val)"

definition GetLittleEndian32 :: "bool \<Rightarrow> u32 \<Rightarrow> u32" where
  "GetLittleEndian32 big val = (if \<not> IsBigEndian big then val else changeEndianness32 val)"

definition GetLittleEndian64 :: "bool \<Rightarrow> u64 \<Rightarrow> u64" where
  "GetLittleEndian64 big val = (if \<not> IsBigEndian big then val else changeEndianness64 val)"

text \<open>The pointer helpers read the first bytes at \<open>ptr\<close> and return the bytes they write there.\<close>

definition ReadBE32 :: "bool \<Rightarrow> u8 list \<Rightarrow> u32" where
  "ReadBE32 big ptr = GetBigEndian32 big (of_mem_bytes big (take 4 ptr))"

definition ReadBE64 :: "bool \<Rightarrow> u8 list \<Rightarrow> u64" where
  "ReadBE64 big ptr = GetBigEndian64 big (of_mem_bytes big (take 8 ptr))"

definition WriteBE32 :: "bool \<Rightarrow> u32 \<Rightarrow> u8 list" where
  "WriteBE32 big x = mem_bytes big (GetBigEndian32 big x)"

definition WriteBE64 :: "bool \<Rightarrow> u64 \<Rightarrow> u8 list" where
  "WriteBE64 big x = mem_bytes big (GetBigEndian64 big x)"

definition ReadLE32 :: "bool \<Rightarrow> u8 list \<Rightarrow> u32" where
  "ReadLE32 big ptr = GetLittleEndian32 big (of_mem_bytes big (take 4 ptr))"

definition WriteLE32 :: "bool \<Rightarrow> u32 \<Rightarrow> u8 list" where
  "WriteLE32 big x = mem_bytes big (GetLittleEndian32 big x)"

definition WriteLE64 :: "bool \<Rightarrow> u64 \<Rightarrow> u8 list" where
  "WriteLE64 big x = mem_bytes big (GetLittleEndian64 big x)"

section \<open>Serializer\<close>

datatype EProtocolVersion = V1 | V2

datatype ESerializeLength = LEN_U32 | LEN_U64 | LEN_NONE

record serializer =
  s_protocolVersion :: EProtocolVersion
  s_serialized :: "u8 list"

definition Serializer_new :: "EProtocolVersion \<Rightarrow> serializer" where
  "Serializer_new v = \<lparr>s_protocolVersion = v, s_serialized = []\<rparr>"

definition insert_end :: "u8 list \<Rightarrow> serializer \<Rightarrow> serializer" where
  "insert_end bs s = s\<lparr>s_serialized := s_serialized s @ bs\<rparr>"

definition Append_on :: "bool \<Rightarrow> 'a::len word \<Rightarrow> serializer \<Rightarrow> serializer" where
  "Append_on big t s =
     (let temp = mem_bytes big t
      in if IsBigEndian big then insert_end temp s else insert_end (rev temp) s)"

definition AppendLittleEndian_on :: "bool \<Rightarrow> 'a::len word \<Rightarrow> serializer \<Rightarrow> serializer" where
  "AppendLittleEndian_on big t s =
     (let temp = mem_bytes big t
      in if IsBigEndian big then insert_end (rev temp) s else insert_end temp s)"

definition Append :: "'a::len word \<Rightarrow> serializer \<Rightarrow> serializer" where
  "Append t s = Append_on False t s"

definition AppendLittleEndian :: "'a::len word \<Rightarrow> serializer \<Rightarrow> serializer" where
  "AppendLittleEndian t s = AppendLittleEndian_on False t s"

definition AppendLength :: "ESerializeLength \<Rightarrow> nat \<Rightarrow> serializer \<Rightarrow> serializer" where
  "AppendLength prepend_length len s =
     (if prepend_length = LEN_U64 then Append (of_nat len :: u64) s
      else if prepend_length = LEN_U32 then Append (ucast (of_nat len :: u64) :: u32) s
      else s)"

definition AppendByteVector :: "ESerializeLength \<Rightarrow> u8 list \<Rightarrow> serializer \<Rightarrow> serializer" where
  "AppendByteVector prepend_length vec s = insert_end vec (AppendLength prepend_length (length vec) s)"

definition AppendVarStr :: "u8 list \<Rightarrow> serializer \<Rightarrow> serializer" where
  "AppendVarStr varString s = insert_end varString (AppendLength LEN_U64 (length varString) s)"

definition AppendStr :: "ESerializeLength \<Rightarrow> u8 list \<Rightarrow> serializer \<Rightarrow> serializer" where
  "AppendStr prepend_length str s = insert_end str (AppendLength prepend_length (length str) s)"

definition AppendBigInteger :: "u8 list \<Rightarrow> serializer \<Rightarrow> serializer" where
  "AppendBigInteger bigInteger s = insert_end bigInteger s"

definition GetBytes :: "serializer \<Rightarrow> u8 list" where
  "GetBytes s = s_serialized s"

text \<open>\<^verbatim>\<open>GetSecureBytes\<close> returns a copy and overwrites the serializer's own bytes
  with zeros (\<^verbatim>\<open>cleanse\<close>).\<close>

definition GetSecureBytes :: "serializer \<Rightarrow> u8 list \<times> serializer" where
  "GetSecureBytes s = (s_serialized s, s\<lparr>s_serialized := replicate (length (s_serialized s)) 0\<rparr>)"

section \<open>ByteBuffer\<close>

record byte_buffer =
  b_index :: u64
  b_bytes :: "u8 list"
  b_protocolVersion :: EProtocolVersion

type_synonym 'a reader = "byte_buffer \<Rightarrow> ('a \<times> byte_buffer) result"

definition ByteBuffer_new :: "u8 list \<Rightarrow> EProtocolVersion \<Rightarrow> byte_buffer" where
  "ByteBuffer_new bytes v = \<lparr>b_index = 0, b_bytes = bytes, b_protocolVersion = v\<rparr>"

definition rreturn :: "'a \<Rightarrow> 'a reader" where
  "rreturn x b = Inr (x, b)"

definition rthrow :: "exn \<Rightarrow> 'a reader" where
  "rthrow e b = Inl e"

definition rbind :: "'a reader \<Rightarrow> ('a \<Rightarrow> 'b reader) \<Rightarrow> 'b reader" where
  "rbind m f b = bind_result (m b) (\<lambda>(x, b'). f x b')"

text \<open>The check \<^verbatim>\<open>m_index + n > m_bytes.size()\<close>, in \<^verbatim>\<open>size_t\<close> arithmetic.\<close>

definition past_end :: "u64 \<Rightarrow> byte_buffer \<Rightarrow> bool" where
  "past_end n b \<longleftrightarrow> b_index b + n > of_nat (length (b_bytes b))"

text \<open>The iterator range from \<^verbatim>\<open>cbegin() + m_index\<close> to
  \<^verbatim>\<open>cbegin() + m_index + n\<close>; a range that leaves the vector is undefined.\<close>

definition byte_range :: "u64 \<Rightarrow> byte_buffer \<Rightarrow> u8 list result" where
  "byte_range n b =
     (if unat (b_index b) + unat n \<le> length (b_bytes b)
      then Inr (take (unat n) (drop (unat (b_index b)) (b_bytes b)))
      else Inl UNDEFINED_BEHAVIOUR)"

definition ReadVector :: "u64 \<Rightarrow> u8 list reader" where
  "ReadVector numBytes b =
     (if past_end numBytes b then Inl DESERIALIZATION_EXCEPTION
      else bind_result (byte_range numBytes b)
             (\<lambda>data. Inr (data, b\<lparr>b_index := b_index b + numBytes\<rparr>)))"

definition ReadBigInteger :: "nat \<Rightarrow> u8 list reader" where
  "ReadBigInteger NUM_BYTES = ReadVector (of_nat NUM_BYTES)"

definition ReadArray :: "nat \<Rightarrow> u8 list reader" where
  "ReadArray T = ReadVector (of_nat T)"

definition ReadString :: "u64 \<Rightarrow> u8 list reader" where
  "ReadString len b =
     bind_result (ReadVector len b)
       (\<lambda>(temp, b'). if temp = [] then Inl UNDEFINED_BEHAVIOUR else Inr (temp, b'))"

definition ReadBigEndian_on :: "bool \<Rightarrow> 'a::len word reader" where
  "ReadBigEndian_on big b =
     bind_result (ReadVector (of_nat (size_of TYPE('a word))) b)
       (\<lambda>(data, b'). Inr (of_mem_bytes big (if IsBigEndian big then data else rev data), b'))"

definition ReadLittleEndian_on :: "bool \<Rightarrow> 'a::len word reader" where
  "ReadLittleEndian_on big b =
     bind_result (ReadVector (of_nat (size_of TYPE('a word))) b)
       (\<lambda>(data, b'). Inr (of_mem_bytes big (if IsBigEndian big then rev data else data), b'))"

definition ReadBigEndian :: "'a::len word reader" where
  "ReadBigEndian = ReadBigEndian_on False"

definition ReadU8 :: "u8 reader" where "ReadU8 = ReadBigEndian"
definition ReadU16 :: "u16 reader" where "ReadU16 = ReadBigEndian"
definition ReadU32 :: "u32 reader" where "ReadU32 = ReadBigEndian"
definition ReadU64 :: "u64 reader" where "ReadU64 = ReadBigEndian"
definition Read8 :: "8 word reader" where "Read8 = ReadBigEndian"
definition Read16 :: "16 word reader" where "Read16 = ReadBigEndian"
definition Read32 :: "32 word reader" where "Read32 = ReadBigEndian"
definition Read64 :: "i64 reader" where "Read64 = ReadBigEndian"
definition ReadU64_LE :: "u64 reader" where "ReadU64_LE = ReadLittleEndian_on False"

definition ReadVarStr :: "u8 list reader" where
  "ReadVarStr =
     rbind ReadU64 (\<lambda>stringLength.
       if stringLength = 0 then rreturn [] else ReadVector stringLength)"

definition GetRemainingSize :: "byte_buffer \<Rightarrow> u64" where
  "GetRemainingSize b = of_nat (length (b_bytes b)) - b_index b"

definition ReadRemainingBytes :: "u8 list reader" where
  "ReadRemainingBytes b = ReadVector (GetRemainingSize b) b"

text \<open>The loop \<^verbatim>\<open>for (i = 0; i < n; i++) xs.emplace_back(T::Deserialize(byteBuffer))\<close>.\<close>

primrec read_n :: "nat \<Rightarrow> 'a reader \<Rightarrow> 'a list reader" where
  "read_n 0 d = rreturn []"
| "read_n (Suc n) d = rbind d (\<lambda>x. rbind (read_n n d) (\<lambda>xs. rreturn (x # xs)))"

text \<open>The big-endian image of a word: what the wire format of every integer field is.\<close>

definition be_bytes :: "'a::len word \<Rightarrow> u8 list" where
  "be_bytes w = rev (le_bytes (size_of TYPE('a word)) w)"

text \<open>A buffer positioned after \<open>pre\<close> with \<open>rest\<close> still to read.\<close>

definition buf :: "EProtocolVersion \<Rightarrow> u8 list \<Rightarrow> u8 list \<Rightarrow> byte_buffer" where
  "buf v pre rest = \<lparr>b_index = of_nat (length pre), b_bytes = pre @ rest, b_protocolVersion = v\<rparr>"

definition buffer_ok :: "byte_buffer \<Rightarrow> bool" where
  "buffer_ok b \<longleftrightarrow> unat (b_index b) \<le> length (b_bytes b) \<and> length (b_bytes b) < 2 ^ 64"

named_theorems codec_simps \<open>evaluation of readers on buffers that hold encodings\<close>

section \<open>Host byte order\<close>

lemma IsBigEndian_iff [simp]: "IsBigEndian big \<longleftrightarrow> big"
proof -
  have "le_bytes 4 (0x01020304 :: u32) = [4, 3, 2, 1]" by code_simp
  then show ?thesis by (simp add: IsBigEndian_def mem_bytes_def)
qed

lemma length_mem_bytes [simp]: "length (mem_bytes big (w :: 'a::len word)) = size_of TYPE('a word)"
  by (simp add: mem_bytes_def)

lemma length_be_bytes [simp, byte_simps]:
  "length (be_bytes (w :: 'a::len word)) = size_of TYPE('a word)"
  by (simp add: be_bytes_def)

lemma Append_on_bytes: "Append_on big t s = insert_end (be_bytes t) s"
  by (simp add: Append_on_def mem_bytes_def be_bytes_def)

lemma Append_on_host_independent: "Append_on big t s = Append t s"
  by (simp add: Append_def Append_on_bytes)

lemma Append_bytes [codec_simps]: "Append t s = insert_end (be_bytes t) s"
  by (simp add: Append_def Append_on_bytes)

lemma AppendLittleEndian_on_host_independent:
  "AppendLittleEndian_on big t s = AppendLittleEndian t s"
  by (simp add: AppendLittleEndian_def AppendLittleEndian_on_def mem_bytes_def)

lemma ReadBigEndian_on_host_independent: "ReadBigEndian_on big = ReadBigEndian"
  by (cases big; rule ext) (simp_all add: ReadBigEndian_def ReadBigEndian_on_def of_mem_bytes_def)

lemma ReadLittleEndian_on_host_independent: "ReadLittleEndian_on big = ReadLittleEndian_on False"
  by (cases big; rule ext) (simp_all add: ReadLittleEndian_on_def of_mem_bytes_def)

section \<open>Byte swaps\<close>

lemma less_8_cases:
  "n < (8::nat) \<Longrightarrow> n = 0 \<or> n = 1 \<or> n = 2 \<or> n = 3 \<or> n = 4 \<or> n = 5 \<or> n = 6 \<or> n = 7"
  by auto

lemma u8_eqI:
  fixes a b :: u8
  assumes "bit a 0 = bit b 0" "bit a 1 = bit b 1" "bit a 2 = bit b 2" "bit a 3 = bit b 3"
    "bit a 4 = bit b 4" "bit a 5 = bit b 5" "bit a 6 = bit b 6" "bit a 7 = bit b 7"
  shows "a = b"
  using assms by (intro bit_word_eqI) (auto dest!: less_8_cases)

lemma le_bytes_2: "le_bytes 2 w = [ucast w, ucast (drop_bit 8 w)]"
  by (simp add: numeral_2_eq_2)

lemma le_bytes_4:
  "le_bytes 4 w = [ucast w, ucast (drop_bit 8 w), ucast (drop_bit 16 w), ucast (drop_bit 24 w)]"
  by (simp add: numeral_eq_Suc)

lemma le_bytes_8:
  "le_bytes 8 w =
     [ucast w, ucast (drop_bit 8 w), ucast (drop_bit 16 w), ucast (drop_bit 24 w),
      ucast (drop_bit 32 w), ucast (drop_bit 40 w), ucast (drop_bit 48 w), ucast (drop_bit 56 w)]"
  by (simp add: numeral_eq_Suc)

lemma changeEndianness16_bytes: "le_bytes 2 (changeEndianness16 w) = rev (le_bytes 2 w)"
  unfolding changeEndianness16_def le_bytes_2
  by (auto intro!: u8_eqI simp: bit_simps)

lemma changeEndianness32_bytes: "le_bytes 4 (changeEndianness32 w) = rev (le_bytes 4 w)"
  unfolding changeEndianness32_def le_bytes_4
  by (auto intro!: u8_eqI simp: bit_simps)

lemma changeEndianness64_bytes: "le_bytes 8 (changeEndianness64 w) = rev (le_bytes 8 w)"
  unfolding changeEndianness64_def le_bytes_8 Let_def
  by (auto intro!: u8_eqI simp: bit_simps)

lemma WriteBE64_bytes: "WriteBE64 big w = be_bytes w"
  by (simp add: WriteBE64_def GetBigEndian64_def mem_bytes_def be_bytes_def changeEndianness64_bytes)

lemma WriteBE32_bytes: "WriteBE32 big w = be_bytes w"
  by (simp add: WriteBE32_def GetBigEndian32_def mem_bytes_def be_bytes_def changeEndianness32_bytes)

lemma WriteLE32_bytes: "WriteLE32 big w = le_bytes 4 w"
  by (simp add: WriteLE32_def GetLittleEndian32_def mem_bytes_def changeEndianness32_bytes)

lemma WriteLE64_bytes: "WriteLE64 big w = le_bytes 8 w"
  by (simp add: WriteLE64_def GetLittleEndian64_def mem_bytes_def changeEndianness64_bytes)

lemma changeEndianness32_involution [simp]: "changeEndianness32 (changeEndianness32 w) = w"
proof -
  have "le_bytes 4 (changeEndianness32 (changeEndianness32 w)) = le_bytes 4 w"
    by (simp add: changeEndianness32_bytes)
  then have "(of_le_bytes (le_bytes 4 (changeEndianness32 (changeEndianness32 w))) :: u32) =
             of_le_bytes (le_bytes 4 w)" by simp
  then show ?thesis by simp
qed

lemma changeEndianness64_involution [simp]: "changeEndianness64 (changeEndianness64 w) = w"
proof -
  have "le_bytes 8 (changeEndianness64 (changeEndianness64 w)) = le_bytes 8 w"
    by (simp add: changeEndianness64_bytes)
  then have "(of_le_bytes (le_bytes 8 (changeEndianness64 (changeEndianness64 w))) :: u64) =
             of_le_bytes (le_bytes 8 w)" by simp
  then show ?thesis by simp
qed

lemma of_mem_bytes_mem_bytes:
  "8 * size_of TYPE('a::len word) = LENGTH('a) \<Longrightarrow> of_mem_bytes big (mem_bytes big (w :: 'a word)) = w"
  by (simp add: of_mem_bytes_def mem_bytes_def)

lemma ReadBE32_WriteBE32: "ReadBE32 big (WriteBE32 big w @ rest) = w"
  by (simp add: ReadBE32_def WriteBE32_def GetBigEndian32_def of_mem_bytes_mem_bytes)

lemma ReadBE64_WriteBE64: "ReadBE64 big (WriteBE64 big w @ rest) = w"
  by (simp add: ReadBE64_def WriteBE64_def GetBigEndian64_def of_mem_bytes_mem_bytes)

lemma ReadLE32_WriteLE32: "ReadLE32 big (WriteLE32 big w @ rest) = w"
  by (simp add: ReadLE32_def WriteLE32_def GetLittleEndian32_def of_mem_bytes_mem_bytes)

section \<open>Writers\<close>

lemma insert_end_Nil [simp, codec_simps]: "insert_end [] s = s"
  by (simp add: insert_end_def)

lemma insert_end_insert_end [simp, codec_simps]:
  "insert_end ys (insert_end xs s) = insert_end (xs @ ys) s"
  by (simp add: insert_end_def)

lemma insert_end_fields [simp, codec_simps]:
  "s_protocolVersion (insert_end xs s) = s_protocolVersion s"
  "s_serialized (insert_end xs s) = s_serialized s @ xs"
  by (simp_all add: insert_end_def)

lemma Serializer_new_fields [simp, codec_simps]:
  "s_protocolVersion (Serializer_new v) = v" "s_serialized (Serializer_new v) = []"
  by (simp_all add: Serializer_new_def)

lemmas writer_defs =
  Append_bytes AppendByteVector_def AppendVarStr_def AppendStr_def AppendBigInteger_def AppendLength_def

section \<open>Readers\<close>

lemma rreturn_apply [simp, codec_simps]: "rreturn x b = Inr (x, b)"
  by (simp add: rreturn_def)

lemma rthrow_apply [simp, codec_simps]: "rthrow e b = Inl e"
  by (simp add: rthrow_def)

lemma rbind_Inr [codec_simps]: "m b = Inr (x, b') \<Longrightarrow> rbind m f b = f x b'"
  by (simp add: rbind_def)

lemma rbind_eq_Inr_iff:
  "rbind m f b = Inr r \<longleftrightarrow> (\<exists>x b'. m b = Inr (x, b') \<and> f x b' = Inr r)"
  by (auto simp add: rbind_def bind_result_eq_Inr_iff)

lemma buf_version [simp]: "b_protocolVersion (buf v pre rest) = v"
  by (simp add: buf_def)

lemma ByteBuffer_new_buf: "ByteBuffer_new bytes v = buf v [] bytes"
  by (simp add: ByteBuffer_new_def buf_def)

lemma buffer_ok_buf:
  assumes "buffer_ok b"
  shows "b = buf (b_protocolVersion b) (take (unat (b_index b)) (b_bytes b)) (drop (unat (b_index b)) (b_bytes b))"
  using assms by (simp add: buffer_ok_def buf_def min.absorb2)

lemma past_end_buf:
  assumes "length pre + length rest < 2 ^ 64" and "unat n \<le> length rest"
  shows "\<not> past_end n (buf v pre rest)"
proof -
  have "unat (of_nat (length pre) + n) = length pre + unat n"
    using assms by (simp add: unat_plus_if' unat_of_nat_small)
  then show ?thesis
    using assms by (simp add: past_end_def buf_def word_less_nat_alt unat_of_nat_small del: of_nat_add)
qed

lemma ReadVector_buf [codec_simps]:
  assumes "length pre + length (xs @ post) < 2 ^ 64" and "unat n = length xs"
  shows "ReadVector n (buf v pre (xs @ post)) = Inr (xs, buf v (pre @ xs) post)"
proof -
  have np: "\<not> past_end n (buf v pre (xs @ post))"
    using assms by (intro past_end_buf) simp_all
  have "n = of_nat (length xs)"
    using assms(2) by (metis of_nat_unat ucast_id)
  then have "b_index (buf v pre (xs @ post)) + n = of_nat (length (pre @ xs))"
    by (simp add: buf_def)
  moreover have "byte_range n (buf v pre (xs @ post)) = Inr xs"
    using assms by (simp add: byte_range_def buf_def unat_of_nat_small)
  ultimately show ?thesis
    using np by (simp add: ReadVector_def) (simp add: buf_def)
qed

lemma ReadVector_buf_inv:
  assumes "ReadVector n (buf v pre rest) = Inr (xs, b')" and "length pre + length rest < 2 ^ 64"
  shows "\<exists>post. rest = xs @ post \<and> b' = buf v (pre @ xs) post \<and> length xs = unat n"
proof -
  from assms(1) have "byte_range n (buf v pre rest) = Inr xs"
    by (auto simp add: ReadVector_def bind_result_eq_Inr_iff split: if_splits)
  then have len: "unat n \<le> length rest" and xs: "xs = take (unat n) rest"
    using assms(2) by (auto simp add: byte_range_def buf_def unat_of_nat_small split: if_splits)
  then have rest: "rest = xs @ drop (unat n) rest" by simp
  have "ReadVector n (buf v pre (xs @ drop (unat n) rest)) = Inr (xs, buf v (pre @ xs) (drop (unat n) rest))"
    using assms(2) len xs by (intro ReadVector_buf) simp_all
  with rest assms(1) have "b' = buf v (pre @ xs) (drop (unat n) rest)" by simp
  then show ?thesis using rest len xs by (intro exI [of _ "drop (unat n) rest"]) simp
qed

lemma ReadBigInteger_buf [codec_simps]:
  assumes "length pre + length (xs @ post) < 2 ^ 64" and "length xs = n"
  shows "ReadBigInteger n (buf v pre (xs @ post)) = Inr (xs, buf v (pre @ xs) post)"
  using assms by (simp add: ReadBigInteger_def ReadVector_buf unat_of_nat_small)

lemma ReadBigInteger_buf_inv:
  assumes "ReadBigInteger n (buf v pre rest) = Inr (xs, b')" and "length pre + length rest < 2 ^ 64"
    and "n < 2 ^ 64"
  shows "length xs = n \<and> (\<exists>post. rest = xs @ post \<and> b' = buf v (pre @ xs) post)"
  using ReadVector_buf_inv [of "of_nat n" v pre rest xs b'] assms
  by (auto simp add: ReadBigInteger_def unat_of_nat_small)

lemma of_be_bytes: "8 * size_of TYPE('a::len word) = LENGTH('a) \<Longrightarrow> of_le_bytes (rev (be_bytes (w :: 'a word))) = w"
  by (simp add: be_bytes_def)

lemma be_bytes_of_le_bytes:
  assumes "8 * size_of TYPE('a::len word) = LENGTH('a)" and "length bs = size_of TYPE('a word)"
  shows "be_bytes (of_le_bytes (rev bs) :: 'a word) = bs"
proof -
  have "le_bytes (length (rev bs)) (of_le_bytes (rev bs) :: 'a word) = rev bs"
    using assms by (intro le_bytes_of_le_bytes) simp
  then show ?thesis using assms by (simp add: be_bytes_def)
qed

lemma ReadBigEndian_buf:
  fixes w :: "'a::len word"
  assumes sz: "8 * size_of TYPE('a word) = LENGTH('a)" "size_of TYPE('a word) < 2 ^ 64"
    and len: "length pre + length (be_bytes w @ post) < 2 ^ 64"
  shows "ReadBigEndian (buf v pre (be_bytes w @ post)) = Inr (w, buf v (pre @ be_bytes w) post)"
proof -
  have "ReadVector (of_nat (size_of TYPE('a word))) (buf v pre (be_bytes w @ post)) =
          Inr (be_bytes w, buf v (pre @ be_bytes w) post)"
    using len sz by (intro ReadVector_buf) (simp_all add: unat_of_nat_small)
  then show ?thesis
    using sz by (simp add: ReadBigEndian_def ReadBigEndian_on_def of_mem_bytes_def of_be_bytes)
qed

lemma ReadBigEndian_buf_inv:
  fixes w :: "'a::len word"
  assumes sz: "8 * size_of TYPE('a word) = LENGTH('a)" "size_of TYPE('a word) < 2 ^ 64"
    and len: "length pre + length rest < 2 ^ 64"
    and rd: "ReadBigEndian (buf v pre rest) = Inr (w, b')"
  shows "\<exists>post. rest = be_bytes w @ post \<and> b' = buf v (pre @ be_bytes w) post"
proof -
  from rd obtain data where
    dat: "ReadVector (of_nat (size_of TYPE('a word))) (buf v pre rest) = Inr (data, b')"
    and w: "w = of_le_bytes (rev data)"
    by (auto simp add: ReadBigEndian_def ReadBigEndian_on_def of_mem_bytes_def bind_result_eq_Inr_iff)
  from ReadVector_buf_inv [OF dat len] obtain post where
    "rest = data @ post" "b' = buf v (pre @ data) post" "length data = size_of TYPE('a word)"
    using sz by (auto simp add: unat_of_nat_small)
  moreover from this w sz have "be_bytes w = data" by (simp add: be_bytes_of_le_bytes)
  ultimately show ?thesis by auto
qed

lemmas ReadInt_defs = ReadU8_def ReadU16_def ReadU32_def ReadU64_def Read64_def

lemma ReadInt_buf [codec_simps]:
  "length pre + length (be_bytes (a :: u8) @ post) < 2 ^ 64 \<Longrightarrow>
     ReadU8 (buf v pre (be_bytes a @ post)) = Inr (a, buf v (pre @ be_bytes a) post)"
  "length pre + length (be_bytes (b :: u16) @ post) < 2 ^ 64 \<Longrightarrow>
     ReadU16 (buf v pre (be_bytes b @ post)) = Inr (b, buf v (pre @ be_bytes b) post)"
  "length pre + length (be_bytes (c :: u32) @ post) < 2 ^ 64 \<Longrightarrow>
     ReadU32 (buf v pre (be_bytes c @ post)) = Inr (c, buf v (pre @ be_bytes c) post)"
  "length pre + length (be_bytes (d :: u64) @ post) < 2 ^ 64 \<Longrightarrow>
     ReadU64 (buf v pre (be_bytes d @ post)) = Inr (d, buf v (pre @ be_bytes d) post)"
  "length pre + length (be_bytes (e :: i64) @ post) < 2 ^ 64 \<Longrightarrow>
     Read64 (buf v pre (be_bytes e @ post)) = Inr (e, buf v (pre @ be_bytes e) post)"
  unfolding ReadInt_defs by (intro ReadBigEndian_buf; simp)+

lemma ReadInt_buf_inv:
  "ReadU8 (buf v pre rest) = Inr (a, b') \<Longrightarrow> length pre + length rest < 2 ^ 64 \<Longrightarrow>
     \<exists>post. rest = be_bytes a @ post \<and> b' = buf v (pre @ be_bytes a) post"
  "ReadU16 (buf v pre rest) = Inr (b, b') \<Longrightarrow> length pre + length rest < 2 ^ 64 \<Longrightarrow>
     \<exists>post. rest = be_bytes b @ post \<and> b' = buf v (pre @ be_bytes b) post"
  "ReadU32 (buf v pre rest) = Inr (c, b') \<Longrightarrow> length pre + length rest < 2 ^ 64 \<Longrightarrow>
     \<exists>post. rest = be_bytes c @ post \<and> b' = buf v (pre @ be_bytes c) post"
  "ReadU64 (buf v pre rest) = Inr (d, b') \<Longrightarrow> length pre + length rest < 2 ^ 64 \<Longrightarrow>
     \<exists>post. rest = be_bytes d @ post \<and> b' = buf v (pre @ be_bytes d) post"
  "Read64 (buf v pre rest) = Inr (e, b') \<Longrightarrow> length pre + length rest < 2 ^ 64 \<Longrightarrow>
     \<exists>post. rest = be_bytes e @ post \<and> b' = buf v (pre @ be_bytes e) post"
  unfolding ReadInt_defs by (intro ReadBigEndian_buf_inv; simp)+

section \<open>Composing readers\<close>

text \<open>\<open>decodes v m e x\<close>: the reader returns \<open>x\<close> on every buffer that continues with the
  bytes \<open>e\<close> and moves past them. \<open>consumes v m P\<close>: whatever the reader returns, the bytes it
  moved past are related to the result by \<open>P\<close>.\<close>

definition decodes :: "EProtocolVersion \<Rightarrow> 'a reader \<Rightarrow> u8 list \<Rightarrow> 'a \<Rightarrow> bool" where
  "decodes v m e x \<longleftrightarrow> (\<forall>pre post. length pre + length (e @ post) < 2 ^ 64 \<longrightarrow>
     m (buf v pre (e @ post)) = Inr (x, buf v (pre @ e) post))"

definition consumes :: "EProtocolVersion \<Rightarrow> 'a reader \<Rightarrow> (u8 list \<Rightarrow> 'a \<Rightarrow> bool) \<Rightarrow> bool" where
  "consumes v m P \<longleftrightarrow> (\<forall>pre rest x b'. length pre + length rest < 2 ^ 64 \<longrightarrow> m (buf v pre rest) = Inr (x, b') \<longrightarrow>
     (\<exists>e post. P e x \<and> rest = e @ post \<and> b' = buf v (pre @ e) post))"

lemma decodes_new:
  "decodes v m e x \<Longrightarrow> length e < 2 ^ 64 \<Longrightarrow> m (ByteBuffer_new e v) = Inr (x, buf v e [])"
  using append_Nil2 unfolding decodes_def ByteBuffer_new_buf by (metis append_Nil length_0_conv plus_nat.add_0)

lemma decodes_return: "decodes v (rreturn x) [] x"
  by (simp add: decodes_def)

lemma decodes_bind:
  assumes m: "decodes v m e x" and f: "decodes v (f x) e' y"
  shows "decodes v (rbind m f) (e @ e') y"
  unfolding decodes_def
proof (intro allI impI)
  fix pre post :: "u8 list"
  assume len: "length pre + length ((e @ e') @ post) < 2 ^ 64"
  then have "m (buf v pre (e @ (e' @ post))) = Inr (x, buf v (pre @ e) (e' @ post))"
    using m unfolding decodes_def by (metis append_assoc)
  moreover have "f x (buf v (pre @ e) (e' @ post)) = Inr (y, buf v ((pre @ e) @ e') post)"
    using f len unfolding decodes_def by (metis append_assoc length_append add.assoc)
  ultimately show "rbind m f (buf v pre ((e @ e') @ post)) = Inr (y, buf v (pre @ (e @ e')) post)"
    by (simp add: rbind_Inr)
qed

lemma decodes_last: "decodes v m e x \<Longrightarrow> f x = rreturn y \<Longrightarrow> decodes v (rbind m f) e y"
  using decodes_bind [of v m e x f "[]" y] by (simp add: decodes_return)

lemma decodes_ReadInt:
  "decodes v ReadU8 (be_bytes a) a" "decodes v ReadU16 (be_bytes b) b" "decodes v ReadU32 (be_bytes c) c"
  "decodes v ReadU64 (be_bytes d) d" "decodes v Read64 (be_bytes e) e"
  by (simp_all add: decodes_def ReadInt_buf)

lemmas decodes_int = decodes_ReadInt [THEN decodes_bind]

lemma decodes_ReadBigInteger: "length x = n \<Longrightarrow> decodes v (ReadBigInteger n) x x"
  by (simp add: decodes_def ReadBigInteger_buf)

lemma decodes_ReadVector: "length x = unat n \<Longrightarrow> decodes v (ReadVector n) x x"
  by (simp add: decodes_def ReadVector_buf)

lemma consumes_return: "P [] x \<Longrightarrow> consumes v (rreturn x) P"
  by (auto simp: consumes_def)

lemma consumes_throw: "consumes v (rthrow ex) P"
  by (auto simp: consumes_def)

lemma consumes_bind:
  assumes m: "consumes v m P" and f: "\<And>x e. P e x \<Longrightarrow> consumes v (f x) (\<lambda>e' y. Q (e @ e') y)"
  shows "consumes v (rbind m f) Q"
  unfolding consumes_def
proof (intro allI impI)
  fix pre rest y b'
  assume len: "length pre + length rest < 2 ^ 64" and r: "rbind m f (buf v pre rest) = Inr (y, b')"
  then obtain x b1 where x: "m (buf v pre rest) = Inr (x, b1)" "f x b1 = Inr (y, b')"
    by (auto simp: rbind_eq_Inr_iff)
  with m len obtain e p where e: "P e x" "rest = e @ p" "b1 = buf v (pre @ e) p"
    unfolding consumes_def by blast
  have "length (pre @ e) + length p < 2 ^ 64" using len e(2) by simp
  with f [OF e(1)] x(2) e(3) obtain e' q where "Q (e @ e') y" "p = e' @ q" "b' = buf v ((pre @ e) @ e') q"
    unfolding consumes_def by blast
  with e show "\<exists>e post. Q e y \<and> rest = e @ post \<and> b' = buf v (pre @ e) post"
    by (intro exI [of _ "e @ e'"] exI [of _ q]) simp
qed

lemma consumes_weaken: "consumes v m P \<Longrightarrow> (\<And>e x. P e x \<Longrightarrow> Q e x) \<Longrightarrow> consumes v m Q"
  unfolding consumes_def by blast

lemma consumes_ReadInt:
  "consumes v ReadU8 (\<lambda>e x. e = be_bytes x)" "consumes v ReadU16 (\<lambda>e x. e = be_bytes x)"
  "consumes v ReadU32 (\<lambda>e x. e = be_bytes x)" "consumes v ReadU64 (\<lambda>e x. e = be_bytes x)"
  "consumes v Read64 (\<lambda>e x. e = be_bytes x)"
  unfolding consumes_def by (auto dest: ReadInt_buf_inv)

lemmas consumes_int = consumes_ReadInt [THEN consumes_bind]

lemma consumes_ReadBigInteger: "n < 2 ^ 64 \<Longrightarrow> consumes v (ReadBigInteger n) (\<lambda>e x. e = x \<and> length x = n)"
  unfolding consumes_def by (auto dest: ReadBigInteger_buf_inv)

lemma consumes_ReadVector: "consumes v (ReadVector n) (\<lambda>e x. e = x \<and> length x = unat n)"
  unfolding consumes_def by (auto dest: ReadVector_buf_inv)

section \<open>The interface of a serializable model\<close>

text \<open>
  \<open>ser\<close> and \<open>des\<close> are a class's \<^verbatim>\<open>Serialize\<close> and
  \<^verbatim>\<open>Deserialize\<close>, \<open>enc\<close> its wire format and \<open>ok\<close> the values the
  format can carry. Every serializable model of the development interprets it.
\<close>

locale codec =
  fixes ser :: "'a \<Rightarrow> serializer \<Rightarrow> serializer"
    and des :: "'a reader"
    and enc :: "EProtocolVersion \<Rightarrow> 'a \<Rightarrow> u8 list"
    and ok :: "EProtocolVersion \<Rightarrow> 'a \<Rightarrow> bool"
  assumes ser_enc: "ser x s = insert_end (enc (s_protocolVersion s) x) s"
    and des_enc: "ok v x \<Longrightarrow> length pre + length (enc v x @ post) < 2 ^ 64 \<Longrightarrow>
          des (buf v pre (enc v x @ post)) = Inr (x, buf v (pre @ enc v x) post)"
begin

lemma des_decodes: "ok v x \<Longrightarrow> decodes v des (enc v x) x"
  by (simp add: decodes_def des_enc)

lemma roundtrip:
  assumes "ok v x" and "length (enc v x) < 2 ^ 64"
  shows "des (ByteBuffer_new (GetBytes (ser x (Serializer_new v))) v) = Inr (x, buf v (enc v x) [])"
  using des_enc [of v x "[]" "[]"] assms by (simp add: ser_enc ByteBuffer_new_buf GetBytes_def)

lemma fold_ser: "fold ser xs s = insert_end (concat (map (enc (s_protocolVersion s)) xs)) s"
  by (induction xs arbitrary: s) (simp_all add: ser_enc)

lemma read_n_enc:
  assumes "list_all (ok v) xs" and "length pre + length (concat (map (enc v) xs) @ post) < 2 ^ 64"
  shows "read_n (length xs) des (buf v pre (concat (map (enc v) xs) @ post)) =
           Inr (xs, buf v (pre @ concat (map (enc v) xs)) post)"
  using assms
proof (induction xs arbitrary: pre)
  case Nil
  then show ?case by simp
next
  case (Cons x xs)
  have "des (buf v pre (enc v x @ concat (map (enc v) xs) @ post)) =
          Inr (x, buf v (pre @ enc v x) (concat (map (enc v) xs) @ post))"
    using Cons.prems by (intro des_enc) simp_all
  moreover have "read_n (length xs) des (buf v (pre @ enc v x) (concat (map (enc v) xs) @ post)) =
          Inr (xs, buf v ((pre @ enc v x) @ concat (map (enc v) xs)) post)"
    using Cons.prems by (intro Cons.IH) simp_all
  ultimately show ?case by (simp add: rbind_Inr)
qed

lemma read_n_decodes:
  "list_all (ok v) xs \<Longrightarrow> n = length xs \<Longrightarrow> decodes v (read_n n des) (concat (map (enc v) xs)) xs"
  by (simp add: decodes_def read_n_enc)

lemma enc_prefix_free:
  assumes "ok v x" "ok v y" "enc v x @ p = enc v y @ q" "length (enc v x @ p) < 2 ^ 64"
  shows "x = y \<and> p = q"
  using des_enc [of v x "[]" p] des_enc [of v y "[]" q] assms by (auto simp: buf_def)

end

text \<open>A format that is canonical in some protocol versions: what is accepted is exactly the
  encoding of the result.\<close>

locale canonical_codec = codec +
  fixes canonical :: "EProtocolVersion \<Rightarrow> bool"
  assumes des_inv: "canonical v \<Longrightarrow> des (buf v pre rest) = Inr (x, b') \<Longrightarrow> length pre + length rest < 2 ^ 64 \<Longrightarrow>
    ok v x \<and> (\<exists>post. rest = enc v x @ post \<and> b' = buf v (pre @ enc v x) post)"
begin

lemma des_consumes: "canonical v \<Longrightarrow> consumes v des (\<lambda>e x. e = enc v x \<and> ok v x)"
  unfolding consumes_def by (auto dest: des_inv)

lemma read_n_inv:
  assumes "canonical v" and "read_n n des (buf v pre rest) = Inr (xs, b')" and "length pre + length rest < 2 ^ 64"
  shows "length xs = n \<and> list_all (ok v) xs \<and>
    (\<exists>post. rest = concat (map (enc v) xs) @ post \<and> b' = buf v (pre @ concat (map (enc v) xs)) post)"
  using assms
proof (induction n arbitrary: pre rest xs)
  case 0
  then show ?case by auto
next
  case (Suc n)
  from Suc.prems(2) obtain x b1 ys where
    x: "des (buf v pre rest) = Inr (x, b1)" and ys: "read_n n des b1 = Inr (ys, b')"
    and xs: "xs = x # ys"
    by (auto simp add: rbind_eq_Inr_iff)
  from des_inv [OF Suc.prems(1) x Suc.prems(3)] obtain post where
    okx: "ok v x" and rest: "rest = enc v x @ post" and b1: "b1 = buf v (pre @ enc v x) post"
    by auto
  have "length ys = n \<and> list_all (ok v) ys \<and>
    (\<exists>post'. post = concat (map (enc v) ys) @ post' \<and>
       b' = buf v ((pre @ enc v x) @ concat (map (enc v) ys)) post')"
    using ys b1 Suc.prems(1,3) rest by (intro Suc.IH) simp_all
  then show ?case using okx rest xs by auto
qed

lemma read_n_consumes:
  "canonical v \<Longrightarrow> consumes v (read_n n des) (\<lambda>e xs. e = concat (map (enc v) xs) \<and> list_all (ok v) xs \<and> length xs = n)"
  unfolding consumes_def by (auto dest: read_n_inv)

end

lemma codecI:
  assumes "\<And>x s. ser x s = insert_end (enc (s_protocolVersion s) x) s"
    and "\<And>v x. ok v x \<Longrightarrow> decodes v des (enc v x) x"
  shows "codec ser des enc ok"
  using assms by unfold_locales (simp_all add: decodes_def)

lemma canonical_codecI:
  assumes "\<And>x s. ser x s = insert_end (enc (s_protocolVersion s) x) s"
    and "\<And>v x. ok v x \<Longrightarrow> decodes v des (enc v x) x"
    and "\<And>v. canonical v \<Longrightarrow> consumes v des (\<lambda>e x. e = enc v x \<and> ok v x)"
  shows "canonical_codec ser des enc ok canonical"
  using codecI [OF assms(1,2)] assms(3)
  by (intro canonical_codec.intro canonical_codec_axioms.intro) (force simp: consumes_def)+

end
