(* ===== verification/Consensus.thy ===== *)
theory Consensus
  imports Prelude
begin

text \<open>
  Consensus constants and rules (\<^verbatim>\<open>include/Consensus\<close>): block times and heights,
  block weights, the reward, hard forks, the graph weights and the damping and clamping used
  by difficulty adjustment. All arithmetic is that of \<^verbatim>\<open>uint64_t\<close>; a shift by the
  width of the word or more is undefined in C++ and is an error of the model.
\<close>

section \<open>EnvironmentType\<close>

datatype EEnvironmentType = MAINNET | FLOONET | AUTOMATED_TESTING

section \<open>Block time\<close>

definition BLOCK_TIME_SEC :: u64 where "BLOCK_TIME_SEC = 60"

text \<open>\<open>currentTime\<close> and the result count ticks of \<^verbatim>\<open>std::chrono::system_clock\<close>;
  \<open>ticks_per_second\<close> is the resolution of that clock on the platform.\<close>

definition GetMaxBlockTime :: "int \<Rightarrow> int \<Rightarrow> int" where
  "GetMaxBlockTime ticks_per_second currentTime =
     currentTime + uint (12 * BLOCK_TIME_SEC) * ticks_per_second"

definition HOUR_HEIGHT :: u64 where "HOUR_HEIGHT = 3600 div BLOCK_TIME_SEC"
definition DAY_HEIGHT :: u64 where "DAY_HEIGHT = 24 * HOUR_HEIGHT"
definition WEEK_HEIGHT :: u64 where "WEEK_HEIGHT = 7 * DAY_HEIGHT"
definition YEAR_HEIGHT :: u64 where "YEAR_HEIGHT = 52 * WEEK_HEIGHT"
definition COINBASE_MATURITY :: u64 where "COINBASE_MATURITY = (24 * 60 * 60) div BLOCK_TIME_SEC"

definition GetMaxCoinbaseHeight :: "EEnvironmentType \<Rightarrow> u64 \<Rightarrow> u64" where
  "GetMaxCoinbaseHeight environment blockHeight =
     (if environment = AUTOMATED_TESTING then max blockHeight 25 - 25
      else max blockHeight COINBASE_MATURITY - COINBASE_MATURITY)"

definition CUT_THROUGH_HORIZON :: u32 where "CUT_THROUGH_HORIZON = ucast WEEK_HEIGHT"

definition GetHorizonHeight :: "u64 \<Rightarrow> u64" where
  "GetHorizonHeight blockHeight = max blockHeight (ucast CUT_THROUGH_HORIZON) - ucast CUT_THROUGH_HORIZON"

definition STATE_SYNC_THRESHOLD :: u32 where "STATE_SYNC_THRESHOLD = ucast (2 * DAY_HEIGHT)"
definition MEDIAN_TIME_WINDOW :: u64 where "MEDIAN_TIME_WINDOW = 11"
definition MEDIAN_TIME_INDEX :: u64 where "MEDIAN_TIME_INDEX = MEDIAN_TIME_WINDOW div 2"
definition DIFFICULTY_ADJUST_WINDOW :: u64 where "DIFFICULTY_ADJUST_WINDOW = HOUR_HEIGHT"
definition BLOCK_TIME_WINDOW :: u64 where "BLOCK_TIME_WINDOW = DIFFICULTY_ADJUST_WINDOW * BLOCK_TIME_SEC"
definition UPPER_TIME_BOUND :: u64 where "UPPER_TIME_BOUND = BLOCK_TIME_WINDOW * 2"
definition LOWER_TIME_BOUND :: u64 where "LOWER_TIME_BOUND = BLOCK_TIME_WINDOW div 2"

section \<open>Block weight and reward\<close>

definition BLOCK_INPUT_WEIGHT :: u8 where "BLOCK_INPUT_WEIGHT = 1"
definition BLOCK_OUTPUT_WEIGHT :: u8 where "BLOCK_OUTPUT_WEIGHT = 21"
definition BLOCK_KERNEL_WEIGHT :: u8 where "BLOCK_KERNEL_WEIGHT = 3"
definition MAX_BLOCK_WEIGHT :: u32 where "MAX_BLOCK_WEIGHT = 40000"

definition GRIN_BASE :: u64 where "GRIN_BASE = 1000000000"
definition MILLI_GRIN :: u64 where "MILLI_GRIN = GRIN_BASE div 1000"
definition MICRO_GRIN :: u64 where "MICRO_GRIN = MILLI_GRIN div 1000"
definition NANO_GRIN :: u64 where "NANO_GRIN = 1"
definition REWARD :: i64 where "REWARD = 60 * GRIN_BASE"

definition CalculateReward :: "u64 \<Rightarrow> u64" where
  "CalculateReward fee = REWARD + fee"

section \<open>Hard forks\<close>

definition HARD_FORK_INTERVAL :: u64 where "HARD_FORK_INTERVAL = YEAR_HEIGHT div 2"
definition FLOONET_FIRST_HARD_FORK :: u64 where "FLOONET_FIRST_HARD_FORK = 185040"
definition FLOONET_SECOND_HARD_FORK :: u64 where "FLOONET_SECOND_HARD_FORK = 298080"
definition FLOONET_THIRD_HARD_FORK :: u64 where "FLOONET_THIRD_HARD_FORK = 552960"

definition GetHeaderVersion :: "EEnvironmentType \<Rightarrow> u64 \<Rightarrow> u16 result" where
  "GetHeaderVersion environment height =
     (if environment = FLOONET then
        (if height < FLOONET_FIRST_HARD_FORK then Inr 1
         else if height < FLOONET_SECOND_HARD_FORK then Inr 2
         else if height < FLOONET_THIRD_HARD_FORK then Inr 3
         else if height < 4 * HARD_FORK_INTERVAL then Inr 4
         else Inl STD_EXCEPTION)
      else
        (if height < HARD_FORK_INTERVAL then Inr 1
         else if height < 2 * HARD_FORK_INTERVAL then Inr 2
         else if height < 3 * HARD_FORK_INTERVAL then Inr 3
         else if height < 4 * HARD_FORK_INTERVAL then Inr 4
         else Inl STD_EXCEPTION))"

section \<open>Difficulty parameters\<close>

definition PROOFSIZE :: u8 where "PROOFSIZE = 42"
definition DEFAULT_MIN_EDGE_BITS :: u8 where "DEFAULT_MIN_EDGE_BITS = 31"
definition SECOND_POW_EDGE_BITS :: u8 where "SECOND_POW_EDGE_BITS = 29"
definition BASE_EDGE_BITS :: u8 where "BASE_EDGE_BITS = 24"
definition CLAMP_FACTOR :: u64 where "CLAMP_FACTOR = 2"
definition DAMP_FACTOR :: u64 where "DAMP_FACTOR = 3"
definition AR_SCALE_DAMP_FACTOR :: u64 where "AR_SCALE_DAMP_FACTOR = 13"
definition MIN_AR_SCALE :: u64 where "MIN_AR_SCALE = AR_SCALE_DAMP_FACTOR"
definition MIN_DIFFICULTY :: u64 where "MIN_DIFFICULTY = DAMP_FACTOR"

text \<open>\<^verbatim>\<open>2ull << n\<close>.\<close>

definition shl2 :: "u64 \<Rightarrow> u64 result" where
  "shl2 n = (if n < 64 then Inr (push_bit (unat n) 2) else Inl UNDEFINED_BEHAVIOUR)"

definition GraphWeight :: "u64 \<Rightarrow> u8 \<Rightarrow> u64 result" where
  "GraphWeight height edge_bits =
     (let expiry_height = YEAR_HEIGHT;
          xpr_edge_bits = ucast edge_bits :: u64;
          xpr_edge_bits =
            (if edge_bits = 31 \<and> height \<ge> expiry_height
             then xpr_edge_bits - min xpr_edge_bits (1 + (height - expiry_height) div WEEK_HEIGHT)
             else xpr_edge_bits)
      in bind_result (shl2 (ucast edge_bits - ucast BASE_EDGE_BITS))
           (\<lambda>size. Inr (size * xpr_edge_bits)))"

definition INITIAL_GRAPH_WEIGHT :: u32 where
  "INITIAL_GRAPH_WEIGHT =
     (case GraphWeight 0 SECOND_POW_EDGE_BITS of Inr weight \<Rightarrow> ucast weight | Inl _ \<Rightarrow> 0)"

definition Damp :: "u64 \<Rightarrow> u64 \<Rightarrow> u64 \<Rightarrow> u64" where
  "Damp actual goal damp_factor = (actual + (damp_factor - 1) * goal) div damp_factor"

definition Clamp :: "u64 \<Rightarrow> u64 \<Rightarrow> u64 \<Rightarrow> u64" where
  "Clamp actual goal clamp_factor = max (goal div clamp_factor) (min actual (goal * clamp_factor))"

definition SecondaryPOWRatio :: "u64 \<Rightarrow> u64" where
  "SecondaryPOWRatio height = 90 - min 90 (height div (2 * YEAR_HEIGHT div 90))"

definition ScalingDifficulty :: "u64 \<Rightarrow> u64 result" where
  "ScalingDifficulty edgeBits =
     bind_result (shl2 (edgeBits - ucast BASE_EDGE_BITS)) (\<lambda>size. Inr (size * edgeBits))"

section \<open>Sorting\<close>

text \<open>The loop of \<^verbatim>\<open>IsSorted\<close> over the hashes of the elements (byte strings compared
  lexicographically by \<open>gt\<close>).\<close>

fun IsSorted :: "('h \<Rightarrow> 'h \<Rightarrow> bool) \<Rightarrow> ('a \<Rightarrow> 'h) \<Rightarrow> 'a list \<Rightarrow> bool" where
  "IsSorted gt GetHash [] = True"
| "IsSorted gt GetHash [x] = True"
| "IsSorted gt GetHash (x # y # zs) =
     (if gt (GetHash x) (GetHash y) then False else IsSorted gt GetHash (y # zs))"

named_theorems consensus_consts \<open>values of the consensus constants\<close>

section \<open>Values\<close>

lemma height_consts [consensus_consts]:
  "BLOCK_TIME_SEC = 60" "HOUR_HEIGHT = 60" "DAY_HEIGHT = 1440" "WEEK_HEIGHT = 10080"
  "YEAR_HEIGHT = 524160" "COINBASE_MATURITY = 1440" "CUT_THROUGH_HORIZON = 10080"
  "STATE_SYNC_THRESHOLD = 2880" "HARD_FORK_INTERVAL = 262080"
  "DIFFICULTY_ADJUST_WINDOW = 60" "BLOCK_TIME_WINDOW = 3600" "UPPER_TIME_BOUND = 7200"
  "LOWER_TIME_BOUND = 1800" "MEDIAN_TIME_INDEX = 5"
  by code_simp+

lemma difficulty_consts [consensus_consts]:
  "PROOFSIZE = 42" "SECOND_POW_EDGE_BITS = 29" "BASE_EDGE_BITS = 24" "CLAMP_FACTOR = 2"
  "DAMP_FACTOR = 3" "AR_SCALE_DAMP_FACTOR = 13" "MIN_AR_SCALE = 13" "MIN_DIFFICULTY = 3"
  "INITIAL_GRAPH_WEIGHT = 1856" "DEFAULT_MIN_EDGE_BITS = 31"
  by code_simp+

lemma weight_consts [consensus_consts]:
  "BLOCK_INPUT_WEIGHT = 1" "BLOCK_OUTPUT_WEIGHT = 21" "BLOCK_KERNEL_WEIGHT = 3"
  "MAX_BLOCK_WEIGHT = 40000" "REWARD = 60000000000"
  by code_simp+

section \<open>Heights\<close>

lemma u64_max_minus: "unat (max a b - b :: u64) = unat a - unat b"
  by (auto simp add: max_def unat_sub word_le_nat_alt)

lemma unat_GetMaxCoinbaseHeight:
  "unat (GetMaxCoinbaseHeight env h) = unat h - (if env = AUTOMATED_TESTING then 25 else 1440)"
  using u64_max_minus [of h 25] u64_max_minus [of h COINBASE_MATURITY]
  by (simp add: GetMaxCoinbaseHeight_def consensus_consts)

lemma unat_GetHorizonHeight: "unat (GetHorizonHeight h) = unat h - 10080"
  using u64_max_minus [of h "ucast CUT_THROUGH_HORIZON"]
  by (simp add: GetHorizonHeight_def consensus_consts)

section \<open>Damping and clamping\<close>

lemma Clamp_bounds:
  assumes "0 < unat factor" and "unat goal * unat factor < 2 ^ 64"
  shows "unat goal div unat factor \<le> unat (Clamp actual goal factor)"
    and "unat (Clamp actual goal factor) \<le> unat goal * unat factor"
proof -
  have m: "unat (goal * factor) = unat goal * unat factor"
    using assms(2) iffD1 [OF unat_mult_lem, of goal factor] by simp
  have "unat goal div unat factor \<le> unat goal * 1" by simp
  also have "\<dots> \<le> unat goal * unat factor" using assms(1) by (intro mult_le_mono2) simp
  finally have d: "unat goal div unat factor \<le> unat goal * unat factor" .
  show "unat goal div unat factor \<le> unat (Clamp actual goal factor)"
    and "unat (Clamp actual goal factor) \<le> unat goal * unat factor"
    using d m by (auto simp add: Clamp_def max_def min_def word_le_nat_alt unat_div)
qed

lemma Clamp_identity:
  assumes "goal div factor \<le> actual" and "actual \<le> goal * factor"
  shows "Clamp actual goal factor = actual"
  using assms by (simp add: Clamp_def)

lemma unat_SecondaryPOWRatio: "unat (SecondaryPOWRatio h) = 90 - unat h div 11648"
proof -
  have "2 * YEAR_HEIGHT div 90 = 11648" by (simp add: consensus_consts)
  moreover have "unat (90 - min 90 (h div 11648) :: u64) = 90 - unat h div 11648"
    by (auto simp add: min_def unat_sub word_le_nat_alt unat_div)
  ultimately show ?thesis by (simp add: SecondaryPOWRatio_def)
qed

section \<open>Sortedness\<close>

lemma IsSorted_iff:
  assumes "\<And>a b. gt a b \<longleftrightarrow> \<not> le a b" and "\<And>a b c. le a b \<Longrightarrow> le b c \<Longrightarrow> le a c"
  shows "IsSorted gt h xs \<longleftrightarrow> sorted_wrt le (map h xs)"
proof (induction xs rule: induct_list012)
  case (3 x y zs)
  have "sorted_wrt le (map h (x # y # zs)) \<longleftrightarrow> le (h x) (h y) \<and> sorted_wrt le (map h (y # zs))"
    using assms(2) by auto
  with 3 assms(1) show ?case by simp
qed simp_all

end
