(* ===== verification/MMR_Util.thy ===== *)
theory MMR_Util
  imports Prelude
begin

text \<open>
  Index arithmetic of Merkle mountain ranges: \<^verbatim>\<open>BitUtil\<close>
  (\<^verbatim>\<open>include/Common/Util/BitUtil.h\<close>) and \<^verbatim>\<open>MMRUtil\<close>
  (\<^verbatim>\<open>src/PMMR/Common/MMRUtil.cpp\<close>) on 64-bit words, and their correctness against
  the postorder traversal of perfect binary trees.
\<close>

section \<open>BitUtil\<close>

definition FillOnesToRight :: "u64 \<Rightarrow> u64" where
  "FillOnesToRight input =
     (let x0 = input;
          x1 = x0 OR drop_bit 1 x0;
          x2 = x1 OR drop_bit 2 x1;
          x3 = x2 OR drop_bit 4 x2;
          x4 = x3 OR drop_bit 8 x3;
          x5 = x4 OR drop_bit 16 x4;
          x6 = x5 OR drop_bit 32 x5
      in x6)"

function CountBitsSet_loop :: "u64 \<Rightarrow> u8 \<Rightarrow> u8" where
  "CountBitsSet_loop n count =
     (if n \<noteq> 0 then CountBitsSet_loop (drop_bit 1 n) (count + ucast (n AND 1)) else count)"
  by pat_completeness auto
termination
  by (relation "measure (\<lambda>(n, count). unat n)") (auto simp: unat_gt_0)

declare CountBitsSet_loop.simps [simp del]

definition CountBitsSet :: "u64 \<Rightarrow> u8" where
  "CountBitsSet input = CountBitsSet_loop input 0"

definition IsSet :: "u8 \<Rightarrow> u8 \<Rightarrow> bool" where
  "IsSet byte bitpos \<longleftrightarrow> byte AND push_bit (unat bitpos) 1 > 0"

definition ConvertToU16 :: "u8 \<Rightarrow> u8 \<Rightarrow> u16" where
  "ConvertToU16 byte1 byte2 = push_bit 8 (ucast byte1) OR ucast byte2"

definition ConvertToU32 :: "u8 \<Rightarrow> u8 \<Rightarrow> u8 \<Rightarrow> u8 \<Rightarrow> u32" where
  "ConvertToU32 byte1 byte2 byte3 byte4 =
     push_bit 24 (ucast byte1) OR push_bit 16 (ucast byte2) OR push_bit 8 (ucast byte3) OR ucast byte4"

definition ConvertToU64 :: "u8 \<Rightarrow> u8 \<Rightarrow> u8 \<Rightarrow> u8 \<Rightarrow> u8 \<Rightarrow> u8 \<Rightarrow> u8 \<Rightarrow> u8 \<Rightarrow> u64" where
  "ConvertToU64 byte1 byte2 byte3 byte4 byte5 byte6 byte7 byte8 =
     push_bit 56 (ucast byte1) OR push_bit 48 (ucast byte2) OR push_bit 40 (ucast byte3) OR
     push_bit 32 (ucast byte4) OR push_bit 24 (ucast byte5) OR push_bit 16 (ucast byte6) OR
     push_bit 8 (ucast byte7) OR ucast byte8"

section \<open>MMRUtil\<close>

function GetHeight_loop :: "u64 \<Rightarrow> u64 \<Rightarrow> u64" where
  "GetHeight_loop peakSize height =
     (if peakSize \<noteq> 0
      then GetHeight_loop (drop_bit 1 peakSize) (if height \<ge> peakSize then height - peakSize else height)
      else height)"
  by pat_completeness auto
termination
  by (relation "measure (\<lambda>(peakSize, height). unat peakSize)") (auto simp: unat_gt_0)

declare GetHeight_loop.simps [simp del]

definition GetHeight :: "u64 \<Rightarrow> u64" where
  "GetHeight mmrIndex = GetHeight_loop (FillOnesToRight (mmrIndex + 1)) mmrIndex"

definition GetParentIndex :: "u64 \<Rightarrow> u64" where
  "GetParentIndex mmrIndex =
     (let height = GetHeight mmrIndex
      in if GetHeight (mmrIndex + 1) = height + 1 then mmrIndex + 1
         else mmrIndex + push_bit (unat (height + 1)) 1)"

definition GetSiblingIndex :: "u64 \<Rightarrow> u64" where
  "GetSiblingIndex mmrIndex =
     (let height = GetHeight mmrIndex
      in if GetHeight (mmrIndex + 1) = height + 1 then mmrIndex + 1 - push_bit (unat (height + 1)) 1
         else mmrIndex + push_bit (unat (height + 1)) 1 - 1)"

definition GetLeftChildIndex :: "u64 \<Rightarrow> u64 \<Rightarrow> u64" where
  "GetLeftChildIndex mmrIndex height = mmrIndex - push_bit (unat height) 1"

definition GetRightChildIndex :: "u64 \<Rightarrow> u64" where
  "GetRightChildIndex mmrIndex = mmrIndex - 1"

function GetPeakIndices_loop :: "u64 \<Rightarrow> u64 \<Rightarrow> u64 \<Rightarrow> u64 list \<Rightarrow> u64 list \<times> u64" where
  "GetPeakIndices_loop peakSize numLeft sumPrevPeaks peakIndices =
     (if peakSize \<noteq> 0
      then if numLeft \<ge> peakSize
           then GetPeakIndices_loop (drop_bit 1 peakSize) (numLeft - peakSize) (sumPrevPeaks + peakSize)
                  (peakIndices @ [sumPrevPeaks + peakSize - 1])
           else GetPeakIndices_loop (drop_bit 1 peakSize) numLeft sumPrevPeaks peakIndices
      else (peakIndices, numLeft))"
  by pat_completeness auto
termination
  by (relation "measure (\<lambda>(peakSize, _). unat peakSize)") (auto simp: unat_gt_0)

declare GetPeakIndices_loop.simps [simp del]

definition GetPeakIndices :: "u64 \<Rightarrow> u64 list" where
  "GetPeakIndices mmrSize =
     (if mmrSize > 0
      then (case GetPeakIndices_loop (FillOnesToRight mmrSize) mmrSize 0 [] of
              (peakIndices, numLeft) \<Rightarrow> if numLeft > 0 then [] else peakIndices)
      else [])"

function GetPeakSizes_loop :: "u64 \<Rightarrow> u64 \<Rightarrow> u64 list" where
  "GetPeakSizes_loop peakSize numLeft =
     (if peakSize \<noteq> 0
      then if numLeft \<ge> peakSize
           then peakSize # GetPeakSizes_loop (drop_bit 1 peakSize) (numLeft - peakSize)
           else GetPeakSizes_loop (drop_bit 1 peakSize) numLeft
      else [])"
  by pat_completeness auto
termination
  by (relation "measure (\<lambda>(peakSize, _). unat peakSize)") (auto simp: unat_gt_0)

declare GetPeakSizes_loop.simps [simp del]

definition GetPeakSizes :: "u64 \<Rightarrow> u64 list" where
  "GetPeakSizes mmrSize =
     (if mmrSize > 0 then GetPeakSizes_loop (FillOnesToRight mmrSize) mmrSize else [])"

text \<open>The loop of \<^verbatim>\<open>GetNumNodes\<close> runs while heights grow, so it stops.\<close>

function GetNumNodes_loop :: "u64 \<Rightarrow> u64 \<Rightarrow> u64 \<Rightarrow> u64" where
  "GetNumNodes_loop numNodes height nextNodeHeight =
     (if nextNodeHeight > height
      then GetNumNodes_loop (numNodes + 1) nextNodeHeight (GetHeight (numNodes + 1))
      else numNodes)"
  by pat_completeness auto
termination
proof (relation "measure (\<lambda>(_, height, _). 2 ^ 64 - unat height)", simp, clarsimp)
  fix height nextNodeHeight :: u64
  assume "height < nextNodeHeight"
  then have "unat height < unat nextNodeHeight" by (simp add: word_less_nat_alt)
  moreover have "unat nextNodeHeight < 2 ^ 64" using unsigned_less [of nextNodeHeight] by simp
  ultimately show "18446744073709551616 - unat nextNodeHeight < 18446744073709551616 - unat height"
    by simp
qed

declare GetNumNodes_loop.simps [simp del]

definition GetNumNodes :: "u64 \<Rightarrow> u64" where
  "GetNumNodes pmmrIndex =
     GetNumNodes_loop (pmmrIndex + 1) (GetHeight pmmrIndex) (GetHeight (pmmrIndex + 1))"

definition GetNumLeaves :: "u64 \<Rightarrow> u64" where
  "GetNumLeaves lastMMRIndex =
     fold (\<lambda>peakSize numLeaves. numLeaves + (peakSize + 1) div 2)
       (GetPeakSizes (GetNumNodes lastMMRIndex)) 0"

definition IsLeaf :: "u64 \<Rightarrow> bool" where
  "IsLeaf mmrIndex \<longleftrightarrow> GetHeight mmrIndex = 0"

definition GetPMMRIndex :: "u64 \<Rightarrow> u64" where
  "GetPMMRIndex leafIndex = 2 * leafIndex - ucast (CountBitsSet leafIndex)"

function GetLeafIndex_loop :: "u64 \<Rightarrow> u64 \<Rightarrow> u64 \<Rightarrow> u64" where
  "GetLeafIndex_loop peakSize numLeft leafIndex =
     (if peakSize \<noteq> 0
      then if numLeft \<ge> peakSize
           then GetLeafIndex_loop (drop_bit 1 peakSize) (numLeft - peakSize) (leafIndex + (peakSize + 1) div 2)
           else GetLeafIndex_loop (drop_bit 1 peakSize) numLeft leafIndex
      else leafIndex)"
  by pat_completeness auto
termination
  by (relation "measure (\<lambda>(peakSize, _). unat peakSize)") (auto simp: unat_gt_0)

declare GetLeafIndex_loop.simps [simp del]

definition GetLeafIndex :: "u64 \<Rightarrow> u64" where
  "GetLeafIndex position = GetLeafIndex_loop (FillOnesToRight position) position 0"

section \<open>Specification: postorder traversal of perfect binary trees\<close>

text \<open>The heights of the nodes of a perfect binary tree of height \<open>k\<close>, in postorder: the
  picture in the comment of \<^verbatim>\<open>MMRUtil::GetHeight\<close>.\<close>

primrec postorder_heights :: "nat \<Rightarrow> nat list" where
  "postorder_heights 0 = [0]"
| "postorder_heights (Suc k) = postorder_heights k @ postorder_heights k @ [Suc k]"

text \<open>The greedy decomposition of a node count into perfect trees of \<open>2 ^ k - 1\<close> nodes, at
  most one for each \<open>k\<close>: the exponents taken and the nodes left over.\<close>

primrec peel :: "nat \<Rightarrow> nat \<Rightarrow> nat list \<times> nat" where
  "peel 0 i = ([], i)"
| "peel (Suc k) i =
     (if 2 ^ Suc k - 1 \<le> i
      then (case peel k (i - (2 ^ Suc k - 1)) of (ks, r) \<Rightarrow> (Suc k # ks, r))
      else peel k i)"

text \<open>The number of nodes of a complete MMR with \<open>n\<close> leaves, and how many bits of \<open>n\<close>
  are set.\<close>

fun popcount :: "nat \<Rightarrow> nat" where
  "popcount n = (if n = 0 then 0 else n mod 2 + popcount (n div 2))"

declare popcount.simps [simp del]

definition mmr_size :: "nat \<Rightarrow> nat" where
  "mmr_size n = 2 * n - popcount n"

text \<open>The mountains of an MMR with \<open>n\<close> leaves: one of \<open>2 ^ j\<close> leaves for each set bit \<open>j\<close>,
  the largest first.\<close>

definition mountains :: "nat \<Rightarrow> nat list" where
  "mountains n = map Suc (rev (filter (bit n) [0..<63]))"

text \<open>The positions of their peaks when the mountains are laid side by side from position \<open>b\<close>.\<close>

primrec peak_positions :: "nat \<Rightarrow> nat list \<Rightarrow> nat list" where
  "peak_positions b [] = []"
| "peak_positions b (k # ks) = (b + (2 ^ k - 1) - 1) # peak_positions (b + (2 ^ k - 1)) ks"

section \<open>The greedy decomposition\<close>

lemma length_postorder_heights: "length (postorder_heights k) = 2 ^ Suc k - 1"
  by (induction k) auto

lemma two_power_Suc: "(2::nat) \<le> 2 ^ Suc k"
  by simp

lemma peel_eq_0 [simp]: "peel k 0 = ([], 0)"
proof (induction k)
  case (Suc k)
  then show ?case using two_power_Suc [of k] by (simp del: power_Suc)
qed simp

lemma peel_take:
  "2 ^ Suc k - 1 \<le> i \<Longrightarrow> snd (peel (Suc k) i) = snd (peel k (i - (2 ^ Suc k - 1)))"
  "2 ^ Suc k - 1 \<le> i \<Longrightarrow> fst (peel (Suc k) i) = Suc k # fst (peel k (i - (2 ^ Suc k - 1)))"
  by (simp_all add: case_prod_unfold)

lemma peel_root: "snd (peel k (2 ^ Suc k - 2 + m)) = k + m"
proof (induction k arbitrary: m)
  case 0
  then show ?case by simp
next
  case (Suc k)
  have ge: "2 ^ Suc k - 1 \<le> (2 ^ Suc (Suc k) - 2 + m :: nat)" by simp
  have "2 ^ Suc (Suc k) - 2 + m - (2 ^ Suc k - 1) = (2 ^ Suc k - 2 + Suc m :: nat)"
  proof -
    have "(2::nat) ^ Suc (Suc k) = 2 * 2 ^ Suc k" by simp
    then show ?thesis using two_power_Suc [of k] by linarith
  qed
  with peel_take(1) [OF ge] Suc.IH [of "Suc m"] show ?case
    by (simp only: add_Suc_right add_Suc)
qed

lemma peel_height:
  "i < 2 ^ Suc k - 1 \<Longrightarrow> snd (peel k i) = postorder_heights k ! i"
proof (induction k arbitrary: i)
  case 0
  then show ?case by simp
next
  case (Suc k)
  let ?s = "2 ^ Suc k - 1 :: nat"
  have len: "length (postorder_heights k) = ?s" by (rule length_postorder_heights)
  have "(2::nat) ^ Suc (Suc k) = 2 * 2 ^ Suc k" by simp
  then have total: "(2 ^ Suc (Suc k) - 1 :: nat) = ?s + ?s + 1"
    using two_power_Suc [of k] by linarith
  consider (left) "i < ?s" | (right) "?s \<le> i" "i - ?s < ?s" | (root) "i = ?s + ?s"
    using Suc.prems total by linarith
  then show ?case
  proof cases
    case left
    then have "snd (peel (Suc k) i) = snd (peel k i)" by simp
    with left Suc.IH len show ?thesis by (simp add: nth_append del: power_Suc)
  next
    case right
    then have "snd (peel (Suc k) i) = snd (peel k (i - ?s))"
      by (simp add: case_prod_unfold del: power_Suc)
    with right Suc.IH len show ?thesis by (simp add: nth_append del: power_Suc)
  next
    case root
    have "(2::nat) \<le> 2 ^ Suc k" by simp
    then have "i - ?s = 2 ^ Suc k - 2 + 1" using root by linarith
    then have "snd (peel (Suc k) i) = k + 1"
      using root peel_take(1) [of k i] peel_root [of k 1] by (simp only: le_add1)
    moreover have "postorder_heights (Suc k) ! i = Suc k"
      unfolding root len [symmetric] by (simp add: nth_append)
    ultimately show ?thesis by simp
  qed
qed

lemma peel_skip: "i < 2 ^ Suc k - 1 \<Longrightarrow> peel (Suc k) i = peel k i"
  by simp

lemma peel_mono: "i < 2 ^ Suc k - 1 \<Longrightarrow> k \<le> k' \<Longrightarrow> peel k' i = peel k i"
proof (induction k' )
  case 0
  then show ?case by simp
next
  case (Suc k')
  show ?case
  proof (cases "k \<le> k'")
    case True
    then have "(2::nat) ^ Suc k \<le> 2 ^ Suc k'" by (intro power_increasing) auto
    then have "i < 2 ^ Suc k' - 1" using Suc.prems(1) by linarith
    with Suc True show ?thesis by (simp del: power_Suc)
  next
    case False
    with Suc show ?thesis by (simp add: le_Suc_eq)
  qed
qed

text \<open>Sizes of complete MMRs.\<close>

lemma popcount_le: "popcount n \<le> n"
proof (induction n rule: popcount.induct)
  case (1 n)
  show ?case
  proof (cases "n = 0")
    case False
    then have "popcount n = n mod 2 + popcount (n div 2)" by (simp add: popcount.simps [of n])
    also have "\<dots> \<le> n mod 2 + n div 2" using 1 False by simp
    also have "\<dots> \<le> n" by linarith
    finally show ?thesis .
  qed (simp add: popcount.simps)
qed

lemma popcount_power_add: "m < 2 ^ k \<Longrightarrow> popcount (2 ^ k + m) = Suc (popcount m)"
proof (induction k arbitrary: m)
  case 0
  then show ?case by (simp add: popcount.simps [of "Suc 0"] popcount.simps [of 0])
next
  case (Suc k)
  have "popcount (2 ^ Suc k + m) = m mod 2 + popcount (2 ^ k + m div 2)"
    by (subst popcount.simps) simp
  also have "\<dots> = m mod 2 + Suc (popcount (m div 2))"
    using Suc by simp
  also have "\<dots> = Suc (popcount m)"
    by (cases "m = 0") (simp_all add: popcount.simps [of m] popcount.simps [of 0] popcount.simps [of "Suc 0"])
  finally show ?case .
qed

lemma mmr_size_0 [simp]: "mmr_size 0 = 0"
  by (simp add: mmr_size_def popcount.simps)

lemma mmr_size_power_add:
  "m < 2 ^ k \<Longrightarrow> mmr_size (2 ^ k + m) = (2 ^ Suc k - 1) + mmr_size m"
  using popcount_le [of m] by (simp add: mmr_size_def popcount_power_add)

lemma mmr_size_less: "n < 2 ^ k \<Longrightarrow> mmr_size n < 2 ^ Suc k - 1"
proof (induction k arbitrary: n)
  case 0
  then show ?case by simp
next
  case (Suc k)
  show ?case
  proof (cases "n < 2 ^ k")
    case True
    then have "mmr_size n < 2 ^ Suc k - 1" by (rule Suc.IH)
    also have "\<dots> \<le> 2 ^ Suc (Suc k) - 1" by simp
    finally show ?thesis .
  next
    case False
    define m where "m = n - 2 ^ k"
    with False Suc.prems have nm: "n = 2 ^ k + m" and m: "m < 2 ^ k" by auto
    have "mmr_size m < 2 ^ Suc k - 1" using m by (rule Suc.IH)
    then show ?thesis using m by (simp add: nm mmr_size_power_add)
  qed
qed

text \<open>The greedy decomposition of a complete MMR recovers the bits of its leaf count.\<close>

lemma peel_mmr_size:
  "n < 2 ^ k \<Longrightarrow> snd (peel k (mmr_size n)) = 0 \<and> (\<Sum>j\<leftarrow>fst (peel k (mmr_size n)). 2 ^ (j - 1)) = n"
proof (induction k arbitrary: n)
  case 0
  then show ?case by simp
next
  case (Suc k)
  show ?case
  proof (cases "n < 2 ^ k")
    case True
    then have "mmr_size n < 2 ^ Suc k - 1" by (rule mmr_size_less)
    with Suc.IH [OF True] show ?thesis by (simp del: power_Suc)
  next
    case False
    define m where "m = n - 2 ^ k"
    with False Suc.prems have nm: "n = 2 ^ k + m" and m: "m < 2 ^ k" by auto
    have "mmr_size n = (2 ^ Suc k - 1) + mmr_size m" using m by (simp only: nm mmr_size_power_add)
    then show ?thesis using Suc.IH [OF m] by (simp add: case_prod_unfold nm del: power_Suc)
  qed
qed

lemma peel_sound:
  assumes "peel k i = (ks, r)"
  shows "i = (\<Sum>j\<leftarrow>ks. 2 ^ j - 1) + r \<and> sorted_wrt (>) ks \<and> (\<forall>j\<in>set ks. 0 < j \<and> j \<le> k)"
  using assms
proof (induction k arbitrary: i ks r)
  case 0
  then show ?case by simp
next
  case (Suc k)
  show ?case
  proof (cases "2 ^ Suc k - 1 \<le> i")
    case True
    with Suc.prems obtain ks' where ks': "peel k (i - (2 ^ Suc k - 1)) = (ks', r)" and ks: "ks = Suc k # ks'"
      by (auto split: prod.splits simp del: power_Suc)
    from Suc.IH [OF ks'] have IH: "i - (2 ^ Suc k - 1) = (\<Sum>j\<leftarrow>ks'. 2 ^ j - 1) + r"
      "sorted_wrt (>) ks'" "\<forall>j\<in>set ks'. 0 < j \<and> j \<le> k" by auto
    have "i = (2 ^ Suc k - 1) + ((\<Sum>j\<leftarrow>ks'. 2 ^ j - 1) + r)"
      using IH(1) True by linarith
    then have "i = (\<Sum>j\<leftarrow>ks. 2 ^ j - 1) + r"
      by (simp only: ks list.map sum_list.Cons add.assoc)
    with IH(2,3) ks show ?thesis by (auto simp: less_Suc_eq_le)
  next
    case False
    with Suc.prems have "peel k i = (ks, r)" by (simp del: power_Suc)
    from Suc.IH [OF this] show ?thesis by auto
  qed
qed

lemma sum_distinct_powers:
  "sorted_wrt (>) ks \<Longrightarrow> \<forall>j\<in>set ks. 0 < j \<and> j \<le> k \<Longrightarrow>
    (\<Sum>j\<leftarrow>ks. 2 ^ (j - 1)) < (2::nat) ^ k \<and> mmr_size (\<Sum>j\<leftarrow>ks. 2 ^ (j - 1)) = (\<Sum>j\<leftarrow>ks. 2 ^ j - 1)"
proof (induction ks arbitrary: k)
  case Nil
  then show ?case by simp
next
  case (Cons a ks)
  then obtain a' where a: "a = Suc a'" "a \<le> k" by (cases a) auto
  have "(\<Sum>j\<leftarrow>ks. 2 ^ (j - 1)) < (2::nat) ^ a' \<and> mmr_size (\<Sum>j\<leftarrow>ks. 2 ^ (j - 1)) = (\<Sum>j\<leftarrow>ks. 2 ^ j - 1)"
    using Cons.prems a by (intro Cons.IH) auto
  moreover have "(2::nat) ^ a' + 2 ^ a' \<le> 2 ^ k"
  proof -
    have "(2::nat) ^ a \<le> 2 ^ k" using a by (intro power_increasing) auto
    then show ?thesis by (simp add: a)
  qed
  ultimately show ?case using a by (simp add: mmr_size_power_add)
qed

lemma peel_leaf:
  assumes "snd (peel k i) = 0"
  shows "i = mmr_size (\<Sum>j\<leftarrow>fst (peel k i). 2 ^ (j - 1)) \<and> (\<Sum>j\<leftarrow>fst (peel k i). 2 ^ (j - 1)) < (2::nat) ^ k"
proof -
  have "peel k i = (fst (peel k i), 0)" using assms by (simp add: prod_eq_iff)
  from peel_sound [OF this] sum_distinct_powers show ?thesis by fastforce
qed

text \<open>The subtree below a node.\<close>

lemma postorder_block:
  assumes "i < length (postorder_heights k)" and "h = postorder_heights k ! i"
  shows "h \<le> k \<and> 2 ^ Suc h - 2 \<le> i \<and>
    take (2 ^ Suc h - 1) (drop (i - (2 ^ Suc h - 2)) (postorder_heights k)) = postorder_heights h"
  using assms
proof (induction k arbitrary: i)
  case 0
  then show ?case by simp
next
  case (Suc k)
  let ?P = "postorder_heights k"
  let ?s = "length ?P"
  have s: "?s = 2 ^ Suc k - 1" by (rule length_postorder_heights)
  consider (left) "i < ?s" | (right) "?s \<le> i" "i - ?s < ?s" | (root) "i = ?s + ?s"
    using Suc.prems by fastforce
  then show ?case
  proof cases
    case left
    with Suc.prems(2) have h: "h = ?P ! i" by (simp add: nth_append)
    from Suc.IH [OF left h] have IH: "h \<le> k" "2 ^ Suc h - 2 \<le> i"
      "take (2 ^ Suc h - 1) (drop (i - (2 ^ Suc h - 2)) ?P) = postorder_heights h" by auto
    have "i - (2 ^ Suc h - 2) + (2 ^ Suc h - 1) \<le> ?s"
    proof -
      have "(2::nat) \<le> 2 ^ Suc h" by simp
      then show ?thesis using left IH(2) by linarith
    qed
    then have "take (2 ^ Suc h - 1) (drop (i - (2 ^ Suc h - 2)) (postorder_heights (Suc k))) =
       take (2 ^ Suc h - 1) (drop (i - (2 ^ Suc h - 2)) ?P)"
      by simp
    with IH show ?thesis by simp
  next
    case right
    with Suc.prems(2) have h: "h = ?P ! (i - ?s)" by (simp add: nth_append)
    from Suc.IH [OF right(2) h] have IH: "h \<le> k" "2 ^ Suc h - 2 \<le> i - ?s"
      "take (2 ^ Suc h - 1) (drop (i - ?s - (2 ^ Suc h - 2)) ?P) = postorder_heights h" by auto
    have eq: "i - (2 ^ Suc h - 2) = ?s + (i - ?s - (2 ^ Suc h - 2))" using right IH(2) by linarith
    have "i - ?s - (2 ^ Suc h - 2) + (2 ^ Suc h - 1) \<le> ?s"
    proof -
      have "(2::nat) \<le> 2 ^ Suc h" by simp
      then show ?thesis using right IH(2) by linarith
    qed
    then have "take (2 ^ Suc h - 1) (drop (i - (2 ^ Suc h - 2)) (postorder_heights (Suc k))) =
       take (2 ^ Suc h - 1) (drop (i - ?s - (2 ^ Suc h - 2)) ?P)"
      unfolding eq by simp
    with IH right show ?thesis by (auto intro: le_trans)
  next
    case root
    with Suc.prems(2) have h: "h = Suc k" by (simp add: nth_append)
    have "i = 2 ^ Suc (Suc k) - 2" using root s by simp
    then show ?thesis using h length_postorder_heights [of "Suc k"] by (simp del: power_Suc postorder_heights.simps)
  qed
qed

lemma postorder_heights_nonempty [simp]: "postorder_heights k \<noteq> []"
  by (cases k) auto

lemma last_postorder_heights [simp]: "last (postorder_heights k) = k"
  by (cases k) auto

lemma hd_postorder_heights [simp]: "hd (postorder_heights k) = 0"
  by (induction k) auto

lemma postorder_subtree:
  assumes "i < length (postorder_heights k)" and "h = postorder_heights k ! i" and "j < 2 ^ Suc h - 1"
  shows "postorder_heights k ! (i - (2 ^ Suc h - 2) + j) = postorder_heights h ! j"
proof -
  from postorder_block [OF assms(1,2)] have
    le: "2 ^ Suc h - 2 \<le> i" and
    blk: "take (2 ^ Suc h - 1) (drop (i - (2 ^ Suc h - 2)) (postorder_heights k)) = postorder_heights h"
    by auto
  have "postorder_heights h ! j = drop (i - (2 ^ Suc h - 2)) (postorder_heights k) ! j"
    using assms(3) by (simp add: blk [symmetric] del: power_Suc)
  also have "\<dots> = postorder_heights k ! (i - (2 ^ Suc h - 2) + j)"
    using assms(1) le by (intro nth_drop) linarith
  finally show ?thesis by simp
qed

text \<open>The children of an inner node, and the node after a left child.\<close>

lemma postorder_children:
  assumes "i < length (postorder_heights k)" and "postorder_heights k ! i = Suc h"
  shows "2 ^ Suc h \<le> i" "postorder_heights k ! (i - 1) = h"
    "postorder_heights k ! (i - 2 ^ Suc h) = h" "postorder_heights k ! (i - 2 ^ Suc h + 1) = 0"
proof -
  let ?s = "length (postorder_heights h)"
  have s: "?s = 2 ^ Suc h - 1" by (rule length_postorder_heights)
  have p: "(2::nat) \<le> 2 ^ Suc h" "(2::nat) ^ Suc (Suc h) = 2 * 2 ^ Suc h" by simp_all
  have le: "2 ^ Suc (Suc h) - 2 \<le> i"
    using postorder_block [OF assms(1) refl] assms(2) by simp
  then show "2 ^ Suc h \<le> i" using p by linarith
  have sub: "j < 2 ^ Suc (Suc h) - 1 \<Longrightarrow>
      postorder_heights k ! (i - (2 ^ Suc (Suc h) - 2) + j) = postorder_heights (Suc h) ! j" for j
    using postorder_subtree [OF assms(1) refl, of j] assms(2) by (simp del: power_Suc)
  have "postorder_heights (Suc h) ! (?s + (?s - 1)) = h"
    using last_conv_nth [of "postorder_heights h"] by (simp add: nth_append)
  moreover have "i - (2 ^ Suc (Suc h) - 2) + (?s + (?s - 1)) = i - 1" "?s + (?s - 1) < 2 ^ Suc (Suc h) - 1"
    using le p s by linarith+
  ultimately show "postorder_heights k ! (i - 1) = h" using sub [of "?s + (?s - 1)"] by simp
  have "postorder_heights (Suc h) ! (?s - 1) = h"
    using last_conv_nth [of "postorder_heights h"] by (simp add: nth_append)
  moreover have "i - (2 ^ Suc (Suc h) - 2) + (?s - 1) = i - 2 ^ Suc h" "?s - 1 < 2 ^ Suc (Suc h) - 1"
    using le p s by linarith+
  ultimately show "postorder_heights k ! (i - 2 ^ Suc h) = h" using sub [of "?s - 1"] by simp
  have "postorder_heights (Suc h) ! ?s = 0"
    using hd_conv_nth [of "postorder_heights h"] by (simp add: nth_append)
  moreover have "i - (2 ^ Suc (Suc h) - 2) + ?s = i - 2 ^ Suc h + 1" "?s < 2 ^ Suc (Suc h) - 1"
    using le p s by linarith+
  ultimately show "postorder_heights k ! (i - 2 ^ Suc h + 1) = 0" using sub [of ?s] by simp
qed

section \<open>The word loops\<close>

lemma bit_smear:
  assumes "\<And>n. bit (y :: u64) n \<longleftrightarrow> (\<exists>j<d. bit x (n + j))"
  shows "bit (y OR drop_bit d y) n \<longleftrightarrow> (\<exists>j<2 * d. bit x (n + j))"
proof -
  have "(\<exists>j<2 * d. bit x (n + j)) \<longleftrightarrow> (\<exists>j<d. bit x (n + j)) \<or> (\<exists>j<d. bit x (d + n + j))"
  proof
    assume "\<exists>j<2 * d. bit x (n + j)"
    then obtain j where j: "j < 2 * d" "bit x (n + j)" by blast
    show "(\<exists>j<d. bit x (n + j)) \<or> (\<exists>j<d. bit x (d + n + j))"
    proof (cases "j < d")
      case False
      then have "j - d < d" "d + n + (j - d) = n + j" using j by auto
      then show ?thesis using j by metis
    qed (use j in blast)
  next
    assume "(\<exists>j<d. bit x (n + j)) \<or> (\<exists>j<d. bit x (d + n + j))"
    then show "\<exists>j<2 * d. bit x (n + j)"
    proof
      assume "\<exists>j<d. bit x (d + n + j)"
      then obtain j where "j < d" "bit x (d + n + j)" by blast
      then have "d + j < 2 * d" "bit x (n + (d + j))" by (simp_all add: ac_simps)
      then show ?thesis by blast
    next
      assume "\<exists>j<d. bit x (n + j)"
      then obtain j where "j < d" "bit x (n + j)" by blast
      then have "j < 2 * d" "bit x (n + j)" by simp_all
      then show ?thesis by blast
    qed
  qed
  then show ?thesis using assms by (simp add: bit_simps ac_simps)
qed

lemma bit_FillOnesToRight: "bit (FillOnesToRight x) n \<longleftrightarrow> (\<exists>j\<ge>n. bit x j)"
proof -
  have "bit (FillOnesToRight x) n \<longleftrightarrow> (\<exists>j<64. bit x (n + j))"
  proof -
    define x1 where "x1 = x OR drop_bit 1 x"
    define x2 where "x2 = x1 OR drop_bit 2 x1"
    define x3 where "x3 = x2 OR drop_bit 4 x2"
    define x4 where "x4 = x3 OR drop_bit 8 x3"
    define x5 where "x5 = x4 OR drop_bit 16 x4"
    have 0: "\<And>n. bit x n \<longleftrightarrow> (\<exists>j<1. bit x (n + j))" by simp
    have 1: "\<And>n. bit x1 n \<longleftrightarrow> (\<exists>j<2. bit x (n + j))"
      unfolding x1_def using bit_smear [OF 0] by simp
    have 2: "\<And>n. bit x2 n \<longleftrightarrow> (\<exists>j<4. bit x (n + j))"
      unfolding x2_def using bit_smear [OF 1] by simp
    have 3: "\<And>n. bit x3 n \<longleftrightarrow> (\<exists>j<8. bit x (n + j))"
      unfolding x3_def using bit_smear [OF 2] by simp
    have 4: "\<And>n. bit x4 n \<longleftrightarrow> (\<exists>j<16. bit x (n + j))"
      unfolding x4_def using bit_smear [OF 3] by simp
    have 5: "\<And>n. bit x5 n \<longleftrightarrow> (\<exists>j<32. bit x (n + j))"
      unfolding x5_def using bit_smear [OF 4] by simp
    have "FillOnesToRight x = x5 OR drop_bit 32 x5"
      by (simp add: FillOnesToRight_def x5_def x4_def x3_def x2_def x1_def Let_def)
    then show ?thesis using bit_smear [OF 5, of n] by simp
  qed
  also have "\<dots> \<longleftrightarrow> (\<exists>j\<ge>n. bit x j)"
  proof
    assume "\<exists>j\<ge>n. bit x j"
    then obtain j where j: "n \<le> j" "bit x j" by blast
    from bit_imp_le_length [OF j(2)] have "j < 64" by simp
    with j have "j - n < 64" "bit x (n + (j - n))" by auto
    then show "\<exists>j<64. bit x (n + j)" by blast
  qed (meson le_add1)
  finally show ?thesis .
qed

lemma FillOnesToRight_mask:
  obtains k where "k \<le> 64" "FillOnesToRight x = mask k" "unat x < 2 ^ k"
proof (cases "x = 0")
  case True
  then have "FillOnesToRight x = mask 0" by (simp add: FillOnesToRight_def)
  with True show ?thesis using that [of 0] by simp
next
  case False
  define k where "k = Suc (Max {j. bit x j})"
  have fin: "finite {j. bit x j}" by (rule finite_subset [of _ "{..<64}"]) (auto dest: bit_imp_le_length)
  have ne: "{j. bit x j} \<noteq> {}" using False by (auto simp: bit_eq_iff)
  have k: "\<And>n. (\<exists>j\<ge>n. bit x j) \<longleftrightarrow> n < k"
    using fin ne by (auto simp: k_def less_Suc_eq_le Max_ge_iff)
  have k64: "k \<le> 64"
  proof -
    have "Max {j. bit x j} \<in> {j. bit x j}" using fin ne by (rule Max_in)
    then have "Max {j. bit x j} < 64" by (auto dest: bit_imp_le_length)
    then show ?thesis by (simp add: k_def)
  qed
  moreover have "FillOnesToRight x = mask k"
    by (rule bit_eqI) (use k64 k in \<open>auto simp: bit_FillOnesToRight bit_mask_iff\<close>)
  moreover have "unat x < 2 ^ k"
  proof -
    have "take_bit k x = x" by (rule bit_eqI) (use k in \<open>auto simp: bit_take_bit_iff\<close>)
    then have "take_bit k (unat x) = unat x" by (metis unsigned_take_bit_eq)
    then show ?thesis by (metis take_bit_nat_less_exp)
  qed
  ultimately show ?thesis by (rule that)
qed

lemma unat_mask: "k \<le> 64 \<Longrightarrow> unat (mask k :: u64) = 2 ^ k - 1"
proof -
  assume k: "k \<le> 64"
  have "(2::nat) ^ k \<le> 2 ^ 64" using k by (intro power_increasing) simp_all
  then have "unat (of_nat (2 ^ k - 1) :: u64) = 2 ^ k - 1" by (intro unat_of_nat_small) simp
  then show ?thesis by (simp only: mask_eq_exp_minus_1 [symmetric] of_nat_mask_eq)
qed

lemma drop_bit_mask: "Suc k \<le> 64 \<Longrightarrow> drop_bit 1 (mask (Suc k) :: u64) = mask k"
  by (rule bit_word_eqI) (auto simp: bit_simps)

lemma mask_Suc_le: "Suc k \<le> 64 \<Longrightarrow> (mask (Suc k) :: u64) \<le> h \<longleftrightarrow> 2 ^ Suc k - 1 \<le> unat h"
  by (simp add: word_le_nat_alt unat_mask del: power_Suc)

lemma unat_minus_mask:
  "Suc k \<le> 64 \<Longrightarrow> 2 ^ Suc k - 1 \<le> unat h \<Longrightarrow> unat (h - (mask (Suc k) :: u64)) = unat h - (2 ^ Suc k - 1)"
  by (simp add: unat_sub mask_Suc_le unat_mask del: power_Suc)

lemma mask_Suc_nonzero: "Suc k \<le> 64 \<Longrightarrow> (mask (Suc k) :: u64) \<noteq> 0"
  using unat_mask [of "Suc k"] two_power_Suc [of k] by (auto simp del: power_Suc)

lemmas mask_step = drop_bit_mask mask_Suc_le unat_minus_mask mask_Suc_nonzero

lemma GetHeight_loop_peel:
  "k \<le> 64 \<Longrightarrow> GetHeight_loop (mask k) h = of_nat (snd (peel k (unat h)))"
proof (induction k arbitrary: h)
  case 0
  then show ?case by (simp add: GetHeight_loop.simps)
next
  case (Suc k)
  then show ?case
    by (subst GetHeight_loop.simps) (simp add: mask_step case_prod_unfold del: power_Suc One_nat_def)
qed

lemma mask_half: "Suc k \<le> 64 \<Longrightarrow> ((mask (Suc k) :: u64) + 1) div 2 = (if k = 63 then 0 else 2 ^ k)"
proof -
  assume k: "Suc k \<le> 64"
  show ?thesis
  proof (cases "k = 63")
    case True
    then have "(mask (Suc k) :: u64) + 1 = 0" by (simp add: mask_eq_exp_minus_1)
    with True show ?thesis by simp
  next
    case False
    with k have "Suc k < 64" by simp
    then have "(2::nat) ^ Suc k < 2 ^ 64" by (intro power_strict_increasing) simp_all
    then have "unat (2 ^ Suc k :: u64) = 2 ^ Suc k"
      using unat_of_nat_small [of "2 ^ Suc k"] by simp
    moreover have "(mask (Suc k) :: u64) + 1 = 2 ^ Suc k" by (simp add: mask_eq_exp_minus_1)
    ultimately have "unat (((mask (Suc k) :: u64) + 1) div 2) = 2 ^ k"
      by (simp add: unat_div)
    moreover have "unat (2 ^ k :: u64) = 2 ^ k"
      using unat_of_nat_small [of "2 ^ k"] \<open>(2::nat) ^ Suc k < 2 ^ 64\<close> by simp
    ultimately show ?thesis using False by (simp add: word_unat_eq_iff)
  qed
qed

lemma GetLeafIndex_loop_peel:
  "k < 64 \<Longrightarrow> GetLeafIndex_loop (mask k) n a = a + of_nat (\<Sum>j\<leftarrow>fst (peel k (unat n)). 2 ^ (j - 1))"
proof (induction k arbitrary: n a)
  case 0
  then show ?case by (simp add: GetLeafIndex_loop.simps)
next
  case (Suc k)
  then show ?case
    by (subst GetLeafIndex_loop.simps)
      (simp add: mask_step mask_half case_prod_unfold add.assoc del: power_Suc One_nat_def)
qed

lemma GetPeakSizes_loop_peel:
  "k \<le> 64 \<Longrightarrow> GetPeakSizes_loop (mask k) n = map mask (fst (peel k (unat n)))"
proof (induction k arbitrary: n)
  case 0
  then show ?case by (simp add: GetPeakSizes_loop.simps)
next
  case (Suc k)
  then show ?case
    by (subst GetPeakSizes_loop.simps) (simp add: mask_step case_prod_unfold del: power_Suc One_nat_def)
qed

lemma mask_Suc_of_nat: "(mask (Suc k) :: u64) = of_nat (2 ^ Suc k - 1)"
proof -
  have "(mask (Suc k) :: u64) = of_nat (mask (Suc k))" by (simp only: of_nat_mask_eq)
  also have "(mask (Suc k) :: nat) = 2 ^ Suc k - 1" by (rule mask_eq_exp_minus_1)
  finally show ?thesis .
qed

lemma GetPeakIndices_loop_peel:
  "k \<le> 64 \<Longrightarrow>
   GetPeakIndices_loop (mask k) n (of_nat b) acc =
     (acc @ map of_nat (peak_positions b (fst (peel k (unat n)))), of_nat (snd (peel k (unat n))))"
proof (induction k arbitrary: n b acc)
  case 0
  then show ?case by (simp add: GetPeakIndices_loop.simps)
next
  case (Suc k)
  define p where "p = (2 ^ Suc k - 1 :: nat)"
  have pos: "1 \<le> b + p" using two_power_Suc [of k] unfolding p_def by linarith
  have sum: "(of_nat b + mask (Suc k) :: u64) = of_nat (b + p)"
    by (simp only: mask_Suc_of_nat of_nat_add p_def)
  have idx: "(of_nat (b + p) - 1 :: u64) = of_nat (b + p - 1)"
    using pos by (simp only: of_nat_diff of_nat_1)
  have pp: "peak_positions b (Suc k # ks) = (b + p - 1) # peak_positions (b + p) ks" for ks
    by (simp only: p_def peak_positions.simps)
  show ?case
  proof (cases "p \<le> unat n")
    case True
    then have "peel (Suc k) (unat n) = (Suc k # fst (peel k (unat n - p)), snd (peel k (unat n - p)))"
      by (simp add: p_def case_prod_unfold del: power_Suc)
    moreover have "mask (Suc k) \<le> n" "unat (n - mask (Suc k)) = unat n - p"
      using True Suc.prems by (simp_all add: mask_step p_def del: power_Suc)
    ultimately show ?thesis
      using Suc mask_Suc_nonzero [of k] drop_bit_mask [of k]
      by (subst GetPeakIndices_loop.simps) (simp only: if_True sum idx Suc_leD simp_thms
           pp list.map append_assoc append_Cons append_Nil fst_conv snd_conv)
  next
    case False
    then show ?thesis
      using Suc by (subst GetPeakIndices_loop.simps)
        (simp add: mask_step p_def del: power_Suc One_nat_def)
  qed
qed

lemma CountBitsSet_loop_popcount: "CountBitsSet_loop n c = c + of_nat (popcount (unat n))"
proof (induction n c rule: CountBitsSet_loop.induct)
  case (1 n c)
  show ?case
  proof (cases "n = 0")
    case True
    then show ?thesis by (simp add: CountBitsSet_loop.simps popcount.simps)
  next
    case False
    have "ucast (n AND 1) = (of_nat (unat n mod 2) :: u8)"
      by (simp add: word_unat_eq_iff and_one_eq unat_mod unsigned_ucast_eq unat_of_nat take_bit_nat_eq_self)
    moreover have "popcount (unat n) = unat n mod 2 + popcount (unat n div 2)"
      using False by (subst popcount.simps) (simp add: unat_eq_0)
    ultimately show ?thesis
      using 1 False by (subst CountBitsSet_loop.simps) (simp add: unat_drop_bit_1 ac_simps)
  qed
qed

lemma CountBitsSet_popcount: "CountBitsSet n = of_nat (popcount (unat n))"
  by (simp add: CountBitsSet_def CountBitsSet_loop_popcount)

section \<open>Correctness of the index arithmetic\<close>

lemma GetHeight_spec:
  assumes "unat i + 1 < 2 ^ 64"
  shows "GetHeight i = of_nat (postorder_heights 63 ! unat i)"
proof -
  obtain k where k: "k \<le> 64" "FillOnesToRight (i + 1) = mask k" "unat (i + 1) < 2 ^ k"
    by (rule FillOnesToRight_mask)
  have i: "unat i + 1 < 2 ^ k" using k(3) assms by (simp only: unat_Suc_u64)
  then obtain k' where k': "k = Suc k'" by (cases k) auto
  have small: "unat i < 2 ^ Suc k' - 1" using i k' by simp
  have "peel k (unat i) = peel k' (unat i)" using small k' by (simp only: peel_skip)
  moreover have "peel 63 (unat i) = peel k' (unat i)" using small k k' by (intro peel_mono) simp_all
  moreover have "snd (peel 63 (unat i)) = postorder_heights 63 ! unat i"
    using assms by (intro peel_height) simp
  ultimately show ?thesis using k by (simp add: GetHeight_def GetHeight_loop_peel)
qed

lemma postorder_height_le: "i < length (postorder_heights k) \<Longrightarrow> postorder_heights k ! i \<le> k"
  using postorder_block [of i k] by blast

lemma unat_GetHeight:
  assumes "unat i + 1 < 2 ^ 64"
  shows "unat (GetHeight i) = postorder_heights 63 ! unat i" "unat (GetHeight i) \<le> 63"
proof -
  have "postorder_heights 63 ! unat i \<le> 63"
    using assms by (intro postorder_height_le) (simp add: length_postorder_heights)
  then show "unat (GetHeight i) = postorder_heights 63 ! unat i" "unat (GetHeight i) \<le> 63"
    using GetHeight_spec [OF assms] by (simp_all add: unat_of_nat_small)
qed

lemma popcount_bound: "n < 2 ^ k \<Longrightarrow> popcount n \<le> k"
proof (induction k arbitrary: n)
  case 0
  then show ?case by (simp add: popcount.simps)
next
  case (Suc k)
  have "popcount n \<le> n mod 2 + popcount (n div 2)"
    by (cases "n = 0") (simp_all add: popcount.simps [of n] popcount.simps [of 0])
  moreover have "popcount (n div 2) \<le> k" using Suc.prems by (intro Suc.IH) simp
  moreover have "n mod 2 \<le> 1" by simp
  ultimately show ?case by linarith
qed

lemma GetPMMRIndex_mmr_size:
  assumes "unat n < 2 ^ 63"
  shows "unat (GetPMMRIndex n) = mmr_size (unat n)"
proof -
  let ?p = "popcount (unat n)"
  have p: "?p \<le> 63" "?p \<le> unat n" using popcount_bound [OF assms] popcount_le by auto
  then have "ucast (of_nat ?p :: u8) = (of_nat ?p :: u64)"
    by (simp add: word_unat_eq_iff unat_of_nat unsigned_ucast_eq take_bit_nat_eq_self)
  moreover have "2 * n = of_nat (2 * unat n)" by simp
  ultimately have "GetPMMRIndex n = of_nat (2 * unat n - ?p)"
    using p by (simp only: GetPMMRIndex_def CountBitsSet_popcount of_nat_diff)
  then show ?thesis using assms by (simp add: mmr_size_def unat_of_nat_small)
qed

lemma peel_64: "i + 1 < 2 ^ 64 \<Longrightarrow> peel 64 i = peel 63 i"
  using peel_skip [of i 63] by simp

lemma FillOnesToRight_peel:
  assumes "unat i + 1 < 2 ^ 64"
  obtains k where "k \<le> 64" "FillOnesToRight i = mask k" "peel k (unat i) = peel 63 (unat i)"
proof -
  obtain k where k: "k \<le> 64" "FillOnesToRight i = mask k" "unat i < 2 ^ k"
    by (rule FillOnesToRight_mask)
  show ?thesis
  proof (cases "k = 64")
    case True
    with k peel_64 [OF assms] show ?thesis using that [of k] by simp
  next
    case False
    have "(2::nat) * 2 ^ k \<ge> 2 ^ k + 1" by simp
    then have "unat i < 2 ^ Suc k - 1" using k(3) by simp
    then have "peel 63 (unat i) = peel k (unat i)" using False k(1) by (intro peel_mono) simp_all
    with k show ?thesis using that [of k] by simp
  qed
qed

lemma GetLeafIndex_loop_64:
  "unat i + 1 < 2 ^ 64 \<Longrightarrow> GetLeafIndex_loop (mask 64) i a = GetLeafIndex_loop (mask 63) i a"
  using drop_bit_mask [of 63] mask_Suc_le [of 63 i] mask_Suc_nonzero [of 63]
  by (subst GetLeafIndex_loop.simps) simp

lemma leaf_count_less: "(\<Sum>j\<leftarrow>fst (peel k i). 2 ^ (j - 1)) < (2::nat) ^ k"
  using peel_sound [of k i] sum_distinct_powers [of "fst (peel k i)" k] by (simp add: prod_eq_iff)

lemma GetLeafIndex_spec:
  assumes "unat i + 1 < 2 ^ 64"
  shows "unat (GetLeafIndex i) = (\<Sum>j\<leftarrow>fst (peel 63 (unat i)). 2 ^ (j - 1))"
proof -
  obtain k where k: "k \<le> 64" "FillOnesToRight i = mask k" "peel k (unat i) = peel 63 (unat i)"
    using assms by (rule FillOnesToRight_peel)
  have "GetLeafIndex i = of_nat (\<Sum>j\<leftarrow>fst (peel 63 (unat i)). 2 ^ (j - 1))"
  proof (cases "k = 64")
    case True
    then show ?thesis
      using k assms GetLeafIndex_loop_peel [of 63 i 0] by (simp add: GetLeafIndex_def GetLeafIndex_loop_64)
  next
    case False
    then show ?thesis
      using k GetLeafIndex_loop_peel [of k i 0] by (simp add: GetLeafIndex_def)
  qed
  then show ?thesis using leaf_count_less [of 63 "unat i"] by (simp add: unat_of_nat_small)
qed

lemma IsLeaf_iff:
  assumes "unat i + 1 < 2 ^ 64"
  shows "IsLeaf i \<longleftrightarrow> snd (peel 63 (unat i)) = 0"
proof -
  have "postorder_heights 63 ! unat i = snd (peel 63 (unat i))"
    using assms by (intro peel_height [symmetric]) simp
  then show ?thesis using unat_GetHeight(1) [OF assms] by (simp add: IsLeaf_def unat_eq_0 [symmetric])
qed

lemma mmr_size_63: "n < 2 ^ 63 \<Longrightarrow> mmr_size n + 1 < 2 ^ 64"
  using mmr_size_less [of n 63] by simp

lemma GetPMMRIndex_leaf:
  assumes "unat n < 2 ^ 63"
  shows "unat (GetPMMRIndex n) + 1 < 2 ^ 64" "IsLeaf (GetPMMRIndex n)" "GetLeafIndex (GetPMMRIndex n) = n"
proof -
  show dom: "unat (GetPMMRIndex n) + 1 < 2 ^ 64"
    using mmr_size_63 [OF assms] by (simp only: GetPMMRIndex_mmr_size [OF assms])
  show "IsLeaf (GetPMMRIndex n)"
    using peel_mmr_size [OF assms] by (simp add: IsLeaf_iff [OF dom] GetPMMRIndex_mmr_size [OF assms])
  show "GetLeafIndex (GetPMMRIndex n) = n"
    using peel_mmr_size [OF assms] GetLeafIndex_spec [OF dom]
    by (simp add: GetPMMRIndex_mmr_size [OF assms] word_unat_eq_iff)
qed

lemma GetLeafIndex_leaf:
  assumes "unat i + 1 < 2 ^ 64" and "IsLeaf i"
  shows "unat (GetLeafIndex i) < 2 ^ 63" "GetPMMRIndex (GetLeafIndex i) = i"
proof -
  from peel_leaf [of 63 "unat i"] assms have
    eq: "unat i = mmr_size (unat (GetLeafIndex i))" and lt: "unat (GetLeafIndex i) < 2 ^ 63"
    by (simp_all only: GetLeafIndex_spec [OF assms(1)] IsLeaf_iff [OF assms(1)])
  show "unat (GetLeafIndex i) < 2 ^ 63" by (rule lt)
  show "GetPMMRIndex (GetLeafIndex i) = i"
    using eq GetPMMRIndex_mmr_size [OF lt] by (simp add: word_unat_eq_iff)
qed

lemma unat_push_bit_1: "k < 64 \<Longrightarrow> unat (push_bit k 1 :: u64) = 2 ^ k"
proof -
  assume "k < 64"
  then have "(2::nat) ^ k < 2 ^ 64" by (intro power_strict_increasing) simp_all
  then show ?thesis using unat_of_nat_small [of "2 ^ k"] by (simp add: push_bit_eq_mult)
qed

lemma inner_children:
  assumes "unat i + 1 < 2 ^ 64" and "\<not> IsLeaf i"
  obtains h where "GetHeight i = of_nat (Suc h)" "Suc h < 64" "2 ^ Suc h \<le> unat i"
    "GetHeight (i - 1) = of_nat h" "GetHeight (i - push_bit (Suc h) 1) = of_nat h"
    "GetHeight (i - push_bit (Suc h) 1 + 1) = 0"
proof -
  let ?H = "postorder_heights 63"
  have len: "unat i < length ?H" using assms(1) by (simp add: length_postorder_heights)
  have H: "unat (GetHeight i) = ?H ! unat i" "unat (GetHeight i) \<le> 63"
    using unat_GetHeight [OF assms(1)] by simp_all
  obtain h where h: "?H ! unat i = Suc h"
    using assms(2) H(1) by (cases "?H ! unat i") (simp_all add: IsLeaf_def unat_eq_0)
  with H have h63: "Suc h < 64" by simp
  note ch = postorder_children [OF len h]
  define d :: u64 where "d = push_bit (Suc h) 1"
  have ud: "unat d = 2 ^ Suc h" unfolding d_def using h63 by (rule unat_push_bit_1)
  have sub: "unat (i - d) = unat i - 2 ^ Suc h"
  proof -
    have "d \<le> i" using ch(1) by (simp only: word_le_nat_alt ud)
    then show ?thesis by (simp only: unat_sub ud)
  qed
  have p: "(2::nat) \<le> 2 ^ Suc h" by simp
  have one: "unat (i - 1) = unat i - 1"
  proof -
    have "1 \<le> unat i" using ch(1) p by linarith
    then show ?thesis using unat_sub [of 1 i] by (simp add: word_le_nat_alt)
  qed
  have next1: "unat (i - d + 1) = unat i - 2 ^ Suc h + 1"
    using sub assms(1) by (simp add: unat_plus_if' del: power_Suc)
  show ?thesis
  proof (rule that [of h, folded d_def])
    show "GetHeight i = of_nat (Suc h)" using H(1) h by (metis of_nat_unat_id)
    show "GetHeight (i - 1) = of_nat h"
      using ch(2) assms(1) by (subst GetHeight_spec) (simp_all add: one)
    show "GetHeight (i - d) = of_nat h"
      using ch(3) assms(1) by (subst GetHeight_spec) (simp_all add: sub del: power_Suc)
    show "GetHeight (i - d + 1) = 0"
      using ch(1,4) p assms(1) by (subst GetHeight_spec) (simp_all add: next1 del: power_Suc)
  qed (use h63 ch(1) in simp_all)
qed

lemma children_parent_sibling:
  assumes "unat i + 1 < 2 ^ 64" and "\<not> IsLeaf i"
  defines "l \<equiv> GetLeftChildIndex i (GetHeight i)" and "r \<equiv> GetRightChildIndex i"
  shows "GetHeight l = GetHeight i - 1 \<and> GetHeight r = GetHeight i - 1 \<and>
         GetParentIndex l = i \<and> GetParentIndex r = i \<and> GetSiblingIndex l = r \<and> GetSiblingIndex r = l"
proof -
  obtain h where h: "GetHeight i = of_nat (Suc h)" "Suc h < 64" "2 ^ Suc h \<le> unat i"
    "GetHeight (i - 1) = of_nat h" "GetHeight (i - push_bit (Suc h) 1) = of_nat h"
    "GetHeight (i - push_bit (Suc h) 1 + 1) = 0"
    using assms(1,2) by (rule inner_children)
  have u: "unat (of_nat (Suc h) :: u64) = Suc h" using h(2) by (intro unat_of_nat_small) simp
  then have nz: "of_nat h + 1 \<noteq> (0 :: u64)" by (metis add.commute of_nat_Suc unat_0 nat.distinct(1))
  have l: "l = i - push_bit (Suc h) 1" and r: "r = i - 1"
    using u by (simp_all only: l_def r_def GetLeftChildIndex_def GetRightChildIndex_def h(1))
  have u': "unat (of_nat h + 1 :: u64) = Suc h" using u by (simp add: add.commute)
  show ?thesis
    unfolding l r GetParentIndex_def GetSiblingIndex_def Let_def
    using h nz u' by (simp add: add.commute [of 1])
qed

lemma postorder_next:
  "Suc i < length (postorder_heights k) \<Longrightarrow>
     postorder_heights k ! Suc i = 0 \<or> postorder_heights k ! Suc i = Suc (postorder_heights k ! i)"
proof (induction k arbitrary: i)
  case 0
  then show ?case by simp
next
  case (Suc k)
  let ?P = "postorder_heights k"
  let ?s = "length ?P"
  have s0: "0 < ?s" by simp
  consider (left) "Suc i < ?s" | (mid) "Suc i = ?s" | (right) "?s \<le> i" "Suc (i - ?s) < ?s" | (root) "Suc i = ?s + ?s"
    using Suc.prems by fastforce
  then show ?case
  proof cases
    case left
    then show ?thesis using Suc.IH [of i] by (simp add: nth_append)
  next
    case mid
    then show ?thesis using hd_conv_nth [of ?P] by (simp add: nth_append)
  next
    case right
    then have "Suc i - ?s = Suc (i - ?s)" by simp
    then show ?thesis using right Suc.IH [of "i - ?s"] by (simp add: nth_append)
  next
    case root
    then have "i - ?s = ?s - 1" "?s \<le> i" "i - ?s < ?s" using s0 by linarith+
    then show ?thesis using root last_conv_nth [of ?P] by (simp add: nth_append)
  qed
qed


text \<open>\<^verbatim>\<open>GetNumNodes\<close>: the size of the smallest complete MMR that holds a position.\<close>

lemma postorder_63: "i + 1 < 2 ^ 64 \<Longrightarrow> i < length (postorder_heights 63)"
  by (simp add: length_postorder_heights)

lemma leaf_positions:
  assumes "i + 1 < 2 ^ 64"
  shows "postorder_heights 63 ! i = 0 \<longleftrightarrow> (\<exists>n<2 ^ 63. i = mmr_size n)"
proof -
  have "postorder_heights 63 ! i = snd (peel 63 i)"
    using assms by (intro peel_height [symmetric]) simp
  then show ?thesis using peel_leaf [of 63 i] peel_mmr_size [of _ 63] by auto
qed

lemma mmr_size_Suc: "mmr_size n < mmr_size (Suc n)"
proof -
  have "popcount (Suc n) \<le> popcount n + 1"
  proof (induction n rule: less_induct)
    case (less n)
    show ?case
    proof (cases "even n")
      case True
      then show ?thesis by (subst popcount.simps) (cases "n = 0"; simp add: popcount.simps [of n] popcount.simps [of 0])
    next
      case False
      then have "popcount (Suc n) = popcount (Suc (n div 2))" "popcount n = 1 + popcount (n div 2)"
        by (subst popcount.simps; simp add: odd_iff_mod_2_eq_one)+
      with less [of "n div 2"] False show ?thesis by (cases n) auto
    qed
  qed
  then show ?thesis using popcount_le [of n] popcount_le [of "Suc n"] by (simp add: mmr_size_def)
qed

lemma mmr_size_mono: "m < n \<Longrightarrow> mmr_size m < mmr_size n"
  using mmr_size_Suc by (rule lift_Suc_mono_less)

lemma between_leaves:
  assumes "mmr_size n < j" "j < mmr_size (Suc n)" "j + 1 < 2 ^ 64"
  shows "postorder_heights 63 ! j = Suc (postorder_heights 63 ! (j - 1))"
proof -
  have "j \<noteq> mmr_size m" for m
  proof
    assume "j = mmr_size m"
    then have "\<not> m \<le> n" "\<not> Suc n \<le> m"
      using assms(1,2) mmr_size_mono [of m n] mmr_size_mono [of "Suc n" m] by (auto simp: le_less)
    then show False by simp
  qed
  then have "postorder_heights 63 ! j \<noteq> 0" using leaf_positions [OF assms(3)] by blast
  moreover have "Suc (j - 1) = j" using assms(1) by simp
  ultimately show ?thesis
    using postorder_next [of "j - 1" 63] postorder_63 [OF assms(3)] by simp
qed

lemma GetNumNodes_loop_spec:
  assumes "mmr_size n \<le> i" "i < mmr_size (Suc n)" "Suc n < 2 ^ 63"
  shows "GetNumNodes_loop (of_nat (Suc i)) (GetHeight (of_nat i)) (GetHeight (of_nat (Suc i))) =
    of_nat (mmr_size (Suc n))"
  using assms(1,2)
proof (induction "mmr_size (Suc n) - i" arbitrary: i rule: less_induct)
  case less
  have top: "mmr_size (Suc n) + 1 < 2 ^ 64" using assms(3) by (rule mmr_size_63)
  have ht: "j + 1 < 2 ^ 64 \<Longrightarrow> unat (GetHeight (of_nat j)) = postorder_heights 63 ! j" for j
    using unat_GetHeight(1) [of "of_nat j"] by (simp add: unat_of_nat_small)
  show ?case
  proof (cases "Suc i = mmr_size (Suc n)")
    case True
    then have "postorder_heights 63 ! Suc i = 0" using leaf_positions [of "Suc i"] top assms(3) by (metis True)
    then have "GetHeight (of_nat (Suc i)) = 0" using ht [of "Suc i"] top True by (simp add: unat_eq_0)
    then show ?thesis using True by (simp add: GetNumNodes_loop.simps [of _ _ 0])
  next
    case False
    with less.prems have lt: "Suc i < mmr_size (Suc n)" by simp
    then have "postorder_heights 63 ! Suc i = Suc (postorder_heights 63 ! i)"
      using between_leaves [of n "Suc i"] less.prems top by simp
    then have "GetHeight (of_nat i) < GetHeight (of_nat (Suc i))"
      using ht [of i] ht [of "Suc i"] lt top by (simp add: word_less_nat_alt)
    moreover have "of_nat (Suc i) + 1 = (of_nat (Suc (Suc i)) :: u64)" by simp
    ultimately show ?thesis
      using less.hyps [of "Suc i"] less.prems lt
      by (subst GetNumNodes_loop.simps) simp
  qed
qed

lemma GetNumNodes_spec:
  assumes "mmr_size n \<le> unat i" "unat i < mmr_size (Suc n)" "Suc n < 2 ^ 63"
  shows "unat (GetNumNodes i) = mmr_size (Suc n)"
proof -
  have "GetNumNodes i = of_nat (mmr_size (Suc n))"
    using GetNumNodes_loop_spec [OF assms] by (simp add: GetNumNodes_def add.commute)
  then show ?thesis using mmr_size_63 [OF assms(3)] by (simp add: unat_of_nat_small)
qed

lemma peel_mountains:
  "n < 2 ^ k \<Longrightarrow> fst (peel k (mmr_size n)) = map Suc (rev (filter (bit n) [0..<k]))"
proof (induction k arbitrary: n)
  case 0
  then show ?case by simp
next
  case (Suc k)
  show ?case
  proof (cases "n < 2 ^ k")
    case True
    then have "mmr_size n < 2 ^ Suc k - 1" "\<not> bit n k"
      using mmr_size_less [OF True] by (simp_all add: bit_nat_def)
    then show ?thesis using Suc.IH [OF True] by (simp del: power_Suc)
  next
    case False
    define m where "m = n - 2 ^ k"
    with False Suc.prems have nm: "n = 2 ^ k + m" and m: "m < 2 ^ k" by auto
    have "mmr_size n = (2 ^ Suc k - 1) + mmr_size m" using m by (simp only: nm mmr_size_power_add)
    moreover have "bit n k" using m by (simp add: nm bit_nat_def div_add_self1)
    moreover have "take_bit k n = m" using m by (simp add: nm take_bit_eq_mod)
    then have "filter (bit n) [0..<k] = filter (bit m) [0..<k]"
      by (intro filter_cong) (auto simp: bit_take_bit_iff)
    ultimately show ?thesis using Suc.IH [OF m] by (simp add: case_prod_unfold del: power_Suc)
  qed
qed


lemma mmr_size_pos: "0 < n \<Longrightarrow> 0 < mmr_size n"
  using mmr_size_mono [of 0 n] by simp

lemma unat_of_nat_mmr_size: "n < 2 ^ 63 \<Longrightarrow> unat (of_nat (mmr_size n) :: u64) = mmr_size n"
  using mmr_size_63 [of n] by (intro unat_of_nat_small) simp

lemma peel_mmr_size_63:
  "n < 2 ^ 63 \<Longrightarrow> peel 63 (mmr_size n) = (mountains n, 0)"
  using peel_mmr_size [of n 63] peel_mountains [of n 63] by (simp add: prod_eq_iff mountains_def)

lemma GetPeakIndices_peel:
  assumes "0 < unat s" "unat s + 1 < 2 ^ 64"
  shows "GetPeakIndices s =
    (if snd (peel 63 (unat s)) = 0 then map of_nat (peak_positions 0 (fst (peel 63 (unat s)))) else [])"
proof -
  obtain k where k: "k \<le> 64" "FillOnesToRight s = mask k" "peel k (unat s) = peel 63 (unat s)"
    using assms(2) by (rule FillOnesToRight_peel)
  have "snd (peel 63 (unat s)) \<le> unat s"
    using peel_sound [of 63 "unat s"] by (simp add: prod_eq_iff)
  then have "0 < (of_nat (snd (peel 63 (unat s))) :: u64) \<longleftrightarrow> snd (peel 63 (unat s)) \<noteq> 0"
    using assms by (simp add: word_less_nat_alt unat_of_nat_small)
  moreover have "0 < s" using assms(1) by (simp add: word_less_nat_alt)
  ultimately show ?thesis
    using k GetPeakIndices_loop_peel [of k s 0 "[]"] by (simp add: GetPeakIndices_def)
qed

lemma peaks_complete:
  "0 < n \<Longrightarrow> n < 2 ^ 63 \<Longrightarrow>
     GetPeakIndices (of_nat (mmr_size n)) = map of_nat (peak_positions 0 (mountains n))"
  using mmr_size_pos [of n] mmr_size_63 [of n] peel_mmr_size_63 [of n] unat_of_nat_mmr_size [of n]
  by (subst GetPeakIndices_peel) simp_all

lemma peaks_incomplete:
  assumes "unat s + 1 < 2 ^ 64" and "\<forall>n<2 ^ 63. unat s \<noteq> mmr_size n"
  shows "GetPeakIndices s = []"
proof (cases "unat s = 0")
  case True
  then show ?thesis by (simp add: GetPeakIndices_def unat_eq_0)
next
  case False
  have "snd (peel 63 (unat s)) \<noteq> 0" using peel_leaf [of 63 "unat s"] assms(2) by auto
  then show ?thesis using False assms(1) by (subst GetPeakIndices_peel) simp_all
qed

lemma sum_mountains: "n < 2 ^ 63 \<Longrightarrow> (\<Sum>j\<leftarrow>mountains n. 2 ^ (j - 1)) = n"
  using peel_mmr_size [of n 63] by (simp add: peel_mmr_size_63)

lemma fold_leaves:
  "\<forall>j\<in>set js. 0 < j \<and> j \<le> 63 \<Longrightarrow>
   fold (\<lambda>peakSize numLeaves. numLeaves + (peakSize + 1) div 2) (map mask js) a =
     a + (of_nat (\<Sum>j\<leftarrow>js. 2 ^ (j - 1)) :: u64)"
proof (induction js arbitrary: a)
  case Nil
  then show ?case by simp
next
  case (Cons j js)
  then obtain j' where j': "j = Suc j'" "j' < 63" by (cases j) auto
  then have "((mask j :: u64) + 1) div 2 = 2 ^ j'" using mask_half [of j'] by simp
  with Cons j' show ?case by (simp add: add.assoc)
qed

lemma nodes_and_leaves:
  assumes "mmr_size n \<le> unat i" "unat i < mmr_size (Suc n)" "Suc n < 2 ^ 63"
  shows "unat (GetNumNodes i) = mmr_size (Suc n) \<and> unat (GetNumLeaves i) = Suc n"
proof -
  have nodes: "unat (GetNumNodes i) = mmr_size (Suc n)" using assms by (rule GetNumNodes_spec)
  have dom: "unat (GetNumNodes i) + 1 < 2 ^ 64" using mmr_size_63 [OF assms(3)] by (simp only: nodes)
  obtain k where k: "k \<le> 64" "FillOnesToRight (GetNumNodes i) = mask k"
    "peel k (mmr_size (Suc n)) = peel 63 (mmr_size (Suc n))"
    using FillOnesToRight_peel [OF dom] nodes by metis
  have "0 < GetNumNodes i" using nodes mmr_size_pos [of "Suc n"] by (simp add: word_less_nat_alt)
  then have sizes: "GetPeakSizes (GetNumNodes i) = map mask (mountains (Suc n))"
    using k GetPeakSizes_loop_peel [of k "GetNumNodes i"] nodes assms(3)
    by (simp add: GetPeakSizes_def peel_mmr_size_63)
  have "\<forall>j\<in>set (mountains (Suc n)). 0 < j \<and> j \<le> 63" by (auto simp: mountains_def)
  from fold_leaves [OF this, of 0] have "unat (GetNumLeaves i) = unat (of_nat (Suc n) :: u64)"
    using sum_mountains [OF assms(3)] by (simp add: GetNumLeaves_def sizes)
  moreover have "unat (of_nat (Suc n) :: u64) = Suc n" using assms(3) by (intro unat_of_nat_small) simp
  ultimately show ?thesis using nodes by simp
qed

section \<open>Properties of the index arithmetic\<close>

text \<open>C27. \<^verbatim>\<open>MMRUtil::GetHeight\<close> is the height of the node at an index of the
  postorder traversal: for every index below \<open>2 ^ 64 - 1\<close> the bit-smearing loop returns the
  height listed at that position by the recursive traversal of a perfect tree.\<close>

theorem GetHeight_correct:
  assumes "unat mmrIndex + 1 < 2 ^ 64"
  shows "unat (GetHeight mmrIndex) = postorder_heights 63 ! unat mmrIndex"
  using assms by (rule unat_GetHeight)

theorem GetHeight_correct_witness: "unat (GetHeight 14) = postorder_heights 63 ! 14"
  using GetHeight_correct [of 14] by simp

text \<open>Leaf numbering is a bijection: \<^verbatim>\<open>GetPMMRIndex\<close> maps the \<open>2 ^ 63\<close>
  leaf numbers one to one onto the positions of height 0, and \<^verbatim>\<open>GetLeafIndex\<close>, computed
  by an unrelated greedy loop, is its inverse.\<close>

theorem GetPMMRIndex_bij:
  "bij_betw GetPMMRIndex {n. unat n < 2 ^ 63} {i. unat i + 1 < 2 ^ 64 \<and> IsLeaf i} \<and>
   (\<forall>n. unat n < 2 ^ 63 \<longrightarrow> GetLeafIndex (GetPMMRIndex n) = n)"
  using GetPMMRIndex_leaf GetLeafIndex_leaf
  by (intro conjI bij_betw_byWitness [where f' = GetLeafIndex]) auto

theorem GetPMMRIndex_bij_witness: "GetLeafIndex (GetPMMRIndex 11) = 11"
  using GetPMMRIndex_bij by simp

text \<open>The family relations agree: the left and right child of an inner node are one level
  lower, both have that node as their parent, and each is the other's sibling.\<close>

theorem GetChildren_correct:
  assumes "unat i + 1 < 2 ^ 64" and "\<not> IsLeaf i"
  shows "let l = GetLeftChildIndex i (GetHeight i); r = GetRightChildIndex i
     in GetHeight l = GetHeight i - 1 \<and> GetHeight r = GetHeight i - 1 \<and>
        GetParentIndex l = i \<and> GetParentIndex r = i \<and> GetSiblingIndex l = r \<and> GetSiblingIndex r = l"
  unfolding Let_def using assms by (rule children_parent_sibling)

theorem GetChildren_correct_witness: "GetParentIndex (GetLeftChildIndex 6 (GetHeight 6)) = 6"
proof -
  have "GetHeight 6 = 2" by code_simp
  then show ?thesis using GetChildren_correct [of 6] by (simp add: IsLeaf_def Let_def)
qed

text \<open>\<^verbatim>\<open>GetPeakIndices\<close> is right on every size: for the size of an MMR with
  \<open>n\<close> leaves it lists the peaks of the mountains of \<open>n\<close>, left to right, and for a size
  no MMR has it returns the empty vector.\<close>

theorem GetPeakIndices_correct:
  assumes "unat mmrSize + 1 < 2 ^ 64"
  shows "(\<forall>n. 0 < n \<and> n < 2 ^ 63 \<and> mmrSize = of_nat (mmr_size n) \<longrightarrow>
            GetPeakIndices mmrSize = map of_nat (peak_positions 0 (mountains n))) \<and>
         ((\<forall>n<2 ^ 63. unat mmrSize \<noteq> mmr_size n) \<longrightarrow> GetPeakIndices mmrSize = [])"
  using assms peaks_complete peaks_incomplete by blast

theorem GetPeakIndices_correct_witness: "GetPeakIndices 19 = [14, 17, 18]"
proof -
  have size: "(19 :: u64) = of_nat (mmr_size 11)" by code_simp
  have mnt: "mountains 11 = [4, 2, 1]" by (simp add: mountains_def upt_rec bit_nat_def)
  have dom: "unat (19 :: u64) + 1 < 2 ^ 64" by simp
  have "GetPeakIndices 19 = map of_nat (peak_positions 0 (mountains 11))"
  proof (rule GetPeakIndices_correct [OF dom, THEN conjunct1, THEN spec, THEN mp], intro conjI)
    show "(19 :: u64) = of_nat (mmr_size 11)" by (rule size)
  qed simp_all
  then show ?thesis unfolding mnt by simp
qed

text \<open>Any position from leaf \<open>n\<close> up to the next leaf belongs to the MMR with
  \<open>n + 1\<close> leaves: \<^verbatim>\<open>GetNumNodes\<close> and \<^verbatim>\<open>GetNumLeaves\<close> return its
  node count and leaf count.\<close>

theorem GetNumLeaves_correct:
  assumes "mmr_size n \<le> unat i" and "unat i < mmr_size (Suc n)" and "Suc n < 2 ^ 63"
  shows "unat (GetNumNodes i) = mmr_size (Suc n) \<and> unat (GetNumLeaves i) = Suc n"
  using assms by (rule nodes_and_leaves)

theorem GetNumLeaves_correct_witness: "unat (GetNumNodes 4) = 7 \<and> unat (GetNumLeaves 4) = 4"
proof -
  have "mmr_size 3 = 4" "mmr_size 4 = 7" by code_simp+
  then show ?thesis using GetNumLeaves_correct [of 3 4] by simp
qed

end
