(* ===== verification/Data_File.thy ===== *)
theory Data_File
  imports Prelude
begin

text \<open>
  Append-only files with buffered writes: \<^verbatim>\<open>MappedFile\<close>,
  \<^verbatim>\<open>AppendOnlyFile\<close> (\<^verbatim>\<open>src/Core/File\<close>) and the fixed-record
  \<^verbatim>\<open>DataFile\<close> (\<^verbatim>\<open>include/Core/File/DataFile.h\<close>) that every MMR of
  the node is stored in, with the interface \<open>batchable\<close> of
  \<^verbatim>\<open>Traits::IBatchable\<close> and the interface \<open>block_store\<close> the MMR code relies
  on.

  The file on disk is the list of its bytes. The outcomes of the two system calls of a write,
  truncating and opening the file, are arguments (\<open>truncated\<close>, \<open>opened\<close>).
\<close>

section \<open>MappedFile\<close>

definition TruncateFile :: "bool \<Rightarrow> u64 \<Rightarrow> u8 list \<Rightarrow> u8 list" where
  "TruncateFile truncated newSize disk =
     (if truncated then take (unat newSize) disk @ replicate (unat newSize - length disk) 0 else disk)"

definition MappedFile_Write :: "bool \<Rightarrow> bool \<Rightarrow> u64 \<Rightarrow> u8 list \<Rightarrow> u8 list \<Rightarrow> bool \<times> u8 list" where
  "MappedFile_Write truncated opened startIndex data disk =
     (let disk = TruncateFile truncated startIndex disk
      in if data \<noteq> [] then
           if \<not> opened then (False, disk) else (True, disk @ data)
         else (True, disk))"

text \<open>A read of the mapping outside the file is undefined.\<close>

definition MappedFile_Read :: "u64 \<Rightarrow> u64 \<Rightarrow> u8 list \<Rightarrow> u8 list result" where
  "MappedFile_Read position numBytes disk =
     (if unat position + unat numBytes \<le> length disk
      then Inr (take (unat numBytes) (drop (unat position) disk))
      else Inl UNDEFINED_BEHAVIOUR)"

section \<open>AppendOnlyFile\<close>

record append_only_file =
  f_bufferIndex :: u64
  f_fileSize :: u64
  f_buffer :: "u8 list"
  f_disk :: "u8 list"

definition AppendOnlyFile_Load :: "u8 list \<Rightarrow> append_only_file" where
  "AppendOnlyFile_Load disk =
     \<lparr>f_bufferIndex = of_nat (length disk), f_fileSize = of_nat (length disk), f_buffer = [], f_disk = disk\<rparr>"

definition AppendOnlyFile_Flush :: "bool \<Rightarrow> bool \<Rightarrow> append_only_file \<Rightarrow> bool \<times> append_only_file" where
  "AppendOnlyFile_Flush truncated opened f =
     (if f_fileSize f = f_bufferIndex f \<and> f_buffer f = [] then (True, f)
      else if f_fileSize f < f_bufferIndex f then (False, f)
      else case MappedFile_Write truncated opened (f_bufferIndex f) (f_buffer f) (f_disk f) of
             (written, disk) \<Rightarrow>
               if \<not> written then (False, f\<lparr>f_disk := disk\<rparr>)
               else let fileSize = f_bufferIndex f + of_nat (length (f_buffer f))
                    in (True, \<lparr>f_bufferIndex = fileSize, f_fileSize = fileSize, f_buffer = [], f_disk = disk\<rparr>))"

definition AppendOnlyFile_Append :: "u8 list \<Rightarrow> append_only_file \<Rightarrow> append_only_file" where
  "AppendOnlyFile_Append data f = f\<lparr>f_buffer := f_buffer f @ data\<rparr>"

definition AppendOnlyFile_Rewind :: "u64 \<Rightarrow> append_only_file \<Rightarrow> bool \<times> append_only_file" where
  "AppendOnlyFile_Rewind nextPosition f =
     (if nextPosition > f_bufferIndex f + of_nat (length (f_buffer f)) then (False, f)
      else if nextPosition \<le> f_bufferIndex f then (True, f\<lparr>f_buffer := [], f_bufferIndex := nextPosition\<rparr>)
      else (True, f\<lparr>f_buffer := take (unat (nextPosition - f_bufferIndex f)) (f_buffer f)\<rparr>))"

definition AppendOnlyFile_Discard :: "append_only_file \<Rightarrow> append_only_file" where
  "AppendOnlyFile_Discard f = f\<lparr>f_bufferIndex := f_fileSize f, f_buffer := []\<rparr>"

definition AppendOnlyFile_GetSize :: "append_only_file \<Rightarrow> u64" where
  "AppendOnlyFile_GetSize f = f_bufferIndex f + of_nat (length (f_buffer f))"

definition AppendOnlyFile_Read :: "u64 \<Rightarrow> u64 \<Rightarrow> append_only_file \<Rightarrow> u8 list result" where
  "AppendOnlyFile_Read position numBytes f =
     (if position < f_bufferIndex f then MappedFile_Read position numBytes (f_disk f)
      else let firstBufferIndex = position - f_bufferIndex f
           in if unat firstBufferIndex + unat numBytes \<le> length (f_buffer f)
              then Inr (take (unat numBytes) (drop (unat firstBufferIndex) (f_buffer f)))
              else Inl UNDEFINED_BEHAVIOUR)"

section \<open>DataFile\<close>

record data_file =
  d_dirty :: bool
  d_file :: append_only_file

definition DataFile_Load :: "u8 list \<Rightarrow> data_file" where
  "DataFile_Load disk = \<lparr>d_dirty = False, d_file = AppendOnlyFile_Load disk\<rparr>"

text \<open>An exception leaves the object in the state it had when it was thrown, so the operations
  that write and may throw return the exception beside the state.\<close>

definition DataFile_Commit :: "bool \<Rightarrow> bool \<Rightarrow> data_file \<Rightarrow> unit result \<times> data_file" where
  "DataFile_Commit truncated opened d =
     (if d_dirty d then
        (case AppendOnlyFile_Flush truncated opened (d_file d) of
           (flushed, file) \<Rightarrow>
             if \<not> flushed then (Inl FILE_EXCEPTION, d\<lparr>d_file := file\<rparr>)
             else (Inr (), d\<lparr>d_file := file, d_dirty := False\<rparr>))
      else (Inr (), d\<lparr>d_dirty := False\<rparr>))"

definition DataFile_Rollback :: "data_file \<Rightarrow> data_file" where
  "DataFile_Rollback d =
     (if d_dirty d then d\<lparr>d_file := AppendOnlyFile_Discard (d_file d), d_dirty := False\<rparr>
      else d\<lparr>d_dirty := False\<rparr>)"

definition DataFile_Rewind :: "nat \<Rightarrow> u64 \<Rightarrow> data_file \<Rightarrow> unit result \<times> data_file" where
  "DataFile_Rewind NUM_BYTES newSize d =
     (case AppendOnlyFile_Rewind (newSize * of_nat NUM_BYTES) (d_file d) of
        (rewound, file) \<Rightarrow>
          (if rewound then Inr () else Inl FILE_EXCEPTION, \<lparr>d_dirty = True, d_file = file\<rparr>))"

definition DataFile_GetSize :: "nat \<Rightarrow> data_file \<Rightarrow> u64" where
  "DataFile_GetSize NUM_BYTES d = AppendOnlyFile_GetSize (d_file d) div of_nat NUM_BYTES"

definition DataFile_GetDataAt :: "nat \<Rightarrow> u64 \<Rightarrow> data_file \<Rightarrow> u8 list result" where
  "DataFile_GetDataAt NUM_BYTES position d =
     AppendOnlyFile_Read (position * of_nat NUM_BYTES) (of_nat NUM_BYTES) (d_file d)"

definition DataFile_AddData :: "u8 list \<Rightarrow> data_file \<Rightarrow> data_file" where
  "DataFile_AddData data d = \<lparr>d_dirty = True, d_file = AppendOnlyFile_Append data (d_file d)\<rparr>"

section \<open>Specification\<close>

text \<open>The bytes of a file as its user sees them: what is kept of the disk, then the buffer.\<close>

definition file_contents :: "append_only_file \<Rightarrow> u8 list" where
  "file_contents f = take (unat (f_bufferIndex f)) (f_disk f) @ f_buffer f"

definition file_ok :: "append_only_file \<Rightarrow> bool" where
  "file_ok f \<longleftrightarrow> length (f_disk f) < 2 ^ 64 \<and> unat (f_fileSize f) = length (f_disk f) \<and>
     f_bufferIndex f \<le> f_fileSize f \<and> length (file_contents f) < 2 ^ 64"

text \<open>A byte list cut into blocks of \<open>n\<close> bytes; a trailing part block is not a block.\<close>

fun blocks :: "nat \<Rightarrow> 'a list \<Rightarrow> 'a list list" where
  "blocks n xs = (if n = 0 \<or> length xs < n then [] else take n xs # blocks n (drop n xs))"

declare blocks.simps [simp del]

text \<open>What a data file holds, and what it would hold after a crash.\<close>

definition df_working :: "nat \<Rightarrow> data_file \<Rightarrow> u8 list list" where
  "df_working NUM_BYTES d = blocks NUM_BYTES (file_contents (d_file d))"

definition df_durable :: "nat \<Rightarrow> data_file \<Rightarrow> u8 list list" where
  "df_durable NUM_BYTES d = blocks NUM_BYTES (f_disk (d_file d))"

definition df_ok :: "nat \<Rightarrow> data_file \<Rightarrow> bool" where
  "df_ok NUM_BYTES d \<longleftrightarrow>
     0 < NUM_BYTES \<and> NUM_BYTES < 2 ^ 64 \<and> file_ok (d_file d) \<and>
     NUM_BYTES dvd length (f_disk (d_file d)) \<and> NUM_BYTES dvd unat (f_bufferIndex (d_file d)) \<and>
     NUM_BYTES dvd length (f_buffer (d_file d)) \<and>
     (d_dirty d \<or> f_buffer (d_file d) = [] \<and> f_bufferIndex (d_file d) = f_fileSize (d_file d))"

text \<open>The operations that change a data file, and what each does to the pair of the working
  list and the durable list.\<close>

datatype df_op = OpAdd "u8 list" | OpRewind u64 | OpCommit | OpRollback

fun df_apply :: "nat \<Rightarrow> df_op \<Rightarrow> data_file \<Rightarrow> data_file" where
  "df_apply n (OpAdd b) d = DataFile_AddData b d"
| "df_apply n (OpRewind k) d = snd (DataFile_Rewind n k d)"
| "df_apply n OpCommit d = snd (DataFile_Commit True True d)"
| "df_apply n OpRollback d = DataFile_Rollback d"

fun log_apply :: "df_op \<Rightarrow> u8 list list \<times> u8 list list \<Rightarrow> u8 list list \<times> u8 list list" where
  "log_apply (OpAdd b) (w, p) = (w @ [b], p)"
| "log_apply (OpRewind k) (w, p) = (if unat k \<le> length w then take (unat k) w else w, p)"
| "log_apply OpCommit (w, p) = (w, w)"
| "log_apply OpRollback (w, p) = (p, p)"

text \<open>Blocks have the record's size and every byte offset fits in 64 bits.\<close>

fun op_fits :: "nat \<Rightarrow> df_op \<Rightarrow> u8 list list \<times> u8 list list \<Rightarrow> bool" where
  "op_fits n (OpAdd b) (w, p) = (length b = n \<and> (length w + 1) * n < 2 ^ 64)"
| "op_fits n (OpRewind k) (w, p) = (unat k * n < 2 ^ 64)"
| "op_fits n _ _ = True"

primrec ops_fit :: "nat \<Rightarrow> df_op list \<Rightarrow> u8 list list \<times> u8 list list \<Rightarrow> bool" where
  "ops_fit n [] l = True"
| "ops_fit n (x # xs) l = (op_fits n x l \<and> ops_fit n xs (log_apply x l))"

section \<open>Interfaces\<close>

text \<open>
  \<^verbatim>\<open>Traits::IBatchable\<close>: changes are visible at once in the working state and become
  durable at the next \<open>Commit\<close>; \<open>Rollback\<close> returns to the durable state.
\<close>

locale batchable =
  fixes inv :: "'s \<Rightarrow> bool"
    and working :: "'s \<Rightarrow> 'v"
    and durable :: "'s \<Rightarrow> 'v"
    and Commit :: "'s \<Rightarrow> 's"
    and Rollback :: "'s \<Rightarrow> 's"
  assumes commit_inv: "inv s \<Longrightarrow> inv (Commit s)"
    and commit_working: "inv s \<Longrightarrow> working (Commit s) = working s"
    and commit_durable: "inv s \<Longrightarrow> durable (Commit s) = working s"
    and rollback_inv: "inv s \<Longrightarrow> inv (Rollback s)"
    and rollback_working: "inv s \<Longrightarrow> working (Rollback s) = durable s"
    and rollback_durable: "inv s \<Longrightarrow> durable (Rollback s) = durable s"
begin

text \<open>A transaction: any operations that keep the invariant and leave the disk alone, then a
  rollback or a commit.\<close>

lemma rollback_transaction:
  assumes "inv s" and "\<And>t. inv t \<Longrightarrow> inv (f t) \<and> durable (f t) = durable t"
  shows "working (Rollback ((f ^^ n) s)) = durable s"
proof -
  have "inv ((f ^^ n) s) \<and> durable ((f ^^ n) s) = durable s"
    using assms by (induction n) auto
  then show ?thesis by (simp add: rollback_working)
qed

lemma commit_then_rollback:
  "inv s \<Longrightarrow> working (Rollback (Commit s)) = working s"
  by (simp add: rollback_working commit_inv commit_durable)

lemma rollback_twice: "inv s \<Longrightarrow> working (Rollback (Rollback s)) = working (Rollback s)"
  by (simp add: rollback_working rollback_inv rollback_durable)

end

text \<open>
  What the MMR code relies on in a data file: a list of blocks with append, rewind and read.
  \<open>room s\<close> says another block still fits.
\<close>

locale block_store =
  fixes inv :: "'s \<Rightarrow> bool"
    and room :: "'s \<Rightarrow> bool"
    and block_ok :: "'b \<Rightarrow> bool"
    and view :: "'s \<Rightarrow> 'b list"
    and GetSize :: "'s \<Rightarrow> u64"
    and GetDataAt :: "u64 \<Rightarrow> 's \<Rightarrow> 'b result"
    and AddData :: "'b \<Rightarrow> 's \<Rightarrow> 's"
    and Rewind :: "u64 \<Rightarrow> 's \<Rightarrow> unit result \<times> 's"
  assumes size_view: "inv s \<Longrightarrow> unat (GetSize s) = length (view s)"
    and get_view: "inv s \<Longrightarrow> unat p < length (view s) \<Longrightarrow> GetDataAt p s = Inr (view s ! unat p)"
    and add_inv: "inv s \<Longrightarrow> room s \<Longrightarrow> block_ok b \<Longrightarrow> inv (AddData b s)"
    and add_view: "inv s \<Longrightarrow> room s \<Longrightarrow> block_ok b \<Longrightarrow> view (AddData b s) = view s @ [b]"
    and view_ok: "inv s \<Longrightarrow> list_all block_ok (view s)"
    and rewind_inv: "inv s \<Longrightarrow> unat n \<le> length (view s) \<Longrightarrow> inv (snd (Rewind n s))"
    and rewind_view: "inv s \<Longrightarrow> unat n \<le> length (view s) \<Longrightarrow>
          fst (Rewind n s) = Inr () \<and> view (snd (Rewind n s)) = take (unat n) (view s)"
begin

lemma get_after_add:
  assumes "inv s" "room s" "block_ok b"
  shows "GetDataAt (GetSize s) (AddData b s) = Inr b"
  using assms size_view [of s] add_inv [of s b] add_view [of s b] get_view [of "AddData b s" "GetSize s"]
  by simp

lemma rewind_add:
  assumes "inv s" "room s" "block_ok b"
  shows "view (snd (Rewind (GetSize s) (AddData b s))) = view s"
  using assms size_view [of s] add_inv [of s b] add_view [of s b]
    rewind_view [of "AddData b s" "GetSize s"] by simp

end

section \<open>Blocks\<close>

lemma blocks_Nil [simp]: "blocks n [] = []"
  by (subst blocks.simps) auto

lemma length_blocks: "0 < n \<Longrightarrow> length (blocks n xs) = length xs div n"
proof (induction n xs rule: blocks.induct)
  case (1 n xs)
  show ?case
  proof (cases "length xs < n")
    case False
    then show ?thesis using 1 by (subst blocks.simps) (simp add: le_div_geq)
  qed (use 1 in \<open>simp add: blocks.simps\<close>)
qed

lemma blocks_append: "0 < n \<Longrightarrow> n dvd length xs \<Longrightarrow> blocks n (xs @ ys) = blocks n xs @ blocks n ys"
proof (induction n xs rule: blocks.induct)
  case (1 n xs)
  show ?case
  proof (cases "length xs < n")
    case True
    with 1 have "xs = []" by (auto dest: dvd_imp_le)
    then show ?thesis by simp
  next
    case False
    with 1 have "n dvd length (drop n xs)" by simp
    with 1 False show ?thesis
      by (subst blocks.simps) (simp add: blocks.simps [of n xs])
  qed
qed

lemma blocks_single: "0 < n \<Longrightarrow> length xs = n \<Longrightarrow> blocks n xs = [xs]"
  by (subst blocks.simps) (simp add: blocks.simps)


lemma blocks_take: "0 < n \<Longrightarrow> k * n \<le> length xs \<Longrightarrow> blocks n (take (k * n) xs) = take k (blocks n xs)"
proof (induction k arbitrary: xs)
  case 0
  then show ?case by simp
next
  case (Suc k)
  then have "n \<le> length xs" by simp
  then have "take (Suc k * n) xs = take n xs @ take (k * n) (drop n xs)"
    by (simp add: take_add)
  moreover have "blocks n xs = take n xs # blocks n (drop n xs)"
    using \<open>n \<le> length xs\<close> Suc.prems(1) by (subst blocks.simps) simp
  ultimately show ?case
    using Suc \<open>n \<le> length xs\<close> by (simp add: blocks_append blocks_single)
qed

lemma blocks_nth: "(k + 1) * n \<le> length xs \<Longrightarrow> 0 < n \<Longrightarrow> blocks n xs ! k = take n (drop (k * n) xs)"
proof (induction k arbitrary: xs)
  case 0
  then show ?case by (subst blocks.simps) simp
next
  case (Suc k)
  then have "blocks n xs = take n xs # blocks n (drop n xs)" by (subst blocks.simps) simp
  with Suc show ?case by (simp add: add.commute)
qed

lemma blocks_lengths: "list_all (\<lambda>b. length b = n) (blocks n xs)"
proof (induction n xs rule: blocks.induct)
  case (1 n xs)
  then show ?case by (subst blocks.simps) (auto simp add: min_def)
qed

section \<open>AppendOnlyFile refines its contents\<close>

lemma length_file_contents:
  "file_ok f \<Longrightarrow> length (file_contents f) = unat (f_bufferIndex f) + length (f_buffer f)"
  by (auto simp add: file_ok_def file_contents_def word_le_nat_alt)

lemma AppendOnlyFile_GetSize_contents:
  assumes "file_ok f"
  shows "unat (AppendOnlyFile_GetSize f) = length (file_contents f)"
proof -
  have lt: "unat (f_bufferIndex f) + length (f_buffer f) < 2 ^ 64"
    using assms length_file_contents [OF assms] by (simp add: file_ok_def)
  then have "unat (of_nat (length (f_buffer f)) :: u64) = length (f_buffer f)"
    by (intro unat_of_nat_small) simp
  with lt show ?thesis
    by (simp add: AppendOnlyFile_GetSize_def length_file_contents [OF assms] unat_plus_if')
qed

lemma AppendOnlyFile_Append_contents [simp]:
  "file_contents (AppendOnlyFile_Append data f) = file_contents f @ data"
  by (simp add: AppendOnlyFile_Append_def file_contents_def)

lemma AppendOnlyFile_Append_ok:
  "file_ok f \<Longrightarrow> length (file_contents f) + length data < 2 ^ 64 \<Longrightarrow> file_ok (AppendOnlyFile_Append data f)"
  by (simp add: file_ok_def) (simp add: AppendOnlyFile_Append_def)

lemma AppendOnlyFile_Rewind_fail:
  "file_ok f \<Longrightarrow> unat p > length (file_contents f) \<Longrightarrow> AppendOnlyFile_Rewind p f = (False, f)"
  using AppendOnlyFile_GetSize_contents [of f]
  by (simp add: AppendOnlyFile_Rewind_def AppendOnlyFile_GetSize_def word_less_nat_alt)

lemma AppendOnlyFile_Rewind_contents:
  assumes ok: "file_ok f" and p: "unat p \<le> length (file_contents f)"
  shows "fst (AppendOnlyFile_Rewind p f)"
    and "file_contents (snd (AppendOnlyFile_Rewind p f)) = take (unat p) (file_contents f)"
    and "file_ok (snd (AppendOnlyFile_Rewind p f))"
proof -
  have fits: "\<not> p > f_bufferIndex f + of_nat (length (f_buffer f))"
    using AppendOnlyFile_GetSize_contents [OF ok] p
    by (simp add: AppendOnlyFile_GetSize_def word_less_nat_alt)
  then show "fst (AppendOnlyFile_Rewind p f)" by (simp add: AppendOnlyFile_Rewind_def)
  have b: "unat (f_bufferIndex f) \<le> length (f_disk f)"
    using ok by (simp add: file_ok_def word_le_nat_alt)
  show eq: "file_contents (snd (AppendOnlyFile_Rewind p f)) = take (unat p) (file_contents f)"
  proof (cases "p \<le> f_bufferIndex f")
    case True
    then show ?thesis
      using fits b by (simp add: AppendOnlyFile_Rewind_def file_contents_def word_le_nat_alt min_def)
  next
    case False
    then have "unat (p - f_bufferIndex f) = unat p - unat (f_bufferIndex f)"
      by (simp add: unat_sub)
    then show ?thesis
      using fits b False by (simp add: AppendOnlyFile_Rewind_def file_contents_def word_le_nat_alt min_def)
  qed
  have "f_disk (snd (AppendOnlyFile_Rewind p f)) = f_disk f"
    "f_fileSize (snd (AppendOnlyFile_Rewind p f)) = f_fileSize f"
    "f_bufferIndex (snd (AppendOnlyFile_Rewind p f)) \<le> f_bufferIndex f"
    by (auto simp add: AppendOnlyFile_Rewind_def)
  then show "file_ok (snd (AppendOnlyFile_Rewind p f))"
    using ok eq by (auto simp add: file_ok_def)
qed

lemma AppendOnlyFile_Flush_eq:
  assumes ok: "file_ok f"
  shows "AppendOnlyFile_Flush True True f =
    (True, \<lparr>f_bufferIndex = AppendOnlyFile_GetSize f, f_fileSize = AppendOnlyFile_GetSize f,
             f_buffer = [], f_disk = file_contents f\<rparr>)"
proof -
  have le: "f_bufferIndex f \<le> f_fileSize f" and b: "unat (f_bufferIndex f) \<le> length (f_disk f)"
    and sz: "unat (f_fileSize f) = length (f_disk f)"
    using ok by (simp_all add: file_ok_def word_le_nat_alt)
  have disk: "MappedFile_Write True True (f_bufferIndex f) (f_buffer f) (f_disk f) = (True, file_contents f)"
    using b by (simp add: MappedFile_Write_def TruncateFile_def file_contents_def Let_def)
  show ?thesis
  proof (cases "f_fileSize f = f_bufferIndex f \<and> f_buffer f = []")
    case True
    then have "f = \<lparr>f_bufferIndex = AppendOnlyFile_GetSize f, f_fileSize = AppendOnlyFile_GetSize f,
             f_buffer = [], f_disk = file_contents f\<rparr>"
      using sz by (cases f) (simp add: AppendOnlyFile_GetSize_def file_contents_def)
    with True show ?thesis by (simp add: AppendOnlyFile_Flush_def)
  next
    case False
    then show ?thesis
      using le disk by (auto simp add: AppendOnlyFile_Flush_def AppendOnlyFile_GetSize_def Let_def not_less)
  qed
qed

lemma AppendOnlyFile_Flush_contents:
  assumes ok: "file_ok f"
  shows "fst (AppendOnlyFile_Flush True True f)"
    and "file_contents (snd (AppendOnlyFile_Flush True True f)) = file_contents f"
    and "f_disk (snd (AppendOnlyFile_Flush True True f)) = file_contents f"
    and "f_buffer (snd (AppendOnlyFile_Flush True True f)) = []"
    and "f_bufferIndex (snd (AppendOnlyFile_Flush True True f)) = f_fileSize (snd (AppendOnlyFile_Flush True True f))"
    and "unat (f_bufferIndex (snd (AppendOnlyFile_Flush True True f))) = length (file_contents f)"
    and "file_ok (snd (AppendOnlyFile_Flush True True f))"
proof -
  let ?g = "\<lparr>f_bufferIndex = AppendOnlyFile_GetSize f, f_fileSize = AppendOnlyFile_GetSize f,
             f_buffer = [], f_disk = file_contents f\<rparr>"
  have size: "unat (AppendOnlyFile_GetSize f) = length (file_contents f)"
    using ok by (rule AppendOnlyFile_GetSize_contents)
  have "length (file_contents f) < 2 ^ 64" using ok by (simp add: file_ok_def)
  then have "file_contents ?g = file_contents f" "file_ok ?g"
    using size by (simp_all add: file_contents_def [of ?g] file_ok_def [of ?g])
  then show "fst (AppendOnlyFile_Flush True True f)"
    "file_contents (snd (AppendOnlyFile_Flush True True f)) = file_contents f"
    "f_disk (snd (AppendOnlyFile_Flush True True f)) = file_contents f"
    "f_buffer (snd (AppendOnlyFile_Flush True True f)) = []"
    "f_bufferIndex (snd (AppendOnlyFile_Flush True True f)) = f_fileSize (snd (AppendOnlyFile_Flush True True f))"
    "unat (f_bufferIndex (snd (AppendOnlyFile_Flush True True f))) = length (file_contents f)"
    "file_ok (snd (AppendOnlyFile_Flush True True f))"
    using size by (simp_all add: AppendOnlyFile_Flush_eq [OF ok])
qed

lemma AppendOnlyFile_Discard_contents:
  assumes "file_ok f"
  shows "file_contents (AppendOnlyFile_Discard f) = f_disk f" and "file_ok (AppendOnlyFile_Discard f)"
  using assms by (simp_all add: AppendOnlyFile_Discard_def file_contents_def file_ok_def)

text \<open>A read that does not straddle the boundary between the mapping and the buffer.\<close>

lemma AppendOnlyFile_Read_contents:
  assumes ok: "file_ok f" and p: "unat p + unat n \<le> length (file_contents f)"
    and "unat p + unat n \<le> unat (f_bufferIndex f) \<or> unat (f_bufferIndex f) \<le> unat p" and "0 < unat n"
  shows "AppendOnlyFile_Read p n f = Inr (take (unat n) (drop (unat p) (file_contents f)))"
proof (cases "p < f_bufferIndex f")
  case True
  moreover have "unat (f_bufferIndex f) \<le> length (f_disk f)" using ok by (simp add: file_ok_def word_le_nat_alt)
  ultimately show ?thesis
    using assms by (auto simp add: AppendOnlyFile_Read_def MappedFile_Read_def file_contents_def
        word_less_nat_alt drop_take)
next
  case False
  then have "unat (p - f_bufferIndex f) = unat p - unat (f_bufferIndex f)" by (simp add: unat_sub)
  moreover have "unat (f_bufferIndex f) \<le> length (f_disk f)" using ok by (simp add: file_ok_def word_le_nat_alt)
  ultimately show ?thesis
    using False assms(2) length_file_contents [OF ok]
    by (auto simp add: AppendOnlyFile_Read_def file_contents_def word_less_nat_alt Let_def min_def)
qed

section \<open>DataFile refines a list of blocks\<close>

lemma df_ok_contents_dvd: "df_ok n d \<Longrightarrow> n dvd length (file_contents (d_file d))"
  by (simp add: df_ok_def length_file_contents)

lemma df_size:
  assumes "df_ok n d"
  shows "unat (DataFile_GetSize n d) = length (df_working n d)"
  using assms AppendOnlyFile_GetSize_contents [of "d_file d"]
  by (simp add: df_ok_def DataFile_GetSize_def df_working_def length_blocks unat_div unat_of_nat_small)

lemma df_index:
  assumes ok: "df_ok n d" and p: "unat (p :: u64) \<le> length (df_working n d)"
  shows "unat (p * of_nat n) = unat p * n" and "unat p * n \<le> length (file_contents (d_file d))"
proof -
  have n: "0 < n" "n < 2 ^ 64" using ok by (simp_all add: df_ok_def)
  have "unat p * n \<le> length (file_contents (d_file d)) div n * n"
    using p n by (simp add: df_working_def length_blocks)
  then show le: "unat p * n \<le> length (file_contents (d_file d))"
    using df_ok_contents_dvd [OF ok] by simp
  also have "\<dots> < 2 ^ 64" using ok by (simp add: df_ok_def file_ok_def)
  finally show "unat (p * of_nat n) = unat p * n"
    using n iffD1 [OF unat_mult_lem, of p "of_nat n"] by (simp add: unat_of_nat_small)
qed

lemma df_get:
  assumes ok: "df_ok n d" and p: "unat p < length (df_working n d)"
  shows "DataFile_GetDataAt n p d = Inr (df_working n d ! unat p)"
proof -
  let ?f = "d_file d"
  have n: "0 < n" "n < 2 ^ 64" and fok: "file_ok ?f" and bi: "n dvd unat (f_bufferIndex ?f)"
    using ok by (simp_all add: df_ok_def)
  have idx: "unat (p * of_nat n) = unat p * n" using df_index(1) [OF ok] p by simp
  have "(unat p + 1) * n \<le> length (file_contents ?f) div n * n"
    using p n by (intro mult_le_mono1) (simp add: df_working_def length_blocks)
  then have le: "(unat p + 1) * n \<le> length (file_contents ?f)"
    using df_ok_contents_dvd [OF ok] by simp
  obtain q where q: "unat (f_bufferIndex ?f) = n * q" using bi by blast
  have "unat p + 1 \<le> q \<or> q \<le> unat p" by linarith
  then have "(unat p + 1) * n \<le> q * n \<or> q * n \<le> unat p * n" using mult_le_mono1 by blast
  then have split: "unat p * n + n \<le> unat (f_bufferIndex ?f) \<or> unat (f_bufferIndex ?f) \<le> unat p * n"
    by (simp add: q algebra_simps)
  have "AppendOnlyFile_Read (p * of_nat n) (of_nat n) ?f = Inr (take n (drop (unat p * n) (file_contents ?f)))"
    using AppendOnlyFile_Read_contents [OF fok, of "p * of_nat n" "of_nat n"] idx n le split
    by (simp add: unat_of_nat_small algebra_simps)
  then show ?thesis using blocks_nth [OF le n(1)] by (simp add: DataFile_GetDataAt_def df_working_def)
qed

lemma df_add:
  assumes ok: "df_ok n d" and room: "length (file_contents (d_file d)) + n < 2 ^ 64" and b: "length b = n"
  shows "df_ok n (DataFile_AddData b d)" and "df_working n (DataFile_AddData b d) = df_working n d @ [b]"
    and "df_durable n (DataFile_AddData b d) = df_durable n d"
proof -
  have dvd: "n dvd length (file_contents (d_file d))" by (rule df_ok_contents_dvd [OF ok])
  have "file_ok (AppendOnlyFile_Append b (d_file d))"
    using ok room b by (intro AppendOnlyFile_Append_ok) (simp_all add: df_ok_def)
  then show "df_ok n (DataFile_AddData b d)"
    using ok b by (simp add: df_ok_def DataFile_AddData_def) (simp add: AppendOnlyFile_Append_def)
  show "df_working n (DataFile_AddData b d) = df_working n d @ [b]"
    using ok b dvd by (simp add: df_ok_def DataFile_AddData_def df_working_def blocks_append blocks_single)
  show "df_durable n (DataFile_AddData b d) = df_durable n d"
    by (simp add: DataFile_AddData_def df_durable_def AppendOnlyFile_Append_def)
qed

lemma df_rewind:
  assumes ok: "df_ok n d" and k: "unat k \<le> length (df_working n d)"
  shows "fst (DataFile_Rewind n k d) = Inr ()" and "df_ok n (snd (DataFile_Rewind n k d))"
    and "df_working n (snd (DataFile_Rewind n k d)) = take (unat k) (df_working n d)"
    and "df_durable n (snd (DataFile_Rewind n k d)) = df_durable n d"
proof -
  let ?f = "d_file d" and ?p = "k * of_nat n"
  have n: "0 < n" and fok: "file_ok ?f" using ok by (simp_all add: df_ok_def)
  note idx = df_index [OF ok k]
  have p: "unat ?p \<le> length (file_contents ?f)" using idx by simp
  note rw = AppendOnlyFile_Rewind_contents [OF fok p]
  show "fst (DataFile_Rewind n k d) = Inr ()"
    using rw(1) by (simp add: DataFile_Rewind_def case_prod_unfold)
  show "df_working n (snd (DataFile_Rewind n k d)) = take (unat k) (df_working n d)"
    using rw(2) idx n by (simp add: DataFile_Rewind_def case_prod_unfold df_working_def blocks_take)
  have same: "f_disk (snd (AppendOnlyFile_Rewind ?p ?f)) = f_disk ?f"
    by (simp add: AppendOnlyFile_Rewind_def)
  then show "df_durable n (snd (DataFile_Rewind n k d)) = df_durable n d"
    by (simp add: DataFile_Rewind_def case_prod_unfold df_durable_def)
  have "n dvd unat (f_bufferIndex (snd (AppendOnlyFile_Rewind ?p ?f)))"
    using ok idx(1) by (auto simp add: AppendOnlyFile_Rewind_def df_ok_def)
  moreover have "n dvd length (f_buffer (snd (AppendOnlyFile_Rewind ?p ?f)))"
    using ok idx(1) by (auto simp add: AppendOnlyFile_Rewind_def df_ok_def min_def unat_sub dvd_diff_nat)
  ultimately show "df_ok n (snd (DataFile_Rewind n k d))"
    using ok rw(3) same by (simp add: DataFile_Rewind_def case_prod_unfold df_ok_def)
qed

lemma df_commit:
  assumes ok: "df_ok n d"
  shows "fst (DataFile_Commit True True d) = Inr ()" and "df_ok n (snd (DataFile_Commit True True d))"
    and "df_working n (snd (DataFile_Commit True True d)) = df_working n d"
    and "df_durable n (snd (DataFile_Commit True True d)) = df_working n d"
proof -
  let ?f = "d_file d"
  have fok: "file_ok ?f" using ok by (simp add: df_ok_def)
  note fl = AppendOnlyFile_Flush_contents [OF fok]
  show "fst (DataFile_Commit True True d) = Inr ()"
    using fl(1) by (simp add: DataFile_Commit_def case_prod_unfold)
  show "df_working n (snd (DataFile_Commit True True d)) = df_working n d"
    using fl(1,2) by (simp add: DataFile_Commit_def case_prod_unfold df_working_def)
  have "d_dirty d \<or> f_disk ?f = file_contents ?f"
    using ok by (auto simp add: df_ok_def file_contents_def file_ok_def)
  then show "df_durable n (snd (DataFile_Commit True True d)) = df_working n d"
    using fl(1,3) by (auto simp add: DataFile_Commit_def case_prod_unfold df_working_def df_durable_def)
  show "df_ok n (snd (DataFile_Commit True True d))"
    using ok fl df_ok_contents_dvd [OF ok]
    by (auto simp add: DataFile_Commit_def case_prod_unfold df_ok_def)
qed

lemma df_rollback:
  assumes ok: "df_ok n d"
  shows "df_ok n (DataFile_Rollback d)" and "df_working n (DataFile_Rollback d) = df_durable n d"
    and "df_durable n (DataFile_Rollback d) = df_durable n d"
proof -
  let ?f = "d_file d"
  have fok: "file_ok ?f" using ok by (simp add: df_ok_def)
  note dc = AppendOnlyFile_Discard_contents [OF fok]
  have clean: "d_dirty d \<or> f_disk ?f = file_contents ?f"
    using ok by (auto simp add: df_ok_def file_contents_def file_ok_def)
  show "df_working n (DataFile_Rollback d) = df_durable n d"
    using dc(1) clean by (auto simp add: DataFile_Rollback_def df_working_def df_durable_def)
  show "df_durable n (DataFile_Rollback d) = df_durable n d"
    by (simp add: DataFile_Rollback_def df_durable_def AppendOnlyFile_Discard_def)
  show "df_ok n (DataFile_Rollback d)"
    using ok dc(2) fok by (auto simp add: DataFile_Rollback_def df_ok_def AppendOnlyFile_Discard_def file_ok_def)
qed

text \<open>A failed open is reported, and the disk has lost at most what the buffer was to replace.\<close>

lemma df_commit_failed:
  assumes ok: "df_ok n d" and "f_buffer (d_file d) \<noteq> []"
  shows "DataFile_Commit True False d =
    (Inl FILE_EXCEPTION, d\<lparr>d_file := (d_file d)\<lparr>f_disk := take (unat (f_bufferIndex (d_file d))) (f_disk (d_file d))\<rparr>\<rparr>)"
  using assms
  by (auto simp add: df_ok_def file_ok_def DataFile_Commit_def AppendOnlyFile_Flush_def MappedFile_Write_def
      TruncateFile_def Let_def word_le_nat_alt word_less_nat_alt)

section \<open>Interpretations\<close>

text \<open>\<^verbatim>\<open>DataFile<NUM_BYTES>\<close> for the two record sizes the node uses most, hashes and
  kernel or output records, is an instance of both interfaces.\<close>

lemma df_store:
  assumes n: "0 < n" "n < 2 ^ 64"
  shows "block_store (df_ok n) (\<lambda>d. length (file_contents (d_file d)) + n < 2 ^ 64) (\<lambda>b. length b = n)
    (df_working n) (DataFile_GetSize n) (DataFile_GetDataAt n) DataFile_AddData (DataFile_Rewind n)"
proof unfold_locales
  show "list_all (\<lambda>b. length b = n) (df_working n s)" for s
    by (simp add: df_working_def blocks_lengths)
qed (simp_all add: df_size df_get df_add df_rewind)

lemma df_batchable:
  "batchable (df_ok n) (df_working n) (df_durable n) (\<lambda>d. snd (DataFile_Commit True True d)) DataFile_Rollback"
  by unfold_locales (simp_all add: df_commit df_rollback)

interpretation hash_store: block_store "df_ok 32" "\<lambda>d. length (file_contents (d_file d)) + 32 < 2 ^ 64"
  "\<lambda>b. length b = 32" "df_working 32" "DataFile_GetSize 32" "DataFile_GetDataAt 32" DataFile_AddData
  "DataFile_Rewind 32"
  by (rule df_store) simp_all

interpretation data_batch: batchable "df_ok n" "df_working n" "df_durable n"
  "\<lambda>d. snd (DataFile_Commit True True d)" DataFile_Rollback for n
  by (rule df_batchable)

section \<open>Sequences of operations\<close>

lemma df_contents_length:
  assumes "df_ok n d"
  shows "length (file_contents (d_file d)) = length (df_working n d) * n"
  using assms df_ok_contents_dvd [OF assms] by (simp add: df_working_def length_blocks df_ok_def)

lemma df_rewind_fail:
  assumes ok: "df_ok n d" and k: "\<not> unat k \<le> length (df_working n d)" and lt: "unat k * n < 2 ^ 64"
  shows "DataFile_Rewind n k d = (Inl FILE_EXCEPTION, d\<lparr>d_dirty := True\<rparr>)"
proof -
  have n: "0 < n" "n < 2 ^ 64" using ok by (simp_all add: df_ok_def)
  have "unat (k * of_nat n) = unat k * n"
    using n lt iffD1 [OF unat_mult_lem, of k "of_nat n"] by (simp add: unat_of_nat_small)
  moreover have "length (df_working n d) * n < unat k * n" using k n by simp
  ultimately show ?thesis
    using ok AppendOnlyFile_Rewind_fail [of "d_file d" "k * of_nat n"]
    by (simp add: DataFile_Rewind_def df_ok_def df_contents_length [OF ok])
qed

lemma df_apply_refines:
  assumes ok: "df_ok n d" and fits: "op_fits n x (df_working n d, df_durable n d)"
  shows "df_ok n (df_apply n x d) \<and>
    (df_working n (df_apply n x d), df_durable n (df_apply n x d)) = log_apply x (df_working n d, df_durable n d)"
proof (cases x)
  case (OpAdd b)
  then have "length (file_contents (d_file d)) + n < 2 ^ 64" "length b = n"
    using fits by (simp_all add: df_contents_length [OF ok] add.commute)
  then show ?thesis using OpAdd df_add [OF ok] by simp
next
  case (OpRewind k)
  show ?thesis
  proof (cases "unat k \<le> length (df_working n d)")
    case True
    then show ?thesis using OpRewind df_rewind [OF ok] by simp
  next
    case False
    moreover have "df_ok n (d\<lparr>d_dirty := True\<rparr>)" using ok by (simp add: df_ok_def)
    ultimately show ?thesis
      using OpRewind fits df_rewind_fail [OF ok False] by (simp add: df_working_def df_durable_def)
  qed
qed (simp_all add: df_commit [OF ok] df_rollback [OF ok])

lemma df_run_refines:
  assumes "df_ok n d" and "ops_fit n xs (df_working n d, df_durable n d)"
  shows "df_ok n (fold (df_apply n) xs d) \<and>
    (df_working n (fold (df_apply n) xs d), df_durable n (fold (df_apply n) xs d)) =
      fold log_apply xs (df_working n d, df_durable n d)"
  using assms
proof (induction xs arbitrary: d)
  case (Cons x xs)
  then show ?case using df_apply_refines [of n d x] by simp
qed simp

text \<open>C3. A data file is a list of records with a durable copy: after any sequence of
  \<^verbatim>\<open>AddData\<close>, \<^verbatim>\<open>Rewind\<close> (failing ones included),
  \<^verbatim>\<open>Commit\<close> and \<^verbatim>\<open>Rollback\<close>, \<^verbatim>\<open>GetSize\<close> and
  \<^verbatim>\<open>GetDataAt\<close> return the length and the entries of the list that the same sequence
  produces on the abstract pair, and the blocks on disk are its durable half.\<close>

theorem DataFile_refines_log:
  assumes "df_ok n d" and "ops_fit n xs (df_working n d, df_durable n d)"
  shows "let d' = fold (df_apply n) xs d; (w, p) = fold log_apply xs (df_working n d, df_durable n d)
     in unat (DataFile_GetSize n d') = length w \<and>
        (\<forall>i. unat i < length w \<longrightarrow> DataFile_GetDataAt n i d' = Inr (w ! unat i)) \<and>
        blocks n (f_disk (d_file d')) = p"
proof -
  let ?d = "fold (df_apply n) xs d" and ?l = "fold log_apply xs (df_working n d, df_durable n d)"
  have ok: "df_ok n ?d" and l: "?l = (df_working n ?d, df_durable n ?d)"
    using df_run_refines [OF assms] by simp_all
  show ?thesis
    unfolding l Let_def using df_size [OF ok] df_get [OF ok] by (simp add: df_durable_def)
qed

theorem DataFile_refines_log_witness:
  "let d' = fold (df_apply 2) [OpAdd [1, 2], OpCommit, OpAdd [3, 4], OpRewind 1, OpAdd [5, 6]] (DataFile_Load [])
   in DataFile_GetDataAt 2 1 d' = Inr [5, 6] \<and> blocks 2 (f_disk (d_file d')) = [[1, 2]]"
proof -
  let ?xs = "[OpAdd [1, 2], OpCommit, OpAdd [3, 4], OpRewind 1, OpAdd [5, 6]]"
  have ok: "df_ok 2 (DataFile_Load [])"
    by (simp add: df_ok_def DataFile_Load_def AppendOnlyFile_Load_def file_ok_def file_contents_def)
  have empty: "df_working 2 (DataFile_Load []) = []" "df_durable 2 (DataFile_Load []) = []"
    by (simp_all add: df_working_def df_durable_def DataFile_Load_def AppendOnlyFile_Load_def file_contents_def)
  have "ops_fit 2 ?xs (df_working 2 (DataFile_Load []), df_durable 2 (DataFile_Load []))"
    by (simp add: empty)
  from DataFile_refines_log [OF ok this] show ?thesis by (auto simp add: Let_def empty)
qed

text \<open>A commit that cannot open the file throws and keeps the buffered records, but the
  truncation that preceded it has already been applied to the disk.\<close>

theorem DataFile_Commit_open_failure:
  assumes "df_ok n d" and "f_buffer (d_file d) \<noteq> []"
  shows "fst (DataFile_Commit True False d) = Inl FILE_EXCEPTION \<and>
    df_working n (snd (DataFile_Commit True False d)) = df_working n d \<and>
    f_disk (d_file (snd (DataFile_Commit True False d))) =
      take (unat (f_bufferIndex (d_file d))) (f_disk (d_file d))"
  using df_commit_failed [OF assms] by (simp add: df_working_def file_contents_def)

theorem DataFile_Commit_open_failure_witness:
  "fst (DataFile_Commit True False (DataFile_AddData [7] (snd (DataFile_Rewind 1 0 (DataFile_Load [9]))))) =
     Inl FILE_EXCEPTION"
proof -
  let ?d = "DataFile_AddData [7] (snd (DataFile_Rewind 1 0 (DataFile_Load [9])))"
  have "df_ok 1 ?d"
    by (simp add: df_ok_def DataFile_Load_def AppendOnlyFile_Load_def file_ok_def file_contents_def
        DataFile_Rewind_def AppendOnlyFile_Rewind_def DataFile_AddData_def AppendOnlyFile_Append_def)
  moreover have "f_buffer (d_file ?d) \<noteq> []"
    by (simp add: DataFile_AddData_def AppendOnlyFile_Append_def)
  ultimately show ?thesis using DataFile_Commit_open_failure [of 1 ?d] by simp
qed

end
