(* ===== verification/Bitmap_File.thy ===== *)
theory Bitmap_File
  imports MMR_Util Data_File
begin

text \<open>
  \<^verbatim>\<open>BitmapFile\<close> (\<^verbatim>\<open>include/Core/File/BitmapFile.h\<close>) and the part of
  \<^verbatim>\<open>LeafSet\<close> (\<^verbatim>\<open>src/PMMR/Common/LeafSet.h\<close>) that forwards to it: a
  memory-mapped bitmap, most significant bit first, with a map of modified bytes on top. The
  interface \<open>leaf_set\<close> states what the MMRs rely on; the bitmap refines a set of leaf
  indices.

  A Roaring bitmap, a library type the code only passes around, is the list of its 32-bit members
  in the order its iterator visits them. A write of the modified bytes to disk succeeds.
\<close>

section \<open>BitmapFile\<close>

record bitmap_file =
  bm_dirty :: bool
  bm_modifiedBytes :: "(u64, u8) std_map"
  bm_mmap :: "u8 list"

definition BitToByte :: "u8 \<Rightarrow> u8" where
  "BitToByte i = push_bit (7 - unat i) 1"

text \<open>\<^verbatim>\<open>seekp\<close> and \<^verbatim>\<open>write\<close> of one byte; the file grows with zeros.\<close>

definition write_byte :: "u64 \<Rightarrow> u8 \<Rightarrow> u8 list \<Rightarrow> u8 list" where
  "write_byte pos b disk =
     (let disk = disk @ replicate (unat pos + 1 - length disk) 0 in disk[unat pos := b])"

definition BitmapFile_GetByte :: "u64 \<Rightarrow> bitmap_file \<Rightarrow> u8" where
  "BitmapFile_GetByte byteIndex b =
     (case map_of (bm_modifiedBytes b) byteIndex of
        Some byte \<Rightarrow> byte
      | None \<Rightarrow> if unat byteIndex < length (bm_mmap b) then bm_mmap b ! unat byteIndex else 0)"

definition BitmapFile_Commit :: "bitmap_file \<Rightarrow> bitmap_file" where
  "BitmapFile_Commit b =
     (if bm_modifiedBytes b \<noteq> [] then
        b\<lparr>bm_mmap := fold (\<lambda>(pos, byte). write_byte pos byte) (bm_modifiedBytes b) (bm_mmap b),
          bm_modifiedBytes := [], bm_dirty := False\<rparr>
      else b)"

definition BitmapFile_Rollback :: "bitmap_file \<Rightarrow> bitmap_file" where
  "BitmapFile_Rollback b = b\<lparr>bm_modifiedBytes := [], bm_dirty := False\<rparr>"

definition BitmapFile_IsSet :: "u64 \<Rightarrow> bitmap_file \<Rightarrow> bool" where
  "BitmapFile_IsSet leafIndex b \<longleftrightarrow>
     BitmapFile_GetByte (leafIndex div 8) b AND BitToByte (ucast (leafIndex mod 8)) \<noteq> 0"

definition BitmapFile_Set :: "u64 \<Rightarrow> bitmap_file \<Rightarrow> bitmap_file" where
  "BitmapFile_Set leafIndex b =
     (let byte = BitmapFile_GetByte (leafIndex div 8) b OR BitToByte (ucast (leafIndex mod 8))
      in b\<lparr>bm_dirty := True, bm_modifiedBytes := map_put (leafIndex div 8) byte (bm_modifiedBytes b)\<rparr>)"

definition BitmapFile_Unset :: "u64 \<Rightarrow> bitmap_file \<Rightarrow> bitmap_file" where
  "BitmapFile_Unset leafIndex b =
     (let byte = BitmapFile_GetByte (leafIndex div 8) b AND (0xff XOR BitToByte (ucast (leafIndex mod 8)))
      in b\<lparr>bm_dirty := True, bm_modifiedBytes := map_put (leafIndex div 8) byte (bm_modifiedBytes b)\<rparr>)"

definition BitmapFile_SetAll :: "u32 list \<Rightarrow> bitmap_file \<Rightarrow> bitmap_file" where
  "BitmapFile_SetAll positionsToSet b =
     fold (\<lambda>v. BitmapFile_Set (GetLeafIndex (ucast (v - 1)))) positionsToSet b"

definition BitmapFile_UnsetAll :: "u32 list \<Rightarrow> bitmap_file \<Rightarrow> bitmap_file" where
  "BitmapFile_UnsetAll positionsToUnset b =
     fold (\<lambda>v. BitmapFile_Unset (GetLeafIndex (ucast (v - 1)))) positionsToUnset b"

definition BitmapFile_GetNumBytes :: "bitmap_file \<Rightarrow> u64" where
  "BitmapFile_GetNumBytes b =
     (let n = (if bm_modifiedBytes b \<noteq> [] then fst (last (bm_modifiedBytes b)) + 1 else 0)
      in if bm_mmap b \<noteq> [] then max n (of_nat (length (bm_mmap b)) + 1) else n)"

definition BitmapFile_Rewind :: "u64 \<Rightarrow> u64 list \<Rightarrow> bitmap_file \<Rightarrow> bitmap_file" where
  "BitmapFile_Rewind numLeaves leavesToAdd b =
     (let b = fold BitmapFile_Set leavesToAdd b;
          currentSize = BitmapFile_GetNumBytes b * 8
      in fold BitmapFile_Unset (map of_nat [unat numLeaves..<unat currentSize]) b)"

text \<open>The reference \<^verbatim>\<open>operator[]\<close> returns one of the two static members.\<close>

definition s_true :: bool where "s_true = False"
definition s_false :: bool where "s_false = False"

definition BitmapFile_at :: "u64 \<Rightarrow> bitmap_file \<Rightarrow> bool" where
  "BitmapFile_at leafIndex b = (if BitmapFile_IsSet leafIndex b then s_true else s_false)"

definition BitmapFile_ToRoaring :: "bitmap_file \<Rightarrow> u32 list" where
  "BitmapFile_ToRoaring b =
     (let numBytes = BitmapFile_GetNumBytes b
      in concat (map (\<lambda>i. let byte = BitmapFile_GetByte (ucast i) b
           in map (\<lambda>j. ucast (GetPMMRIndex (ucast (i * 8 + ucast j)) + 1))
                (filter (\<lambda>j. byte AND BitToByte j > 0) (map of_nat [0..<8])))
           (map (of_nat :: nat \<Rightarrow> u32) [0..<unat (ucast numBytes :: u32)])))"

text \<open>The migration of an old file, one bit for each node, to one bit for each leaf. Reading
  \<^verbatim>\<open>data\<close> out of range is undefined.\<close>

definition ConvertToLeaves_bit :: "u8 list \<Rightarrow> u64 \<Rightarrow> u8 list \<Rightarrow> u8 list result" where
  "ConvertToLeaves_bit data i converted =
     (let mmrIndex = GetPMMRIndex i
      in if \<not> unat (mmrIndex div 8) < length data then Inl UNDEFINED_BEHAVIOUR
         else if data ! unat (mmrIndex div 8) AND BitToByte (ucast (mmrIndex mod 8)) \<noteq> 0
              then Inr (converted[unat (i div 8) := converted ! unat (i div 8) OR BitToByte (ucast (i mod 8))])
              else Inr converted)"

definition ConvertToLeaves :: "u8 list \<Rightarrow> u8 list result" where
  "ConvertToLeaves data =
     (let numLeaves = GetNumLeaves (of_nat (length data) * 8)
      in fold (\<lambda>i r. bind_result r (ConvertToLeaves_bit data (of_nat i))) [0..<unat numLeaves]
           (Inr (replicate (unat (numLeaves div 8 + 1)) 0)))"

section \<open>LeafSet\<close>

definition LeafSet_Add :: "u64 \<Rightarrow> bitmap_file \<Rightarrow> bitmap_file" where
  "LeafSet_Add leafIndex b = BitmapFile_Set leafIndex b"

definition LeafSet_Remove :: "u64 \<Rightarrow> bitmap_file \<Rightarrow> bitmap_file" where
  "LeafSet_Remove leafIndex b = BitmapFile_Unset leafIndex b"

definition LeafSet_Contains :: "u64 \<Rightarrow> bitmap_file \<Rightarrow> bool" where
  "LeafSet_Contains leafIndex b = BitmapFile_IsSet leafIndex b"

definition LeafSet_Rewind :: "u64 \<Rightarrow> u64 list \<Rightarrow> bitmap_file \<Rightarrow> bitmap_file" where
  "LeafSet_Rewind numLeaves leavesToAdd b = BitmapFile_Rewind numLeaves leavesToAdd b"

definition LeafSet_Commit :: "bitmap_file \<Rightarrow> bitmap_file" where
  "LeafSet_Commit b = BitmapFile_Commit b"

definition LeafSet_Rollback :: "bitmap_file \<Rightarrow> bitmap_file" where
  "LeafSet_Rollback b = BitmapFile_Rollback b"

section \<open>Specification\<close>

definition bm_members :: "bitmap_file \<Rightarrow> u64 set" where
  "bm_members b = {i. BitmapFile_IsSet i b}"

text \<open>The members after a restart, when only the file is left.\<close>

definition bm_durable :: "bitmap_file \<Rightarrow> u64 set" where
  "bm_durable b = bm_members (b\<lparr>bm_modifiedBytes := []\<rparr>)"

definition bm_ok :: "bitmap_file \<Rightarrow> bool" where
  "bm_ok b \<longleftrightarrow> map_ok (bm_modifiedBytes b) \<and> length (bm_mmap b) \<le> 2 ^ 61 \<and>
     (\<forall>k\<in>fst ` set (bm_modifiedBytes b). unat k < 2 ^ 61)"

text \<open>The number of bits of the bitmap, once the leaves to add are set, is a 64-bit integer.\<close>

definition bm_room :: "u64 list \<Rightarrow> bitmap_file \<Rightarrow> bool" where
  "bm_room leavesToAdd b \<longleftrightarrow> unat (BitmapFile_GetNumBytes (fold BitmapFile_Set leavesToAdd b)) < 2 ^ 61"

text \<open>The operations on a leaf set, and what each does to the pair of the working set and the
  durable set.\<close>

datatype leaf_op = LAdd u64 | LRemove u64 | LRewind u64 "u64 list" | LCommit | LRollback

fun leaf_apply :: "leaf_op \<Rightarrow> bitmap_file \<Rightarrow> bitmap_file" where
  "leaf_apply (LAdd i) b = LeafSet_Add i b"
| "leaf_apply (LRemove i) b = LeafSet_Remove i b"
| "leaf_apply (LRewind n xs) b = LeafSet_Rewind n xs b"
| "leaf_apply LCommit b = LeafSet_Commit b"
| "leaf_apply LRollback b = LeafSet_Rollback b"

fun set_apply :: "leaf_op \<Rightarrow> u64 set \<times> u64 set \<Rightarrow> u64 set \<times> u64 set" where
  "set_apply (LAdd i) (w, p) = (insert i w, p)"
| "set_apply (LRemove i) (w, p) = (w - {i}, p)"
| "set_apply (LRewind n xs) (w, p) = ((w \<union> set xs) \<inter> {i. i < n}, p)"
| "set_apply LCommit (w, p) = (w, w)"
| "set_apply LRollback (w, p) = (p, p)"

fun leaf_op_fits :: "leaf_op \<Rightarrow> bitmap_file \<Rightarrow> bool" where
  "leaf_op_fits (LRewind n xs) b = bm_room xs b"
| "leaf_op_fits _ b = True"

primrec leaf_ops_fit :: "leaf_op list \<Rightarrow> bitmap_file \<Rightarrow> bool" where
  "leaf_ops_fit [] b = True"
| "leaf_ops_fit (x # xs) b = (leaf_op_fits x b \<and> leaf_ops_fit xs (leaf_apply x b))"

text \<open>What the output and range proof MMRs rely on in their leaf sets.\<close>

locale leaf_set = batchable inv members durable Commit Rollback
  for inv :: "'s \<Rightarrow> bool" and members :: "'s \<Rightarrow> u64 set" and durable :: "'s \<Rightarrow> u64 set"
    and Commit :: "'s \<Rightarrow> 's" and Rollback :: "'s \<Rightarrow> 's" +
  fixes room :: "u64 list \<Rightarrow> 's \<Rightarrow> bool"
    and Add :: "u64 \<Rightarrow> 's \<Rightarrow> 's"
    and Remove :: "u64 \<Rightarrow> 's \<Rightarrow> 's"
    and Contains :: "u64 \<Rightarrow> 's \<Rightarrow> bool"
    and Rewind :: "u64 \<Rightarrow> u64 list \<Rightarrow> 's \<Rightarrow> 's"
  assumes contains_members: "Contains i s \<longleftrightarrow> i \<in> members s"
    and add_members: "inv s \<Longrightarrow> inv (Add i s) \<and> members (Add i s) = insert i (members s)"
    and add_durable: "inv s \<Longrightarrow> durable (Add i s) = durable s"
    and remove_members: "inv s \<Longrightarrow> inv (Remove i s) \<and> members (Remove i s) = members s - {i}"
    and remove_durable: "inv s \<Longrightarrow> durable (Remove i s) = durable s"
    and rewind_members: "inv s \<Longrightarrow> room is s \<Longrightarrow>
          inv (Rewind n is s) \<and> members (Rewind n is s) = (members s \<union> set is) \<inter> {i. i < n}"
begin

lemma add_fold:
  "inv s \<Longrightarrow> inv (fold Add is s) \<and> members (fold Add is s) = members s \<union> set is"
  by (induction "is" arbitrary: s) (auto simp add: add_members)

text \<open>Spending leaves of a smaller MMR and adding new ones is undone by a rewind that adds the
  spent leaves back: the way a block is disconnected.\<close>

lemma rewind_undoes:
  assumes "inv s" and room: "room spent (fold Remove spent (fold Add new s))"
    and old: "members s \<subseteq> {i. i < n}" and "\<forall>i\<in>set new. n \<le> i" and "set spent \<subseteq> members s"
  shows "members (Rewind n spent (fold Remove spent (fold Add new s))) = members s"
proof -
  have r: "inv t \<Longrightarrow> inv (fold Remove is t) \<and> members (fold Remove is t) = members t - set is"
    for t "is" by (induction "is" arbitrary: t) (auto simp add: remove_members)
  have a: "inv (fold Add new s)" "members (fold Add new s) = members s \<union> set new"
    using add_fold assms by auto
  have "members (Rewind n spent (fold Remove spent (fold Add new s))) =
    (members s \<union> set new - set spent \<union> set spent) \<inter> {i. i < n}"
    using rewind_members [of "fold Remove spent (fold Add new s)" spent n] r [OF a(1)] a(2) room
    by simp
  also have "\<dots> = members s" using assms by (auto simp add: not_less [symmetric])
  finally show ?thesis .
qed

end

section \<open>Bytes and bits\<close>

lemma bit_BitToByte: "unat i < 8 \<Longrightarrow> bit (BitToByte i) k \<longleftrightarrow> k = 7 - unat i"
  by (auto simp add: BitToByte_def bit_simps)

lemma unat_mod_8: "unat (ucast (i mod 8 :: u64) :: u8) = unat i mod 8"
  by (simp add: unsigned_ucast_eq unat_mod take_bit_nat_eq_self)

lemma and_BitToByte:
  assumes "unat i < 8"
  shows "b AND BitToByte i \<noteq> 0 \<longleftrightarrow> bit b (7 - unat i)"
  proof
  assume "b AND BitToByte i \<noteq> 0"
  then obtain n where "bit (b AND BitToByte i) n" using bit_eqI [of "b AND BitToByte i" 0] by auto
  then show "bit b (7 - unat i)" using bit_BitToByte [OF assms] by (auto simp add: bit_and_iff)
next
  assume "bit b (7 - unat i)"
  then have "bit (b AND BitToByte i) (7 - unat i)" using bit_BitToByte [OF assms] by (simp add: bit_and_iff)
  then show "b AND BitToByte i \<noteq> 0" by auto
qed

lemma BitmapFile_IsSet_iff:
  "BitmapFile_IsSet i b \<longleftrightarrow> bit (BitmapFile_GetByte (i div 8) b) (7 - unat i mod 8)"
  using and_BitToByte [of "ucast (i mod 8)"] by (simp add: BitmapFile_IsSet_def unat_mod_8)

lemma u64_div_mod_8: "i = j \<longleftrightarrow> i div 8 = j div (8 :: u64) \<and> unat i mod 8 = unat j mod 8"
proof -
  have "i = j \<longleftrightarrow> unat i = unat j" by (simp add: word_unat_eq_iff)
  also have "\<dots> \<longleftrightarrow> unat i div 8 = unat j div 8 \<and> unat i mod 8 = unat j mod 8"
    by (metis div_mult_mod_eq)
  finally show ?thesis by (simp add: word_unat_eq_iff unat_div)
qed

lemma GetByte_put:
  "bm_ok b \<Longrightarrow> BitmapFile_GetByte k (b\<lparr>bm_dirty := d, bm_modifiedBytes := map_put k' v (bm_modifiedBytes b)\<rparr>) =
     (if k = k' then v else BitmapFile_GetByte k b)"
  by (auto simp add: BitmapFile_GetByte_def bm_ok_def split: option.splits)

lemma BitmapFile_Set_members:
  assumes ok: "bm_ok b"
  shows "bm_members (BitmapFile_Set i b) = insert i (bm_members b)"
proof -
  have "BitmapFile_IsSet j (BitmapFile_Set i b) \<longleftrightarrow> j = i \<or> BitmapFile_IsSet j b" for j
  proof (cases "j div 8 = i div 8")
    case True
    then show ?thesis
      using u64_div_mod_8 [of j i]
      by (auto simp add: BitmapFile_IsSet_iff BitmapFile_Set_def Let_def GetByte_put [OF ok] bit_or_iff
          bit_BitToByte unat_mod_8)
  next
    case False
    then show ?thesis
      by (auto simp add: BitmapFile_IsSet_iff BitmapFile_Set_def Let_def GetByte_put [OF ok])
  qed
  then show ?thesis by (auto simp add: bm_members_def)
qed

lemma BitmapFile_Unset_members:
  assumes ok: "bm_ok b"
  shows "bm_members (BitmapFile_Unset i b) = bm_members b - {i}"
proof -
  have m: "(255 :: u8) = mask 8" by (simp add: mask_eq_exp_minus_1)
  have "BitmapFile_IsSet j (BitmapFile_Unset i b) \<longleftrightarrow> j \<noteq> i \<and> BitmapFile_IsSet j b" for j
  proof (cases "j div 8 = i div 8")
    case True
    then show ?thesis
      using u64_div_mod_8 [of j i]
      by (auto simp add: BitmapFile_IsSet_iff BitmapFile_Unset_def Let_def GetByte_put [OF ok] bit_and_iff
          bit_xor_iff bit_BitToByte unat_mod_8 m bit_mask_iff)
  next
    case False
    then show ?thesis
      by (auto simp add: BitmapFile_IsSet_iff BitmapFile_Unset_def Let_def GetByte_put [OF ok])
  qed
  then show ?thesis by (auto simp add: bm_members_def)
qed

lemma bm_ok_put:
  assumes "bm_ok b"
  shows "bm_ok (b\<lparr>bm_dirty := d, bm_modifiedBytes := map_put (i div 8) v (bm_modifiedBytes b)\<rparr>)"
  proof -
  have "unat i < 2 ^ 64" using unsigned_less [of i] by simp
  then have "unat (i div 8) < 2 ^ 61" by (simp add: unat_div)
  then show ?thesis using assms by (simp add: bm_ok_def)
qed

lemma BitmapFile_Set_ok: "bm_ok b \<Longrightarrow> bm_ok (BitmapFile_Set i b)"
  by (simp add: BitmapFile_Set_def Let_def bm_ok_put)

lemma BitmapFile_Unset_ok: "bm_ok b \<Longrightarrow> bm_ok (BitmapFile_Unset i b)"
  by (simp add: BitmapFile_Unset_def Let_def bm_ok_put)

lemma bm_durable_mmap: "bm_mmap b = bm_mmap b' \<Longrightarrow> bm_durable b = bm_durable b'"
  by (simp add: bm_durable_def bm_members_def BitmapFile_IsSet_def BitmapFile_GetByte_def)

lemma BitmapFile_mmap [simp]:
  "bm_mmap (BitmapFile_Set i b) = bm_mmap b" "bm_mmap (BitmapFile_Unset i b) = bm_mmap b"
  by (simp_all add: BitmapFile_Set_def BitmapFile_Unset_def Let_def)

section \<open>Commit and rollback\<close>

definition byte_at :: "nat \<Rightarrow> u8 list \<Rightarrow> u8" where
  "byte_at k disk = (if k < length disk then disk ! k else 0)"

lemma GetByte_byte_at:
  "BitmapFile_GetByte k b =
     (case map_of (bm_modifiedBytes b) k of Some v \<Rightarrow> v | None \<Rightarrow> byte_at (unat k) (bm_mmap b))"
  by (simp add: BitmapFile_GetByte_def byte_at_def split: option.splits)

lemma length_write_byte: "length (write_byte pos v disk) = max (length disk) (unat pos + 1)"
  by (simp add: write_byte_def Let_def max_def)

lemma byte_at_write_byte:
  "byte_at k (write_byte pos v disk) = (if k = unat pos then v else byte_at k disk)"
  by (auto simp add: byte_at_def write_byte_def Let_def nth_append nth_list_update)

lemma byte_at_fold_write:
  "map_ok m \<Longrightarrow> byte_at (unat k) (fold (\<lambda>(pos, v). write_byte pos v) m disk) =
     (case map_of m k of Some v \<Rightarrow> v | None \<Rightarrow> byte_at (unat k) disk)"
proof (induction m arbitrary: disk)
  case (Cons p m)
  obtain k' v where p: "p = (k', v)" by (cases p)
  have "map_of m k' = None" using Cons.prems by (force simp add: p map_ok_def map_of_eq_None_iff)
  moreover have "map_ok m" using Cons.prems by (simp add: map_ok_def)
  ultimately show ?case
    using Cons.IH [of "write_byte k' v disk"]
    by (cases "k = k'") (simp_all add: p byte_at_write_byte word_unat_eq_iff [of k k'] split: option.splits)
qed simp

lemma length_fold_write:
  assumes "length disk \<le> 2 ^ 61" and "\<forall>k\<in>fst ` set m. unat k < 2 ^ 61"
  shows "length (fold (\<lambda>(pos, v). write_byte pos v) m disk) \<le> 2 ^ 61"
  using assms by (induction m arbitrary: disk) (auto simp add: length_write_byte)

lemma BitmapFile_Commit_ok: "bm_ok b \<Longrightarrow> bm_ok (BitmapFile_Commit b)"
  using length_fold_write [of "bm_mmap b" "bm_modifiedBytes b"] by (simp add: BitmapFile_Commit_def bm_ok_def)

lemma BitmapFile_Commit_members:
  assumes "bm_ok b"
  shows "bm_members (BitmapFile_Commit b) = bm_members b" "bm_durable (BitmapFile_Commit b) = bm_members b"
proof -
  have "BitmapFile_GetByte k (BitmapFile_Commit b) = BitmapFile_GetByte k b" for k
    using assms byte_at_fold_write [of "bm_modifiedBytes b" k "bm_mmap b"]
    by (simp add: GetByte_byte_at BitmapFile_Commit_def bm_ok_def)
  then show eq: "bm_members (BitmapFile_Commit b) = bm_members b"
    by (simp add: bm_members_def BitmapFile_IsSet_def)
  have "(BitmapFile_Commit b)\<lparr>bm_modifiedBytes := []\<rparr> = BitmapFile_Commit b"
    by (simp add: BitmapFile_Commit_def)
  then show "bm_durable (BitmapFile_Commit b) = bm_members b" by (simp add: bm_durable_def eq)
qed

lemma BitmapFile_Rollback_members:
  "bm_members (BitmapFile_Rollback b) = bm_durable b" "bm_durable (BitmapFile_Rollback b) = bm_durable b"
  "bm_ok b \<Longrightarrow> bm_ok (BitmapFile_Rollback b)"
  by (simp_all add: BitmapFile_Rollback_def bm_durable_def bm_members_def BitmapFile_IsSet_def
      BitmapFile_GetByte_def bm_ok_def)

section \<open>Rewind\<close>

lemma GetByte_below_size:
  assumes "bm_ok b" and "BitmapFile_GetByte k b \<noteq> 0"
  shows "k < BitmapFile_GetNumBytes b"
proof -
  let ?m = "bm_modifiedBytes b"
  define top where "top = (if ?m \<noteq> [] then unat (fst (last ?m)) + 1 else 0)"
  have last: "?m \<noteq> [] \<Longrightarrow> unat (fst (last ?m)) < 2 ^ 61"
    using assms(1) last_in_set [of ?m] unfolding bm_ok_def by blast
  have u1: "unat (if ?m \<noteq> [] then fst (last ?m) + 1 else 0) = top"
    using last by (auto simp add: top_def unat_plus_if')
  have u2: "unat (of_nat (length (bm_mmap b)) + 1 :: u64) = length (bm_mmap b) + 1"
    using assms by (auto simp add: bm_ok_def unat_plus_if' unat_of_nat_small)
  have n: "unat (BitmapFile_GetNumBytes b) =
      (if bm_mmap b \<noteq> [] then max top (length (bm_mmap b) + 1) else top)"
    unfolding BitmapFile_GetNumBytes_def Let_def using u1 u2 by (auto simp add: max_def word_le_nat_alt)
  from assms(2) consider v where "map_of ?m k = Some v" | "unat k < length (bm_mmap b)"
    by (auto simp add: BitmapFile_GetByte_def split: option.splits if_splits)
  then have "unat k < unat (BitmapFile_GetNumBytes b)"
  proof cases
    case 1
    then have "(k, v) \<in> set ?m" by (rule map_of_SomeD)
    then have "k \<le> fst (last ?m)" "?m \<noteq> []"
      using assms map_last_max [of ?m "(k, v)"] by (auto simp add: bm_ok_def)
    then show ?thesis using n by (auto simp add: top_def word_le_nat_alt)
  next
    case 2
    then show ?thesis using n by auto
  qed
  then show "k < BitmapFile_GetNumBytes b" by (simp add: word_less_nat_alt)
qed

lemma fold_Set:
  "bm_ok b \<Longrightarrow>
     bm_ok (fold BitmapFile_Set xs b) \<and> bm_members (fold BitmapFile_Set xs b) = bm_members b \<union> set xs \<and>
     bm_mmap (fold BitmapFile_Set xs b) = bm_mmap b"
  by (induction xs arbitrary: b) (auto simp add: BitmapFile_Set_ok BitmapFile_Set_members)

lemma fold_Unset:
  "bm_ok b \<Longrightarrow>
     bm_ok (fold BitmapFile_Unset xs b) \<and> bm_members (fold BitmapFile_Unset xs b) = bm_members b - set xs \<and>
     bm_mmap (fold BitmapFile_Unset xs b) = bm_mmap b"
  by (induction xs arbitrary: b) (auto simp add: BitmapFile_Unset_ok BitmapFile_Unset_members)

lemma bm_members_bound:
  assumes "bm_ok b" "i \<in> bm_members b"
  shows "unat i < unat (BitmapFile_GetNumBytes b) * 8"
proof -
  have "BitmapFile_GetByte (i div 8) b \<noteq> 0"
    using assms(2) by (auto simp add: bm_members_def BitmapFile_IsSet_iff)
  from GetByte_below_size [OF assms(1) this] show ?thesis
    by (simp add: word_less_nat_alt unat_div less_mult_imp_div_less div_less_iff_less_mult)
qed

lemma BitmapFile_Rewind_members:
  assumes ok: "bm_ok b" and room: "bm_room leavesToAdd b"
  shows "bm_ok (BitmapFile_Rewind n leavesToAdd b)"
    and "bm_members (BitmapFile_Rewind n leavesToAdd b) = (bm_members b \<union> set leavesToAdd) \<inter> {i. i < n}"
    and "bm_mmap (BitmapFile_Rewind n leavesToAdd b) = bm_mmap b"
proof -
  define b' where "b' = fold BitmapFile_Set leavesToAdd b"
  have b': "bm_ok b'" "bm_members b' = bm_members b \<union> set leavesToAdd" "bm_mmap b' = bm_mmap b"
    using fold_Set [OF ok] by (simp_all add: b'_def)
  let ?size = "unat (BitmapFile_GetNumBytes b') * 8"
  have small: "unat (BitmapFile_GetNumBytes b') < 2 ^ 61" using room by (simp add: bm_room_def b'_def)
  have "unat (BitmapFile_GetNumBytes b' * 8) = ?size"
    using small iffD1 [OF unat_mult_lem, of "BitmapFile_GetNumBytes b'" 8] by simp
  then have eq: "BitmapFile_Rewind n leavesToAdd b = fold BitmapFile_Unset (map of_nat [unat n..<?size]) b'"
    by (simp add: BitmapFile_Rewind_def Let_def b'_def)
  from fold_Unset [OF b'(1)] have
    r: "bm_ok (BitmapFile_Rewind n leavesToAdd b)"
    "bm_members (BitmapFile_Rewind n leavesToAdd b) = bm_members b' - of_nat ` {unat n..<?size}"
    "bm_mmap (BitmapFile_Rewind n leavesToAdd b) = bm_mmap b'"
    by (simp_all add: eq)
  show "bm_ok (BitmapFile_Rewind n leavesToAdd b)" by (rule r(1))
  show "bm_mmap (BitmapFile_Rewind n leavesToAdd b) = bm_mmap b" using r(3) b'(3) by simp
  have "i \<in> of_nat ` {unat n..<?size} \<longleftrightarrow> n \<le> i" if "i \<in> bm_members b'" for i
  proof
    assume "i \<in> of_nat ` {unat n..<?size}"
    then obtain j where "i = of_nat j" "unat n \<le> j" "j < ?size" by auto
    then show "n \<le> i" using small by (simp add: word_le_nat_alt unat_of_nat_small)
  next
    assume "n \<le> i"
    then have "unat i \<in> {unat n..<?size}"
      using bm_members_bound [OF b'(1) that] by (simp add: word_le_nat_alt)
    then show "i \<in> of_nat ` {unat n..<?size}" by (intro image_eqI [of _ _ "unat i"]) simp_all
  qed
  then show "bm_members (BitmapFile_Rewind n leavesToAdd b) = (bm_members b \<union> set leavesToAdd) \<inter> {i. i < n}"
    unfolding r(2) b'(2) [symmetric] by (auto simp add: not_le [symmetric])
qed

lemma mem_bm_members: "BitmapFile_IsSet i b \<longleftrightarrow> i \<in> bm_members b"
  by (simp add: bm_members_def)

interpretation bitmap_leaves: leaf_set bm_ok bm_members bm_durable LeafSet_Commit LeafSet_Rollback
  bm_room LeafSet_Add LeafSet_Remove LeafSet_Contains LeafSet_Rewind
  by unfold_locales
    (simp_all add: mem_bm_members LeafSet_Commit_def LeafSet_Rollback_def LeafSet_Add_def LeafSet_Remove_def
      LeafSet_Contains_def LeafSet_Rewind_def BitmapFile_Commit_ok BitmapFile_Commit_members
      BitmapFile_Rollback_members BitmapFile_Set_ok BitmapFile_Set_members BitmapFile_Unset_ok
      BitmapFile_Unset_members BitmapFile_Rewind_members bm_durable_mmap [OF BitmapFile_mmap(1)]
      bm_durable_mmap [OF BitmapFile_mmap(2)])

section \<open>Conversion to and from Roaring\<close>

lemma set_ToRoaring:
  assumes ok: "bm_ok b" and small: "unat (BitmapFile_GetNumBytes b) \<le> 2 ^ 28"
  shows "set (BitmapFile_ToRoaring b) = (\<lambda>i. ucast (GetPMMRIndex i + 1)) ` bm_members b"
proof -
  let ?n = "BitmapFile_GetNumBytes b"
  define pos where "pos = (\<lambda>i. ucast (GetPMMRIndex i + 1) :: u32)"
  have un: "unat (ucast ?n :: u32) = unat ?n"
    using small by (simp add: unsigned_ucast_eq take_bit_nat_eq_self)
  have idx: "(ucast ((of_nat i :: u32) * 8 + ucast (of_nat j :: u8)) :: u64) = of_nat (i * 8 + j)"
    if "i < unat ?n" "j < 8" for i j
  proof -
    have lt: "i * 8 + j < 2 ^ 31" using that small by simp
    have j: "(ucast (of_nat j :: u8) :: u32) = of_nat j"
      using that by (simp add: word_unat_eq_iff unsigned_ucast_eq unat_of_nat take_bit_nat_eq_self)
    have "(of_nat i :: u32) * 8 + of_nat j = of_nat (i * 8 + j)" by simp
    then show ?thesis
      unfolding j using lt
      by (simp add: word_unat_eq_iff unsigned_ucast_eq unat_of_nat take_bit_nat_eq_self del: of_nat_add of_nat_mult)
  qed
  have byte: "(ucast (of_nat i :: u32) :: u64) = of_nat i" if "i < unat ?n" for i
    using that small by (simp add: word_unat_eq_iff unsigned_ucast_eq unat_of_nat take_bit_nat_eq_self)
  have bitj: "BitmapFile_GetByte (of_nat i) b AND BitToByte (of_nat j) > 0 \<longleftrightarrow> of_nat (i * 8 + j) \<in> bm_members b"
    if "i < unat ?n" "j < 8" for i j
  proof -
    have u: "unat (of_nat (i * 8 + j) :: u64) = i * 8 + j"
      using that small by (intro unat_of_nat_small) simp
    then have "(of_nat (i * 8 + j) :: u64) div 8 = of_nat i"
      using that small by (simp add: word_unat_eq_iff unat_div unat_of_nat_small del: of_nat_add of_nat_mult)
    moreover have "unat (of_nat j :: u8) = j" using that by (simp add: unat_of_nat take_bit_nat_eq_self)
    ultimately show ?thesis
      using that and_BitToByte [of "of_nat j"] u
      by (simp add: word_gt_0 mem_bm_members [symmetric] BitmapFile_IsSet_iff del: of_nat_add of_nat_mult)
  qed
  have "set (BitmapFile_ToRoaring b) =
      {pos (of_nat (i * 8 + j)) |i j. i < unat ?n \<and> j < 8 \<and> of_nat (i * 8 + j) \<in> bm_members b}"
  proof -
    have "set (BitmapFile_ToRoaring b) =
      {ucast (GetPMMRIndex (ucast ((of_nat i :: u32) * 8 + ucast (of_nat j :: u8))) + 1) |i j. i < unat ?n \<and> j < 8 \<and>
         BitmapFile_GetByte (ucast (of_nat i :: u32)) b AND BitToByte (of_nat j) > 0}"
      by (auto simp add: BitmapFile_ToRoaring_def Let_def un) blast
    also have "\<dots> = {pos (of_nat (i * 8 + j)) |i j. i < unat ?n \<and> j < 8 \<and> of_nat (i * 8 + j) \<in> bm_members b}"
      using idx byte bitj unfolding pos_def by (metis (no_types, lifting))
    finally show ?thesis .
  qed
  also have "\<dots> = pos ` bm_members b"
  proof (intro equalityI subsetI)
    fix x assume "x \<in> pos ` bm_members b"
    then obtain i where i: "i \<in> bm_members b" "x = pos i" by blast
    have "unat i div 8 < unat ?n" using bm_members_bound [OF ok i(1)] by (simp add: div_less_iff_less_mult)
    moreover have "of_nat (unat i div 8 * 8 + unat i mod 8) = i" by (simp only: div_mult_mod_eq of_nat_unat_id)
    ultimately show "x \<in> {pos (of_nat (i * 8 + j)) |i j. i < unat ?n \<and> j < 8 \<and> of_nat (i * 8 + j) \<in> bm_members b}"
      using i by (intro CollectI exI [of _ "unat i div 8"] exI [of _ "unat i mod 8"]) simp
  qed blast
  finally show ?thesis by (simp add: pos_def)
qed

lemma roaring_leaf:
  assumes "unat i < 2 ^ 31"
  shows "GetLeafIndex (ucast ((ucast (GetPMMRIndex i + 1) :: u32) - 1)) = i"
proof -
  have i63: "unat i < 2 ^ 63" using assms by simp
  have p: "unat (GetPMMRIndex i) + 1 < 2 ^ 32"
    using mmr_size_less [of "unat i" 31] assms GetPMMRIndex_mmr_size [OF i63] by simp
  then have "unat (GetPMMRIndex i + 1) = unat (GetPMMRIndex i) + 1" by (simp add: unat_plus_if')
  then have "unat (ucast (GetPMMRIndex i + 1) :: u32) = unat (GetPMMRIndex i) + 1"
    using p by (simp add: unsigned_ucast_eq take_bit_nat_eq_self)
  then have "unat ((ucast (GetPMMRIndex i + 1) :: u32) - 1) = unat (GetPMMRIndex i)"
    using unat_sub [of 1 "ucast (GetPMMRIndex i + 1) :: u32"] by (simp add: word_le_nat_alt)
  then have "(ucast (GetPMMRIndex i + 1) :: u32) - 1 = ucast (GetPMMRIndex i)"
    using p by (simp add: unsigned_ucast_eq word_unat_eq_iff unsigned_take_bit_eq take_bit_nat_eq_self)
  moreover have "ucast (ucast (GetPMMRIndex i) :: u32) = GetPMMRIndex i"
    using p by (simp add: word_unat_eq_iff unsigned_ucast_eq unsigned_take_bit_eq take_bit_nat_eq_self)
  ultimately show ?thesis using GetPMMRIndex_leaf(3) [OF i63] by simp
qed

lemma SetAll_members:
  "bm_ok b \<Longrightarrow> bm_ok (BitmapFile_SetAll vs b) \<and>
     bm_members (BitmapFile_SetAll vs b) = bm_members b \<union> (\<lambda>v. GetLeafIndex (ucast (v - 1))) ` set vs"
  unfolding BitmapFile_SetAll_def
  by (induction vs arbitrary: b) (auto simp add: BitmapFile_Set_ok BitmapFile_Set_members)

lemma UnsetAll_members:
  "bm_ok b \<Longrightarrow> bm_ok (BitmapFile_UnsetAll vs b) \<and>
     bm_members (BitmapFile_UnsetAll vs b) = bm_members b - (\<lambda>v. GetLeafIndex (ucast (v - 1))) ` set vs"
  unfolding BitmapFile_UnsetAll_def
  by (induction vs arbitrary: b) (auto simp add: BitmapFile_Unset_ok BitmapFile_Unset_members)

lemma leaf_apply_refines:
  assumes "bm_ok b" and "leaf_op_fits x b"
  shows "bm_ok (leaf_apply x b) \<and> (bm_members (leaf_apply x b), bm_durable (leaf_apply x b)) =
           set_apply x (bm_members b, bm_durable b)"
proof (cases x)
  case (LRewind n xs)
  then show ?thesis
    using assms bitmap_leaves.rewind_members [of b xs n]
      bm_durable_mmap [OF BitmapFile_Rewind_members(3), of b xs n] by (simp add: LeafSet_Rewind_def)
qed (use assms in \<open>simp_all add: bitmap_leaves.add_members bitmap_leaves.add_durable
    bitmap_leaves.remove_members bitmap_leaves.remove_durable bitmap_leaves.commit_inv
    bitmap_leaves.commit_working bitmap_leaves.commit_durable bitmap_leaves.rollback_inv
    bitmap_leaves.rollback_working bitmap_leaves.rollback_durable\<close>)

lemma leaf_run_refines:
  "bm_ok b \<Longrightarrow> leaf_ops_fit xs b \<Longrightarrow>
     bm_ok (fold leaf_apply xs b) \<and> (bm_members (fold leaf_apply xs b), bm_durable (fold leaf_apply xs b)) =
       fold set_apply xs (bm_members b, bm_durable b)"
proof (induction xs arbitrary: b)
  case (Cons x xs)
  then show ?case using leaf_apply_refines [of b x] by simp
qed simp

section \<open>Properties of leaf sets\<close>

text \<open>C15. A leaf set is a set with a durable copy: after any sequence of additions, removals,
  rewinds, commits and rollbacks, \<^verbatim>\<open>Contains\<close> answers membership in the set that the
  same sequence produces on the abstract pair, and a rollback at the end returns to its durable
  half.\<close>

theorem LeafSet_refines_set:
  assumes "bm_ok b" and "leaf_ops_fit xs b"
  shows "let b' = fold leaf_apply xs b; (w, p) = fold set_apply xs (bm_members b, bm_durable b)
     in (\<forall>i. LeafSet_Contains i b' \<longleftrightarrow> i \<in> w) \<and> (\<forall>i. LeafSet_Contains i (LeafSet_Rollback b') \<longleftrightarrow> i \<in> p)"
proof -
  have ok: "bm_ok (fold leaf_apply xs b)" and eq: "fold set_apply xs (bm_members b, bm_durable b) =
    (bm_members (fold leaf_apply xs b), bm_durable (fold leaf_apply xs b))"
    using leaf_run_refines [OF assms] by simp_all
  show ?thesis
    unfolding eq Let_def using bitmap_leaves.rollback_working [OF ok]
    by (simp add: bitmap_leaves.contains_members)
qed

definition bm_empty :: bitmap_file where
  "bm_empty = \<lparr>bm_dirty = False, bm_modifiedBytes = [], bm_mmap = []\<rparr>"

lemma bm_empty_ok: "bm_ok bm_empty" "bm_members bm_empty = {}" "bm_durable bm_empty = {}"
  by (simp_all add: bm_ok_def bm_empty_def bm_durable_def bm_members_def BitmapFile_IsSet_def BitmapFile_GetByte_def)

theorem LeafSet_refines_set_witness:
  "LeafSet_Contains 3 (fold leaf_apply [LAdd 3, LCommit, LRemove 3, LAdd 9, LRewind 8 [3]] bm_empty)"
proof -
  let ?xs = "[LAdd 3, LCommit, LRemove 3, LAdd 9, LRewind 8 [3]]"
  have "BitmapFile_GetNumBytes (fold BitmapFile_Set [3]
      (fold leaf_apply [LAdd 3, LCommit, LRemove 3, LAdd 9] bm_empty)) = 2" by code_simp
  then have "leaf_ops_fit ?xs bm_empty" by (simp add: bm_room_def)
  from LeafSet_refines_set [OF bm_empty_ok(1) this] show ?thesis
    by (simp add: Let_def bm_empty_ok)
qed

text \<open>Disconnecting a block restores the leaf set: when the block added leaves at or above
  the previous leaf count \<open>n\<close> and spent leaves that were present, rewinding to \<open>n\<close> leaves
  with the spent leaves gives back exactly the set before the block.\<close>

theorem LeafSet_Rewind_undoes_block:
  assumes "bm_ok b" and "bm_room spent (fold LeafSet_Remove spent (fold LeafSet_Add new b))"
    and "bm_members b \<subseteq> {i. i < n}" and "\<forall>i\<in>set new. n \<le> i" and "set spent \<subseteq> bm_members b"
  shows "LeafSet_Contains i (LeafSet_Rewind n spent (fold LeafSet_Remove spent (fold LeafSet_Add new b))) \<longleftrightarrow>
    LeafSet_Contains i b"
  using bitmap_leaves.rewind_undoes [OF assms] by (simp add: bitmap_leaves.contains_members)

theorem LeafSet_Rewind_undoes_block_witness:
  "LeafSet_Contains 1 (LeafSet_Rewind 2 [1] (fold LeafSet_Remove [1] (fold LeafSet_Add [2, 3] (LeafSet_Add 1 bm_empty)))) \<longleftrightarrow>
    LeafSet_Contains 1 (LeafSet_Add 1 bm_empty)"
proof (rule LeafSet_Rewind_undoes_block)
  show "bm_ok (LeafSet_Add 1 bm_empty)" using bitmap_leaves.add_members [OF bm_empty_ok(1)] by simp
  have "BitmapFile_GetNumBytes (fold BitmapFile_Set [1]
      (fold LeafSet_Remove [1] (fold LeafSet_Add [2, 3] (LeafSet_Add 1 bm_empty)))) = 1" by code_simp
  then show "bm_room [1] (fold LeafSet_Remove [1] (fold LeafSet_Add [2, 3] (LeafSet_Add 1 bm_empty)))"
    by (simp add: bm_room_def)
qed (use bitmap_leaves.add_members [OF bm_empty_ok(1), of 1] bm_empty_ok(2) in simp_all)

text \<open>A snapshot loses nothing: writing the bitmap out as a Roaring bitmap of node
  positions and setting those positions in an empty bitmap file gives back the same leaves, for
  bitmaps of at most \<open>2 ^ 28\<close> bytes, whose node positions fit in 32 bits.\<close>

theorem BitmapFile_Roaring_roundtrip:
  assumes "bm_ok b" and "unat (BitmapFile_GetNumBytes b) \<le> 2 ^ 28"
  shows "bm_members (BitmapFile_SetAll (BitmapFile_ToRoaring b) bm_empty) = bm_members b"
proof -
  have "unat i < 2 ^ 31" if "i \<in> bm_members b" for i
    using bm_members_bound [OF assms(1) that] assms(2) by simp
  then have "(\<lambda>v. GetLeafIndex (ucast (v - 1))) ` set (BitmapFile_ToRoaring b) = bm_members b"
    unfolding set_ToRoaring [OF assms] image_image by (auto simp add: roaring_leaf image_iff)
  then show ?thesis using SetAll_members [OF bm_empty_ok(1)] bm_empty_ok(2) by simp
qed

theorem BitmapFile_Roaring_roundtrip_witness:
  "bm_members (BitmapFile_SetAll (BitmapFile_ToRoaring (BitmapFile_Set 5 bm_empty)) bm_empty) = {5}"
proof -
  have "BitmapFile_GetNumBytes (BitmapFile_Set 5 bm_empty) = 1" by code_simp
  then have "unat (BitmapFile_GetNumBytes (BitmapFile_Set 5 bm_empty)) \<le> 2 ^ 28" by simp
  from BitmapFile_Roaring_roundtrip [OF BitmapFile_Set_ok [OF bm_empty_ok(1)] this] show ?thesis
    by (simp add: BitmapFile_Set_members [OF bm_empty_ok(1)] bm_empty_ok(2))
qed

text \<open>Two defects the model shows. \<^verbatim>\<open>operator[]\<close> is false for every leaf, because
  \<^verbatim>\<open>s_true\<close> is initialised with \<^verbatim>\<open>false\<close>; and the migration of a one-byte
  file reads past the end of its data, because it asks for the leaves up to position
  \<^verbatim>\<open>size * 8\<close>.\<close>

lemma BitmapFile_at_False: "\<not> BitmapFile_at leafIndex b"
  by (simp add: BitmapFile_at_def s_true_def s_false_def)

lemma ConvertToLeaves_one_byte: "ConvertToLeaves [b] = Inl UNDEFINED_BEHAVIOUR"
proof -
  have n: "GetNumLeaves 8 = 6" by code_simp
  have p: "map GetPMMRIndex [0, 1, 2, 3, 4, 5] = [0, 1, 3, 4, 7, 8]" by code_simp
  have b: "ConvertToLeaves_bit [b] (of_nat 5) c = Inl UNDEFINED_BEHAVIOUR" for c
    using p by (simp add: ConvertToLeaves_bit_def Let_def)
  have u: "[0..<6] = [0, 1, 2, 3, 4] @ [5::nat]" by (simp add: upt_rec)
  have f: "fold (\<lambda>i r. bind_result r (ConvertToLeaves_bit [b] (of_nat i))) xs (Inr c0) = Inl UNDEFINED_BEHAVIOUR \<or>
      (\<exists>c. fold (\<lambda>i r. bind_result r (ConvertToLeaves_bit [b] (of_nat i))) xs (Inr c0) = Inr c)" for xs c0
  proof (induction xs rule: rev_induct)
    case (snoc x xs)
    have "ConvertToLeaves_bit [b] (of_nat x) c = Inl UNDEFINED_BEHAVIOUR \<or>
        (\<exists>c'. ConvertToLeaves_bit [b] (of_nat x) c = Inr c')" for c
      by (simp add: ConvertToLeaves_bit_def Let_def)
    then show ?case using snoc by (elim disjE exE) simp_all
  qed simp
  show ?thesis
    using f [of "[0, 1, 2, 3, 4]" "[0]"] b unfolding ConvertToLeaves_def by (auto simp add: n u Let_def)
qed

end
