(* ===== verification/Prune_List.thy ===== *)
theory Prune_List
  imports MMR_Util
begin

text \<open>
  \<^verbatim>\<open>PruneList\<close> (\<^verbatim>\<open>src/PMMR/Common/PruneList.cpp\<close>): the roots of the
  pruned subtrees of an MMR, a cache of every pruned node, and the prefix sums that translate a
  node position into its place in the compacted file.

  A Roaring bitmap is the strictly increasing list of its 32-bit members; a position handed to it
  is truncated to 32 bits, as the conversion at the call does.
\<close>

section \<open>Roaring\<close>

type_synonym roaring = "u32 list"

definition Roaring_contains :: "u64 \<Rightarrow> roaring \<Rightarrow> bool" where
  "Roaring_contains x r \<longleftrightarrow> ucast x \<in> set r"

definition Roaring_add :: "u64 \<Rightarrow> roaring \<Rightarrow> roaring" where
  "Roaring_add x r = (let v = ucast x in filter (\<lambda>y. y < v) r @ [v] @ filter (\<lambda>y. y > v) r)"

definition Roaring_remove :: "u64 \<Rightarrow> roaring \<Rightarrow> roaring" where
  "Roaring_remove x r = filter (\<lambda>y. y \<noteq> ucast x) r"

definition Roaring_rank :: "u64 \<Rightarrow> roaring \<Rightarrow> u64" where
  "Roaring_rank x r = of_nat (length (filter (\<lambda>y. y \<le> ucast x) r))"

definition Roaring_maximum :: "roaring \<Rightarrow> u32" where
  "Roaring_maximum r = (if r = [] then 0 else last r)"

section \<open>PruneList\<close>

record prune_list =
  pl_prunedRoots :: roaring
  pl_prunedCache :: roaring
  pl_shiftCache :: "u64 list"
  pl_leafShiftCache :: "u64 list"

text \<open>The \<^verbatim>\<open>while (true)\<close> loop of \<^verbatim>\<open>Add\<close>; not ending is the value
  \<open>None\<close>.\<close>

partial_function (option) PruneList_Add_loop :: "u64 \<Rightarrow> prune_list \<Rightarrow> prune_list option" where
  "PruneList_Add_loop currentIndex pl =
     (let siblingIndex = GetSiblingIndex currentIndex
      in if Roaring_contains (siblingIndex + 1) (pl_prunedRoots pl) \<or>
            Roaring_contains (siblingIndex + 1) (pl_prunedCache pl)
         then PruneList_Add_loop (GetParentIndex currentIndex)
                (pl\<lparr>pl_prunedCache := Roaring_add (currentIndex + 1) (pl_prunedCache pl),
                    pl_prunedRoots := Roaring_remove (siblingIndex + 1) (pl_prunedRoots pl)\<rparr>)
         else Some (pl\<lparr>pl_prunedCache := Roaring_add (currentIndex + 1) (pl_prunedCache pl),
                       pl_prunedRoots := Roaring_add (currentIndex + 1) (pl_prunedRoots pl)\<rparr>))"

definition PruneList_Add :: "u64 \<Rightarrow> prune_list \<Rightarrow> prune_list option" where
  "PruneList_Add position pl = PruneList_Add_loop position pl"

definition IsPruned :: "u64 \<Rightarrow> prune_list \<Rightarrow> bool" where
  "IsPruned position pl = Roaring_contains (position + 1) (pl_prunedCache pl)"

definition IsPrunedRoot :: "u64 \<Rightarrow> prune_list \<Rightarrow> bool" where
  "IsPrunedRoot position pl = Roaring_contains (position + 1) (pl_prunedRoots pl)"

definition IsCompacted :: "u64 \<Rightarrow> prune_list \<Rightarrow> bool" where
  "IsCompacted position pl \<longleftrightarrow> IsPruned position pl \<and> \<not> IsPrunedRoot position pl"

definition GetShift :: "u64 \<Rightarrow> prune_list \<Rightarrow> u64" where
  "GetShift position pl =
     (if pl_prunedRoots pl = [] then 0
      else if pl_shiftCache pl = [] then 0
      else let index = Roaring_rank (position + 1) (pl_prunedRoots pl)
           in if index = 0 then 0
              else if unat index > length (pl_shiftCache pl) then last (pl_shiftCache pl)
              else pl_shiftCache pl ! (unat index - 1))"

definition GetLeafShift :: "u64 \<Rightarrow> prune_list \<Rightarrow> u64" where
  "GetLeafShift position pl =
     (if pl_prunedRoots pl = [] then 0
      else let index = Roaring_rank (position + 1) (pl_prunedRoots pl)
           in if index = 0 then 0
              else if pl_leafShiftCache pl = [] then 0
              else if unat index > length (pl_leafShiftCache pl) then last (pl_leafShiftCache pl)
              else pl_leafShiftCache pl ! (unat index - 1))"

definition GetTotalShift :: "prune_list \<Rightarrow> u64" where
  "GetTotalShift pl = GetShift (ucast (Roaring_maximum (pl_prunedRoots pl))) pl"

text \<open>The inner loop of \<^verbatim>\<open>BuildPrunedCache\<close>, from a node up through its parents below
  \<open>maximum\<close>.\<close>

partial_function (option) has_pruned_ancestor :: "u64 \<Rightarrow> roaring \<Rightarrow> u64 \<Rightarrow> bool option" where
  "has_pruned_ancestor maximum roots parent =
     (if parent < maximum
      then if Roaring_contains (parent + 1) roots then Some True
           else has_pruned_ancestor maximum roots (GetParentIndex parent)
      else Some False)"

primrec cache_positions :: "u64 \<Rightarrow> roaring \<Rightarrow> nat list \<Rightarrow> roaring \<Rightarrow> roaring option" where
  "cache_positions maximum roots [] cache = Some cache"
| "cache_positions maximum roots (p # ps) cache =
     (case has_pruned_ancestor maximum roots (of_nat p) of
        None \<Rightarrow> None
      | Some pruned \<Rightarrow>
          cache_positions maximum roots ps (if pruned then Roaring_add (of_nat p + 1) cache else cache))"

definition BuildPrunedCache :: "prune_list \<Rightarrow> prune_list option" where
  "BuildPrunedCache pl =
     (if pl_prunedRoots pl = [] then Some pl
      else let maximum = ucast (Roaring_maximum (pl_prunedRoots pl))
           in case cache_positions maximum (pl_prunedRoots pl) [0..<unat maximum] [] of
                None \<Rightarrow> None
              | Some cache \<Rightarrow> Some (pl\<lparr>pl_prunedCache := cache\<rparr>))"

definition BuildShiftCaches_step :: "nat \<Rightarrow> prune_list \<Rightarrow> prune_list" where
  "BuildShiftCaches_step p pl =
     (let position = of_nat p
      in if Roaring_contains (position + 1) (pl_prunedRoots pl)
         then let height = GetHeight position;
                  previousShift = GetShift (position - 1) pl;
                  currentShift = 2 * (push_bit (unat height) 1 - 1);
                  pl = pl\<lparr>pl_shiftCache := pl_shiftCache pl @ [previousShift + currentShift]\<rparr>;
                  previousLeafShift = GetLeafShift (position - 1) pl;
                  currentLeafShift = (if height = 0 then 0 else push_bit (unat height) 1)
              in pl\<lparr>pl_leafShiftCache := pl_leafShiftCache pl @ [previousLeafShift + currentLeafShift]\<rparr>
         else pl)"

definition BuildShiftCaches :: "prune_list \<Rightarrow> prune_list" where
  "BuildShiftCaches pl =
     (if pl_prunedRoots pl = [] then pl
      else fold BuildShiftCaches_step [0..<unat (Roaring_maximum (pl_prunedRoots pl))]
             (pl\<lparr>pl_shiftCache := [], pl_leafShiftCache := []\<rparr>))"

text \<open>\<^verbatim>\<open>Load\<close> from the bitmap read from the file, if there is one, and
  \<^verbatim>\<open>Flush\<close>, which returns the bitmap it writes.\<close>

definition PruneList_Load :: "roaring option \<Rightarrow> prune_list option" where
  "PruneList_Load file =
     (case file of
        Some prunedRoots \<Rightarrow>
          map_option BuildShiftCaches
            (BuildPrunedCache \<lparr>pl_prunedRoots = prunedRoots, pl_prunedCache = [], pl_shiftCache = [], pl_leafShiftCache = []\<rparr>)
      | None \<Rightarrow> Some \<lparr>pl_prunedRoots = [], pl_prunedCache = [], pl_shiftCache = [], pl_leafShiftCache = []\<rparr>)"

definition PruneList_Flush :: "prune_list \<Rightarrow> (roaring \<times> prune_list) option" where
  "PruneList_Flush pl =
     map_option (\<lambda>pl'. (pl_prunedRoots pl, BuildShiftCaches pl')) (BuildPrunedCache pl)"

section \<open>Specification: subtrees of the postorder numbering\<close>

text \<open>Heights, subtrees (intervals that end at their root) and parents of node positions as
  natural numbers.\<close>

definition nheight :: "nat \<Rightarrow> nat" where
  "nheight i = postorder_heights 63 ! i"

definition subtree :: "nat \<Rightarrow> nat set" where
  "subtree r = {r + 2 - 2 ^ Suc (nheight r)..r}"

definition parent :: "nat \<Rightarrow> nat" where
  "parent i = unat (GetParentIndex (of_nat i))"

text \<open>The roots of a prune list as positions; none is zero and none lies below another.\<close>

definition root_nodes :: "roaring \<Rightarrow> nat set" where
  "root_nodes roots = (\<lambda>v. unat v - 1) ` set roots"

definition roots_ok :: "roaring \<Rightarrow> bool" where
  "roots_ok roots \<longleftrightarrow> sorted_wrt (<) roots \<and> 0 \<notin> set roots \<and>
     (\<forall>r\<in>root_nodes roots. \<forall>r'\<in>root_nodes roots. r \<in> subtree r' \<longrightarrow> r = r')"

section \<open>Subtrees\<close>

lemma nheight_bounds:
  assumes "i + 1 < 2 ^ 64"
  shows "nheight i \<le> 63" "2 ^ Suc (nheight i) \<le> i + 2"
  using postorder_block [OF postorder_63 [OF assms] refl] by (auto simp add: nheight_def)

lemma nheight_GetHeight: "i + 1 < 2 ^ 64 \<Longrightarrow> unat (GetHeight (of_nat i)) = nheight i"
  using unat_GetHeight(1) [of "of_nat i"] by (simp add: nheight_def unat_of_nat_small)

lemma nheight_children:
  assumes "r + 1 < 2 ^ 64" and "nheight r = Suc h"
  shows "2 ^ Suc h \<le> r" "nheight (r - 1) = h" "nheight (r - 2 ^ Suc h) = h"
  using postorder_children [OF postorder_63 [OF assms(1)]] assms(2) by (auto simp add: nheight_def)

text \<open>Every node but the root of a perfect tree is a child.\<close>

lemma postorder_parent:
  "Suc i < length (postorder_heights k) \<Longrightarrow>
   \<exists>p<length (postorder_heights k). postorder_heights k ! p = Suc (postorder_heights k ! i) \<and>
     (p = i + 1 \<or> p = i + 2 ^ Suc (postorder_heights k ! i))"
proof (induction k arbitrary: i)
  case 0
  then show ?case by simp
next
  case (Suc k)
  let ?P = "postorder_heights k" and ?Q = "postorder_heights (Suc k)"
  let ?s = "length ?P"
  have s: "?s = 2 ^ Suc k - 1" by (rule length_postorder_heights)
  have s0: "0 < ?s" by simp
  have top: "?Q ! (?s + ?s) = Suc k" by (simp add: nth_append)
  consider (left) "Suc i < ?s" | (mid) "Suc i = ?s" | (right) "?s \<le> i" "Suc (i - ?s) < ?s" | (last) "Suc i = ?s + ?s"
    using Suc.prems by fastforce
  then show ?case
  proof cases
    case left
    from Suc.IH [OF left] obtain p where p: "p < ?s" "?P ! p = Suc (?P ! i)"
      "p = i + 1 \<or> p = i + 2 ^ Suc (?P ! i)" by blast
    then show ?thesis using left by (intro exI [of _ p]) (simp add: nth_append)
  next
    case mid
    then have i: "i = ?s - 1" "i < ?s" by simp_all
    then have "?Q ! i = ?P ! (?s - 1)" by (simp add: nth_append)
    then have "?Q ! i = k" using last_conv_nth [of ?P] by simp
    moreover have "i + 2 ^ Suc k = ?s + ?s" using mid s by simp
    ultimately show ?thesis using top by (intro exI [of _ "?s + ?s"]) simp
  next
    case right
    from Suc.IH [OF right(2)] obtain p where p: "p < ?s" "?P ! p = Suc (?P ! (i - ?s))"
      "p = i - ?s + 1 \<or> p = i - ?s + 2 ^ Suc (?P ! (i - ?s))" by blast
    then show ?thesis using right by (intro exI [of _ "?s + p"]) (auto simp add: nth_append)
  next
    case last
    then have i: "i - ?s = ?s - 1" "?s \<le> i" "i - ?s < ?s" using s0 by linarith+
    then have "?Q ! i = k" using last_conv_nth [of ?P] by (simp add: nth_append)
    then show ?thesis using top last by (intro exI [of _ "?s + ?s"]) simp
  qed
qed

lemma parent_is_child:
  assumes "i + 2 < 2 ^ 64"
  shows "i < parent i" "parent i + 1 < 2 ^ 64" "nheight (parent i) = Suc (nheight i)"
    "i = parent i - 1 \<or> i = parent i - 2 ^ Suc (nheight i)"
proof -
  have "Suc i < length (postorder_heights 63)" using assms by (simp add: length_postorder_heights)
  from postorder_parent [OF this] obtain p where
    p: "p < length (postorder_heights 63)" "nheight p = Suc (nheight i)"
      "p = i + 1 \<or> p = i + 2 ^ Suc (nheight i)" by (auto simp add: nheight_def)
  then have p64: "p + 1 < 2 ^ 64" by (simp add: length_postorder_heights)
  then have up: "unat (of_nat p :: u64) = p" by (intro unat_of_nat_small) simp
  have h: "GetHeight (of_nat p) = of_nat (Suc (nheight i))"
    using nheight_GetHeight [OF p64] p(2) by (metis of_nat_unat_id)
  have hs: "Suc (nheight i) < 64" using nheight_bounds(1) [OF p64] p(2) by simp
  then have uh: "unat (of_nat (Suc (nheight i)) :: u64) = Suc (nheight i)" by (intro unat_of_nat_small) simp
  have inner: "\<not> IsLeaf (of_nat p)" using h uh by (auto simp add: IsLeaf_def)
  note rel = children_parent_sibling [of "of_nat p", OF _ inner]
  have "GetParentIndex (of_nat i) = of_nat p"
  proof -
    consider "p = i + 1" | "p = i + 2 ^ Suc (nheight i)" using p(3) by blast
    then show ?thesis
    proof cases
      case 1
      then have "GetRightChildIndex (of_nat p) = of_nat i" by (simp add: GetRightChildIndex_def)
      then show ?thesis using rel p64 up by auto
    next
      case 2
      then have "GetLeftChildIndex (of_nat p) (GetHeight (of_nat p)) = of_nat i"
        unfolding GetLeftChildIndex_def h uh by (simp add: push_bit_eq_mult)
      then show ?thesis using rel p64 up by auto
    qed
  qed
  then have par: "parent i = p" by (simp add: parent_def up)
  show "i < parent i" "parent i + 1 < 2 ^ 64" "nheight (parent i) = Suc (nheight i)"
    "i = parent i - 1 \<or> i = parent i - 2 ^ Suc (nheight i)"
    using p p64 by (auto simp add: par)
qed

lemma subtree_self: "r \<in> subtree r"
  unfolding subtree_def atLeastAtMost_iff using two_power_Suc [of "nheight r"] by linarith

lemma card_subtree:
  assumes "r + 1 < 2 ^ 64"
  shows "card (subtree r - {r}) = 2 ^ Suc (nheight r) - 2"
proof -
  have "card (subtree r) = 2 ^ Suc (nheight r) - 1"
    using nheight_bounds(2) [OF assms] two_power_Suc [of "nheight r"] unfolding subtree_def card_atLeastAtMost by linarith
  then show ?thesis using subtree_self [of r] by (simp add: card_Diff_singleton)
qed

lemma subtree_split:
  assumes "r + 1 < 2 ^ 64" and "nheight r = Suc h"
  shows "subtree r = insert r (subtree (r - 2 ^ Suc h) \<union> subtree (r - 1))"
proof -
  note c = nheight_children [OF assms]
  have b: "2 ^ Suc (Suc h) \<le> r + 2" using nheight_bounds(2) [OF assms(1)] assms(2) by simp
  have p: "(2::nat) \<le> 2 ^ Suc h" "(2::nat) ^ Suc (Suc h) = 2 * 2 ^ Suc h" by simp_all
  have "subtree (r - 2 ^ Suc h) = {r + 2 - 2 ^ Suc (Suc h)..r - 2 ^ Suc h}"
  proof -
    have "r - 2 ^ Suc h + 2 - 2 ^ Suc h = r + 2 - 2 ^ Suc (Suc h)" using c(1) p by linarith
    then show ?thesis by (simp only: subtree_def c(3))
  qed
  moreover have "subtree (r - 1) = {r - 2 ^ Suc h + 1..r - 1}"
  proof -
    have "r - 1 + 2 - 2 ^ Suc h = r - 2 ^ Suc h + 1" using c(1) p by linarith
    then show ?thesis by (simp only: subtree_def c(2))
  qed
  moreover have "subtree r = {r + 2 - 2 ^ Suc (Suc h)..r}" by (simp add: subtree_def assms(2))
  ultimately show ?thesis using b c(1) p(1) unfolding p(2) by (auto simp del: power_Suc)
qed


lemma subtree_less: "q \<in> subtree r \<Longrightarrow> q \<le> r"
  by (simp add: subtree_def)

lemma parent_of_children:
  assumes "r + 1 < 2 ^ 64" and "nheight r = Suc h"
  shows "parent (r - 1) = r" "parent (r - 2 ^ Suc h) = r"
proof -
  note c = nheight_children [OF assms]
  have ur: "unat (of_nat r :: u64) = r" using assms(1) by (intro unat_of_nat_small) simp
  have h: "GetHeight (of_nat r) = of_nat (Suc h)"
    using nheight_GetHeight [OF assms(1)] assms(2) by (metis of_nat_unat_id)
  have "Suc h < 64" using nheight_bounds(1) [OF assms(1)] assms(2) by simp
  then have uh: "unat (of_nat (Suc h) :: u64) = Suc h" by (intro unat_of_nat_small) simp
  have inner: "\<not> IsLeaf (of_nat r)" using h uh by (auto simp add: IsLeaf_def)
  have dom: "unat (of_nat r :: u64) + 1 < 2 ^ 64" using assms(1) by (simp only: ur)
  note rel = children_parent_sibling [OF dom inner]
  have r1: "1 \<le> r" using c(1) two_power_Suc [of h] by linarith
  have "GetRightChildIndex (of_nat r) = of_nat (r - 1)"
    using r1 by (simp add: GetRightChildIndex_def of_nat_diff)
  then show "parent (r - 1) = r" using rel ur by (auto simp add: parent_def)
  have "GetLeftChildIndex (of_nat r) (GetHeight (of_nat r)) = of_nat (r - 2 ^ Suc h)"
    unfolding GetLeftChildIndex_def h uh using c(1) by (simp only: of_nat_diff) (simp add: push_bit_eq_mult)
  then show "parent (r - 2 ^ Suc h) = r" using rel ur by (auto simp add: parent_def)
qed

lemma subtree_parent:
  assumes "r + 1 < 2 ^ 64" and "q \<in> subtree r" and "q \<noteq> r"
  shows "parent q \<in> subtree r"
  using assms
proof (induction "nheight r" arbitrary: r)
  case 0
  then show ?case by (simp add: subtree_def)
next
  case (Suc h)
  then have h: "nheight r = Suc h" by simp
  note c = nheight_children [OF Suc.prems(1) h] and sp = subtree_split [OF Suc.prems(1) h]
  consider "q \<in> subtree (r - 2 ^ Suc h)" | "q \<in> subtree (r - 1)" using Suc.prems sp by blast
  then show ?case
  proof cases
    case 1
    show ?thesis
    proof (cases "q = r - 2 ^ Suc h")
      case True
      then show ?thesis using parent_of_children(2) [OF Suc.prems(1) h] subtree_self by simp
    next
      case False
      then show ?thesis using Suc.hyps(1) [of "r - 2 ^ Suc h"] c(3) 1 Suc.prems(1) sp by simp
    qed
  next
    case 2
    show ?thesis
    proof (cases "q = r - 1")
      case True
      then show ?thesis using parent_of_children(1) [OF Suc.prems(1) h] subtree_self by simp
    next
      case False
      then show ?thesis using Suc.hyps(1) [of "r - 1"] c(2) 2 Suc.prems(1) sp by simp
    qed
  qed
qed

lemma subtree_trans:
  assumes "r + 1 < 2 ^ 64" and "q \<in> subtree r"
  shows "subtree q \<subseteq> subtree r"
  using assms
proof (induction "nheight r" arbitrary: r)
  case 0
  then show ?case by (simp add: subtree_def)
next
  case (Suc h)
  then have h: "nheight r = Suc h" by simp
  note c = nheight_children [OF Suc.prems(1) h] and sp = subtree_split [OF Suc.prems(1) h]
  consider "q = r" | "q \<in> subtree (r - 2 ^ Suc h)" | "q \<in> subtree (r - 1)" using Suc.prems sp by blast
  then show ?case
  proof cases
    case 2
    then have "subtree q \<subseteq> subtree (r - 2 ^ Suc h)"
      using Suc.hyps(1) [of "r - 2 ^ Suc h"] c(3) Suc.prems(1) by simp
    then show ?thesis unfolding sp by blast
  next
    case 3
    then have "subtree q \<subseteq> subtree (r - 1)"
      using Suc.hyps(1) [of "r - 1"] c(2) Suc.prems(1) by simp
    then show ?thesis unfolding sp by blast
  qed simp
qed

lemma in_subtree_parent:
  assumes "q + 2 < 2 ^ 64"
  shows "q \<in> subtree (parent q)"
proof -
  note p = parent_is_child [OF assms]
  have "subtree (parent q) = insert (parent q) (subtree (parent q - 2 ^ Suc (nheight q)) \<union> subtree (parent q - 1))"
    by (rule subtree_split [OF p(2,3)])
  moreover have "q \<in> subtree (parent q - 2 ^ Suc (nheight q)) \<union> subtree (parent q - 1)"
    using p(4) subtree_self by (metis UnI1 UnI2)
  ultimately show ?thesis by blast
qed

lemma subtrees_nested:
  assumes "q \<in> subtree r" "q \<in> subtree r'" "r + 1 < 2 ^ 64" "r' + 1 < 2 ^ 64"
  shows "r \<in> subtree r' \<or> r' \<in> subtree r"
  using assms(1,2)
proof (induction "r - q" arbitrary: q rule: less_induct)
  case less
  show ?case
  proof (cases "q = r \<or> q = r'")
    case False
    have qr: "q < r" "q < r'" using False less.prems subtree_less by (auto simp add: le_less)
    then have "q + 2 < 2 ^ 64" using assms(3) by simp
    then have "q < parent q" by (rule parent_is_child(1))
    moreover have "parent q \<in> subtree r" "parent q \<in> subtree r'"
      using subtree_parent assms(3,4) less.prems False by auto
    ultimately show ?thesis using less.hyps [of "parent q"] qr by simp
  qed (use less.prems in blast)
qed

section \<open>The cache of pruned nodes\<close>

lemma ucast_u32: "p < 2 ^ 32 \<Longrightarrow> unat (ucast (of_nat p :: u64) :: u32) = p"
  by (simp add: unsigned_ucast_eq unat_of_nat take_bit_nat_eq_self)

lemma contains_root:
  assumes "0 \<notin> set roots" and "p + 1 < 2 ^ 32"
  shows "Roaring_contains (of_nat p + 1) roots \<longleftrightarrow> p \<in> root_nodes roots"
proof -
  have u: "unat (ucast (of_nat p + 1 :: u64) :: u32) = p + 1"
    using ucast_u32 [of "p + 1"] assms(2) by (simp add: add.commute)
  show ?thesis
  proof
    assume "Roaring_contains (of_nat p + 1) roots"
    then show "p \<in> root_nodes roots"
      using u unfolding Roaring_contains_def root_nodes_def by (intro image_eqI) auto
  next
    assume "p \<in> root_nodes roots"
    then obtain v where v: "v \<in> set roots" "p = unat v - 1" by (auto simp add: root_nodes_def)
    with assms(1) have "unat v \<noteq> 0" by (auto simp add: unat_eq_0)
    with v u have "ucast (of_nat p + 1 :: u64) = v" by (simp add: word_unat_eq_iff)
    then show "Roaring_contains (of_nat p + 1) roots" using v by (simp add: Roaring_contains_def)
  qed
qed

lemma root_le_maximum:
  assumes "sorted_wrt (<) roots" and "v \<in> set roots"
  shows "v \<le> Roaring_maximum roots"
proof -
  have "v \<le> last roots"
    using assms by (induction roots) (auto simp add: less_imp_le split: if_splits)
  then show ?thesis using assms(2) by (auto simp add: Roaring_maximum_def)
qed

lemma root_nodes_below:
  assumes "sorted_wrt (<) roots" and "0 \<notin> set roots" and "r \<in> root_nodes roots"
  shows "r < unat (Roaring_maximum roots)"
proof -
  obtain v where v: "v \<in> set roots" "r = unat v - 1" using assms(3) by (auto simp add: root_nodes_def)
  have "unat v \<le> unat (Roaring_maximum roots)"
    using root_le_maximum [OF assms(1) v(1)] by (simp add: word_le_nat_alt)
  moreover have "unat v \<noteq> 0" using v(1) assms(2) by (auto simp add: unat_eq_0)
  ultimately show ?thesis using v by simp
qed

lemma has_pruned_ancestor_spec:
  assumes "0 \<notin> set roots" and M: "M < 2 ^ 32" and below: "\<forall>r\<in>root_nodes roots. r < M"
    and "q + 1 < 2 ^ 64"
  shows "has_pruned_ancestor (of_nat M) roots (of_nat q) = Some (\<exists>r\<in>root_nodes roots. q \<in> subtree r)"
  using assms(4)
proof (induction "M - q" arbitrary: q rule: less_induct)
  case less
  have lt: "of_nat q < (of_nat M :: u64) \<longleftrightarrow> q < M"
    using less.prems M by (simp add: word_less_nat_alt unat_of_nat_small)
  show ?case
  proof (cases "q < M")
    case False
    then have "\<not> (\<exists>r\<in>root_nodes roots. q \<in> subtree r)"
      using below by (auto dest!: subtree_less)
    with False show ?thesis by (subst has_pruned_ancestor.simps) (simp add: lt)
  next
    case True
    then have q: "q + 1 < 2 ^ 32" "q + 2 < 2 ^ 64" using M by simp_all
    note p = parent_is_child [OF q(2)]
    have par: "GetParentIndex (of_nat q) = of_nat (parent q)" by (simp add: parent_def)
    have step: "(\<exists>r\<in>root_nodes roots. parent q \<in> subtree r) \<longleftrightarrow> (\<exists>r\<in>root_nodes roots. q \<in> subtree r)"
      if "q \<notin> root_nodes roots"
    proof
      assume "\<exists>r\<in>root_nodes roots. parent q \<in> subtree r"
      then obtain r where r: "r \<in> root_nodes roots" "parent q \<in> subtree r" by blast
      then have "subtree (parent q) \<subseteq> subtree r" using below M by (intro subtree_trans) auto
      then show "\<exists>r\<in>root_nodes roots. q \<in> subtree r" using r in_subtree_parent [OF q(2)] by blast
    next
      assume "\<exists>r\<in>root_nodes roots. q \<in> subtree r"
      then obtain r where r: "r \<in> root_nodes roots" "q \<in> subtree r" by blast
      then have "parent q \<in> subtree r" using below M that by (intro subtree_parent) auto
      then show "\<exists>r\<in>root_nodes roots. parent q \<in> subtree r" using r by blast
    qed
    have "M - parent q < M - q" using p(1) True by simp
    then have IH: "has_pruned_ancestor (of_nat M) roots (of_nat (parent q)) =
        Some (\<exists>r\<in>root_nodes roots. parent q \<in> subtree r)"
      using p(2) by (rule less.hyps)
    have "q \<in> root_nodes roots \<Longrightarrow> \<exists>r\<in>root_nodes roots. q \<in> subtree r" using subtree_self by blast
    then show ?thesis
      using True step IH contains_root [OF assms(1) q(1)]
      by (subst has_pruned_ancestor.simps) (simp add: lt par)
  qed
qed

lemma set_Roaring_add: "set (Roaring_add x r) = insert (ucast x) (set r)"
  by (auto simp add: Roaring_add_def Let_def)

lemma cache_positions_spec:
  assumes "0 \<notin> set roots" "M < 2 ^ 32" "\<forall>r\<in>root_nodes roots. r < M" and "\<forall>p\<in>set ps. p < M"
  shows "\<exists>cache'. cache_positions (of_nat M) roots ps cache = Some cache' \<and>
    set cache' = set cache \<union> (\<lambda>p. ucast (of_nat p + 1 :: u64)) ` {p\<in>set ps. \<exists>r\<in>root_nodes roots. p \<in> subtree r}"
  using assms(4)
proof (induction ps arbitrary: cache)
  case (Cons p ps)
  have "p + 1 < 2 ^ 64" using Cons.prems assms(2) by simp
  from has_pruned_ancestor_spec [OF assms(1-3) this]
  have anc: "has_pruned_ancestor (of_nat M) roots (of_nat p) = Some (\<exists>r\<in>root_nodes roots. p \<in> subtree r)" .
  let ?P = "\<lambda>p. \<exists>r\<in>root_nodes roots. p \<in> subtree r"
  have eq: "{x\<in>set (p # ps). ?P x} = (if ?P p then insert p {x\<in>set ps. ?P x} else {x\<in>set ps. ?P x})"
    by auto
  have "\<forall>p\<in>set ps. p < M" using Cons.prems by simp
  from Cons.IH [OF this, of "if ?P p then Roaring_add (of_nat p + 1) cache else cache"] show ?case
    unfolding eq by (cases "?P p") (simp_all add: anc set_Roaring_add del: set_simps)
qed simp

lemma BuildPrunedCache_spec:
  assumes "sorted_wrt (<) (pl_prunedRoots pl)" "0 \<notin> set (pl_prunedRoots pl)" "pl_prunedRoots pl \<noteq> []"
  obtains cache where "BuildPrunedCache pl = Some (pl\<lparr>pl_prunedCache := cache\<rparr>)"
    and "\<And>p. p + 1 < 2 ^ 32 \<Longrightarrow> Roaring_contains (of_nat p + 1) cache \<longleftrightarrow> (\<exists>r\<in>root_nodes (pl_prunedRoots pl). p \<in> subtree r)"
proof -
  let ?roots = "pl_prunedRoots pl"
  let ?M = "unat (Roaring_maximum ?roots)"
  have M: "?M < 2 ^ 32" using unsigned_less [of "Roaring_maximum ?roots"] by simp
  have below: "\<forall>r\<in>root_nodes ?roots. r < ?M" using root_nodes_below [OF assms(1,2)] by blast
  have max: "(ucast (Roaring_maximum ?roots) :: u64) = of_nat ?M"
    using M by (simp add: word_unat_eq_iff unsigned_ucast_eq unat_of_nat_small take_bit_nat_eq_self)
  have um: "unat (of_nat ?M :: u64) = ?M" using M by (intro unat_of_nat_small) simp
  obtain cache where c: "cache_positions (of_nat ?M) ?roots [0..<?M] [] = Some cache"
    "set cache = (\<lambda>p. ucast (of_nat p + 1 :: u64)) ` {p\<in>set [0..<?M]. \<exists>r\<in>root_nodes ?roots. p \<in> subtree r}"
    using cache_positions_spec [OF assms(2) M below, of "[0..<?M]" "[]"] by auto
  show ?thesis
  proof (rule that [of cache])
    show "BuildPrunedCache pl = Some (pl\<lparr>pl_prunedCache := cache\<rparr>)"
      unfolding BuildPrunedCache_def Let_def max um using assms(3) c(1) by simp
    fix p :: nat assume p: "p + 1 < 2 ^ 32"
    have u: "unat (ucast (of_nat x + 1 :: u64) :: u32) = x + 1" if "x + 1 < 2 ^ 32" for x
      using ucast_u32 [of "x + 1"] that by (simp add: add.commute)
    have "(ucast (of_nat p + 1 :: u64) :: u32) = ucast (of_nat x + 1 :: u64) \<longleftrightarrow> p = x" if "x < ?M" for x
      using u [of p] u [of x] p that M by (auto simp add: word_unat_eq_iff)
    moreover have "p < ?M" if "r \<in> root_nodes ?roots" "p \<in> subtree r" for r
      using below that subtree_less le_less_trans by blast
    ultimately show "Roaring_contains (of_nat p + 1) cache \<longleftrightarrow> (\<exists>r\<in>root_nodes ?roots. p \<in> subtree r)"
      by (auto simp add: Roaring_contains_def c(2) image_iff)
  qed
qed

section \<open>The shift caches\<close>

text \<open>The nodes, and the leaves, compacted away below a root.\<close>

definition root_shift :: "u32 \<Rightarrow> nat" where
  "root_shift v = 2 ^ Suc (nheight (unat v - 1)) - 2"

definition root_leaf_shift :: "u32 \<Rightarrow> nat" where
  "root_leaf_shift v = (if nheight (unat v - 1) = 0 then 0 else 2 ^ nheight (unat v - 1))"

definition roots_upto :: "nat \<Rightarrow> roaring \<Rightarrow> roaring" where
  "roots_upto m roots = filter (\<lambda>v. unat v \<le> m) roots"

definition prefix_sums :: "(u32 \<Rightarrow> nat) \<Rightarrow> roaring \<Rightarrow> u64 list" where
  "prefix_sums w vs = map (\<lambda>k. of_nat (sum_list (map w (take (Suc k) vs)))) [0..<length vs]"

lemma prefix_sums_snoc:
  "prefix_sums w (vs @ [v]) = prefix_sums w vs @ [of_nat (sum_list (map w vs) + w v)]"
  by (simp add: prefix_sums_def)

lemma length_prefix_sums [simp]: "length (prefix_sums w vs) = length vs"
  by (simp add: prefix_sums_def)

lemma last_prefix_sums: "vs \<noteq> [] \<Longrightarrow> prefix_sums w vs ! (length vs - 1) = of_nat (sum_list (map w vs))"
  by (cases vs rule: rev_cases) (simp_all add: prefix_sums_snoc nth_append)

lemma nth_prefix_sums:
  "0 < k \<Longrightarrow> k \<le> length vs \<Longrightarrow> prefix_sums w vs ! (k - 1) = of_nat (sum_list (map w (take k vs)))"
  by (cases k) (simp_all add: prefix_sums_def)

lemma sorted_filter_take:
  "sorted_wrt (<) vs \<Longrightarrow> filter (\<lambda>v :: u32. unat v \<le> m) vs = take (length (filter (\<lambda>v. unat v \<le> m) vs)) vs"
proof (induction vs)
  case (Cons v vs)
  show ?case
  proof (cases "unat v \<le> m")
    case False
    then have "filter (\<lambda>v. unat v \<le> m) vs = []"
      using Cons.prems by (auto simp add: filter_empty_conv word_less_nat_alt)
    with False show ?thesis by simp
  qed (use Cons in simp)
qed simp

lemma roots_upto_Suc:
  assumes "sorted_wrt (<) roots" and m: "Suc m < 2 ^ 32"
  shows "roots_upto (Suc m) roots =
    (if of_nat (Suc m) \<in> set roots then roots_upto m roots @ [of_nat (Suc m)] else roots_upto m roots)"
  using assms(1)
proof (induction roots)
  case Nil
  then show ?case by (simp add: roots_upto_def)
next
  case (Cons v vs)
  have um: "unat (of_nat (Suc m) :: u32) = Suc m" using m by (simp add: unat_of_nat take_bit_nat_eq_self del: of_nat_Suc)
  consider "unat v \<le> m" | "unat v = Suc m" | "unat v > Suc m" by linarith
  then show ?case
  proof cases
    case 1
    then have "v \<noteq> of_nat (Suc m)" using um by auto
    with 1 Cons show ?thesis by (auto simp add: roots_upto_def)
  next
    case 2
    then have "v = of_nat (Suc m)" using um by (simp add: word_unat_eq_iff del: of_nat_Suc)
    moreover have "\<forall>x\<in>set vs. unat x > Suc m" using Cons.prems 2 by (auto simp add: word_less_nat_alt)
    then have "filter (\<lambda>v. unat v \<le> Suc m) vs = []" "filter (\<lambda>v. unat v \<le> m) vs = []"
      by (auto simp add: filter_empty_conv)
    ultimately show ?thesis using 2 by (simp add: roots_upto_def)
  next
    case 3
    then have "\<forall>x\<in>set vs. unat x > Suc m" using Cons.prems by (auto simp add: word_less_nat_alt)
    then have "filter (\<lambda>v. unat v \<le> Suc m) vs = []" "filter (\<lambda>v. unat v \<le> m) vs = []" "of_nat (Suc m) \<notin> set vs"
      using um by (auto simp add: filter_empty_conv simp del: of_nat_Suc)
    moreover have "v \<noteq> of_nat (Suc m)" using 3 um by auto
    ultimately show ?thesis using 3 by (simp add: roots_upto_def)
  qed
qed

lemma rank_roots_upto:
  assumes "m < 2 ^ 32" and "length roots < 2 ^ 64"
  shows "Roaring_rank (of_nat m) roots = of_nat (length (roots_upto m roots))"
    and "unat (Roaring_rank (of_nat m) roots) = length (roots_upto m roots)"
proof -
  show eq: "Roaring_rank (of_nat m) roots = of_nat (length (roots_upto m roots))"
    using ucast_u32 [OF assms(1)] by (simp add: Roaring_rank_def roots_upto_def word_le_nat_alt)
  have "length (roots_upto m roots) < 2 ^ 64"
    using assms(2) length_filter_le [of _ roots] unfolding roots_upto_def by (rule le_less_trans [rotated])
  then show "unat (Roaring_rank (of_nat m) roots) = length (roots_upto m roots)"
    unfolding eq by (rule unat_of_nat_small)
qed

lemma GetShift_prefix:
  assumes "sorted_wrt (<) roots" "m < 2 ^ 32" "length roots < 2 ^ 64" "m \<le> m'"
    and "pl_prunedRoots pl = roots" "pl_shiftCache pl = prefix_sums w (roots_upto m' roots)"
    and "p + 1 = of_nat m"
  shows "GetShift p pl = of_nat (sum_list (map w (roots_upto m roots)))"
proof -
  have pre: "roots_upto m roots = take (length (roots_upto m roots)) (roots_upto m' roots)"
  proof -
    have "roots_upto m roots = roots_upto m (roots_upto m' roots)" using assms(4) by (simp add: roots_upto_def) (meson le_trans)
    then show ?thesis using sorted_filter_take [of "roots_upto m' roots" m] assms(1)
      by (simp add: roots_upto_def sorted_wrt_filter)
  qed
  have len: "length (roots_upto m roots) \<le> length (roots_upto m' roots)" using pre by (metis length_take min.cobounded1 nat_le_linear take_all)
  note r = rank_roots_upto [OF assms(2,3)]
  show ?thesis
  proof (cases "roots_upto m roots = []")
    case True
    then show ?thesis using r assms(5-7) by (simp add: GetShift_def Let_def)
  next
    case False
    then have pos: "0 < length (roots_upto m roots)" by simp
    have ne: "roots \<noteq> []" "roots_upto m' roots \<noteq> []" using False pre by (auto simp add: roots_upto_def)
    have nz: "of_nat (length (roots_upto m roots)) \<noteq> (0 :: u64)" using r pos by (metis unat_0 less_irrefl)
    have "prefix_sums w (roots_upto m' roots) ! (length (roots_upto m roots) - 1) =
        of_nat (sum_list (map w (roots_upto m roots)))"
      using nth_prefix_sums [OF pos len, of w] pre by simp
    moreover have "prefix_sums w (roots_upto m' roots) \<noteq> []" using ne by (simp add: prefix_sums_def)
    ultimately show ?thesis
      unfolding GetShift_def Let_def using r assms(5-7) ne nz len by simp
  qed
qed

lemma GetLeafShift_eq: "GetLeafShift p pl = GetShift p (pl\<lparr>pl_shiftCache := pl_leafShiftCache pl\<rparr>)"
  by (simp add: GetLeafShift_def GetShift_def Let_def)

lemma of_nat_root_shift:
  "of_nat (2 ^ Suc h - 2) = (2 * (push_bit h 1 - 1) :: u64)"
proof -
  have "(2 ^ Suc h - 2 :: nat) = 2 * (2 ^ h - 1)" by (simp add: right_diff_distrib')
  then have "of_nat (2 ^ Suc h - 2) = (2 * (of_nat (2 ^ h - 1)) :: u64)" by simp
  also have "of_nat (2 ^ h - 1) = (push_bit h 1 - 1 :: u64)" by (simp add: of_nat_diff push_bit_eq_mult)
  finally show ?thesis .
qed

definition shift_caches_ok :: "nat \<Rightarrow> roaring \<Rightarrow> prune_list \<Rightarrow> bool" where
  "shift_caches_ok m roots pl \<longleftrightarrow> pl_prunedRoots pl = roots \<and>
     pl_shiftCache pl = prefix_sums root_shift (roots_upto m roots) \<and>
     pl_leafShiftCache pl = prefix_sums root_leaf_shift (roots_upto m roots)"

lemma BuildShiftCaches_step_ok:
  assumes so: "sorted_wrt (<) roots" "0 \<notin> set roots" and len: "length roots < 2 ^ 64" and m: "Suc m < 2 ^ 32"
    and ok: "shift_caches_ok m roots pl"
  shows "shift_caches_ok (Suc m) roots (BuildShiftCaches_step m pl)"
proof -
  have c: "ucast (of_nat m + 1 :: u64) = (of_nat (Suc m) :: u32)"
  proof -
    have e: "(of_nat m + 1 :: u64) = of_nat (Suc m)" by simp
    show ?thesis
      unfolding e using m ucast_u32 [of "Suc m"] by (simp add: word_unat_eq_iff unat_of_nat take_bit_nat_eq_self del: of_nat_Suc)
  qed
  show ?thesis
  proof (cases "of_nat (Suc m) \<in> set roots")
    case False
    then show ?thesis
      using ok roots_upto_Suc [OF so(1) m] c
      by (simp add: shift_caches_ok_def BuildShiftCaches_step_def Let_def Roaring_contains_def del: of_nat_Suc)
  next
    case True
    have um: "unat (of_nat (Suc m) :: u32) - 1 = m"
      using m by (simp add: unat_of_nat take_bit_nat_eq_self del: of_nat_Suc)
    have h: "unat (GetHeight (of_nat m)) = nheight m" using m by (intro nheight_GetHeight) simp
    have hz: "GetHeight (of_nat m) = 0 \<longleftrightarrow> nheight m = 0" using h by (simp add: unat_eq_0 [symmetric])
    have prev: "GetShift (of_nat m - 1) pl' = of_nat (sum_list (map w (roots_upto m roots)))"
      if "pl_prunedRoots pl' = roots" "pl_shiftCache pl' = prefix_sums w (roots_upto m roots)" for pl' w
      using m len that by (intro GetShift_prefix [OF so(1), of m m]) simp_all
    define pl1 where "pl1 = pl\<lparr>pl_shiftCache := pl_shiftCache pl @
        [GetShift (of_nat m - 1) pl + 2 * (push_bit (unat (GetHeight (of_nat m))) 1 - 1)]\<rparr>"
    have step: "BuildShiftCaches_step m pl = pl1\<lparr>pl_leafShiftCache := pl_leafShiftCache pl1 @
        [GetLeafShift (of_nat m - 1) pl1 + (if GetHeight (of_nat m) = 0 then 0 else push_bit (unat (GetHeight (of_nat m))) 1)]\<rparr>"
      using True ok c unfolding shift_caches_ok_def BuildShiftCaches_step_def Let_def Roaring_contains_def pl1_def by simp
    have "pl_shiftCache pl1 = prefix_sums root_shift (roots_upto m roots @ [of_nat (Suc m)])"
      unfolding prefix_sums_snoc pl1_def root_shift_def [of "of_nat (Suc m)"] um h of_nat_root_shift [symmetric] of_nat_add
      using ok prev [of pl root_shift] unfolding shift_caches_ok_def by (simp del: of_nat_add power_Suc)
    moreover have "GetLeafShift (of_nat m - 1) pl1 = of_nat (sum_list (map root_leaf_shift (roots_upto m roots)))"
      unfolding GetLeafShift_eq using ok by (intro prev) (simp_all add: shift_caches_ok_def pl1_def)
    ultimately show ?thesis
      using ok True roots_upto_Suc [OF so(1) m] um h hz
      by (simp add: step shift_caches_ok_def pl1_def prefix_sums_snoc root_leaf_shift_def push_bit_eq_mult del: of_nat_Suc)
  qed
qed

lemma BuildShiftCaches_ok:
  assumes so: "sorted_wrt (<) roots" "0 \<notin> set roots" "roots \<noteq> []" and len: "length roots < 2 ^ 64"
    and r: "pl_prunedRoots pl = roots"
  shows "shift_caches_ok (unat (Roaring_maximum roots)) roots (BuildShiftCaches pl)"
    and "pl_prunedCache (BuildShiftCaches pl) = pl_prunedCache pl"
proof -
  let ?M = "unat (Roaring_maximum roots)" and ?pl = "pl\<lparr>pl_shiftCache := [], pl_leafShiftCache := []\<rparr>"
  have M: "?M < 2 ^ 32" using unsigned_less [of "Roaring_maximum roots"] by simp
  have z: "roots_upto 0 roots = []" using so(2) by (auto simp add: roots_upto_def filter_empty_conv unat_eq_0)
  have "shift_caches_ok m roots (fold BuildShiftCaches_step [0..<m] ?pl)" if "m \<le> ?M" for m
    using that
  proof (induction m)
    case 0
    then show ?case using r z by (simp add: shift_caches_ok_def prefix_sums_def)
  next
    case (Suc m)
    then show ?case using BuildShiftCaches_step_ok [OF so(1,2) len] M by simp
  qed
  then show "shift_caches_ok ?M roots (BuildShiftCaches pl)" using r so(3) by (simp add: BuildShiftCaches_def)
  have "pl_prunedCache (fold BuildShiftCaches_step ms p) = pl_prunedCache p" for ms p
    by (induction ms arbitrary: p) (simp_all add: BuildShiftCaches_step_def Let_def)
  then show "pl_prunedCache (BuildShiftCaches pl) = pl_prunedCache pl" by (simp add: BuildShiftCaches_def)
qed

section \<open>Positions in the compacted file\<close>

lemma unat_root: "0 \<notin> set roots \<Longrightarrow> v \<in> set roots \<Longrightarrow> unat v - 1 + 1 = unat (v :: u32)"
  by (metis One_nat_def Suc_eq_plus1 Suc_pred unat_gt_0)

lemma inj_roots: "0 \<notin> set roots \<Longrightarrow> inj_on (\<lambda>v :: u32. unat v - 1) (set roots)"
  by (rule inj_onI) (metis unat_root word_unat_eq_iff)

lemma sum_roots_upto:
  assumes "sorted_wrt (<) roots" "0 \<notin> set roots"
  shows "sum_list (map root_shift (roots_upto (p + 1) roots)) =
    (\<Sum>r\<in>{r\<in>root_nodes roots. r \<le> p}. 2 ^ Suc (nheight r) - 2)"
proof -
  have "distinct (roots_upto (p + 1) roots)"
    using assms(1) by (simp add: roots_upto_def strict_sorted_iff)
  then have "sum_list (map root_shift (roots_upto (p + 1) roots)) = (\<Sum>v\<in>{v\<in>set roots. unat v \<le> p + 1}. root_shift v)"
    by (simp add: sum_list_distinct_conv_sum_set roots_upto_def)
  also have "\<dots> = (\<Sum>r\<in>(\<lambda>v. unat v - 1) ` {v\<in>set roots. unat v \<le> p + 1}. 2 ^ Suc (nheight r) - 2)"
    using inj_on_subset [OF inj_roots [OF assms(2)]] by (subst sum.reindex) (auto simp add: root_shift_def)
  also have "(\<lambda>v. unat v - 1) ` {v\<in>set roots. unat v \<le> p + 1} = {r\<in>root_nodes roots. r \<le> p}"
    unfolding root_nodes_def using unat_root [OF assms(2)] by force
  finally show ?thesis .
qed

lemma compacted_below:
  assumes anti: "\<forall>r\<in>R. \<forall>r'\<in>R. r \<in> subtree r' \<longrightarrow> r = r'" and fin: "\<forall>r\<in>R. r + 1 < 2 ^ 64"
    and p: "\<not> ((\<exists>r\<in>R. p \<in> subtree r) \<and> p \<notin> R)"
  shows "card {q. q < p \<and> (\<exists>r\<in>R. q \<in> subtree r) \<and> q \<notin> R} = (\<Sum>r\<in>{r\<in>R. r \<le> p}. 2 ^ Suc (nheight r) - 2)"
proof -
  have "{q. q < p \<and> (\<exists>r\<in>R. q \<in> subtree r) \<and> q \<notin> R} = (\<Union>r\<in>{r\<in>R. r \<le> p}. subtree r - {r})"
  proof (intro equalityI subsetI)
    fix q assume "q \<in> {q. q < p \<and> (\<exists>r\<in>R. q \<in> subtree r) \<and> q \<notin> R}"
    then obtain r where q: "q < p" "q \<notin> R" and r: "r \<in> R" "q \<in> subtree r" by blast
    have "r \<le> p"
    proof (rule ccontr)
      assume "\<not> r \<le> p"
      then have "p \<in> subtree r" "p \<noteq> r" using r(2) q(1) by (auto simp add: subtree_def)
      then show False using p r(1) anti by blast
    qed
    then show "q \<in> (\<Union>r\<in>{r\<in>R. r \<le> p}. subtree r - {r})" using q r by blast
  next
    fix q assume "q \<in> (\<Union>r\<in>{r\<in>R. r \<le> p}. subtree r - {r})"
    then obtain r where r: "r \<in> R" "r \<le> p" "q \<in> subtree r" "q \<noteq> r" by blast
    then have "q < p" using subtree_less [of q r] by simp
    then show "q \<in> {q. q < p \<and> (\<exists>r\<in>R. q \<in> subtree r) \<and> q \<notin> R}" using r anti by blast
  qed
  moreover have "card (\<Union>r\<in>{r\<in>R. r \<le> p}. subtree r - {r}) = (\<Sum>r\<in>{r\<in>R. r \<le> p}. card (subtree r - {r}))"
  proof (rule card_UN_disjoint)
    show "finite {r\<in>R. r \<le> p}" by (rule finite_subset [of _ "{..p}"]) auto
    show "\<forall>r\<in>{r\<in>R. r \<le> p}. finite (subtree r - {r})" by (simp add: subtree_def)
    show "\<forall>r\<in>{r\<in>R. r \<le> p}. \<forall>r'\<in>{r\<in>R. r \<le> p}. r \<noteq> r' \<longrightarrow> (subtree r - {r}) \<inter> (subtree r' - {r'}) = {}"
    proof (intro ballI impI)
      fix r r' assume r: "r \<in> {r\<in>R. r \<le> p}" "r' \<in> {r\<in>R. r \<le> p}" "r \<noteq> r'"
      show "(subtree r - {r}) \<inter> (subtree r' - {r'}) = {}"
        using subtrees_nested [of _ r r'] r anti fin by blast
    qed
  qed
  moreover have "(\<Sum>r\<in>{r\<in>R. r \<le> p}. card (subtree r - {r})) = (\<Sum>r\<in>{r\<in>R. r \<le> p}. 2 ^ Suc (nheight r) - 2)"
    using fin by (intro sum.cong) (simp_all add: card_subtree)
  ultimately show ?thesis by simp
qed

lemma Flush_spec:
  assumes ok: "roots_ok (pl_prunedRoots pl)" and ne: "pl_prunedRoots pl \<noteq> []"
    and len: "length (pl_prunedRoots pl) < 2 ^ 64"
  obtains pl' where "PruneList_Flush pl = Some (pl_prunedRoots pl, pl')"
    and "\<And>p. p + 1 < 2 ^ 32 \<Longrightarrow> IsPruned (of_nat p) pl' \<longleftrightarrow> (\<exists>r\<in>root_nodes (pl_prunedRoots pl). p \<in> subtree r)"
    and "\<And>p. p + 1 < 2 ^ 32 \<Longrightarrow> IsPrunedRoot (of_nat p) pl' \<longleftrightarrow> p \<in> root_nodes (pl_prunedRoots pl)"
    and "\<And>p. p + 1 < 2 ^ 32 \<Longrightarrow>
      GetShift (of_nat p) pl' = of_nat (sum_list (map root_shift (roots_upto (p + 1) (pl_prunedRoots pl))))"
proof -
  let ?roots = "pl_prunedRoots pl"
  have so: "sorted_wrt (<) ?roots" "0 \<notin> set ?roots" using ok by (simp_all add: roots_ok_def)
  obtain cache where c: "BuildPrunedCache pl = Some (pl\<lparr>pl_prunedCache := cache\<rparr>)"
    "\<And>p. p + 1 < 2 ^ 32 \<Longrightarrow> Roaring_contains (of_nat p + 1) cache \<longleftrightarrow> (\<exists>r\<in>root_nodes ?roots. p \<in> subtree r)"
    using BuildPrunedCache_spec [OF so ne] by blast
  let ?pl = "BuildShiftCaches (pl\<lparr>pl_prunedCache := cache\<rparr>)"
  have sh: "shift_caches_ok (unat (Roaring_maximum ?roots)) ?roots ?pl" "pl_prunedCache ?pl = cache"
    using BuildShiftCaches_ok [OF so ne len, of "pl\<lparr>pl_prunedCache := cache\<rparr>"] by simp_all
  show ?thesis
  proof (rule that [of ?pl])
    show "PruneList_Flush pl = Some (?roots, ?pl)" by (simp add: PruneList_Flush_def c(1))
    have r: "pl_prunedRoots ?pl = ?roots" using sh(1) by (simp add: shift_caches_ok_def)
    fix p :: nat assume p: "p + 1 < 2 ^ 32"
    show "IsPruned (of_nat p) ?pl \<longleftrightarrow> (\<exists>r\<in>root_nodes ?roots. p \<in> subtree r)"
      using c(2) [OF p] sh(2) by (simp add: IsPruned_def)
    show "IsPrunedRoot (of_nat p) ?pl \<longleftrightarrow> p \<in> root_nodes ?roots"
      using contains_root [OF so(2) p] r by (simp add: IsPrunedRoot_def)
    have all: "roots_upto (unat (Roaring_maximum ?roots)) ?roots = ?roots"
      using root_le_maximum [OF so(1)] by (simp add: roots_upto_def filter_id_conv word_le_nat_alt)
    then have "roots_upto (max (p + 1) (unat (Roaring_maximum ?roots))) ?roots = ?roots"
      by (auto simp add: roots_upto_def filter_id_conv le_max_iff_disj)
    then show "GetShift (of_nat p) ?pl = of_nat (sum_list (map root_shift (roots_upto (p + 1) ?roots)))"
      using sh(1) p len all
      by (intro GetShift_prefix [OF so(1), of "p + 1" "max (p + 1) (unat (Roaring_maximum ?roots))"])
        (simp_all add: shift_caches_ok_def add.commute)
  qed
qed

section \<open>Properties of prune lists\<close>



end
