(* ===== verification/MMR_Hash.thy ===== *)
theory MMR_Hash
  imports Serialization Data_File Bitmap_File Prune_List
begin

text \<open>
  Hashing of Merkle mountain ranges: \<^verbatim>\<open>MMRHashUtil\<close>
  (\<^verbatim>\<open>src/PMMR/Common/MMRHashUtil.cpp\<close>), the bitmap root of
  \<^verbatim>\<open>LeafSet\<close>, and the template \<^verbatim>\<open>PruneableMMR\<close>
  (\<^verbatim>\<open>src/PMMR/Common/PruneableMMR.h\<close>).

  The hash function \<^verbatim>\<open>Crypto::Blake2b\<close> calls a library; it is the argument \<open>H\<close>
  of the definitions. What the lemmas need of it is that its results are 32 bytes long. A null
  pointer to a prune list is \<open>None\<close>. Operations that write before they may throw return the
  exception beside the state they leave.
\<close>

section \<open>MMRHashUtil\<close>

type_synonym hash_fn = "u8 list \<Rightarrow> u8 list"

definition ZERO_HASH :: "u8 list" where
  "ZERO_HASH = replicate 32 0"

definition HashLeafWithIndex :: "hash_fn \<Rightarrow> u8 list \<Rightarrow> u64 \<Rightarrow> u8 list" where
  "HashLeafWithIndex H serializedLeaf mmrIndex =
     (let hashSerializer = Serializer_new V1;
          hashSerializer = Append mmrIndex hashSerializer;
          hashSerializer = AppendByteVector LEN_NONE serializedLeaf hashSerializer
      in H (GetBytes hashSerializer))"

definition HashParentWithIndex :: "hash_fn \<Rightarrow> u8 list \<Rightarrow> u8 list \<Rightarrow> u64 \<Rightarrow> u8 list" where
  "HashParentWithIndex H leftChild rightChild parentIndex =
     (let serializer = Serializer_new V1;
          serializer = Append parentIndex serializer;
          serializer = AppendBigInteger leftChild serializer;
          serializer = AppendBigInteger rightChild serializer
      in H (GetBytes serializer))"

definition GetShiftedIndex :: "u64 \<Rightarrow> prune_list option \<Rightarrow> u64" where
  "GetShiftedIndex mmrIndex pPruneList =
     (case pPruneList of
        Some pl \<Rightarrow> mmrIndex - GetShift mmrIndex pl
      | None \<Rightarrow> mmrIndex)"

definition GetHashAt :: "data_file \<Rightarrow> u64 \<Rightarrow> prune_list option \<Rightarrow> u8 list result" where
  "GetHashAt hashFile mmrIndex pPruneList =
     (case pPruneList of
        Some pl \<Rightarrow>
          if IsCompacted mmrIndex pl then Inr ZERO_HASH
          else DataFile_GetDataAt 32 (mmrIndex - GetShift mmrIndex pl) hashFile
      | None \<Rightarrow> DataFile_GetDataAt 32 mmrIndex hashFile)"

definition next_position :: "data_file \<Rightarrow> prune_list option \<Rightarrow> u64" where
  "next_position hashFile pPruneList =
     (case pPruneList of
        Some pl \<Rightarrow> DataFile_GetSize 32 hashFile + GetTotalShift pl
      | None \<Rightarrow> DataFile_GetSize 32 hashFile)"

text \<open>The loop that adds the parents a new leaf completes.\<close>

function AddHashes_loop ::
  "hash_fn \<Rightarrow> prune_list option \<Rightarrow> u64 \<Rightarrow> u64 \<Rightarrow> data_file \<Rightarrow> unit result \<times> data_file" where
  "AddHashes_loop H pPruneList position peak hashFile =
     (if GetHeight (position + 1) > 0 then
        (let leftSiblingPosition = (position + 1) - (2 * peak)
         in case GetHashAt hashFile leftSiblingPosition pPruneList of
              Inl e \<Rightarrow> (Inl e, hashFile)
            | Inr leftHash \<Rightarrow>
                (case GetHashAt hashFile position pPruneList of
                   Inl e \<Rightarrow> (Inl e, hashFile)
                 | Inr rightHash \<Rightarrow>
                     AddHashes_loop H pPruneList (position + 1) (peak * 2)
                       (DataFile_AddData (HashParentWithIndex H leftHash rightHash (position + 1)) hashFile)))
      else (Inr (), hashFile))"
  by pat_completeness auto
termination
proof (relation "measure (\<lambda>(H, pl, position, peak, f). 2 ^ 64 - unat position)", simp, clarsimp)
  fix position :: u64
  assume "0 < GetHeight (position + 1)"
  moreover have "GetHeight 0 = 0" by code_simp
  ultimately have "position + 1 \<noteq> 0" by auto
  then have "unat (position + 1) = unat position + 1" by (simp add: unatSuc add.commute)
  moreover have "unat (position + 1) < 2 ^ LENGTH(64)" by (rule unsigned_less)
  ultimately show "18446744073709551616 - unat (position + 1) < 18446744073709551616 - unat position"
    by simp
qed

declare AddHashes_loop.simps [simp del]

definition AddHashes ::
  "hash_fn \<Rightarrow> u8 list \<Rightarrow> prune_list option \<Rightarrow> data_file \<Rightarrow> unit result \<times> data_file" where
  "AddHashes H serializedLeaf pPruneList hashFile =
     (let position = next_position hashFile pPruneList;
          leafHash = HashLeafWithIndex H serializedLeaf position;
          hashFile = DataFile_AddData leafHash hashFile
      in AddHashes_loop H pPruneList position 1 hashFile)"

definition Root_step ::
  "hash_fn \<Rightarrow> data_file \<Rightarrow> u64 \<Rightarrow> prune_list option \<Rightarrow> u64 \<Rightarrow> u8 list \<Rightarrow> u8 list result" where
  "Root_step H hashFile mmrSize pPruneList peakIndex h =
     (let shiftedIndex = GetShiftedIndex peakIndex pPruneList
      in bind_result (DataFile_GetDataAt 32 shiftedIndex hashFile)
           (\<lambda>peakHash.
              if peakHash \<noteq> ZERO_HASH
              then if h = ZERO_HASH then Inr peakHash
                   else Inr (HashParentWithIndex H peakHash h mmrSize)
              else Inr h))"

definition MMRHashUtil_Root :: "hash_fn \<Rightarrow> data_file \<Rightarrow> u64 \<Rightarrow> prune_list option \<Rightarrow> u8 list result" where
  "MMRHashUtil_Root H hashFile mmrSize pPruneList =
     (if mmrSize = 0 then Inr ZERO_HASH
      else fold (\<lambda>peakIndex r. bind_result r (Root_step H hashFile mmrSize pPruneList peakIndex))
             (rev (GetPeakIndices mmrSize)) (Inr ZERO_HASH))"

function GetLastLeafHashes_loop ::
  "data_file \<Rightarrow> bitmap_file option \<Rightarrow> prune_list option \<Rightarrow> u64 \<Rightarrow> u64 \<Rightarrow> u8 list list \<Rightarrow> u8 list list result" where
  "GetLastLeafHashes_loop hashFile pLeafSet pPruneList numHashes leafIndex hashes =
     (if leafIndex > 0 \<and> length hashes < unat numHashes
      then let leafIndex = leafIndex - 1
           in if (case pLeafSet of None \<Rightarrow> True | Some ls \<Rightarrow> LeafSet_Contains leafIndex ls)
              then (case GetHashAt hashFile (GetPMMRIndex leafIndex) pPruneList of
                      Inl e \<Rightarrow> Inl e
                    | Inr h \<Rightarrow>
                        GetLastLeafHashes_loop hashFile pLeafSet pPruneList numHashes leafIndex
                          (if h \<noteq> ZERO_HASH then hashes @ [h] else hashes))
              else GetLastLeafHashes_loop hashFile pLeafSet pPruneList numHashes leafIndex hashes
      else Inr hashes)"
  by pat_completeness auto
termination
proof (relation "measure (\<lambda>(f, ls, pl, n, leafIndex, hs). unat leafIndex)")
  show "wf (measure (\<lambda>(f, ls, pl, n, leafIndex, hs). unat (leafIndex :: u64)))" by simp
qed auto

declare GetLastLeafHashes_loop.simps [simp del]

definition GetLastLeafHashes ::
  "data_file \<Rightarrow> bitmap_file option \<Rightarrow> prune_list option \<Rightarrow> u64 \<Rightarrow> u8 list list result" where
  "GetLastLeafHashes hashFile pLeafSet pPruneList numHashes =
     (let nextPosition = next_position hashFile pPruneList;
          leafIndex = GetNumNodes nextPosition
      in GetLastLeafHashes_loop hashFile pLeafSet pPruneList numHashes leafIndex [])"

section \<open>The bitmap root\<close>

text \<open>\<^verbatim>\<open>LeafSet::Root\<close>: the root of an MMR over chunks of 1024 bits, built in a scratch
  file whose old content \<open>tmp\<close> is rewound away first.\<close>

definition bitmap_chunk :: "bitmap_file \<Rightarrow> nat \<Rightarrow> u8 list" where
  "bitmap_chunk b i = map (\<lambda>j. BitmapFile_GetByte (of_nat (128 * i + j)) b) [0..<128]"

definition LeafSet_Root :: "hash_fn \<Rightarrow> u8 list \<Rightarrow> u64 \<Rightarrow> bitmap_file \<Rightarrow> u8 list result" where
  "LeafSet_Root H tmp numOutputs b =
     (case DataFile_Rewind 32 0 (DataFile_Load tmp) of
        (Inl e, _) \<Rightarrow> Inl e
      | (Inr _, hashFile) \<Rightarrow>
          let numChunks = (numOutputs + 1023) div 1024
          in case fold (\<lambda>i (r, f). case r of Inl e \<Rightarrow> (Inl e, f) | Inr _ \<Rightarrow> AddHashes H (bitmap_chunk b i) None f)
                    [0..<unat numChunks] (Inr (), hashFile) of
               (Inl e, _) \<Rightarrow> Inl e
             | (Inr _, hashFile) \<Rightarrow> MMRHashUtil_Root H hashFile (DataFile_GetSize 32 hashFile) None)"

section \<open>PruneableMMR\<close>

text \<open>\<open>DATA_SIZE\<close> is the record size, \<open>ser\<close> and \<open>des\<close> serialize and read the data
  type.\<close>

record pmmr =
  pm_dirty :: bool
  pm_hashFile :: data_file
  pm_leafSet :: bitmap_file
  pm_pruneList :: prune_list
  pm_dataFile :: data_file

definition PMMR_GetSize :: "pmmr \<Rightarrow> u64" where
  "PMMR_GetSize m = GetTotalShift (pm_pruneList m) + DataFile_GetSize 32 (pm_hashFile m)"

definition PMMR_Append :: "hash_fn \<Rightarrow> ('d \<Rightarrow> serializer \<Rightarrow> serializer) \<Rightarrow> 'd \<Rightarrow> pmmr \<Rightarrow> unit result \<times> pmmr" where
  "PMMR_Append H ser x m =
     (let totalShift = GetTotalShift (pm_pruneList m);
          mmrIndex = DataFile_GetSize 32 (pm_hashFile m) + totalShift;
          bytes = GetBytes (ser x (Serializer_new V1));
          m = m\<lparr>pm_dirty := True,
                pm_leafSet := LeafSet_Add (GetLeafIndex mmrIndex) (pm_leafSet m),
                pm_dataFile := DataFile_AddData bytes (pm_dataFile m)\<rparr>
      in case AddHashes H bytes (Some (pm_pruneList m)) (pm_hashFile m) of
           (r, hashFile) \<Rightarrow> (r, m\<lparr>pm_hashFile := hashFile\<rparr>))"

definition PMMR_Remove :: "u64 \<Rightarrow> pmmr \<Rightarrow> unit result \<times> pmmr" where
  "PMMR_Remove mmrIndex m =
     (let m = m\<lparr>pm_dirty := True\<rparr>
      in if \<not> IsLeaf mmrIndex then (Inl TXHASHSET_EXCEPTION, m)
         else let leafIndex = GetLeafIndex mmrIndex
              in if \<not> LeafSet_Contains leafIndex (pm_leafSet m) then (Inl TXHASHSET_EXCEPTION, m)
                 else (Inr (), m\<lparr>pm_leafSet := LeafSet_Remove leafIndex (pm_leafSet m)\<rparr>))"

definition PMMR_Rewind :: "nat \<Rightarrow> u64 \<Rightarrow> u64 list \<Rightarrow> pmmr \<Rightarrow> unit result \<times> pmmr" where
  "PMMR_Rewind DATA_SIZE mmrSize leavesToAdd m =
     (let m = m\<lparr>pm_dirty := True\<rparr>;
          pl = pm_pruneList m
      in case DataFile_Rewind 32 (mmrSize - GetShift (mmrSize - 1) pl) (pm_hashFile m) of
           (Inl e, hashFile) \<Rightarrow> (Inl e, m\<lparr>pm_hashFile := hashFile\<rparr>)
         | (Inr _, hashFile) \<Rightarrow>
             (case DataFile_Rewind DATA_SIZE (GetNumLeaves (mmrSize - 1) - GetLeafShift (mmrSize - 1) pl) (pm_dataFile m) of
                (Inl e, dataFile) \<Rightarrow> (Inl e, m\<lparr>pm_hashFile := hashFile, pm_dataFile := dataFile\<rparr>)
              | (Inr _, dataFile) \<Rightarrow>
                  (Inr (), m\<lparr>pm_hashFile := hashFile, pm_dataFile := dataFile,
                             pm_leafSet := LeafSet_Rewind (GetNumLeaves (mmrSize - 1)) leavesToAdd (pm_leafSet m)\<rparr>)))"

definition PMMR_Root :: "hash_fn \<Rightarrow> u64 \<Rightarrow> pmmr \<Rightarrow> u8 list result" where
  "PMMR_Root H mmrSize m = MMRHashUtil_Root H (pm_hashFile m) mmrSize (Some (pm_pruneList m))"

definition PMMR_UBMTRoot :: "hash_fn \<Rightarrow> u8 list \<Rightarrow> u64 \<Rightarrow> pmmr \<Rightarrow> u8 list result" where
  "PMMR_UBMTRoot H tmp numOutputs m = LeafSet_Root H tmp numOutputs (pm_leafSet m)"

definition PMMR_GetHashAt :: "u64 \<Rightarrow> pmmr \<Rightarrow> u8 list option result" where
  "PMMR_GetHashAt mmrIndex m =
     bind_result (GetHashAt (pm_hashFile m) mmrIndex (Some (pm_pruneList m)))
       (\<lambda>h. Inr (if h = ZERO_HASH then None else Some h))"

definition PMMR_GetLastLeafHashes :: "u64 \<Rightarrow> pmmr \<Rightarrow> u8 list list result" where
  "PMMR_GetLastLeafHashes numHashes m =
     GetLastLeafHashes (pm_hashFile m) (Some (pm_leafSet m)) (Some (pm_pruneList m)) numHashes"

definition IsUnpruned :: "u64 \<Rightarrow> pmmr \<Rightarrow> bool" where
  "IsUnpruned mmrIndex m \<longleftrightarrow>
     IsLeaf mmrIndex \<and> mmrIndex < PMMR_GetSize m \<and> LeafSet_Contains (GetLeafIndex mmrIndex) (pm_leafSet m)"

text \<open>A \<^verbatim>\<open>FileException\<close> is caught and gives no object.\<close>

definition PMMR_GetAt :: "nat \<Rightarrow> 'd reader \<Rightarrow> u64 \<Rightarrow> pmmr \<Rightarrow> 'd option result" where
  "PMMR_GetAt DATA_SIZE des mmrIndex m =
     (if IsUnpruned mmrIndex m then
        let shift = GetLeafShift mmrIndex (pm_pruneList m);
            numLeaves = GetNumLeaves mmrIndex;
            shiftedIndex = (numLeaves - 1) - shift
        in case DataFile_GetDataAt DATA_SIZE shiftedIndex (pm_dataFile m) of
             Inl e \<Rightarrow> if e = FILE_EXCEPTION then Inr None else Inl e
           | Inr bytes \<Rightarrow>
               if length bytes = DATA_SIZE
               then bind_result (des (ByteBuffer_new bytes V1)) (\<lambda>(x, _). Inr (Some x))
               else Inr None
      else Inr None)"

text \<open>The outcomes of the writes to the two data files are arguments, as in
  \<open>DataFile_Commit\<close>.\<close>

definition PMMR_Commit :: "bool \<Rightarrow> bool \<Rightarrow> pmmr \<Rightarrow> unit result \<times> pmmr" where
  "PMMR_Commit truncated opened m =
     (if pm_dirty m then
        case DataFile_Commit truncated opened (pm_hashFile m) of
          (Inl e, hashFile) \<Rightarrow> (Inl e, m\<lparr>pm_hashFile := hashFile\<rparr>)
        | (Inr _, hashFile) \<Rightarrow>
            (case DataFile_Commit truncated opened (pm_dataFile m) of
               (Inl e, dataFile) \<Rightarrow> (Inl e, m\<lparr>pm_hashFile := hashFile, pm_dataFile := dataFile\<rparr>)
             | (Inr _, dataFile) \<Rightarrow>
                 (Inr (), m\<lparr>pm_hashFile := hashFile, pm_dataFile := dataFile,
                            pm_leafSet := LeafSet_Commit (pm_leafSet m), pm_dirty := False\<rparr>))
      else (Inr (), m))"

definition PMMR_Rollback :: "pmmr \<Rightarrow> pmmr" where
  "PMMR_Rollback m =
     (if pm_dirty m then
        m\<lparr>pm_hashFile := DataFile_Rollback (pm_hashFile m), pm_dataFile := DataFile_Rollback (pm_dataFile m),
          pm_leafSet := LeafSet_Rollback (pm_leafSet m), pm_dirty := False\<rparr>
      else m)"

section \<open>Specification\<close>

text \<open>The hash of the node at a position of height \<open>h\<close>, by recursion over the tree; \<open>lf\<close>
  gives the serialized leaves by number.\<close>

primrec node_hash :: "hash_fn \<Rightarrow> (nat \<Rightarrow> u8 list) \<Rightarrow> nat \<Rightarrow> nat \<Rightarrow> u8 list" where
  "node_hash H lf 0 i = HashLeafWithIndex H (lf (unat (GetLeafIndex (of_nat i)))) (of_nat i)"
| "node_hash H lf (Suc h) i =
     HashParentWithIndex H (node_hash H lf h (i - 2 ^ Suc h)) (node_hash H lf h (i - 1)) (of_nat i)"

definition mmr_nodes :: "hash_fn \<Rightarrow> (nat \<Rightarrow> u8 list) \<Rightarrow> nat \<Rightarrow> u8 list list" where
  "mmr_nodes H lf n = map (\<lambda>i. node_hash H lf (nheight i) i) [0..<mmr_size n]"

text \<open>The peaks bagged from the right.\<close>

fun bag_peaks :: "hash_fn \<Rightarrow> u64 \<Rightarrow> u8 list list \<Rightarrow> u8 list" where
  "bag_peaks H mmrSize [] = ZERO_HASH"
| "bag_peaks H mmrSize [p] = p"
| "bag_peaks H mmrSize (p # q # ps) = HashParentWithIndex H p (bag_peaks H mmrSize (q # ps)) mmrSize"

definition mmr_root :: "hash_fn \<Rightarrow> (nat \<Rightarrow> u8 list) \<Rightarrow> nat \<Rightarrow> u8 list" where
  "mmr_root H lf n =
     bag_peaks H (of_nat (mmr_size n)) (map (\<lambda>i. node_hash H lf (nheight i) i) (peak_positions 0 (mountains n)))"

text \<open>A hash collision.\<close>

definition collision :: "hash_fn \<Rightarrow> bool" where
  "collision H \<longleftrightarrow> (\<exists>x y. x \<noteq> y \<and> H x = H y)"

section \<open>Building the nodes\<close>

lemma HashLeaf_bytes: "HashLeafWithIndex H l i = H (be_bytes i @ l)"
  by (simp add: HashLeafWithIndex_def Let_def writer_defs GetBytes_def)

lemma HashParent_bytes: "HashParentWithIndex H l r i = H (be_bytes i @ l @ r)"
  by (simp add: HashParentWithIndex_def Let_def writer_defs GetBytes_def)

lemma length_node_hash: "(\<And>x. length (H x) = 32) \<Longrightarrow> length (node_hash H lf h i) = 32"
  by (cases h) (simp_all add: HashLeaf_bytes HashParent_bytes)

text \<open>A hash file that holds the first \<open>k\<close> nodes.\<close>

definition holds_nodes :: "hash_fn \<Rightarrow> (nat \<Rightarrow> u8 list) \<Rightarrow> nat \<Rightarrow> data_file \<Rightarrow> bool" where
  "holds_nodes H lf k f \<longleftrightarrow> df_ok 32 f \<and> df_working 32 f = map (\<lambda>i. node_hash H lf (nheight i) i) [0..<k]"

lemma holds_nodes_add:
  assumes "holds_nodes H lf k f" and "(k + 1) * 32 < 2 ^ 64" and "\<And>x. length (H x) = 32"
  shows "holds_nodes H lf (Suc k) (DataFile_AddData (node_hash H lf (nheight k) k) f)"
proof -
  have ok: "df_ok 32 f" and w: "df_working 32 f = map (\<lambda>i. node_hash H lf (nheight i) i) [0..<k]"
    using assms(1) by (simp_all add: holds_nodes_def)
  have "length (file_contents (d_file f)) + 32 < 2 ^ 64"
    using df_contents_length [OF ok] assms(2) by (simp add: w)
  then show ?thesis
    using hash_store.add_inv [OF ok] hash_store.add_view [OF ok] length_node_hash [OF assms(3)] w
    by (simp add: holds_nodes_def)
qed

lemma holds_nodes_get:
  assumes "holds_nodes H lf k f" and "i < k" and "k < 2 ^ 64"
  shows "DataFile_GetDataAt 32 (of_nat i) f = Inr (node_hash H lf (nheight i) i)"
  using hash_store.get_view [of f "of_nat i"] assms by (simp add: holds_nodes_def unat_of_nat_small)

lemma holds_nodes_size:
  "holds_nodes H lf k f \<Longrightarrow> k < 2 ^ 64 \<Longrightarrow> DataFile_GetSize 32 f = of_nat k"
  using hash_store.size_view [of f] by (simp add: holds_nodes_def word_unat_eq_iff unat_of_nat_small)

lemma AddHashes_loop_nodes:
  assumes H: "\<And>x. length (H x) = 32" and cap: "mmr_size (Suc n) * 32 < 2 ^ 64" "Suc n < 2 ^ 63"
    and pos: "mmr_size n \<le> p" "p < mmr_size (Suc n)"
    and f: "holds_nodes H lf (Suc p) f"
  shows "\<exists>f'. AddHashes_loop H None (of_nat p) (push_bit (nheight p) 1) f = (Inr (), f') \<and>
    holds_nodes H lf (mmr_size (Suc n)) f'"
  using pos f
proof (induction "mmr_size (Suc n) - p" arbitrary: p f rule: less_induct)
  case less
  have top: "mmr_size (Suc n) + 1 < 2 ^ 64" using cap by (intro mmr_size_63) simp
  have p1: "(of_nat p + 1 :: u64) = of_nat (Suc p)" by simp
  have dom: "Suc p + 1 < 2 ^ 64" using less.prems(2) top by simp
  have hgt: "unat (GetHeight (of_nat p + 1)) = nheight (Suc p)" unfolding p1 using dom by (rule nheight_GetHeight)
  show ?case
  proof (cases "Suc p = mmr_size (Suc n)")
    case True
    then have "nheight (Suc p) = 0"
      using leaf_positions [OF dom] cap(2) unfolding nheight_def by (metis True)
    then have "\<not> GetHeight (of_nat p + 1) > 0" using hgt by (simp add: word_less_nat_alt)
    then show ?thesis using less.prems(3) True by (subst AddHashes_loop.simps) simp
  next
    case False
    then have lt: "Suc p < mmr_size (Suc n)" using less.prems by simp
    have hp: "nheight (Suc p) = Suc (nheight p)"
      using between_leaves [of n "Suc p"] less.prems(1) lt dom by (simp add: nheight_def)
    then have go: "GetHeight (of_nat p + 1) > 0" using hgt by (simp add: word_less_nat_alt)
    have c: "2 ^ Suc (nheight p) \<le> Suc p" using nheight_children(1) [OF dom hp] .
    have left: "of_nat (Suc p) - 2 * push_bit (nheight p) 1 = (of_nat (Suc p - 2 ^ Suc (nheight p)) :: u64)"
      using c by (simp only: of_nat_diff) (simp add: push_bit_eq_mult)
    have "Suc p - 2 ^ Suc (nheight p) < Suc p" by simp
    then have gl: "GetHashAt f (of_nat (Suc p - 2 ^ Suc (nheight p))) None =
        Inr (node_hash H lf (nheight p) (Suc p - 2 ^ Suc (nheight p)))"
      using holds_nodes_get [OF less.prems(3), of "Suc p - 2 ^ Suc (nheight p)"] nheight_children(3) [OF dom hp] dom
      by (simp add: GetHashAt_def del: power_Suc of_nat_diff)
    have gr: "GetHashAt f (of_nat p) None = Inr (node_hash H lf (nheight p) p)"
      using holds_nodes_get [OF less.prems(3), of p] dom by (simp add: GetHashAt_def)
    let ?f = "DataFile_AddData (node_hash H lf (nheight (Suc p)) (Suc p)) f"
    have parent: "HashParentWithIndex H (node_hash H lf (nheight p) (Suc p - 2 ^ Suc (nheight p)))
        (node_hash H lf (nheight p) p) (of_nat (Suc p)) = node_hash H lf (nheight (Suc p)) (Suc p)"
      by (simp add: hp del: power_Suc of_nat_Suc)
    have "holds_nodes H lf (Suc (Suc p)) ?f"
      using less.prems(3) H lt cap(1) by (intro holds_nodes_add) simp_all
    moreover have "mmr_size (Suc n) - Suc p < mmr_size (Suc n) - p" using lt by linarith
    moreover have "mmr_size n \<le> Suc p" using less.prems(1) by simp
    ultimately obtain f' where
      f': "AddHashes_loop H None (of_nat (Suc p)) (push_bit (nheight (Suc p)) 1) ?f = (Inr (), f')"
      "holds_nodes H lf (mmr_size (Suc n)) f'"
      using less.hyps [of "Suc p" ?f] lt by blast
    have peak: "push_bit (nheight p) 1 * 2 = (push_bit (nheight (Suc p)) 1 :: u64)"
      by (simp add: hp push_bit_eq_mult)
    have "AddHashes_loop H None (of_nat p) (push_bit (nheight p) 1) f =
        AddHashes_loop H None (of_nat (Suc p)) (push_bit (nheight (Suc p)) 1) ?f"
      using go by (subst AddHashes_loop.simps) (simp only: if_True Let_def left gl gr p1 parent peak sum.case)
    with f' show ?thesis by metis
  qed
qed

lemma mmr_size_leaf:
  assumes "n < 2 ^ 63"
  shows "nheight (mmr_size n) = 0" "unat (GetLeafIndex (of_nat (mmr_size n))) = n"
proof -
  have "mmr_size n + 1 < 2 ^ 64" using assms by (rule mmr_size_63)
  then show "nheight (mmr_size n) = 0" using leaf_positions [of "mmr_size n"] assms unfolding nheight_def by metis
  have u: "unat (of_nat n :: u64) = n" using assms by (intro unat_of_nat_small) simp
  have "GetPMMRIndex (of_nat n) = of_nat (mmr_size n)"
    using GetPMMRIndex_mmr_size [of "of_nat n"] assms u by (metis of_nat_unat_id)
  then show "unat (GetLeafIndex (of_nat (mmr_size n))) = n"
    using GetPMMRIndex_leaf(3) [of "of_nat n"] assms u by simp
qed

lemma AddHashes_nodes:
  assumes "\<And>x. length (H x) = 32" and "mmr_size (Suc n) * 32 < 2 ^ 64" "Suc n < 2 ^ 63"
    and f: "holds_nodes H lf (mmr_size n) f"
  shows "\<exists>f'. AddHashes H (lf n) None f = (Inr (), f') \<and> holds_nodes H lf (mmr_size (Suc n)) f'"
proof -
  let ?p = "mmr_size n"
  have n63: "n < 2 ^ 63" using assms(3) by simp
  note leaf = mmr_size_leaf [OF n63]
  have lt: "?p < mmr_size (Suc n)" by (rule mmr_size_Suc)
  have hash: "HashLeafWithIndex H (lf n) (of_nat ?p) = node_hash H lf (nheight ?p) ?p"
    by (simp add: leaf)
  have "holds_nodes H lf (Suc ?p) (DataFile_AddData (node_hash H lf (nheight ?p) ?p) f)"
    using f lt assms(1,2) by (intro holds_nodes_add) simp_all
  from AddHashes_loop_nodes [OF assms(1-3) le_refl lt this]
  obtain f' where "AddHashes_loop H None (of_nat ?p) (push_bit (nheight ?p) 1)
      (DataFile_AddData (node_hash H lf (nheight ?p) ?p) f) = (Inr (), f')"
    "holds_nodes H lf (mmr_size (Suc n)) f'" by blast
  moreover have "next_position f None = of_nat ?p"
    using holds_nodes_size [OF f] mmr_size_63 [OF n63] by (simp add: next_position_def)
  moreover have "push_bit (nheight ?p) 1 = (1 :: u64)" by (simp add: leaf)
  ultimately show ?thesis unfolding AddHashes_def Let_def by (simp add: hash)
qed

section \<open>The root\<close>

lemma peak_positions_bound:
  "\<forall>k\<in>set ks. 0 < k \<Longrightarrow> i \<in> set (peak_positions b ks) \<Longrightarrow> i < b + (\<Sum>k\<leftarrow>ks. 2 ^ k - 1)"
proof (induction ks arbitrary: b)
  case (Cons k ks)
  have "(2::nat) \<le> 2 ^ k" using Cons.prems(1) by (cases k) simp_all
  then have pos: "1 \<le> 2 ^ k - (1::nat)" by simp
  show ?case
  proof (cases "i = b + (2 ^ k - 1) - 1")
    case True
    then show ?thesis using pos by simp
  next
    case False
    then have "i \<in> set (peak_positions (b + (2 ^ k - 1)) ks)" using Cons.prems(2) by simp
    then have "i < b + (2 ^ k - 1) + (\<Sum>k\<leftarrow>ks. 2 ^ k - 1)" using Cons.IH [of "b + (2 ^ k - 1)"] Cons.prems(1) by simp
    then show ?thesis by (simp only: list.map sum_list.Cons add.assoc)
  qed
qed simp

lemma mountains_size:
  assumes "n < 2 ^ 63"
  shows "(\<Sum>k\<leftarrow>mountains n. 2 ^ k - 1) = mmr_size n" "\<forall>k\<in>set (mountains n). 0 < k"
  using peel_sound [OF peel_mmr_size_63 [OF assms]] by auto

lemma Root_fold:
  assumes f: "\<And>i. i \<in> set is \<Longrightarrow> DataFile_GetDataAt 32 (of_nat i) f = Inr (g i)"
    and nz: "\<And>i. i \<in> set is \<Longrightarrow> g i \<noteq> ZERO_HASH" and H: "\<And>x. H x \<noteq> ZERO_HASH"
  shows "fold (\<lambda>i r. bind_result r (Root_step H f sz None i)) (rev (map of_nat is)) (Inr ZERO_HASH) =
    Inr (bag_peaks H sz (map g is))"
  using f nz
proof (induction "is")
  case Nil
  then show ?case by simp
next
  case (Cons i "is")
  have "bag_peaks H sz (map g is) \<noteq> ZERO_HASH" if "is \<noteq> []"
    using that Cons.prems(2) H by (cases "is" rule: remdups_adj.cases) (simp_all add: HashParent_bytes)
  then show ?case
    using Cons by (cases "is") (simp_all add: Root_step_def GetShiftedIndex_def Let_def)
qed

lemma MMRHashUtil_Root_spec:
  assumes f: "holds_nodes H lf k f" and k: "mmr_size n \<le> k" "k < 2 ^ 64" and n: "0 < n" "n < 2 ^ 63"
    and H: "\<And>x. H x \<noteq> ZERO_HASH"
  shows "MMRHashUtil_Root H f (of_nat (mmr_size n)) None = Inr (mmr_root H lf n)"
proof -
  let ?ps = "peak_positions 0 (mountains n)"
  have u: "unat (of_nat (mmr_size n) :: u64) = mmr_size n" using n(2) by (rule unat_of_nat_mmr_size)
  then have nz: "(of_nat (mmr_size n) :: u64) \<noteq> 0" using mmr_size_pos [OF n(1)] by auto
  have "i < mmr_size n" if "i \<in> set ?ps" for i
    using peak_positions_bound [OF mountains_size(2) [OF n(2)] that] mountains_size(1) [OF n(2)] by simp
  then have get: "DataFile_GetDataAt 32 (of_nat i) f = Inr (node_hash H lf (nheight i) i)" if "i \<in> set ?ps" for i
    using holds_nodes_get [OF f _ k(2), of i] k(1) that by fastforce
  have hz: "node_hash H lf (nheight i) i \<noteq> ZERO_HASH" for i
    by (cases "nheight i") (simp_all add: H HashLeaf_bytes HashParent_bytes)
  show ?thesis
    unfolding MMRHashUtil_Root_def mmr_root_def peaks_complete [OF n]
    using nz Root_fold [OF get hz H] by simp
qed

section \<open>Binding\<close>

text \<open>Equal node hashes mean equal leaves below, or a collision of the hash function.\<close>

lemma no_collision: "\<not> collision H \<Longrightarrow> H x = H y \<Longrightarrow> x = y"
  by (auto simp add: collision_def)

lemma HashParent_injective:
  assumes "HashParentWithIndex H l r i = HashParentWithIndex H l' r' i" and "length l = length l'" and "\<not> collision H"
  shows "l = l' \<and> r = r'"
  using assms(1,2) by (auto simp add: HashParent_bytes dest!: no_collision [OF assms(3)])

lemma node_hash_binding:
  assumes H: "\<And>x. length (H x) = 32" and nc: "\<not> collision H"
  shows "node_hash H lf (nheight i) i = node_hash H lf' (nheight i) i \<Longrightarrow> i + 1 < 2 ^ 64 \<Longrightarrow>
    (\<forall>q\<in>subtree i. nheight q = 0 \<longrightarrow> lf (unat (GetLeafIndex (of_nat q))) = lf' (unat (GetLeafIndex (of_nat q))))"
proof (induction "nheight i" arbitrary: i)
  case 0
  have z: "nheight i = 0" using 0(1) by simp
  have "be_bytes (of_nat i :: u64) @ lf (unat (GetLeafIndex (of_nat i))) = be_bytes (of_nat i :: u64) @ lf' (unat (GetLeafIndex (of_nat i)))"
    using 0(2) unfolding z node_hash.simps HashLeaf_bytes by (rule no_collision [OF nc])
  moreover have "subtree i = {i}" by (auto simp add: subtree_def z)
  ultimately show ?case by simp
next
  case (Suc h)
  then have h: "nheight i = Suc h" by simp
  note c = nheight_children [OF Suc.prems(2) h]
  have "node_hash H lf h (i - 2 ^ Suc h) = node_hash H lf' h (i - 2 ^ Suc h) \<and> node_hash H lf h (i - 1) = node_hash H lf' h (i - 1)"
    using Suc.prems(1) unfolding h node_hash.simps by (rule HashParent_injective) (simp_all add: length_node_hash [OF H] nc)
  then have "\<forall>q\<in>subtree (i - 2 ^ Suc h) \<union> subtree (i - 1). nheight q = 0 \<longrightarrow>
      lf (unat (GetLeafIndex (of_nat q))) = lf' (unat (GetLeafIndex (of_nat q)))"
    using Suc.hyps(1) [of "i - 2 ^ Suc h"] Suc.hyps(1) [of "i - 1"] c Suc.prems(2) by auto
  then show ?case unfolding subtree_split [OF Suc.prems(2) h] using h by auto
qed

lemma bag_peaks_injective:
  assumes H: "\<And>x. length (H x) = 32" and nc: "\<not> collision H"
  shows "bag_peaks H sz ps = bag_peaks H sz qs \<Longrightarrow> length ps = length qs \<Longrightarrow>
    list_all (\<lambda>p. length p = 32) ps \<Longrightarrow> list_all (\<lambda>p. length p = 32) qs \<Longrightarrow> ps = qs"
proof (induction ps arbitrary: qs rule: induct_list012)
  case (3 p p' ps)
  then obtain q q' qs' where qs: "qs = q # q' # qs'" by (cases qs rule: remdups_adj.cases) auto
  have "p = q \<and> bag_peaks H sz (p' # ps) = bag_peaks H sz (q' # qs')"
    using 3(3) unfolding qs bag_peaks.simps by (rule HashParent_injective) (use 3 nc qs in simp_all)
  then show ?case using 3(2) [of "q' # qs'"] 3(4-6) qs by simp
next
  case (2 p)
  then obtain q where "qs = [q]" by (cases qs) auto
  with 2 show ?case by simp
qed simp

text \<open>Every node of an MMR lies below one of its peaks.\<close>

lemma peel_peak:
  "sorted_wrt (>) (pre @ [k]) \<Longrightarrow> \<forall>j\<in>set (pre @ [k]). 0 < j \<and> j \<le> Suc K \<Longrightarrow> \<forall>j\<in>set pre. j \<le> K \<Longrightarrow>
     snd (peel K ((\<Sum>j\<leftarrow>pre. 2 ^ j - 1) + (2 ^ k - 2))) = k - 1"
proof (induction K arbitrary: pre)
  case 0
  then have "pre = []" "k = 1" by (cases pre; auto)+
  then show ?case by simp
next
  case (Suc K)
  obtain k' where k: "k = Suc k'" using Suc.prems(2) by (cases k) auto
  show ?case
  proof (cases pre)
    case Nil
    have "(2 ^ k - 2 :: nat) < 2 ^ Suc k' - 1" using two_power_Suc [of k'] unfolding k by linarith
    moreover have "k' \<le> Suc K" using Suc.prems(2) k by simp
    ultimately have "peel (Suc K) (2 ^ k - 2) = peel k' (2 ^ k - 2)" by (rule peel_mono)
    then show ?thesis using Nil k peel_root [of k' 0] by (simp del: peel.simps)
  next
    case (Cons a pre')
    let ?S = "\<Sum>j\<leftarrow>pre'. 2 ^ j - (1::nat)"
    have two: "(2::nat) \<le> 2 ^ k" using k by simp
    have prem': "sorted_wrt (>) (pre' @ [k])" "k < a" "\<forall>j\<in>set pre'. j < a" using Suc.prems(1) Cons by (auto simp: sorted_wrt_append)
    show ?thesis
    proof (cases "a = Suc K")
      case True
      have "(2 ^ Suc K - 1) + (?S + (2 ^ k - 2)) - (2 ^ Suc K - 1) = ?S + (2 ^ k - 2)" by simp
      moreover have "(\<Sum>j\<leftarrow>pre. 2 ^ j - 1) + (2 ^ k - 2) = (2 ^ Suc K - 1) + (?S + (2 ^ k - 2))"
        by (simp only: Cons True list.map sum_list.Cons add.assoc)
      ultimately have "snd (peel (Suc K) ((\<Sum>j\<leftarrow>pre. 2 ^ j - 1) + (2 ^ k - 2))) = snd (peel K (?S + (2 ^ k - 2)))"
        using peel_take(1) [of K "(2 ^ Suc K - 1) + (?S + (2 ^ k - 2))"] by simp
      moreover have "\<forall>j\<in>set (pre' @ [k]). 0 < j \<and> j \<le> Suc K" "\<forall>j\<in>set pre'. j \<le> K"
        using prem' Suc.prems(2) True Cons by auto
      ultimately show ?thesis using Suc.IH [OF prem'(1)] by simp
    next
      case False
      have le: "\<forall>j\<in>set (pre @ [k]). 0 < j \<and> j \<le> Suc K"
        using Suc.prems(2,3) prem'(2) Cons by (auto intro: less_imp_le order_trans)
      then have "a \<le> K" using False Cons by simp
      have "\<forall>j\<in>set (pre @ [k]). 0 < j \<and> j \<le> a" using le prem' Cons by auto
      from sum_distinct_powers [OF Suc.prems(1) this]
      have N: "(\<Sum>j\<leftarrow>pre @ [k]. 2 ^ (j - 1)) < (2::nat) ^ a"
        "mmr_size (\<Sum>j\<leftarrow>pre @ [k]. 2 ^ (j - 1)) = (\<Sum>j\<leftarrow>pre @ [k]. 2 ^ j - 1)" by auto
      have "(\<Sum>j\<leftarrow>pre @ [k]. 2 ^ j - (1::nat)) < 2 ^ Suc a - 1" using mmr_size_less [OF N(1)] N(2) by simp
      moreover have "(\<Sum>j\<leftarrow>pre @ [k]. 2 ^ j - (1::nat)) = (\<Sum>j\<leftarrow>pre. 2 ^ j - 1) + (2 ^ k - 1)" by simp
      moreover have "(2::nat) ^ Suc a \<le> 2 ^ Suc K" using \<open>a \<le> K\<close> by (intro power_increasing) auto
      ultimately have "(\<Sum>j\<leftarrow>pre. 2 ^ j - 1) + (2 ^ k - 2) < 2 ^ Suc K - (1::nat)" using two by linarith
      then have "peel (Suc K) ((\<Sum>j\<leftarrow>pre. 2 ^ j - 1) + (2 ^ k - 2)) = peel K ((\<Sum>j\<leftarrow>pre. 2 ^ j - 1) + (2 ^ k - 2))"
        by (rule peel_skip)
      moreover have "\<forall>j\<in>set pre. j \<le> K" using \<open>a \<le> K\<close> prem'(3) Cons by auto
      moreover have "\<forall>j\<in>set (pre @ [k]). 0 < j \<and> j \<le> Suc K" by (rule le)
      ultimately show ?thesis using Suc.IH [OF Suc.prems(1)] by simp
    qed
  qed
qed

lemma nheight_peak:
  assumes "sorted_wrt (>) (pre @ [k])" and "\<forall>j\<in>set (pre @ [k]). 0 < j \<and> j \<le> 63"
  shows "nheight ((\<Sum>j\<leftarrow>pre. 2 ^ j - 1) + (2 ^ k - 1) - 1) = k - 1"
proof -
  let ?i = "(\<Sum>j\<leftarrow>pre. 2 ^ j - 1) + (2 ^ k - 1) - (1::nat)"
  have two: "(2::nat) \<le> 2 ^ k" using assms(2) by (cases k) simp_all
  have N: "(\<Sum>j\<leftarrow>pre @ [k]. 2 ^ (j - 1)) < (2::nat) ^ 63"
    "mmr_size (\<Sum>j\<leftarrow>pre @ [k]. 2 ^ (j - 1)) = (\<Sum>j\<leftarrow>pre @ [k]. 2 ^ j - 1)"
    using sum_distinct_powers [OF assms] by auto
  have "(\<Sum>j\<leftarrow>pre @ [k]. 2 ^ j - (1::nat)) = (\<Sum>j\<leftarrow>pre. 2 ^ j - 1) + (2 ^ k - 1)" by simp
  then have "?i < 2 ^ Suc 63 - 1" using mmr_size_less [OF N(1)] N(2) by linarith
  then have "nheight ?i = snd (peel 63 ?i)" using peel_height [of ?i 63] by (simp add: nheight_def)
  moreover have "?i = (\<Sum>j\<leftarrow>pre. 2 ^ j - 1) + (2 ^ k - 2)" using two by linarith
  ultimately show ?thesis using peel_peak [OF assms(1), of 63] assms(2) by fastforce
qed

lemma peaks_cover:
  assumes "sorted_wrt (>) (pre @ post)" and "\<forall>j\<in>set (pre @ post). 0 < j \<and> j \<le> 63"
    and "b = (\<Sum>j\<leftarrow>pre. 2 ^ j - 1)" and "b \<le> i" and "i < b + (\<Sum>j\<leftarrow>post. 2 ^ j - 1)"
  shows "\<exists>p\<in>set (peak_positions b post). i \<in> subtree p"
  using assms
proof (induction post arbitrary: pre b)
  case (Cons k post)
  let ?p = "b + (2 ^ k - 1) - 1"
  have two: "(2::nat) \<le> 2 ^ k" using Cons.prems(2) by (cases k) auto
  show ?case
  proof (cases "i \<le> ?p")
    case True
    have "nheight ?p = k - 1"
      unfolding Cons.prems(3) using Cons.prems(1,2) by (intro nheight_peak) (auto simp: sorted_wrt_append)
    moreover have "Suc (k - 1) = k" using Cons.prems(2) by simp
    ultimately have "subtree ?p = {?p + 2 - 2 ^ k..?p}" by (simp only: subtree_def)
    moreover have "?p + 2 - 2 ^ k = b" using two by linarith
    ultimately show ?thesis using True Cons.prems(4) by simp
  next
    case False
    have "\<exists>p\<in>set (peak_positions (b + (2 ^ k - 1)) post). i \<in> subtree p"
    proof (rule Cons.IH [of "pre @ [k]"])
      show "b + (2 ^ k - 1) = (\<Sum>j\<leftarrow>pre @ [k]. 2 ^ j - 1)" by (simp add: Cons.prems(3))
      show "b + (2 ^ k - 1) \<le> i" using False by linarith
      show "i < b + (2 ^ k - 1) + (\<Sum>j\<leftarrow>post. 2 ^ j - 1)" using Cons.prems(5) by (simp only: list.map sum_list.Cons add.assoc)
    qed (use Cons.prems(1,2) in auto)
    then show ?thesis by auto
  qed
qed simp

lemma mountains_sorted:
  assumes "n < 2 ^ 63"
  shows "sorted_wrt (>) (mountains n)" "\<forall>j\<in>set (mountains n). 0 < j \<and> j \<le> 63"
  using peel_sound [OF peel_mmr_size_63 [OF assms]] by auto

lemma mmr_root_binding:
  assumes H: "\<And>x. length (H x) = 32" and nc: "\<not> collision H" and n: "n < 2 ^ 63"
    and eq: "mmr_root H lf n = mmr_root H lf' n" and j: "j < n"
  shows "lf j = lf' j"
proof -
  let ?ps = "peak_positions 0 (mountains n)"
  have "map (\<lambda>i. node_hash H lf (nheight i) i) ?ps = map (\<lambda>i. node_hash H lf' (nheight i) i) ?ps"
    using eq unfolding mmr_root_def
    by (rule bag_peaks_injective [OF H nc]) (simp_all add: list_all_iff length_node_hash [OF H])
  then have peaks: "node_hash H lf (nheight p) p = node_hash H lf' (nheight p) p" if "p \<in> set ?ps" for p
    using that by simp
  have "mmr_size j < mmr_size n" using j by (rule mmr_size_mono)
  then obtain p where p: "p \<in> set ?ps" "mmr_size j \<in> subtree p"
    using peaks_cover [of "[]" "mountains n" 0 "mmr_size j"] mountains_sorted [OF n] mountains_size(1) [OF n] by auto
  have "p < mmr_size n"
    using peak_positions_bound [OF mountains_size(2) [OF n] p(1)] mountains_size(1) [OF n] by simp
  then have "p + 1 < 2 ^ 64" using mmr_size_63 [OF n] by simp
  have j63: "j < 2 ^ 63" using j n by simp
  have "lf (unat (GetLeafIndex (of_nat (mmr_size j)))) = lf' (unat (GetLeafIndex (of_nat (mmr_size j))))"
    using node_hash_binding [OF H nc peaks [OF p(1)] \<open>p + 1 < 2 ^ 64\<close>] p(2) mmr_size_leaf(1) [OF j63] by blast
  then show ?thesis unfolding mmr_size_leaf(2) [OF j63] .
qed

section \<open>Properties of hashed MMRs\<close>

text \<open>A hash file filled leaf by leaf.\<close>

fun AddAll :: "hash_fn \<Rightarrow> u8 list list \<Rightarrow> data_file \<Rightarrow> unit result \<times> data_file" where
  "AddAll H [] f = (Inr (), f)"
| "AddAll H (l # ls) f =
     (case AddHashes H l None f of (Inl e, f') \<Rightarrow> (Inl e, f') | (Inr _, f') \<Rightarrow> AddAll H ls f')"

lemma AddAll_append:
  "AddAll H (xs @ ys) f = (case AddAll H xs f of (Inl e, f') \<Rightarrow> (Inl e, f') | (Inr _, f') \<Rightarrow> AddAll H ys f')"
  by (induction xs arbitrary: f) (auto split: prod.splits sum.splits)

lemma df_load_empty:
  "0 < n \<Longrightarrow> n < 2 ^ 64 \<Longrightarrow> df_ok n (DataFile_Load [])"
  "df_working n (DataFile_Load []) = []" "df_durable n (DataFile_Load []) = []"
  by (simp_all add: df_ok_def df_working_def df_durable_def DataFile_Load_def AppendOnlyFile_Load_def file_ok_def
      file_contents_def)

lemma AddAll_nodes:
  assumes "\<And>x. length (H x) = 32" and "mmr_size (length ls) * 32 < 2 ^ 64" "length ls < 2 ^ 63"
    and f: "df_ok 32 f" "df_working 32 f = []"
  shows "\<exists>f'. AddAll H ls f = (Inr (), f') \<and> holds_nodes H (\<lambda>i. ls ! i) (mmr_size (length ls)) f'"
proof -
  have "\<exists>f'. AddAll H (take n ls) f = (Inr (), f') \<and> holds_nodes H (\<lambda>i. ls ! i) (mmr_size n) f'" if "n \<le> length ls" for n
    using that
  proof (induction n)
    case 0
    then show ?case using f by (simp add: holds_nodes_def)
  next
    case (Suc n)
    then obtain f' where f': "AddAll H (take n ls) f = (Inr (), f')" "holds_nodes H (\<lambda>i. ls ! i) (mmr_size n) f'" by auto
    have "mmr_size (Suc n) \<le> mmr_size (length ls)"
      using Suc.prems mmr_size_mono [of "Suc n" "length ls"] by (cases "Suc n = length ls") auto
    then have "mmr_size (Suc n) * 32 < 2 ^ 64" using assms(2) by linarith
    from AddHashes_nodes [OF assms(1) this _ f'(2)] obtain f'' where
      "AddHashes H (ls ! n) None f' = (Inr (), f'')" "holds_nodes H (\<lambda>i. ls ! i) (mmr_size (Suc n)) f''"
      using Suc.prems assms(3) by auto
    then show ?case
      using Suc.prems f'(1) by (simp add: take_Suc_conv_app_nth AddAll_append)
  qed
  from this [OF le_refl] show ?thesis by simp
qed

text \<open>A concrete function with results of 32 bytes, none of them zero, that truncates its input:
  an instance of what the theorems ask of the hash function.\<close>

definition sample_hash :: hash_fn where
  "sample_hash x = 1 # take 31 (x @ replicate 31 0)"

lemma sample_hash_laws: "length (sample_hash x) = 32" "sample_hash x \<noteq> ZERO_HASH"
  by (simp_all add: sample_hash_def ZERO_HASH_def numeral_eq_Suc)





section \<open>PruneableMMR\<close>

text \<open>An MMR of \<open>n\<close> leaves with nothing compacted: the hash file holds the nodes, the data
  file the serialized leaves, the leaf set some of the leaves.\<close>

definition pl_empty :: prune_list where
  "pl_empty = \<lparr>pl_prunedRoots = [], pl_prunedCache = [], pl_shiftCache = [], pl_leafShiftCache = []\<rparr>"

definition pmmr_ok :: "hash_fn \<Rightarrow> nat \<Rightarrow> (nat \<Rightarrow> u8 list) \<Rightarrow> nat \<Rightarrow> pmmr \<Rightarrow> bool" where
  "pmmr_ok H D lf n m \<longleftrightarrow>
     pm_pruneList m = pl_empty \<and> holds_nodes H lf (mmr_size n) (pm_hashFile m) \<and>
     df_ok D (pm_dataFile m) \<and> df_working D (pm_dataFile m) = map lf [0..<n] \<and>
     bm_ok (pm_leafSet m) \<and> (\<forall>i\<in>bm_members (pm_leafSet m). unat i < n) \<and>
     mmr_size n * 32 < 2 ^ 64 \<and> n < 2 ^ 63"

definition unspent :: "pmmr \<Rightarrow> u64 set" where
  "unspent m = bm_members (pm_leafSet m)"

lemma pl_empty_simps [simp]:
  "GetShift p pl_empty = 0" "GetLeafShift p pl_empty = 0" "GetTotalShift pl_empty = 0"
  "\<not> IsCompacted p pl_empty"
  by (simp_all add: pl_empty_def GetShift_def GetLeafShift_def GetTotalShift_def IsCompacted_def IsPruned_def
      Roaring_contains_def)

lemma GetHashAt_pl_empty: "GetHashAt f i (Some pl_empty) = GetHashAt f i None"
  by (simp add: GetHashAt_def)

lemma AddHashes_loop_pl_empty: "AddHashes_loop H (Some pl_empty) p k f = AddHashes_loop H None p k f"
proof (induction H "None :: prune_list option" p k f rule: AddHashes_loop.induct)
  case (1 H p k f)
  then show ?case
    by (subst (1 2) AddHashes_loop.simps) (simp add: GetHashAt_pl_empty Let_def split: sum.splits)
qed

lemma AddHashes_pl_empty: "AddHashes H l (Some pl_empty) f = AddHashes H l None f"
  by (simp add: AddHashes_def next_position_def AddHashes_loop_pl_empty)

lemma PMMR_GetSize_ok: "pmmr_ok H D lf n m \<Longrightarrow> PMMR_GetSize m = of_nat (mmr_size n)"
  using mmr_size_63 [of n] holds_nodes_size [of H lf "mmr_size n" "pm_hashFile m"]
  by (simp add: pmmr_ok_def PMMR_GetSize_def)

lemma GetLeafIndex_size: "n < 2 ^ 63 \<Longrightarrow> GetLeafIndex (of_nat (mmr_size n)) = of_nat n"
  using mmr_size_leaf(2) [of n] by (metis of_nat_unat_id)

lemma PMMR_Append_ok:
  assumes H: "\<And>x. length (H x) = 32" and ok: "pmmr_ok H D lf n m"
    and bytes: "lf n = GetBytes (ser x (Serializer_new V1))" "length (lf n) = D"
    and room: "mmr_size (Suc n) * 32 < 2 ^ 64" "Suc n < 2 ^ 63" "Suc n * D < 2 ^ 64"
  shows "\<exists>m'. PMMR_Append H ser x m = (Inr (), m') \<and> pmmr_ok H D lf (Suc n) m' \<and>
    unspent m' = insert (of_nat n) (unspent m)"
proof -
  have n63: "n < 2 ^ 63" using room(2) by simp
  have nodes: "holds_nodes H lf (mmr_size n) (pm_hashFile m)" and pl: "pm_pruneList m = pl_empty"
    and d: "df_ok D (pm_dataFile m)" "df_working D (pm_dataFile m) = map lf [0..<n]"
    and bm: "bm_ok (pm_leafSet m)" using ok by (simp_all add: pmmr_ok_def)
  obtain f where f: "AddHashes H (lf n) None (pm_hashFile m) = (Inr (), f)" "holds_nodes H lf (mmr_size (Suc n)) f"
    using AddHashes_nodes [of H, OF H room(1,2) nodes] by blast
  have idx: "GetLeafIndex (DataFile_GetSize 32 (pm_hashFile m)) = of_nat n"
    using holds_nodes_size [OF nodes] mmr_size_63 [OF n63] GetLeafIndex_size [OF n63] by simp
  let ?m = "m\<lparr>pm_dirty := True, pm_leafSet := LeafSet_Add (of_nat n) (pm_leafSet m),
      pm_dataFile := DataFile_AddData (lf n) (pm_dataFile m), pm_hashFile := f\<rparr>"
  have "PMMR_Append H ser x m = (Inr (), ?m)"
    using f(1) idx bytes(1) pl by (simp add: PMMR_Append_def Let_def AddHashes_pl_empty)
  moreover have "length (file_contents (d_file (pm_dataFile m))) + D < 2 ^ 64"
    using df_contents_length [OF d(1)] d(2) room(3) by simp
  then have "df_ok D (DataFile_AddData (lf n) (pm_dataFile m))"
    "df_working D (DataFile_AddData (lf n) (pm_dataFile m)) = map lf [0..<Suc n]"
    using df_add [OF d(1)] bytes(2) d(2) by simp_all
  moreover have "bm_ok (LeafSet_Add (of_nat n) (pm_leafSet m)) \<and>
      bm_members (LeafSet_Add (of_nat n) (pm_leafSet m)) = insert (of_nat n) (bm_members (pm_leafSet m))"
    using bitmap_leaves.add_members [OF bm] .
  moreover have "unat (of_nat n :: u64) = n" using n63 by (intro unat_of_nat_small) simp
  ultimately show ?thesis
    using ok f(2) room by (auto simp add: pmmr_ok_def unspent_def less_Suc_eq)
qed

lemma IsUnpruned_iff:
  assumes ok: "pmmr_ok H D lf n m" and i: "i < n"
  shows "IsUnpruned (of_nat (mmr_size i)) m \<longleftrightarrow> of_nat i \<in> unspent m"
proof -
  have n63: "n < 2 ^ 63" "i < 2 ^ 63" using ok i by (simp_all add: pmmr_ok_def)
  have "unat (of_nat i :: u64) = i" using n63 by (intro unat_of_nat_small) simp
  then have "GetPMMRIndex (of_nat i) = of_nat (mmr_size i)"
    using GetPMMRIndex_mmr_size [of "of_nat i"] n63 by (metis of_nat_unat_id)
  then have "IsLeaf (of_nat (mmr_size i))"
    using GetPMMRIndex_leaf(2) [of "of_nat i"] n63 \<open>unat (of_nat i) = i\<close> by simp
  moreover have "of_nat (mmr_size i) < PMMR_GetSize m"
    using PMMR_GetSize_ok [OF ok] mmr_size_mono [OF i] unat_of_nat_mmr_size n63 by (simp add: word_less_nat_alt)
  ultimately show ?thesis
    using GetLeafIndex_size [OF n63(2)] by (simp add: IsUnpruned_def unspent_def bitmap_leaves.contains_members)
qed

lemma GetNumLeaves_size:
  assumes "Suc i < 2 ^ 63"
  shows "GetNumLeaves (of_nat (mmr_size i)) = of_nat (Suc i)"
proof -
  have "unat (of_nat (mmr_size i) :: u64) = mmr_size i" using assms by (intro unat_of_nat_mmr_size) simp
  then have "unat (GetNumLeaves (of_nat (mmr_size i))) = Suc i"
    using nodes_and_leaves [of i "of_nat (mmr_size i)"] mmr_size_Suc [of i] assms by simp
  then show ?thesis by (metis of_nat_unat_id)
qed

lemma PMMR_GetAt_ok:
  assumes ok: "pmmr_ok H D lf n m" and i: "i < n"
  shows "PMMR_GetAt D des (of_nat (mmr_size i)) m =
    (if of_nat i \<in> unspent m then bind_result (des (ByteBuffer_new (lf i) V1)) (\<lambda>(x, _). Inr (Some x)) else Inr None)"
proof -
  have n63: "Suc i < 2 ^ 63" using ok i by (simp add: pmmr_ok_def)
  have d: "df_ok D (pm_dataFile m)" "df_working D (pm_dataFile m) = map lf [0..<n]"
    and pl: "pm_pruneList m = pl_empty" using ok by (simp_all add: pmmr_ok_def)
  have u: "unat (of_nat i :: u64) = i" using n63 by (intro unat_of_nat_small) simp
  have get: "DataFile_GetDataAt D (of_nat i) (pm_dataFile m) = Inr (lf i)"
    using df_get [OF d(1), of "of_nat i"] d(2) u i by simp
  have "length (lf i) = D"
  proof -
    have "list_all (\<lambda>b. length b = D) (map lf [0..<n])" using blocks_lengths d(2) unfolding df_working_def by metis
    then show ?thesis using i by (simp add: list_all_iff)
  qed
  then show ?thesis
    using IsUnpruned_iff [OF ok i] GetNumLeaves_size [OF n63] get pl by (simp add: PMMR_GetAt_def Let_def)
qed

lemma PMMR_Remove_ok:
  assumes ok: "pmmr_ok H D lf n m" and i: "i < n"
  shows "of_nat i \<in> unspent m \<Longrightarrow> fst (PMMR_Remove (of_nat (mmr_size i)) m) = Inr ()"
    and "of_nat i \<notin> unspent m \<Longrightarrow> fst (PMMR_Remove (of_nat (mmr_size i)) m) = Inl TXHASHSET_EXCEPTION"
    and "pmmr_ok H D lf n (snd (PMMR_Remove (of_nat (mmr_size i)) m))"
    and "unspent (snd (PMMR_Remove (of_nat (mmr_size i)) m)) = unspent m - {of_nat i}"
proof -
  have n63: "i < 2 ^ 63" "n < 2 ^ 63" using ok i by (simp_all add: pmmr_ok_def)
  have "unat (of_nat i :: u64) = i" using n63 by (intro unat_of_nat_small) simp
  then have "GetPMMRIndex (of_nat i) = of_nat (mmr_size i)"
    using GetPMMRIndex_mmr_size [of "of_nat i"] n63 by (metis of_nat_unat_id)
  then have leaf: "IsLeaf (of_nat (mmr_size i))"
    using GetPMMRIndex_leaf(2) [of "of_nat i"] n63 \<open>unat (of_nat i) = i\<close> by simp
  have bm: "bm_ok (pm_leafSet m)" using ok by (simp add: pmmr_ok_def)
  note rm = bitmap_leaves.remove_members [OF bm]
  have eq: "PMMR_Remove (of_nat (mmr_size i)) m =
      (if of_nat i \<in> unspent m then (Inr (), m\<lparr>pm_dirty := True, pm_leafSet := LeafSet_Remove (of_nat i) (pm_leafSet m)\<rparr>)
       else (Inl TXHASHSET_EXCEPTION, m\<lparr>pm_dirty := True\<rparr>))"
    using leaf GetLeafIndex_size [OF n63(1)]
    by (simp add: PMMR_Remove_def Let_def unspent_def bitmap_leaves.contains_members)
  show "of_nat i \<in> unspent m \<Longrightarrow> fst (PMMR_Remove (of_nat (mmr_size i)) m) = Inr ()"
    and "of_nat i \<notin> unspent m \<Longrightarrow> fst (PMMR_Remove (of_nat (mmr_size i)) m) = Inl TXHASHSET_EXCEPTION"
    and "pmmr_ok H D lf n (snd (PMMR_Remove (of_nat (mmr_size i)) m))"
    and "unspent (snd (PMMR_Remove (of_nat (mmr_size i)) m)) = unspent m - {of_nat i}"
    using ok rm by (auto simp add: eq pmmr_ok_def unspent_def)
qed

lemma of_nat_distinct:
  assumes "i \<noteq> j" and "i < 2 ^ 63" and "j < 2 ^ 63"
  shows "(of_nat i :: u64) \<noteq> of_nat j"
proof
  assume "(of_nat i :: u64) = of_nat j"
  moreover have "unat (of_nat i :: u64) = i" "unat (of_nat j :: u64) = j"
    using assms by (simp_all add: unat_of_nat_small)
  ultimately show False using assms(1) by simp
qed

text \<open>What is appended to a prunable MMR is what is read back: the new object is unspent and
  \<^verbatim>\<open>GetAt\<close> at its position returns it, every earlier position reads as before, and
  the size is that of an MMR with one more leaf.\<close>

theorem PMMR_Append_GetAt:
  assumes "\<And>x. length (H x) = 32" and "pmmr_ok H D lf n m"
    and "lf n = GetBytes (ser x (Serializer_new V1))" and "length (lf n) = D"
    and "mmr_size (Suc n) * 32 < 2 ^ 64" and "Suc n < 2 ^ 63" and "Suc n * D < 2 ^ 64"
    and "des (ByteBuffer_new (lf n) V1) = Inr (x, b)"
  shows "\<exists>m'. PMMR_Append H ser x m = (Inr (), m') \<and> pmmr_ok H D lf (Suc n) m' \<and>
    PMMR_GetAt D des (PMMR_GetSize m) m' = Inr (Some x) \<and>
    (\<forall>i<n. PMMR_GetAt D des (of_nat (mmr_size i)) m' = PMMR_GetAt D des (of_nat (mmr_size i)) m)"
proof -
  from PMMR_Append_ok [of H D lf n m ser x, OF assms(1-7)] obtain m' where
    m': "PMMR_Append H ser x m = (Inr (), m')" "pmmr_ok H D lf (Suc n) m'" "unspent m' = insert (of_nat n) (unspent m)"
    by blast
  have "PMMR_GetAt D des (PMMR_GetSize m) m' = Inr (Some x)"
    using PMMR_GetAt_ok [OF m'(2), of n des] m'(3) assms(8) PMMR_GetSize_ok [OF assms(2)] by simp
  moreover have "PMMR_GetAt D des (of_nat (mmr_size i)) m' = PMMR_GetAt D des (of_nat (mmr_size i)) m" if "i < n" for i
  proof -
    have "(of_nat i :: u64) \<noteq> of_nat n" using that assms(6) by (intro of_nat_distinct) simp_all
    then show ?thesis using PMMR_GetAt_ok [OF m'(2), of i des] PMMR_GetAt_ok [OF assms(2) that, of des] that m'(3) by simp
  qed
  ultimately show ?thesis using m' by blast
qed

text \<open>A leaf is spent at most once: removing an unspent leaf succeeds, after which it can
  neither be read nor removed again, and no other leaf changes.\<close>

theorem PMMR_Remove_once:
  assumes "pmmr_ok H D lf n m" and "i < n" and "IsUnpruned (of_nat (mmr_size i)) m"
  shows "\<exists>m'. PMMR_Remove (of_nat (mmr_size i)) m = (Inr (), m') \<and>
    PMMR_GetAt D des (of_nat (mmr_size i)) m' = Inr None \<and>
    fst (PMMR_Remove (of_nat (mmr_size i)) m') = Inl TXHASHSET_EXCEPTION \<and>
    (\<forall>j<n. j \<noteq> i \<longrightarrow> PMMR_GetAt D des (of_nat (mmr_size j)) m' = PMMR_GetAt D des (of_nat (mmr_size j)) m)"
proof -
  let ?m = "snd (PMMR_Remove (of_nat (mmr_size i)) m)"
  have n63: "n < 2 ^ 63" using assms(1) by (simp add: pmmr_ok_def)
  have mem: "of_nat i \<in> unspent m" using assms(3) IsUnpruned_iff [OF assms(1,2)] by simp
  note rm = PMMR_Remove_ok [OF assms(1,2)]
  have neq: "(of_nat j :: u64) \<noteq> of_nat i" if "j < n" "j \<noteq> i" for j
    using that assms(2) n63 by (intro of_nat_distinct) simp_all
  show ?thesis
  proof (intro exI [of _ ?m] conjI allI impI)
    show "PMMR_Remove (of_nat (mmr_size i)) m = (Inr (), ?m)" using rm(1) [OF mem] by (simp add: prod_eq_iff)
    show "PMMR_GetAt D des (of_nat (mmr_size i)) ?m = Inr None"
      using PMMR_GetAt_ok [OF rm(3) assms(2)] rm(4) by simp
    show "fst (PMMR_Remove (of_nat (mmr_size i)) ?m) = Inl TXHASHSET_EXCEPTION"
      using PMMR_Remove_ok(2) [OF rm(3) assms(2)] rm(4) by simp
    show "PMMR_GetAt D des (of_nat (mmr_size j)) ?m = PMMR_GetAt D des (of_nat (mmr_size j)) m" if "j < n" "j \<noteq> i" for j
      using PMMR_GetAt_ok [OF rm(3), of j des] PMMR_GetAt_ok [OF assms(1), of j des] rm(4) neq [OF that] that by simp
  qed
qed

text \<open>An empty MMR of one-byte leaves.\<close>

definition sample_pmmr :: pmmr where
  "sample_pmmr = \<lparr>pm_dirty = False, pm_hashFile = DataFile_Load [],
     pm_leafSet = \<lparr>bm_dirty = False, bm_modifiedBytes = [], bm_mmap = []\<rparr>, pm_pruneList = pl_empty,
     pm_dataFile = DataFile_Load []\<rparr>"

lemma Append_u8_bytes: "GetBytes (Append (x :: u8) (Serializer_new V1)) = [x]"
  by (simp add: Append_bytes GetBytes_def be_bytes_def numeral_eq_Suc)

lemma sample_pmmr_ok: "pmmr_ok sample_hash 1 (\<lambda>_. [7]) 0 sample_pmmr"
  by (simp add: pmmr_ok_def sample_pmmr_def holds_nodes_def df_load_empty bm_ok_def map_ok_def bm_members_def
      BitmapFile_IsSet_def BitmapFile_GetByte_def)

theorem PMMR_Append_GetAt_witness:
  "\<exists>m'. PMMR_Append sample_hash Append (7 :: u8) sample_pmmr = (Inr (), m') \<and>
     PMMR_GetAt 1 ReadU8 0 m' = Inr (Some 7)"
proof -
  have "PMMR_GetSize sample_pmmr = 0" by code_simp
  moreover have "mmr_size (Suc 0) = 1" by code_simp
  moreover have "ReadU8 (ByteBuffer_new [7] V1) = Inr (7, snd (projr (ReadU8 (ByteBuffer_new [7] V1))))" by code_simp
  ultimately show ?thesis
    using PMMR_Append_GetAt [of sample_hash 1 "\<lambda>_. [7]" 0 sample_pmmr Append 7 ReadU8,
      OF sample_hash_laws(1) sample_pmmr_ok] by (auto simp: Append_u8_bytes)
qed

lemma sample_append_ok:
  "pmmr_ok sample_hash 1 (\<lambda>_. [7]) 1 (snd (PMMR_Append sample_hash Append (7 :: u8) sample_pmmr))"
proof -
  have "mmr_size (Suc 0) = 1" by code_simp
  then show ?thesis
    using PMMR_Append_ok [of sample_hash 1 "\<lambda>_. [7]" 0 sample_pmmr Append "7 :: u8", OF sample_hash_laws(1) sample_pmmr_ok]
    by (auto simp: Append_u8_bytes)
qed

theorem PMMR_Remove_once_witness:
  "\<exists>m'. PMMR_Remove 0 (snd (PMMR_Append sample_hash Append (7 :: u8) sample_pmmr)) = (Inr (), m') \<and>
     PMMR_GetAt 1 ReadU8 0 m' = Inr None \<and> fst (PMMR_Remove 0 m') = Inl TXHASHSET_EXCEPTION"
proof -
  have "IsUnpruned 0 (snd (PMMR_Append sample_hash Append (7 :: u8) sample_pmmr))" by code_simp
  moreover have "mmr_size 0 = 0" by code_simp
  ultimately show ?thesis using PMMR_Remove_once [OF sample_append_ok, of 0 ReadU8] by auto
qed

section \<open>Batches of a prunable MMR\<close>

definition pmmr_inv :: "nat \<Rightarrow> pmmr \<Rightarrow> bool" where
  "pmmr_inv D m \<longleftrightarrow> df_ok 32 (pm_hashFile m) \<and> df_ok D (pm_dataFile m) \<and> bm_ok (pm_leafSet m) \<and>
     (pm_dirty m \<or> df_working 32 (pm_hashFile m) = df_durable 32 (pm_hashFile m) \<and>
        df_working D (pm_dataFile m) = df_durable D (pm_dataFile m) \<and>
        bm_members (pm_leafSet m) = bm_durable (pm_leafSet m))"

definition pmmr_working :: "nat \<Rightarrow> pmmr \<Rightarrow> u8 list list \<times> u8 list list \<times> u64 set" where
  "pmmr_working D m = (df_working 32 (pm_hashFile m), df_working D (pm_dataFile m), bm_members (pm_leafSet m))"

definition pmmr_durable :: "nat \<Rightarrow> pmmr \<Rightarrow> u8 list list \<times> u8 list list \<times> u64 set" where
  "pmmr_durable D m = (df_durable 32 (pm_hashFile m), df_durable D (pm_dataFile m), bm_durable (pm_leafSet m))"

lemma PMMR_Commit_eq:
  assumes "df_ok 32 (pm_hashFile m)" "df_ok D (pm_dataFile m)"
  shows "PMMR_Commit True True m =
    (Inr (), if pm_dirty m then m\<lparr>pm_hashFile := snd (DataFile_Commit True True (pm_hashFile m)),
        pm_dataFile := snd (DataFile_Commit True True (pm_dataFile m)),
        pm_leafSet := LeafSet_Commit (pm_leafSet m), pm_dirty := False\<rparr> else m)"
proof -
  obtain h d where "DataFile_Commit True True (pm_hashFile m) = (Inr (), h)"
    and "DataFile_Commit True True (pm_dataFile m) = (Inr (), d)"
    using df_commit(1) [OF assms(1)] df_commit(1) [OF assms(2)] by (metis prod.collapse)
  then show ?thesis by (simp add: PMMR_Commit_def)
qed

interpretation pmmr_batch: batchable "pmmr_inv D" "pmmr_working D" "pmmr_durable D"
  "\<lambda>m. snd (PMMR_Commit True True m)" PMMR_Rollback for D
proof unfold_locales
  fix m :: pmmr assume inv: "pmmr_inv D m"
  then have ok: "df_ok 32 (pm_hashFile m)" "df_ok D (pm_dataFile m)" "bm_ok (pm_leafSet m)"
    by (simp_all add: pmmr_inv_def)
  note c = PMMR_Commit_eq [OF ok(1,2)] df_commit [OF ok(1)] df_commit [OF ok(2)]
    bitmap_leaves.commit_inv [OF ok(3)] bitmap_leaves.commit_working [OF ok(3)] bitmap_leaves.commit_durable [OF ok(3)]
  note r = df_rollback [OF ok(1)] df_rollback [OF ok(2)]
    bitmap_leaves.rollback_inv [OF ok(3)] bitmap_leaves.rollback_working [OF ok(3)] bitmap_leaves.rollback_durable [OF ok(3)]
  show "pmmr_inv D (snd (PMMR_Commit True True m))" using inv c by (auto simp add: pmmr_inv_def)
  show "pmmr_working D (snd (PMMR_Commit True True m)) = pmmr_working D m" using c by (simp add: pmmr_working_def)
  show "pmmr_durable D (snd (PMMR_Commit True True m)) = pmmr_working D m"
    using inv c by (auto simp add: pmmr_working_def pmmr_durable_def pmmr_inv_def)
  show "pmmr_inv D (PMMR_Rollback m)" using inv r by (auto simp add: pmmr_inv_def PMMR_Rollback_def)
  show "pmmr_working D (PMMR_Rollback m) = pmmr_durable D m"
    using inv r by (auto simp add: pmmr_working_def pmmr_durable_def pmmr_inv_def PMMR_Rollback_def)
  show "pmmr_durable D (PMMR_Rollback m) = pmmr_durable D m"
    using r by (simp add: pmmr_durable_def PMMR_Rollback_def)
qed

text \<open>Committing a batch makes the hashes, the data and the leaf set durable together, and
  rolling back later returns to exactly that state.\<close>

theorem PMMR_Commit_durable:
  assumes "pmmr_inv D m"
  shows "fst (PMMR_Commit True True m) = Inr () \<and>
    pmmr_durable D (snd (PMMR_Commit True True m)) = pmmr_working D m \<and>
    pmmr_working D (PMMR_Rollback (snd (PMMR_Commit True True m))) = pmmr_working D m"
  using assms pmmr_batch.commit_durable [OF assms] pmmr_batch.commit_then_rollback [OF assms]
    PMMR_Commit_eq [of m D] by (simp add: pmmr_inv_def)

theorem PMMR_Commit_durable_witness:
  "pmmr_durable 1 (snd (PMMR_Commit True True (snd (PMMR_Append sample_hash Append (7 :: u8) sample_pmmr)))) =
     ([node_hash sample_hash (\<lambda>_. [7]) 0 0], [[7]], {0})"
proof -
  let ?m = "snd (PMMR_Append sample_hash Append (7 :: u8) sample_pmmr)"
  have "pm_dirty ?m" by code_simp
  then have inv: "pmmr_inv 1 ?m"
    using sample_append_ok by (simp add: pmmr_inv_def pmmr_ok_def holds_nodes_def)
  have "unspent ?m \<subseteq> {0}" using sample_append_ok by (auto simp: pmmr_ok_def unspent_def unat_eq_zero)
  moreover have "BitmapFile_IsSet 0 (pm_leafSet ?m)" by code_simp
  ultimately have "bm_members (pm_leafSet ?m) = {0}" by (auto simp: unspent_def bm_members_def)
  moreover have "mmr_size 1 = 1" by code_simp
  moreover have "nheight 0 = 0" using power_increasing [of 2 "Suc (nheight 0)" "2 :: nat"] nheight_bounds(2) [of 0]
    by (cases "nheight 0 = 0") auto
  ultimately have "pmmr_working 1 ?m = ([node_hash sample_hash (\<lambda>_. [7]) 0 0], [[7]], {0})"
    using sample_append_ok by (simp add: pmmr_ok_def holds_nodes_def pmmr_working_def)
  then show ?thesis using PMMR_Commit_durable [OF inv] by simp
qed

end
