(* ===== verification/Tx_Models.thy ===== *)
theory Tx_Models
  imports Serialization Consensus MMR_Hash
begin

text \<open>
  The transaction data model (\<^verbatim>\<open>include/Core/Models\<close>, \<^verbatim>\<open>include/Crypto\<close>):
  features, commitments, range proofs, signatures, blinding factors, inputs, outputs, kernels,
  transaction bodies and transactions, with their wire formats.

  A \<^verbatim>\<open>CBigInteger<N>\<close> is the list of its \<open>N\<close> bytes. A class that caches its hash
  (\<^verbatim>\<open>m_hash\<close>) has the cached value as a field, so that a constructor that does not
  compute it is visible. The two feature enumerations are bytes, because
  \<^verbatim>\<open>Deserialize\<close> casts every byte to them. Blake2b is the parameter \<open>H\<close>.
\<close>

section \<open>CBigInteger\<close>

type_synonym big_integer = "u8 list"

definition BigInteger_new :: "nat \<Rightarrow> big_integer" where
  "BigInteger_new n = replicate n 0"

definition BigInteger_ValueOf :: "nat \<Rightarrow> u8 \<Rightarrow> big_integer" where
  "BigInteger_ValueOf n value = (replicate n 0)[n - 1 := value]"

definition BigInteger_GetMaximumValue :: "nat \<Rightarrow> big_integer" where
  "BigInteger_GetMaximumValue n = map (\<lambda>i. 0xFF) [0..<n]"

definition BigInteger_xor :: "big_integer \<Rightarrow> big_integer \<Rightarrow> big_integer" where
  "BigInteger_xor x y = map2 (XOR) x y"

text \<open>\<^verbatim>\<open>operator++\<close>: the loop variable is unsigned, so on a value of only
  \<^verbatim>\<open>0xff\<close> bytes it runs past the first byte. The list is traversed from its last byte.\<close>

fun increment_loop :: "u8 list \<Rightarrow> u8 list result" where
  "increment_loop [] = Inl UNDEFINED_BEHAVIOUR"
| "increment_loop (b # bs) =
     (if b = 0xFF then bind_result (increment_loop bs) (\<lambda>bs. Inr (0 # bs)) else Inr ((b + 1) # bs))"

definition BigInteger_increment :: "big_integer \<Rightarrow> big_integer result" where
  "BigInteger_increment x = bind_result (increment_loop (rev x)) (\<lambda>y. Inr (rev y))"

fun BigInteger_less :: "big_integer \<Rightarrow> big_integer \<Rightarrow> bool" where
  "BigInteger_less (x # xs) (y # ys) = (if y \<noteq> x then x < y else BigInteger_less xs ys)"
| "BigInteger_less _ _ = False"

definition BigInteger_eq :: "nat \<Rightarrow> big_integer \<Rightarrow> big_integer \<Rightarrow> bool" where
  "BigInteger_eq n x y \<longleftrightarrow> (\<forall>i<n. x ! i = y ! i)"

definition BigInteger_greater :: "big_integer \<Rightarrow> big_integer \<Rightarrow> bool" where
  "BigInteger_greater x y \<longleftrightarrow> BigInteger_less y x"

definition BigInteger_le :: "nat \<Rightarrow> big_integer \<Rightarrow> big_integer \<Rightarrow> bool" where
  "BigInteger_le n x y \<longleftrightarrow> BigInteger_less x y \<or> BigInteger_eq n x y"

section \<open>Features\<close>

type_synonym output_features = u8

definition DEFAULT :: output_features where "DEFAULT = 0"
definition COINBASE_OUTPUT :: output_features where "COINBASE_OUTPUT = 1"

definition OutputFeatures_ToString :: "output_features \<Rightarrow> string" where
  "OutputFeatures_ToString f =
     (if f = DEFAULT then ''Plain'' else if f = COINBASE_OUTPUT then ''Coinbase'' else '''')"

type_synonym kernel_features = u8

definition DEFAULT_KERNEL :: kernel_features where "DEFAULT_KERNEL = 0"
definition COINBASE_KERNEL :: kernel_features where "COINBASE_KERNEL = 1"
definition HEIGHT_LOCKED :: kernel_features where "HEIGHT_LOCKED = 2"
definition NO_RECENT_DUPLICATE :: kernel_features where "NO_RECENT_DUPLICATE = 3"

definition KernelFeatures_ToString :: "kernel_features \<Rightarrow> string" where
  "KernelFeatures_ToString f =
     (if f = DEFAULT_KERNEL then ''Plain'' else if f = COINBASE_KERNEL then ''Coinbase''
      else if f = HEIGHT_LOCKED then ''HeightLocked''
      else if f = NO_RECENT_DUPLICATE then ''NoRecentDuplicate'' else '''')"

definition KernelFeatures_FromString :: "string \<Rightarrow> kernel_features result" where
  "KernelFeatures_FromString str =
     (if str = ''Plain'' then Inr DEFAULT_KERNEL
      else if str = ''Coinbase'' then Inr COINBASE_KERNEL
      else if str = ''HeightLocked'' then Inr HEIGHT_LOCKED
      else if str = ''NoRecentDuplicate'' then Inr NO_RECENT_DUPLICATE
      else Inl DESERIALIZATION_EXCEPTION)"

lemmas feature_defs = DEFAULT_def COINBASE_OUTPUT_def DEFAULT_KERNEL_def COINBASE_KERNEL_def
  HEIGHT_LOCKED_def NO_RECENT_DUPLICATE_def

section \<open>Commitments, range proofs, signatures, blinding factors\<close>

type_synonym commitment = big_integer

definition Commitment_Serialize :: "commitment \<Rightarrow> serializer \<Rightarrow> serializer" where
  "Commitment_Serialize c s = AppendBigInteger c s"

definition Commitment_Deserialize :: "commitment reader" where
  "Commitment_Deserialize = ReadBigInteger 33"

type_synonym range_proof = "u8 list"

definition MAX_PROOF_SIZE :: u64 where "MAX_PROOF_SIZE = 675"

definition RangeProof_Serialize :: "range_proof \<Rightarrow> serializer \<Rightarrow> serializer" where
  "RangeProof_Serialize p s =
     AppendByteVector LEN_NONE p (Append (of_nat (length p) :: u64) s)"

definition RangeProof_Deserialize :: "range_proof reader" where
  "RangeProof_Deserialize =
     rbind ReadU64 (\<lambda>proofSize.
       if proofSize > MAX_PROOF_SIZE then rthrow DESERIALIZATION_EXCEPTION else ReadVector proofSize)"

type_synonym signature = big_integer

definition Signature_Serialize :: "signature \<Rightarrow> serializer \<Rightarrow> serializer" where
  "Signature_Serialize sig s = AppendBigInteger sig s"

definition Signature_Deserialize :: "signature reader" where
  "Signature_Deserialize = ReadBigInteger 64"

type_synonym blinding_factor = big_integer

definition BlindingFactor_Serialize :: "blinding_factor \<Rightarrow> serializer \<Rightarrow> serializer" where
  "BlindingFactor_Serialize b s = AppendBigInteger b s"

definition BlindingFactor_Deserialize :: "blinding_factor reader" where
  "BlindingFactor_Deserialize = ReadBigInteger 32"

definition BlindingFactor_IsNull :: "blinding_factor \<Rightarrow> bool" where
  "BlindingFactor_IsNull b \<longleftrightarrow> BigInteger_eq 32 b (BigInteger_new 32)"

section \<open>TransactionInput\<close>

record transaction_input =
  ti_features :: output_features
  ti_commitment :: commitment
  ti_hash :: big_integer

definition TransactionInput_Serialize :: "transaction_input \<Rightarrow> serializer \<Rightarrow> serializer" where
  "TransactionInput_Serialize i s = Commitment_Serialize (ti_commitment i) (Append (ti_features i) s)"

text \<open>The constructor that takes the commitment by move computes the hash; the one that copies
  it leaves \<^verbatim>\<open>m_hash\<close> default-initialized.\<close>

definition TransactionInput_move :: "hash_fn \<Rightarrow> output_features \<Rightarrow> commitment \<Rightarrow> transaction_input" where
  "TransactionInput_move H features commitment =
     (let i = \<lparr>ti_features = features, ti_commitment = commitment, ti_hash = BigInteger_new 32\<rparr>
      in i\<lparr>ti_hash := H (GetBytes (TransactionInput_Serialize i (Serializer_new V1)))\<rparr>)"

definition TransactionInput_copy :: "output_features \<Rightarrow> commitment \<Rightarrow> transaction_input" where
  "TransactionInput_copy features commitment =
     \<lparr>ti_features = features, ti_commitment = commitment, ti_hash = BigInteger_new 32\<rparr>"

definition TransactionInput_IsCoinbase :: "transaction_input \<Rightarrow> bool" where
  "TransactionInput_IsCoinbase i \<longleftrightarrow> (ti_features i AND COINBASE_OUTPUT) = COINBASE_OUTPUT"

definition TransactionInput_Deserialize :: "hash_fn \<Rightarrow> transaction_input reader" where
  "TransactionInput_Deserialize H =
     rbind ReadU8 (\<lambda>features.
     rbind Commitment_Deserialize (\<lambda>commitment.
       rreturn (TransactionInput_move H features commitment)))"

section \<open>TransactionOutput\<close>

record transaction_output =
  to_features :: output_features
  to_commitment :: commitment
  to_rangeProof :: range_proof
  to_hash :: big_integer

definition TransactionOutput_new ::
  "hash_fn \<Rightarrow> output_features \<Rightarrow> commitment \<Rightarrow> range_proof \<Rightarrow> transaction_output" where
  "TransactionOutput_new H features commitment rangeProof =
     \<lparr>to_features = features, to_commitment = commitment, to_rangeProof = rangeProof,
      to_hash = H (GetBytes (Commitment_Serialize commitment (Append features (Serializer_new V1))))\<rparr>"

definition TransactionOutput_IsCoinbase :: "transaction_output \<Rightarrow> bool" where
  "TransactionOutput_IsCoinbase x \<longleftrightarrow> (to_features x AND COINBASE_OUTPUT) = COINBASE_OUTPUT"

definition TransactionOutput_Serialize :: "transaction_output \<Rightarrow> serializer \<Rightarrow> serializer" where
  "TransactionOutput_Serialize x s =
     RangeProof_Serialize (to_rangeProof x) (Commitment_Serialize (to_commitment x) (Append (to_features x) s))"

definition TransactionOutput_Deserialize :: "hash_fn \<Rightarrow> transaction_output reader" where
  "TransactionOutput_Deserialize H =
     rbind ReadU8 (\<lambda>features.
     rbind Commitment_Deserialize (\<lambda>commitment.
     rbind RangeProof_Deserialize (\<lambda>rangeProof.
       rreturn (TransactionOutput_new H features commitment rangeProof))))"

section \<open>TransactionKernel\<close>

record transaction_kernel =
  tk_features :: kernel_features
  tk_fee :: u64
  tk_lockHeight :: u64
  tk_excessCommitment :: commitment
  tk_excessSignature :: signature
  tk_hash :: big_integer

definition TransactionKernel_Serialize :: "transaction_kernel \<Rightarrow> serializer \<Rightarrow> serializer" where
  "TransactionKernel_Serialize k s =
     (if s_protocolVersion s = V2 then
        let s = Append (tk_features k) s;
            s = (if tk_features k = DEFAULT_KERNEL then Append (tk_fee k) s
                 else if tk_features k = COINBASE_KERNEL then s
                 else if tk_features k = HEIGHT_LOCKED then Append (tk_lockHeight k) (Append (tk_fee k) s)
                 else if tk_features k = NO_RECENT_DUPLICATE then
                   Append (ucast (tk_lockHeight k) :: u16) (Append (tk_fee k) s)
                 else s)
        in Signature_Serialize (tk_excessSignature k) (Commitment_Serialize (tk_excessCommitment k) s)
      else
        let s = Append (tk_lockHeight k) (Append (tk_fee k) (Append (tk_features k) s))
        in Signature_Serialize (tk_excessSignature k) (Commitment_Serialize (tk_excessCommitment k) s))"

definition TransactionKernel_new ::
  "hash_fn \<Rightarrow> kernel_features \<Rightarrow> u64 \<Rightarrow> u64 \<Rightarrow> commitment \<Rightarrow> signature \<Rightarrow> transaction_kernel" where
  "TransactionKernel_new H features fee lockHeight excessCommitment excessSignature =
     (let k = \<lparr>tk_features = features, tk_fee = fee, tk_lockHeight = lockHeight,
               tk_excessCommitment = excessCommitment, tk_excessSignature = excessSignature,
               tk_hash = BigInteger_new 32\<rparr>
      in k\<lparr>tk_hash := H (GetBytes (TransactionKernel_Serialize k (Serializer_new V1)))\<rparr>)"

definition TransactionKernel_IsCoinbase :: "transaction_kernel \<Rightarrow> bool" where
  "TransactionKernel_IsCoinbase k \<longleftrightarrow> (tk_features k AND COINBASE_KERNEL) = COINBASE_KERNEL"

definition read_kernel_heights :: "kernel_features \<Rightarrow> (u64 \<times> u64) reader" where
  "read_kernel_heights features b =
     (if b_protocolVersion b = V2 then
        rbind (if features \<noteq> COINBASE_KERNEL then ReadU64 else rreturn 0) (\<lambda>fee.
        rbind (if features = HEIGHT_LOCKED then ReadU64
               else if features = NO_RECENT_DUPLICATE then rbind ReadU16 (\<lambda>h. rreturn (ucast h))
               else rreturn 0) (\<lambda>lockHeight. rreturn (fee, lockHeight))) b
      else rbind ReadU64 (\<lambda>fee. rbind ReadU64 (\<lambda>lockHeight. rreturn (fee, lockHeight))) b)"

definition TransactionKernel_Deserialize :: "hash_fn \<Rightarrow> transaction_kernel reader" where
  "TransactionKernel_Deserialize H =
     rbind ReadU8 (\<lambda>features.
     rbind (read_kernel_heights features) (\<lambda>(fee, lockHeight).
     rbind (ReadBigInteger 33) (\<lambda>excessCommitment.
     rbind (ReadBigInteger 64) (\<lambda>excessSignature.
       if features = NO_RECENT_DUPLICATE \<and> (lockHeight = 0 \<or> lockHeight > WEEK_HEIGHT)
       then rthrow DESERIALIZATION_EXCEPTION
       else rreturn (TransactionKernel_new H features fee lockHeight excessCommitment excessSignature)))))"

definition GetSignatureMessage :: "hash_fn \<Rightarrow> kernel_features \<Rightarrow> u64 \<Rightarrow> u64 \<Rightarrow> u8 list" where
  "GetSignatureMessage H features fee lockHeight =
     (let s = Append features (Serializer_new V1);
          s = (if features \<noteq> COINBASE_KERNEL then Append fee s else s);
          s = (if features = HEIGHT_LOCKED then Append lockHeight s else s);
          s = (if features = NO_RECENT_DUPLICATE then Append (ucast lockHeight :: u16) s else s)
      in H (GetBytes s))"

section \<open>TransactionBody and Transaction\<close>

record transaction_body =
  tb_inputs :: "transaction_input list"
  tb_outputs :: "transaction_output list"
  tb_kernels :: "transaction_kernel list"

definition TransactionBody_Serialize :: "transaction_body \<Rightarrow> serializer \<Rightarrow> serializer" where
  "TransactionBody_Serialize b s =
     (let s = Append (of_nat (length (tb_inputs b)) :: u64) s;
          s = Append (of_nat (length (tb_outputs b)) :: u64) s;
          s = Append (of_nat (length (tb_kernels b)) :: u64) s;
          s = fold TransactionInput_Serialize (tb_inputs b) s;
          s = fold TransactionOutput_Serialize (tb_outputs b) s
      in fold TransactionKernel_Serialize (tb_kernels b) s)"

definition TransactionBody_Deserialize :: "hash_fn \<Rightarrow> transaction_body reader" where
  "TransactionBody_Deserialize H =
     rbind ReadU64 (\<lambda>numInputs.
     rbind ReadU64 (\<lambda>numOutputs.
     rbind ReadU64 (\<lambda>numKernels.
     rbind (read_n (unat numInputs) (TransactionInput_Deserialize H)) (\<lambda>inputs.
     rbind (read_n (unat numOutputs) (TransactionOutput_Deserialize H)) (\<lambda>outputs.
     rbind (read_n (unat numKernels) (TransactionKernel_Deserialize H)) (\<lambda>kernels.
       rreturn \<lparr>tb_inputs = inputs, tb_outputs = outputs, tb_kernels = kernels\<rparr>))))))"

record transaction =
  tx_offset :: blinding_factor
  tx_body :: transaction_body
  tx_hash :: big_integer

definition Transaction_Serialize :: "transaction \<Rightarrow> serializer \<Rightarrow> serializer" where
  "Transaction_Serialize t s = TransactionBody_Serialize (tx_body t) (AppendBigInteger (tx_offset t) s)"

definition Transaction_new :: "hash_fn \<Rightarrow> blinding_factor \<Rightarrow> transaction_body \<Rightarrow> transaction" where
  "Transaction_new H offset body =
     (let t = \<lparr>tx_offset = offset, tx_body = body, tx_hash = BigInteger_new 32\<rparr>
      in t\<lparr>tx_hash := H (GetBytes (Transaction_Serialize t (Serializer_new V1)))\<rparr>)"

definition Transaction_Deserialize :: "hash_fn \<Rightarrow> transaction reader" where
  "Transaction_Deserialize H =
     rbind BlindingFactor_Deserialize (\<lambda>offset.
     rbind (TransactionBody_Deserialize H) (\<lambda>transactionBody.
       rreturn (Transaction_new H offset transactionBody)))"

section \<open>Wire formats\<close>

definition range_proof_enc :: "EProtocolVersion \<Rightarrow> range_proof \<Rightarrow> u8 list" where
  "range_proof_enc v p = be_bytes (of_nat (length p) :: u64) @ p"

definition range_proof_ok :: "EProtocolVersion \<Rightarrow> range_proof \<Rightarrow> bool" where
  "range_proof_ok v p \<longleftrightarrow> length p \<le> 675"

definition input_enc :: "EProtocolVersion \<Rightarrow> transaction_input \<Rightarrow> u8 list" where
  "input_enc v i = be_bytes (ti_features i) @ ti_commitment i"

definition input_ok :: "hash_fn \<Rightarrow> EProtocolVersion \<Rightarrow> transaction_input \<Rightarrow> bool" where
  "input_ok H v i \<longleftrightarrow> length (ti_commitment i) = 33 \<and> ti_hash i = H (input_enc V1 i)"

definition output_enc :: "EProtocolVersion \<Rightarrow> transaction_output \<Rightarrow> u8 list" where
  "output_enc v x = be_bytes (to_features x) @ to_commitment x @ range_proof_enc v (to_rangeProof x)"

definition output_ok :: "hash_fn \<Rightarrow> EProtocolVersion \<Rightarrow> transaction_output \<Rightarrow> bool" where
  "output_ok H v x \<longleftrightarrow> length (to_commitment x) = 33 \<and> range_proof_ok v (to_rangeProof x) \<and>
     to_hash x = H (be_bytes (to_features x) @ to_commitment x)"

definition heights_enc :: "EProtocolVersion \<Rightarrow> kernel_features \<Rightarrow> u64 \<Rightarrow> u64 \<Rightarrow> u8 list" where
  "heights_enc v f fee h =
     (if v = V1 then be_bytes fee @ be_bytes h
      else if f = DEFAULT_KERNEL then be_bytes fee
      else if f = HEIGHT_LOCKED then be_bytes fee @ be_bytes h
      else if f = NO_RECENT_DUPLICATE then be_bytes fee @ be_bytes (ucast h :: u16)
      else [])"

text \<open>The heights that version 2 can carry: it drops the fields a kernel's features do not use
  and has no format for unknown features.\<close>

definition heights_ok :: "EProtocolVersion \<Rightarrow> kernel_features \<Rightarrow> u64 \<Rightarrow> u64 \<Rightarrow> bool" where
  "heights_ok v f fee h \<longleftrightarrow>
     (f = NO_RECENT_DUPLICATE \<longrightarrow> h \<noteq> 0 \<and> h \<le> WEEK_HEIGHT) \<and>
     (v = V2 \<longrightarrow> f \<le> NO_RECENT_DUPLICATE \<and> (f = COINBASE_KERNEL \<longrightarrow> fee = 0) \<and>
        (f = DEFAULT_KERNEL \<or> f = COINBASE_KERNEL \<longrightarrow> h = 0))"

definition kernel_enc :: "EProtocolVersion \<Rightarrow> transaction_kernel \<Rightarrow> u8 list" where
  "kernel_enc v k = be_bytes (tk_features k) @ heights_enc v (tk_features k) (tk_fee k) (tk_lockHeight k) @
     tk_excessCommitment k @ tk_excessSignature k"

definition kernel_ok :: "hash_fn \<Rightarrow> EProtocolVersion \<Rightarrow> transaction_kernel \<Rightarrow> bool" where
  "kernel_ok H v k \<longleftrightarrow> length (tk_excessCommitment k) = 33 \<and> length (tk_excessSignature k) = 64 \<and>
     heights_ok v (tk_features k) (tk_fee k) (tk_lockHeight k) \<and> tk_hash k = H (kernel_enc V1 k)"

lemma BigInteger_codec:
  assumes "n < 2 ^ 64"
  shows "canonical_codec AppendBigInteger (ReadBigInteger n) (\<lambda>_ c. c) (\<lambda>_ c. length c = n) (\<lambda>_. True)"
  using assms
  by unfold_locales (auto simp: AppendBigInteger_def ReadBigInteger_buf dest: ReadBigInteger_buf_inv)

interpretation commitment_codec: canonical_codec Commitment_Serialize Commitment_Deserialize
  "\<lambda>_ c. c" "\<lambda>_ c. length c = 33" "\<lambda>_. True"
  unfolding Commitment_Serialize_def [abs_def] Commitment_Deserialize_def by (rule BigInteger_codec) simp

interpretation signature_codec: canonical_codec Signature_Serialize Signature_Deserialize
  "\<lambda>_ c. c" "\<lambda>_ c. length c = 64" "\<lambda>_. True"
  unfolding Signature_Serialize_def [abs_def] Signature_Deserialize_def by (rule BigInteger_codec) simp

interpretation blinding_factor_codec: canonical_codec BlindingFactor_Serialize BlindingFactor_Deserialize
  "\<lambda>_ c. c" "\<lambda>_ c. length c = 32" "\<lambda>_. True"
  unfolding BlindingFactor_Serialize_def [abs_def] BlindingFactor_Deserialize_def by (rule BigInteger_codec) simp

interpretation range_proof_codec: canonical_codec RangeProof_Serialize RangeProof_Deserialize
  range_proof_enc range_proof_ok "\<lambda>_. True"
proof (rule canonical_codecI)
  show "RangeProof_Serialize x s = insert_end (range_proof_enc (s_protocolVersion s) x) s" for x s
    by (simp add: RangeProof_Serialize_def writer_defs range_proof_enc_def)
  show "decodes v RangeProof_Deserialize (range_proof_enc v x) x" if "range_proof_ok v x" for v x
  proof -
    have u: "unat (of_nat (length x) :: u64) = length x"
      using that by (intro unat_of_nat_small) (simp add: range_proof_ok_def)
    moreover have "\<not> of_nat (length x) > MAX_PROOF_SIZE"
      using that u by (simp add: MAX_PROOF_SIZE_def range_proof_ok_def word_less_nat_alt)
    ultimately show ?thesis
      unfolding RangeProof_Deserialize_def range_proof_enc_def
      by (intro decodes_int) (simp add: decodes_ReadVector)
  qed
  show "consumes v RangeProof_Deserialize (\<lambda>e x. e = range_proof_enc v x \<and> range_proof_ok v x)" for v
    unfolding RangeProof_Deserialize_def
    by (intro consumes_int, simp, intro conjI impI consumes_throw, rule consumes_weaken,
        rule consumes_ReadVector)
      (auto simp: range_proof_enc_def range_proof_ok_def MAX_PROOF_SIZE_def word_less_nat_alt)
qed

interpretation input_codec: canonical_codec TransactionInput_Serialize "TransactionInput_Deserialize H"
  input_enc "input_ok H" "\<lambda>_. True" for H
proof (rule canonical_codecI)
  show ser: "TransactionInput_Serialize x s = insert_end (input_enc (s_protocolVersion s) x) s" for x s
    by (simp add: TransactionInput_Serialize_def commitment_codec.ser_enc Append_bytes input_enc_def)
  note hash = TransactionInput_move_def ser GetBytes_def Let_def input_enc_def
  show "decodes v (TransactionInput_Deserialize H) (input_enc v x) x" if "input_ok H v x" for v x
    using that unfolding TransactionInput_Deserialize_def input_enc_def input_ok_def
    by (intro decodes_int decodes_last [OF commitment_codec.des_decodes]) (auto simp: hash)
  show "consumes v (TransactionInput_Deserialize H) (\<lambda>e x. e = input_enc v x \<and> input_ok H v x)" for v
    unfolding TransactionInput_Deserialize_def
    by (intro consumes_int consumes_bind [OF commitment_codec.des_consumes] consumes_return)
      (auto simp: hash input_ok_def)
qed

interpretation output_codec: canonical_codec TransactionOutput_Serialize "TransactionOutput_Deserialize H"
  output_enc "output_ok H" "\<lambda>_. True" for H
proof (rule canonical_codecI)
  show ser: "TransactionOutput_Serialize x s = insert_end (output_enc (s_protocolVersion s) x) s" for x s
    by (simp add: TransactionOutput_Serialize_def commitment_codec.ser_enc range_proof_codec.ser_enc Append_bytes output_enc_def)
  note hash = TransactionOutput_new_def commitment_codec.ser_enc Append_bytes GetBytes_def
  show "decodes v (TransactionOutput_Deserialize H) (output_enc v x) x" if "output_ok H v x" for v x
    using that unfolding TransactionOutput_Deserialize_def output_enc_def output_ok_def
    by (intro decodes_int decodes_bind [OF commitment_codec.des_decodes] decodes_last [OF range_proof_codec.des_decodes])
      (auto simp: hash)
  show "consumes v (TransactionOutput_Deserialize H) (\<lambda>e x. e = output_enc v x \<and> output_ok H v x)" for v
    unfolding TransactionOutput_Deserialize_def
    by (intro consumes_int consumes_bind [OF commitment_codec.des_consumes] consumes_bind [OF range_proof_codec.des_consumes]
        consumes_return) (auto simp: hash output_ok_def output_enc_def)
qed

text \<open>The kernel format is canonical in version 1 only.\<close>

lemma WEEK_HEIGHT_u16: "h \<le> WEEK_HEIGHT \<Longrightarrow> ucast (ucast h :: u16) = h"
proof -
  assume "h \<le> WEEK_HEIGHT"
  then have "unat h \<le> 10080" by (simp add: consensus_consts word_le_nat_alt)
  then have "unat (ucast (ucast h :: u16) :: u64) = unat h"
    by (simp add: unsigned_ucast_eq unsigned_take_bit_eq take_bit_nat_eq_self)
  then show ?thesis by (simp only: word_unat_eq_iff)
qed

lemma read_kernel_heights_decodes:
  assumes "heights_ok v f fee h"
  shows "decodes v (read_kernel_heights f) (heights_enc v f fee h) (fee, h)"
proof (cases v)
  case V1
  have "decodes V1 (rbind ReadU64 (\<lambda>fee. rbind ReadU64 (\<lambda>lockHeight. rreturn (fee, lockHeight))))
      (be_bytes fee @ be_bytes h) (fee, h)"
    by (intro decodes_int decodes_last [OF decodes_ReadInt(4)]) simp
  then show ?thesis using V1 by (simp add: decodes_def read_kernel_heights_def heights_enc_def)
next
  case V2
  then have "f \<le> 3" and h: "f = 0 \<or> f = 1 \<Longrightarrow> h = 0" "f = 1 \<Longrightarrow> fee = 0" "f = 3 \<Longrightarrow> h \<le> WEEK_HEIGHT"
    using assms by (auto simp: heights_ok_def feature_defs)
  then have "unat f \<le> 3" by (simp add: word_le_nat_alt)
  then consider "unat f = 0" | "unat f = 1" | "unat f = 2" | "unat f = 3" by linarith
  then have "f = 0 \<or> f = 1 \<or> f = 2 \<or> f = 3" by cases (simp_all add: unat_arith_simps)
  then show ?thesis
    using V2 h ReadInt_buf
    by (auto simp: decodes_def read_kernel_heights_def heights_enc_def feature_defs rbind_def codec_simps WEEK_HEIGHT_u16)
qed

lemma read_kernel_heights_consumes:
  "consumes V1 (read_kernel_heights f) (\<lambda>e (fee, h). e = heights_enc V1 f fee h)"
proof -
  have "consumes V1 (rbind ReadU64 (\<lambda>fee. rbind ReadU64 (\<lambda>lockHeight. rreturn (fee, lockHeight))))
      (\<lambda>e (fee, h). e = heights_enc V1 f fee h)"
    by (intro consumes_int consumes_return) (simp add: heights_enc_def)
  then show ?thesis by (simp add: consumes_def read_kernel_heights_def)
qed

lemma kernel_ser: "TransactionKernel_Serialize x s = insert_end (kernel_enc (s_protocolVersion s) x) s"
  by (cases "s_protocolVersion s")
    (simp_all add: TransactionKernel_Serialize_def kernel_enc_def heights_enc_def Let_def Append_bytes
      commitment_codec.ser_enc signature_codec.ser_enc feature_defs)

lemma kernel_hash:
  "TransactionKernel_new H f fee h c sig =
     \<lparr>tk_features = f, tk_fee = fee, tk_lockHeight = h, tk_excessCommitment = c, tk_excessSignature = sig,
      tk_hash = H (be_bytes f @ heights_enc V1 f fee h @ c @ sig)\<rparr>"
  by (simp add: TransactionKernel_new_def kernel_ser GetBytes_def kernel_enc_def)

interpretation kernel_codec: canonical_codec TransactionKernel_Serialize "TransactionKernel_Deserialize H"
  kernel_enc "kernel_ok H" "\<lambda>v. v = V1" for H
proof (rule canonical_codecI)
  show "TransactionKernel_Serialize x s = insert_end (kernel_enc (s_protocolVersion s) x) s" for x s
    by (rule kernel_ser)
  show "decodes v (TransactionKernel_Deserialize H) (kernel_enc v x) x" if "kernel_ok H v x" for v x
  proof -
    have "\<not> (tk_features x = NO_RECENT_DUPLICATE \<and> (tk_lockHeight x = 0 \<or> tk_lockHeight x > WEEK_HEIGHT))"
      using that by (auto simp: kernel_ok_def heights_ok_def)
    then show ?thesis
      using that unfolding TransactionKernel_Deserialize_def kernel_ok_def kernel_enc_def
      by (intro decodes_int decodes_bind [OF read_kernel_heights_decodes], simp,
          simp only: prod.case, intro decodes_bind [OF decodes_ReadBigInteger], simp,
          intro decodes_last [OF decodes_ReadBigInteger]) (auto simp: kernel_hash)
  qed
  show "consumes v (TransactionKernel_Deserialize H) (\<lambda>e x. e = kernel_enc v x \<and> kernel_ok H v x)" if "v = V1" for v
    unfolding TransactionKernel_Deserialize_def that
    by (intro consumes_int consumes_bind [OF read_kernel_heights_consumes])
      (auto intro!: consumes_bind [OF consumes_ReadBigInteger] consumes_return consumes_throw
        simp: kernel_hash kernel_ok_def kernel_enc_def heights_ok_def)
qed

definition body_enc :: "EProtocolVersion \<Rightarrow> transaction_body \<Rightarrow> u8 list" where
  "body_enc v b =
     be_bytes (of_nat (length (tb_inputs b)) :: u64) @ be_bytes (of_nat (length (tb_outputs b)) :: u64) @
     be_bytes (of_nat (length (tb_kernels b)) :: u64) @ concat (map (input_enc v) (tb_inputs b)) @
     concat (map (output_enc v) (tb_outputs b)) @ concat (map (kernel_enc v) (tb_kernels b))"

definition body_ok :: "hash_fn \<Rightarrow> EProtocolVersion \<Rightarrow> transaction_body \<Rightarrow> bool" where
  "body_ok H v b \<longleftrightarrow>
     list_all (input_ok H v) (tb_inputs b) \<and> list_all (output_ok H v) (tb_outputs b) \<and>
     list_all (kernel_ok H v) (tb_kernels b) \<and>
     length (tb_inputs b) < 2 ^ 64 \<and> length (tb_outputs b) < 2 ^ 64 \<and> length (tb_kernels b) < 2 ^ 64"

lemma unat_u64_less: "unat (x :: u64) < 18446744073709551616"
  using unsigned_less [of x, where ?'a = nat] by simp

interpretation body_codec: canonical_codec TransactionBody_Serialize "TransactionBody_Deserialize H"
  body_enc "body_ok H" "\<lambda>v. v = V1" for H
proof (rule canonical_codecI)
  show "TransactionBody_Serialize x s = insert_end (body_enc (s_protocolVersion s) x) s" for x s
    by (simp add: TransactionBody_Serialize_def body_enc_def Append_bytes input_codec.fold_ser output_codec.fold_ser
        kernel_codec.fold_ser Let_def)
  show "decodes v (TransactionBody_Deserialize H) (body_enc v x) x" if "body_ok H v x" for v x
    using that unfolding TransactionBody_Deserialize_def body_ok_def body_enc_def
    by (intro decodes_int decodes_bind [OF input_codec.read_n_decodes] decodes_bind [OF output_codec.read_n_decodes]
        decodes_last [OF kernel_codec.read_n_decodes]) (auto simp: unat_of_nat_small)
  show "consumes v (TransactionBody_Deserialize H) (\<lambda>e x. e = body_enc v x \<and> body_ok H v x)" if "v = V1" for v
    unfolding TransactionBody_Deserialize_def
    by (intro consumes_int consumes_bind [OF input_codec.read_n_consumes] consumes_bind [OF output_codec.read_n_consumes]
        consumes_bind [OF kernel_codec.read_n_consumes] consumes_return)
      (auto simp: that body_enc_def body_ok_def unat_u64_less)
qed

definition transaction_enc :: "EProtocolVersion \<Rightarrow> transaction \<Rightarrow> u8 list" where
  "transaction_enc v t = tx_offset t @ body_enc v (tx_body t)"

definition transaction_ok :: "hash_fn \<Rightarrow> EProtocolVersion \<Rightarrow> transaction \<Rightarrow> bool" where
  "transaction_ok H v t \<longleftrightarrow> length (tx_offset t) = 32 \<and> body_ok H v (tx_body t) \<and> tx_hash t = H (transaction_enc V1 t)"

lemma transaction_ser: "Transaction_Serialize x s = insert_end (transaction_enc (s_protocolVersion s) x) s"
  by (simp add: Transaction_Serialize_def transaction_enc_def AppendBigInteger_def body_codec.ser_enc)

lemma transaction_hash:
  "Transaction_new H offset body =
     \<lparr>tx_offset = offset, tx_body = body, tx_hash = H (offset @ body_enc V1 body)\<rparr>"
  by (simp add: Transaction_new_def transaction_ser GetBytes_def transaction_enc_def)

interpretation transaction_codec: canonical_codec Transaction_Serialize "Transaction_Deserialize H"
  transaction_enc "transaction_ok H" "\<lambda>v. v = V1" for H
proof (rule canonical_codecI)
  show "Transaction_Serialize x s = insert_end (transaction_enc (s_protocolVersion s) x) s" for x s
    by (rule transaction_ser)
  show "decodes v (Transaction_Deserialize H) (transaction_enc v x) x" if "transaction_ok H v x" for v x
    using that unfolding Transaction_Deserialize_def transaction_ok_def transaction_enc_def
    by (intro decodes_bind [OF blinding_factor_codec.des_decodes] decodes_last [OF body_codec.des_decodes])
      (auto simp: transaction_hash)
  show "consumes v (Transaction_Deserialize H) (\<lambda>e x. e = transaction_enc v x \<and> transaction_ok H v x)" if "v = V1" for v
    unfolding Transaction_Deserialize_def
    by (intro consumes_bind [OF blinding_factor_codec.des_consumes] consumes_bind [OF body_codec.des_consumes] consumes_return)
      (auto simp: that transaction_enc_def transaction_ok_def transaction_hash)
qed

section \<open>Properties of the wire formats\<close>


text \<open>The version 1 format cannot be altered in transit without altering the transaction: whatever
  bytes \<^verbatim>\<open>Deserialize\<close> accepts are the serialization of the transaction it returns,
  followed by the bytes it has not read.\<close>

theorem Transaction_V1_canonical:
  assumes "Transaction_Deserialize H (ByteBuffer_new bytes V1) = Inr (t, b)" and "length bytes < 2 ^ 64"
  shows "transaction_ok H V1 t \<and>
    bytes = GetBytes (Transaction_Serialize t (Serializer_new V1)) @ drop (unat (b_index b)) bytes"
proof -
  from transaction_codec.des_inv [of V1 H "[]" bytes t b] assms obtain post where
    p: "transaction_ok H V1 t" "bytes = transaction_enc V1 t @ post" "b = buf V1 (transaction_enc V1 t) post"
    by (auto simp: ByteBuffer_new_buf)
  moreover have "unat (b_index b) = length (transaction_enc V1 t)"
    using p assms(2) by (simp add: buf_def unat_of_nat_small)
  ultimately show ?thesis by (simp add: transaction_ser GetBytes_def)
qed

definition sample_input :: transaction_input where
  "sample_input = TransactionInput_move sample_hash COINBASE_OUTPUT (replicate 33 8)"

definition sample_kernel :: transaction_kernel where
  "sample_kernel = TransactionKernel_new sample_hash NO_RECENT_DUPLICATE 7 1440 (replicate 33 9) (replicate 64 5)"

definition sample_output :: transaction_output where
  "sample_output = TransactionOutput_new sample_hash DEFAULT (replicate 33 3) (replicate 6 1)"

definition sample_tx :: transaction where
  "sample_tx = Transaction_new sample_hash (replicate 32 4)
     \<lparr>tb_inputs = [sample_input], tb_outputs = [sample_output], tb_kernels = [sample_kernel]\<rparr>"

lemma input_hash:
  "TransactionInput_move H f c = \<lparr>ti_features = f, ti_commitment = c, ti_hash = H (be_bytes f @ c)\<rparr>"
  by (simp add: TransactionInput_move_def input_codec.ser_enc GetBytes_def input_enc_def)

lemma output_hash:
  "TransactionOutput_new H f c p =
     \<lparr>to_features = f, to_commitment = c, to_rangeProof = p, to_hash = H (be_bytes f @ c)\<rparr>"
  by (simp add: TransactionOutput_new_def commitment_codec.ser_enc Append_bytes GetBytes_def)

lemmas sample_defs = sample_tx_def sample_input_def sample_output_def sample_kernel_def transaction_hash input_hash
  output_hash kernel_hash

lemma sample_tx_ok: "transaction_ok sample_hash v sample_tx"
  by (simp add: transaction_ok_def body_ok_def sample_defs transaction_enc_def input_ok_def input_enc_def output_ok_def
      range_proof_ok_def kernel_ok_def kernel_enc_def heights_ok_def feature_defs consensus_consts)


theorem Transaction_V1_canonical_witness:
  "\<exists>t b. Transaction_Deserialize sample_hash (ByteBuffer_new (replicate 56 0) V1) = Inr (t, b) \<and>
     replicate 56 0 = GetBytes (Transaction_Serialize t (Serializer_new V1)) @ drop (unat (b_index b)) (replicate 56 0)"
proof -
  let ?d = "Transaction_Deserialize sample_hash (ByteBuffer_new (replicate 56 0) V1)"
  have "?d = Inr (projr ?d)" by code_simp
  then obtain t b where d: "?d = Inr (t, b)" by (metis prod.exhaust)
  from Transaction_V1_canonical [OF d]
  have "replicate 56 0 = GetBytes (Transaction_Serialize t (Serializer_new V1)) @ drop (unat (b_index b)) (replicate 56 0)"
    by (simp del: drop_replicate)
  with d show ?thesis by blast
qed

section \<open>Order and increment of byte strings\<close>

text \<open>The number a big-endian byte string denotes.\<close>

fun be_value :: "u8 list \<Rightarrow> nat" where
  "be_value [] = 0"
| "be_value (b # bs) = unat b * 256 ^ length bs + be_value bs"

lemma be_value_bound: "be_value bs < 256 ^ length bs"
proof (induction bs)
  case (Cons b bs)
  have "unat b * 256 ^ length bs + be_value bs < (unat b + 1) * 256 ^ length bs" using Cons by simp
  also have "\<dots> \<le> 256 * 256 ^ length bs"
    using unsigned_less [of b, where ?'a = nat] by (intro mult_right_mono) simp_all
  finally show ?case by simp
qed simp

lemma be_value_snoc: "be_value (bs @ [b]) = be_value bs * 256 + unat b"
  by (induction bs) (simp_all add: algebra_simps)

lemma digit_order:
  fixes a b x y n :: nat
  assumes "x < n" and "y < n"
  shows "a * n + x < b * n + y \<longleftrightarrow> a < b \<or> a = b \<and> x < y"
proof -
  have "a * n + x < b * n + y" if "a < b"
  proof -
    have "a * n + x < (a + 1) * n" using assms by simp
    also have "\<dots> \<le> b * n" using that by (intro mult_right_mono) simp_all
    finally show ?thesis by simp
  qed
  moreover have "b * n + y < a * n + x" if "b < a"
  proof -
    have "b * n + y < (b + 1) * n" using assms by simp
    also have "\<dots> \<le> a * n" using that by (intro mult_right_mono) simp_all
    finally show ?thesis by simp
  qed
  ultimately show ?thesis by (metis less_asym less_linear nat_add_left_cancel_less)
qed

lemma BigInteger_less_value:
  assumes "length xs = length ys"
  shows "BigInteger_less xs ys \<longleftrightarrow> be_value xs < be_value ys"
  using assms
proof (induction xs ys rule: BigInteger_less.induct)
  case (1 x xs y ys)
  then show ?case
    using digit_order [OF be_value_bound [of xs], of "be_value ys" "unat x" "unat y"] be_value_bound [of ys]
    by (auto simp: word_less_nat_alt word_unat_eq_iff)
qed auto

lemma increment_loop_value:
  assumes "increment_loop bs = Inr cs"
  shows "length cs = length bs \<and> be_value (rev cs) = be_value (rev bs) + 1"
  using assms
proof (induction bs arbitrary: cs)
  case (Cons b bs)
  show ?case
  proof (cases "b = 0xFF")
    case True
    then show ?thesis using Cons by (auto simp: bind_result_eq_Inr_iff be_value_snoc)
  next
    case False
    then have "unat b \<noteq> 255" by (auto simp: word_unat_eq_iff)
    then have "unat (b + 1) = unat b + 1"
      using unsigned_less [of b, where ?'a = nat] by (simp add: unat_plus_if')
    then show ?thesis using False Cons.prems by (auto simp: be_value_snoc)
  qed
qed simp

text \<open>On byte strings of equal length \<^verbatim>\<open>operator<\<close> is the order of the numbers they
  denote, and \<^verbatim>\<open>operator++\<close> adds one to the number, unless the string is the greatest of its
  length, where it runs out of the array.\<close>

theorem BigInteger_order_increment:
  assumes "length x = length y"
  shows "(BigInteger_less x y \<longleftrightarrow> be_value x < be_value y) \<and>
    (case BigInteger_increment x of
       Inr z \<Rightarrow> length z = length x \<and> be_value z = be_value x + 1
     | Inl e \<Rightarrow> e = UNDEFINED_BEHAVIOUR \<and> x = BigInteger_GetMaximumValue (length x))"
proof (intro conjI)
  show "BigInteger_less x y \<longleftrightarrow> be_value x < be_value y" using BigInteger_less_value [OF assms] .
  have err: "increment_loop bs = Inl e \<Longrightarrow> e = UNDEFINED_BEHAVIOUR \<and> bs = replicate (length bs) 0xFF" for bs e
    by (induction bs) (auto simp: bind_result_def split: if_splits sum.splits)
  show "case BigInteger_increment x of
       Inr z \<Rightarrow> length z = length x \<and> be_value z = be_value x + 1
     | Inl e \<Rightarrow> e = UNDEFINED_BEHAVIOUR \<and> x = BigInteger_GetMaximumValue (length x)"
  proof (cases "increment_loop (rev x)")
    case (Inl e)
    have "rev x = replicate (length x) 0xFF" using err [OF Inl] by simp
    then have "x = replicate (length x) 0xFF" by (metis rev_rev_ident rev_replicate)
    then show ?thesis
      using Inl err [OF Inl]
      by (simp add: BigInteger_increment_def bind_result_def BigInteger_GetMaximumValue_def map_replicate_const)
  next
    case (Inr z)
    then show ?thesis
      using increment_loop_value [OF Inr] by (simp add: BigInteger_increment_def bind_result_def)
  qed
qed

theorem BigInteger_order_increment_witness:
  "BigInteger_increment [1, 255] = Inr [2, 0] \<and> be_value [2, 0] = be_value [1, 255] + 1"
proof -
  have inc: "BigInteger_increment [1, 255] = Inr [2, 0]" by code_simp
  show ?thesis using BigInteger_order_increment [of "[1, 255]" "[0, 0]"] inc by simp
qed

end
