(* ===== verification/Block_Models.thy ===== *)
theory Block_Models
  imports Tx_Models
begin

text \<open>
  The block data model (\<^verbatim>\<open>include/Core/Models\<close>, \<^verbatim>\<open>src/Core/Models\<close>):
  output identifiers and locations, spent outputs, block sums, short ids with SipHash
  (\<^verbatim>\<open>src/Crypto/ThirdParty/siphash.h\<close>), the bit-packed proof of work, headers, full and
  compact blocks. Arithmetic on \<^verbatim>\<open>int\<close> that stays small (bit positions of a proof) is on
  natural numbers.
\<close>

section \<open>OutputIdentifier and OutputLocation\<close>

record output_identifier =
  oi_features :: output_features
  oi_commitment :: commitment

definition OutputIdentifier_FromOutput :: "transaction_output \<Rightarrow> output_identifier" where
  "OutputIdentifier_FromOutput x = \<lparr>oi_features = to_features x, oi_commitment = to_commitment x\<rparr>"

definition OutputIdentifier_Serialize :: "output_identifier \<Rightarrow> serializer \<Rightarrow> serializer" where
  "OutputIdentifier_Serialize x s = Commitment_Serialize (oi_commitment x) (Append (oi_features x) s)"

definition OutputIdentifier_Deserialize :: "output_identifier reader" where
  "OutputIdentifier_Deserialize =
     rbind ReadU8 (\<lambda>features.
     rbind Commitment_Deserialize (\<lambda>commitment.
       rreturn \<lparr>oi_features = features, oi_commitment = commitment\<rparr>))"

record output_location =
  ol_mmrIndex :: u64
  ol_blockHeight :: u64

definition OutputLocation_Serialize :: "output_location \<Rightarrow> serializer \<Rightarrow> serializer" where
  "OutputLocation_Serialize x s = Append (ol_blockHeight x) (Append (ol_mmrIndex x) s)"

definition OutputLocation_Deserialize :: "output_location reader" where
  "OutputLocation_Deserialize =
     rbind ReadU64 (\<lambda>mmrIndex.
     rbind ReadU64 (\<lambda>blockHeight.
       rreturn \<lparr>ol_mmrIndex = mmrIndex, ol_blockHeight = blockHeight\<rparr>))"

section \<open>BlockSums and SpentOutputs\<close>

record block_sums =
  bs_outputSum :: commitment
  bs_kernelSum :: commitment

definition BlockSums_Serialize :: "block_sums \<Rightarrow> serializer \<Rightarrow> serializer" where
  "BlockSums_Serialize x s = Commitment_Serialize (bs_kernelSum x) (Commitment_Serialize (bs_outputSum x) s)"

definition BlockSums_Deserialize :: "block_sums reader" where
  "BlockSums_Deserialize =
     rbind Commitment_Deserialize (\<lambda>outputSum.
     rbind Commitment_Deserialize (\<lambda>kernelSum.
       rreturn \<lparr>bs_outputSum = outputSum, bs_kernelSum = kernelSum\<rparr>))"

record spent_output =
  so_commitment :: commitment
  so_outputLocation :: output_location

definition SpentOutput_Serialize :: "spent_output \<Rightarrow> serializer \<Rightarrow> serializer" where
  "SpentOutput_Serialize x s = OutputLocation_Serialize (so_outputLocation x) (Commitment_Serialize (so_commitment x) s)"

definition SpentOutput_Deserialize :: "spent_output reader" where
  "SpentOutput_Deserialize =
     rbind Commitment_Deserialize (\<lambda>commitment.
     rbind OutputLocation_Deserialize (\<lambda>outputLocation.
       rreturn \<lparr>so_commitment = commitment, so_outputLocation = outputLocation\<rparr>))"

text \<open>\<^verbatim>\<open>unordered_map::insert\<close> keeps the first entry of a key. The count is cast to
  16 bits; the version is only checked by an \<^verbatim>\<open>assert\<close>.\<close>

definition SpentOutputs_BuildMap :: "spent_output list \<Rightarrow> commitment \<rightharpoonup> output_location" where
  "SpentOutputs_BuildMap xs =
     fold (\<lambda>x m. if m (so_commitment x) = None then m(so_commitment x \<mapsto> so_outputLocation x) else m) xs Map.empty"

definition SpentOutputs_Serialize :: "spent_output list \<Rightarrow> serializer \<Rightarrow> serializer" where
  "SpentOutputs_Serialize xs s =
     fold SpentOutput_Serialize xs (Append (ucast (of_nat (length xs) :: u64) :: u16) (Append (0 :: u8) s))"

definition SpentOutputs_Deserialize :: "spent_output list reader" where
  "SpentOutputs_Deserialize =
     rbind ReadU8 (\<lambda>version.
     rbind ReadU16 (\<lambda>numOutputs. read_n (unat numOutputs) SpentOutput_Deserialize))"

section \<open>SipHash and ShortId\<close>

type_synonym sip_state = "u64 \<times> u64 \<times> u64 \<times> u64"

definition SIPHASH_BIT_ROTL :: "u64 \<Rightarrow> nat \<Rightarrow> u64" where
  "SIPHASH_BIT_ROTL b n = push_bit n b OR drop_bit (64 - n) b"

definition SIPHASH_ROUND :: "sip_state \<Rightarrow> sip_state" where
  "SIPHASH_ROUND = (\<lambda>(s0, s1, s2, s3).
     let s0 = s0 + s1; s2 = s2 + s3;
         s1 = SIPHASH_BIT_ROTL s1 13; s3 = SIPHASH_BIT_ROTL s3 16;
         s1 = s1 XOR s0; s3 = s3 XOR s2;
         s0 = SIPHASH_BIT_ROTL s0 32;
         s2 = s2 + s1; s0 = s0 + s3;
         s1 = SIPHASH_BIT_ROTL s1 17; s3 = SIPHASH_BIT_ROTL s3 21;
         s1 = s1 XOR s2; s3 = s3 XOR s0;
         s2 = SIPHASH_BIT_ROTL s2 32
     in (s0, s1, s2, s3))"

definition sip_absorb :: "nat \<Rightarrow> u64 \<Rightarrow> sip_state \<Rightarrow> sip_state" where
  "sip_absorb rblk mi = (\<lambda>(v0, v1, v2, v3).
     case (SIPHASH_ROUND ^^ rblk) (v0, v1, v2, v3 XOR mi) of (v0, v1, v2, v3) \<Rightarrow> (v0 XOR mi, v1, v2, v3))"

text \<open>The eight-byte words are read through a pointer on a little-endian host; the switch over the
  remaining bytes falls through, so that byte \<open>j\<close> of the tail is shifted by \<open>8 * j\<close>.\<close>

definition siphash :: "nat \<Rightarrow> nat \<Rightarrow> u64 \<Rightarrow> u64 \<Rightarrow> u8 list \<Rightarrow> u64" where
  "siphash rblk rfin key0 key1 src =
     (let len = length src; w = (len div 8) * 8;
          v = (key0 XOR 0x736f6d6570736575, key1 XOR 0x646f72616e646f6d,
               key0 XOR 0x6c7967656e657261, key1 XOR 0x7465646279746573);
          v = fold (\<lambda>i. sip_absorb rblk (of_le_bytes (take 8 (drop (8 * i) src)))) [0..<len div 8] v;
          tail = drop w src;
          mi = fold (\<lambda>j mi. mi OR push_bit (8 * j) (ucast (tail ! j))) (rev [0..<length tail])
                 (push_bit 56 (of_nat len));
          v = sip_absorb rblk mi v
      in case v of (v0, v1, v2, v3) \<Rightarrow>
           case (SIPHASH_ROUND ^^ rfin) (v0, v1, v2 XOR 0xff, v3) of
             (v0, v1, v2, v3) \<Rightarrow> v0 XOR v1 XOR v2 XOR v3)"

definition SipHash24 :: "u64 \<Rightarrow> u64 \<Rightarrow> u8 list \<Rightarrow> u64" where
  "SipHash24 k0 k1 data = siphash 2 4 k0 k1 data"

type_synonym short_id = big_integer

definition ShortId_Create :: "hash_fn \<Rightarrow> big_integer \<Rightarrow> big_integer \<Rightarrow> u64 \<Rightarrow> short_id result" where
  "ShortId_Create H hash blockHash nonce =
     (let hashWithNonce = H (GetBytes (Append nonce (AppendBigInteger blockHash (Serializer_new V1))))
      in bind_result (ReadU64_LE (ByteBuffer_new hashWithNonce V1)) (\<lambda>(k0, b).
         bind_result (ReadU64_LE b) (\<lambda>(k1, b).
           let sipHash = SipHash24 k0 k1 hash
           in Inr (take 6 (GetBytes (AppendLittleEndian sipHash (Serializer_new V1)))))))"

definition ShortId_Serialize :: "short_id \<Rightarrow> serializer \<Rightarrow> serializer" where
  "ShortId_Serialize x s = AppendBigInteger x s"

definition ShortId_Deserialize :: "short_id reader" where
  "ShortId_Deserialize = ReadVector 6"

definition ShortId_GetHash :: "hash_fn \<Rightarrow> short_id \<Rightarrow> u8 list" where
  "ShortId_GetHash H x = H x"

section \<open>ProofOfWork\<close>

record proof_of_work =
  pow_edgeBits :: u8
  pow_proofNonces :: "u64 list"
  pow_hash :: big_integer

definition IsPrimary :: "proof_of_work \<Rightarrow> bool" where
  "IsPrimary p \<longleftrightarrow> pow_edgeBits p \<noteq> SECOND_POW_EDGE_BITS \<and> pow_edgeBits p \<ge> DEFAULT_MIN_EDGE_BITS"

definition IsSecondary :: "proof_of_work \<Rightarrow> bool" where
  "IsSecondary p \<longleftrightarrow> pow_edgeBits p = SECOND_POW_EDGE_BITS"

definition cycle_bytes_len :: "u8 \<Rightarrow> nat" where
  "cycle_bytes_len edgeBits = (unat edgeBits * unat PROOFSIZE + 7) div 8"

definition set_cycle_bit :: "nat \<Rightarrow> u8 list \<Rightarrow> u8 list" where
  "set_cycle_bit positionTemp bits =
     bits[positionTemp div 8 := bits ! (positionTemp div 8) OR push_bit (positionTemp mod 8) 1]"

definition pack_nonce :: "nat \<Rightarrow> nat \<Rightarrow> u64 \<Rightarrow> u8 list \<Rightarrow> u8 list" where
  "pack_nonce edgeBits n nonce bits =
     fold (\<lambda>bit bits. if nonce AND push_bit bit 1 \<noteq> 0 then set_cycle_bit (n * edgeBits + bit) bits else bits)
       [0..<edgeBits] bits"

definition cycle_bits :: "u8 \<Rightarrow> u64 list \<Rightarrow> u8 list" where
  "cycle_bits edgeBits proofNonces =
     fold (\<lambda>n. pack_nonce (unat edgeBits) n (proofNonces ! n)) [0..<length proofNonces]
       (replicate (cycle_bytes_len edgeBits) 0)"

definition ProofOfWork_SerializeCycle :: "proof_of_work \<Rightarrow> serializer \<Rightarrow> serializer" where
  "ProofOfWork_SerializeCycle p s = AppendByteVector LEN_NONE (cycle_bits (pow_edgeBits p) (pow_proofNonces p)) s"

definition ProofOfWork_new :: "hash_fn \<Rightarrow> u8 \<Rightarrow> u64 list \<Rightarrow> proof_of_work" where
  "ProofOfWork_new H edgeBits proofNonces =
     (let p = \<lparr>pow_edgeBits = edgeBits, pow_proofNonces = proofNonces, pow_hash = BigInteger_new 32\<rparr>
      in p\<lparr>pow_hash := H (GetBytes (ProofOfWork_SerializeCycle p (Serializer_new V1)))\<rparr>)"

definition ProofOfWork_Serialize :: "proof_of_work \<Rightarrow> serializer \<Rightarrow> serializer" where
  "ProofOfWork_Serialize p s = ProofOfWork_SerializeCycle p (Append (pow_edgeBits p) s)"

definition unpack_nonce :: "nat \<Rightarrow> u8 list \<Rightarrow> nat \<Rightarrow> u64" where
  "unpack_nonce edgeBits bits n =
     fold (\<lambda>bit proofNonce.
         let positionTemp = n * edgeBits + bit
         in if bits ! (positionTemp div 8) AND push_bit (unat (of_nat positionTemp :: u8) mod 8) 1 \<noteq> 0
            then proofNonce OR push_bit bit 1 else proofNonce)
       [0..<edgeBits] 0"

definition DeserializeProofNonces :: "u8 list \<Rightarrow> u8 \<Rightarrow> u64 list result" where
  "DeserializeProofNonces bits edgeBits =
     (if edgeBits = 0 \<or> edgeBits > 63 then Inl DESERIALIZATION_EXCEPTION
      else Inr (map (unpack_nonce (unat edgeBits) bits) [0..<unat PROOFSIZE]))"

definition ProofOfWork_Deserialize :: "hash_fn \<Rightarrow> proof_of_work reader" where
  "ProofOfWork_Deserialize H =
     rbind ReadU8 (\<lambda>edgeBits.
     rbind (ReadVector (of_nat (cycle_bytes_len edgeBits))) (\<lambda>bits.
       case DeserializeProofNonces bits edgeBits of
         Inl e \<Rightarrow> rthrow e
       | Inr proofNonces \<Rightarrow>
           rreturn \<lparr>pow_edgeBits = edgeBits, pow_proofNonces = proofNonces, pow_hash = H bits\<rparr>))"

section \<open>BlockHeader\<close>

record block_header =
  bh_version :: u16
  bh_height :: u64
  bh_timestamp :: i64
  bh_previousBlockHash :: big_integer
  bh_previousRoot :: big_integer
  bh_outputRoot :: big_integer
  bh_rangeProofRoot :: big_integer
  bh_kernelRoot :: big_integer
  bh_totalKernelOffset :: blinding_factor
  bh_outputMMRSize :: u64
  bh_kernelMMRSize :: u64
  bh_totalDifficulty :: u64
  bh_scalingDifficulty :: u32
  bh_nonce :: u64
  bh_proofOfWork :: proof_of_work

definition append_pre_pow :: "block_header \<Rightarrow> serializer \<Rightarrow> serializer" where
  "append_pre_pow h s =
     (let s = Append (bh_version h) s;
          s = Append (bh_height h) s;
          s = Append (bh_timestamp h) s;
          s = AppendBigInteger (bh_previousBlockHash h) s;
          s = AppendBigInteger (bh_previousRoot h) s;
          s = AppendBigInteger (bh_outputRoot h) s;
          s = AppendBigInteger (bh_rangeProofRoot h) s;
          s = AppendBigInteger (bh_kernelRoot h) s;
          s = BlindingFactor_Serialize (bh_totalKernelOffset h) s;
          s = Append (bh_outputMMRSize h) s;
          s = Append (bh_kernelMMRSize h) s;
          s = Append (bh_totalDifficulty h) s;
          s = Append (bh_scalingDifficulty h) s
      in Append (bh_nonce h) s)"

definition BlockHeader_Serialize :: "block_header \<Rightarrow> serializer \<Rightarrow> serializer" where
  "BlockHeader_Serialize h s = ProofOfWork_Serialize (bh_proofOfWork h) (append_pre_pow h s)"

definition BlockHeader_GetPreProofOfWork :: "block_header \<Rightarrow> u8 list" where
  "BlockHeader_GetPreProofOfWork h = GetBytes (append_pre_pow h (Serializer_new V1))"

definition BlockHeader_GetHash :: "block_header \<Rightarrow> big_integer" where
  "BlockHeader_GetHash h = pow_hash (bh_proofOfWork h)"

definition BlockHeader_SerializeWithIndex :: "u64 \<Rightarrow> block_header \<Rightarrow> u8 list" where
  "BlockHeader_SerializeWithIndex index h =
     GetBytes (ProofOfWork_SerializeCycle (bh_proofOfWork h) (Append index (Serializer_new V1)))"

definition BlockHeader_Deserialize :: "hash_fn \<Rightarrow> block_header reader" where
  "BlockHeader_Deserialize H =
     rbind ReadU16 (\<lambda>version.
     rbind ReadU64 (\<lambda>height.
     rbind Read64 (\<lambda>timestamp.
     rbind (ReadBigInteger 32) (\<lambda>previousBlockHash.
     rbind (ReadBigInteger 32) (\<lambda>previousRoot.
     rbind (ReadBigInteger 32) (\<lambda>outputRoot.
     rbind (ReadBigInteger 32) (\<lambda>rangeProofRoot.
     rbind (ReadBigInteger 32) (\<lambda>kernelRoot.
     rbind BlindingFactor_Deserialize (\<lambda>totalKernelOffset.
     rbind ReadU64 (\<lambda>outputMMRSize.
     rbind ReadU64 (\<lambda>kernelMMRSize.
     rbind ReadU64 (\<lambda>totalDifficulty.
     rbind ReadU32 (\<lambda>scalingDifficulty.
     rbind ReadU64 (\<lambda>nonce.
     rbind (ProofOfWork_Deserialize H) (\<lambda>proofOfWork.
       rreturn \<lparr>bh_version = version, bh_height = height, bh_timestamp = timestamp,
         bh_previousBlockHash = previousBlockHash, bh_previousRoot = previousRoot, bh_outputRoot = outputRoot,
         bh_rangeProofRoot = rangeProofRoot, bh_kernelRoot = kernelRoot, bh_totalKernelOffset = totalKernelOffset,
         bh_outputMMRSize = outputMMRSize, bh_kernelMMRSize = kernelMMRSize, bh_totalDifficulty = totalDifficulty,
         bh_scalingDifficulty = scalingDifficulty, bh_nonce = nonce, bh_proofOfWork = proofOfWork\<rparr>)))))))))))))))"

section \<open>FullBlock and CompactBlock\<close>

record full_block =
  fb_header :: block_header
  fb_body :: transaction_body
  fb_validated :: bool

definition FullBlock_new :: "block_header \<Rightarrow> transaction_body \<Rightarrow> full_block" where
  "FullBlock_new h b = \<lparr>fb_header = h, fb_body = b, fb_validated = False\<rparr>"

definition FullBlock_GetInputCommitments :: "full_block \<Rightarrow> commitment list" where
  "FullBlock_GetInputCommitments b = map ti_commitment (tb_inputs (fb_body b))"

definition FullBlock_GetOutputCommitments :: "full_block \<Rightarrow> commitment list" where
  "FullBlock_GetOutputCommitments b = map to_commitment (tb_outputs (fb_body b))"

definition FullBlock_GetTotalFees :: "full_block \<Rightarrow> u64" where
  "FullBlock_GetTotalFees b = foldl (\<lambda>reward kernel. reward + tk_fee kernel) 0 (tb_kernels (fb_body b))"

definition FullBlock_MarkAsValidated :: "full_block \<Rightarrow> full_block" where
  "FullBlock_MarkAsValidated b = b\<lparr>fb_validated := True\<rparr>"

definition FullBlock_Serialize :: "full_block \<Rightarrow> serializer \<Rightarrow> serializer" where
  "FullBlock_Serialize b s = TransactionBody_Serialize (fb_body b) (BlockHeader_Serialize (fb_header b) s)"

definition FullBlock_Deserialize :: "hash_fn \<Rightarrow> full_block reader" where
  "FullBlock_Deserialize H =
     rbind (BlockHeader_Deserialize H) (\<lambda>header.
     rbind (TransactionBody_Deserialize H) (\<lambda>body. rreturn (FullBlock_new header body)))"

record compact_block =
  cb_header :: block_header
  cb_nonce :: u64
  cb_outputs :: "transaction_output list"
  cb_kernels :: "transaction_kernel list"
  cb_shortIds :: "short_id list"

definition CompactBlock_Serialize :: "compact_block \<Rightarrow> serializer \<Rightarrow> serializer" where
  "CompactBlock_Serialize b s =
     (let s = BlockHeader_Serialize (cb_header b) s;
          s = Append (cb_nonce b) s;
          s = Append (of_nat (length (cb_outputs b)) :: u64) s;
          s = Append (of_nat (length (cb_kernels b)) :: u64) s;
          s = Append (of_nat (length (cb_shortIds b)) :: u64) s;
          s = fold TransactionOutput_Serialize (cb_outputs b) s;
          s = fold TransactionKernel_Serialize (cb_kernels b) s
      in fold ShortId_Serialize (cb_shortIds b) s)"

definition CompactBlock_Deserialize :: "hash_fn \<Rightarrow> compact_block reader" where
  "CompactBlock_Deserialize H =
     rbind (BlockHeader_Deserialize H) (\<lambda>header.
     rbind ReadU64 (\<lambda>nonce.
     rbind ReadU64 (\<lambda>numOutputs.
     rbind ReadU64 (\<lambda>numKernels.
     rbind ReadU64 (\<lambda>numShortIds.
     rbind (read_n (unat numOutputs) (TransactionOutput_Deserialize H)) (\<lambda>outputs.
     rbind (read_n (unat numKernels) (TransactionKernel_Deserialize H)) (\<lambda>kernels.
     rbind (read_n (unat numShortIds) ShortId_Deserialize) (\<lambda>shortIds.
       rreturn \<lparr>cb_header = header, cb_nonce = nonce, cb_outputs = outputs, cb_kernels = kernels,
                cb_shortIds = shortIds\<rparr>))))))))"

section \<open>TxHashSetRoots\<close>

record mmr_info =
  mi_root :: big_integer
  mi_size :: u64

record tx_hash_set_roots =
  tr_kernelInfo :: mmr_info
  tr_outputInfo :: mmr_info
  tr_rangeProofInfo :: mmr_info

section \<open>Wire formats of the small models\<close>

definition location_enc :: "EProtocolVersion \<Rightarrow> output_location \<Rightarrow> u8 list" where
  "location_enc v x = be_bytes (ol_mmrIndex x) @ be_bytes (ol_blockHeight x)"

definition spent_enc :: "EProtocolVersion \<Rightarrow> spent_output \<Rightarrow> u8 list" where
  "spent_enc v x = so_commitment x @ location_enc v (so_outputLocation x)"

definition spent_ok :: "EProtocolVersion \<Rightarrow> spent_output \<Rightarrow> bool" where
  "spent_ok v x \<longleftrightarrow> length (so_commitment x) = 33"

interpretation identifier_codec: canonical_codec OutputIdentifier_Serialize OutputIdentifier_Deserialize
  "\<lambda>v x. be_bytes (oi_features x) @ oi_commitment x" "\<lambda>v x. length (oi_commitment x) = 33" "\<lambda>_. True"
proof (rule canonical_codecI)
  show "OutputIdentifier_Serialize x s = insert_end (be_bytes (oi_features x) @ oi_commitment x) s" for x s
    by (simp add: OutputIdentifier_Serialize_def commitment_codec.ser_enc Append_bytes)
  show "decodes v OutputIdentifier_Deserialize (be_bytes (oi_features x) @ oi_commitment x) x"
    if "length (oi_commitment x) = 33" for v and x :: output_identifier
    using that unfolding OutputIdentifier_Deserialize_def
    by (intro decodes_int decodes_last [OF commitment_codec.des_decodes]) auto
  show "consumes v OutputIdentifier_Deserialize
      (\<lambda>e x. e = be_bytes (oi_features x) @ oi_commitment x \<and> length (oi_commitment x) = 33)" for v
    unfolding OutputIdentifier_Deserialize_def
    by (intro consumes_int consumes_bind [OF commitment_codec.des_consumes] consumes_return) auto
qed

interpretation location_codec: canonical_codec OutputLocation_Serialize OutputLocation_Deserialize
  location_enc "\<lambda>_ _. True" "\<lambda>_. True"
proof (rule canonical_codecI)
  show "OutputLocation_Serialize x s = insert_end (location_enc (s_protocolVersion s) x) s" for x s
    by (simp add: OutputLocation_Serialize_def location_enc_def Append_bytes)
  show "decodes v OutputLocation_Deserialize (location_enc v x) x" for v x
    unfolding OutputLocation_Deserialize_def location_enc_def
    by (intro decodes_int decodes_last [OF decodes_ReadInt(4)]) auto
  show "consumes v OutputLocation_Deserialize (\<lambda>e x. e = location_enc v x \<and> True)" for v
    unfolding OutputLocation_Deserialize_def by (intro consumes_int consumes_return) (auto simp: location_enc_def)
qed

interpretation sums_codec: canonical_codec BlockSums_Serialize BlockSums_Deserialize
  "\<lambda>v x. bs_outputSum x @ bs_kernelSum x" "\<lambda>v x. length (bs_outputSum x) = 33 \<and> length (bs_kernelSum x) = 33" "\<lambda>_. True"
proof (rule canonical_codecI)
  show "BlockSums_Serialize x s = insert_end (bs_outputSum x @ bs_kernelSum x) s" for x s
    by (simp add: BlockSums_Serialize_def commitment_codec.ser_enc)
  show "decodes v BlockSums_Deserialize (bs_outputSum x @ bs_kernelSum x) x"
    if "length (bs_outputSum x) = 33 \<and> length (bs_kernelSum x) = 33" for v and x :: block_sums
    using that unfolding BlockSums_Deserialize_def
    by (intro decodes_bind [OF commitment_codec.des_decodes] decodes_last [OF commitment_codec.des_decodes]) auto
  show "consumes v BlockSums_Deserialize
      (\<lambda>e x. e = bs_outputSum x @ bs_kernelSum x \<and> length (bs_outputSum x) = 33 \<and> length (bs_kernelSum x) = 33)" for v
    unfolding BlockSums_Deserialize_def
    by (intro consumes_bind [OF commitment_codec.des_consumes] consumes_return) auto
qed

interpretation spent_codec: canonical_codec SpentOutput_Serialize SpentOutput_Deserialize spent_enc spent_ok "\<lambda>_. True"
proof (rule canonical_codecI)
  show "SpentOutput_Serialize x s = insert_end (spent_enc (s_protocolVersion s) x) s" for x s
    by (simp add: SpentOutput_Serialize_def spent_enc_def commitment_codec.ser_enc location_codec.ser_enc)
  show "decodes v SpentOutput_Deserialize (spent_enc v x) x" if "spent_ok v x" for v x
    using that unfolding SpentOutput_Deserialize_def spent_enc_def spent_ok_def
    by (intro decodes_bind [OF commitment_codec.des_decodes] decodes_last [OF location_codec.des_decodes]) auto
  show "consumes v SpentOutput_Deserialize (\<lambda>e x. e = spent_enc v x \<and> spent_ok v x)" for v
    unfolding SpentOutput_Deserialize_def
    by (intro consumes_bind [OF commitment_codec.des_consumes] consumes_bind [OF location_codec.des_consumes] consumes_return)
      (auto simp: spent_enc_def spent_ok_def)
qed

interpretation short_id_codec: canonical_codec ShortId_Serialize ShortId_Deserialize
  "\<lambda>_ x. x" "\<lambda>_ x. length x = 6" "\<lambda>_. True"
proof (rule canonical_codecI)
  show "ShortId_Serialize x s = insert_end x s" for x s by (simp add: ShortId_Serialize_def AppendBigInteger_def)
  show "decodes v ShortId_Deserialize x x" if "length x = 6" for v x
    using that by (simp add: ShortId_Deserialize_def decodes_ReadVector)
  show "consumes v ShortId_Deserialize (\<lambda>e x. e = x \<and> length x = 6)" for v
    using consumes_ReadVector [of v 6] by (simp add: ShortId_Deserialize_def)
qed

lemma ucast_length_u16: "n < 2 ^ 16 \<Longrightarrow> unat (ucast (of_nat n :: u64) :: u16) = n"
  by (simp add: unsigned_ucast_eq unsigned_take_bit_eq unat_of_nat_small take_bit_nat_eq_self)

definition spents_enc :: "EProtocolVersion \<Rightarrow> spent_output list \<Rightarrow> u8 list" where
  "spents_enc v xs =
     be_bytes (0 :: u8) @ be_bytes (ucast (of_nat (length xs) :: u64) :: u16) @ concat (map (spent_enc v) xs)"

interpretation spents_codec: codec SpentOutputs_Serialize SpentOutputs_Deserialize
  spents_enc "\<lambda>v xs. list_all (spent_ok v) xs \<and> length xs < 2 ^ 16"
proof (rule codecI)
  show "SpentOutputs_Serialize xs s = insert_end (spents_enc (s_protocolVersion s) xs) s" for xs s
    by (simp add: SpentOutputs_Serialize_def spents_enc_def Append_bytes spent_codec.fold_ser)
  show "decodes v SpentOutputs_Deserialize (spents_enc v xs) xs" if "list_all (spent_ok v) xs \<and> length xs < 2 ^ 16" for v xs
    using that unfolding SpentOutputs_Deserialize_def spents_enc_def
    by (intro decodes_int spent_codec.read_n_decodes) (simp_all add: ucast_length_u16)
qed

section \<open>The bits of a proof\<close>

definition packed_bit :: "u8 list \<Rightarrow> nat \<Rightarrow> bool" where
  "packed_bit bits p \<longleftrightarrow> bit (bits ! (p div 8)) (p mod 8)"

lemma bit_two_power: "bit ((2 :: 'a::len word) ^ n) m \<longleftrightarrow> m = n \<and> m < LENGTH('a)"
  by (auto simp: bit_exp_iff dest: bit_imp_le_length)

lemma and_push_bit_1: "(w :: 'a::len word) AND push_bit n 1 \<noteq> 0 \<longleftrightarrow> bit w n"
proof -
  have "w AND push_bit n 1 = (if bit w n then push_bit n 1 else 0)"
    by (rule bit_eqI) (auto simp: bit_and_iff bit_two_power)
  moreover have "push_bit n (1 :: 'a word) \<noteq> 0" if "bit w n"
  proof -
    have "n < LENGTH('a)" using that bit_imp_le_length by blast
    then have "bit (push_bit n (1 :: 'a word)) n" by (simp add: bit_two_power)
    then show ?thesis by (metis bit_0_eq bot_apply bot_bool_def)
  qed
  ultimately show ?thesis by auto
qed

lemma length_set_cycle_bit [simp]: "length (set_cycle_bit p bits) = length bits"
  by (simp add: set_cycle_bit_def)

lemma packed_set_cycle_bit:
  assumes "p div 8 < length bits" "q div 8 < length bits"
  shows "packed_bit (set_cycle_bit p bits) q \<longleftrightarrow> packed_bit bits q \<or> q = p"
proof (cases "q div 8 = p div 8")
  case True
  then have "q = p \<longleftrightarrow> q mod 8 = p mod 8" by (metis mult_div_mod_eq)
  moreover have "p mod 8 < 8" "q mod 8 < 8" by simp_all
  ultimately show ?thesis
    using True assms by (auto simp: packed_bit_def set_cycle_bit_def bit_or_iff bit_two_power)
next
  case False
  then show ?thesis using assms by (auto simp: packed_bit_def set_cycle_bit_def)
qed

lemma pack_nonce_fold:
  fixes nonce :: u64
  assumes "m \<le> e" and "\<And>b. b < e \<Longrightarrow> (n * e + b) div 8 < length bits"
  shows "length (fold (\<lambda>b bits. if nonce AND push_bit b 1 \<noteq> 0 then set_cycle_bit (n * e + b) bits else bits) [0..<m] bits) =
      length bits \<and>
    (\<forall>q. q div 8 < length bits \<longrightarrow>
      (packed_bit (fold (\<lambda>b bits. if nonce AND push_bit b 1 \<noteq> 0 then set_cycle_bit (n * e + b) bits else bits) [0..<m] bits) q
        \<longleftrightarrow> packed_bit bits q \<or> (\<exists>b<m. bit nonce b \<and> q = n * e + b)))"
  using assms(1) unfolding and_push_bit_1
proof (induction m)
  case (Suc m)
  then have "length (fold (\<lambda>b bits. if bit nonce b then set_cycle_bit (n * e + b) bits else bits) [0..<m] bits) = length bits"
    by simp
  moreover have "(n * e + m) div 8 < length bits" using Suc.prems assms(2) by simp
  ultimately show ?case
    using Suc by (auto simp: packed_set_cycle_bit less_Suc_eq)
qed simp

lemma pack_nonce_bits:
  assumes "\<And>b. b < e \<Longrightarrow> (n * e + b) div 8 < length bits"
  shows "length (pack_nonce e n nonce bits) = length bits"
    and "q div 8 < length bits \<Longrightarrow>
      packed_bit (pack_nonce e n nonce bits) q \<longleftrightarrow> packed_bit bits q \<or> (\<exists>b<e. bit nonce b \<and> q = n * e + b)"
  using pack_nonce_fold [of e e n bits nonce] assms by (simp_all add: pack_nonce_def)

lemma proof_position:
  assumes "n < unat PROOFSIZE" "b < unat edgeBits"
  shows "(n * unat edgeBits + b) div 8 < cycle_bytes_len edgeBits"
proof -
  have "n * unat edgeBits + b < (n + 1) * unat edgeBits" using assms by simp
  also have "\<dots> \<le> unat PROOFSIZE * unat edgeBits" using assms by (intro mult_right_mono) simp_all
  finally have "n * unat edgeBits + b < unat edgeBits * unat PROOFSIZE" by (simp add: mult.commute)
  then have "n * unat edgeBits + b + 8 \<le> unat edgeBits * unat PROOFSIZE + 7" by simp
  then have "(n * unat edgeBits + b + 8) div 8 \<le> (unat edgeBits * unat PROOFSIZE + 7) div 8" by (rule div_le_mono)
  then show ?thesis by (simp add: cycle_bytes_len_def)
qed

lemma cycle_bits_fold:
  assumes "m \<le> length xs" "length xs \<le> unat PROOFSIZE"
  shows "length (fold (\<lambda>n. pack_nonce (unat e) n (xs ! n)) [0..<m] (replicate (cycle_bytes_len e) 0)) = cycle_bytes_len e \<and>
    (\<forall>q. q div 8 < cycle_bytes_len e \<longrightarrow>
      (packed_bit (fold (\<lambda>n. pack_nonce (unat e) n (xs ! n)) [0..<m] (replicate (cycle_bytes_len e) 0)) q
        \<longleftrightarrow> (\<exists>n b. n < m \<and> b < unat e \<and> bit (xs ! n) b \<and> q = n * unat e + b)))"
  using assms(1)
proof (induction m)
  case 0
  then show ?case by (simp add: packed_bit_def)
next
  case (Suc m)
  let ?bits = "fold (\<lambda>n. pack_nonce (unat e) n (xs ! n)) [0..<m] (replicate (cycle_bytes_len e) 0)"
  have IH: "length ?bits = cycle_bytes_len e"
    "\<And>q. q div 8 < cycle_bytes_len e \<Longrightarrow> packed_bit ?bits q \<longleftrightarrow> (\<exists>n b. n < m \<and> b < unat e \<and> bit (xs ! n) b \<and> q = n * unat e + b)"
    using Suc by auto
  have "(m * unat e + b) div 8 < length ?bits" if "b < unat e" for b
    using proof_position [of m b e] that Suc.prems assms(2) IH(1) by simp
  note pk = pack_nonce_bits [where e = "unat e" and n = m and bits = ?bits and nonce = "xs ! m", OF this]
  show ?case using pk IH by (auto simp: less_Suc_eq)
qed

lemma length_cycle_bits: "length xs \<le> unat PROOFSIZE \<Longrightarrow> length (cycle_bits e xs) = cycle_bytes_len e"
  using cycle_bits_fold [of "length xs" xs e] by (simp add: cycle_bits_def)

lemma packed_cycle_bits:
  assumes "length xs \<le> unat PROOFSIZE" "n < length xs" "b < unat e"
  shows "packed_bit (cycle_bits e xs) (n * unat e + b) \<longleftrightarrow> bit (xs ! n) b"
proof -
  have "(n * unat e + b) div 8 < cycle_bytes_len e" using assms by (intro proof_position) simp_all
  then have "packed_bit (cycle_bits e xs) (n * unat e + b) \<longleftrightarrow>
      (\<exists>n' b'. n' < length xs \<and> b' < unat e \<and> bit (xs ! n') b' \<and> n * unat e + b = n' * unat e + b')"
    using cycle_bits_fold [of "length xs" xs e] assms(1) by (simp add: cycle_bits_def)
  moreover have "n = n' \<and> b = b'" if "n * unat e + b = n' * unat e + b'" "b' < unat e" for n' b'
  proof -
    have "(n * unat e + b) div unat e = n" "(n' * unat e + b') div unat e = n'" using assms(3) that(2) by simp_all
    then show ?thesis using that(1) by auto
  qed
  ultimately show ?thesis using assms by blast
qed

lemma byte_cast_mod_8: "unat (of_nat p :: u8) mod 8 = p mod 8"
  by (simp add: unat_of_nat take_bit_eq_mod mod_mod_cancel)

lemma unpack_nonce_fold:
  "bit (fold (\<lambda>b w. let p = n * e + b
         in if bits ! (p div 8) AND push_bit (unat (of_nat p :: u8) mod 8) 1 \<noteq> 0 then w OR push_bit b 1 else w)
       [0..<m] (0 :: u64)) j \<longleftrightarrow> j < m \<and> j < 64 \<and> packed_bit bits (n * e + j)"
  unfolding Let_def byte_cast_mod_8 and_push_bit_1
  by (induction m) (auto simp: packed_bit_def bit_or_iff bit_two_power less_Suc_eq)

lemma bit_unpack_nonce:
  "bit (unpack_nonce e bits n) j \<longleftrightarrow> j < e \<and> j < 64 \<and> packed_bit bits (n * e + j)"
  unfolding unpack_nonce_def by (rule unpack_nonce_fold)

lemma unpack_cycle_bits:
  assumes "unat e \<le> 64" and "length xs = unat PROOFSIZE" and "\<And>x. x \<in> set xs \<Longrightarrow> unat x < 2 ^ unat e"
  shows "map (unpack_nonce (unat e) (cycle_bits e xs)) [0..<unat PROOFSIZE] = xs"
proof (rule nth_equalityI)
  fix n assume "n < length (map (unpack_nonce (unat e) (cycle_bits e xs)) [0..<unat PROOFSIZE])"
  then have n: "n < length xs" using assms(2) by simp
  have top: "j < unat e" if "bit (xs ! n) j" for j
  proof -
    have "take_bit (unat e) (unat (xs ! n)) = unat (xs ! n)" using assms(3) n by (intro take_bit_nat_eq_self) simp
    moreover have "bit (unat (xs ! n)) j" using that by (simp add: bit_unsigned_iff bit_imp_le_length)
    ultimately show ?thesis by (metis bit_take_bit_iff)
  qed
  have "unpack_nonce (unat e) (cycle_bits e xs) n = xs ! n"
    using packed_cycle_bits [of xs n _ e] n assms(1,2) top by (intro bit_eqI) (auto simp: bit_unpack_nonce)
  then show "map (unpack_nonce (unat e) (cycle_bits e xs)) [0..<unat PROOFSIZE] ! n = xs ! n" using n assms(2) by simp
qed (use assms in simp)

definition pow_enc :: "EProtocolVersion \<Rightarrow> proof_of_work \<Rightarrow> u8 list" where
  "pow_enc v p = be_bytes (pow_edgeBits p) @ cycle_bits (pow_edgeBits p) (pow_proofNonces p)"

definition pow_ok :: "hash_fn \<Rightarrow> EProtocolVersion \<Rightarrow> proof_of_work \<Rightarrow> bool" where
  "pow_ok H v p \<longleftrightarrow>
     pow_edgeBits p \<noteq> 0 \<and> pow_edgeBits p \<le> 63 \<and> length (pow_proofNonces p) = unat PROOFSIZE \<and>
     (\<forall>x\<in>set (pow_proofNonces p). unat x < 2 ^ unat (pow_edgeBits p)) \<and>
     pow_hash p = H (cycle_bits (pow_edgeBits p) (pow_proofNonces p))"

lemma cycle_bytes_len_small: "cycle_bytes_len e < 2 ^ 16"
proof -
  have "unat e < 256" using unsigned_less [of e, where ?'a = nat] by simp
  then have "unat e * unat PROOFSIZE + 7 \<le> 256 * 42 + 7" by (simp add: PROOFSIZE_def)
  then show ?thesis by (simp add: cycle_bytes_len_def)
qed

interpretation pow_codec: codec ProofOfWork_Serialize "ProofOfWork_Deserialize H" pow_enc "pow_ok H" for H
proof (rule codecI)
  show "ProofOfWork_Serialize x s = insert_end (pow_enc (s_protocolVersion s) x) s" for x s
    by (simp add: ProofOfWork_Serialize_def ProofOfWork_SerializeCycle_def pow_enc_def writer_defs)
  show "decodes v (ProofOfWork_Deserialize H) (pow_enc v x) x" if ok: "pow_ok H v x" for v x
  proof -
    let ?e = "pow_edgeBits x" and ?xs = "pow_proofNonces x"
    have e: "unat ?e \<le> 64" using ok by (simp add: pow_ok_def word_le_nat_alt)
    have "DeserializeProofNonces (cycle_bits ?e ?xs) ?e = Inr ?xs"
      using ok unpack_cycle_bits [OF e, of ?xs] by (auto simp: DeserializeProofNonces_def pow_ok_def)
    moreover have "length (cycle_bits ?e ?xs) = unat (of_nat (cycle_bytes_len ?e) :: u64)"
      using ok length_cycle_bits [of ?xs ?e] cycle_bytes_len_small [of ?e] by (simp add: pow_ok_def unat_of_nat_small)
    ultimately show ?thesis
      using ok unfolding ProofOfWork_Deserialize_def pow_enc_def pow_ok_def
      by (intro decodes_int decodes_last [OF decodes_ReadVector]) auto
  qed
qed

definition header_enc :: "EProtocolVersion \<Rightarrow> block_header \<Rightarrow> u8 list" where
  "header_enc v h =
     be_bytes (bh_version h) @ be_bytes (bh_height h) @ be_bytes (bh_timestamp h) @ bh_previousBlockHash h @
     bh_previousRoot h @ bh_outputRoot h @ bh_rangeProofRoot h @ bh_kernelRoot h @ bh_totalKernelOffset h @
     be_bytes (bh_outputMMRSize h) @ be_bytes (bh_kernelMMRSize h) @ be_bytes (bh_totalDifficulty h) @
     be_bytes (bh_scalingDifficulty h) @ be_bytes (bh_nonce h) @ pow_enc v (bh_proofOfWork h)"

definition header_ok :: "hash_fn \<Rightarrow> EProtocolVersion \<Rightarrow> block_header \<Rightarrow> bool" where
  "header_ok H v h \<longleftrightarrow>
     length (bh_previousBlockHash h) = 32 \<and> length (bh_previousRoot h) = 32 \<and> length (bh_outputRoot h) = 32 \<and>
     length (bh_rangeProofRoot h) = 32 \<and> length (bh_kernelRoot h) = 32 \<and> length (bh_totalKernelOffset h) = 32 \<and>
     pow_ok H v (bh_proofOfWork h)"

interpretation header_codec: codec BlockHeader_Serialize "BlockHeader_Deserialize H" header_enc "header_ok H" for H
proof (rule codecI)
  show "BlockHeader_Serialize x s = insert_end (header_enc (s_protocolVersion s) x) s" for x s
    by (simp add: BlockHeader_Serialize_def append_pre_pow_def header_enc_def pow_codec.ser_enc blinding_factor_codec.ser_enc
        Append_bytes AppendBigInteger_def Let_def)
  show "decodes v (BlockHeader_Deserialize H) (header_enc v x) x" if "header_ok H v x" for v x
    using that unfolding BlockHeader_Deserialize_def header_enc_def header_ok_def
    by (intro decodes_int decodes_bind [OF decodes_ReadBigInteger] decodes_bind [OF blinding_factor_codec.des_decodes]
        decodes_last [OF pow_codec.des_decodes]) auto
qed

interpretation block_codec: codec FullBlock_Serialize "FullBlock_Deserialize H"
  "\<lambda>v b. header_enc v (fb_header b) @ body_enc v (fb_body b)"
  "\<lambda>v b. header_ok H v (fb_header b) \<and> body_ok H v (fb_body b) \<and> \<not> fb_validated b" for H
proof (rule codecI)
  show "FullBlock_Serialize x s =
      insert_end (header_enc (s_protocolVersion s) (fb_header x) @ body_enc (s_protocolVersion s) (fb_body x)) s" for x s
    by (simp add: FullBlock_Serialize_def header_codec.ser_enc body_codec.ser_enc)
  show "decodes v (FullBlock_Deserialize H) (header_enc v (fb_header x) @ body_enc v (fb_body x)) x"
    if "header_ok H v (fb_header x) \<and> body_ok H v (fb_body x) \<and> \<not> fb_validated x" for v and x :: full_block
    using that unfolding FullBlock_Deserialize_def
    by (intro decodes_bind [OF header_codec.des_decodes] decodes_last [OF body_codec.des_decodes])
      (auto simp: FullBlock_new_def)
qed

definition compact_enc :: "EProtocolVersion \<Rightarrow> compact_block \<Rightarrow> u8 list" where
  "compact_enc v b =
     header_enc v (cb_header b) @ be_bytes (cb_nonce b) @ be_bytes (of_nat (length (cb_outputs b)) :: u64) @
     be_bytes (of_nat (length (cb_kernels b)) :: u64) @ be_bytes (of_nat (length (cb_shortIds b)) :: u64) @
     concat (map (output_enc v) (cb_outputs b)) @ concat (map (kernel_enc v) (cb_kernels b)) @ concat (cb_shortIds b)"

definition compact_ok :: "hash_fn \<Rightarrow> EProtocolVersion \<Rightarrow> compact_block \<Rightarrow> bool" where
  "compact_ok H v b \<longleftrightarrow>
     header_ok H v (cb_header b) \<and> list_all (output_ok H v) (cb_outputs b) \<and> list_all (kernel_ok H v) (cb_kernels b) \<and>
     list_all (\<lambda>x. length x = 6) (cb_shortIds b) \<and>
     length (cb_outputs b) < 2 ^ 64 \<and> length (cb_kernels b) < 2 ^ 64 \<and> length (cb_shortIds b) < 2 ^ 64"

interpretation compact_codec: codec CompactBlock_Serialize "CompactBlock_Deserialize H" compact_enc "compact_ok H" for H
proof (rule codecI)
  show "CompactBlock_Serialize x s = insert_end (compact_enc (s_protocolVersion s) x) s" for x s
    by (simp add: CompactBlock_Serialize_def compact_enc_def header_codec.ser_enc Append_bytes output_codec.fold_ser
        kernel_codec.fold_ser short_id_codec.fold_ser Let_def)
  show "decodes v (CompactBlock_Deserialize H) (compact_enc v x) x" if "compact_ok H v x" for v x
    using that short_id_codec.read_n_decodes [where v = v and xs = "cb_shortIds x", OF _ refl]
    unfolding CompactBlock_Deserialize_def compact_ok_def compact_enc_def
    by (intro decodes_bind [OF header_codec.des_decodes] decodes_int decodes_bind [OF output_codec.read_n_decodes]
        decodes_bind [OF kernel_codec.read_n_decodes] decodes_last [where m = "read_n _ ShortId_Deserialize"])
      (auto simp: unat_of_nat_small)
qed

section \<open>Properties of the block formats\<close>


definition sample_pow :: proof_of_work where
  "sample_pow = ProofOfWork_new sample_hash 29 (map of_nat [1..<43])"

definition sample_header :: block_header where
  "sample_header = \<lparr>bh_version = 1, bh_height = 5, bh_timestamp = 1000, bh_previousBlockHash = replicate 32 1,
     bh_previousRoot = replicate 32 2, bh_outputRoot = replicate 32 3, bh_rangeProofRoot = replicate 32 4,
     bh_kernelRoot = replicate 32 5, bh_totalKernelOffset = replicate 32 6, bh_outputMMRSize = 1, bh_kernelMMRSize = 1,
     bh_totalDifficulty = 10, bh_scalingDifficulty = 1, bh_nonce = 3, bh_proofOfWork = sample_pow\<rparr>"

lemma pow_hash_new:
  "ProofOfWork_new H e xs = \<lparr>pow_edgeBits = e, pow_proofNonces = xs, pow_hash = H (cycle_bits e xs)\<rparr>"
  by (simp add: ProofOfWork_new_def ProofOfWork_SerializeCycle_def writer_defs GetBytes_def)

lemma sample_header_ok: "header_ok sample_hash v sample_header"
proof -
  have "unat (of_nat n :: u64) < 2 ^ 29" if "n < 43" for n
    using that by (subst unat_of_nat_small) simp_all
  then show ?thesis
    by (auto simp: header_ok_def sample_header_def sample_pow_def pow_hash_new pow_ok_def PROOFSIZE_def)
qed


text \<open>The padding bits that fill the last byte of a proof are not read.\<close>

definition set_padding :: "u8 list \<Rightarrow> u8 list" where
  "set_padding bits = bits[length bits - 1 := last bits OR 0x80]"

lemma length_set_padding [simp]: "length (set_padding bits) = length bits"
  by (simp add: set_padding_def)

lemma padding_position:
  assumes "(unat e * unat PROOFSIZE) mod 8 \<noteq> 0" "n < unat PROOFSIZE" "b < unat e"
  shows "n * unat e + b \<noteq> 8 * cycle_bytes_len e - 1"
proof -
  have "n * unat e + b < (n + 1) * unat e" using assms by simp
  also have "\<dots> \<le> unat PROOFSIZE * unat e" using assms by (intro mult_right_mono) simp_all
  finally have "n * unat e + b < unat e * unat PROOFSIZE" by (simp add: mult.commute)
  moreover have "unat e * unat PROOFSIZE \<le> 8 * cycle_bytes_len e - 1"
    using assms(1) unfolding cycle_bytes_len_def by presburger
  ultimately show ?thesis by simp
qed

lemma padding_unset:
  assumes "(unat e * unat PROOFSIZE) mod 8 \<noteq> 0" "length xs = unat PROOFSIZE" "cycle_bytes_len e \<noteq> 0"
  shows "\<not> packed_bit (cycle_bits e xs) (8 * cycle_bytes_len e - 1)"
proof -
  have "(8 * cycle_bytes_len e - 1) div 8 < cycle_bytes_len e" using assms(3) by presburger
  then show ?thesis
    using cycle_bits_fold [of "length xs" xs e] padding_position [OF assms(1)] assms(2)
    by (fastforce simp: cycle_bits_def)
qed

lemma packed_set_padding:
  assumes "bits \<noteq> []" "q div 8 < length bits" "q \<noteq> 8 * length bits - 1"
  shows "packed_bit (set_padding bits) q = packed_bit bits q"
proof (cases "q div 8 = length bits - 1")
  case True
  then have "q mod 8 \<noteq> 7" using assms by presburger
  moreover have "q mod 8 < 8" by simp
  moreover have "bit (0x80 :: u8) (q mod 8) \<longleftrightarrow> q mod 8 = 7"
    using bit_two_power [of 7 "q mod 8", where ?'a = 8] by auto
  ultimately show ?thesis
    using True assms by (simp add: packed_bit_def set_padding_def last_conv_nth bit_or_iff)
next
  case False
  then show ?thesis using assms by (simp add: packed_bit_def set_padding_def)
qed

lemma last_bit_position:
  fixes n :: nat
  assumes "n \<noteq> 0"
  shows "(8 * n - 1) div 8 = n - 1" "(8 * n - 1) mod 8 = 7"
proof -
  from assms obtain m where "n = Suc m" by (cases n) simp_all
  then have "8 * n - 1 = m * 8 + 7" by simp
  then show "(8 * n - 1) div 8 = n - 1" "(8 * n - 1) mod 8 = 7" using \<open>n = Suc m\<close> by simp_all
qed

text \<open>C36. The encoding of a proof of work is malleable: unless the packed nonces fill their last byte,
  setting a padding bit gives other bytes that \<^verbatim>\<open>Deserialize\<close> also accepts, as the same edge bits
  and nonces, but with the hash of the altered bytes, so the same proof gets another block hash.\<close>

theorem ProofOfWork_padding_malleable:
  assumes "pow_ok H v p" and "(unat (pow_edgeBits p) * unat PROOFSIZE) mod 8 \<noteq> 0"
  shows "set_padding (cycle_bits (pow_edgeBits p) (pow_proofNonces p)) \<noteq> cycle_bits (pow_edgeBits p) (pow_proofNonces p) \<and>
    (\<exists>b. ProofOfWork_Deserialize H
       (ByteBuffer_new (be_bytes (pow_edgeBits p) @ set_padding (cycle_bits (pow_edgeBits p) (pow_proofNonces p))) v) =
       Inr (p\<lparr>pow_hash := H (set_padding (cycle_bits (pow_edgeBits p) (pow_proofNonces p)))\<rparr>, b))"
proof -
  let ?e = "pow_edgeBits p" and ?bits = "cycle_bits (pow_edgeBits p) (pow_proofNonces p)"
  have e: "unat ?e \<le> 64" and xs: "length (pow_proofNonces p) = unat PROOFSIZE"
    using assms(1) by (simp_all add: pow_ok_def word_le_nat_alt)
  have len: "length ?bits = cycle_bytes_len ?e" using xs length_cycle_bits by simp
  have "cycle_bytes_len ?e \<noteq> 0" using assms(2) by (auto simp: cycle_bytes_len_def)
  then have ne: "?bits \<noteq> []" using len by auto
  have "unpack_nonce (unat ?e) (set_padding ?bits) n = unpack_nonce (unat ?e) ?bits n" if "n < unat PROOFSIZE" for n
    using that packed_set_padding [OF ne] padding_position [OF assms(2) that] proof_position [OF that, of _ ?e] len
    by (intro bit_eqI) (auto simp: bit_unpack_nonce)
  then have "map (unpack_nonce (unat ?e) (set_padding ?bits)) [0..<unat PROOFSIZE] =
      map (unpack_nonce (unat ?e) ?bits) [0..<unat PROOFSIZE]" by simp
  also have "\<dots> = pow_proofNonces p" using assms(1) by (intro unpack_cycle_bits [OF e xs]) (simp add: pow_ok_def)
  finally have "DeserializeProofNonces (set_padding ?bits) ?e = Inr (pow_proofNonces p)"
    using assms(1) by (auto simp: DeserializeProofNonces_def pow_ok_def)
  moreover have "length (set_padding ?bits) = unat (of_nat (cycle_bytes_len ?e) :: u64)"
    using len cycle_bytes_len_small [of ?e] by (simp add: set_padding_def unat_of_nat_small)
  ultimately have "decodes v (ProofOfWork_Deserialize H) (be_bytes ?e @ set_padding ?bits)
      (p\<lparr>pow_hash := H (set_padding ?bits)\<rparr>)"
    unfolding ProofOfWork_Deserialize_def by (intro decodes_int decodes_last [OF decodes_ReadVector]) auto
  moreover have "length (be_bytes ?e @ set_padding ?bits) < 2 ^ 64" using cycle_bytes_len_small [of ?e] len by simp
  ultimately have "\<exists>b. ProofOfWork_Deserialize H (ByteBuffer_new (be_bytes ?e @ set_padding ?bits) v) =
      Inr (p\<lparr>pow_hash := H (set_padding ?bits)\<rparr>, b)"
    by (auto dest: decodes_new)
  moreover have "set_padding ?bits \<noteq> ?bits"
  proof
    have pos: "(8 * cycle_bytes_len ?e - 1) div 8 = length ?bits - 1" "(8 * cycle_bytes_len ?e - 1) mod 8 = 7"
      using last_bit_position [OF \<open>cycle_bytes_len ?e \<noteq> 0\<close>] len by simp_all
    assume "set_padding ?bits = ?bits"
    moreover have "packed_bit (set_padding ?bits) (8 * cycle_bytes_len ?e - 1)"
      using ne pos bit_two_power [of 7 7, where ?'a = 8] by (simp add: packed_bit_def set_padding_def bit_or_iff)
    ultimately show False using padding_unset [OF assms(2)] xs \<open>cycle_bytes_len ?e \<noteq> 0\<close> by simp
  qed
  ultimately show ?thesis by blast
qed

theorem ProofOfWork_padding_malleable_witness:
  "\<exists>b h. ProofOfWork_Deserialize sample_hash
     (ByteBuffer_new (be_bytes (29 :: u8) @ set_padding (cycle_bits 29 (map of_nat [1..<43]))) V1) =
     Inr (sample_pow\<lparr>pow_hash := h\<rparr>, b)"
proof -
  have ok: "pow_ok sample_hash V1 sample_pow"
    using sample_header_ok [of V1] by (simp add: header_ok_def sample_header_def)
  have "(unat (29 :: u8) * unat PROOFSIZE) mod 8 \<noteq> 0" by code_simp
  then show ?thesis
    using ProofOfWork_padding_malleable [OF ok] by (auto simp: sample_pow_def pow_hash_new)
qed

end
