(* ===== verification/Difficulty.thy ===== *)
theory Difficulty
  imports Block_Models
begin

text \<open>
  Proof-of-work validation (\<^verbatim>\<open>src/PoW\<close>): the difficulty window
  (\<^verbatim>\<open>DifficultyLoader\<close>), the next difficulty and secondary scaling
  (\<^verbatim>\<open>DifficultyCalculator\<close>), the maximum difficulty of a proof and the acceptance test
  (\<^verbatim>\<open>PoWValidator\<close>, \<^verbatim>\<open>PoWManager\<close>).

  The block database is a parameter \<open>db\<close>, the partial map from block hashes to headers that
  \<^verbatim>\<open>GetBlockHeader\<close> reads. The cycle verifiers of the vendored Cuckoo library are the
  fields of the parameter \<open>cuckoo\<close>.
\<close>

section \<open>HeaderInfo\<close>

record header_info =
  hi_timestamp :: u64
  hi_difficulty :: u64
  hi_secondaryScaling :: u32
  hi_secondary :: bool

definition FromTimeAndDiff :: "u64 \<Rightarrow> u64 \<Rightarrow> header_info" where
  "FromTimeAndDiff timestamp difficulty =
     \<lparr>hi_timestamp = timestamp, hi_difficulty = difficulty, hi_secondaryScaling = INITIAL_GRAPH_WEIGHT, hi_secondary = True\<rparr>"

definition FromDiffAndScaling :: "u64 \<Rightarrow> u64 \<Rightarrow> header_info" where
  "FromDiffAndScaling difficulty secondaryScaling =
     \<lparr>hi_timestamp = 1, hi_difficulty = difficulty, hi_secondaryScaling = ucast secondaryScaling, hi_secondary = True\<rparr>"

section \<open>DifficultyLoader\<close>

type_synonym header_db = "big_integer \<rightharpoonup> block_header"

definition numBlocksNeeded :: nat where
  "numBlocksNeeded = unat (DIFFICULTY_ADJUST_WINDOW + 1)"

text \<open>The loop appends one entry per header, newest first, until the window is full or no parent is
  known; the first argument counts the entries still missing.\<close>

fun LoadDifficultyData_loop :: "header_db \<Rightarrow> nat \<Rightarrow> block_header option \<Rightarrow> header_info list" where
  "LoadDifficultyData_loop db 0 pHeader = []"
| "LoadDifficultyData_loop db (Suc k) None = []"
| "LoadDifficultyData_loop db (Suc k) (Some header) =
     (let next = db (bh_previousBlockHash header);
          difficulty = (case next of
              Some previous \<Rightarrow> bh_totalDifficulty header - bh_totalDifficulty previous
            | None \<Rightarrow> bh_totalDifficulty header)
      in \<lparr>hi_timestamp = bh_timestamp header, hi_difficulty = difficulty,
          hi_secondaryScaling = bh_scalingDifficulty header,
          hi_secondary = IsSecondary (bh_proofOfWork header)\<rparr> # LoadDifficultyData_loop db k next)"

primrec PadDifficultyData_loop :: "nat \<Rightarrow> u64 \<Rightarrow> u64 \<Rightarrow> u64 \<Rightarrow> header_info list" where
  "PadDifficultyData_loop 0 last_ts last_ts_delta last_diff = []"
| "PadDifficultyData_loop (Suc k) last_ts last_ts_delta last_diff =
     (let last_ts = last_ts - min last_ts last_ts_delta
      in FromTimeAndDiff last_ts last_diff # PadDifficultyData_loop k last_ts last_ts_delta last_diff)"

definition PadDifficultyData :: "header_info list \<Rightarrow> header_info list result" where
  "PadDifficultyData difficultyData =
     (let size = length difficultyData
      in if numBlocksNeeded > size then
           if size = 0 then Inl UNDEFINED_BEHAVIOUR
           else
             let last_ts_delta =
                   (if size > 1 then hi_timestamp (difficultyData ! 0) - hi_timestamp (difficultyData ! 1)
                    else BLOCK_TIME_SEC);
                 last_diff = hi_difficulty (difficultyData ! 0);
                 last_ts = hi_timestamp (last difficultyData)
             in Inr (rev (difficultyData @ PadDifficultyData_loop (numBlocksNeeded - size) last_ts last_ts_delta last_diff))
         else Inr (rev difficultyData))"

definition LoadDifficultyData :: "header_db \<Rightarrow> block_header \<Rightarrow> header_info list result" where
  "LoadDifficultyData db header =
     PadDifficultyData (LoadDifficultyData_loop db numBlocksNeeded (db (bh_previousBlockHash header)))"

section \<open>DifficultyCalculator\<close>

definition ARCount :: "header_info list \<Rightarrow> u64" where
  "ARCount difficultyData =
     foldl (\<lambda>numSecondary headerInfo. if hi_secondary headerInfo then numSecondary + 1 else numSecondary) 0 difficultyData * 100"

definition ScalingFactorSum :: "header_info list \<Rightarrow> u64" where
  "ScalingFactorSum difficultyData = foldl (\<lambda>sum headerInfo. sum + ucast (hi_secondaryScaling headerInfo)) 0 difficultyData"

definition SecondaryPOWScaling :: "u64 \<Rightarrow> header_info list \<Rightarrow> u32" where
  "SecondaryPOWScaling height difficultyData =
     (let scale_sum = ScalingFactorSum difficultyData;
          target_pct = SecondaryPOWRatio height;
          target_count = DIFFICULTY_ADJUST_WINDOW * target_pct;
          actual = Damp (ARCount difficultyData) target_count AR_SCALE_DAMP_FACTOR;
          adj_count = Clamp actual target_count CLAMP_FACTOR;
          scale = scale_sum * target_pct div max 1 adj_count
      in ucast (max MIN_AR_SCALE scale))"

definition CalculateNextDifficulty :: "header_db \<Rightarrow> block_header \<Rightarrow> header_info result" where
  "CalculateNextDifficulty db header =
     bind_result (LoadDifficultyData db header) (\<lambda>difficultyData.
       let difficultyDataSkipFirst = tl difficultyData;
           sec_pow_scaling = ucast (SecondaryPOWScaling (bh_height header) difficultyDataSkipFirst);
           ts_delta = hi_timestamp (difficultyData ! unat DIFFICULTY_ADJUST_WINDOW) - hi_timestamp (difficultyData ! 0);
           difficultySum = foldl (\<lambda>sum headerInfo. sum + hi_difficulty headerInfo) 0 difficultyDataSkipFirst;
           actual = Damp ts_delta BLOCK_TIME_WINDOW DAMP_FACTOR;
           adj_ts = Clamp actual BLOCK_TIME_WINDOW CLAMP_FACTOR;
           difficulty = max MIN_DIFFICULTY (difficultySum * BLOCK_TIME_SEC div adj_ts)
       in Inr (FromDiffAndScaling difficulty sec_pow_scaling))"

section \<open>PoWUtil and the cycle verifiers\<close>

datatype EPoWType = CUCKAROO | CUCKAROOD | CUCKAROOM | CUCKAROOZ | CUCKATOO

text \<open>The \<^verbatim>\<open>assert\<close> on the header version is compiled out.\<close>

definition DeterminePoWType :: "u64 \<Rightarrow> u8 \<Rightarrow> EPoWType" where
  "DeterminePoWType headerVersion edgeBits =
     (if edgeBits = 29 then
        if headerVersion = 1 then CUCKAROO
        else if headerVersion = 2 then CUCKAROOD
        else if headerVersion = 3 then CUCKAROOM
        else CUCKAROOZ
      else CUCKATOO)"

text \<open>\<^verbatim>\<open>setheader\<close> followed by \<^verbatim>\<open>verify_*\<close>: whether the nonces are a cycle of the
  graph that the header bytes generate.\<close>

record cuckoo_library =
  verify_cuckaroo :: "u8 list \<Rightarrow> u64 list \<Rightarrow> u8 \<Rightarrow> bool"
  verify_cuckarood :: "u8 list \<Rightarrow> u64 list \<Rightarrow> bool"
  verify_cuckaroom :: "u8 list \<Rightarrow> u64 list \<Rightarrow> bool"
  verify_cuckarooz :: "u8 list \<Rightarrow> u64 list \<Rightarrow> bool"
  verify_cuckatoo :: "u8 list \<Rightarrow> u64 list \<Rightarrow> u8 \<Rightarrow> bool"

definition Cuckaroo_Validate :: "cuckoo_library \<Rightarrow> block_header \<Rightarrow> bool" where
  "Cuckaroo_Validate cuckoo h =
     (let preProofOfWork = BlockHeader_GetPreProofOfWork h;
          proofNonces = pow_proofNonces (bh_proofOfWork h)
      in if length proofNonces \<noteq> unat PROOFSIZE then False
         else verify_cuckaroo cuckoo preProofOfWork proofNonces (pow_edgeBits (bh_proofOfWork h)))"

definition Cuckarood_Validate :: "cuckoo_library \<Rightarrow> block_header \<Rightarrow> bool" where
  "Cuckarood_Validate cuckoo h =
     (let preProofOfWork = BlockHeader_GetPreProofOfWork h;
          proofNonces = pow_proofNonces (bh_proofOfWork h)
      in if length proofNonces \<noteq> unat PROOFSIZE then False
         else verify_cuckarood cuckoo preProofOfWork proofNonces)"

definition Cuckaroom_Validate :: "cuckoo_library \<Rightarrow> block_header \<Rightarrow> bool" where
  "Cuckaroom_Validate cuckoo h =
     (let preProofOfWork = BlockHeader_GetPreProofOfWork h;
          proofNonces = pow_proofNonces (bh_proofOfWork h)
      in if length proofNonces \<noteq> unat PROOFSIZE then False
         else verify_cuckaroom cuckoo preProofOfWork proofNonces)"

definition Cuckarooz_Validate :: "cuckoo_library \<Rightarrow> block_header \<Rightarrow> bool" where
  "Cuckarooz_Validate cuckoo h =
     (let preProofOfWork = BlockHeader_GetPreProofOfWork h;
          proofNonces = pow_proofNonces (bh_proofOfWork h)
      in if length proofNonces \<noteq> unat PROOFSIZE then False
         else verify_cuckarooz cuckoo preProofOfWork proofNonces)"

definition Cuckatoo_Validate :: "cuckoo_library \<Rightarrow> block_header \<Rightarrow> bool" where
  "Cuckatoo_Validate cuckoo h =
     (let preProofOfWork = BlockHeader_GetPreProofOfWork h;
          proofNonces = pow_proofNonces (bh_proofOfWork h)
      in if length proofNonces \<noteq> unat PROOFSIZE then False
         else verify_cuckatoo cuckoo preProofOfWork proofNonces (pow_edgeBits (bh_proofOfWork h)))"

section \<open>PoWValidator and PoWManager\<close>

definition GetMaximumDifficulty :: "block_header \<Rightarrow> u64 result" where
  "GetMaximumDifficulty h =
     (let proofOfWork = bh_proofOfWork h
      in bind_result
           (if pow_edgeBits proofOfWork = SECOND_POW_EDGE_BITS then Inr (ucast (bh_scalingDifficulty h))
            else ScalingDifficulty (ucast (pow_edgeBits proofOfWork)))
           (\<lambda>scaling.
              let scalingDifficulty = ucast scaling :: 128 word;
                  temp = rev (take 8 (pow_hash proofOfWork));
                  hash64 = of_le_bytes temp :: u64;
                  scaled = push_bit 64 scalingDifficulty;
                  hash128 = ucast (max 1 hash64) :: 128 word;
                  difference = scaled div hash128
              in if difference < ucast (0xffffffffffffffff :: u64) then Inr (ucast difference)
                 else Inr 0xffffffffffffffff))"

definition Cuckoo_Validate :: "cuckoo_library \<Rightarrow> EPoWType \<Rightarrow> block_header \<Rightarrow> bool" where
  "Cuckoo_Validate cuckoo powType header =
     (case powType of
        CUCKAROO \<Rightarrow> Cuckaroo_Validate cuckoo header
      | CUCKAROOD \<Rightarrow> Cuckarood_Validate cuckoo header
      | CUCKAROOM \<Rightarrow> Cuckaroom_Validate cuckoo header
      | CUCKAROOZ \<Rightarrow> Cuckarooz_Validate cuckoo header
      | CUCKATOO \<Rightarrow> Cuckatoo_Validate cuckoo header)"

definition PoWValidator_IsPoWValid ::
  "cuckoo_library \<Rightarrow> header_db \<Rightarrow> block_header \<Rightarrow> block_header \<Rightarrow> bool result" where
  "PoWValidator_IsPoWValid cuckoo db header previousHeader =
     (if bh_totalDifficulty header \<le> bh_totalDifficulty previousHeader then Inr False
      else
        let targetDifficulty = bh_totalDifficulty header - bh_totalDifficulty previousHeader
        in bind_result (GetMaximumDifficulty header) (\<lambda>maximum.
           if maximum < targetDifficulty then Inr False
           else bind_result (CalculateNextDifficulty db header) (\<lambda>nextHeaderInfo.
             if targetDifficulty \<noteq> hi_difficulty nextHeaderInfo then Inr False
             else if bh_scalingDifficulty header \<noteq> hi_secondaryScaling nextHeaderInfo then Inr False
             else
               let powType = DeterminePoWType (ucast (bh_version header)) (pow_edgeBits (bh_proofOfWork header))
               in Inr (Cuckoo_Validate cuckoo powType header))))"

definition PoWManager_IsPoWValid ::
  "EEnvironmentType \<Rightarrow> cuckoo_library \<Rightarrow> header_db \<Rightarrow> block_header \<Rightarrow> block_header \<Rightarrow> bool result" where
  "PoWManager_IsPoWValid env cuckoo db header previousHeader =
     (if env = AUTOMATED_TESTING then Inr True
      else PoWValidator_IsPoWValid cuckoo db header previousHeader)"

section \<open>The difficulty window\<close>

lemma numBlocksNeeded_61: "numBlocksNeeded = 61"
  by (simp add: numBlocksNeeded_def consensus_consts)

lemma length_LoadDifficultyData_loop: "length (LoadDifficultyData_loop db k p) \<le> k"
  by (induction db k p rule: LoadDifficultyData_loop.induct) (simp_all add: Let_def)

lemma LoadDifficultyData_loop_Nil: "LoadDifficultyData_loop db (Suc k) p = [] \<longleftrightarrow> p = None"
  by (cases p) (simp_all add: Let_def)

lemma length_PadDifficultyData_loop: "length (PadDifficultyData_loop k ts d diff) = k"
  by (induction k arbitrary: ts) (simp_all add: Let_def)

lemma PadDifficultyData_loop_diff:
  "map (\<lambda>x. unat (hi_difficulty x)) (PadDifficultyData_loop k ts d diff) = replicate k (unat diff)"
  by (induction k arbitrary: ts) (simp_all add: Let_def FromTimeAndDiff_def)

lemma PadDifficultyData_length:
  assumes "xs \<noteq> []" and "length xs \<le> 61"
  shows "\<exists>ys. PadDifficultyData xs = Inr (rev (xs @ ys)) \<and> length xs + length ys = 61"
  using assms by (auto simp: PadDifficultyData_def numBlocksNeeded_61 Let_def length_PadDifficultyData_loop)

lemma LoadDifficultyData_length:
  assumes "LoadDifficultyData db h = Inr w"
  shows "length w = 61"
proof -
  let ?xs = "LoadDifficultyData_loop db 61 (db (bh_previousBlockHash h))"
  have pad: "PadDifficultyData ?xs = Inr w" using assms by (simp add: LoadDifficultyData_def numBlocksNeeded_61)
  then have "?xs \<noteq> []" by (auto simp: PadDifficultyData_def numBlocksNeeded_61)
  then obtain ys where "PadDifficultyData ?xs = Inr (rev (?xs @ ys))" "length ?xs + length ys = 61"
    using PadDifficultyData_length [of ?xs] length_LoadDifficultyData_loop [of db 61] by blast
  then show ?thesis using pad by auto
qed

text \<open>The difficulty window of a header with a known parent always has 61 entries, and ends with
  the header's own ancestors in chain order, at most 61 of them; the rest is simulated. With no known
  parent the code reads the first element of an empty vector.\<close>

theorem LoadDifficultyData_window:
  "case db (bh_previousBlockHash h) of
     None \<Rightarrow> LoadDifficultyData db h = Inl UNDEFINED_BEHAVIOUR
   | Some previous \<Rightarrow> \<exists>w. LoadDifficultyData db h = Inr w \<and> length w = 61 \<and>
       hi_timestamp (last w) = bh_timestamp previous \<and>
       (\<exists>simulated. w = simulated @ rev (LoadDifficultyData_loop db 61 (Some previous)))"
proof (cases "db (bh_previousBlockHash h)")
  case None
  have "LoadDifficultyData_loop db 61 None = []" by (simp add: numeral_eq_Suc)
  then show ?thesis using None by (simp add: LoadDifficultyData_def numBlocksNeeded_61 PadDifficultyData_def)
next
  case (Some previous)
  let ?xs = "LoadDifficultyData_loop db 61 (Some previous)"
  have ne: "?xs \<noteq> []" using LoadDifficultyData_loop_Nil [of db 60 "Some previous"] by (simp add: numeral_eq_Suc)
  then obtain ys where pad: "PadDifficultyData ?xs = Inr (rev (?xs @ ys))" "length ?xs + length ys = 61"
    using PadDifficultyData_length [of ?xs] length_LoadDifficultyData_loop [of db 61] by blast
  have "hd ?xs = \<lparr>hi_timestamp = bh_timestamp previous, hi_difficulty = hi_difficulty (hd ?xs),
      hi_secondaryScaling = hi_secondaryScaling (hd ?xs), hi_secondary = hi_secondary (hd ?xs)\<rparr>"
    by (simp add: numeral_eq_Suc Let_def)
  then have "hi_timestamp (last (rev (?xs @ ys))) = bh_timestamp previous"
    using ne by (metis header_info.select_convs(1) hd_append2 last_rev rev_is_Nil_conv append_is_Nil_conv)
  then show ?thesis
    using Some pad by (auto simp: LoadDifficultyData_def numBlocksNeeded_61)
qed

section \<open>The next difficulty\<close>

lemma foldl_sum_unat:
  assumes "unat acc + sum_list (map (\<lambda>x. unat (f x)) xs) < 2 ^ 64"
  shows "unat (foldl (\<lambda>s x. s + f x) (acc :: u64) xs) = unat acc + sum_list (map (\<lambda>x. unat (f x)) xs)"
  using assms
proof (induction xs arbitrary: acc)
  case (Cons x xs)
  then have "unat (acc + f x) = unat acc + unat (f x)" by (simp add: unat_plus_if')
  with Cons show ?case by simp
qed simp

lemma adj_ts_bounds:
  "1800 \<le> unat (Clamp actual BLOCK_TIME_WINDOW CLAMP_FACTOR)"
  "unat (Clamp actual BLOCK_TIME_WINDOW CLAMP_FACTOR) \<le> 7200"
  using Clamp_bounds [of CLAMP_FACTOR BLOCK_TIME_WINDOW actual] by (simp_all add: consensus_consts)

text \<open>C30. The network difficulty never falls below the minimum and follows the average of the last
  sixty blocks within the clamp factor: with \<open>S\<close> the sum of their difficulties, the next difficulty
  is between half of \<open>S / 60\<close> and twice \<open>S / 60\<close> (or the minimum), whatever the timestamps.\<close>

theorem CalculateNextDifficulty_bounds:
  assumes "LoadDifficultyData db h = Inr w"
    and "sum_list (map (\<lambda>x. unat (hi_difficulty x)) (tl w)) * 60 < 2 ^ 64"
  shows "\<exists>info. CalculateNextDifficulty db h = Inr info \<and> 3 \<le> unat (hi_difficulty info) \<and>
    sum_list (map (\<lambda>x. unat (hi_difficulty x)) (tl w)) div 120 \<le> unat (hi_difficulty info) \<and>
    unat (hi_difficulty info) \<le> max 3 (sum_list (map (\<lambda>x. unat (hi_difficulty x)) (tl w)) div 30)"
proof -
  let ?S = "sum_list (map (\<lambda>x. unat (hi_difficulty x)) (tl w))"
  let ?sum = "foldl (\<lambda>sum x. sum + hi_difficulty x) 0 (tl w)"
  define adj where "adj = Clamp (Damp (hi_timestamp (w ! unat DIFFICULTY_ADJUST_WINDOW) - hi_timestamp (w ! 0))
      BLOCK_TIME_WINDOW DAMP_FACTOR) BLOCK_TIME_WINDOW CLAMP_FACTOR"
  have adj: "1800 \<le> unat adj" "unat adj \<le> 7200" unfolding adj_def by (rule adj_ts_bounds)+
  have "unat ?sum = ?S" using foldl_sum_unat [of 0 hi_difficulty "tl w"] assms(2) by simp
  then have prod: "unat (?sum * BLOCK_TIME_SEC) = ?S * 60"
    using assms(2) iffD1 [OF unat_mult_lem, of ?sum BLOCK_TIME_SEC] by (simp add: consensus_consts)
  define d where "d = max MIN_DIFFICULTY (?sum * BLOCK_TIME_SEC div adj)"
  have d: "unat d = max 3 (?S * 60 div unat adj)"
    using prod by (auto simp: d_def max_def word_le_nat_alt unat_div consensus_consts)
  have "?S * 60 div 7200 \<le> ?S * 60 div unat adj" using adj by (intro div_le_mono2) simp_all
  then have lo: "?S div 120 \<le> unat d" using d by simp
  have "?S * 60 div unat adj \<le> ?S * 60 div 1800" using adj by (intro div_le_mono2) simp_all
  then have hi: "unat d \<le> max 3 (?S div 30)" using d by simp
  have "CalculateNextDifficulty db h =
      Inr (FromDiffAndScaling d (ucast (SecondaryPOWScaling (bh_height h) (tl w))))"
    using assms(1) by (simp add: CalculateNextDifficulty_def Let_def d_def adj_def)
  then show ?thesis using d lo hi by (simp add: FromDiffAndScaling_def)
qed

definition sample_db :: header_db where
  "sample_db = (\<lambda>hash. if hash = replicate 32 9 then Some sample_header else None)"

definition sample_next :: block_header where
  "sample_next = sample_header\<lparr>bh_height := 6, bh_previousBlockHash := replicate 32 9\<rparr>"

theorem CalculateNextDifficulty_bounds_witness:
  "\<exists>info. CalculateNextDifficulty sample_db sample_next = Inr info \<and> 5 \<le> unat (hi_difficulty info) \<and>
     unat (hi_difficulty info) \<le> 20"
proof -
  let ?e = "\<lparr>hi_timestamp = 1000, hi_difficulty = 10, hi_secondaryScaling = 1, hi_secondary = True\<rparr>"
  let ?w = "rev (?e # PadDifficultyData_loop 60 1000 60 10)"
  have "LoadDifficultyData_loop sample_db 61 (Some sample_header) = [?e]"
    using LoadDifficultyData_loop.simps(3) [of sample_db 60 sample_header] LoadDifficultyData_loop_Nil [of sample_db 59 None]
    by (simp add: sample_db_def sample_header_def sample_pow_def pow_hash_new IsSecondary_def consensus_consts)
  then have w: "LoadDifficultyData sample_db sample_next = Inr ?w"
    by (simp add: LoadDifficultyData_def sample_next_def sample_db_def numBlocksNeeded_61 PadDifficultyData_def consensus_consts)
  have "map (\<lambda>x. unat (hi_difficulty x)) ?w = replicate 61 10"
    by (simp add: rev_map [symmetric] PadDifficultyData_loop_diff replicate_append_same flip: replicate_Suc)
  then have "map (\<lambda>x. unat (hi_difficulty x)) (tl ?w) = replicate 60 10" by (simp add: map_tl)
  then have "sum_list (map (\<lambda>x. unat (hi_difficulty x)) (tl ?w)) = 600" by (simp only: sum_list_replicate) simp
  then show ?thesis using CalculateNextDifficulty_bounds [OF w] by auto
qed

section \<open>The secondary scaling\<close>

lemma scaling_bounds_arith:
  fixes S t c :: nat
  assumes "30 * t \<le> c"
  shows "S * t div max 1 c \<le> S div 30"
proof (cases "t = 0")
  case False
  have "S * t div max 1 c \<le> S * t div (30 * t)" using assms False by (intro div_le_mono2) simp_all
  also have "\<dots> = S div 30" using False by (simp add: mult.commute)
  finally show ?thesis .
qed simp

lemma unat_ucast_u32: "unat (ucast (y :: u32) :: u64) = unat y"
  by transfer simp

text \<open>The secondary scaling stays at or above its minimum and at most doubles the window average:
  as long as every scaling of the window is below \<open>2 ^ 31\<close>, the cast to 32 bits loses nothing.\<close>

theorem SecondaryPOWScaling_bounds:
  assumes "length w = 60" and "\<forall>x\<in>set w. unat (hi_secondaryScaling x) < 2 ^ 31"
  shows "13 \<le> unat (SecondaryPOWScaling height w) \<and>
    unat (SecondaryPOWScaling height w) \<le> max 13 (sum_list (map (\<lambda>x. unat (hi_secondaryScaling x)) w) div 30)"
proof -
  let ?S = "sum_list (map (\<lambda>x. unat (hi_secondaryScaling x)) w)"
  let ?t = "SecondaryPOWRatio height"
  have t: "unat ?t \<le> 90" by (simp add: unat_SecondaryPOWRatio)
  have "?S \<le> sum_list (map (\<lambda>x. 2 ^ 31 - 1) w)" using assms(2) by (intro sum_list_mono) fastforce
  then have S: "?S \<le> 60 * (2 ^ 31 - 1)" using assms(1) by (simp add: sum_list_triv)
  have sum: "unat (ScalingFactorSum w) = ?S"
    using foldl_sum_unat [of 0 "\<lambda>x. ucast (hi_secondaryScaling x)" w] S by (simp add: ScalingFactorSum_def unat_ucast_u32)
  have target: "unat (DIFFICULTY_ADJUST_WINDOW * ?t) = 60 * unat ?t"
    using t iffD1 [OF unat_mult_lem, of DIFFICULTY_ADJUST_WINDOW ?t] by (simp add: consensus_consts)
  define adj where "adj = Clamp (Damp (ARCount w) (DIFFICULTY_ADJUST_WINDOW * ?t) AR_SCALE_DAMP_FACTOR)
      (DIFFICULTY_ADJUST_WINDOW * ?t) CLAMP_FACTOR"
  have "30 * unat ?t \<le> unat adj"
    using Clamp_bounds(1) [of CLAMP_FACTOR "DIFFICULTY_ADJUST_WINDOW * ?t"] target t
    unfolding adj_def by (simp add: consensus_consts)
  then have le: "?S * unat ?t div max 1 (unat adj) \<le> ?S div 30" by (rule scaling_bounds_arith)
  have "?S * unat ?t \<le> 60 * (2 ^ 31 - 1) * 90" using S t by (intro mult_le_mono)
  then have "unat (ScalingFactorSum w * ?t) = ?S * unat ?t"
    using sum iffD1 [OF unat_mult_lem, of "ScalingFactorSum w" ?t] by simp
  then have scale: "unat (ScalingFactorSum w * ?t div max 1 adj) = ?S * unat ?t div max 1 (unat adj)"
    by (auto simp: unat_div max_def word_le_nat_alt)
  define m where "m = max MIN_AR_SCALE (ScalingFactorSum w * ?t div max 1 adj)"
  have m: "unat m = max 13 (?S * unat ?t div max 1 (unat adj))"
    using scale by (auto simp: m_def max_def word_le_nat_alt consensus_consts)
  moreover have "?S div 30 \<le> 60 * (2 ^ 31 - 1) div 30" using S by (rule div_le_mono)
  ultimately have "unat m < 2 ^ 32" using le by simp
  then have "unat (ucast m :: u32) = unat m" by (simp add: unsigned_ucast_eq unsigned_take_bit_eq take_bit_nat_eq_self)
  moreover have "SecondaryPOWScaling height w = ucast m"
    by (simp add: SecondaryPOWScaling_def m_def adj_def Let_def)
  ultimately show ?thesis using m le by auto
qed

theorem SecondaryPOWScaling_bounds_witness:
  "unat (SecondaryPOWScaling 0 (replicate 60 (FromTimeAndDiff 0 0))) \<le> 3712"
proof -
  have "sum_list (map (\<lambda>x. unat (hi_secondaryScaling x)) (replicate 60 (FromTimeAndDiff 0 0))) = 60 * 1856"
    by (simp add: FromTimeAndDiff_def consensus_consts sum_list_replicate)
  then show ?thesis
    using SecondaryPOWScaling_bounds [of "replicate 60 (FromTimeAndDiff 0 0)" 0]
    by (simp add: FromTimeAndDiff_def consensus_consts)
qed

section \<open>The maximum difficulty of a proof\<close>

lemma of_le_bytes_Cons_unat:
  assumes "unat (of_le_bytes bs :: u64) < 2 ^ 56"
  shows "unat (of_le_bytes (b # bs) :: u64) = unat b + 256 * unat (of_le_bytes bs :: u64)"
proof -
  let ?w = "of_le_bytes bs :: u64"
  have "ucast b OR push_bit 8 ?w = (ucast b :: u64) + push_bit 8 ?w"
    by (rule disjunctive_add [symmetric]) (auto simp: bit_push_bit_iff bit_ucast_iff dest: bit_imp_le_length)
  moreover have "unat (push_bit 8 ?w) = 256 * unat ?w"
    using assms by (simp add: push_bit_eq_mult unat_word_ariths)
  moreover have "unat (ucast b :: u64) = unat b" by transfer simp
  moreover have "unat b < 256" using unsigned_less [of b, where ?'a = nat] by simp
  ultimately show ?thesis using assms by (simp add: unat_plus_if')
qed

lemma unat_of_le_bytes_rev:
  assumes "length bs \<le> 8"
  shows "unat (of_le_bytes (rev bs) :: u64) = be_value bs"
  using assms
proof (induction bs rule: rev_induct)
  case (snoc b bs)
  have "be_value bs < 256 ^ length bs" by (rule be_value_bound)
  also have "(256 :: nat) ^ length bs \<le> 256 ^ 7" using snoc.prems by (intro power_increasing) simp_all
  finally have "be_value bs < 2 ^ 56" by simp
  then show ?case using snoc of_le_bytes_Cons_unat [of "rev bs" b] by (simp add: be_value_snoc)
qed simp

lemma unat_ucast_u128: "unat (ucast (x :: u64) :: 128 word) = unat x"
  by transfer simp

text \<open>The difficulty a proof can claim is computed without overflow: it is the quotient of the
  scaling times \<open>2 ^ 64\<close> by the first eight bytes of the proof's hash read as a big-endian number
  (at least one), capped at the largest 64-bit integer.\<close>

theorem GetMaximumDifficulty_exact:
  assumes "(if pow_edgeBits (bh_proofOfWork h) = SECOND_POW_EDGE_BITS then Inr (ucast (bh_scalingDifficulty h))
    else ScalingDifficulty (ucast (pow_edgeBits (bh_proofOfWork h)))) = Inr scaling"
  shows "\<exists>d. GetMaximumDifficulty h = Inr d \<and>
    unat d = min (2 ^ 64 - 1) (unat scaling * 2 ^ 64 div max 1 (be_value (take 8 (pow_hash (bh_proofOfWork h)))))"
proof -
  let ?h = "of_le_bytes (rev (take 8 (pow_hash (bh_proofOfWork h)))) :: u64"
  let ?q = "push_bit 64 (ucast scaling :: 128 word) div ucast (max 1 ?h)"
  have "unat ?h = be_value (take 8 (pow_hash (bh_proofOfWork h)))" by (rule unat_of_le_bytes_rev) simp
  then have h: "unat (ucast (max 1 ?h) :: 128 word) = max 1 (be_value (take 8 (pow_hash (bh_proofOfWork h))))"
    by (auto simp: unat_ucast_u128 max_def word_le_nat_alt)
  have "unat scaling < 2 ^ 64" using unsigned_less [of scaling, where ?'a = nat] by simp
  then have "unat (push_bit 64 (ucast scaling :: 128 word)) = unat scaling * 2 ^ 64"
    by (simp add: push_bit_eq_mult unat_word_ariths unat_ucast_u128)
  then have q: "unat ?q = unat scaling * 2 ^ 64 div max 1 (be_value (take 8 (pow_hash (bh_proofOfWork h))))"
    by (simp add: unat_div h)
  have "unat (ucast ?q :: u64) = unat ?q" if "unat ?q < 2 ^ 64 - 1"
    using that by (simp add: unsigned_ucast_eq unsigned_take_bit_eq take_bit_nat_eq_self)
  moreover have "?q < ucast (0xffffffffffffffff :: u64) \<longleftrightarrow> unat ?q < 2 ^ 64 - 1"
    by (simp add: word_less_nat_alt unat_ucast_u128)
  ultimately show ?thesis using assms q by (auto simp: GetMaximumDifficulty_def Let_def)
qed

definition light_header :: block_header where
  "light_header = \<lparr>bh_version = 1, bh_height = 5, bh_timestamp = 1000, bh_previousBlockHash = replicate 32 1,
     bh_previousRoot = [], bh_outputRoot = [], bh_rangeProofRoot = [], bh_kernelRoot = [], bh_totalKernelOffset = [],
     bh_outputMMRSize = 1, bh_kernelMMRSize = 1, bh_totalDifficulty = 10, bh_scalingDifficulty = 1, bh_nonce = 3,
     bh_proofOfWork = \<lparr>pow_edgeBits = 29, pow_proofNonces = replicate 42 0, pow_hash = replicate 32 0\<rparr>\<rparr>"

lemma be_value_zeros: "be_value (replicate n 0) = 0"
  by (induction n) simp_all

theorem GetMaximumDifficulty_exact_witness:
  "\<exists>d. GetMaximumDifficulty light_header = Inr d \<and> unat d = 2 ^ 64 - 1"
  using GetMaximumDifficulty_exact [of light_header 1]
  by (auto simp: consensus_consts light_header_def be_value_zeros)

section \<open>Acceptance\<close>

text \<open>C14. A header passes the proof-of-work check only if its total difficulty is exactly the previous
  total plus the network difficulty computed from its ancestors (at least the minimum, with no
  wrap-around), its proof can claim that difficulty, its scaling is the computed one, and the verifier
  for its version and edge bits accepts 42 nonces.\<close>

theorem IsPoWValid_sound:
  assumes "PoWValidator_IsPoWValid cuckoo db header previous = Inr True"
  shows "\<exists>info maximum. CalculateNextDifficulty db header = Inr info \<and> GetMaximumDifficulty header = Inr maximum \<and>
    unat (bh_totalDifficulty header) = unat (bh_totalDifficulty previous) + unat (hi_difficulty info) \<and>
    3 \<le> unat (hi_difficulty info) \<and> hi_difficulty info \<le> maximum \<and>
    bh_scalingDifficulty header = hi_secondaryScaling info \<and> length (pow_proofNonces (bh_proofOfWork header)) = 42 \<and>
    Cuckoo_Validate cuckoo (DeterminePoWType (ucast (bh_version header)) (pow_edgeBits (bh_proofOfWork header))) header"
proof -
  let ?t = "bh_totalDifficulty header - bh_totalDifficulty previous"
  from assms obtain maximum info where r: "bh_totalDifficulty previous < bh_totalDifficulty header"
    "GetMaximumDifficulty header = Inr maximum" "?t \<le> maximum" "CalculateNextDifficulty db header = Inr info"
    "?t = hi_difficulty info" "bh_scalingDifficulty header = hi_secondaryScaling info"
    and v: "Cuckoo_Validate cuckoo (DeterminePoWType (ucast (bh_version header)) (pow_edgeBits (bh_proofOfWork header))) header"
    by (auto simp: PoWValidator_IsPoWValid_def Let_def bind_result_eq_Inr_iff not_le not_less split: if_splits)
  have "unat (bh_totalDifficulty header) = unat (bh_totalDifficulty previous) + unat (hi_difficulty info)"
    using r(1,5) by (metis le_add_diff_inverse less_imp_le unat_sub word_le_nat_alt)
  moreover have "MIN_DIFFICULTY \<le> hi_difficulty info"
    using r(4) by (auto simp: CalculateNextDifficulty_def bind_result_eq_Inr_iff Let_def FromDiffAndScaling_def)
  then have "3 \<le> unat (hi_difficulty info)" by (simp add: consensus_consts word_le_nat_alt)
  moreover have "length (pow_proofNonces (bh_proofOfWork header)) = 42"
    using v by (auto simp: Cuckoo_Validate_def Cuckaroo_Validate_def Cuckarood_Validate_def Cuckaroom_Validate_def
        Cuckarooz_Validate_def Cuckatoo_Validate_def Let_def consensus_consts split: EPoWType.splits if_splits)
  ultimately show ?thesis using r v by auto
qed

definition accepting_cuckoo :: cuckoo_library where
  "accepting_cuckoo = \<lparr>verify_cuckaroo = \<lambda>_ _ _. True, verify_cuckarood = \<lambda>_ _. True, verify_cuckaroom = \<lambda>_ _. True,
     verify_cuckarooz = \<lambda>_ _. True, verify_cuckatoo = \<lambda>_ _ _. True\<rparr>"

definition light_next :: block_header where
  "light_next = light_header\<lparr>bh_height := 6, bh_previousBlockHash := replicate 32 9, bh_totalDifficulty := 23,
     bh_scalingDifficulty := 1809\<rparr>"

definition light_db :: header_db where
  "light_db = (\<lambda>hash. if hash = replicate 32 9 then Some light_header else None)"

theorem IsPoWValid_sound_witness:
  "\<exists>info. CalculateNextDifficulty light_db light_next = Inr info \<and> unat (hi_difficulty info) = 13"
proof -
  have "PoWValidator_IsPoWValid accepting_cuckoo light_db light_next light_header = Inr True" by code_simp
  from IsPoWValid_sound [OF this] show ?thesis
    by (auto simp: light_next_def light_header_def)
qed

end
