(* ===== verification/Crypto_Wrappers.thy ===== *)
theory Crypto_Wrappers
  imports Tx_Models
begin

text \<open>
  The wrappers around the elliptic-curve library (\<^verbatim>\<open>src/Crypto\<close>): \<^verbatim>\<open>Pedersen\<close>,
  \<^verbatim>\<open>Bulletproofs\<close> with its cache of verified commitments, \<^verbatim>\<open>AggSig\<close>,
  \<^verbatim>\<open>PublicKeys\<close>, and the functions of \<^verbatim>\<open>Crypto\<close> that call them.

  The library itself (\<^verbatim>\<open>deps/secp256k1-zkp\<close>) is the parameter \<open>secp\<close>, one field per function:
  its opaque structures are byte lists, an output parameter that is only meaningful when the
  function returns 1 is an \<open>option\<close>. The random seed of a call is an argument.

  \<open>pedersen_laws\<close> states what the balance theorems need of the library: a parsed commitment
  stands for an element of an abelian group, commitments are created and summed in that group, and
  parsing a serialized commitment gives the same element back.
\<close>

section \<open>The library\<close>

type_synonym secret_key = big_integer
type_synonym public_key = big_integer

record secp256k1 =
  secp_pedersen_commit :: "u8 list \<Rightarrow> u64 \<Rightarrow> u8 list option"
  secp_pedersen_commitment_parse :: "u8 list \<Rightarrow> u8 list option"
  secp_pedersen_commitment_serialize :: "u8 list \<Rightarrow> u8 list option"
  secp_pedersen_commit_sum :: "u8 list list \<Rightarrow> u8 list list \<Rightarrow> u8 list option"
  secp_pedersen_blind_sum :: "u8 list list \<Rightarrow> nat \<Rightarrow> u8 list option"
  secp_blind_switch :: "u8 list \<Rightarrow> u64 \<Rightarrow> u8 list option"
  secp_pedersen_commitment_to_pubkey :: "u8 list \<Rightarrow> u8 list option"
  secp_pubkey_to_pedersen_commitment :: "u8 list \<Rightarrow> u8 list option"
  secp_ec_seckey_verify :: "u8 list \<Rightarrow> bool"
  secp_ec_pubkey_create :: "u8 list \<Rightarrow> u8 list option"
  secp_ec_pubkey_parse :: "u8 list \<Rightarrow> u8 list option"
  secp_ec_pubkey_serialize :: "u8 list \<Rightarrow> u8 list option"
  secp_ec_pubkey_combine :: "u8 list list \<Rightarrow> u8 list option"
  secp_ec_privkey_tweak_add :: "u8 list \<Rightarrow> u8 list \<Rightarrow> u8 list option"
  secp_context_randomize :: "u8 list \<Rightarrow> bool"
  secp_aggsig_export_secnonce_single :: "u8 list \<Rightarrow> u8 list option"
  secp_aggsig_sign_single ::
    "u8 list \<Rightarrow> u8 list \<Rightarrow> u8 list option \<Rightarrow> u8 list option \<Rightarrow> u8 list option \<Rightarrow> u8 list \<Rightarrow> u8 list \<Rightarrow> u8 list option"
  secp_aggsig_verify_single :: "u8 list \<Rightarrow> u8 list \<Rightarrow> u8 list option \<Rightarrow> u8 list \<Rightarrow> u8 list \<Rightarrow> bool \<Rightarrow> bool"
  secp_aggsig_add_signatures_single :: "u8 list list \<Rightarrow> u8 list \<Rightarrow> u8 list option"
  secp_ecdsa_signature_parse_compact :: "u8 list \<Rightarrow> u8 list option"
  secp_ecdsa_signature_serialize_compact :: "u8 list \<Rightarrow> u8 list option"
  secp_schnorrsig_parse :: "u8 list \<Rightarrow> u8 list option"
  secp_schnorrsig_verify_batch :: "u8 list list \<Rightarrow> u8 list list \<Rightarrow> u8 list list \<Rightarrow> nat \<Rightarrow> bool"
  secp_bulletproof_rangeproof_verify_multi :: "u8 list list \<Rightarrow> nat \<Rightarrow> nat \<Rightarrow> u8 list list \<Rightarrow> bool"
  secp_bulletproof_rangeproof_prove :: "u64 \<Rightarrow> u8 list \<Rightarrow> u8 list \<Rightarrow> u8 list \<Rightarrow> u8 list \<Rightarrow> u8 list option"
  secp_bulletproof_rangeproof_rewind :: "u8 list \<Rightarrow> u8 list \<Rightarrow> u8 list \<Rightarrow> (u64 \<times> u8 list \<times> u8 list) option"

section \<open>Pedersen\<close>

text \<open>The result of the serialization is not tested here: when it fails the returned commitment is
  the default one.\<close>

definition PedersenCommit :: "secp256k1 \<Rightarrow> u64 \<Rightarrow> blinding_factor \<Rightarrow> commitment result" where
  "PedersenCommit secp value blindingFactor =
     (case secp_pedersen_commit secp blindingFactor value of
        None \<Rightarrow> Inl CRYPTO_EXCEPTION
      | Some commitment \<Rightarrow>
          (case secp_pedersen_commitment_serialize secp commitment of
             None \<Rightarrow> Inr (BigInteger_new 33)
           | Some commitment_out \<Rightarrow> Inr commitment_out))"

definition ConvertCommitments :: "secp256k1 \<Rightarrow> commitment list \<Rightarrow> u8 list list result" where
  "ConvertCommitments secp commitments =
     map_result (\<lambda>c. or_throw CRYPTO_EXCEPTION (secp_pedersen_commitment_parse secp c)) commitments"

definition PedersenCommitSum :: "secp256k1 \<Rightarrow> commitment list \<Rightarrow> commitment list \<Rightarrow> commitment result" where
  "PedersenCommitSum secp positive negative =
     bind_result (ConvertCommitments secp positive) (\<lambda>positiveCommitments.
     bind_result (ConvertCommitments secp negative) (\<lambda>negativeCommitments.
     bind_result (or_throw CRYPTO_EXCEPTION
       (secp_pedersen_commit_sum secp positiveCommitments negativeCommitments)) (\<lambda>commitment.
       or_throw CRYPTO_EXCEPTION (secp_pedersen_commitment_serialize secp commitment))))"

definition PedersenBlindSum :: "secp256k1 \<Rightarrow> blinding_factor list \<Rightarrow> blinding_factor list \<Rightarrow> blinding_factor result" where
  "PedersenBlindSum secp positive negative =
     or_throw CRYPTO_EXCEPTION (secp_pedersen_blind_sum secp (positive @ negative) (length positive))"

definition BlindSwitch :: "secp256k1 \<Rightarrow> secret_key \<Rightarrow> u64 \<Rightarrow> secret_key result" where
  "BlindSwitch secp blindingFactor amount =
     or_throw CRYPTO_EXCEPTION (secp_blind_switch secp blindingFactor amount)"

definition Pedersen_ToCommitment :: "secp256k1 \<Rightarrow> public_key \<Rightarrow> commitment result" where
  "Pedersen_ToCommitment secp publicKey =
     bind_result (or_throw CRYPTO_EXCEPTION (secp_ec_pubkey_parse secp publicKey)) (\<lambda>pubkey.
     bind_result (or_throw CRYPTO_EXCEPTION (secp_pubkey_to_pedersen_commitment secp pubkey)) (\<lambda>commitment.
       or_throw CRYPTO_EXCEPTION (secp_pedersen_commitment_serialize secp commitment)))"

section \<open>Bulletproofs\<close>

text \<open>
  The cache is the least-recently-used queue of its keys, most recent first; a key is its own value.
  A lookup that hits moves the key to the front.
\<close>

type_synonym proofs_cache = "commitment list"

definition cache_capacity :: nat where "cache_capacity = 3000"

definition AddToCache :: "commitment \<Rightarrow> proofs_cache \<Rightarrow> proofs_cache" where
  "AddToCache c cache =
     (if c \<in> set cache then c # remove1 c cache
      else if length cache + 1 > cache_capacity then c # butlast cache
      else c # cache)"

definition WasAlreadyVerified :: "commitment \<Rightarrow> proofs_cache \<Rightarrow> bool \<times> proofs_cache" where
  "WasAlreadyVerified c cache = (if c \<in> set cache then (True, c # remove1 c cache) else (False, cache))"

fun unverified_proofs ::
  "(commitment \<times> range_proof) list \<Rightarrow> proofs_cache \<Rightarrow> (commitment \<times> range_proof) list \<times> proofs_cache" where
  "unverified_proofs [] cache = ([], cache)"
| "unverified_proofs (p # ps) cache =
     (let (verified, cache) = WasAlreadyVerified (fst p) cache;
          (qs, cache) = unverified_proofs ps cache
      in (if verified then qs else p # qs, cache))"

definition VerifyBulletproofs ::
  "secp256k1 \<Rightarrow> (commitment \<times> range_proof) list \<Rightarrow> proofs_cache \<Rightarrow> bool result \<times> proofs_cache" where
  "VerifyBulletproofs secp rangeProofs cache =
     (if rangeProofs = [] then (Inl UNDEFINED_BEHAVIOUR, cache)
      else
        let proofLength = length (snd (hd rangeProofs));
            (pending, cache) = unverified_proofs rangeProofs cache;
            commitments = map fst pending;
            bulletproofPointers = map snd pending
        in if commitments = [] then (Inr True, cache)
           else (case ConvertCommitments secp commitments of
               Inl e \<Rightarrow> (Inl e, cache)
             | Inr commitmentPointers \<Rightarrow>
                 if secp_bulletproof_rangeproof_verify_multi secp bulletproofPointers (length commitments) proofLength
                      commitmentPointers
                 then (Inr True, fold AddToCache commitments cache)
                 else (Inr False, cache)))"

definition GenerateRangeProof ::
  "secp256k1 \<Rightarrow> u8 list \<Rightarrow> u64 \<Rightarrow> secret_key \<Rightarrow> secret_key \<Rightarrow> secret_key \<Rightarrow> big_integer \<Rightarrow> range_proof result" where
  "GenerateRangeProof secp randomSeed amount key privateNonce rewindNonce proofMessage =
     (if \<not> secp_context_randomize secp randomSeed then Inl CRYPTO_EXCEPTION
      else or_throw CRYPTO_EXCEPTION
             (secp_bulletproof_rangeproof_prove secp amount key rewindNonce privateNonce proofMessage))"

definition RewindProof ::
  "secp256k1 \<Rightarrow> commitment \<Rightarrow> range_proof \<Rightarrow> secret_key \<Rightarrow> (u64 \<times> secret_key \<times> big_integer) option result" where
  "RewindProof secp commitment rangeProof nonce =
     bind_result (ConvertCommitments secp [commitment]) (\<lambda>commitmentPointers.
       Inr (secp_bulletproof_rangeproof_rewind secp rangeProof (hd commitmentPointers) nonce))"

section \<open>AggSig\<close>

definition AggSig_GenerateSecureNonce :: "secp256k1 \<Rightarrow> u8 list \<Rightarrow> secret_key result" where
  "AggSig_GenerateSecureNonce secp seed = or_throw CRYPTO_EXCEPTION (secp_aggsig_export_secnonce_single secp seed)"

definition BuildSignature :: "secp256k1 \<Rightarrow> u8 list \<Rightarrow> secret_key \<Rightarrow> commitment \<Rightarrow> big_integer \<Rightarrow> signature option" where
  "BuildSignature secp randomSeed secretKey commitment message =
     (if \<not> secp_context_randomize secp randomSeed then None
      else Option.bind (secp_pedersen_commitment_parse secp commitment) (\<lambda>parsedCommitment.
           Option.bind (secp_pedersen_commitment_to_pubkey secp parsedCommitment) (\<lambda>pubKey.
             secp_aggsig_sign_single secp message secretKey None None None pubKey randomSeed)))"

definition CalculatePartialSignature ::
  "secp256k1 \<Rightarrow> u8 list \<Rightarrow> secret_key \<Rightarrow> secret_key \<Rightarrow> public_key \<Rightarrow> public_key \<Rightarrow> big_integer \<Rightarrow> signature option" where
  "CalculatePartialSignature secp randomSeed secretKey secretNonce sumPubKeys sumPubNonces message =
     (if \<not> secp_context_randomize secp randomSeed then None
      else Option.bind (secp_ec_pubkey_parse secp sumPubKeys) (\<lambda>pubKeyForE.
           Option.bind (secp_ec_pubkey_parse secp sumPubNonces) (\<lambda>pubNoncesForE.
           Option.bind (secp_aggsig_sign_single secp message secretKey (Some secretNonce) (Some pubNoncesForE)
             (Some pubNoncesForE) pubKeyForE randomSeed) (\<lambda>signature.
             secp_ecdsa_signature_serialize_compact secp signature))))"

definition VerifyPartialSignature ::
  "secp256k1 \<Rightarrow> signature \<Rightarrow> public_key \<Rightarrow> public_key \<Rightarrow> public_key \<Rightarrow> big_integer \<Rightarrow> bool" where
  "VerifyPartialSignature secp partialSignature publicKey sumPubKeys sumPubNonces message =
     (case secp_ecdsa_signature_parse_compact secp partialSignature of
        None \<Rightarrow> False
      | Some signature \<Rightarrow>
          (case (secp_ec_pubkey_parse secp publicKey, secp_ec_pubkey_parse secp sumPubKeys,
                 secp_ec_pubkey_parse secp sumPubNonces) of
             (Some pubkey, Some sumPubKey, Some sumNoncesPubKey) \<Rightarrow>
               secp_aggsig_verify_single secp signature message (Some sumNoncesPubKey) pubkey sumPubKey True
           | _ \<Rightarrow> False))"

text \<open>A signature that does not parse empties the result.\<close>

definition ParseCompactSignatures :: "secp256k1 \<Rightarrow> signature list \<Rightarrow> u8 list list" where
  "ParseCompactSignatures secp signatures =
     (let parsed = map (secp_ecdsa_signature_parse_compact secp) signatures
      in if None \<in> set parsed then [] else map the parsed)"

definition AggregateSignatures :: "secp256k1 \<Rightarrow> signature list \<Rightarrow> public_key \<Rightarrow> signature option" where
  "AggregateSignatures secp signatures sumPubNonces =
     Option.bind (secp_ec_pubkey_parse secp sumPubNonces) (\<lambda>pubNonces.
       let parsedSignatures = ParseCompactSignatures secp signatures
       in if parsedSignatures = [] then None
          else secp_aggsig_add_signatures_single secp parsedSignatures pubNonces)"

definition commitment_pubkey :: "secp256k1 \<Rightarrow> commitment \<Rightarrow> u8 list option" where
  "commitment_pubkey secp commitment =
     Option.bind (secp_pedersen_commitment_parse secp commitment) (secp_pedersen_commitment_to_pubkey secp)"

definition VerifyAggregateSignatures :: "secp256k1 \<Rightarrow> signature list \<Rightarrow> commitment list \<Rightarrow> big_integer list \<Rightarrow> bool" where
  "VerifyAggregateSignatures secp signatures commitments messages =
     (let parsedPubKeys = map (commitment_pubkey secp) commitments;
          parsedSignatures = map (secp_schnorrsig_parse secp) signatures
      in if None \<in> set parsedPubKeys then False
         else if None \<in> set parsedSignatures then False
         else secp_schnorrsig_verify_batch secp (map the parsedSignatures) messages (map the parsedPubKeys)
                (length signatures))"

definition VerifyAggregateSignature :: "secp256k1 \<Rightarrow> signature \<Rightarrow> public_key \<Rightarrow> big_integer \<Rightarrow> bool" where
  "VerifyAggregateSignature secp signature sumPubKeys message =
     (case secp_ec_pubkey_parse secp sumPubKeys of
        None \<Rightarrow> False
      | Some parsedPubKey \<Rightarrow> secp_aggsig_verify_single secp signature message None parsedPubKey parsedPubKey False)"

definition AggSig_ToCompact :: "secp256k1 \<Rightarrow> signature \<Rightarrow> signature result" where
  "AggSig_ToCompact secp signature =
     or_throw CRYPTO_EXCEPTION (secp_ecdsa_signature_serialize_compact secp signature)"

section \<open>PublicKeys\<close>

definition CalculatePublicKey :: "secp256k1 \<Rightarrow> secret_key \<Rightarrow> public_key result" where
  "CalculatePublicKey secp privateKey =
     (if \<not> secp_ec_seckey_verify secp privateKey then Inl CRYPTO_EXCEPTION
      else or_throw CRYPTO_EXCEPTION
             (Option.bind (secp_ec_pubkey_create secp privateKey) (secp_ec_pubkey_serialize secp)))"

definition PublicKeySum :: "secp256k1 \<Rightarrow> public_key list \<Rightarrow> public_key result" where
  "PublicKeySum secp publicKeys =
     bind_result (map_result (\<lambda>k. or_throw CRYPTO_EXCEPTION (secp_ec_pubkey_parse secp k)) publicKeys) (\<lambda>parsedPubKeys.
       or_throw CRYPTO_EXCEPTION
         (Option.bind (secp_ec_pubkey_combine secp parsedPubKeys) (secp_ec_pubkey_serialize secp)))"

section \<open>Crypto\<close>

definition CommitTransparent :: "secp256k1 \<Rightarrow> u64 \<Rightarrow> commitment result" where
  "CommitTransparent secp v = PedersenCommit secp v (BigInteger_ValueOf 32 0)"

definition CommitBlinded :: "secp256k1 \<Rightarrow> u64 \<Rightarrow> blinding_factor \<Rightarrow> commitment result" where
  "CommitBlinded secp v blindingFactor = PedersenCommit secp v blindingFactor"

definition AddCommitments :: "secp256k1 \<Rightarrow> commitment list \<Rightarrow> commitment list \<Rightarrow> commitment result" where
  "AddCommitments secp positive negative =
     (let zeroCommitment = BigInteger_ValueOf 33 0;
          sanitizedPositive = filter (\<lambda>c. \<not> BigInteger_eq 33 c zeroCommitment) positive;
          sanitizedNegative = filter (\<lambda>c. \<not> BigInteger_eq 33 c zeroCommitment) negative
      in PedersenCommitSum secp sanitizedPositive sanitizedNegative)"

definition AddBlindingFactors :: "secp256k1 \<Rightarrow> blinding_factor list \<Rightarrow> blinding_factor list \<Rightarrow> blinding_factor result" where
  "AddBlindingFactors secp positive negative =
     (let zeroBlindingFactor = ZERO_HASH;
          sanitizedPositive = filter (\<lambda>b. \<not> BigInteger_eq 32 b zeroBlindingFactor) positive;
          sanitizedNegative = filter (\<lambda>b. \<not> BigInteger_eq 32 b zeroBlindingFactor) negative
      in if sanitizedPositive = [] \<and> sanitizedNegative = [] then Inr zeroBlindingFactor
         else PedersenBlindSum secp sanitizedPositive sanitizedNegative)"

definition AddPrivateKeys :: "secp256k1 \<Rightarrow> secret_key \<Rightarrow> secret_key \<Rightarrow> secret_key result" where
  "AddPrivateKeys secp secretKey1 secretKey2 =
     or_throw CRYPTO_EXCEPTION (secp_ec_privkey_tweak_add secp secretKey1 secretKey2)"

definition VerifyRangeProofs_crypto ::
  "secp256k1 \<Rightarrow> (commitment \<times> range_proof) list \<Rightarrow> proofs_cache \<Rightarrow> bool result \<times> proofs_cache" where
  "VerifyRangeProofs_crypto secp rangeProofs cache = VerifyBulletproofs secp rangeProofs cache"

text \<open>\<^verbatim>\<open>sigs.front()\<close> of an empty vector when the signature does not parse.\<close>

definition ParseCompactSignature :: "secp256k1 \<Rightarrow> signature \<Rightarrow> signature result" where
  "ParseCompactSignature secp signature =
     (case ParseCompactSignatures secp [signature] of [] \<Rightarrow> Inl UNDEFINED_BEHAVIOUR | s # _ \<Rightarrow> Inr s)"

section \<open>Proof messages\<close>

datatype EBulletproofType = ORIGINAL | ENHANCED

text \<open>Writing past the twenty bytes of \<^verbatim>\<open>paddedPath\<close> is undefined.\<close>

definition FromKeyIndices :: "u32 list \<Rightarrow> EBulletproofType \<Rightarrow> big_integer result" where
  "FromKeyIndices keyIndices bulletproofType =
     (let bytes = GetBytes (fold Append keyIndices (Serializer_new V1));
          paddedPath = replicate 20 0;
          paddedPath = (if bulletproofType = ENHANCED then paddedPath[2 := 1, 3 := of_nat (length keyIndices)] else paddedPath)
      in if length bytes > 16 then Inl UNDEFINED_BEHAVIOUR
         else Inr (take 4 paddedPath @ bytes @ drop (4 + length bytes) paddedPath))"

primrec read_u32s :: "nat \<Rightarrow> u32 list reader" where
  "read_u32s 0 = rreturn []"
| "read_u32s (Suc n) = rbind ReadU32 (\<lambda>x. rbind (read_u32s n) (\<lambda>xs. rreturn (x # xs)))"

definition ToKeyIndices :: "big_integer \<Rightarrow> EBulletproofType \<Rightarrow> u32 list result" where
  "ToKeyIndices proofMessageBytes bulletproofType =
     (let readLength =
            (if bulletproofType = ENHANCED
             then rbind ReadU8 (\<lambda>_. rbind ReadU8 (\<lambda>_. rbind ReadU8 (\<lambda>_. rbind ReadU8 (\<lambda>n. rreturn (unat n)))))
             else rbind ReadU32 (\<lambda>first4Bytes.
                    if first4Bytes \<noteq> 0 then rthrow DESERIALIZATION_EXCEPTION else rreturn 3));
          readAll = rbind readLength (\<lambda>n. read_u32s (if n = 0 then 3 else n))
      in bind_result (readAll (ByteBuffer_new proofMessageBytes V1)) (\<lambda>(keyIndices, _). Inr keyIndices))"

section \<open>The range-proof cache\<close>

definition cache_ok :: "proofs_cache \<Rightarrow> bool" where
  "cache_ok cache \<longleftrightarrow> distinct cache \<and> length cache \<le> cache_capacity"

lemma set_move_front: "c \<in> set cache \<Longrightarrow> set (c # remove1 c cache) = set cache"
  by (induction cache) auto

lemma cache_ok_move_front: "c \<in> set cache \<Longrightarrow> cache_ok cache \<Longrightarrow> cache_ok (c # remove1 c cache)"
  by (auto simp add: cache_ok_def length_remove1 dest: length_pos_if_in_set)

lemma AddToCache_ok [simp]: "cache_ok cache \<Longrightarrow> cache_ok (AddToCache c cache)"
proof -
  assume ok: "cache_ok cache"
  have "distinct (butlast cache)" and "set (butlast cache) \<subseteq> set cache"
    using ok by (auto simp add: cache_ok_def distinct_butlast dest: in_set_butlastD)
  with ok show ?thesis
    by (auto simp add: AddToCache_def cache_ok_move_front)
      (auto simp add: cache_ok_def cache_capacity_def)
qed

lemma set_AddToCache: "set (AddToCache c cache) \<subseteq> insert c (set cache)"
  by (auto simp add: AddToCache_def dest: in_set_butlastD notin_set_remove1)

lemma AddToCache_mem [simp]: "c \<in> set (AddToCache c cache)"
  by (simp add: AddToCache_def)

lemma WasAlreadyVerified_iff: "fst (WasAlreadyVerified c cache) \<longleftrightarrow> c \<in> set cache"
  by (simp add: WasAlreadyVerified_def)

lemma WasAlreadyVerified_set [simp]: "set (snd (WasAlreadyVerified c cache)) = set cache"
  using set_move_front [of c cache] by (simp add: WasAlreadyVerified_def)

lemma WasAlreadyVerified_ok [simp]: "cache_ok cache \<Longrightarrow> cache_ok (snd (WasAlreadyVerified c cache))"
  by (auto simp add: WasAlreadyVerified_def cache_ok_move_front)

lemma unverified_proofs_spec:
  "fst (unverified_proofs ps cache) = filter (\<lambda>p. fst p \<notin> set cache) ps \<and>
   set (snd (unverified_proofs ps cache)) = set cache \<and>
   (cache_ok cache \<longrightarrow> cache_ok (snd (unverified_proofs ps cache)))"
proof (induction ps arbitrary: cache)
  case (Cons p ps)
  show ?case using Cons [of "snd (WasAlreadyVerified (fst p) cache)"]
    by (auto simp add: case_prod_unfold Let_def WasAlreadyVerified_iff)
qed simp

lemmas unverified_proofs_simps [simp] = unverified_proofs_spec [THEN conjunct1]
  unverified_proofs_spec [THEN conjunct2, THEN conjunct1]

lemma unverified_proofs_ok [simp]: "cache_ok cache \<Longrightarrow> cache_ok (snd (unverified_proofs ps cache))"
  using unverified_proofs_spec by blast

lemma fold_AddToCache_ok: "cache_ok cache \<Longrightarrow> cache_ok (fold AddToCache cs cache)"
  by (induction cs arbitrary: cache) simp_all

lemma set_fold_AddToCache: "set (fold AddToCache cs cache) \<subseteq> set cs \<union> set cache"
proof (induction cs arbitrary: cache)
  case (Cons c cs)
  from Cons [of "AddToCache c cache"] set_AddToCache [of c cache] show ?case by auto
qed simp

text \<open>
  What the library documents of a batch: it verifies when every proof of it is a valid range proof
  for its commitment. \<open>R\<close> is that validity.
\<close>

definition batch_law :: "secp256k1 \<Rightarrow> (range_proof \<Rightarrow> u8 list \<Rightarrow> bool) \<Rightarrow> bool" where
  "batch_law secp R \<longleftrightarrow>
     (\<forall>proofs n plen cs. secp_bulletproof_rangeproof_verify_multi secp proofs n plen cs \<longrightarrow> list_all2 R proofs cs)"

definition in_range :: "secp256k1 \<Rightarrow> (range_proof \<Rightarrow> u8 list \<Rightarrow> bool) \<Rightarrow> commitment \<Rightarrow> bool" where
  "in_range secp R c \<longleftrightarrow> (\<exists>p s. secp_pedersen_commitment_parse secp c = Some s \<and> R p s)"

lemma batch_in_range:
  assumes "batch_law secp R"
    and "ConvertCommitments secp (map fst ps) = Inr cs"
    and "secp_bulletproof_rangeproof_verify_multi secp (map snd ps) n plen cs"
  shows "\<forall>p\<in>set ps. in_range secp R (fst p)"
proof -
  from assms(1,3) have R: "list_all2 R (map snd ps) cs" by (auto simp add: batch_law_def)
  from assms(2) have "list_all2 (\<lambda>c s. secp_pedersen_commitment_parse secp c = Some s) (map fst ps) cs"
    by (simp add: ConvertCommitments_def map_result_eq_Inr_iff)
  with R have "list_all2 (\<lambda>p s. secp_pedersen_commitment_parse secp (fst p) = Some s \<and> R (snd p) s) ps cs"
    by (simp add: list_all2_conv_all_nth)
  then show ?thesis by (induction rule: list_all2_induct) (auto simp add: in_range_def)
qed

definition verify_pending ::
  "secp256k1 \<Rightarrow> nat \<Rightarrow> (commitment \<times> range_proof) list \<Rightarrow> proofs_cache \<Rightarrow> bool result \<times> proofs_cache" where
  "verify_pending secp plen pending cache =
     (if pending = [] then (Inr True, cache)
      else (case ConvertCommitments secp (map fst pending) of
          Inl e \<Rightarrow> (Inl e, cache)
        | Inr cs \<Rightarrow>
            if secp_bulletproof_rangeproof_verify_multi secp (map snd pending) (length pending) plen cs
            then (Inr True, fold AddToCache (map fst pending) cache)
            else (Inr False, cache)))"

lemma VerifyBulletproofs_pending:
  "rangeProofs \<noteq> [] \<Longrightarrow> VerifyBulletproofs secp rangeProofs cache =
     verify_pending secp (length (snd (hd rangeProofs))) (filter (\<lambda>p. fst p \<notin> set cache) rangeProofs)
       (snd (unverified_proofs rangeProofs cache))"
  unfolding VerifyBulletproofs_def verify_pending_def Let_def case_prod_unfold unverified_proofs_simps
  by (simp only: if_False length_map map_is_Nil_conv)

lemma verify_pending_sound:
  assumes law: "batch_law secp R" and cache: "cache_ok cache" "\<forall>c\<in>set cache. in_range secp R c"
    and res: "(r, cache') = verify_pending secp plen pending cache"
  shows "cache_ok cache' \<and> (\<forall>c\<in>set cache'. in_range secp R c) \<and>
    (r = Inr True \<longrightarrow> (\<forall>p\<in>set pending. in_range secp R (fst p)))"
proof (cases "r = Inr True \<and> pending \<noteq> []")
  case True
  with res obtain cs where cs: "cache' = fold AddToCache (map fst pending) cache"
      "ConvertCommitments secp (map fst pending) = Inr cs"
      "secp_bulletproof_rangeproof_verify_multi secp (map snd pending) (length pending) plen cs"
    by (auto simp add: verify_pending_def split: sum.splits if_splits)
  from batch_in_range [OF law cs(2,3)] have pend: "\<forall>p\<in>set pending. in_range secp R (fst p)" .
  have "\<forall>c\<in>set cache'. in_range secp R c"
    using set_fold_AddToCache [of "map fst pending" cache] pend cache(2) cs(1) by fastforce
  with pend cs(1) cache(1) show ?thesis by (simp add: fold_AddToCache_ok)
next
  case False
  with res have "cache' = cache" by (auto simp add: verify_pending_def split: sum.splits if_splits)
  with False cache show ?thesis by auto
qed

lemma VerifyBulletproofs_keeps:
  assumes "batch_law secp R" "cache_ok cache" "\<forall>c\<in>set cache. in_range secp R c"
    and "VerifyBulletproofs secp rangeProofs cache = (r, cache')"
  shows "cache_ok cache' \<and> (\<forall>c\<in>set cache'. in_range secp R c) \<and>
    (r = Inr True \<longrightarrow> (\<forall>p\<in>set rangeProofs. in_range secp R (fst p)))"
proof (cases "rangeProofs = []")
  case True
  with assms show ?thesis by (auto simp add: VerifyBulletproofs_def)
next
  case False
  let ?pending = "filter (\<lambda>p. fst p \<notin> set cache) rangeProofs"
  let ?cache = "snd (unverified_proofs rangeProofs cache)"
  have res: "(r, cache') = verify_pending secp (length (snd (hd rangeProofs))) ?pending ?cache"
    using assms(4) False VerifyBulletproofs_pending by simp
  have cache: "cache_ok ?cache" "\<forall>c\<in>set ?cache. in_range secp R c" using assms(2,3) by simp_all
  from verify_pending_sound [OF assms(1) cache res] assms(3) show ?thesis by auto
qed

lemma VerifyBulletproofs_accepts:
  assumes "batch_law secp R" "cache_ok cache" "\<forall>c\<in>set cache. in_range secp R c"
    and "VerifyBulletproofs secp rangeProofs cache = (Inr True, cache')"
  shows "\<forall>p\<in>set rangeProofs. in_range secp R (fst p)"
  using VerifyBulletproofs_keeps [OF assms] by simp


text \<open>C34. A commitment in the cache is accepted with any proof bytes: the cache is keyed by the
  commitment alone, so once one range proof of an output was verified, an output with the same
  commitment and arbitrary bytes as its proof passes, without a call of the library.\<close>

theorem VerifyBulletproofs_ignores_cached_proof:
  assumes "fst (VerifyBulletproofs secp [(c, p)] cache) = Inr True"
  shows "fst (VerifyBulletproofs secp [(c, q)] (snd (VerifyBulletproofs secp [(c, p)] cache))) = Inr True"
proof -
  have hit: "fst (VerifyBulletproofs secp [(c, q)] cache') = Inr True" if "c \<in> set cache'" for cache'
    using that by (simp add: VerifyBulletproofs_def WasAlreadyVerified_def)
  from assms have "c \<in> set (snd (VerifyBulletproofs secp [(c, p)] cache))"
    by (auto simp add: VerifyBulletproofs_def WasAlreadyVerified_def Let_def split: sum.splits if_splits)
  then show ?thesis by (rule hit)
qed

section \<open>Sums of commitments\<close>

text \<open>\<open>val\<close> is the group element a parsed commitment stands for, \<open>vH\<close> and \<open>rG\<close> the multiples of the
  two generators by a value and by a blinding factor. The library refuses to parse 33 zero bytes.\<close>

definition pedersen_laws ::
  "secp256k1 \<Rightarrow> (u8 list \<Rightarrow> 'g::ab_group_add) \<Rightarrow> (u64 \<Rightarrow> 'g) \<Rightarrow> (blinding_factor \<Rightarrow> 'g) \<Rightarrow> bool" where
  "pedersen_laws secp val vH rG \<longleftrightarrow>
     (\<forall>b v c. secp_pedersen_commit secp b v = Some c \<longrightarrow> val c = vH v + rG b) \<and>
     (\<forall>ps ns c. secp_pedersen_commit_sum secp ps ns = Some c \<longrightarrow>
        val c = sum_list (map val ps) - sum_list (map val ns)) \<and>
     (\<forall>c. \<exists>bs c'. secp_pedersen_commitment_serialize secp c = Some bs \<and> length bs = 33 \<and>
        secp_pedersen_commitment_parse secp bs = Some c' \<and> val c' = val c) \<and>
     secp_pedersen_commitment_parse secp (replicate 33 0) = None \<and>
     vH 0 = 0 \<and> rG (replicate 32 0) = 0"

definition commitment_value :: "secp256k1 \<Rightarrow> (u8 list \<Rightarrow> 'g::ab_group_add) \<Rightarrow> commitment \<Rightarrow> 'g" where
  "commitment_value secp val c = (case secp_pedersen_commitment_parse secp c of None \<Rightarrow> 0 | Some s \<Rightarrow> val s)"

abbreviation commitment_sum :: "secp256k1 \<Rightarrow> (u8 list \<Rightarrow> 'g::ab_group_add) \<Rightarrow> commitment list \<Rightarrow> 'g" where
  "commitment_sum secp val cs \<equiv> sum_list (map (commitment_value secp val) cs)"

lemma BigInteger_ValueOf_0 [simp]: "BigInteger_ValueOf n 0 = replicate n 0"
  by (simp add: BigInteger_ValueOf_def list_eq_iff_nth_eq nth_list_update)

lemma BigInteger_eq_iff: "length x = n \<Longrightarrow> length y = n \<Longrightarrow> BigInteger_eq n x y \<longleftrightarrow> x = y"
  by (auto simp add: BigInteger_eq_def list_eq_iff_nth_eq)

lemma commit_value:
  assumes "pedersen_laws secp val vH rG" "PedersenCommit secp v b = Inr c"
  shows "commitment_value secp val c = vH v + rG b \<and> length c = 33"
proof -
  from assms(2) obtain s where s: "secp_pedersen_commit secp b v = Some s"
    by (auto simp add: PedersenCommit_def split: option.splits)
  from assms(1) obtain bs c' where "secp_pedersen_commitment_serialize secp s = Some bs" "length bs = 33"
      "secp_pedersen_commitment_parse secp bs = Some c'" "val c' = val s"
    unfolding pedersen_laws_def by meson
  moreover have "val s = vH v + rG b" using assms(1) s by (simp add: pedersen_laws_def)
  ultimately show ?thesis using assms(2) s by (simp add: PedersenCommit_def commitment_value_def)
qed

lemma convert_value:
  "ConvertCommitments secp cs = Inr ss \<Longrightarrow> sum_list (map val ss) = commitment_sum secp val cs"
proof -
  assume "ConvertCommitments secp cs = Inr ss"
  then have "list_all2 (\<lambda>c s. secp_pedersen_commitment_parse secp c = Some s) cs ss"
    by (simp add: ConvertCommitments_def map_result_eq_Inr_iff)
  then show ?thesis by (induction rule: list_all2_induct) (simp_all add: commitment_value_def)
qed

lemma CommitSum_value:
  assumes laws: "pedersen_laws secp val vH rG" and sum: "PedersenCommitSum secp ps ns = Inr c"
  shows "commitment_value secp val c = commitment_sum secp val ps - commitment_sum secp val ns \<and> length c = 33"
proof -
  from sum obtain pss nss s where s: "ConvertCommitments secp ps = Inr pss" "ConvertCommitments secp ns = Inr nss"
      "secp_pedersen_commit_sum secp pss nss = Some s" "secp_pedersen_commitment_serialize secp s = Some c"
    by (auto simp add: PedersenCommitSum_def bind_result_eq_Inr_iff)
  from laws obtain bs c' where "secp_pedersen_commitment_serialize secp s = Some bs" "length bs = 33"
      "secp_pedersen_commitment_parse secp bs = Some c'" "val c' = val s"
    unfolding pedersen_laws_def by meson
  moreover have "val s = sum_list (map val pss) - sum_list (map val nss)"
    using laws s(3) by (simp add: pedersen_laws_def)
  ultimately show ?thesis using s by (simp add: commitment_value_def convert_value)
qed

lemma sanitized_sum:
  assumes "pedersen_laws secp val vH rG" "\<forall>c\<in>set cs. length c = 33"
  shows "commitment_sum secp val (filter (\<lambda>c. \<not> BigInteger_eq 33 c (BigInteger_ValueOf 33 0)) cs) =
    commitment_sum secp val cs"
  using assms(2)
proof (induction cs)
  case (Cons c cs)
  have "commitment_value secp val (replicate 33 0) = 0"
    using assms(1) by (simp add: commitment_value_def pedersen_laws_def)
  with Cons show ?case by (auto simp add: BigInteger_eq_iff)
qed simp

lemma AddCommitments_value:
  assumes "pedersen_laws secp val vH rG" "AddCommitments secp ps ns = Inr c" "\<forall>x\<in>set (ps @ ns). length x = 33"
  shows "commitment_value secp val c = commitment_sum secp val ps - commitment_sum secp val ns \<and> length c = 33"
proof -
  let ?s = "filter (\<lambda>c. \<not> BigInteger_eq 33 c (BigInteger_ValueOf 33 0))"
  from assms(2) have "PedersenCommitSum secp (?s ps) (?s ns) = Inr c" by (simp add: AddCommitments_def Let_def)
  from CommitSum_value [OF assms(1) this] sanitized_sum [OF assms(1), of ps] sanitized_sum [OF assms(1), of ns] assms(3)
  show ?thesis by (simp del: BigInteger_ValueOf_0)
qed

section \<open>Key indices in proof messages\<close>

lemma fold_Append_u32: "fold Append (ks :: u32 list) s = insert_end (concat (map be_bytes ks)) s"
  by (induction ks arbitrary: s) (simp_all add: Append_bytes)

lemma length_u32_bytes [simp]: "length (concat (map be_bytes (ks :: u32 list))) = 4 * length ks"
  by (induction ks) simp_all

lemma read_u32s_decodes: "decodes v (read_u32s (length ks)) (concat (map be_bytes ks)) ks"
proof (induction ks)
  case (Cons k ks)
  show ?case by simp (intro decodes_int(3) decodes_last [OF Cons] refl)
qed (simp add: decodes_def)

definition message_prefix :: "EBulletproofType \<Rightarrow> nat \<Rightarrow> u8 list" where
  "message_prefix t n = (if t = ENHANCED then [0, 0, 1, of_nat n] else [0, 0, 0, 0])"

lemma FromKeyIndices_bytes:
  "length ks \<le> 4 \<Longrightarrow> FromKeyIndices ks t =
     Inr (message_prefix t (length ks) @ concat (map be_bytes ks) @ replicate (16 - 4 * length ks) 0)"
proof -
  have "replicate 20 (0 :: u8) = [0, 0, 0, 0] @ replicate 16 0" by (simp add: numeral_eq_Suc)
  then show "length ks \<le> 4 \<Longrightarrow> ?thesis"
    by (simp add: FromKeyIndices_def fold_Append_u32 GetBytes_def message_prefix_def list_update_append numeral_eq_Suc
        del: replicate.simps)
qed

lemma be_bytes_u8: "be_bytes (b :: u8) = [b]"
  by (simp add: be_bytes_def numeral_eq_Suc)

lemma be_bytes_u32_0: "be_bytes (0 :: u32) = [0, 0, 0, 0]"
  by (simp add: be_bytes_def numeral_eq_Suc)

lemma read_enhanced_length:
  "decodes v (rbind ReadU8 (\<lambda>_. rbind ReadU8 (\<lambda>_. rbind ReadU8 (\<lambda>_. rbind ReadU8 (\<lambda>n. rreturn (unat n))))))
     [0, 0, 1, n] (unat n)"
proof -
  have "decodes v (rbind ReadU8 (\<lambda>_. rbind ReadU8 (\<lambda>_. rbind ReadU8 (\<lambda>_. rbind ReadU8 (\<lambda>n. rreturn (unat n))))))
      (be_bytes (0 :: u8) @ be_bytes (0 :: u8) @ be_bytes (1 :: u8) @ be_bytes n) (unat n)"
    by (intro decodes_int(1) decodes_last [OF decodes_ReadInt(1)] refl)
  then show ?thesis by (simp add: be_bytes_u8)
qed

lemma read_original_length:
  "decodes v (rbind ReadU32 (\<lambda>w. if w \<noteq> 0 then rthrow DESERIALIZATION_EXCEPTION else rreturn (3::nat))) [0, 0, 0, 0] 3"
proof -
  have "decodes v (rbind ReadU32 (\<lambda>w. if w \<noteq> 0 then rthrow DESERIALIZATION_EXCEPTION else rreturn (3::nat)))
      (be_bytes (0 :: u32)) 3"
    by (rule decodes_last [OF decodes_ReadInt(3)]) simp
  then show ?thesis by (simp add: be_bytes_u32_0)
qed

lemma decodes_prefix:
  "decodes v m e x \<Longrightarrow> length (e @ post) < 2 ^ 64 \<Longrightarrow> m (ByteBuffer_new (e @ post) v) = Inr (x, buf v e post)"
  unfolding decodes_def ByteBuffer_new_buf by (metis append_Nil list.size(3) plus_nat.add_0)

text \<open>The derivation path a wallet hides in a range proof is recovered from it: up to four key
  indices in the enhanced format, exactly three in the original one.\<close>

theorem KeyIndices_roundtrip:
  assumes "t = ENHANCED \<and> keyIndices \<noteq> [] \<and> length keyIndices \<le> 4 \<or> t = ORIGINAL \<and> length keyIndices = 3"
  shows "\<exists>m. FromKeyIndices keyIndices t = Inr m \<and> length m = 20 \<and> ToKeyIndices m t = Inr keyIndices"
proof -
  let ?n = "length keyIndices"
  let ?m = "message_prefix t ?n @ concat (map be_bytes keyIndices) @ replicate (16 - 4 * ?n) 0"
  have le: "?n \<le> 4" "?n \<noteq> 0" using assms by auto
  then have n: "unat (of_nat ?n :: u8) = ?n" by (simp add: unat_of_nat take_bit_nat_eq_self)
  have rest: "decodes V1 (read_u32s (if ?n = 0 then 3 else ?n)) (concat (map be_bytes keyIndices)) keyIndices"
    using read_u32s_decodes le by simp
  have "ToKeyIndices ?m t = Inr keyIndices"
  proof (cases "t = ENHANCED")
    case True
    from decodes_bind [OF read_enhanced_length [of V1 "of_nat ?n"], where f = "\<lambda>n. read_u32s (if n = 0 then 3 else n)"
        and e' = "concat (map be_bytes keyIndices)" and y = keyIndices] rest
    have "decodes V1 (rbind (rbind ReadU8 (\<lambda>_. rbind ReadU8 (\<lambda>_. rbind ReadU8 (\<lambda>_. rbind ReadU8 (\<lambda>n. rreturn (unat n))))))
        (\<lambda>n. read_u32s (if n = 0 then 3 else n))) (message_prefix t ?n @ concat (map be_bytes keyIndices)) keyIndices"
      by (simp only: n message_prefix_def True if_True simp_thms)
    from decodes_prefix [OF this, of "replicate (16 - 4 * ?n) 0"] show ?thesis
      using le by (simp add: ToKeyIndices_def True message_prefix_def)
  next
    case False
    with assms have n3: "?n = 3" "t = ORIGINAL" by auto
    from decodes_bind [OF read_original_length [of V1], where f = "\<lambda>n. read_u32s (if n = 0 then 3 else n)"
        and e' = "concat (map be_bytes keyIndices)" and y = keyIndices] rest
    have "decodes V1 (rbind (rbind ReadU32 (\<lambda>w. if w \<noteq> 0 then rthrow DESERIALIZATION_EXCEPTION else rreturn 3))
        (\<lambda>n. read_u32s (if n = 0 then 3 else n))) (message_prefix t ?n @ concat (map be_bytes keyIndices)) keyIndices"
      by (simp only: n3 message_prefix_def EBulletproofType.distinct if_False)
    from decodes_prefix [OF this, of "replicate (16 - 4 * ?n) 0"] show ?thesis
      using le by (simp add: ToKeyIndices_def n3 message_prefix_def)
  qed
  moreover have "length ?m = 20" using le by (simp add: message_prefix_def)
  ultimately show ?thesis using FromKeyIndices_bytes [OF le(1)] by blast
qed

theorem KeyIndices_roundtrip_witness:
  "\<exists>m. FromKeyIndices [3, 2, 1, 7] ENHANCED = Inr m \<and> length m = 20 \<and> ToKeyIndices m ENHANCED = Inr [3, 2, 1, 7]"
  by (rule KeyIndices_roundtrip) simp

section \<open>An instance of the library's laws\<close>

text \<open>Commitments to elements of the integers modulo \<open>2 ^ 64\<close>; both generators are 1.\<close>

definition sample_val :: "u8 list \<Rightarrow> u64" where
  "sample_val s = of_le_bytes (take 8 s)"

definition sample_secp :: secp256k1 where
  "sample_secp = \<lparr>
     secp_pedersen_commit = (\<lambda>b v. Some (le_bytes 8 (v + sample_val b))),
     secp_pedersen_commitment_parse = (\<lambda>bs. if length bs = 33 \<and> hd bs = 9 then Some (tl bs) else None),
     secp_pedersen_commitment_serialize = (\<lambda>s. Some (9 # take 32 (s @ replicate 32 0))),
     secp_pedersen_commit_sum = (\<lambda>ps ns. Some (le_bytes 8 (sum_list (map sample_val ps) - sum_list (map sample_val ns)))),
     secp_pedersen_blind_sum = (\<lambda>bs n. Some (le_bytes 8 (sum_list (map sample_val (take n bs)) -
       sum_list (map sample_val (drop n bs))) @ replicate 24 0)),
     secp_blind_switch = (\<lambda>b v. Some b),
     secp_pedersen_commitment_to_pubkey = Some,
     secp_pubkey_to_pedersen_commitment = Some,
     secp_ec_seckey_verify = (\<lambda>k. True),
     secp_ec_pubkey_create = Some,
     secp_ec_pubkey_parse = Some,
     secp_ec_pubkey_serialize = Some,
     secp_ec_pubkey_combine = (\<lambda>ks. Some (le_bytes 8 (sum_list (map sample_val ks)))),
     secp_ec_privkey_tweak_add = (\<lambda>a b. Some (le_bytes 8 (sample_val a + sample_val b) @ replicate 24 0)),
     secp_context_randomize = (\<lambda>s. True),
     secp_aggsig_export_secnonce_single = Some,
     secp_aggsig_sign_single = (\<lambda>m k n a b e s. Some k),
     secp_aggsig_verify_single = (\<lambda>s m n k e partial. True),
     secp_aggsig_add_signatures_single = (\<lambda>s n. Some (hd s)),
     secp_ecdsa_signature_parse_compact = Some,
     secp_ecdsa_signature_serialize_compact = Some,
     secp_schnorrsig_parse = Some,
     secp_schnorrsig_verify_batch = (\<lambda>ss ms ks n. length ss = n),
     secp_bulletproof_rangeproof_verify_multi = (\<lambda>ps n plen cs. list_all2 (\<lambda>p s. p = [1]) ps cs),
     secp_bulletproof_rangeproof_prove = (\<lambda>v k rn pn m. Some [1]),
     secp_bulletproof_rangeproof_rewind = (\<lambda>p c n. None)\<rparr>"

lemma sample_val_le_bytes [simp]: "sample_val (le_bytes 8 w) = w"
  by (simp add: sample_val_def)

lemma sample_val_zero: "sample_val (replicate 32 0) = 0"
  by (simp add: sample_val_def numeral_eq_Suc)

lemma sample_secp_laws: "pedersen_laws sample_secp sample_val (\<lambda>v. v) sample_val"
  unfolding pedersen_laws_def
proof (intro conjI allI impI)
  fix c :: "u8 list"
  have "take 8 (take 32 (c @ replicate 32 0)) = take 8 c @ replicate (8 - length c) 0"
    by (simp add: min_def) linarith
  then have "sample_val (take 32 (c @ replicate 32 0)) = sample_val c"
    by (auto simp add: sample_val_def bit_eq_iff bit_of_le_bytes nth_append)
  then show "\<exists>bs c'. secp_pedersen_commitment_serialize sample_secp c = Some bs \<and> length bs = 33 \<and>
      secp_pedersen_commitment_parse sample_secp bs = Some c' \<and> sample_val c' = sample_val c"
    by (simp add: sample_secp_def)
qed (auto simp add: sample_secp_def sample_val_zero)

lemma sample_batch_law: "batch_law sample_secp (\<lambda>p s. p = [1])"
  by (simp add: batch_law_def sample_secp_def)

abbreviation sample_commitment :: "u64 \<Rightarrow> commitment" where
  "sample_commitment v \<equiv> 9 # le_bytes 8 v @ replicate 24 0"


theorem VerifyBulletproofs_ignores_cached_proof_witness:
  "fst (VerifyBulletproofs sample_secp [(sample_commitment 5, [7])]
     (snd (VerifyBulletproofs sample_secp [(sample_commitment 5, [1])] []))) = Inr True"
  by (rule VerifyBulletproofs_ignores_cached_proof) code_simp

end
