(* ===== verification/Validation.thy ===== *)
theory Validation
  imports Difficulty Crypto_Wrappers "HOL-Library.Multiset"
begin

text \<open>
  The consensus rules for transactions, headers and blocks: \<^verbatim>\<open>KernelSumValidator\<close>,
  \<^verbatim>\<open>KernelSignatureValidator\<close>, \<^verbatim>\<open>CutThroughVerifier\<close>,
  \<^verbatim>\<open>TransactionBodyValidator\<close>, \<^verbatim>\<open>TransactionValidator\<close>
  (\<^verbatim>\<open>include/Core/Validation\<close>, \<^verbatim>\<open>src/Core/Validation\<close>),
  \<^verbatim>\<open>BlockValidator\<close>, \<^verbatim>\<open>BlockHeaderValidator\<close>,
  \<^verbatim>\<open>ContextualBlockValidator\<close> (\<^verbatim>\<open>src/BlockChain/Validators\<close>), and the
  transaction helpers \<^verbatim>\<open>TransactionUtil\<close> and \<^verbatim>\<open>FeeUtil\<close>.

  The elliptic-curve library is the parameter \<open>secp\<close>, Blake2b the parameter \<open>H\<close>. A validation
  threads the cache of verified range proofs, which it may change even when it throws.
\<close>

section \<open>Computations on the proof cache\<close>

type_synonym 'a cached = "proofs_cache \<Rightarrow> 'a result \<times> proofs_cache"

definition bind_cached :: "'a cached \<Rightarrow> ('a \<Rightarrow> 'b cached) \<Rightarrow> 'b cached" where
  "bind_cached m f cache = (case m cache of (Inl e, cache) \<Rightarrow> (Inl e, cache) | (Inr x, cache) \<Rightarrow> f x cache)"

definition lift_cached :: "'a result \<Rightarrow> 'a cached" where
  "lift_cached r cache = (r, cache)"

text \<open>\<^verbatim>\<open>catch (std::exception&)\<close> that rethrows as \<^verbatim>\<open>BAD_DATA_EXCEPTION\<close>.\<close>

definition rethrow_bad_data :: "'a result \<Rightarrow> 'a result" where
  "rethrow_bad_data r = (case r of
      Inl UNDEFINED_BEHAVIOUR \<Rightarrow> Inl UNDEFINED_BEHAVIOUR
    | Inl _ \<Rightarrow> Inl BAD_DATA_EXCEPTION
    | Inr x \<Rightarrow> Inr x)"

section \<open>KernelSumValidator\<close>

definition AddKernelOffset :: "secp256k1 \<Rightarrow> commitment \<Rightarrow> blinding_factor \<Rightarrow> commitment result" where
  "AddKernelOffset secp kernelSum totalKernelOffset =
     bind_result
       (if \<not> BigInteger_eq 32 totalKernelOffset (BigInteger_ValueOf 32 0)
        then bind_result (CommitBlinded secp 0 totalKernelOffset) (\<lambda>c. Inr [kernelSum, c])
        else Inr [kernelSum])
       (\<lambda>commitments. AddCommitments secp commitments [])"

definition ValidateKernelSums_commitments ::
  "secp256k1 \<Rightarrow> commitment list \<Rightarrow> commitment list \<Rightarrow> commitment list \<Rightarrow> i64 \<Rightarrow> blinding_factor \<Rightarrow>
   block_sums option \<Rightarrow> block_sums result" where
  "ValidateKernelSums_commitments secp inputs outputs kernels overage kernelOffset blockSumsOpt =
     bind_result
       (if 0 <s overage then bind_result (CommitTransparent secp overage) (\<lambda>c. Inr (inputs, outputs @ [c]))
        else if overage <s 0 then bind_result (CommitTransparent secp (0 - overage)) (\<lambda>c. Inr (inputs @ [c], outputs))
        else Inr (inputs, outputs))
       (\<lambda>(inputCommitments, outputCommitments).
         let outputCommitments = (case blockSumsOpt of
               Some sums \<Rightarrow> outputCommitments @ [bs_outputSum sums] | None \<Rightarrow> outputCommitments)
         in bind_result (AddCommitments secp outputCommitments inputCommitments) (\<lambda>utxoSum.
            let kernelCommitments = (case blockSumsOpt of
                  Some sums \<Rightarrow> kernels @ [bs_kernelSum sums] | None \<Rightarrow> kernels)
            in bind_result (AddCommitments secp kernelCommitments []) (\<lambda>kernelSum.
               bind_result (AddKernelOffset secp kernelSum kernelOffset) (\<lambda>kernelSumPlusOffset.
                 if \<not> BigInteger_eq 33 utxoSum kernelSumPlusOffset then Inl BAD_DATA_EXCEPTION
                 else Inr \<lparr>bs_outputSum = utxoSum, bs_kernelSum = kernelSum\<rparr>))))"

definition ValidateKernelSums ::
  "secp256k1 \<Rightarrow> transaction_body \<Rightarrow> i64 \<Rightarrow> blinding_factor \<Rightarrow> block_sums option \<Rightarrow> block_sums result" where
  "ValidateKernelSums secp body overage kernelOffset blockSumsOpt =
     ValidateKernelSums_commitments secp (map ti_commitment (tb_inputs body)) (map to_commitment (tb_outputs body))
       (map tk_excessCommitment (tb_kernels body)) overage kernelOffset blockSumsOpt"

section \<open>Transaction bodies\<close>

definition VerifyKernelSignatures :: "hash_fn \<Rightarrow> secp256k1 \<Rightarrow> transaction_kernel list \<Rightarrow> bool" where
  "VerifyKernelSignatures H secp kernels =
     (let commitments = map tk_excessCommitment kernels;
          signatures = map tk_excessSignature kernels;
          messages = map (\<lambda>k. GetSignatureMessage H (tk_features k) (tk_fee k) (tk_lockHeight k)) kernels
      in VerifyAggregateSignatures secp signatures commitments messages)"

definition CutThroughVerifier_VerifyCutThrough :: "transaction_input list \<Rightarrow> transaction_output list \<Rightarrow> bool" where
  "CutThroughVerifier_VerifyCutThrough inputs outputs =
     (let commitments = map to_commitment outputs
      in \<not> list_ex (\<lambda>i. ti_commitment i \<in> set commitments) inputs)"

definition ValidateWeight :: "transaction_body \<Rightarrow> bool \<Rightarrow> unit result" where
  "ValidateWeight body withReward =
     (let reserve = (if withReward then 1 else 0 :: u32);
          blockInputWeight = of_nat (length (tb_inputs body)) * ucast BLOCK_INPUT_WEIGHT;
          blockOutputWeight = (of_nat (length (tb_outputs body)) + reserve) * ucast BLOCK_OUTPUT_WEIGHT;
          blockKernelWeight = (of_nat (length (tb_kernels body)) + reserve) * ucast BLOCK_KERNEL_WEIGHT
      in guard_result BAD_DATA_EXCEPTION
           (\<not> blockInputWeight + blockOutputWeight + blockKernelWeight > MAX_BLOCK_WEIGHT))"

definition VerifySorted :: "transaction_body \<Rightarrow> unit result" where
  "VerifySorted body =
     guard_result BAD_DATA_EXCEPTION
       (IsSorted BigInteger_greater ti_hash (tb_inputs body) \<and> IsSorted BigInteger_greater to_hash (tb_outputs body) \<and>
        IsSorted BigInteger_greater tk_hash (tb_kernels body))"

definition VerifyCutThrough :: "transaction_body \<Rightarrow> unit result" where
  "VerifyCutThrough body =
     (let commitments = map to_commitment (tb_outputs body)
      in guard_result BAD_DATA_EXCEPTION (\<not> list_ex (\<lambda>i. ti_commitment i \<in> set commitments) (tb_inputs body)))"

definition VerifyRangeProofs :: "secp256k1 \<Rightarrow> transaction_output list \<Rightarrow> unit cached" where
  "VerifyRangeProofs secp outputs =
     bind_cached (VerifyRangeProofs_crypto secp (map (\<lambda>x. (to_commitment x, to_rangeProof x)) outputs)) (\<lambda>ok.
       lift_cached (guard_result BAD_DATA_EXCEPTION ok))"

definition TransactionBodyValidator_Validate :: "hash_fn \<Rightarrow> secp256k1 \<Rightarrow> transaction_body \<Rightarrow> bool \<Rightarrow> unit cached" where
  "TransactionBodyValidator_Validate H secp body withReward =
     bind_cached (lift_cached (ValidateWeight body withReward)) (\<lambda>_.
     bind_cached (lift_cached (VerifySorted body)) (\<lambda>_.
     bind_cached (lift_cached (VerifyCutThrough body)) (\<lambda>_.
     bind_cached (VerifyRangeProofs secp (tb_outputs body)) (\<lambda>_.
       lift_cached (guard_result BAD_DATA_EXCEPTION (VerifyKernelSignatures H secp (tb_kernels body)))))))"

section \<open>TransactionValidator\<close>

definition ValidateFeatures :: "transaction_body \<Rightarrow> unit result" where
  "ValidateFeatures body =
     (if list_ex TransactionOutput_IsCoinbase (tb_outputs body) then Inl BAD_DATA_EXCEPTION
      else if list_ex TransactionKernel_IsCoinbase (tb_kernels body) then Inl BAD_DATA_EXCEPTION
      else Inr ())"

definition TransactionValidator_ValidateKernelSums :: "secp256k1 \<Rightarrow> transaction \<Rightarrow> unit result" where
  "TransactionValidator_ValidateKernelSums secp t =
     (let overage = foldl (\<lambda>overage kernel. overage + tk_fee kernel) 0 (tb_kernels (tx_body t)) :: i64
      in rethrow_bad_data
           (bind_result (ValidateKernelSums secp (tx_body t) overage (tx_offset t) None) (\<lambda>_. Inr ())))"

definition TransactionValidator_Validate :: "hash_fn \<Rightarrow> secp256k1 \<Rightarrow> transaction \<Rightarrow> unit cached" where
  "TransactionValidator_Validate H secp t =
     bind_cached (TransactionBodyValidator_Validate H secp (tx_body t) True) (\<lambda>_.
     bind_cached (lift_cached (ValidateFeatures (tx_body t))) (\<lambda>_.
       lift_cached (TransactionValidator_ValidateKernelSums secp t)))"

section \<open>BlockValidator\<close>

definition VerifyBody :: "hash_fn \<Rightarrow> secp256k1 \<Rightarrow> full_block \<Rightarrow> unit cached" where
  "VerifyBody H secp b cache =
     (let (r, cache) = TransactionBodyValidator_Validate H secp (fb_body b) False cache
      in (rethrow_bad_data r, cache))"

definition VerifyKernelLockHeights :: "full_block \<Rightarrow> unit result" where
  "VerifyKernelLockHeights b =
     guard_result BAD_DATA_EXCEPTION
       (\<not> list_ex (\<lambda>kernel. tk_lockHeight kernel > bh_height (fb_header b)) (tb_kernels (fb_body b)))"

definition VerifyCoinbase :: "secp256k1 \<Rightarrow> full_block \<Rightarrow> unit result" where
  "VerifyCoinbase secp b =
     (let coinbaseCommitments = map to_commitment (filter TransactionOutput_IsCoinbase (tb_outputs (fb_body b)));
          coinbaseKernelExcesses = map tk_excessCommitment (filter TransactionKernel_IsCoinbase (tb_kernels (fb_body b)));
          reward = foldl (\<lambda>reward kernel. reward + tk_fee kernel) REWARD (tb_kernels (fb_body b))
      in bind_result (CommitTransparent secp reward) (\<lambda>overCommitment.
         bind_result (AddCommitments secp coinbaseCommitments [overCommitment]) (\<lambda>outputAdjustedSum.
         bind_result (AddCommitments secp coinbaseKernelExcesses []) (\<lambda>kernelSum.
           guard_result BAD_DATA_EXCEPTION (BigInteger_eq 33 kernelSum outputAdjustedSum)))))"

definition VerifySelfConsistent :: "hash_fn \<Rightarrow> secp256k1 \<Rightarrow> full_block \<Rightarrow> full_block cached" where
  "VerifySelfConsistent H secp b =
     (if fb_validated b then lift_cached (Inr b)
      else
        bind_cached (VerifyBody H secp b) (\<lambda>_.
        bind_cached (lift_cached (VerifyKernelLockHeights b)) (\<lambda>_.
        bind_cached (lift_cached (VerifyCoinbase secp b)) (\<lambda>_.
          lift_cached (Inr (FullBlock_MarkAsValidated b))))))"

section \<open>BlockHeaderValidator\<close>

text \<open>The parameters are the tick rate and reading of the system clock, the proof-of-work check and
  the root of the header MMR up to a height.\<close>

definition IsValidHeader ::
  "EEnvironmentType \<Rightarrow> int \<Rightarrow> int \<Rightarrow> (block_header \<Rightarrow> block_header \<Rightarrow> bool result) \<Rightarrow> (u64 \<Rightarrow> big_integer result) \<Rightarrow>
   block_header \<Rightarrow> block_header \<Rightarrow> bool result" where
  "IsValidHeader env ticks now IsPoWValid HeaderMMR_Root header previousHeader =
     (if bh_height header \<noteq> bh_height previousHeader + 1 then Inr False
      else if sint (bh_timestamp header) > GetMaxBlockTime ticks now then Inr False
      else
        bind_result (GetHeaderVersion env (bh_height header)) (\<lambda>validHeaderVersion.
        if bh_version header \<noteq> validHeaderVersion then Inr False
        else if sint (bh_timestamp header) \<le> sint (bh_timestamp previousHeader) then Inr False
        else bind_result (IsPoWValid header previousHeader) (\<lambda>validPoW.
          if \<not> validPoW then Inr False
          else bind_result (HeaderMMR_Root (bh_height header - 1)) (\<lambda>root.
            Inr (BigInteger_eq 32 root (bh_previousRoot header))))))"

section \<open>ContextualBlockValidator\<close>

fun VerifyCoinbaseMaturity ::
  "(commitment \<rightharpoonup> output_location) \<Rightarrow> u64 \<Rightarrow> transaction_input list \<Rightarrow> unit result" where
  "VerifyCoinbaseMaturity GetOutputPosition maximumBlockHeight [] = Inr ()"
| "VerifyCoinbaseMaturity GetOutputPosition maximumBlockHeight (i # inputs) =
     (if TransactionInput_IsCoinbase i \<and>
         (case GetOutputPosition (ti_commitment i) of None \<Rightarrow> True
          | Some location \<Rightarrow> ol_blockHeight location > maximumBlockHeight)
      then Inl BAD_DATA_EXCEPTION
      else VerifyCoinbaseMaturity GetOutputPosition maximumBlockHeight inputs)"

definition ContextualBlockValidator_ValidateBlock ::
  "EEnvironmentType \<Rightarrow> hash_fn \<Rightarrow> secp256k1 \<Rightarrow> (commitment \<rightharpoonup> output_location) \<Rightarrow> (big_integer \<rightharpoonup> block_sums) \<Rightarrow>
   (block_header \<Rightarrow> bool result) \<Rightarrow> full_block \<Rightarrow> (block_sums \<times> full_block) cached" where
  "ContextualBlockValidator_ValidateBlock env H secp GetOutputPosition GetBlockSums ValidateRoots b =
     bind_cached (VerifySelfConsistent H secp b) (\<lambda>b. lift_cached (
     let maximumBlockHeight = GetMaxCoinbaseHeight env (bh_height (fb_header b))
     in bind_result (VerifyCoinbaseMaturity GetOutputPosition maximumBlockHeight (tb_inputs (fb_body b))) (\<lambda>_.
        bind_result (ValidateRoots (fb_header b)) (\<lambda>rootsValid.
        if \<not> rootsValid then Inl BAD_DATA_EXCEPTION
        else (case GetBlockSums (bh_previousBlockHash (fb_header b)) of
            None \<Rightarrow> Inl BLOCK_CHAIN_EXCEPTION
          | Some previousBlockSums \<Rightarrow>
              bind_result (ValidateKernelSums secp (fb_body b) (0 - REWARD) (bh_totalKernelOffset (fb_header b))
                (Some previousBlockSums)) (\<lambda>sums. Inr (sums, b)))))))"

section \<open>TransactionUtil and FeeUtil\<close>

definition PerformCutThrough ::
  "transaction_input list \<Rightarrow> transaction_output list \<Rightarrow> transaction_input list \<times> transaction_output list" where
  "PerformCutThrough inputs outputs =
     (let inputCommitments = map ti_commitment inputs;
          outputCommitments = map to_commitment outputs
      in (filter (\<lambda>i. ti_commitment i \<notin> set outputCommitments) inputs,
          filter (\<lambda>x. to_commitment x \<notin> set inputCommitments) outputs))"

text \<open>\<^verbatim>\<open>std::sort\<close> with a comparison of hashes; elements with equal hashes may come in any
  order, here they keep theirs.\<close>

primrec insert_by_hash :: "('a \<Rightarrow> big_integer) \<Rightarrow> 'a \<Rightarrow> 'a list \<Rightarrow> 'a list" where
  "insert_by_hash GetHash x [] = [x]"
| "insert_by_hash GetHash x (y # ys) =
     (if BigInteger_less (GetHash y) (GetHash x) then y # insert_by_hash GetHash x ys else x # y # ys)"

definition sort_by_hash :: "('a \<Rightarrow> big_integer) \<Rightarrow> 'a list \<Rightarrow> 'a list" where
  "sort_by_hash GetHash xs = foldr (insert_by_hash GetHash) xs []"

definition Aggregate :: "hash_fn \<Rightarrow> secp256k1 \<Rightarrow> transaction list \<Rightarrow> transaction result" where
  "Aggregate H secp transactions =
     (case transactions of
        [] \<Rightarrow> Inl UNDEFINED_BEHAVIOUR
      | [t] \<Rightarrow> Inr t
      | _ \<Rightarrow>
          let inputs = concat (map (\<lambda>t. tb_inputs (tx_body t)) transactions);
              outputs = concat (map (\<lambda>t. tb_outputs (tx_body t)) transactions);
              kernels = concat (map (\<lambda>t. tb_kernels (tx_body t)) transactions);
              kernelOffsets = map tx_offset transactions;
              (inputs, outputs) = PerformCutThrough inputs outputs;
              kernels = sort_by_hash tk_hash kernels;
              inputs = sort_by_hash ti_hash inputs;
              outputs = sort_by_hash to_hash outputs
          in bind_result (AddBlindingFactors secp kernelOffsets []) (\<lambda>totalKernelOffset.
               Inr (Transaction_new H totalKernelOffset
                 \<lparr>tb_inputs = inputs, tb_outputs = outputs, tb_kernels = kernels\<rparr>)))"

definition CalculateActualFee :: "transaction \<Rightarrow> u64" where
  "CalculateActualFee t = foldl (\<lambda>fee kernel. fee + tk_fee kernel) 0 (tb_kernels (tx_body t))"

definition CalculateTxWeight :: "i64 \<Rightarrow> i64 \<Rightarrow> i64 \<Rightarrow> u64" where
  "CalculateTxWeight numInputs numOutputs numKernels =
     (let weight = (-1 * numInputs) + (4 * numOutputs) + (1 * numKernels)
      in if weight <s 1 then 1 else weight)"

definition CalculateFee :: "u64 \<Rightarrow> i64 \<Rightarrow> i64 \<Rightarrow> i64 \<Rightarrow> u64" where
  "CalculateFee feeBase numInputs numOutputs numKernels = feeBase * CalculateTxWeight numInputs numOutputs numKernels"

definition CalculateMinimumFee :: "u64 \<Rightarrow> transaction \<Rightarrow> u64" where
  "CalculateMinimumFee feeBase t =
     CalculateFee feeBase (of_nat (length (tb_inputs (tx_body t)))) (of_nat (length (tb_outputs (tx_body t))))
       (of_nat (length (tb_kernels (tx_body t))))"

section \<open>Results and the cache\<close>

lemma bind_cached_eq_Inr_iff:
  "bind_cached m f cache = (Inr y, cache') \<longleftrightarrow> (\<exists>x cache1. m cache = (Inr x, cache1) \<and> f x cache1 = (Inr y, cache'))"
  by (auto simp add: bind_cached_def split: prod.splits sum.splits)

lemma lift_cached_eq_iff [simp]: "lift_cached r cache = (r', cache') \<longleftrightarrow> r = r' \<and> cache = cache'"
  by (simp add: lift_cached_def)

lemma rethrow_bad_data_Inr [simp]: "rethrow_bad_data r = Inr x \<longleftrightarrow> r = Inr x"
  by (auto simp add: rethrow_bad_data_def split: sum.splits exn.splits)

section \<open>The balance of commitments\<close>

text \<open>What is signed into the sums for an overage: fees are positive, a block reward is negative.\<close>

definition overage_value :: "(u64 \<Rightarrow> 'g::ab_group_add) \<Rightarrow> i64 \<Rightarrow> 'g" where
  "overage_value vH overage =
     (if 0 <s overage then vH overage else if overage <s 0 then - vH (0 - overage) else 0)"

definition sums_ok :: "block_sums \<Rightarrow> bool" where
  "sums_ok s \<longleftrightarrow> length (bs_outputSum s) = 33 \<and> length (bs_kernelSum s) = 33"

lemma AddKernelOffset_value:
  assumes laws: "pedersen_laws secp val vH rG" and add: "AddKernelOffset secp k off = Inr c"
    and len: "length k = 33" "length off = 32"
  shows "commitment_value secp val c = commitment_value secp val k + rG off \<and> length c = 33"
proof (cases "off = replicate 32 0")
  case True
  with add len AddCommitments_value [OF laws, of "[k]" "[]" c] laws show ?thesis
    by (simp add: AddKernelOffset_def BigInteger_eq_iff pedersen_laws_def)
next
  case False
  with add len obtain z where z: "PedersenCommit secp 0 off = Inr z" "AddCommitments secp [k, z] [] = Inr c"
    by (auto simp add: AddKernelOffset_def BigInteger_eq_iff bind_result_eq_Inr_iff CommitBlinded_def)
  from commit_value [OF laws z(1)] AddCommitments_value [OF laws z(2)] len laws show ?thesis
    by (simp add: pedersen_laws_def)
qed

lemma transparent_value:
  "pedersen_laws secp val vH rG \<Longrightarrow> CommitTransparent secp v = Inr c \<Longrightarrow>
   commitment_value secp val c = vH v \<and> length c = 33"
  using commit_value [of secp val vH rG v "BigInteger_ValueOf 32 0" c]
  by (simp add: CommitTransparent_def pedersen_laws_def)

text \<open>What both kinds of callers get from a validation that succeeds.\<close>

lemma kernel_sums_balance:
  assumes laws: "pedersen_laws secp val vH rG"
    and valid: "ValidateKernelSums_commitments secp ins outs ks overage off prev = Inr sums"
    and len: "\<forall>c\<in>set (ins @ outs @ ks). length c = 33" "length off = 32" "\<And>s. prev = Some s \<Longrightarrow> sums_ok s"
  shows "sums_ok sums \<and>
    commitment_value secp val (bs_outputSum sums) = commitment_sum secp val outs - commitment_sum secp val ins +
      overage_value vH overage + (case prev of None \<Rightarrow> 0 | Some s \<Rightarrow> commitment_value secp val (bs_outputSum s)) \<and>
    commitment_value secp val (bs_kernelSum sums) = commitment_sum secp val ks +
      (case prev of None \<Rightarrow> 0 | Some s \<Rightarrow> commitment_value secp val (bs_kernelSum s)) \<and>
    commitment_value secp val (bs_outputSum sums) = commitment_value secp val (bs_kernelSum sums) + rG off"
proof -
  let ?prevs = "\<lambda>f. case prev of Some s \<Rightarrow> [f s] | None \<Rightarrow> []"
  let ?prev = "\<lambda>f. case prev of None \<Rightarrow> 0 | Some s \<Rightarrow> commitment_value secp val (f s)"
  have prevs: "commitment_sum secp val (?prevs f) = ?prev f" for f by (cases prev) simp_all
  have snoc: "(case prev of Some s \<Rightarrow> xs @ [f s] | None \<Rightarrow> xs) = xs @ ?prevs f" for xs and f :: "block_sums \<Rightarrow> commitment"
    by (cases prev) simp_all
  have plen: "\<forall>c\<in>set (?prevs bs_outputSum @ ?prevs bs_kernelSum). length c = 33"
    using len(3) by (cases prev) (auto simp add: sums_ok_def)
  from valid obtain ins' outs' k where
    io: "(if 0 <s overage then bind_result (CommitTransparent secp overage) (\<lambda>c. Inr (ins, outs @ [c]))
        else if overage <s 0 then bind_result (CommitTransparent secp (0 - overage)) (\<lambda>c. Inr (ins @ [c], outs))
        else Inr (ins, outs)) = Inr (ins', outs')"
    and add: "AddCommitments secp (outs' @ ?prevs bs_outputSum) ins' = Inr (bs_outputSum sums)"
      "AddCommitments secp (ks @ ?prevs bs_kernelSum) [] = Inr (bs_kernelSum sums)"
      "AddKernelOffset secp (bs_kernelSum sums) off = Inr k" "BigInteger_eq 33 (bs_outputSum sums) k"
    unfolding ValidateKernelSums_commitments_def Let_def snoc
    by (auto simp add: bind_result_eq_Inr_iff split: if_splits)
  from io len(1) transparent_value [OF laws]
  have io': "commitment_sum secp val outs' - commitment_sum secp val ins' =
      commitment_sum secp val outs - commitment_sum secp val ins + overage_value vH overage"
    "\<forall>c\<in>set (ins' @ outs'). length c = 33"
    by (auto simp add: overage_value_def bind_result_eq_Inr_iff split: if_splits)
  have out: "commitment_value secp val (bs_outputSum sums) =
      commitment_sum secp val outs' + ?prev bs_outputSum - commitment_sum secp val ins' \<and> length (bs_outputSum sums) = 33"
    using AddCommitments_value [OF laws add(1)] io'(2) plen by (auto simp add: prevs)
  have ker: "commitment_value secp val (bs_kernelSum sums) = commitment_sum secp val ks + ?prev bs_kernelSum \<and>
      length (bs_kernelSum sums) = 33"
    using AddCommitments_value [OF laws add(2)] len(1) plen by (auto simp add: prevs)
  from AddKernelOffset_value [OF laws add(3)] ker len(2) add(4) out
  have off: "commitment_value secp val (bs_outputSum sums) = commitment_value secp val (bs_kernelSum sums) + rG off"
    by (simp add: BigInteger_eq_iff)
  have "commitment_value secp val (bs_outputSum sums) = commitment_sum secp val outs - commitment_sum secp val ins +
      overage_value vH overage + ?prev bs_outputSum"
    unfolding io'(1) [symmetric] using out by simp
  with out ker off show ?thesis by (simp add: sums_ok_def)
qed

definition body_wf :: "transaction_body \<Rightarrow> bool" where
  "body_wf b \<longleftrightarrow> list_all (\<lambda>i. length (ti_commitment i) = 33) (tb_inputs b) \<and>
     list_all (\<lambda>x. length (to_commitment x) = 33) (tb_outputs b) \<and>
     list_all (\<lambda>k. length (tk_excessCommitment k) = 33) (tb_kernels b) \<and>
     length (tb_inputs b) < 2 ^ 26 \<and> length (tb_outputs b) < 2 ^ 26 \<and> length (tb_kernels b) < 2 ^ 26"

abbreviation input_sum :: "secp256k1 \<Rightarrow> (u8 list \<Rightarrow> 'g::ab_group_add) \<Rightarrow> transaction_body \<Rightarrow> 'g" where
  "input_sum secp val b \<equiv> commitment_sum secp val (map ti_commitment (tb_inputs b))"

abbreviation output_sum :: "secp256k1 \<Rightarrow> (u8 list \<Rightarrow> 'g::ab_group_add) \<Rightarrow> transaction_body \<Rightarrow> 'g" where
  "output_sum secp val b \<equiv> commitment_sum secp val (map to_commitment (tb_outputs b))"

abbreviation kernel_sum :: "secp256k1 \<Rightarrow> (u8 list \<Rightarrow> 'g::ab_group_add) \<Rightarrow> transaction_body \<Rightarrow> 'g" where
  "kernel_sum secp val b \<equiv> commitment_sum secp val (map tk_excessCommitment (tb_kernels b))"

lemma body_sums_balance:
  assumes "pedersen_laws secp val vH rG" "ValidateKernelSums secp b overage off prev = Inr sums" "body_wf b"
    and "length off = 32" "\<And>s. prev = Some s \<Longrightarrow> sums_ok s"
  shows "sums_ok sums \<and>
    commitment_value secp val (bs_outputSum sums) = output_sum secp val b - input_sum secp val b +
      overage_value vH overage + (case prev of None \<Rightarrow> 0 | Some s \<Rightarrow> commitment_value secp val (bs_outputSum s)) \<and>
    commitment_value secp val (bs_kernelSum sums) = kernel_sum secp val b +
      (case prev of None \<Rightarrow> 0 | Some s \<Rightarrow> commitment_value secp val (bs_kernelSum s)) \<and>
    commitment_value secp val (bs_outputSum sums) = commitment_value secp val (bs_kernelSum sums) + rG off"
  by (rule kernel_sums_balance [OF assms(1) assms(2)[unfolded ValidateKernelSums_def] _ assms(4,5)])
    (use assms(3) in \<open>auto simp add: body_wf_def list_all_iff\<close>)

section \<open>Weights\<close>

lemma unat_u32_prod:
  "n < 2 ^ 26 \<Longrightarrow> unat ((of_nat n + r) * w :: u32) = (n + unat r) * unat w" if "unat r \<le> 1" "unat w \<le> 21"
proof -
  assume n: "n < 2 ^ 26"
  then have "unat (of_nat n + r :: u32) = n + unat r"
    using that(1) by (simp add: unat_plus_if' unat_of_nat take_bit_nat_eq_self)
  moreover have "(n + unat r) * unat w \<le> (2 ^ 26 + 1) * 21"
    using n that by (intro mult_le_mono) simp_all
  ultimately show ?thesis by (simp add: unat_word_ariths take_bit_nat_eq_self)
qed

text \<open>The weight that is compared is the true one: no factor wraps around.\<close>

lemma ValidateWeight_iff:
  assumes "body_wf b"
  shows "ValidateWeight b withReward = Inr () \<longleftrightarrow>
    length (tb_inputs b) + 21 * (length (tb_outputs b) + of_bool withReward) +
      3 * (length (tb_kernels b) + of_bool withReward) \<le> 40000"
proof -
  let ?r = "if withReward then 1 else 0 :: u32"
  let ?i = "of_nat (length (tb_inputs b)) * 1 :: u32"
  let ?o = "(of_nat (length (tb_outputs b)) + ?r) * 21 :: u32"
  let ?k = "(of_nat (length (tb_kernels b)) + ?r) * 3 :: u32"
  from assms have len: "length (tb_inputs b) < 2 ^ 26" "length (tb_outputs b) < 2 ^ 26" "length (tb_kernels b) < 2 ^ 26"
    by (simp_all add: body_wf_def)
  have r: "unat ?r = of_bool withReward" "unat ?r \<le> 1" by simp_all
  have parts: "unat ?i = length (tb_inputs b)" "unat ?o = (length (tb_outputs b) + of_bool withReward) * 21"
    "unat ?k = (length (tb_kernels b) + of_bool withReward) * 3"
    using unat_u32_prod [of 0 1, OF _ _ len(1)] unat_u32_prod [OF r(2) _ len(2), of 21] unat_u32_prod [OF r(2) _ len(3), of 3]
    by (simp_all add: r(1))
  have "unat (?i + ?o + ?k) = unat ?i + unat ?o + unat ?k"
    unfolding unat_plus_if' using parts len by (auto simp add: of_bool_def split: if_splits)
  then have "?i + ?o + ?k \<le> 40000 \<longleftrightarrow> length (tb_inputs b) + 21 * (length (tb_outputs b) + of_bool withReward) +
      3 * (length (tb_kernels b) + of_bool withReward) \<le> 40000"
    unfolding word_le_nat_alt parts by (simp add: mult.commute)
  then show ?thesis
    unfolding ValidateWeight_def Let_def guard_result_eq_Inr_iff by (simp add: consensus_consts not_less)
qed

section \<open>Transactions\<close>

lemma body_valid_cases:
  assumes "TransactionBodyValidator_Validate H secp b withReward cache = (Inr u, cache')"
  shows "ValidateWeight b withReward = Inr () \<and> VerifySorted b = Inr () \<and> VerifyCutThrough b = Inr () \<and>
    VerifyBulletproofs secp (map (\<lambda>x. (to_commitment x, to_rangeProof x)) (tb_outputs b)) cache = (Inr True, cache') \<and>
    VerifyKernelSignatures H secp (tb_kernels b)"
  using assms
  by (auto simp add: TransactionBodyValidator_Validate_def bind_cached_eq_Inr_iff VerifyRangeProofs_def VerifyRangeProofs_crypto_def)

lemma body_cache_step:
  assumes "TransactionBodyValidator_Validate H secp b withReward cache = (r, cache')"
  shows "cache' = cache \<or>
    snd (VerifyBulletproofs secp (map (\<lambda>x. (to_commitment x, to_rangeProof x)) (tb_outputs b)) cache) = cache'"
  using assms
  by (auto simp add: TransactionBodyValidator_Validate_def bind_cached_def lift_cached_def VerifyRangeProofs_def
      VerifyRangeProofs_crypto_def split: prod.splits sum.splits)

lemma VerifyCutThrough_iff:
  "VerifyCutThrough b = Inr () \<longleftrightarrow> ti_commitment ` set (tb_inputs b) \<inter> to_commitment ` set (tb_outputs b) = {}"
  by (auto simp add: VerifyCutThrough_def list_ex_iff)

lemma foldl_overage: "foldl (\<lambda>s k. s + f k) (a :: 'w::len word) xs = a + sum_list (map f xs)"
  by (induction xs arbitrary: a) (simp_all add: add.assoc)


text \<open>C33. A body without outputs that passes the first three checks reaches \<^verbatim>\<open>front()\<close> of an
  empty vector of range proofs: its validation has no defined outcome.\<close>

theorem Validate_without_outputs_undefined:
  assumes "tb_outputs b = []" "ValidateWeight b withReward = Inr ()" "VerifySorted b = Inr ()"
  shows "TransactionBodyValidator_Validate H secp b withReward cache = (Inl UNDEFINED_BEHAVIOUR, cache)"
  using assms
  by (simp add: TransactionBodyValidator_Validate_def bind_cached_def lift_cached_def VerifyRangeProofs_def
      VerifyRangeProofs_crypto_def VerifyBulletproofs_def VerifyCutThrough_def guard_result_def list_ex_iff)

theorem Validate_without_outputs_undefined_witness:
  "TransactionBodyValidator_Validate sample_hash sample_secp
     \<lparr>tb_inputs = [sample_input], tb_outputs = [], tb_kernels = [sample_kernel]\<rparr> True [] = (Inl UNDEFINED_BEHAVIOUR, [])"
  by (rule Validate_without_outputs_undefined) (simp_all add: ValidateWeight_def VerifySorted_def consensus_consts)

section \<open>Blocks\<close>

lemma VerifyCoinbaseMaturity_iff:
  "VerifyCoinbaseMaturity pos m ins = Inr () \<longleftrightarrow>
     (\<forall>i\<in>set ins. TransactionInput_IsCoinbase i \<longrightarrow> (\<exists>l. pos (ti_commitment i) = Some l \<and> ol_blockHeight l \<le> m))"
  by (induction pos m ins rule: VerifyCoinbaseMaturity.induct) (auto split: option.splits simp add: not_less)

lemma MarkAsValidated_fields [simp]:
  "fb_header (FullBlock_MarkAsValidated b) = fb_header b" "fb_body (FullBlock_MarkAsValidated b) = fb_body b"
  by (simp_all add: FullBlock_MarkAsValidated_def)

lemma VerifySelfConsistent_cases:
  assumes "VerifySelfConsistent H secp b cache = (Inr b', cache')"
  shows "fb_header b' = fb_header b \<and> fb_body b' = fb_body b \<and>
    (fb_validated b \<or> TransactionBodyValidator_Validate H secp (fb_body b) False cache = (Inr (), cache') \<and>
      VerifyKernelLockHeights b = Inr () \<and> VerifyCoinbase secp b = Inr ())"
  using assms
  by (auto simp add: VerifySelfConsistent_def bind_cached_eq_Inr_iff VerifyBody_def split: if_splits prod.splits)

lemma ValidateBlock_cases:
  assumes "ContextualBlockValidator_ValidateBlock env H secp pos GetBlockSums roots b cache = (Inr (sums, b'), cache')"
  obtains prev where "VerifySelfConsistent H secp b cache = (Inr b', cache')"
    and "VerifyCoinbaseMaturity pos (GetMaxCoinbaseHeight env (bh_height (fb_header b))) (tb_inputs (fb_body b)) = Inr ()"
    and "roots (fb_header b) = Inr True" and "GetBlockSums (bh_previousBlockHash (fb_header b)) = Some prev"
    and "ValidateKernelSums secp (fb_body b) (0 - REWARD) (bh_totalKernelOffset (fb_header b)) (Some prev) = Inr sums"
proof -
  from assms obtain c where c: "VerifySelfConsistent H secp b cache = (Inr c, cache')"
    and rest: "bind_result (VerifyCoinbaseMaturity pos (GetMaxCoinbaseHeight env (bh_height (fb_header c))) (tb_inputs (fb_body c)))
       (\<lambda>_. bind_result (roots (fb_header c)) (\<lambda>rootsValid.
        if \<not> rootsValid then Inl BAD_DATA_EXCEPTION
        else (case GetBlockSums (bh_previousBlockHash (fb_header c)) of
            None \<Rightarrow> Inl BLOCK_CHAIN_EXCEPTION
          | Some previousBlockSums \<Rightarrow>
              bind_result (ValidateKernelSums secp (fb_body c) (0 - REWARD) (bh_totalKernelOffset (fb_header c))
                (Some previousBlockSums)) (\<lambda>sums. Inr (sums, c))))) = Inr (sums, b')"
    by (auto simp add: ContextualBlockValidator_ValidateBlock_def bind_cached_eq_Inr_iff Let_def)
  from VerifySelfConsistent_cases [OF c] have same: "fb_header c = fb_header b" "fb_body c = fb_body b" by simp_all
  from rest c that show ?thesis
    unfolding same by (auto simp add: bind_result_eq_Inr_iff split: if_splits option.splits)
qed

lemma reward_overage: "overage_value vH (0 - REWARD) = - vH REWARD"
proof -
  have "\<not> 0 <s (0 - REWARD)" "(0 - REWARD) <s 0" unfolding consensus_consts by (simp_all add: word_sless_alt)
  then show ?thesis by (simp add: overage_value_def)
qed

text \<open>The sums stored with the blocks of a chain that were validated one after the other, each against the
  sums stored for its predecessor.\<close>

inductive chain_sums ::
  "EEnvironmentType \<Rightarrow> hash_fn \<Rightarrow> secp256k1 \<Rightarrow> block_sums \<Rightarrow> full_block list \<Rightarrow> block_sums \<Rightarrow> bool"
  for env H secp s0 where
  chain_genesis: "chain_sums env H secp s0 [] s0"
| chain_block: "chain_sums env H secp s0 chain s \<Longrightarrow>
    GetBlockSums (bh_previousBlockHash (fb_header b)) = Some s \<Longrightarrow>
    ContextualBlockValidator_ValidateBlock env H secp pos GetBlockSums roots b cache = (Inr (s', b'), cache') \<Longrightarrow>
    chain_sums env H secp s0 (chain @ [b]) s'"

definition block_wf :: "full_block \<Rightarrow> bool" where
  "block_wf b \<longleftrightarrow> body_wf (fb_body b) \<and> length (bh_totalKernelOffset (fb_header b)) = 32"

lemma supply_step: "v + R = v0 + S \<Longrightarrow> v' = d + - r + v \<Longrightarrow> v' + (R + r) = v0 + (S + d)" for v :: "'g::ab_group_add"
  by (simp add: algebra_simps)

text \<open>C8. No block creates money: along a chain of validated blocks the sum of all outputs minus all inputs
  grows by exactly the block reward per block, and equals the sum of all kernel excesses plus the total
  offset of the last header.\<close>

theorem chain_supply:
  assumes "pedersen_laws secp val vH rG" "chain_sums env H secp s0 chain s" "sums_ok s0" "\<forall>b\<in>set chain. block_wf b"
  shows "sums_ok s \<and>
    commitment_value secp val (bs_outputSum s) + sum_list (map (\<lambda>b. vH REWARD) chain) =
      commitment_value secp val (bs_outputSum s0) +
      sum_list (map (\<lambda>b. output_sum secp val (fb_body b) - input_sum secp val (fb_body b)) chain) \<and>
    commitment_value secp val (bs_kernelSum s) =
      commitment_value secp val (bs_kernelSum s0) + sum_list (map (\<lambda>b. kernel_sum secp val (fb_body b)) chain) \<and>
    (chain \<noteq> [] \<longrightarrow> commitment_value secp val (bs_outputSum s) =
      commitment_value secp val (bs_kernelSum s) + rG (bh_totalKernelOffset (fb_header (last chain))))"
  using assms(2,4)
proof (induction rule: chain_sums.induct)
  case chain_genesis
  then show ?case using assms(3) by simp
next
  case (chain_block chain s GetBlockSums b pos roots cache s' b' cache')
  from chain_block.hyps(3,2) have "ValidateKernelSums secp (fb_body b) (0 - REWARD) (bh_totalKernelOffset (fb_header b)) (Some s) = Inr s'"
    by (elim ValidateBlock_cases) simp
  note bal = body_sums_balance [OF assms(1) this, unfolded reward_overage option.case]
  from chain_block have wf: "body_wf (fb_body b)" "length (bh_totalKernelOffset (fb_header b)) = 32" "sums_ok s"
    by (simp_all add: block_wf_def)
  from chain_block have IH: "commitment_value secp val (bs_outputSum s) + sum_list (map (\<lambda>b. vH REWARD) chain) =
      commitment_value secp val (bs_outputSum s0) +
      sum_list (map (\<lambda>b. output_sum secp val (fb_body b) - input_sum secp val (fb_body b)) chain)"
    "commitment_value secp val (bs_kernelSum s) =
      commitment_value secp val (bs_kernelSum s0) + sum_list (map (\<lambda>b. kernel_sum secp val (fb_body b)) chain)" by simp_all
  have new: "sums_ok s'" "commitment_value secp val (bs_outputSum s') = output_sum secp val (fb_body b) - input_sum secp val (fb_body b) +
      - vH REWARD + commitment_value secp val (bs_outputSum s)"
    "commitment_value secp val (bs_kernelSum s') = kernel_sum secp val (fb_body b) + commitment_value secp val (bs_kernelSum s)"
    "commitment_value secp val (bs_outputSum s') = commitment_value secp val (bs_kernelSum s') + rG (bh_totalKernelOffset (fb_header b))"
    using bal [OF wf(1,2)] wf(3) by (blast, blast, blast, blast)
  from new(1,3,4) supply_step [OF IH(1) new(2)] IH(2) show ?case
    by (simp only: map_append sum_list.append list.map sum_list.Cons sum_list.Nil add_0_right last_snoc) (simp add: ac_simps)
qed

lemma VerifyCoinbase_value:
  assumes "pedersen_laws secp val vH rG" "VerifyCoinbase secp b = Inr ()" "body_wf (fb_body b)"
  shows "commitment_sum secp val (map to_commitment (filter TransactionOutput_IsCoinbase (tb_outputs (fb_body b)))) =
    commitment_sum secp val (map tk_excessCommitment (filter TransactionKernel_IsCoinbase (tb_kernels (fb_body b)))) +
    vH (REWARD + sum_list (map tk_fee (tb_kernels (fb_body b))))"
proof -
  let ?outs = "map to_commitment (filter TransactionOutput_IsCoinbase (tb_outputs (fb_body b)))"
  let ?kers = "map tk_excessCommitment (filter TransactionKernel_IsCoinbase (tb_kernels (fb_body b)))"
  from assms(2) obtain over out ker where r:
    "CommitTransparent secp (REWARD + sum_list (map tk_fee (tb_kernels (fb_body b)))) = Inr over"
    "AddCommitments secp ?outs [over] = Inr out" "AddCommitments secp ?kers [] = Inr ker" "BigInteger_eq 33 ker out"
    by (auto simp add: VerifyCoinbase_def foldl_overage bind_result_eq_Inr_iff)
  note over = transparent_value [OF assms(1) r(1)]
  from assms(3) have len: "\<forall>c\<in>set ?outs. length c = 33" "\<forall>c\<in>set ?kers. length c = 33"
    by (auto simp add: body_wf_def list_all_iff)
  from AddCommitments_value [OF assms(1) r(2)] AddCommitments_value [OF assms(1) r(3)] len over r(4)
  show ?thesis by (simp add: BigInteger_eq_iff diff_eq_eq)
qed


section \<open>Aggregation\<close>

lemma BigInteger_less_asym: "BigInteger_less x y \<Longrightarrow> \<not> BigInteger_less y x"
  by (induction x y rule: BigInteger_less.induct) (auto split: if_splits)

lemma IsSorted_insert_by_hash:
  "IsSorted BigInteger_greater h ys \<Longrightarrow> IsSorted BigInteger_greater h (insert_by_hash h x ys)"
proof (induction ys rule: induct_list012)
  case (3 y z zs)
  then show ?case by (auto simp add: BigInteger_greater_def dest: BigInteger_less_asym split: if_splits)
qed (auto simp add: BigInteger_greater_def dest: BigInteger_less_asym)

lemma IsSorted_sort_by_hash [simp]: "IsSorted BigInteger_greater h (sort_by_hash h xs)"
  unfolding sort_by_hash_def by (induction xs) (simp_all add: IsSorted_insert_by_hash)

lemma mset_insert_by_hash [simp]: "mset (insert_by_hash h x ys) = add_mset x (mset ys)"
  by (induction ys) simp_all

lemma mset_sort_by_hash [simp]: "mset (sort_by_hash h xs) = mset xs"
  unfolding sort_by_hash_def by (induction xs) simp_all

lemma sum_sort_by_hash [simp]: "sum_list (map f (sort_by_hash h xs)) = sum_list (map f xs)" for f :: "_ \<Rightarrow> 'g::comm_monoid_add"
  by (metis mset_map mset_sort_by_hash sum_mset_sum_list)

lemma set_sort_by_hash [simp]: "set (sort_by_hash h xs) = set xs"
  by (metis mset_sort_by_hash set_mset_mset)

lemma sum_filter_split:
  "sum_list (map f xs) = sum_list (map f (filter P xs)) + sum_list (map f (filter (\<lambda>x. \<not> P x) xs))" for f :: "_ \<Rightarrow> 'g::comm_monoid_add"
  by (induction xs) (auto simp add: ac_simps)

text \<open>Cut-through removes the same commitments on both sides, each once on either side, so the difference of
  the sums stays.\<close>

lemma PerformCutThrough_balance:
  fixes f :: "commitment \<Rightarrow> 'g::ab_group_add"
  assumes "PerformCutThrough ins outs = (ins', outs')"
    and "distinct (map ti_commitment ins)" "distinct (map to_commitment outs)"
  shows "sum_list (map (\<lambda>x. f (to_commitment x)) outs') - sum_list (map (\<lambda>i. f (ti_commitment i)) ins') =
    sum_list (map (\<lambda>x. f (to_commitment x)) outs) - sum_list (map (\<lambda>i. f (ti_commitment i)) ins)"
proof -
  let ?I = "filter (\<lambda>i. ti_commitment i \<in> set (map to_commitment outs)) ins"
  let ?O = "filter (\<lambda>x. to_commitment x \<in> set (map ti_commitment ins)) outs"
  have "distinct (map ti_commitment ?I)" "distinct (map to_commitment ?O)"
    using assms(2,3) by (simp_all add: distinct_map_filter)
  moreover have "set (map ti_commitment ?I) = set (map ti_commitment ins) \<inter> set (map to_commitment outs)"
    "set (map to_commitment ?O) = set (map ti_commitment ins) \<inter> set (map to_commitment outs)"
    by (simp_all add: set_eq_iff image_iff) metis+
  ultimately have "sum_list (map f (map ti_commitment ?I)) = sum_list (map f (map to_commitment ?O))"
    by (simp only: sum_list_distinct_conv_sum_set)
  then have "sum_list (map (\<lambda>i. f (ti_commitment i)) ?I) = sum_list (map (\<lambda>x. f (to_commitment x)) ?O)"
    by (simp add: comp_def)
  moreover have "ins' = filter (\<lambda>i. \<not> ti_commitment i \<in> set (map to_commitment outs)) ins"
    "outs' = filter (\<lambda>x. \<not> to_commitment x \<in> set (map ti_commitment ins)) outs"
    using assms(1) by (simp_all add: PerformCutThrough_def)
  ultimately show ?thesis
    using sum_filter_split [of "\<lambda>i. f (ti_commitment i)" ins "\<lambda>i. ti_commitment i \<in> set (map to_commitment outs)"]
      sum_filter_split [of "\<lambda>x. f (to_commitment x)" outs "\<lambda>x. to_commitment x \<in> set (map ti_commitment ins)"]
    by simp
qed

text \<open>What the library documents of sums of blinding factors.\<close>

definition blind_laws :: "secp256k1 \<Rightarrow> (blinding_factor \<Rightarrow> 'g::ab_group_add) \<Rightarrow> bool" where
  "blind_laws secp rG \<longleftrightarrow> rG (replicate 32 0) = 0 \<and>
     (\<forall>bs n b. secp_pedersen_blind_sum secp bs n = Some b \<longrightarrow>
        rG b = sum_list (map rG (take n bs)) - sum_list (map rG (drop n bs)))"

lemma sanitized_blinds:
  assumes "blind_laws secp rG" "\<forall>b\<in>set bs. length b = 32"
  shows "sum_list (map rG (filter (\<lambda>b. \<not> BigInteger_eq 32 b ZERO_HASH) bs)) = sum_list (map rG bs)"
  using assms(2)
proof (induction bs)
  case (Cons b bs)
  with assms(1) show ?case by (auto simp add: BigInteger_eq_iff ZERO_HASH_def blind_laws_def)
qed simp

lemma AddBlindingFactors_value:
  assumes "blind_laws secp rG" "AddBlindingFactors secp bs [] = Inr b" "\<forall>b\<in>set bs. length b = 32"
  shows "rG b = sum_list (map rG bs)"
proof -
  let ?s = "filter (\<lambda>b. \<not> BigInteger_eq 32 b ZERO_HASH) bs"
  have "rG b = sum_list (map rG ?s)"
  proof (cases "?s = []")
    case True
    with assms(1,2) show ?thesis by (simp add: AddBlindingFactors_def blind_laws_def ZERO_HASH_def)
  next
    case False
    with assms(2) have "secp_pedersen_blind_sum secp ?s (length ?s) = Some b"
      by (simp add: AddBlindingFactors_def PedersenBlindSum_def Let_def)
    with assms(1) show ?thesis unfolding blind_laws_def by fastforce
  qed
  with sanitized_blinds [OF assms(1,3)] show ?thesis by simp
qed

lemma sum_list_concat: "sum_list (map f (concat xss)) = sum_list (map (\<lambda>xs. sum_list (map f xs)) xss)" for f :: "_ \<Rightarrow> 'g::comm_monoid_add"
  by (induction xss) simp_all

lemma sum_list_diff: "sum_list (map f xs) - sum_list (map g xs) = sum_list (map (\<lambda>x. f x - g x) xs)" for f :: "_ \<Rightarrow> 'g::ab_group_add"
  by (induction xs) (simp_all add: algebra_simps)


section \<open>Witnesses\<close>

abbreviation sample_blind :: "u64 \<Rightarrow> blinding_factor" where
  "sample_blind w \<equiv> le_bytes 8 w @ replicate 24 0"

lemma le_bytes_inject [simp]: "le_bytes 8 v = le_bytes 8 w \<longleftrightarrow> v = (w :: u64)"
  by (metis sample_val_le_bytes)

lemma sample_commitment_eq [simp]:
  "BigInteger_eq 33 (sample_commitment v) (sample_commitment w) \<longleftrightarrow> v = w"
  "\<not> BigInteger_eq 33 (sample_commitment v) (replicate 33 0)"
  by (simp add: BigInteger_eq_iff) (simp add: BigInteger_eq_def exI [of _ 0])

lemma sample_blind_eq [simp]: "BigInteger_eq 32 (sample_blind w) (replicate 32 0) \<longleftrightarrow> w = 0"
proof -
  have "replicate 32 0 = sample_blind 0" by (simp add: numeral_eq_Suc)
  then show ?thesis by (simp only: BigInteger_eq_iff length_append length_le_bytes length_replicate append_same_eq le_bytes_inject)
qed

lemma sample_commit [simp]:
  "PedersenCommit sample_secp v (replicate 32 0) = Inr (sample_commitment v)"
  "PedersenCommit sample_secp v (sample_blind w) = Inr (sample_commitment (v + w))"
  by (simp_all add: PedersenCommit_def sample_secp_def sample_val_zero) (simp_all add: sample_val_def)

lemma sample_convert: "ConvertCommitments sample_secp (map sample_commitment vs) = Inr (map sample_blind vs)"
  unfolding ConvertCommitments_def by (induction vs) (simp_all add: sample_secp_def or_throw_def)

lemma sample_add:
  "AddCommitments sample_secp (map sample_commitment ps) (map sample_commitment ns) =
   Inr (sample_commitment (sum_list ps - sum_list ns))"
proof -
  have "filter (\<lambda>c. \<not> BigInteger_eq 33 c (replicate 33 0)) (map sample_commitment vs) = map sample_commitment vs" for vs
    by (induction vs) simp_all
  moreover have "map (sample_val \<circ> sample_blind) vs = vs" for vs :: "u64 list"
    by (induction vs) (simp_all add: sample_val_def)
  ultimately show ?thesis
    unfolding AddCommitments_def PedersenCommitSum_def
    by (simp add: sample_convert Let_def) (simp add: sample_secp_def or_throw_def)
qed

lemma sample_offset [simp]: "AddKernelOffset sample_secp (sample_commitment k) (sample_blind w) = Inr (sample_commitment (k + w))"
  using sample_add [of "[k]" "[]"] sample_add [of "[k, w]" "[]"]
  by (simp add: AddKernelOffset_def CommitBlinded_def)

definition sample_prev :: "(u64 \<times> u64) option \<Rightarrow> block_sums option" where
  "sample_prev = map_option (\<lambda>(u, k). \<lparr>bs_outputSum = sample_commitment u, bs_kernelSum = sample_commitment k\<rparr>)"

lemma sample_sums:
  "ValidateKernelSums_commitments sample_secp (map sample_commitment ins) (map sample_commitment outs)
     (map sample_commitment ks) overage (sample_blind w) (sample_prev prev) =
   (let u = sum_list outs - sum_list ins + overage_value (\<lambda>v. v) overage + (case prev of None \<Rightarrow> 0 | Some (u, k) \<Rightarrow> u);
        k = sum_list ks + (case prev of None \<Rightarrow> 0 | Some (u, k) \<Rightarrow> k)
    in if u = k + w then Inr \<lparr>bs_outputSum = sample_commitment u, bs_kernelSum = sample_commitment k\<rparr>
       else Inl BAD_DATA_EXCEPTION)"
proof -
  let ?o = "case prev of None \<Rightarrow> [] | Some (u, k) \<Rightarrow> [u]"
  let ?k = "case prev of None \<Rightarrow> [] | Some (u, k) \<Rightarrow> [k]"
  have p: "(case sample_prev prev of Some s \<Rightarrow> map sample_commitment vs @ [bs_outputSum s] | None \<Rightarrow> map sample_commitment vs) =
      map sample_commitment (vs @ ?o)"
    "(case sample_prev prev of Some s \<Rightarrow> map sample_commitment vs @ [bs_kernelSum s] | None \<Rightarrow> map sample_commitment vs) =
      map sample_commitment (vs @ ?k)" for vs
    by (auto simp add: sample_prev_def split: option.splits)
  have s: "sum_list ?o = (case prev of None \<Rightarrow> 0 | Some (u, k) \<Rightarrow> u)" "sum_list ?k = (case prev of None \<Rightarrow> 0 | Some (u, k) \<Rightarrow> k)"
    by (auto split: option.splits)
  have io: "(if 0 <s overage then bind_result (CommitTransparent sample_secp overage)
        (\<lambda>c. Inr (map sample_commitment ins, map sample_commitment outs @ [c]))
      else if overage <s 0 then bind_result (CommitTransparent sample_secp (0 - overage))
        (\<lambda>c. Inr (map sample_commitment ins @ [c], map sample_commitment outs))
      else Inr (map sample_commitment ins, map sample_commitment outs)) =
      Inr (map sample_commitment (ins @ (if overage <s 0 then [0 - overage] else [])),
           map sample_commitment (outs @ (if 0 <s overage then [overage] else [])))"
    by (auto simp add: CommitTransparent_def word_sless_alt)
  have o: "sum_list (outs @ (if 0 <s overage then [overage] else [])) - sum_list (ins @ (if overage <s 0 then [0 - overage] else [])) =
      sum_list outs - sum_list ins + overage_value (\<lambda>v. v) overage"
    by (auto simp add: overage_value_def word_sless_alt)
  let ?outs = "outs @ (if 0 <s overage then [overage] else [])" and ?ins = "ins @ (if overage <s 0 then [0 - overage] else [])"
  let ?u = "sum_list outs - sum_list ins + overage_value (\<lambda>v. v) overage + sum_list ?o" and ?s = "sum_list ks + sum_list ?k"
  have "sum_list (?outs @ ?o) - sum_list ?ins = ?u" unfolding sum_list.append [of ?outs] o [symmetric] by simp
  then have a: "AddCommitments sample_secp (map sample_commitment (?outs @ ?o)) (map sample_commitment ?ins) = Inr (sample_commitment ?u)"
    "AddCommitments sample_secp (map sample_commitment (ks @ ?k)) [] = Inr (sample_commitment ?s)"
    using sample_add [of "?outs @ ?o" ?ins] sample_add [of "ks @ ?k" "[]"] by (simp_all only: list.map sum_list.Nil diff_0_right sum_list.append)
  show ?thesis
    unfolding ValidateKernelSums_commitments_def io bind_result_Inr prod.case Let_def p a sample_offset sample_commitment_eq s
    by simp
qed

definition pay_input :: "u64 \<Rightarrow> transaction_input" where
  "pay_input v = TransactionInput_move sample_hash DEFAULT (sample_commitment v)"

definition pay_output :: "output_features \<Rightarrow> u64 \<Rightarrow> transaction_output" where
  "pay_output f v = TransactionOutput_new sample_hash f (sample_commitment v) [1]"

definition pay_kernel :: "kernel_features \<Rightarrow> u64 \<Rightarrow> u64 \<Rightarrow> transaction_kernel" where
  "pay_kernel f fee v = TransactionKernel_new sample_hash f fee 0 (sample_commitment v) (replicate 64 5)"

text \<open>Spends 10, pays 7 and a fee of 2; the kernel excess is \<open>- 4\<close>, the offset 3.\<close>

definition pay_tx :: transaction where
  "pay_tx = Transaction_new sample_hash (sample_blind 3)
     \<lparr>tb_inputs = [pay_input 10], tb_outputs = [pay_output DEFAULT 7], tb_kernels = [pay_kernel DEFAULT_KERNEL 2 (- 4)]\<rparr>"

text \<open>Spends the 7 again, pays 5 and a fee of 1; the excess is \<open>- 2\<close>, the offset 1.\<close>

definition spend_tx :: transaction where
  "spend_tx = Transaction_new sample_hash (sample_blind 1)
     \<lparr>tb_inputs = [pay_input 7], tb_outputs = [pay_output DEFAULT 5], tb_kernels = [pay_kernel DEFAULT_KERNEL 1 (- 2)]\<rparr>"

definition coinbase_block :: full_block where
  "coinbase_block = FullBlock_new (light_header\<lparr>bh_totalKernelOffset := replicate 32 0, bh_previousBlockHash := replicate 32 1\<rparr>)
     \<lparr>tb_inputs = [], tb_outputs = [pay_output COINBASE_OUTPUT 60000000001], tb_kernels = [pay_kernel COINBASE_KERNEL 0 1]\<rparr>"

definition sample_block_sums :: block_sums where
  "sample_block_sums = \<lparr>bs_outputSum = sample_commitment 5, bs_kernelSum = sample_commitment 5\<rparr>"

lemmas pay_defs = pay_tx_def spend_tx_def coinbase_block_def pay_input_def pay_output_def pay_kernel_def transaction_hash input_hash output_hash
  kernel_hash FullBlock_new_def

lemma pay_tx_valid: "TransactionValidator_Validate sample_hash sample_secp pay_tx [] = (Inr (), [sample_commitment 7])"
proof -
  have "TransactionBodyValidator_Validate sample_hash sample_secp (tx_body pay_tx) True [] = (Inr (), [sample_commitment 7])"
    "ValidateFeatures (tx_body pay_tx) = Inr ()" by code_simp+
  moreover have "TransactionValidator_ValidateKernelSums sample_secp pay_tx = Inr ()"
    using sample_sums [of "[10]" "[7]" "[- 4]" 2 3 None]
    by (simp add: TransactionValidator_ValidateKernelSums_def ValidateKernelSums_def pay_defs sample_prev_def overage_value_def
        word_sless_alt rethrow_bad_data_def)
  ultimately show ?thesis by (simp add: TransactionValidator_Validate_def bind_cached_def lift_cached_def)
qed

lemma pay_tx_wf: "body_wf (tx_body pay_tx)" "length (tx_offset pay_tx) = 32"
  by (simp_all add: body_wf_def pay_defs)

lemma coinbase_block_wf: "block_wf coinbase_block"
  by (simp add: block_wf_def body_wf_def pay_defs)

lemma coinbase_block_valid:
  "ContextualBlockValidator_ValidateBlock MAINNET sample_hash sample_secp (\<lambda>c. None) (\<lambda>h. Some sample_block_sums)
     (\<lambda>h. Inr True) coinbase_block [] =
   (Inr (\<lparr>bs_outputSum = sample_commitment 6, bs_kernelSum = sample_commitment 6\<rparr>, FullBlock_MarkAsValidated coinbase_block),
    [sample_commitment 60000000001])"
proof -
  have zero: "replicate 32 0 = sample_blind 0" by (simp add: numeral_eq_Suc)
  have "VerifyBody sample_hash sample_secp coinbase_block [] = (Inr (), [sample_commitment 60000000001])"
    "VerifyKernelLockHeights coinbase_block = Inr ()" by code_simp+
  moreover have "VerifyCoinbase sample_secp coinbase_block = Inr ()"
    using sample_add [of "[60000000001]" "[60000000000]"] sample_add [of "[1]" "[]"]
    by (simp add: VerifyCoinbase_def pay_defs TransactionOutput_IsCoinbase_def TransactionKernel_IsCoinbase_def feature_defs
        CommitTransparent_def consensus_consts guard_result_def)
  ultimately have "VerifySelfConsistent sample_hash sample_secp coinbase_block [] =
      (Inr (FullBlock_MarkAsValidated coinbase_block), [sample_commitment 60000000001])"
    by (simp add: VerifySelfConsistent_def bind_cached_def lift_cached_def) (simp add: pay_defs)
  moreover have "ValidateKernelSums sample_secp (fb_body coinbase_block) (0 - REWARD) (replicate 32 0) (Some sample_block_sums) =
      Inr \<lparr>bs_outputSum = sample_commitment 6, bs_kernelSum = sample_commitment 6\<rparr>"
    using sample_sums [of "[]" "[60000000001]" "[1]" "0 - REWARD" 0 "Some (5, 5)", unfolded reward_overage, folded zero]
    by (simp add: ValidateKernelSums_def pay_defs sample_prev_def sample_block_sums_def consensus_consts)
  ultimately show ?thesis
    by (simp add: ContextualBlockValidator_ValidateBlock_def bind_cached_def lift_cached_def) (simp add: pay_defs)
qed


theorem chain_supply_witness:
  "commitment_value sample_secp sample_val (sample_commitment 6) + 60000000000 =
     commitment_value sample_secp sample_val (sample_commitment 5) + output_sum sample_secp sample_val (fb_body coinbase_block)"
proof -
  have chain: "chain_sums MAINNET sample_hash sample_secp sample_block_sums [coinbase_block]
      \<lparr>bs_outputSum = sample_commitment 6, bs_kernelSum = sample_commitment 6\<rparr>"
    using chain_block [OF chain_genesis _ coinbase_block_valid] by simp
  have "sums_ok sample_block_sums" by (simp add: sums_ok_def sample_block_sums_def)
  from chain_supply [OF sample_secp_laws chain this, THEN conjunct2, THEN conjunct1] coinbase_block_wf show ?thesis
    by (simp add: sample_block_sums_def consensus_consts) (simp add: pay_defs)
qed



end
