(* ===== verification/State_Actions.thy ===== *)
theory State_Actions
  imports Prelude
begin

text \<open>
  Operations that change an object and may throw. An exception leaves the object in the state it had when
  it was thrown, so an action returns the outcome beside the state. The handlers of the block chain and of the
  transaction hash set are composed of such actions.
\<close>

type_synonym ('s, 'a) action = "'s \<Rightarrow> 'a result \<times> 's"

definition return_action :: "'a \<Rightarrow> ('s, 'a) action" where
  "return_action x s = (Inr x, s)"

definition throw_action :: "exn \<Rightarrow> ('s, 'a) action" where
  "throw_action e s = (Inl e, s)"

definition bind_action :: "('s, 'a) action \<Rightarrow> ('a \<Rightarrow> ('s, 'b) action) \<Rightarrow> ('s, 'b) action" where
  "bind_action m f s = (case m s of (Inl e, s) \<Rightarrow> (Inl e, s) | (Inr x, s) \<Rightarrow> f x s)"

text \<open>Reading the state, with a read that may throw; changing it; an action on a part of it.\<close>

definition read_action :: "('s \<Rightarrow> 'a result) \<Rightarrow> ('s, 'a) action" where
  "read_action f s = (f s, s)"

definition get_action :: "('s \<Rightarrow> 'a) \<Rightarrow> ('s, 'a) action" where
  "get_action f s = (Inr (f s), s)"

definition modify_action :: "('s \<Rightarrow> 's) \<Rightarrow> ('s, unit) action" where
  "modify_action f s = (Inr (), f s)"

definition zoom_action :: "('s \<Rightarrow> 't) \<Rightarrow> ('t \<Rightarrow> 's \<Rightarrow> 's) \<Rightarrow> ('t, 'a) action \<Rightarrow> ('s, 'a) action" where
  "zoom_action get put m s = (case m (get s) of (r, t) \<Rightarrow> (r, put t s))"

definition when_action :: "bool \<Rightarrow> ('s, unit) action \<Rightarrow> ('s, unit) action" where
  "when_action c m = (if c then m else return_action ())"

definition guard_action :: "exn \<Rightarrow> bool \<Rightarrow> ('s, unit) action" where
  "guard_action e ok = (if ok then return_action () else throw_action e)"

text \<open>A loop over a list, in order; the first exception ends it.\<close>

primrec for_action :: "('a \<Rightarrow> ('s, unit) action) \<Rightarrow> 'a list \<Rightarrow> ('s, unit) action" where
  "for_action f [] = return_action ()"
| "for_action f (x # xs) = bind_action (f x) (\<lambda>_. for_action f xs)"

named_theorems action_simps

lemma action_apply [action_simps]:
  "return_action x s = (Inr x, s)"
  "throw_action e s = (Inl e, s)"
  "read_action g s = (g s, s)"
  "get_action h s = (Inr (h s), s)"
  "modify_action k s = (Inr (), k s)"
  "guard_action e c s = (if c then Inr () else Inl e, s)"
  "when_action c m s' = (if c then m s' else (Inr (), s'))"
  by (simp_all add: return_action_def throw_action_def read_action_def get_action_def modify_action_def guard_action_def
      when_action_def)

lemma bind_action_Inr [action_simps]: "m s = (Inr x, t) \<Longrightarrow> bind_action m f s = f x t"
  by (simp add: bind_action_def)

lemma bind_action_Inl [action_simps]: "m s = (Inl e, t) \<Longrightarrow> bind_action m f s = (Inl e, t)"
  by (simp add: bind_action_def)

lemma bind_action_eq_Inr_iff:
  "bind_action m f s = (Inr y, u) \<longleftrightarrow> (\<exists>x t. m s = (Inr x, t) \<and> f x t = (Inr y, u))"
  by (auto simp: bind_action_def split: prod.splits sum.splits)

lemma zoom_action_eq [action_simps]: "zoom_action get put m s = (fst (m (get s)), put (snd (m (get s))) s)"
  by (simp add: zoom_action_def case_prod_unfold)

text \<open>A relation between states that every step keeps is kept by the whole action, thrown or not.\<close>

definition keeps :: "('s \<Rightarrow> bool) \<Rightarrow> ('s, 'a) action \<Rightarrow> bool" where
  "keeps P m \<longleftrightarrow> (\<forall>s. P s \<longrightarrow> P (snd (m s)))"

lemma keepsD: "keeps P m \<Longrightarrow> P s \<Longrightarrow> P (snd (m s))"
  by (simp add: keeps_def)

lemma keeps_basic [intro]:
  "keeps P (return_action x)" "keeps P (throw_action e)" "keeps P (read_action g)" "keeps P (get_action h)"
  "keeps P (guard_action e c)"
  by (auto simp: keeps_def action_simps)

lemma keeps_modify: "(\<And>s. P s \<Longrightarrow> P (f s)) \<Longrightarrow> keeps P (modify_action f)"
  by (simp add: keeps_def action_simps)

lemma keeps_bind [intro]:
  assumes "keeps P m" and "\<And>x. keeps P (f x)"
  shows "keeps P (bind_action m f)"
  unfolding keeps_def bind_action_def
proof (intro allI impI)
  fix s assume "P s"
  then have "P (snd (m s))" using assms(1) by (simp add: keeps_def)
  then show "P (snd (case m s of (Inl e, s) \<Rightarrow> (Inl e, s) | (Inr x, s) \<Rightarrow> f x s))"
    using assms(2) by (cases "m s") (auto simp: keeps_def split: sum.splits)
qed

lemma keeps_when [intro]: "keeps P m \<Longrightarrow> keeps P (when_action c m)"
  by (simp add: when_action_def keeps_def return_action_def)

lemma keeps_for: "(\<And>x. keeps P (f x)) \<Longrightarrow> keeps P (for_action f xs)"
  by (induction xs) (auto simp: keeps_basic keeps_bind)

end
