(* ===== verification/Lockable.thy ===== *)
theory Lockable
  imports Data_File
begin

text \<open>
  \<^verbatim>\<open>Writer\<close> and \<^verbatim>\<open>Locked\<close> (\<^verbatim>\<open>include/Core/Traits/Lockable.h\<close>): a write
  session on a batchable object. The mutex is held from the constructor to the destructor of the inner
  writer, so a session is a sequential piece of state passing; the definitions take the operations
  of the object as arguments.

  The locale \<open>batch_writer\<close> states what a session relies on in the object beside
  \<open>batchable\<close>; its lemmas are the transactional guarantee of a session.
\<close>

definition InnerWriter_new :: "('s \<Rightarrow> 's) \<Rightarrow> (bool \<Rightarrow> 's \<Rightarrow> 's) \<Rightarrow> 's \<Rightarrow> 's" where
  "InnerWriter_new OnInitWrite SetDirty s = OnInitWrite (SetDirty True s)"

definition InnerWriter_Commit ::
  "('s \<Rightarrow> unit result \<times> 's) \<Rightarrow> ('s \<Rightarrow> bool) \<Rightarrow> (bool \<Rightarrow> 's \<Rightarrow> 's) \<Rightarrow> 's \<Rightarrow> unit result \<times> 's" where
  "InnerWriter_Commit Commit IsDirty SetDirty s =
     (if IsDirty s then (case Commit s of
          (Inl e, s) \<Rightarrow> (Inl e, s)
        | (Inr _, s) \<Rightarrow> (Inr (), SetDirty False s))
      else (Inr (), s))"

definition InnerWriter_Rollback ::
  "('s \<Rightarrow> 's) \<Rightarrow> ('s \<Rightarrow> bool) \<Rightarrow> (bool \<Rightarrow> 's \<Rightarrow> 's) \<Rightarrow> 's \<Rightarrow> 's" where
  "InnerWriter_Rollback Rollback IsDirty SetDirty s =
     (if IsDirty s then SetDirty False (Rollback s) else s)"

text \<open>An exception of \<open>Commit\<close> is swallowed by the destructor, which then skips \<open>OnEndWrite\<close>.\<close>

definition InnerWriter_destroy ::
  "bool \<Rightarrow> ('s \<Rightarrow> unit result \<times> 's) \<Rightarrow> ('s \<Rightarrow> 's) \<Rightarrow> ('s \<Rightarrow> 's) \<Rightarrow> ('s \<Rightarrow> bool) \<Rightarrow> (bool \<Rightarrow> 's \<Rightarrow> 's) \<Rightarrow>
   's \<Rightarrow> 's" where
  "InnerWriter_destroy batched Commit Rollback OnEndWrite IsDirty SetDirty s =
     (if batched then OnEndWrite (InnerWriter_Rollback Rollback IsDirty SetDirty s)
      else (case InnerWriter_Commit Commit IsDirty SetDirty s of
          (Inl e, s) \<Rightarrow> s
        | (Inr _, s) \<Rightarrow> OnEndWrite s))"

section \<open>The contract of a write session\<close>

locale batch_writer = batchable inv working durable Commit Rollback
  for inv :: "'s \<Rightarrow> bool" and working durable :: "'s \<Rightarrow> 'v" and Commit Rollback :: "'s \<Rightarrow> 's" +
  fixes idle :: "'s \<Rightarrow> bool"
    and OnInitWrite OnEndWrite :: "'s \<Rightarrow> 's"
    and IsDirty :: "'s \<Rightarrow> bool"
    and SetDirty :: "bool \<Rightarrow> 's \<Rightarrow> 's"
  assumes begin_inv: "idle s \<Longrightarrow> inv (OnInitWrite (SetDirty True s))"
    and begin_working: "idle s \<Longrightarrow> working (OnInitWrite (SetDirty True s)) = durable s"
    and begin_durable: "idle s \<Longrightarrow> durable (OnInitWrite (SetDirty True s)) = durable s"
    and clean: "inv s \<Longrightarrow> \<not> IsDirty s \<Longrightarrow> working s = durable s"
    and end_idle: "inv s \<Longrightarrow> \<not> IsDirty s \<Longrightarrow> idle (OnEndWrite s)"
    and end_durable: "inv s \<Longrightarrow> \<not> IsDirty s \<Longrightarrow> durable (OnEndWrite s) = durable s"
    and commit_clean: "inv s \<Longrightarrow> inv (SetDirty False (Commit s)) \<and> \<not> IsDirty (SetDirty False (Commit s)) \<and>
          durable (SetDirty False (Commit s)) = durable (Commit s)"
    and rollback_clean: "inv s \<Longrightarrow> inv (SetDirty False (Rollback s)) \<and> \<not> IsDirty (SetDirty False (Rollback s)) \<and>
          durable (SetDirty False (Rollback s)) = durable (Rollback s)"
begin

abbreviation open_writer :: "'s \<Rightarrow> 's" where
  "open_writer \<equiv> InnerWriter_new OnInitWrite SetDirty"

abbreviation close_writer :: "bool \<Rightarrow> 's \<Rightarrow> 's" where
  "close_writer batched \<equiv>
     InnerWriter_destroy batched (\<lambda>s. (Inr (), Commit s)) Rollback OnEndWrite IsDirty SetDirty"

lemma close_batched:
  assumes "inv s"
  shows "idle (close_writer True s) \<and> durable (close_writer True s) = durable s"
  using assms rollback_clean [of s] rollback_durable [of s] end_idle end_durable
  by (auto simp: InnerWriter_destroy_def InnerWriter_Rollback_def)

lemma close_unbatched:
  assumes "inv s"
  shows "idle (close_writer False s) \<and> durable (close_writer False s) = working s"
  using assms commit_clean [of s] commit_durable [of s] end_idle end_durable clean [of s]
  by (auto simp: InnerWriter_destroy_def InnerWriter_Commit_def)

text \<open>A batch whose body never commits leaves no trace; one that commits and is then closed
  keeps exactly what was committed, whatever the body did after the commit.\<close>

lemma batch_discarded:
  assumes "idle s" and "\<And>t. inv t \<Longrightarrow> inv (body t) \<and> durable (body t) = durable t"
  shows "idle (close_writer True (body (open_writer s))) \<and>
         durable (close_writer True (body (open_writer s))) = durable s"
  using assms close_batched [of "body (open_writer s)"] begin_inv [of s] begin_durable [of s]
  by (simp add: InnerWriter_new_def)

lemma batch_committed:
  assumes "inv t" and "\<And>t. inv t \<Longrightarrow> inv (after t) \<and> durable (after t) = durable t"
  shows "idle (close_writer True (after (Commit t))) \<and> durable (close_writer True (after (Commit t))) = working t"
  using assms close_batched [of "after (Commit t)"] commit_inv [of t] commit_durable [of t] by simp

end

section \<open>Data files\<close>

definition DataFile_SetDirty :: "bool \<Rightarrow> data_file \<Rightarrow> data_file" where
  "DataFile_SetDirty dirty d = d\<lparr>d_dirty := dirty\<rparr>"

definition DataFile_idle :: "nat \<Rightarrow> data_file \<Rightarrow> bool" where
  "DataFile_idle n d \<longleftrightarrow> df_ok n d \<and> \<not> d_dirty d"

lemma df_clean: "df_ok n d \<Longrightarrow> \<not> d_dirty d \<Longrightarrow> df_working n d = df_durable n d"
  by (auto simp: df_ok_def df_working_def df_durable_def file_ok_def file_contents_def)

lemma df_set_dirty [simp]:
  "df_ok n d \<Longrightarrow> df_ok n (DataFile_SetDirty True d)"
  "df_working n (DataFile_SetDirty b d) = df_working n d"
  "df_durable n (DataFile_SetDirty b d) = df_durable n d"
  "d_dirty (DataFile_SetDirty b d) = b"
  "\<not> d_dirty d \<Longrightarrow> DataFile_SetDirty False d = d"
  by (simp_all add: DataFile_SetDirty_def df_ok_def df_working_def df_durable_def)

lemma df_commit_not_dirty [simp]: "df_ok n d \<Longrightarrow> \<not> d_dirty (snd (DataFile_Commit True True d))"
  using df_commit(1) [of n d] by (auto simp: DataFile_Commit_def split: prod.splits if_splits)

lemma df_rollback_not_dirty [simp]: "\<not> d_dirty (DataFile_Rollback d)"
  by (simp add: DataFile_Rollback_def)

text \<open>\<^verbatim>\<open>DataFile\<close> does not override \<open>OnInitWrite\<close> and \<open>OnEndWrite\<close>.\<close>

interpretation data_writer: batch_writer "df_ok n" "df_working n" "df_durable n"
  "\<lambda>d. snd (DataFile_Commit True True d)" DataFile_Rollback "DataFile_idle n" "\<lambda>d. d" "\<lambda>d. d" d_dirty DataFile_SetDirty
  for n
  by unfold_locales (simp_all add: DataFile_idle_def df_clean df_commit df_rollback)

end
