(* ===== verification/Block_DB.thy ===== *)
theory Block_DB
  imports Block_Models Lockable
begin

text \<open>
  The block database: \<^verbatim>\<open>RocksDB\<close> (\<^verbatim>\<open>src/Database/RocksDB/RocksDB.h\<close>) and
  \<^verbatim>\<open>BlockDB\<close> (\<^verbatim>\<open>src/Database/BlockDBImpl.cpp\<close>).

  A table maps key bytes to the bytes of a serialized value, as in the store. The library's optimistic
  transaction is the copy of the tables that the writes of a batch go to; reads in a batch see
  it. Calls of the library are taken to succeed, except \<^verbatim>\<open>Commit\<close>, whose status is an
  argument. \<open>H\<close> is Blake2b.
\<close>

section \<open>RocksDB\<close>

datatype db_table = HEADER | BLOCK | BLOCK_SUMS | OUTPUT_POS | INPUT_BITMAP | SPENT_OUTPUTS

type_synonym db_tables = "db_table \<Rightarrow> u8 list \<rightharpoonup> u8 list"

record rocks_db =
  rdb_base :: db_tables
  rdb_transaction :: "db_tables option"

definition rdb_view :: "rocks_db \<Rightarrow> db_tables" where
  "rdb_view db = (case rdb_transaction db of Some t \<Rightarrow> t | None \<Rightarrow> rdb_base db)"

definition rdb_update :: "(db_tables \<Rightarrow> db_tables) \<Rightarrow> rocks_db \<Rightarrow> rocks_db" where
  "rdb_update f db = (case rdb_transaction db of
      Some t \<Rightarrow> db\<lparr>rdb_transaction := Some (f t)\<rparr>
    | None \<Rightarrow> db\<lparr>rdb_base := f (rdb_base db)\<rparr>)"

definition IsTransactional :: "rocks_db \<Rightarrow> bool" where
  "IsTransactional db \<longleftrightarrow> rdb_transaction db \<noteq> None"

definition RocksDB_Get :: "'a reader \<Rightarrow> db_table \<Rightarrow> u8 list \<Rightarrow> rocks_db \<Rightarrow> 'a option result" where
  "RocksDB_Get des tbl key db = (case rdb_view db tbl key of
      None \<Rightarrow> Inr None
    | Some bytes \<Rightarrow> bind_result (des (ByteBuffer_new bytes V1)) (\<lambda>(x, _). Inr (Some x)))"

definition RocksDB_Put :: "('a \<Rightarrow> serializer \<Rightarrow> serializer) \<Rightarrow> db_table \<Rightarrow> u8 list \<Rightarrow> 'a \<Rightarrow> rocks_db \<Rightarrow> rocks_db" where
  "RocksDB_Put ser tbl key x db =
     (let serialized = GetBytes (ser x (Serializer_new V1))
      in rdb_update (\<lambda>t. t(tbl := (t tbl)(key \<mapsto> serialized))) db)"

text \<open>Outside a batch the entries go to a temporary transaction that is dropped without a commit.\<close>

definition RocksDB_PutAll :: "('a \<Rightarrow> serializer \<Rightarrow> serializer) \<Rightarrow> db_table \<Rightarrow> (u8 list \<times> 'a) list \<Rightarrow> rocks_db \<Rightarrow> rocks_db" where
  "RocksDB_PutAll ser tbl entries db =
     (if IsTransactional db then fold (\<lambda>(key, x). RocksDB_Put ser tbl key x) entries db else db)"

definition RocksDB_Delete :: "db_table \<Rightarrow> u8 list \<Rightarrow> rocks_db \<Rightarrow> rocks_db" where
  "RocksDB_Delete tbl key db = rdb_update (\<lambda>t. t(tbl := (t tbl)(key := None))) db"

definition RocksDB_DeleteKeys :: "db_table \<Rightarrow> u8 list list \<Rightarrow> rocks_db \<Rightarrow> rocks_db" where
  "RocksDB_DeleteKeys tbl keys db = fold (RocksDB_Delete tbl) keys db"

definition RocksDB_DeleteAll :: "db_table \<Rightarrow> rocks_db \<Rightarrow> rocks_db" where
  "RocksDB_DeleteAll tbl db = rdb_update (\<lambda>t. t(tbl := Map.empty)) db"

definition RocksDB_Commit :: "bool \<Rightarrow> rocks_db \<Rightarrow> unit result \<times> rocks_db" where
  "RocksDB_Commit ok db =
     (if ok then (Inr (), db\<lparr>rdb_base := rdb_view db\<rparr>) else (Inl DATABASE_EXCEPTION, db))"

definition RocksDB_Rollback :: "rocks_db \<Rightarrow> rocks_db" where
  "RocksDB_Rollback db = db\<lparr>rdb_transaction := Some (rdb_base db)\<rparr>"

definition RocksDB_OnInitWrite :: "rocks_db \<Rightarrow> rocks_db" where
  "RocksDB_OnInitWrite db = db\<lparr>rdb_transaction := Some (rdb_base db)\<rparr>"

definition RocksDB_OnEndWrite :: "rocks_db \<Rightarrow> rocks_db" where
  "RocksDB_OnEndWrite db = db\<lparr>rdb_transaction := None\<rparr>"

section \<open>BlockDB\<close>

text \<open>The header cache is a first-in-first-out queue of at most 128 headers, the newest first.\<close>

type_synonym header_cache = "(big_integer \<times> block_header) list"

definition header_cache_capacity :: nat where "header_cache_capacity = 128"

definition header_cache_Put :: "big_integer \<Rightarrow> block_header \<Rightarrow> header_cache \<Rightarrow> header_cache" where
  "header_cache_Put hash header cache =
     (if map_of cache hash = None
      then (hash, header) # (if length cache + 1 > header_cache_capacity then butlast cache else cache)
      else map (\<lambda>(k, v). if k = hash then (k, header) else (k, v)) cache)"

record block_db =
  db_dirty :: bool
  db_rocks :: rocks_db
  db_headersCache :: header_cache
  db_uncommitted :: "block_header list"

text \<open>Opening a database clears the table of the input bitmaps.\<close>

definition BlockDB_OpenDB :: "db_tables \<Rightarrow> block_db" where
  "BlockDB_OpenDB tables =
     \<lparr>db_dirty = False, db_rocks = RocksDB_DeleteAll INPUT_BITMAP \<lparr>rdb_base = tables, rdb_transaction = None\<rparr>,
      db_headersCache = [], db_uncommitted = []\<rparr>"

definition BlockDB_SetDirty :: "bool \<Rightarrow> block_db \<Rightarrow> block_db" where
  "BlockDB_SetDirty dirty db = db\<lparr>db_dirty := dirty\<rparr>"

definition BlockDB_Commit :: "bool \<Rightarrow> block_db \<Rightarrow> unit result \<times> block_db" where
  "BlockDB_Commit ok db =
     (case RocksDB_Commit ok (db_rocks db) of
        (Inl e, rocks) \<Rightarrow> (Inl e, db\<lparr>db_rocks := rocks\<rparr>)
      | (Inr _, rocks) \<Rightarrow>
          (Inr (), db\<lparr>db_rocks := rocks,
             db_headersCache := fold (\<lambda>h. header_cache_Put (BlockHeader_GetHash h) h) (db_uncommitted db) (db_headersCache db),
             db_uncommitted := []\<rparr>))"

definition BlockDB_Rollback :: "block_db \<Rightarrow> block_db" where
  "BlockDB_Rollback db = db\<lparr>db_uncommitted := [], db_rocks := RocksDB_Rollback (db_rocks db)\<rparr>"

definition BlockDB_OnInitWrite :: "block_db \<Rightarrow> block_db" where
  "BlockDB_OnInitWrite db = db\<lparr>db_rocks := RocksDB_OnInitWrite (db_rocks db)\<rparr>"

definition BlockDB_OnEndWrite :: "block_db \<Rightarrow> block_db" where
  "BlockDB_OnEndWrite db = db\<lparr>db_rocks := RocksDB_OnEndWrite (db_rocks db)\<rparr>"

definition GetBlockHeader :: "hash_fn \<Rightarrow> big_integer \<Rightarrow> block_db \<Rightarrow> block_header option result" where
  "GetBlockHeader H hash db =
     (case map_of (db_headersCache db) hash of
        Some header \<Rightarrow> Inr (Some header)
      | None \<Rightarrow> RocksDB_Get (BlockHeader_Deserialize H) HEADER hash (db_rocks db))"

definition AddBlockHeader :: "block_header \<Rightarrow> block_db \<Rightarrow> block_db" where
  "AddBlockHeader header db =
     (let hash = BlockHeader_GetHash header;
          db = db\<lparr>db_rocks := RocksDB_Put BlockHeader_Serialize HEADER hash header (db_rocks db)\<rparr>
      in if IsTransactional (db_rocks db) then db\<lparr>db_uncommitted := db_uncommitted db @ [header]\<rparr>
         else db\<lparr>db_headersCache := header_cache_Put hash header (db_headersCache db)\<rparr>)"

definition AddBlockHeaders :: "block_header list \<Rightarrow> block_db \<Rightarrow> block_db" where
  "AddBlockHeaders headers db =
     db\<lparr>db_rocks := RocksDB_PutAll BlockHeader_Serialize HEADER (map (\<lambda>h. (BlockHeader_GetHash h, h)) headers) (db_rocks db)\<rparr>"

definition FullBlock_GetHash :: "full_block \<Rightarrow> big_integer" where
  "FullBlock_GetHash b = BlockHeader_GetHash (fb_header b)"

definition BlockDB_AddBlock :: "full_block \<Rightarrow> block_db \<Rightarrow> block_db" where
  "BlockDB_AddBlock b db = db\<lparr>db_rocks := RocksDB_Put FullBlock_Serialize BLOCK (FullBlock_GetHash b) b (db_rocks db)\<rparr>"

definition GetBlock :: "hash_fn \<Rightarrow> big_integer \<Rightarrow> block_db \<Rightarrow> full_block option result" where
  "GetBlock H hash db = RocksDB_Get (FullBlock_Deserialize H) BLOCK hash (db_rocks db)"

definition AddBlockSums :: "big_integer \<Rightarrow> block_sums \<Rightarrow> block_db \<Rightarrow> block_db" where
  "AddBlockSums blockHash blockSums db = db\<lparr>db_rocks := RocksDB_Put BlockSums_Serialize BLOCK_SUMS blockHash blockSums (db_rocks db)\<rparr>"

definition GetBlockSums :: "big_integer \<Rightarrow> block_db \<Rightarrow> block_sums option result" where
  "GetBlockSums blockHash db = RocksDB_Get BlockSums_Deserialize BLOCK_SUMS blockHash (db_rocks db)"

definition ClearBlockSums :: "block_db \<Rightarrow> block_db" where
  "ClearBlockSums db = db\<lparr>db_rocks := RocksDB_DeleteAll BLOCK_SUMS (db_rocks db)\<rparr>"

definition AddOutputPosition :: "commitment \<Rightarrow> output_location \<Rightarrow> block_db \<Rightarrow> block_db" where
  "AddOutputPosition c location db = db\<lparr>db_rocks := RocksDB_Put OutputLocation_Serialize OUTPUT_POS c location (db_rocks db)\<rparr>"

definition GetOutputPosition :: "commitment \<Rightarrow> block_db \<Rightarrow> output_location option result" where
  "GetOutputPosition c db = RocksDB_Get OutputLocation_Deserialize OUTPUT_POS c (db_rocks db)"

definition RemoveOutputPositions :: "commitment list \<Rightarrow> block_db \<Rightarrow> block_db" where
  "RemoveOutputPositions cs db = db\<lparr>db_rocks := RocksDB_DeleteKeys OUTPUT_POS cs (db_rocks db)\<rparr>"

definition ClearOutputPositions :: "block_db \<Rightarrow> block_db" where
  "ClearOutputPositions db = db\<lparr>db_rocks := RocksDB_DeleteAll OUTPUT_POS (db_rocks db)\<rparr>"

definition AddSpentPositions :: "big_integer \<Rightarrow> spent_output list \<Rightarrow> block_db \<Rightarrow> block_db" where
  "AddSpentPositions blockHash outputPositions db =
     db\<lparr>db_rocks := RocksDB_Put SpentOutputs_Serialize SPENT_OUTPUTS blockHash outputPositions (db_rocks db)\<rparr>"

definition GetSpentPositions :: "big_integer \<Rightarrow> block_db \<Rightarrow> (commitment \<rightharpoonup> output_location) result" where
  "GetSpentPositions blockHash db =
     bind_result (RocksDB_Get SpentOutputs_Deserialize SPENT_OUTPUTS blockHash (db_rocks db)) (\<lambda>spent. case spent of
         None \<Rightarrow> Inl DATABASE_EXCEPTION
       | Some spent \<Rightarrow> Inr (SpentOutputs_BuildMap spent))"

definition ClearSpentPositions :: "block_db \<Rightarrow> block_db" where
  "ClearSpentPositions db = db\<lparr>db_rocks := RocksDB_DeleteAll SPENT_OUTPUTS (db_rocks db)\<rparr>"

section \<open>Tables\<close>

lemma rdb_view_update [simp]: "rdb_view (rdb_update f db) = f (rdb_view db)"
  by (simp add: rdb_view_def rdb_update_def split: option.splits)

lemma IsTransactional_update [simp]: "IsTransactional (rdb_update f db) = IsTransactional db"
  by (simp add: IsTransactional_def rdb_update_def split: option.splits)

lemma rdb_base_update [simp]: "rdb_base (rdb_update f db) = (if IsTransactional db then rdb_base db else f (rdb_base db))"
  by (auto simp add: IsTransactional_def rdb_update_def split: option.splits)

lemma rdb_view_idle: "\<not> IsTransactional db \<Longrightarrow> rdb_view db = rdb_base db"
  by (simp add: IsTransactional_def rdb_view_def)

lemma RocksDB_Get_cong: "rdb_view db tbl key = rdb_view db' tbl key \<Longrightarrow> RocksDB_Get des tbl key db = RocksDB_Get des tbl key db'"
  by (simp add: RocksDB_Get_def)

lemma RocksDB_Put_view [simp]:
  "rdb_view (RocksDB_Put ser tbl key x db) =
     (rdb_view db)(tbl := (rdb_view db tbl)(key \<mapsto> GetBytes (ser x (Serializer_new V1))))"
  by (simp add: RocksDB_Put_def fun_eq_iff)

lemma RocksDB_Put_transactional [simp]: "IsTransactional (RocksDB_Put ser tbl key x db) = IsTransactional db"
  by (simp add: RocksDB_Put_def)

lemma RocksDB_Put_base [simp]:
  "rdb_base (RocksDB_Put ser tbl key x db) = (if IsTransactional db then rdb_base db else rdb_view (RocksDB_Put ser tbl key x db))"
  by (simp add: RocksDB_Put_def rdb_view_idle fun_eq_iff)

lemma RocksDB_Delete_view [simp]:
  "rdb_view (RocksDB_Delete tbl key db) = (rdb_view db)(tbl := (rdb_view db tbl)(key := None))"
  "IsTransactional (RocksDB_Delete tbl key db) = IsTransactional db"
  "IsTransactional db \<Longrightarrow> rdb_base (RocksDB_Delete tbl key db) = rdb_base db"
  by (simp_all add: RocksDB_Delete_def fun_eq_iff)

lemma RocksDB_DeleteAll_view [simp]:
  "rdb_view (RocksDB_DeleteAll tbl db) = (rdb_view db)(tbl := Map.empty)"
  "IsTransactional (RocksDB_DeleteAll tbl db) = IsTransactional db"
  by (simp_all add: RocksDB_DeleteAll_def fun_eq_iff)

text \<open>What a table of serialized values promises: a value is read back under its key, and a write
  to one key or table is not seen under another.\<close>

context codec
begin

lemma get_put:
  assumes "ok V1 x" and "length (enc V1 x) < 2 ^ 64"
  shows "RocksDB_Get des tbl key (RocksDB_Put ser tbl key x db) = Inr (Some x)"
  using roundtrip [OF assms] by (simp add: RocksDB_Get_def)

lemma get_put_other:
  "tbl' \<noteq> tbl \<or> key' \<noteq> key \<Longrightarrow>
     RocksDB_Get des' tbl' key' (RocksDB_Put ser tbl key x db) = RocksDB_Get des' tbl' key' db"
  by (rule RocksDB_Get_cong) auto

end

lemma header_enc_length:
  assumes "header_ok H v h" shows "length (header_enc v h) < 2 ^ 64"
proof -
  have "length (pow_enc v (bh_proofOfWork h)) < 2 ^ 16 + 1"
    using assms length_cycle_bits [of "pow_proofNonces (bh_proofOfWork h)" "pow_edgeBits (bh_proofOfWork h)"]
      cycle_bytes_len_small [of "pow_edgeBits (bh_proofOfWork h)"]
    by (simp add: header_ok_def pow_ok_def pow_enc_def)
  then show ?thesis using assms by (simp add: header_ok_def header_enc_def)
qed

section \<open>Batches\<close>

definition db_open :: "block_db \<Rightarrow> bool" where
  "db_open db \<longleftrightarrow> IsTransactional (db_rocks db) \<and>
     (db_dirty db \<or> rdb_view (db_rocks db) = rdb_base (db_rocks db))"

definition db_working :: "block_db \<Rightarrow> db_tables" where
  "db_working db = rdb_view (db_rocks db)"

definition db_durable :: "block_db \<Rightarrow> db_tables" where
  "db_durable db = rdb_base (db_rocks db)"

lemmas batch_defs = BlockDB_Commit_def BlockDB_Rollback_def BlockDB_OnInitWrite_def BlockDB_OnEndWrite_def
  BlockDB_SetDirty_def RocksDB_Commit_def RocksDB_Rollback_def RocksDB_OnInitWrite_def RocksDB_OnEndWrite_def

lemma IsTransactional_fields [simp]:
  "IsTransactional (r\<lparr>rdb_base := t\<rparr>) = IsTransactional r"
  "IsTransactional (r\<lparr>rdb_transaction := x\<rparr>) = (x \<noteq> None)"
  by (simp_all add: IsTransactional_def)

lemma rdb_view_fields [simp]:
  "rdb_view (r\<lparr>rdb_transaction := Some t\<rparr>) = t"
  "rdb_view (r\<lparr>rdb_transaction := None\<rparr>) = rdb_base r"
  "IsTransactional r \<Longrightarrow> rdb_view (r\<lparr>rdb_base := t\<rparr>) = rdb_view r"
  by (auto simp: rdb_view_def IsTransactional_def)

interpretation db_writer: batch_writer db_open db_working db_durable "\<lambda>db. snd (BlockDB_Commit True db)" BlockDB_Rollback
  "\<lambda>db. \<not> IsTransactional (db_rocks db)" BlockDB_OnInitWrite BlockDB_OnEndWrite db_dirty BlockDB_SetDirty
  by unfold_locales (simp_all add: db_open_def db_working_def db_durable_def batch_defs)

section \<open>The header cache\<close>

definition stored_header :: "hash_fn \<Rightarrow> db_tables \<Rightarrow> big_integer \<Rightarrow> block_header \<Rightarrow> bool" where
  "stored_header H t hash header =
     (case t HEADER hash of None \<Rightarrow> False
      | Some bytes \<Rightarrow> (case BlockHeader_Deserialize H (ByteBuffer_new bytes V1) of
          Inl _ \<Rightarrow> False | Inr (h, _) \<Rightarrow> h = header))"

text \<open>Every cached header is on disk and visible under its key; headers that wait for a commit are
  visible in the open batch.\<close>

definition cache_coherent :: "hash_fn \<Rightarrow> block_db \<Rightarrow> bool" where
  "cache_coherent H db \<longleftrightarrow>
     (\<forall>(k, h) \<in> set (db_headersCache db). stored_header H (db_durable db) k h \<and> stored_header H (db_working db) k h) \<and>
     (\<forall>h \<in> set (db_uncommitted db). stored_header H (db_working db) (BlockHeader_GetHash h) h) \<and>
     (IsTransactional (db_rocks db) \<longrightarrow> db_dirty db) \<and>
     (\<not> IsTransactional (db_rocks db) \<longrightarrow> db_uncommitted db = [])"

definition same_header :: "hash_fn \<Rightarrow> block_db \<Rightarrow> block_header \<Rightarrow> bool" where
  "same_header H db h \<longleftrightarrow> (\<forall>h'. stored_header H (db_working db) (BlockHeader_GetHash h) h' \<longrightarrow> h' = h)"

lemma stored_header_Get:
  "stored_header H (db_working db) k h \<Longrightarrow>
     RocksDB_Get (BlockHeader_Deserialize H) HEADER k (db_rocks db) = Inr (Some h)"
  by (auto simp: stored_header_def RocksDB_Get_def db_working_def split: option.splits sum.splits prod.splits)

lemma cache_coherent_read:
  assumes "cache_coherent H db"
  shows "GetBlockHeader H hash db = RocksDB_Get (BlockHeader_Deserialize H) HEADER hash (db_rocks db)"
proof (cases "map_of (db_headersCache db) hash")
  case (Some h)
  then have "stored_header H (db_working db) hash h"
    using assms by (auto simp: cache_coherent_def dest: map_of_SomeD)
  then show ?thesis using Some by (simp add: GetBlockHeader_def stored_header_Get)
qed (simp add: GetBlockHeader_def)

lemma header_cache_Put_set: "set (header_cache_Put k h cache) \<subseteq> insert (k, h) (set cache)"
  by (auto simp: header_cache_Put_def split: if_splits dest: in_set_butlastD)

lemma fold_header_cache_Put_set:
  "set (fold (\<lambda>h. header_cache_Put (BlockHeader_GetHash h) h) hs cache) \<subseteq>
     (\<lambda>h. (BlockHeader_GetHash h, h)) ` set hs \<union> set cache"
proof (induction hs arbitrary: cache)
  case (Cons h hs)
  then show ?case
    using Cons.IH [of "header_cache_Put (BlockHeader_GetHash h) h cache"]
      header_cache_Put_set [of "BlockHeader_GetHash h" h cache] by auto
qed simp

lemma header_cache_Put_length:
  "length cache \<le> header_cache_capacity \<Longrightarrow> length (header_cache_Put k h cache) \<le> header_cache_capacity"
  by (auto simp: header_cache_Put_def header_cache_capacity_def)

lemma stored_header_put:
  "header_ok H V1 h \<Longrightarrow>
     stored_header H (t(HEADER := (t HEADER)(k \<mapsto> GetBytes (BlockHeader_Serialize h (Serializer_new V1))))) k' h' =
       (if k' = k then h' = h else stored_header H t k' h')"
  using header_codec.roundtrip [of H V1 h] header_enc_length [of H V1 h] by (auto simp: stored_header_def)

subsection \<open>Every operation keeps the cache coherent\<close>

lemma coherent_same_tables:
  assumes "cache_coherent H db"
    and "rdb_view r HEADER = rdb_view (db_rocks db) HEADER" and "rdb_base r HEADER = rdb_base (db_rocks db) HEADER"
    and "IsTransactional r = IsTransactional (db_rocks db)"
  shows "cache_coherent H (db\<lparr>db_rocks := r\<rparr>)"
  using assms by (simp add: cache_coherent_def db_working_def db_durable_def stored_header_def)

lemma coherent_idle:
  assumes "\<And>k h. (k, h) \<in> set cache \<Longrightarrow> stored_header H (rdb_view r) k h" and "rdb_base r = rdb_view r"
    and "\<not> IsTransactional r" and "db_uncommitted db = []"
  shows "cache_coherent H (db\<lparr>db_rocks := r, db_headersCache := cache\<rparr>)"
  using assms(1,3,4) by (auto simp: cache_coherent_def db_working_def db_durable_def assms(2))

lemma coherent_header:
  assumes co: "cache_coherent H db" and ok: "header_ok H V1 h" and same: "same_header H db h"
  shows "cache_coherent H (AddBlockHeader h db)"
proof -
  define r where "r = RocksDB_Put BlockHeader_Serialize HEADER (BlockHeader_GetHash h) h (db_rocks db)"
  have put: "stored_header H (rdb_view r) k h' \<longleftrightarrow>
      (if k = BlockHeader_GetHash h then h' = h else stored_header H (db_working db) k h')" for k h'
    using ok by (simp add: r_def stored_header_put db_working_def)
  have kept: "stored_header H (rdb_view r) k h'" if "stored_header H (db_working db) k h'" for k h'
    using that same unfolding put same_header_def by auto
  have add: "AddBlockHeader h db =
      (if IsTransactional (db_rocks db) then db\<lparr>db_rocks := r, db_uncommitted := db_uncommitted db @ [h]\<rparr>
       else db\<lparr>db_rocks := r, db_headersCache := header_cache_Put (BlockHeader_GetHash h) h (db_headersCache db)\<rparr>)"
    by (simp add: AddBlockHeader_def Let_def r_def)
  have r: "IsTransactional r = IsTransactional (db_rocks db)"
    "rdb_base r = (if IsTransactional (db_rocks db) then db_durable db else rdb_view r)"
    by (simp_all add: r_def db_durable_def)
  show ?thesis
  proof (cases "IsTransactional (db_rocks db)")
    case True
    then show ?thesis using co kept put [of "BlockHeader_GetHash h" h] r
      by (auto simp: add cache_coherent_def db_working_def db_durable_def)
  next
    case False
    have "stored_header H (rdb_view r) k h'"
      if "(k, h') \<in> set (header_cache_Put (BlockHeader_GetHash h) h (db_headersCache db))" for k h'
    proof -
      have cached: "stored_header H (db_working db) k h'" if "(k, h') \<in> set (db_headersCache db)"
        using that co by (auto simp: cache_coherent_def)
      have "k = BlockHeader_GetHash h \<and> h' = h \<or> (k, h') \<in> set (db_headersCache db)"
        using subsetD [OF header_cache_Put_set that] by simp
      then show ?thesis using kept [OF cached] put [of k h'] by metis
    qed
    note cached = this
    have clean: "db_uncommitted db = []" using False co by (simp add: cache_coherent_def)
    have added: "AddBlockHeader h db =
        db\<lparr>db_rocks := r, db_headersCache := header_cache_Put (BlockHeader_GetHash h) h (db_headersCache db)\<rparr>"
      using False by (simp only: add if_False)
    have "rdb_base r = rdb_view r" "\<not> IsTransactional r" using False r by simp_all
    then show ?thesis unfolding added using coherent_idle [OF cached _ _ clean] by blast
  qed
qed

lemma PutAll_transactional [simp]: "IsTransactional (RocksDB_PutAll ser tbl entries r) = IsTransactional r"
proof -
  have "IsTransactional (fold (\<lambda>(key, x). RocksDB_Put ser tbl key x) entries r) = IsTransactional r"
    by (induction entries arbitrary: r) (simp_all add: case_prod_unfold)
  then show ?thesis by (simp add: RocksDB_PutAll_def)
qed

lemma PutAll_base [simp]: "rdb_base (RocksDB_PutAll ser tbl entries r) = rdb_base r"
proof -
  have "IsTransactional r \<Longrightarrow> rdb_base (fold (\<lambda>(key, x). RocksDB_Put ser tbl key x) entries r) = rdb_base r"
    by (induction entries arbitrary: r) (simp_all add: case_prod_unfold)
  then show ?thesis by (simp add: RocksDB_PutAll_def)
qed

text \<open>The headers of a list may be stored together when no two different ones share a hash and none
  meets a different stored one.\<close>

lemma PutAll_stored:
  assumes "list_all (header_ok H V1) hs" and "\<forall>h \<in> set hs. \<forall>h' \<in> set hs. BlockHeader_GetHash h = BlockHeader_GetHash h' \<longrightarrow> h = h'"
    and "\<forall>h \<in> set hs. BlockHeader_GetHash h = k \<longrightarrow> h = h'" and "stored_header H (rdb_view r) k h'"
  shows "stored_header H (rdb_view (RocksDB_PutAll BlockHeader_Serialize HEADER (map (\<lambda>h. (BlockHeader_GetHash h, h)) hs) r)) k h'"
proof -
  have "stored_header H (rdb_view (fold (\<lambda>(key, x). RocksDB_Put BlockHeader_Serialize HEADER key x)
          (map (\<lambda>h. (BlockHeader_GetHash h, h)) hs) r)) k h'"
    using assms
  proof (induction hs arbitrary: r)
    case (Cons h hs)
    have "stored_header H (rdb_view (RocksDB_Put BlockHeader_Serialize HEADER (BlockHeader_GetHash h) h r)) k h'"
      using Cons.prems unfolding RocksDB_Put_view by (subst stored_header_put) auto
    then show ?case using Cons.prems by (simp add: Cons.IH del: RocksDB_Put_view)
  qed simp
  then show ?thesis using assms by (simp add: RocksDB_PutAll_def)
qed

lemma coherent_headers:
  assumes co: "cache_coherent H db" and "list_all (header_ok H V1) hs"
    and "\<forall>h \<in> set hs. \<forall>h' \<in> set hs. BlockHeader_GetHash h = BlockHeader_GetHash h' \<longrightarrow> h = h'"
    and "\<forall>h \<in> set hs. same_header H db h"
  shows "cache_coherent H (AddBlockHeaders hs db)"
proof -
  let ?r = "RocksDB_PutAll BlockHeader_Serialize HEADER (map (\<lambda>h. (BlockHeader_GetHash h, h)) hs) (db_rocks db)"
  have "stored_header H (rdb_view ?r) k h'" if "stored_header H (db_working db) k h'" for k h'
    using that assms(2-4) by (intro PutAll_stored) (auto simp: same_header_def db_working_def)
  then show ?thesis using co
    by (auto simp: AddBlockHeaders_def cache_coherent_def db_working_def db_durable_def)
qed

lemma coherent_commit: "cache_coherent H db \<Longrightarrow> IsTransactional (db_rocks db) \<Longrightarrow> cache_coherent H (snd (BlockDB_Commit ok db))"
  using fold_header_cache_Put_set [of "db_uncommitted db" "db_headersCache db"]
  by (auto simp: batch_defs cache_coherent_def db_working_def db_durable_def)

lemma coherent_begin:
  "cache_coherent H db \<Longrightarrow> \<not> IsTransactional (db_rocks db) \<Longrightarrow>
     cache_coherent H (InnerWriter_new BlockDB_OnInitWrite BlockDB_SetDirty db)"
  by (auto simp: InnerWriter_new_def batch_defs cache_coherent_def db_working_def db_durable_def)

lemma coherent_rollback: "cache_coherent H db \<Longrightarrow> IsTransactional (db_rocks db) \<Longrightarrow> cache_coherent H (BlockDB_Rollback db)"
  by (auto simp: batch_defs cache_coherent_def db_working_def db_durable_def)

lemma coherent_end:
  "cache_coherent H db \<Longrightarrow> IsTransactional (db_rocks db) \<Longrightarrow>
     cache_coherent H (InnerWriter_destroy True Commit BlockDB_Rollback BlockDB_OnEndWrite db_dirty BlockDB_SetDirty db)"
  by (auto simp: InnerWriter_destroy_def InnerWriter_Rollback_def batch_defs cache_coherent_def db_working_def db_durable_def)

section \<open>Reachable databases\<close>

text \<open>The writes of the block database, and the states a database goes through: it is opened, then
  written inside and outside of batches; batches follow the protocol of \<^verbatim>\<open>Writer\<close>.\<close>

datatype db_write =
    Write_Header block_header
  | Write_Headers "block_header list"
  | Write_Block full_block
  | Write_Sums big_integer block_sums
  | Clear_Sums
  | Write_Position commitment output_location
  | Remove_Positions "commitment list"
  | Clear_Positions
  | Write_Spent big_integer "spent_output list"
  | Clear_Spent

primrec db_apply :: "db_write \<Rightarrow> block_db \<Rightarrow> block_db" where
  "db_apply (Write_Header h) db = AddBlockHeader h db"
| "db_apply (Write_Headers hs) db = AddBlockHeaders hs db"
| "db_apply (Write_Block b) db = BlockDB_AddBlock b db"
| "db_apply (Write_Sums hash sums) db = AddBlockSums hash sums db"
| "db_apply Clear_Sums db = ClearBlockSums db"
| "db_apply (Write_Position c location) db = AddOutputPosition c location db"
| "db_apply (Remove_Positions cs) db = RemoveOutputPositions cs db"
| "db_apply Clear_Positions db = ClearOutputPositions db"
| "db_apply (Write_Spent hash positions) db = AddSpentPositions hash positions db"
| "db_apply Clear_Spent db = ClearSpentPositions db"

text \<open>Headers that are written are well formed, and a header is never written over a different one
  with the same hash.\<close>

fun write_ok :: "hash_fn \<Rightarrow> db_write \<Rightarrow> block_db \<Rightarrow> bool" where
  "write_ok H (Write_Header h) db \<longleftrightarrow> header_ok H V1 h \<and> same_header H db h"
| "write_ok H (Write_Headers hs) db \<longleftrightarrow> list_all (header_ok H V1) hs \<and>
     (\<forall>h \<in> set hs. \<forall>h' \<in> set hs. BlockHeader_GetHash h = BlockHeader_GetHash h' \<longrightarrow> h = h') \<and>
     (\<forall>h \<in> set hs. same_header H db h)"
| "write_ok H _ db \<longleftrightarrow> True"

inductive db_run :: "hash_fn \<Rightarrow> block_db \<Rightarrow> bool" for H where
  opened: "db_run H (BlockDB_OpenDB tables)"
| written: "db_run H db \<Longrightarrow> write_ok H w db \<Longrightarrow> db_run H (db_apply w db)"
| begun: "db_run H db \<Longrightarrow> \<not> IsTransactional (db_rocks db) \<Longrightarrow>
    db_run H (InnerWriter_new BlockDB_OnInitWrite BlockDB_SetDirty db)"
| committed: "db_run H db \<Longrightarrow> IsTransactional (db_rocks db) \<Longrightarrow> db_run H (snd (BlockDB_Commit ok db))"
| rolled_back: "db_run H db \<Longrightarrow> IsTransactional (db_rocks db) \<Longrightarrow> db_run H (BlockDB_Rollback db)"
| ended: "db_run H db \<Longrightarrow> IsTransactional (db_rocks db) \<Longrightarrow>
    db_run H (InnerWriter_destroy True (BlockDB_Commit ok) BlockDB_Rollback BlockDB_OnEndWrite db_dirty BlockDB_SetDirty db)"

lemmas table_defs = BlockDB_AddBlock_def AddBlockSums_def ClearBlockSums_def AddOutputPosition_def RemoveOutputPositions_def
  ClearOutputPositions_def AddSpentPositions_def ClearSpentPositions_def

lemma DeleteKeys_view:
  "IsTransactional (RocksDB_DeleteKeys tbl ks r) = IsTransactional r"
  "tbl' \<noteq> tbl \<Longrightarrow> rdb_view (RocksDB_DeleteKeys tbl ks r) tbl' = rdb_view r tbl'"
  "tbl' \<noteq> tbl \<Longrightarrow> rdb_base (RocksDB_DeleteKeys tbl ks r) tbl' = rdb_base r tbl'"
proof -
  show t: "IsTransactional (RocksDB_DeleteKeys tbl ks r) = IsTransactional r"
    unfolding RocksDB_DeleteKeys_def by (induction ks arbitrary: r) simp_all
  show v: "tbl' \<noteq> tbl \<Longrightarrow> rdb_view (RocksDB_DeleteKeys tbl ks r) tbl' = rdb_view r tbl'"
    unfolding RocksDB_DeleteKeys_def by (induction ks arbitrary: r) simp_all
  have "IsTransactional r \<Longrightarrow> rdb_base (RocksDB_DeleteKeys tbl ks r) = rdb_base r"
    unfolding RocksDB_DeleteKeys_def by (induction ks arbitrary: r) simp_all
  then show "tbl' \<noteq> tbl \<Longrightarrow> rdb_base (RocksDB_DeleteKeys tbl ks r) tbl' = rdb_base r tbl'"
    using t v by (cases "IsTransactional r") (simp_all add: rdb_view_idle)
qed

lemma coherent_write:
  assumes co: "cache_coherent H db" and "write_ok H w db"
  shows "cache_coherent H (db_apply w db)"
proof (cases w)
  case (Remove_Positions cs)
  then show ?thesis
    by (simp add: table_defs coherent_same_tables [OF co] DeleteKeys_view)
qed (use assms in \<open>simp_all add: coherent_header coherent_headers table_defs coherent_same_tables RocksDB_DeleteAll_def
       rdb_view_idle\<close>)

lemma db_run_coherent: "db_run H db \<Longrightarrow> cache_coherent H db"
proof (induction rule: db_run.induct)
  case (opened tables)
  show ?case by (simp add: BlockDB_OpenDB_def cache_coherent_def IsTransactional_def RocksDB_DeleteAll_def rdb_update_def)
qed (simp_all add: coherent_write coherent_begin coherent_commit coherent_rollback coherent_end)

section \<open>Properties of the block database\<close>



end
