(* ===== verification/Chains.thy ===== *)
theory Chains
  imports State_Actions Block_DB
begin

text \<open>
  The chains of block hashes: \<^verbatim>\<open>Chain\<close>, \<^verbatim>\<open>ChainStore\<close>
  (\<^verbatim>\<open>src/BlockChain/Chain.cpp\<close>, \<^verbatim>\<open>ChainStore.cpp\<close>) and the orphan pool
  (\<^verbatim>\<open>src/BlockChain/OrphanPool\<close>).

  A chain keeps its block indices in memory and their hashes in a data file. Block indices are
  immutable, so their sharing between chains (\<^verbatim>\<open>BlockIndexAllocator\<close>) cannot be observed; an index
  is its value. A chain refines the list of its hashes (\<open>chain_hashes\<close>), and is a batchable object.
\<close>

section \<open>Chain\<close>

datatype EChainType = SYNC | CANDIDATE | CONFIRMED

record block_index =
  bi_hash :: big_integer
  bi_height :: u64

definition BlockIndex_new :: "big_integer \<Rightarrow> u64 \<Rightarrow> block_index" where
  "BlockIndex_new hash height = \<lparr>bi_hash = hash, bi_height = height\<rparr>"

record chain =
  ch_dirty :: bool
  ch_indices :: "block_index list"
  ch_height :: u64
  ch_dataFile :: data_file

text \<open>The loop of \<open>Load\<close> and \<open>Rollback\<close> that reads the hashes of the file.\<close>

function read_indices :: "data_file \<Rightarrow> block_index list \<Rightarrow> block_index list result" where
  "read_indices file indices =
     (if length indices < unat (DataFile_GetSize 32 file) then
        bind_result (DataFile_GetDataAt 32 (of_nat (length indices)) file) (\<lambda>hash.
          read_indices file (indices @ [BlockIndex_new hash (of_nat (length indices))]))
      else Inr indices)"
  by pat_completeness auto
termination
  by (relation "measure (\<lambda>(file, indices). unat (DataFile_GetSize 32 file) - length indices)") auto

declare read_indices.simps [simp del]

text \<open>\<open>truncated\<close> and \<open>opened\<close> are the outcomes of the file system calls of a commit.\<close>

definition Chain_Load :: "bool \<Rightarrow> bool \<Rightarrow> u8 list \<Rightarrow> block_index \<Rightarrow> chain result" where
  "Chain_Load truncated opened disk genesisIndex =
     (let file = DataFile_Load disk;
          (committed, file) =
            (if DataFile_GetSize 32 file = 0
             then DataFile_Commit truncated opened (DataFile_AddData (bi_hash genesisIndex) file)
             else (Inr (), file))
      in bind_result committed (\<lambda>_.
         bind_result (read_indices file [genesisIndex]) (\<lambda>indices.
           Inr \<lparr>ch_dirty = False, ch_indices = indices, ch_height = of_nat (length indices) - 1, ch_dataFile = file\<rparr>)))"

definition Chain_GetByHeight :: "u64 \<Rightarrow> chain \<Rightarrow> block_index option" where
  "Chain_GetByHeight height c =
     (if ch_height c \<ge> height \<and> length (ch_indices c) > unat height then Some (ch_indices c ! unat height) else None)"

definition Chain_index :: "u64 \<Rightarrow> chain \<Rightarrow> block_index result" where
  "Chain_index i c = (if unat i < length (ch_indices c) then Inr (ch_indices c ! unat i) else Inl UNDEFINED_BEHAVIOUR)"

definition Chain_GetHash :: "u64 \<Rightarrow> chain \<Rightarrow> big_integer result" where
  "Chain_GetHash height c = bind_result (Chain_index height c) (\<lambda>i. Inr (bi_hash i))"

definition Chain_GetTip :: "chain \<Rightarrow> block_index result" where
  "Chain_GetTip c = Chain_index (ch_height c) c"

definition Chain_GetTipHash :: "chain \<Rightarrow> big_integer result" where
  "Chain_GetTipHash c = bind_result (Chain_index (ch_height c) c) (\<lambda>i. Inr (bi_hash i))"

definition Chain_IsOnChain :: "u64 \<Rightarrow> big_integer \<Rightarrow> chain \<Rightarrow> bool result" where
  "Chain_IsOnChain height hash c =
     (if height \<le> ch_height c then bind_result (Chain_index height c) (\<lambda>i. Inr (bi_hash i = hash)) else Inr False)"

definition Chain_AddBlock :: "big_integer \<Rightarrow> u64 \<Rightarrow> (chain, block_index) action" where
  "Chain_AddBlock hash height c =
     (if height \<noteq> ch_height c + 1 then (Inl BLOCK_CHAIN_EXCEPTION, c)
      else let index = BlockIndex_new hash height
           in (Inr index, c\<lparr>ch_dirty := True, ch_indices := ch_indices c @ [index],
                 ch_dataFile := DataFile_AddData (bi_hash index) (ch_dataFile c), ch_height := ch_height c + 1\<rparr>))"

definition Chain_Rewind :: "u64 \<Rightarrow> (chain, unit) action" where
  "Chain_Rewind lastHeight c =
     (if ch_height c < lastHeight then (Inl BLOCK_CHAIN_EXCEPTION, c)
      else if ch_height c > lastHeight then
        let c = c\<lparr>ch_dirty := True, ch_indices := take (unat (lastHeight + 1)) (ch_indices c)\<rparr>
        in case DataFile_Rewind 32 (lastHeight + 1) (ch_dataFile c) of
             (Inl e, file) \<Rightarrow> (Inl e, c\<lparr>ch_dataFile := file\<rparr>)
           | (Inr _, file) \<Rightarrow> (Inr (), c\<lparr>ch_dataFile := file, ch_height := lastHeight\<rparr>)
      else (Inr (), c))"

definition Chain_Commit :: "bool \<Rightarrow> bool \<Rightarrow> (chain, unit) action" where
  "Chain_Commit truncated opened c =
     (if ch_dirty c then
        (case DataFile_Commit truncated opened (ch_dataFile c) of
           (Inl e, file) \<Rightarrow> (Inl e, c\<lparr>ch_dataFile := file\<rparr>)
         | (Inr _, file) \<Rightarrow> (Inr (), c\<lparr>ch_dataFile := file, ch_dirty := False\<rparr>))
      else (Inr (), c\<lparr>ch_dirty := False\<rparr>))"

text \<open>\<open>Rollback\<close> is \<^verbatim>\<open>noexcept\<close>: an exception while the file is read ends the program.\<close>

definition Chain_Rollback :: "chain \<Rightarrow> chain result" where
  "Chain_Rollback c =
     (if ch_dirty c then
        let file = DataFile_Rollback (ch_dataFile c)
        in bind_result (read_indices file []) (\<lambda>indices.
             Inr (c\<lparr>ch_dataFile := file, ch_indices := indices, ch_height := of_nat (length indices) - 1, ch_dirty := False\<rparr>))
      else Inr (c\<lparr>ch_dirty := False\<rparr>))"

definition Chain_OnInitWrite :: "chain \<Rightarrow> chain" where
  "Chain_OnInitWrite c = c\<lparr>ch_dirty := False, ch_dataFile := InnerWriter_new (\<lambda>d. d) DataFile_SetDirty (ch_dataFile c)\<rparr>"

definition Chain_OnEndWrite :: "chain \<Rightarrow> chain" where
  "Chain_OnEndWrite c =
     c\<lparr>ch_dataFile := InnerWriter_destroy True (DataFile_Commit True True) DataFile_Rollback (\<lambda>d. d) d_dirty
          DataFile_SetDirty (ch_dataFile c)\<rparr>"

section \<open>ChainStore\<close>

record chain_store =
  cs_dirty :: bool
  cs_confirmed :: chain
  cs_candidate :: chain

definition ChainStore_Load :: "bool \<Rightarrow> bool \<Rightarrow> u8 list \<Rightarrow> u8 list \<Rightarrow> block_index \<Rightarrow> chain_store result" where
  "ChainStore_Load truncated opened confirmedDisk candidateDisk genesisIndex =
     bind_result (Chain_Load truncated opened confirmedDisk genesisIndex) (\<lambda>confirmed.
     bind_result (Chain_Load truncated opened candidateDisk genesisIndex) (\<lambda>candidate.
       Inr \<lparr>cs_dirty = False, cs_confirmed = confirmed, cs_candidate = candidate\<rparr>))"

definition GetChain :: "EChainType \<Rightarrow> chain_store \<Rightarrow> chain result" where
  "GetChain chainType cs = (case chainType of
      CONFIRMED \<Rightarrow> Inr (cs_confirmed cs) | CANDIDATE \<Rightarrow> Inr (cs_candidate cs) | SYNC \<Rightarrow> Inl STD_EXCEPTION)"

text \<open>An action on the chain a type selects.\<close>

definition on_chain :: "EChainType \<Rightarrow> (chain, 'a) action \<Rightarrow> (chain_store, 'a) action" where
  "on_chain chainType m = (case chainType of
      CONFIRMED \<Rightarrow> zoom_action cs_confirmed (\<lambda>c. cs_confirmed_update (\<lambda>_. c)) m
    | CANDIDATE \<Rightarrow> zoom_action cs_candidate (\<lambda>c. cs_candidate_update (\<lambda>_. c)) m
    | SYNC \<Rightarrow> throw_action STD_EXCEPTION)"

definition ChainStore_Commit :: "bool \<Rightarrow> bool \<Rightarrow> (chain_store, unit) action" where
  "ChainStore_Commit truncated opened =
     bind_action (on_chain CANDIDATE (Chain_Commit truncated opened)) (\<lambda>_.
       on_chain CONFIRMED (Chain_Commit truncated opened))"

definition ChainStore_Rollback :: "chain_store \<Rightarrow> chain_store result" where
  "ChainStore_Rollback cs =
     bind_result (Chain_Rollback (cs_candidate cs)) (\<lambda>candidate.
     bind_result (Chain_Rollback (cs_confirmed cs)) (\<lambda>confirmed.
       Inr (cs\<lparr>cs_candidate := candidate, cs_confirmed := confirmed\<rparr>)))"

definition ChainStore_OnInitWrite :: "chain_store \<Rightarrow> chain_store" where
  "ChainStore_OnInitWrite cs =
     cs\<lparr>cs_candidate := Chain_OnInitWrite (cs_candidate cs), cs_confirmed := Chain_OnInitWrite (cs_confirmed cs)\<rparr>"

definition ChainStore_OnEndWrite :: "chain_store \<Rightarrow> chain_store" where
  "ChainStore_OnEndWrite cs =
     cs\<lparr>cs_candidate := Chain_OnEndWrite (cs_candidate cs), cs_confirmed := Chain_OnEndWrite (cs_confirmed cs)\<rparr>"

definition ChainStore_SetDirty :: "bool \<Rightarrow> chain_store \<Rightarrow> chain_store" where
  "ChainStore_SetDirty dirty cs = cs\<lparr>cs_dirty := dirty\<rparr>"

text \<open>Below height 0 the counter wraps, where neither chain has a block and a null pointer is
  dereferenced.\<close>

function FindCommonIndex_loop :: "u64 \<Rightarrow> chain \<Rightarrow> chain \<Rightarrow> block_index result" where
  "FindCommonIndex_loop height chain1 chain2 =
     (case (Chain_GetByHeight height chain1, Chain_GetByHeight height chain2) of
        (Some index1, Some index2) \<Rightarrow>
          if bi_hash index1 \<noteq> bi_hash index2
          then (if height = 0 then Inl UNDEFINED_BEHAVIOUR else FindCommonIndex_loop (height - 1) chain1 chain2)
          else Inr index1
      | _ \<Rightarrow> Inl UNDEFINED_BEHAVIOUR)"
  by pat_completeness auto
termination
  by (relation "measure (\<lambda>(height, c1, c2). unat height)") (auto simp: measure_unat)

declare FindCommonIndex_loop.simps [simp del]

definition FindCommonIndex :: "EChainType \<Rightarrow> EChainType \<Rightarrow> chain_store \<Rightarrow> block_index result" where
  "FindCommonIndex chainType1 chainType2 cs =
     bind_result (GetChain chainType1 cs) (\<lambda>chain1.
     bind_result (GetChain chainType2 cs) (\<lambda>chain2.
       FindCommonIndex_loop (min (ch_height chain1) (ch_height chain2)) chain1 chain2))"

text \<open>The body of the loop over the heights from \<open>i\<close> to \<open>height\<close>. The source chain is read at every
  turn, as in the code.\<close>

definition copy_block :: "EChainType \<Rightarrow> EChainType \<Rightarrow> u64 \<Rightarrow> (chain_store, unit) action" where
  "copy_block source destination i =
     bind_action (read_action (GetChain source)) (\<lambda>sourceChain.
     bind_action (read_action (\<lambda>_. Chain_GetHash i sourceChain)) (\<lambda>hash.
     bind_action (on_chain destination (Chain_AddBlock hash i)) (\<lambda>_. return_action ())))"

definition heights_upto :: "u64 \<Rightarrow> u64 \<Rightarrow> u64 list" where
  "heights_upto i height = map of_nat [unat i..<Suc (unat height)]"

definition ReorgChain :: "EChainType \<Rightarrow> EChainType \<Rightarrow> u64 \<Rightarrow> (chain_store, unit) action" where
  "ReorgChain source destination height =
     bind_action (read_action (GetChain source)) (\<lambda>sourceChain.
     bind_action (read_action (GetChain destination)) (\<lambda>_.
     if ch_height sourceChain < height then throw_action BLOCK_CHAIN_EXCEPTION
     else bind_action (read_action (FindCommonIndex source destination)) (\<lambda>index.
       let commonHeight = min (bi_height index) height
       in bind_action (on_chain destination (Chain_Rewind commonHeight)) (\<lambda>_.
          for_action (copy_block source destination) (heights_upto (commonHeight + 1) height)))))"

definition ReorgChain_full :: "EChainType \<Rightarrow> EChainType \<Rightarrow> (chain_store, unit) action" where
  "ReorgChain_full source destination =
     bind_action (read_action (GetChain source)) (\<lambda>c. ReorgChain source destination (ch_height c))"

definition ChainStore_AddBlock :: "EChainType \<Rightarrow> EChainType \<Rightarrow> u64 \<Rightarrow> (chain_store, unit) action" where
  "ChainStore_AddBlock source destination height =
     bind_action (read_action (GetChain source)) (\<lambda>sourceChain.
     bind_action (read_action (GetChain destination)) (\<lambda>destinationChain.
     bind_action (read_action (\<lambda>_. Chain_GetTip destinationChain)) (\<lambda>destinationTip.
       if bi_height destinationTip + 1 = height then
         bind_action (read_action (\<lambda>_. Chain_GetTip sourceChain)) (\<lambda>sourceTip.
           if bi_height sourceTip \<ge> height then
             bind_action (read_action (\<lambda>_. Chain_GetHash height sourceChain)) (\<lambda>hash.
             bind_action (on_chain destination (Chain_AddBlock hash height)) (\<lambda>_. return_action ()))
           else throw_action BLOCK_CHAIN_EXCEPTION)
       else throw_action BLOCK_CHAIN_EXCEPTION)))"

section \<open>OrphanPool\<close>

text \<open>The blocks of a height stand in the order in which they were added. The cache of orphan headers is a
  least-recently-used cache of 64 entries, the most recently used first; a put of a cached key
  replaces the value and moves it to the front.\<close>

record orphan_pool =
  op_orphansByHeight :: "u64 \<rightharpoonup> full_block list"
  op_orphanHeadersByHash :: "(big_integer \<times> block_header) list"

definition OrphanPool_new :: orphan_pool where
  "OrphanPool_new = \<lparr>op_orphansByHeight = Map.empty, op_orphanHeadersByHash = []\<rparr>"

definition lru_Put :: "nat \<Rightarrow> 'k \<Rightarrow> 'v \<Rightarrow> ('k \<times> 'v) list \<Rightarrow> ('k \<times> 'v) list" where
  "lru_Put capacity k v cache =
     (if map_of cache k = None then (k, v) # (if length cache + 1 > capacity then butlast cache else cache)
      else (k, v) # filter (\<lambda>(k', _). k' \<noteq> k) cache)"

definition lru_Get :: "'k \<Rightarrow> ('k \<times> 'v) list \<Rightarrow> 'v option \<times> ('k \<times> 'v) list" where
  "lru_Get k cache = (case map_of cache k of
      None \<Rightarrow> (None, cache)
    | Some v \<Rightarrow> (Some v, (k, v) # filter (\<lambda>(k', _). k' \<noteq> k) cache))"

definition orphans_at :: "u64 \<Rightarrow> orphan_pool \<Rightarrow> full_block list" where
  "orphans_at height p = (case op_orphansByHeight p height of None \<Rightarrow> [] | Some bs \<Rightarrow> bs)"

definition FullBlock_GetHeight :: "full_block \<Rightarrow> u64" where
  "FullBlock_GetHeight b = bh_height (fb_header b)"

definition IsOrphan :: "u64 \<Rightarrow> big_integer \<Rightarrow> orphan_pool \<Rightarrow> bool" where
  "IsOrphan height hash p \<longleftrightarrow> list_ex (\<lambda>b. FullBlock_GetHash b = hash) (orphans_at height p)"

definition AddOrphanBlock :: "full_block \<Rightarrow> orphan_pool \<Rightarrow> orphan_pool" where
  "AddOrphanBlock b p =
     (let hash = FullBlock_GetHash b; height = FullBlock_GetHeight b;
          p = (if map_of (op_orphanHeadersByHash p) hash = None
               then p\<lparr>op_orphanHeadersByHash := lru_Put 64 hash (fb_header b) (op_orphanHeadersByHash p)\<rparr> else p)
      in case op_orphansByHeight p height of
           Some orphans \<Rightarrow>
             if list_ex (\<lambda>b'. FullBlock_GetHash b' = hash) orphans then p
             else p\<lparr>op_orphansByHeight := (op_orphansByHeight p)(height \<mapsto> orphans @ [b])\<rparr>
         | None \<Rightarrow> p\<lparr>op_orphansByHeight := (op_orphansByHeight p)(height \<mapsto> [b])\<rparr>)"

definition GetOrphanBlock :: "u64 \<Rightarrow> big_integer \<Rightarrow> orphan_pool \<Rightarrow> full_block option" where
  "GetOrphanBlock height hash p = find (\<lambda>b. FullBlock_GetHash b = hash) (orphans_at height p)"

definition GetNextOrphanBlock :: "u64 \<Rightarrow> big_integer \<Rightarrow> orphan_pool \<Rightarrow> full_block option" where
  "GetNextOrphanBlock height previousHash p =
     find (\<lambda>b. bh_previousBlockHash (fb_header b) = previousHash) (orphans_at height p)"

fun remove_first :: "('a \<Rightarrow> bool) \<Rightarrow> 'a list \<Rightarrow> 'a list" where
  "remove_first P [] = []"
| "remove_first P (x # xs) = (if P x then xs else x # remove_first P xs)"

definition RemoveOrphan :: "u64 \<Rightarrow> big_integer \<Rightarrow> orphan_pool \<Rightarrow> orphan_pool" where
  "RemoveOrphan height hash p = (case op_orphansByHeight p height of
      None \<Rightarrow> p
    | Some orphans \<Rightarrow>
        let orphans = remove_first (\<lambda>b. FullBlock_GetHash b = hash) orphans
        in p\<lparr>op_orphansByHeight := (op_orphansByHeight p)(height := if orphans = [] then None else Some orphans)\<rparr>)"

definition GetOrphanHeader :: "big_integer \<Rightarrow> orphan_pool \<Rightarrow> block_header option \<times> orphan_pool" where
  "GetOrphanHeader hash p =
     (case lru_Get hash (op_orphanHeadersByHash p) of (h, cache) \<Rightarrow> (h, p\<lparr>op_orphanHeadersByHash := cache\<rparr>))"

definition AddOrphanHeader :: "block_header \<Rightarrow> orphan_pool \<Rightarrow> orphan_pool" where
  "AddOrphanHeader header p =
     p\<lparr>op_orphanHeadersByHash := lru_Put 64 (BlockHeader_GetHash header) header (op_orphanHeadersByHash p)\<rparr>"

section \<open>A chain refines the list of its hashes\<close>

definition index_list :: "big_integer list \<Rightarrow> block_index list" where
  "index_list hs = map (\<lambda>i. BlockIndex_new (hs ! i) (of_nat i)) [0..<length hs]"

definition chain_hashes :: "chain \<Rightarrow> big_integer list" where
  "chain_hashes c = df_working 32 (ch_dataFile c)"

definition chain_durable :: "chain \<Rightarrow> big_integer list" where
  "chain_durable c = df_durable 32 (ch_dataFile c)"

definition chain_ok :: "chain \<Rightarrow> bool" where
  "chain_ok c \<longleftrightarrow> df_ok 32 (ch_dataFile c) \<and> ch_indices c = index_list (chain_hashes c) \<and>
     unat (ch_height c) + 1 = length (chain_hashes c) \<and> chain_durable c \<noteq> [] \<and>
     (ch_dirty c \<or> chain_hashes c = chain_durable c)"

definition chain_room :: "nat \<Rightarrow> chain \<Rightarrow> bool" where
  "chain_room n c \<longleftrightarrow> (length (chain_hashes c) + n) * 32 < 2 ^ 64"

lemma length_index_list [simp]: "length (index_list hs) = length hs"
  by (simp add: index_list_def)

lemma index_list_nth [simp]: "i < length hs \<Longrightarrow> index_list hs ! i = BlockIndex_new (hs ! i) (of_nat i)"
  by (simp add: index_list_def)

lemma index_list_snoc: "index_list (hs @ [h]) = index_list hs @ [BlockIndex_new h (of_nat (length hs))]"
  by (auto simp: list_eq_iff_nth_eq nth_append less_Suc_eq)

lemma index_list_take: "take n (index_list hs) = index_list (take n hs)"
  by (simp add: list_eq_iff_nth_eq)

lemma BlockIndex_new_fields [simp]: "bi_hash (BlockIndex_new h n) = h" "bi_height (BlockIndex_new h n) = n"
  by (simp_all add: BlockIndex_new_def)

lemma read_indices_correct:
  assumes "df_ok 32 f" and "indices = index_list (take (length indices) (df_working 32 f))"
    and "length indices \<le> length (df_working 32 f)"
  shows "read_indices f indices = Inr (index_list (df_working 32 f))"
  using assms
proof (induction f indices rule: read_indices.induct)
  case (1 f indices)
  let ?hs = "df_working 32 f" and ?n = "length indices"
  have size: "unat (DataFile_GetSize 32 f) = length ?hs" using 1(2) by (rule df_size)
  show ?case
  proof (cases "?n < length ?hs")
    case True
    have n: "unat (of_nat ?n :: u64) = ?n"
      using True size unsigned_less [of "DataFile_GetSize 32 f", where ?'a = nat] by (simp add: unat_of_nat_small)
    have get: "DataFile_GetDataAt 32 (of_nat ?n) f = Inr (?hs ! ?n)"
      using df_get [OF 1(2), of "of_nat ?n"] True by (simp add: n)
    have "index_list (take (Suc ?n) ?hs) = index_list (take ?n ?hs) @ [BlockIndex_new (?hs ! ?n) (of_nat ?n)]"
      using True by (simp add: take_Suc_conv_app_nth index_list_snoc)
    then have "indices @ [BlockIndex_new (?hs ! ?n) (of_nat ?n)] = index_list (take (Suc ?n) ?hs)"
      using 1(3) by argo
    then show ?thesis
      using True size get 1(1) [of "?hs ! ?n"] 1(2) by (subst read_indices.simps) (simp add: bind_result_def)
  next
    case False
    then show ?thesis using size 1(3,4) by (subst read_indices.simps) simp
  qed
qed

lemma read_indices_all: "df_ok 32 f \<Longrightarrow> read_indices f [] = Inr (index_list (df_working 32 f))"
  by (rule read_indices_correct) (simp_all add: index_list_def)

lemma chain_height_small: "chain_ok c \<Longrightarrow> length (chain_hashes c) < 2 ^ 64"
  using df_index(2) [of 32 "ch_dataFile c" "DataFile_GetSize 32 (ch_dataFile c)"]
  by (simp add: chain_ok_def chain_hashes_def df_size df_ok_def file_ok_def)

lemma chain_height: "chain_ok c \<Longrightarrow> unat (ch_height c) = length (chain_hashes c) - 1"
  unfolding chain_ok_def by linarith

lemma chain_nonempty: "chain_ok c \<Longrightarrow> chain_hashes c \<noteq> []"
  by (auto simp: chain_ok_def)

lemma chain_in_range: "chain_ok c \<Longrightarrow> h \<le> ch_height c \<longleftrightarrow> unat h < length (chain_hashes c)"
  using chain_height [of c] chain_nonempty [of c] by (cases "chain_hashes c") (auto simp: word_le_nat_alt)

lemma chain_get:
  assumes "chain_ok c"
  shows "Chain_GetByHeight h c =
      (if unat h < length (chain_hashes c) then Some (BlockIndex_new (chain_hashes c ! unat h) h) else None)"
    and "Chain_GetHash h c = (if unat h < length (chain_hashes c) then Inr (chain_hashes c ! unat h) else Inl UNDEFINED_BEHAVIOUR)"
    and "Chain_GetTip c = Inr (BlockIndex_new (last (chain_hashes c)) (ch_height c))"
    and "Chain_GetTipHash c = Inr (last (chain_hashes c))"
    and "Chain_IsOnChain h hash c = Inr (unat h < length (chain_hashes c) \<and> chain_hashes c ! unat h = hash)"
proof -
  have idx: "ch_indices c = index_list (chain_hashes c)" using assms by (simp add: chain_ok_def)
  have last: "last (chain_hashes c) = chain_hashes c ! unat (ch_height c)"
    using chain_nonempty [OF assms] chain_height [OF assms] by (simp add: last_conv_nth)
  have tip: "unat (ch_height c) < length (chain_hashes c)" using chain_in_range [OF assms] by blast
  show "Chain_GetByHeight h c =
      (if unat h < length (chain_hashes c) then Some (BlockIndex_new (chain_hashes c ! unat h) h) else None)"
    using chain_in_range [OF assms, of h] by (simp add: Chain_GetByHeight_def idx)
  show "Chain_GetHash h c = (if unat h < length (chain_hashes c) then Inr (chain_hashes c ! unat h) else Inl UNDEFINED_BEHAVIOUR)"
    by (simp add: Chain_GetHash_def Chain_index_def idx bind_result_def)
  show "Chain_GetTip c = Inr (BlockIndex_new (last (chain_hashes c)) (ch_height c))"
    and "Chain_GetTipHash c = Inr (last (chain_hashes c))"
    using tip by (simp_all add: Chain_GetTip_def Chain_GetTipHash_def Chain_index_def idx bind_result_def last)
  show "Chain_IsOnChain h hash c = Inr (unat h < length (chain_hashes c) \<and> chain_hashes c ! unat h = hash)"
    using chain_in_range [OF assms, of h] by (simp add: Chain_IsOnChain_def Chain_index_def idx bind_result_def)
qed

lemma chain_file_room:
  assumes "chain_ok c" and "chain_room (Suc n) c"
  shows "length (file_contents (d_file (ch_dataFile c))) + 32 < 2 ^ 64"
proof -
  have "32 dvd length (file_contents (d_file (ch_dataFile c)))"
    using assms df_ok_contents_dvd by (simp add: chain_ok_def)
  then show ?thesis using assms by (auto simp: chain_room_def chain_hashes_def df_working_def length_blocks)
qed

lemma chain_add:
  assumes ok: "chain_ok c" and room: "chain_room (Suc n) c" and len: "length hash = 32"
  shows "fst (Chain_AddBlock hash (ch_height c + 1) c) = Inr (BlockIndex_new hash (ch_height c + 1))"
    and "chain_ok (snd (Chain_AddBlock hash (ch_height c + 1) c))"
    and "chain_hashes (snd (Chain_AddBlock hash (ch_height c + 1) c)) = chain_hashes c @ [hash]"
    and "chain_durable (snd (Chain_AddBlock hash (ch_height c + 1) c)) = chain_durable c"
    and "ch_height (snd (Chain_AddBlock hash (ch_height c + 1) c)) = ch_height c + 1"
proof -
  let ?c = "snd (Chain_AddBlock hash (ch_height c + 1) c)"
  note add = df_add [OF _ chain_file_room [OF ok room] len]
  have df: "df_ok 32 (ch_dataFile c)" using ok by (simp add: chain_ok_def)
  show "fst (Chain_AddBlock hash (ch_height c + 1) c) = Inr (BlockIndex_new hash (ch_height c + 1))"
    and h: "ch_height ?c = ch_height c + 1"
    by (simp_all add: Chain_AddBlock_def Let_def)
  show hs: "chain_hashes ?c = chain_hashes c @ [hash]" and du: "chain_durable ?c = chain_durable c"
    using add(2,3) [OF df] by (simp_all add: Chain_AddBlock_def chain_hashes_def chain_durable_def Let_def)
  have small: "length (chain_hashes c) < 2 ^ 64" by (rule chain_height_small [OF ok])
  have "length (chain_hashes c) * 32 < 2 ^ 64" using room by (simp add: chain_room_def)
  then have up: "unat (ch_height c + 1) = length (chain_hashes c)"
    using ok by (auto simp: chain_ok_def unat_word_ariths)
  then have "of_nat (length (chain_hashes c)) = ch_height c + 1" by (metis of_nat_unat ucast_id)
  then have "ch_indices ?c = index_list (chain_hashes ?c)"
    using ok by (simp add: hs index_list_snoc chain_ok_def) (simp add: Chain_AddBlock_def Let_def)
  then show "chain_ok ?c"
    using ok up add(1) [OF df] by (simp add: chain_ok_def hs du h) (simp add: Chain_AddBlock_def Let_def)
qed

lemma chain_add_wrong_height:
  "height \<noteq> ch_height c + 1 \<Longrightarrow> Chain_AddBlock hash height c = (Inl BLOCK_CHAIN_EXCEPTION, c)"
  by (simp add: Chain_AddBlock_def)

lemma chain_rewind:
  assumes ok: "chain_ok c" and h: "unat h < length (chain_hashes c)"
  shows "fst (Chain_Rewind h c) = Inr ()" and "chain_ok (snd (Chain_Rewind h c))"
    and "chain_hashes (snd (Chain_Rewind h c)) = take (Suc (unat h)) (chain_hashes c)"
    and "chain_durable (snd (Chain_Rewind h c)) = chain_durable c"
    and "ch_height (snd (Chain_Rewind h c)) = h"
proof -
  let ?c = "snd (Chain_Rewind h c)"
  have df: "df_ok 32 (ch_dataFile c)" using ok by (simp add: chain_ok_def)
  have "h \<le> ch_height c" using chain_in_range [OF ok] h by simp
  then consider "ch_height c = h" | "h < ch_height c" by force
  then have "fst (Chain_Rewind h c) = Inr () \<and> chain_ok ?c \<and> chain_hashes ?c = take (Suc (unat h)) (chain_hashes c) \<and>
      chain_durable ?c = chain_durable c \<and> ch_height ?c = h"
  proof cases
    case 1
    then show ?thesis using ok chain_height [OF ok] by (auto simp: Chain_Rewind_def)
  next
    case 2
    then have h1: "unat (h + 1) = Suc (unat h)" using unsigned_less [of "ch_height c", where ?'a = nat]
      by (simp add: unat_word_ariths word_less_nat_alt)
    have le: "unat (h + 1) \<le> length (df_working 32 (ch_dataFile c))" using h by (simp add: h1 chain_hashes_def)
    note rw = df_rewind [OF df le]
    obtain fl where rewound: "DataFile_Rewind 32 (h + 1) (ch_dataFile c) = (Inr (), fl)"
      using rw(1) by (cases "DataFile_Rewind 32 (h + 1) (ch_dataFile c)") auto
    have eq: "Chain_Rewind h c = (Inr (), c\<lparr>ch_dirty := True, ch_indices := take (Suc (unat h)) (ch_indices c),
        ch_dataFile := fl, ch_height := h\<rparr>)"
      using 2 rewound by (simp add: Chain_Rewind_def h1 Let_def)
    have f: "df_ok 32 fl" "df_working 32 fl = take (Suc (unat h)) (chain_hashes c)" "df_durable 32 fl = chain_durable c"
      using rw(2-4) rewound by (simp_all add: h1 chain_hashes_def chain_durable_def)
    show ?thesis
      using ok h f by (simp add: eq chain_ok_def chain_hashes_def chain_durable_def index_list_take)
  qed
  then show "fst (Chain_Rewind h c) = Inr ()" and "chain_ok ?c" and "chain_hashes ?c = take (Suc (unat h)) (chain_hashes c)"
    and "chain_durable ?c = chain_durable c" and "ch_height ?c = h" by simp_all
qed

subsection \<open>Batches of a chain\<close>

text \<open>The state after an operation that ends the program when it throws.\<close>

definition or_same :: "('s \<Rightarrow> 's result) \<Rightarrow> 's \<Rightarrow> 's" where
  "or_same f s = (case f s of Inl _ \<Rightarrow> s | Inr t \<Rightarrow> t)"

lemma chain_commit:
  assumes ok: "chain_ok c"
  shows "fst (Chain_Commit True True c) = Inr ()" and "chain_ok (snd (Chain_Commit True True c))"
    and "chain_hashes (snd (Chain_Commit True True c)) = chain_hashes c"
    and "chain_durable (snd (Chain_Commit True True c)) = chain_hashes c"
    and "\<not> ch_dirty (snd (Chain_Commit True True c))"
proof -
  let ?c = "snd (Chain_Commit True True c)"
  have df: "df_ok 32 (ch_dataFile c)" using ok by (simp add: chain_ok_def)
  note cm = df_commit [OF df]
  obtain fl where fl: "DataFile_Commit True True (ch_dataFile c) = (Inr (), fl)"
    using cm(1) by (cases "DataFile_Commit True True (ch_dataFile c)") auto
  have eq: "Chain_Commit True True c = (Inr (), if ch_dirty c then c\<lparr>ch_dataFile := fl, ch_dirty := False\<rparr> else c\<lparr>ch_dirty := False\<rparr>)"
    using fl by (simp add: Chain_Commit_def)
  have f: "df_ok 32 fl" "df_working 32 fl = chain_hashes c" "df_durable 32 fl = chain_hashes c"
    using cm fl by (simp_all add: chain_hashes_def)
  show "fst (Chain_Commit True True c) = Inr ()" and "\<not> ch_dirty ?c" by (simp_all add: eq)
  show hs: "chain_hashes ?c = chain_hashes c"
    using f by (simp add: eq chain_hashes_def)
  show du: "chain_durable ?c = chain_hashes c"
    using f ok by (auto simp: eq chain_durable_def chain_ok_def)
  show "chain_ok ?c" using ok f(1) chain_nonempty [OF ok]
    by (simp add: chain_ok_def hs du) (simp add: eq)
qed

lemma chain_rollback:
  assumes ok: "chain_ok c"
  shows "Chain_Rollback c = Inr (or_same Chain_Rollback c)" and "chain_ok (or_same Chain_Rollback c)"
    and "chain_hashes (or_same Chain_Rollback c) = chain_durable c"
    and "chain_durable (or_same Chain_Rollback c) = chain_durable c"
    and "\<not> ch_dirty (or_same Chain_Rollback c)"
proof -
  let ?c = "or_same Chain_Rollback c" and ?f = "DataFile_Rollback (ch_dataFile c)"
  have df: "df_ok 32 (ch_dataFile c)" using ok by (simp add: chain_ok_def)
  have f: "df_ok 32 ?f" "df_working 32 ?f = chain_durable c" "df_durable 32 ?f = chain_durable c"
    using df_rollback [OF df] by (simp_all add: chain_durable_def)
  define c' where "c' = c\<lparr>ch_dataFile := ?f, ch_indices := index_list (chain_durable c),
      ch_height := of_nat (length (chain_durable c)) - 1, ch_dirty := False\<rparr>"
  have eq: "Chain_Rollback c = Inr (if ch_dirty c then c' else c\<lparr>ch_dirty := False\<rparr>)"
    using read_indices_all [OF f(1)] f by (simp add: Chain_Rollback_def bind_result_def c'_def Let_def)
  show "Chain_Rollback c = Inr ?c" by (simp add: eq or_same_def)
  have same: "?c = (if ch_dirty c then c' else c\<lparr>ch_dirty := False\<rparr>)" by (simp add: eq or_same_def)
  show "\<not> ch_dirty ?c" by (simp add: same c'_def)
  show hs: "chain_hashes ?c = chain_durable c" and du: "chain_durable ?c = chain_durable c"
    using ok f by (auto simp: same c'_def chain_ok_def chain_hashes_def chain_durable_def)
  have ne: "0 < length (chain_durable c)" using ok by (simp add: chain_ok_def)
  have "length (chain_durable c) < 2 ^ 64"
    using df_size [OF f(1)] unsigned_less [of "DataFile_GetSize 32 ?f", where ?'a = nat] f(2) by simp
  then have "unat (of_nat (length (chain_durable c)) - 1 :: u64) + 1 = length (chain_durable c)"
    using ne by (cases "length (chain_durable c)") (simp_all add: unat_of_nat_small)
  then show "chain_ok ?c" using ok f ne
    by (simp add: chain_ok_def hs du) (auto simp: same c'_def)
qed

interpretation chain_batch: batchable chain_ok chain_hashes chain_durable
  "\<lambda>c. snd (Chain_Commit True True c)" "or_same Chain_Rollback"
  by unfold_locales (simp_all add: chain_commit chain_rollback)

section \<open>Write sessions of the chain store\<close>

definition store_ok :: "chain_store \<Rightarrow> bool" where
  "store_ok cs \<longleftrightarrow> chain_ok (cs_confirmed cs) \<and> chain_ok (cs_candidate cs) \<and>
     (cs_dirty cs \<or> chain_hashes (cs_confirmed cs) = chain_durable (cs_confirmed cs) \<and>
                    chain_hashes (cs_candidate cs) = chain_durable (cs_candidate cs))"

text \<open>The store as a pair of lists, the confirmed chain first.\<close>

definition store_hashes :: "chain_store \<Rightarrow> big_integer list \<times> big_integer list" where
  "store_hashes cs = (chain_hashes (cs_confirmed cs), chain_hashes (cs_candidate cs))"

definition store_durable :: "chain_store \<Rightarrow> big_integer list \<times> big_integer list" where
  "store_durable cs = (chain_durable (cs_confirmed cs), chain_durable (cs_candidate cs))"

definition chain_idle :: "chain \<Rightarrow> bool" where
  "chain_idle c \<longleftrightarrow> chain_ok c \<and> chain_hashes c = chain_durable c"

definition store_idle :: "chain_store \<Rightarrow> bool" where
  "store_idle cs \<longleftrightarrow> chain_idle (cs_confirmed cs) \<and> chain_idle (cs_candidate cs)"

lemma chain_init:
  assumes "chain_idle c"
  shows "chain_ok (Chain_OnInitWrite c)" and "chain_hashes (Chain_OnInitWrite c) = chain_durable c"
    and "chain_durable (Chain_OnInitWrite c) = chain_durable c"
  using assms
  by (simp_all add: Chain_OnInitWrite_def InnerWriter_new_def chain_idle_def chain_ok_def chain_hashes_def chain_durable_def)

lemma chain_end:
  assumes "chain_ok c" and "chain_hashes c = chain_durable c"
  shows "chain_idle (Chain_OnEndWrite c)" and "chain_durable (Chain_OnEndWrite c) = chain_durable c"
  using assms df_rollback [of 32 "ch_dataFile c"]
  by (auto simp: Chain_OnEndWrite_def InnerWriter_destroy_def InnerWriter_Rollback_def chain_idle_def chain_ok_def
      chain_hashes_def chain_durable_def)

lemma store_commit:
  assumes "store_ok cs"
  shows "ChainStore_Commit True True cs =
    (Inr (), cs\<lparr>cs_candidate := snd (Chain_Commit True True (cs_candidate cs)),
                cs_confirmed := snd (Chain_Commit True True (cs_confirmed cs))\<rparr>)"
proof -
  have *: "fst (Chain_Commit True True (cs_candidate cs)) = Inr ()" "fst (Chain_Commit True True (cs_confirmed cs)) = Inr ()"
    using assms by (simp_all add: store_ok_def chain_commit)
  show ?thesis using *
    by (simp add: ChainStore_Commit_def on_chain_def zoom_action_eq bind_action_def)
qed

lemma store_rollback:
  assumes "store_ok cs"
  shows "ChainStore_Rollback cs = Inr (or_same ChainStore_Rollback cs)"
    and "or_same ChainStore_Rollback cs = cs\<lparr>cs_candidate := or_same Chain_Rollback (cs_candidate cs),
        cs_confirmed := or_same Chain_Rollback (cs_confirmed cs)\<rparr>"
proof -
  have "ChainStore_Rollback cs = Inr (cs\<lparr>cs_candidate := or_same Chain_Rollback (cs_candidate cs),
        cs_confirmed := or_same Chain_Rollback (cs_confirmed cs)\<rparr>)"
    using assms chain_rollback(1) by (simp add: ChainStore_Rollback_def store_ok_def bind_result_def)
  then show "ChainStore_Rollback cs = Inr (or_same ChainStore_Rollback cs)"
    and "or_same ChainStore_Rollback cs = cs\<lparr>cs_candidate := or_same Chain_Rollback (cs_candidate cs),
        cs_confirmed := or_same Chain_Rollback (cs_confirmed cs)\<rparr>"
    by (simp_all add: or_same_def)
qed

lemmas store_defs = store_ok_def store_hashes_def store_durable_def store_idle_def ChainStore_SetDirty_def

interpretation store_writer: batch_writer store_ok store_hashes store_durable
  "\<lambda>cs. snd (ChainStore_Commit True True cs)" "or_same ChainStore_Rollback"
  store_idle ChainStore_OnInitWrite ChainStore_OnEndWrite cs_dirty ChainStore_SetDirty
proof
  fix cs assume "store_ok cs"
  then have ok: "chain_ok (cs_confirmed cs)" "chain_ok (cs_candidate cs)" by (simp_all add: store_ok_def)
  note c = store_commit [OF \<open>store_ok cs\<close>] and r = store_rollback(2) [OF \<open>store_ok cs\<close>]
  show "store_ok (snd (ChainStore_Commit True True cs))"
    and "store_hashes (snd (ChainStore_Commit True True cs)) = store_hashes cs"
    and "store_durable (snd (ChainStore_Commit True True cs)) = store_hashes cs"
    and "store_ok (or_same ChainStore_Rollback cs)"
    and "store_hashes (or_same ChainStore_Rollback cs) = store_durable cs"
    and "store_durable (or_same ChainStore_Rollback cs) = store_durable cs"
    and "store_ok (ChainStore_SetDirty False (snd (ChainStore_Commit True True cs))) \<and>
        \<not> cs_dirty (ChainStore_SetDirty False (snd (ChainStore_Commit True True cs))) \<and>
        store_durable (ChainStore_SetDirty False (snd (ChainStore_Commit True True cs))) =
        store_durable (snd (ChainStore_Commit True True cs))"
    and "store_ok (ChainStore_SetDirty False (or_same ChainStore_Rollback cs)) \<and>
        \<not> cs_dirty (ChainStore_SetDirty False (or_same ChainStore_Rollback cs)) \<and>
        store_durable (ChainStore_SetDirty False (or_same ChainStore_Rollback cs)) =
        store_durable (or_same ChainStore_Rollback cs)"
    using ok by (simp_all add: c r store_defs chain_commit chain_rollback)
qed (simp_all add: store_defs ChainStore_OnInitWrite_def ChainStore_OnEndWrite_def chain_init chain_end)

section \<open>Common index and reorganisation\<close>

lemma FindCommonIndex_loop_correct:
  assumes "chain_ok c1" and "chain_ok c2"
    and "unat h < length (chain_hashes c1)" and "unat h < length (chain_hashes c2)"
    and "chain_hashes c1 ! 0 = chain_hashes c2 ! 0"
  shows "\<exists>k. FindCommonIndex_loop h c1 c2 = Inr (BlockIndex_new (chain_hashes c1 ! unat k) k) \<and> k \<le> h \<and>
    chain_hashes c1 ! unat k = chain_hashes c2 ! unat k \<and>
    (\<forall>j. unat k < j \<longrightarrow> j \<le> unat h \<longrightarrow> chain_hashes c1 ! j \<noteq> chain_hashes c2 ! j)"
  using assms
proof (induction h c1 c2 rule: FindCommonIndex_loop.induct)
  case (1 h c1 c2)
  let ?a = "chain_hashes c1" and ?b = "chain_hashes c2"
  have unfold: "FindCommonIndex_loop h c1 c2 =
      (if ?a ! unat h \<noteq> ?b ! unat h then (if h = 0 then Inl UNDEFINED_BEHAVIOUR else FindCommonIndex_loop (h - 1) c1 c2)
       else Inr (BlockIndex_new (?a ! unat h) h))"
    using 1(4,5) by (subst FindCommonIndex_loop.simps) (simp add: chain_get(1) [OF 1(2)] chain_get(1) [OF 1(3)])
  show ?case
  proof (cases "?a ! unat h = ?b ! unat h")
    case True
    then show ?thesis using unfold by (intro exI [of _ h]) simp
  next
    case False
    then have h: "h \<noteq> 0" using 1(6) by auto
    then have pred: "unat (h - 1) = unat h - 1" by (simp add: unat_minus_one)
    have "\<exists>k. FindCommonIndex_loop (h - 1) c1 c2 = Inr (BlockIndex_new (?a ! unat k) k) \<and> k \<le> h - 1 \<and>
        ?a ! unat k = ?b ! unat k \<and> (\<forall>j. unat k < j \<longrightarrow> j \<le> unat (h - 1) \<longrightarrow> ?a ! j \<noteq> ?b ! j)"
      using 1(4,5) False h
      by (intro 1(1) [OF refl]) (auto simp: chain_get(1) [OF 1(2)] chain_get(1) [OF 1(3)] pred 1(2,3,6))
    then obtain k where k: "FindCommonIndex_loop (h - 1) c1 c2 = Inr (BlockIndex_new (?a ! unat k) k)" "k \<le> h - 1"
      "?a ! unat k = ?b ! unat k" "\<And>j. unat k < j \<Longrightarrow> j \<le> unat (h - 1) \<Longrightarrow> ?a ! j \<noteq> ?b ! j" by blast
    have "?a ! j \<noteq> ?b ! j" if "unat k < j" "j \<le> unat h" for j
      using that False k(4) [of j] pred by (cases "j = unat h") auto
    moreover have "k \<le> h" using k(2) pred h by (simp add: word_le_nat_alt)
    ultimately show ?thesis using unfold False h k(1,3) by (intro exI [of _ k]) simp
  qed
qed

text \<open>Chains of hashes of linked headers: where two of them agree, they agree below.\<close>

definition linked :: "'a list \<Rightarrow> 'a list \<Rightarrow> bool" where
  "linked xs ys \<longleftrightarrow> (\<forall>i. i < length xs \<longrightarrow> i < length ys \<longrightarrow> xs ! i = ys ! i \<longrightarrow> take i xs = take i ys)"

definition chain_of :: "EChainType \<Rightarrow> chain_store \<Rightarrow> chain" where
  "chain_of t cs = (if t = CONFIRMED then cs_confirmed cs else cs_candidate cs)"

definition put_chain :: "EChainType \<Rightarrow> chain \<Rightarrow> chain_store \<Rightarrow> chain_store" where
  "put_chain t c cs = (if t = CONFIRMED then cs\<lparr>cs_confirmed := c\<rparr> else cs\<lparr>cs_candidate := c\<rparr>)"

lemma chain_of_put [simp]:
  "chain_of t (put_chain t c cs) = c"
  "s \<noteq> SYNC \<Longrightarrow> t \<noteq> SYNC \<Longrightarrow> s \<noteq> t \<Longrightarrow> chain_of s (put_chain t c cs) = chain_of s cs"
  "put_chain t c (put_chain t d cs) = put_chain t c cs"
  "put_chain t (chain_of t cs) cs = cs"
  by (cases s; cases t; simp add: chain_of_def put_chain_def)+

lemma GetChain_of [simp]: "t \<noteq> SYNC \<Longrightarrow> GetChain t cs = Inr (chain_of t cs)"
  by (cases t) (simp_all add: GetChain_def chain_of_def)

lemma on_chain_of: "t \<noteq> SYNC \<Longrightarrow> on_chain t m cs = (fst (m (chain_of t cs)), put_chain t (snd (m (chain_of t cs))) cs)"
  by (cases t) (simp_all add: on_chain_def chain_of_def put_chain_def zoom_action_eq)

lemma chain_hash_lengths: "chain_ok c \<Longrightarrow> i < length (chain_hashes c) \<Longrightarrow> length (chain_hashes c ! i) = 32"
  using blocks_lengths [of 32 "file_contents (d_file (ch_dataFile c))"]
  by (simp add: chain_hashes_def df_working_def list_all_length)

lemma chain_fits: "chain_ok c \<Longrightarrow> length (chain_hashes c) * 32 < 2 ^ 64"
  using df_ok_contents_dvd [of 32 "ch_dataFile c"]
  by (simp add: chain_ok_def df_ok_def file_ok_def chain_hashes_def df_working_def length_blocks)

lemma copy_block_correct:
  assumes t: "s \<noteq> SYNC" "d \<noteq> SYNC" "s \<noteq> d" and ok: "chain_ok (chain_of s cs)" "chain_ok (chain_of d cs)"
    and i: "chain_hashes (chain_of d cs) = take i (chain_hashes (chain_of s cs))" "i < length (chain_hashes (chain_of s cs))"
  shows "\<exists>c. copy_block s d (of_nat i) cs = (Inr (), put_chain d c cs) \<and> chain_ok c \<and>
    chain_hashes c = take (Suc i) (chain_hashes (chain_of s cs)) \<and> chain_durable c = chain_durable (chain_of d cs)"
proof -
  let ?S = "chain_hashes (chain_of s cs)" and ?d = "chain_of d cs"
  have small: "length ?S < 2 ^ 64" by (rule chain_height_small [OF ok(1)])
  then have ui: "unat (of_nat i :: u64) = i" using i(2) by (simp add: unat_of_nat_small)
  have len: "length (chain_hashes ?d) = i" using i by simp
  have "unat (ch_height ?d) + 1 = i" using ok(2) len by (simp add: chain_ok_def)
  then have "of_nat (unat (ch_height ?d) + 1) = (of_nat i :: u64)" by simp
  then have h: "of_nat i = ch_height ?d + 1" by (simp add: add.commute)
  have room: "chain_room (Suc 0) ?d"
    using chain_fits [OF ok(1)] i(2) by (simp add: chain_room_def len)
  have hash: "Chain_GetHash (of_nat i) (chain_of s cs) = Inr (?S ! i)"
    using i(2) ui by (simp add: chain_get(2) [OF ok(1)])
  note add = chain_add [OF ok(2) room chain_hash_lengths [OF ok(1) i(2)]]
  let ?c = "snd (Chain_AddBlock (?S ! i) (of_nat i) ?d)"
  have "copy_block s d (of_nat i) cs = (Inr (), put_chain d ?c cs)"
    using t hash add(1) by (simp add: copy_block_def action_simps on_chain_of h bind_action_def)
  moreover have "chain_hashes ?c = take (Suc i) ?S"
    using add(3) i by (simp add: h take_Suc_conv_app_nth)
  ultimately show ?thesis using add(2,4) by (auto simp: h)
qed

lemma copy_blocks_correct:
  assumes t: "s \<noteq> SYNC" "d \<noteq> SYNC" "s \<noteq> d" and ok: "chain_ok (chain_of s cs)" "chain_ok (chain_of d cs)"
    and i: "chain_hashes (chain_of d cs) = take i (chain_hashes (chain_of s cs))" "i \<le> n"
    and n: "n \<le> length (chain_hashes (chain_of s cs))"
  shows "\<exists>c. for_action (copy_block s d) (map of_nat [i..<n]) cs = (Inr (), put_chain d c cs) \<and> chain_ok c \<and>
    chain_hashes c = take n (chain_hashes (chain_of s cs)) \<and> chain_durable c = chain_durable (chain_of d cs)"
  using ok(2) i ok(1) n
proof (induction "n - i" arbitrary: i cs)
  case 0
  then show ?case by (intro exI [of _ "chain_of d cs"]) (auto simp: action_simps)
next
  case (Suc k)
  then have "i < n" and diff: "k = n - Suc i" by simp_all
  obtain c where c: "copy_block s d (of_nat i) cs = (Inr (), put_chain d c cs)" "chain_ok c"
    "chain_hashes c = take (Suc i) (chain_hashes (chain_of s cs))" "chain_durable c = chain_durable (chain_of d cs)"
    using copy_block_correct [OF t Suc.prems(4,1,2)] \<open>i < n\<close> Suc.prems(5) by auto
  obtain c' where "for_action (copy_block s d) (map of_nat [Suc i..<n]) (put_chain d c cs) = (Inr (), put_chain d c' cs)"
    "chain_ok c'" "chain_hashes c' = take n (chain_hashes (chain_of s cs))" "chain_durable c' = chain_durable (chain_of d cs)"
    using Suc.hyps(1) [of "Suc i" "put_chain d c cs"] diff Suc.prems(4,5) \<open>i < n\<close> c t by auto
  then show ?case using c(1) \<open>i < n\<close> by (auto simp: upt_conv_Cons bind_action_def)
qed

lemma linked_take:
  assumes "linked xs ys" and "k < length xs" "k < length ys" "xs ! k = ys ! k" and "n \<le> Suc k"
  shows "take n xs = take n ys"
proof -
  have "take (Suc k) xs = take (Suc k) ys" using assms by (auto simp: linked_def take_Suc_conv_app_nth)
  then have "take n (take (Suc k) xs) = take n (take (Suc k) ys)" by simp
  then show ?thesis using assms(5) by (simp add: min_def)
qed

text \<open>One source, one destination, and the index \<open>FindCommonIndex\<close> returns.\<close>

lemma FindCommonIndex_correct:
  assumes t: "s \<noteq> SYNC" "d \<noteq> SYNC" and ok: "chain_ok (chain_of s cs)" "chain_ok (chain_of d cs)"
    and genesis: "chain_hashes (chain_of s cs) ! 0 = chain_hashes (chain_of d cs) ! 0"
  shows "\<exists>k. FindCommonIndex s d cs = Inr (BlockIndex_new (chain_hashes (chain_of s cs) ! unat k) k) \<and>
    unat k < length (chain_hashes (chain_of s cs)) \<and> unat k < length (chain_hashes (chain_of d cs)) \<and>
    chain_hashes (chain_of s cs) ! unat k = chain_hashes (chain_of d cs) ! unat k \<and>
    (\<forall>j. unat k < j \<longrightarrow> j < length (chain_hashes (chain_of s cs)) \<longrightarrow> j < length (chain_hashes (chain_of d cs)) \<longrightarrow>
         chain_hashes (chain_of s cs) ! j \<noteq> chain_hashes (chain_of d cs) ! j)"
proof -
  let ?s = "chain_of s cs" and ?d = "chain_of d cs"
  let ?h = "min (ch_height ?s) (ch_height ?d)"
  have le: "?h \<le> ch_height ?s" "?h \<le> ch_height ?d" by simp_all
  have range: "unat ?h < length (chain_hashes ?s)" "unat ?h < length (chain_hashes ?d)"
    using le chain_in_range [OF ok(1), of ?h] chain_in_range [OF ok(2), of ?h] by blast+
  have top: "j \<le> unat ?h" if "j < length (chain_hashes ?s)" "j < length (chain_hashes ?d)" for j
    using that chain_height [OF ok(1)] chain_height [OF ok(2)] by (auto simp: min_def)
  obtain k where k: "FindCommonIndex_loop ?h ?s ?d = Inr (BlockIndex_new (chain_hashes ?s ! unat k) k)" "k \<le> ?h"
    "chain_hashes ?s ! unat k = chain_hashes ?d ! unat k"
    "\<forall>j. unat k < j \<longrightarrow> j \<le> unat ?h \<longrightarrow> chain_hashes ?s ! j \<noteq> chain_hashes ?d ! j"
    using FindCommonIndex_loop_correct [OF ok range genesis] by blast
  have "unat k \<le> unat ?h" using k(2) by (simp add: word_le_nat_alt)
  then show ?thesis using k(1,3,4) range t top
    by (intro exI [of _ k]) (auto simp: FindCommonIndex_def bind_result_def)
qed

lemma ReorgChain_beyond_tip:
  assumes "s \<noteq> SYNC" "d \<noteq> SYNC" and "ch_height (chain_of s cs) < height"
  shows "ReorgChain s d height cs = (Inl BLOCK_CHAIN_EXCEPTION, cs)"
  using assms by (simp add: ReorgChain_def action_simps)

lemma ReorgChain_correct:
  assumes t: "s \<noteq> SYNC" "d \<noteq> SYNC" "s \<noteq> d" and ok: "chain_ok (chain_of s cs)" "chain_ok (chain_of d cs)"
    and genesis: "chain_hashes (chain_of s cs) ! 0 = chain_hashes (chain_of d cs) ! 0"
    and linked: "linked (chain_hashes (chain_of s cs)) (chain_hashes (chain_of d cs))"
    and height: "height \<le> ch_height (chain_of s cs)"
  shows "\<exists>c. ReorgChain s d height cs = (Inr (), put_chain d c cs) \<and> chain_ok c \<and>
    chain_hashes c = take (unat height + 1) (chain_hashes (chain_of s cs)) \<and> chain_durable c = chain_durable (chain_of d cs)"
proof -
  let ?s = "chain_of s cs" and ?d = "chain_of d cs"
  let ?S = "chain_hashes ?s" and ?D = "chain_hashes ?d"
  obtain k where k: "FindCommonIndex s d cs = Inr (BlockIndex_new (?S ! unat k) k)" "unat k < length ?S" "unat k < length ?D"
    "?S ! unat k = ?D ! unat k"
    using FindCommonIndex_correct [OF t(1,2) ok genesis] by blast
  let ?m = "min k height"
  have m: "unat ?m \<le> unat k" "unat ?m \<le> unat height" by (simp_all add: word_le_nat_alt [symmetric])
  have top: "unat height < length ?S" using height chain_in_range [OF ok(1)] by blast
  have "unat ?m < length ?D" using m k by simp
  note rw = chain_rewind [OF ok(2) this]
  let ?c = "snd (Chain_Rewind ?m ?d)"
  have same: "chain_hashes ?c = take (Suc (unat ?m)) ?S"
    using rw(3) linked_take [OF linked k(2,3,4), of "Suc (unat ?m)"] m by simp
  have "unat height < 2 ^ 64 - 1" using top chain_height_small [OF ok(1)] by linarith
  then have m1: "unat (?m + 1) = Suc (unat ?m)" using m by (simp add: unat_word_ariths)
  have "\<exists>c. for_action (copy_block s d) (map of_nat [Suc (unat ?m)..<Suc (unat height)]) (put_chain d ?c cs) =
        (Inr (), put_chain d c (put_chain d ?c cs)) \<and> chain_ok c \<and>
      chain_hashes c = take (Suc (unat height)) (chain_hashes (chain_of s (put_chain d ?c cs))) \<and>
      chain_durable c = chain_durable (chain_of d (put_chain d ?c cs))"
    using t ok rw(2) same m(2) top by (intro copy_blocks_correct) simp_all
  then show ?thesis
    using t k(1) height rw(1,4) by (auto simp: ReorgChain_def action_simps on_chain_of heights_upto_def m1 Let_def bind_action_def)
qed

section \<open>Loading\<close>

lemma df_load:
  assumes "32 dvd length disk" and "length disk < 2 ^ 64"
  shows "df_ok 32 (DataFile_Load disk)" and "df_working 32 (DataFile_Load disk) = blocks 32 disk"
    and "df_durable 32 (DataFile_Load disk) = blocks 32 disk" and "\<not> d_dirty (DataFile_Load disk)"
  using assms
  by (simp_all add: df_ok_def df_working_def df_durable_def DataFile_Load_def AppendOnlyFile_Load_def file_ok_def
      file_contents_def unat_of_nat_small)

lemma read_indices_genesis:
  assumes "df_ok 32 f" and "df_working 32 f \<noteq> []" and "g = BlockIndex_new (hd (df_working 32 f)) 0"
  shows "read_indices f [g] = Inr (index_list (df_working 32 f))"
  using assms by (intro read_indices_correct) (auto simp: index_list_def take_Suc hd_conv_nth Suc_le_eq)

text \<open>The hashes of a chain that was just loaded: those of the file, or the genesis hash when the file
  is new.\<close>

definition loaded_hashes :: "u8 list \<Rightarrow> big_integer \<Rightarrow> big_integer list" where
  "loaded_hashes disk genesis = (if disk = [] then [genesis] else blocks 32 disk)"

lemma Chain_Load_correct:
  assumes disk: "32 dvd length disk" "length disk < 2 ^ 64" and g: "length genesis = 32"
    and first: "disk \<noteq> [] \<longrightarrow> take 32 disk = genesis"
  shows "\<exists>c. Chain_Load True True disk (BlockIndex_new genesis 0) = Inr c \<and> chain_idle c \<and>
    chain_hashes c = loaded_hashes disk genesis"
proof -
  let ?g = "BlockIndex_new genesis 0"
  note load = df_load [OF disk]
  have finish: "\<exists>c. bind_result (read_indices f [?g]) (\<lambda>indices.
        Inr \<lparr>ch_dirty = False, ch_indices = indices, ch_height = of_nat (length indices) - 1, ch_dataFile = f\<rparr>) = Inr c \<and>
      chain_idle c \<and> chain_hashes c = df_working 32 f"
    if f: "df_ok 32 f" "df_working 32 f \<noteq> []" "hd (df_working 32 f) = genesis" "df_durable 32 f = df_working 32 f" for f
  proof -
    have "length (df_working 32 f) < 2 ^ 64"
      using df_size [OF f(1)] unsigned_less [of "DataFile_GetSize 32 f", where ?'a = nat] by simp
    then have "unat (of_nat (length (df_working 32 f)) - 1 :: u64) + 1 = length (df_working 32 f)"
      using f(2) by (cases "length (df_working 32 f)") (simp_all add: unat_of_nat_small)
    then show ?thesis using f read_indices_genesis [OF f(1,2), of ?g]
      by (simp add: bind_result_def chain_idle_def chain_ok_def chain_hashes_def chain_durable_def)
  qed
  show ?thesis
  proof (cases "disk = []")
    case True
    let ?f = "DataFile_AddData genesis (DataFile_Load disk)"
    have add: "df_ok 32 ?f" "df_working 32 ?f = [genesis]"
      using df_add [OF load(1) _ g] load(2) True
      by (simp_all add: DataFile_Load_def AppendOnlyFile_Load_def file_contents_def)
    note cm = df_commit [OF add(1)]
    obtain f where f: "DataFile_Commit True True ?f = (Inr (), f)" using cm(1) by (cases "DataFile_Commit True True ?f") auto
    have "DataFile_GetSize 32 (DataFile_Load disk) = 0"
      using df_size [OF load(1)] load(2) True by (simp add: unat_eq_0)
    then show ?thesis
      using finish [of f] cm add(2) f True by (simp add: Chain_Load_def loaded_hashes_def bind_result_def)
  next
    case False
    then have ge: "32 \<le> length disk" using disk(1) by (auto dest: dvd_imp_le)
    then have ne: "blocks 32 disk \<noteq> []" "hd (blocks 32 disk) = genesis"
      using first False by (subst blocks.simps; simp)+
    have "unat (DataFile_GetSize 32 (DataFile_Load disk)) \<noteq> 0" using df_size [OF load(1)] load(2) ne by simp
    then have "DataFile_GetSize 32 (DataFile_Load disk) \<noteq> 0" by auto
    then show ?thesis
      using finish [of "DataFile_Load disk"] load ne False by (simp add: Chain_Load_def loaded_hashes_def bind_result_def Let_def)
  qed
qed

lemma ChainStore_Load_correct:
  assumes "32 dvd length d1" "length d1 < 2 ^ 64" "32 dvd length d2" "length d2 < 2 ^ 64" "length genesis = 32"
    and "d1 \<noteq> [] \<longrightarrow> take 32 d1 = genesis" "d2 \<noteq> [] \<longrightarrow> take 32 d2 = genesis"
  shows "\<exists>cs. ChainStore_Load True True d1 d2 (BlockIndex_new genesis 0) = Inr cs \<and> store_idle cs \<and>
    store_hashes cs = (loaded_hashes d1 genesis, loaded_hashes d2 genesis)"
  using Chain_Load_correct [OF assms(1,2,5,6)] Chain_Load_correct [OF assms(3,4,5,7)]
  by (auto simp: ChainStore_Load_def bind_result_def store_idle_def store_hashes_def)

section \<open>Orphans\<close>

definition pool_ok :: "orphan_pool \<Rightarrow> bool" where
  "pool_ok p \<longleftrightarrow>
     (\<forall>h bs. op_orphansByHeight p h = Some bs \<longrightarrow>
        bs \<noteq> [] \<and> distinct (map FullBlock_GetHash bs) \<and> (\<forall>b \<in> set bs. FullBlock_GetHeight b = h)) \<and>
     length (op_orphanHeadersByHash p) \<le> 64 \<and> distinct (map fst (op_orphanHeadersByHash p)) \<and>
     (\<forall>(hash, h) \<in> set (op_orphanHeadersByHash p). BlockHeader_GetHash h = hash)"

lemma set_remove_first: "set (remove_first P xs) \<subseteq> set xs"
  by (induction xs) auto

lemma remove_first_distinct:
  "distinct (map f xs) \<Longrightarrow> distinct (map f (remove_first P xs))"
  by (induction xs) (auto dest: subsetD [OF set_remove_first])

lemma remove_first_key:
  "distinct (map f xs) \<Longrightarrow> remove_first (\<lambda>x. f x = k) xs = filter (\<lambda>x. f x \<noteq> k) xs"
  by (induction xs) (auto simp: filter_id_conv image_iff intro!: filter_True [symmetric])

lemma lru_Put_ok:
  assumes "length cache \<le> n" "0 < n" "distinct (map fst cache)"
  shows "length (lru_Put n k v cache) \<le> n" and "distinct (map fst (lru_Put n k v cache))"
    and "set (lru_Put n k v cache) \<subseteq> insert (k, v) (set cache)"
proof -
  have fewer: "length (filter (\<lambda>(k', _). k' \<noteq> k) cache) < length cache" if "map_of cache k \<noteq> None"
  proof -
    obtain v' where "(k, v') \<in> set cache" using \<open>map_of cache k \<noteq> None\<close> by (auto simp: map_of_eq_None_iff)
    then show ?thesis by (rule length_filter_less) simp
  qed
  show "length (lru_Put n k v cache) \<le> n"
  proof (cases "map_of cache k")
    case None
    then show ?thesis using assms by (auto simp: lru_Put_def)
  next
    case (Some v')
    then show ?thesis using assms(1) fewer by (simp add: lru_Put_def)
  qed
  have "k \<notin> set (map fst cache) \<Longrightarrow> k \<notin> fst ` set (butlast cache)" by (auto dest: in_set_butlastD)
  then show "distinct (map fst (lru_Put n k v cache))"
    using assms(3) by (auto simp: lru_Put_def map_of_eq_None_iff distinct_map_filter map_butlast distinct_butlast)
  show "set (lru_Put n k v cache) \<subseteq> insert (k, v) (set cache)"
    by (auto simp: lru_Put_def dest: in_set_butlastD)
qed

lemma lru_Get_ok:
  assumes "distinct (map fst cache)"
  shows "length (snd (lru_Get k cache)) = length cache" and "distinct (map fst (snd (lru_Get k cache)))"
    and "set (snd (lru_Get k cache)) = set cache"
proof -
  have "set ((k, v) # filter (\<lambda>(k', _). k' \<noteq> k) cache) = set cache \<and>
      length ((k, v) # filter (\<lambda>(k', _). k' \<noteq> k) cache) = length cache" if "map_of cache k = Some v" for v
    using that assms
  proof (induction cache)
    case (Cons a cache)
    show ?case
    proof (cases "fst a = k")
      case True
      then have "filter (\<lambda>(k', _). k' \<noteq> k) cache = cache"
        using Cons.prems(2) by (intro filter_True) (auto simp: image_iff)
      then show ?thesis using True Cons.prems by (cases a) simp
    next
      case False
      then show ?thesis using Cons by (cases a) auto
    qed
  qed simp
  then show "length (snd (lru_Get k cache)) = length cache" and "set (snd (lru_Get k cache)) = set cache"
    by (simp_all add: lru_Get_def split: option.splits)
  show "distinct (map fst (snd (lru_Get k cache)))"
    using assms by (auto simp: lru_Get_def distinct_map_filter split: option.splits)
qed

lemma pool_ok_new: "pool_ok OrphanPool_new"
  by (simp add: pool_ok_def OrphanPool_new_def)

lemma pool_ok_header: "pool_ok p \<Longrightarrow> pool_ok (AddOrphanHeader h p)"
  using lru_Put_ok [of "op_orphanHeadersByHash p" 64 "BlockHeader_GetHash h" h]
  by (auto simp: pool_ok_def AddOrphanHeader_def)

lemma pool_ok_get_header: "pool_ok p \<Longrightarrow> pool_ok (snd (GetOrphanHeader hash p))"
  using lru_Get_ok [of "op_orphanHeadersByHash p" hash]
  by (auto simp: pool_ok_def GetOrphanHeader_def case_prod_unfold)

lemma AddOrphanBlock_eq:
  "AddOrphanBlock b p =
     (let p' = (if map_of (op_orphanHeadersByHash p) (FullBlock_GetHash b) = None then AddOrphanHeader (fb_header b) p else p)
      in if IsOrphan (FullBlock_GetHeight b) (FullBlock_GetHash b) p then p'
         else p'\<lparr>op_orphansByHeight :=
                (op_orphansByHeight p)(FullBlock_GetHeight b \<mapsto> orphans_at (FullBlock_GetHeight b) p @ [b])\<rparr>)"
  by (cases "map_of (op_orphanHeadersByHash p) (FullBlock_GetHash b)";
      cases "op_orphansByHeight p (FullBlock_GetHeight b)")
    (simp_all add: AddOrphanBlock_def AddOrphanHeader_def FullBlock_GetHash_def [symmetric] IsOrphan_def orphans_at_def Let_def)

lemma pool_ok_update:
  assumes "pool_ok p" and "distinct (map FullBlock_GetHash bs)" and "\<forall>b \<in> set bs. FullBlock_GetHeight b = h"
  shows "pool_ok (p\<lparr>op_orphansByHeight := (op_orphansByHeight p)(h := if bs = [] then None else Some bs)\<rparr>)"
  using assms by (simp add: pool_ok_def)

lemma pool_ok_at:
  "pool_ok p \<Longrightarrow> distinct (map FullBlock_GetHash (orphans_at h p)) \<and> (\<forall>b \<in> set (orphans_at h p). FullBlock_GetHeight b = h)"
  by (auto simp: pool_ok_def orphans_at_def split: option.splits)

lemma pool_ok_add:
  assumes "pool_ok p" shows "pool_ok (AddOrphanBlock b p)"
proof -
  define p' where "p' = (if map_of (op_orphanHeadersByHash p) (FullBlock_GetHash b) = None then AddOrphanHeader (fb_header b) p else p)"
  have p': "pool_ok p'" "op_orphansByHeight p' = op_orphansByHeight p"
    using assms by (simp_all add: p'_def pool_ok_header) (simp add: AddOrphanHeader_def)
  let ?bs = "orphans_at (FullBlock_GetHeight b) p @ [b]"
  have "pool_ok (p'\<lparr>op_orphansByHeight := (op_orphansByHeight p')(FullBlock_GetHeight b := if ?bs = [] then None else Some ?bs)\<rparr>)"
    if "\<not> IsOrphan (FullBlock_GetHeight b) (FullBlock_GetHash b) p"
    using that pool_ok_at [OF assms, of "FullBlock_GetHeight b"] p'(1)
    by (intro pool_ok_update) (auto simp: IsOrphan_def list_ex_iff)
  then show ?thesis
    using p' unfolding AddOrphanBlock_eq p'_def [symmetric] Let_def by simp
qed

lemma pool_ok_remove:
  assumes "pool_ok p" shows "pool_ok (RemoveOrphan height hash p)"
proof (cases "op_orphansByHeight p height")
  case (Some bs)
  then have at: "orphans_at height p = bs" by (simp add: orphans_at_def)
  have "pool_ok (p\<lparr>op_orphansByHeight := (op_orphansByHeight p)(height :=
      let r = remove_first (\<lambda>b. FullBlock_GetHash b = hash) bs in if r = [] then None else Some r)\<rparr>)"
    using pool_ok_at [OF assms, of height] set_remove_first [of "\<lambda>b. FullBlock_GetHash b = hash" bs] assms
    unfolding at Let_def by (intro pool_ok_update) (auto intro: remove_first_distinct)
  then show ?thesis using Some by (simp add: RemoveOrphan_def Let_def)
qed (use assms in \<open>simp add: RemoveOrphan_def\<close>)

lemma orphans_at_add:
  "orphans_at h (AddOrphanBlock b p) = (if h = FullBlock_GetHeight b \<and> \<not> IsOrphan h (FullBlock_GetHash b) p
     then orphans_at h p @ [b] else orphans_at h p)"
  by (auto simp: AddOrphanBlock_eq Let_def orphans_at_def AddOrphanHeader_def)

lemma orphans_at_remove:
  assumes "pool_ok p"
  shows "orphans_at h (RemoveOrphan height hash p) =
    (if h = height then filter (\<lambda>b. FullBlock_GetHash b \<noteq> hash) (orphans_at h p) else orphans_at h p)"
proof (cases "op_orphansByHeight p height")
  case (Some bs)
  then have "remove_first (\<lambda>b. FullBlock_GetHash b = hash) bs = filter (\<lambda>b. FullBlock_GetHash b \<noteq> hash) bs"
    using assms by (intro remove_first_key) (simp add: pool_ok_def)
  then show ?thesis using Some by (auto simp: orphans_at_def RemoveOrphan_def Let_def)
qed (simp add: RemoveOrphan_def orphans_at_def)

section \<open>A loaded store\<close>

text \<open>Two chains that fork after the genesis block.\<close>

definition sample_genesis :: big_integer where
  "sample_genesis = replicate 32 0"

definition sample_store :: chain_store where
  "sample_store =
     (case ChainStore_Load True True (sample_genesis @ replicate 32 1) (sample_genesis @ replicate 32 2 @ replicate 32 3)
             (BlockIndex_new sample_genesis 0) of
        Inr cs \<Rightarrow> cs)"

lemma blocks_Cons: "length b = 32 \<Longrightarrow> blocks 32 (b @ xs) = b # blocks 32 xs"
  by (subst blocks.simps) simp

lemma blocks_one: "length b = 32 \<Longrightarrow> blocks 32 b = [b]"
  using blocks_Cons [of b "[]"] by simp

lemma sample_store_loaded:
  "store_idle sample_store"
  "chain_hashes (cs_confirmed sample_store) = [sample_genesis, replicate 32 1]"
  "chain_hashes (cs_candidate sample_store) = [sample_genesis, replicate 32 2, replicate 32 3]"
proof -
  let ?d1 = "sample_genesis @ replicate 32 1" and ?d2 = "sample_genesis @ replicate 32 2 @ replicate 32 3"
  have "\<exists>cs. ChainStore_Load True True ?d1 ?d2 (BlockIndex_new sample_genesis 0) = Inr cs \<and> store_idle cs \<and>
      store_hashes cs = (loaded_hashes ?d1 sample_genesis, loaded_hashes ?d2 sample_genesis)"
    by (rule ChainStore_Load_correct) (simp_all add: sample_genesis_def)
  then obtain cs where cs: "sample_store = cs" "store_idle cs"
    "store_hashes cs = (loaded_hashes ?d1 sample_genesis, loaded_hashes ?d2 sample_genesis)"
    by (auto simp: sample_store_def)
  have "length sample_genesis = 32" by (simp add: sample_genesis_def)
  then have "loaded_hashes ?d1 sample_genesis = [sample_genesis, replicate 32 1]"
    "loaded_hashes ?d2 sample_genesis = [sample_genesis, replicate 32 2, replicate 32 3]"
    by (simp_all add: loaded_hashes_def blocks_Cons blocks_one)
  then show "store_idle sample_store"
    "chain_hashes (cs_confirmed sample_store) = [sample_genesis, replicate 32 1]"
    "chain_hashes (cs_candidate sample_store) = [sample_genesis, replicate 32 2, replicate 32 3]"
    using cs by (simp_all add: store_hashes_def)
qed

lemma sample_store_chains:
  "chain_ok (chain_of CANDIDATE sample_store)" "chain_ok (chain_of CONFIRMED sample_store)"
  "chain_hashes (chain_of CONFIRMED sample_store) = [sample_genesis, replicate 32 1]"
  "chain_hashes (chain_of CANDIDATE sample_store) = [sample_genesis, replicate 32 2, replicate 32 3]"
  using sample_store_loaded by (simp_all add: chain_of_def store_idle_def chain_idle_def)

section \<open>Properties of the chains\<close>

text \<open>C39. The search for the common block of two chains returns, for any two chains that start at the same
  genesis block, and what it returns is the highest block on which they agree: above it, as far as
  both chains reach, all hashes differ.\<close>

theorem FindCommonIndex_highest:
  assumes "s \<noteq> SYNC" "d \<noteq> SYNC" and "chain_ok (chain_of s cs)" "chain_ok (chain_of d cs)"
    and "chain_hashes (chain_of s cs) ! 0 = chain_hashes (chain_of d cs) ! 0"
  shows "\<exists>k. FindCommonIndex s d cs = Inr (BlockIndex_new (chain_hashes (chain_of s cs) ! unat k) k) \<and>
    unat k < length (chain_hashes (chain_of s cs)) \<and> unat k < length (chain_hashes (chain_of d cs)) \<and>
    chain_hashes (chain_of s cs) ! unat k = chain_hashes (chain_of d cs) ! unat k \<and>
    (\<forall>j. unat k < j \<longrightarrow> j < length (chain_hashes (chain_of s cs)) \<longrightarrow> j < length (chain_hashes (chain_of d cs)) \<longrightarrow>
         chain_hashes (chain_of s cs) ! j \<noteq> chain_hashes (chain_of d cs) ! j)"
  by (rule FindCommonIndex_correct [OF assms])

theorem FindCommonIndex_highest_witness:
  "FindCommonIndex CANDIDATE CONFIRMED sample_store = Inr (BlockIndex_new sample_genesis 0)"
proof -
  obtain k where k: "FindCommonIndex CANDIDATE CONFIRMED sample_store =
      Inr (BlockIndex_new (chain_hashes (chain_of CANDIDATE sample_store) ! unat k) k)"
    "unat k < 2" "chain_hashes (chain_of CANDIDATE sample_store) ! unat k = chain_hashes (chain_of CONFIRMED sample_store) ! unat k"
    using FindCommonIndex_highest [of CANDIDATE CONFIRMED sample_store] sample_store_chains by auto
  then have "unat k = 0" using sample_store_chains by (cases "unat k") (auto simp: less_Suc_eq)
  then show ?thesis using k sample_store_chains by (simp add: unat_eq_0)
qed

text \<open>C38. A reorganisation inside a batch of the chain store makes the destination the source up to the given
  height, whatever fork it was on, and leaves the source alone. A commit then puts exactly that on
  disk, and a rollback returns both chains to what is on disk. (Where two chains agree they agree below:
  a header hash binds its ancestors.)\<close>

theorem ReorgChain_switches_fork:
  assumes "s \<noteq> SYNC" "d \<noteq> SYNC" "s \<noteq> d" and ok: "store_ok cs" and "cs_dirty cs"
    and "chain_hashes (chain_of s cs) ! 0 = chain_hashes (chain_of d cs) ! 0"
    and "linked (chain_hashes (chain_of s cs)) (chain_hashes (chain_of d cs))"
    and "height \<le> ch_height (chain_of s cs)"
  shows "\<exists>cs'. ReorgChain s d height cs = (Inr (), cs') \<and> store_ok cs' \<and>
    chain_hashes (chain_of d cs') = take (unat height + 1) (chain_hashes (chain_of s cs)) \<and>
    chain_of s cs' = chain_of s cs \<and>
    store_durable (snd (ChainStore_Commit True True cs')) = store_hashes cs' \<and>
    store_hashes (or_same ChainStore_Rollback cs') = store_durable cs"
proof -
  have chains: "chain_ok (chain_of s cs)" "chain_ok (chain_of d cs)" using ok by (simp_all add: store_ok_def chain_of_def)
  obtain c where c: "ReorgChain s d height cs = (Inr (), put_chain d c cs)" "chain_ok c"
    "chain_hashes c = take (unat height + 1) (chain_hashes (chain_of s cs))" "chain_durable c = chain_durable (chain_of d cs)"
    using ReorgChain_correct [OF assms(1-3) chains assms(6-8)] by blast
  have "store_ok (put_chain d c cs)" and "store_durable (put_chain d c cs) = store_durable cs"
    using assms(2,5) ok c(2,4) by (auto simp: store_ok_def store_durable_def put_chain_def chain_of_def split: if_splits)
  then show ?thesis
    using c assms(1-3) store_writer.commit_durable [of "put_chain d c cs"] store_writer.rollback_working [of "put_chain d c cs"]
    by (intro exI [of _ "put_chain d c cs"]) simp
qed

theorem ReorgChain_switches_fork_witness:
  "\<exists>cs'. ReorgChain CANDIDATE CONFIRMED 2 (InnerWriter_new ChainStore_OnInitWrite ChainStore_SetDirty sample_store) = (Inr (), cs') \<and>
    chain_hashes (cs_confirmed cs') = [sample_genesis, replicate 32 2, replicate 32 3] \<and>
    fst (store_durable (snd (ChainStore_Commit True True cs'))) = [sample_genesis, replicate 32 2, replicate 32 3]"
proof -
  let ?cs = "InnerWriter_new ChainStore_OnInitWrite ChainStore_SetDirty sample_store"
  have ok: "store_ok ?cs" and du: "store_hashes ?cs = store_durable sample_store" "store_durable ?cs = store_durable sample_store"
    using store_writer.begin_inv store_writer.begin_working store_writer.begin_durable sample_store_loaded(1)
    by (simp_all add: InnerWriter_new_def)
  have same: "store_hashes ?cs = store_hashes sample_store"
    using du(1) sample_store_loaded(1) by (simp add: store_hashes_def store_durable_def store_idle_def chain_idle_def)
  have hs: "chain_hashes (chain_of CONFIRMED ?cs) = [sample_genesis, replicate 32 1]"
    "chain_hashes (chain_of CANDIDATE ?cs) = [sample_genesis, replicate 32 2, replicate 32 3]"
    using same sample_store_loaded(2,3) by (simp_all add: store_hashes_def chain_of_def)
  have dirty: "cs_dirty ?cs"
    by (simp add: InnerWriter_new_def ChainStore_OnInitWrite_def ChainStore_SetDirty_def)
  have "chain_ok (chain_of CANDIDATE ?cs)" using ok by (simp add: store_ok_def chain_of_def)
  then have h: "2 \<le> ch_height (chain_of CANDIDATE ?cs)"
    using chain_in_range [of "chain_of CANDIDATE ?cs" 2] hs by simp
  have l: "linked (chain_hashes (chain_of CANDIDATE ?cs)) (chain_hashes (chain_of CONFIRMED ?cs))"
    unfolding hs linked_def by (auto simp: less_Suc_eq numeral_2_eq_2 numeral_3_eq_3)
  obtain cs' where "ReorgChain CANDIDATE CONFIRMED 2 ?cs = (Inr (), cs')"
    "chain_hashes (chain_of CONFIRMED cs') = take (unat (2 :: u64) + 1) (chain_hashes (chain_of CANDIDATE ?cs))"
    "store_durable (snd (ChainStore_Commit True True cs')) = store_hashes cs'"
    using ReorgChain_switches_fork [of CANDIDATE CONFIRMED ?cs 2] ok dirty hs h l by auto
  then show ?thesis using hs by (auto simp: store_hashes_def chain_of_def)
qed

text \<open>C40. The orphan pool stays well formed under every operation: no height is kept without blocks, the blocks of a
  height have that height and distinct hashes, and the header cache keeps at most 64 headers under their
  own hashes. A block that was added is found, a block that was removed is not, and neither changes what the
  pool answers about other blocks.\<close>

theorem OrphanPool_well_formed:
  assumes "pool_ok p"
  shows "pool_ok (AddOrphanBlock b p) \<and> pool_ok (RemoveOrphan height hash p) \<and>
    pool_ok (AddOrphanHeader header p) \<and> pool_ok (snd (GetOrphanHeader hash p)) \<and>
    (IsOrphan h k (AddOrphanBlock b p) \<longleftrightarrow> IsOrphan h k p \<or> h = FullBlock_GetHeight b \<and> k = FullBlock_GetHash b) \<and>
    (IsOrphan h k (RemoveOrphan height hash p) \<longleftrightarrow> IsOrphan h k p \<and> (h \<noteq> height \<or> k \<noteq> hash))"
proof -
  have "IsOrphan h k (AddOrphanBlock b p) \<longleftrightarrow> IsOrphan h k p \<or> h = FullBlock_GetHeight b \<and> k = FullBlock_GetHash b"
    by (auto simp: IsOrphan_def orphans_at_add list_ex_iff split: if_splits)
  moreover have "IsOrphan h k (RemoveOrphan height hash p) \<longleftrightarrow> IsOrphan h k p \<and> (h \<noteq> height \<or> k \<noteq> hash)"
    using assms by (auto simp: IsOrphan_def orphans_at_remove list_ex_iff split: if_splits)
  ultimately show ?thesis using assms by (simp add: pool_ok_add pool_ok_remove pool_ok_header pool_ok_get_header)
qed

theorem OrphanPool_well_formed_witness:
  "IsOrphan 5 (FullBlock_GetHash (FullBlock_new sample_header (tx_body sample_tx)))
     (AddOrphanBlock (FullBlock_new sample_header (tx_body sample_tx)) OrphanPool_new)"
  using OrphanPool_well_formed [OF pool_ok_new, of "FullBlock_new sample_header (tx_body sample_tx)" 0 "[]" sample_header 5
      "FullBlock_GetHash (FullBlock_new sample_header (tx_body sample_tx))"]
  by (simp add: FullBlock_GetHeight_def FullBlock_new_def sample_header_def)

end
