(* ===== verification/Tx_Hash_Set.thy ===== *)
theory Tx_Hash_Set
  imports MMR_Hash Validation Chains
begin

text \<open>
  The transaction hash set: \<^verbatim>\<open>KernelMMR\<close>, \<^verbatim>\<open>HeaderMMR\<close>, \<^verbatim>\<open>TxHashSet\<close>,
  \<^verbatim>\<open>TxHashSetValidator\<close> and \<^verbatim>\<open>TxHashSetManager\<close> (\<^verbatim>\<open>src/PMMR\<close>).

  The state of the chain is three Merkle mountain ranges, of the outputs, their range proofs and the
  kernels, and the positions of the outputs in the block database. The operations that change both act on the pair
  of the hash set and the database.
\<close>

section \<open>KernelMMR\<close>

definition KERNEL_SIZE :: nat where "KERNEL_SIZE = 114"

definition OUTPUT_SIZE :: nat where "OUTPUT_SIZE = 34"

definition RANGE_PROOF_SIZE :: nat where "RANGE_PROOF_SIZE = 683"

record kernel_mmr =
  km_hashFile :: data_file
  km_dataFile :: data_file

definition ApplyKernel :: "hash_fn \<Rightarrow> transaction_kernel \<Rightarrow> (kernel_mmr, unit) action" where
  "ApplyKernel H k m =
     (let bytes = GetBytes (TransactionKernel_Serialize k (Serializer_new V1));
          m = m\<lparr>km_dataFile := DataFile_AddData bytes (km_dataFile m)\<rparr>
      in case AddHashes H bytes None (km_hashFile m) of (r, hashFile) \<Rightarrow> (r, m\<lparr>km_hashFile := hashFile\<rparr>))"

definition KernelMMR_Load :: "hash_fn \<Rightarrow> u8 list \<Rightarrow> u8 list \<Rightarrow> full_block \<Rightarrow> kernel_mmr result" where
  "KernelMMR_Load H hashDisk dataDisk genesisBlock =
     (let m = \<lparr>km_hashFile = DataFile_Load hashDisk, km_dataFile = DataFile_Load dataDisk\<rparr>
      in if DataFile_GetSize 32 (km_hashFile m) = 0 then
           (case tb_kernels (fb_body genesisBlock) of
              [] \<Rightarrow> Inl UNDEFINED_BEHAVIOUR
            | k # _ \<Rightarrow> (case ApplyKernel H k m of (r, m) \<Rightarrow> bind_result r (\<lambda>_. Inr m)))
         else Inr m)"

definition KernelMMR_GetSize :: "kernel_mmr \<Rightarrow> u64" where
  "KernelMMR_GetSize m = DataFile_GetSize 32 (km_hashFile m)"

definition KernelMMR_GetHashAt :: "u64 \<Rightarrow> kernel_mmr \<Rightarrow> u8 list option result" where
  "KernelMMR_GetHashAt mmrIndex m = bind_result (DataFile_GetDataAt 32 mmrIndex (km_hashFile m)) (\<lambda>h. Inr (Some h))"

definition KernelMMR_Root :: "hash_fn \<Rightarrow> u64 \<Rightarrow> kernel_mmr \<Rightarrow> u8 list result" where
  "KernelMMR_Root H mmrSize m = MMRHashUtil_Root H (km_hashFile m) mmrSize None"

definition GetKernelAt :: "hash_fn \<Rightarrow> u64 \<Rightarrow> kernel_mmr \<Rightarrow> transaction_kernel option result" where
  "GetKernelAt H mmrIndex m =
     (if IsLeaf mmrIndex then
        let numLeaves = GetNumLeaves mmrIndex
        in bind_result (DataFile_GetDataAt KERNEL_SIZE (numLeaves - 1) (km_dataFile m)) (\<lambda>data.
             if length data = KERNEL_SIZE
             then bind_result (TransactionKernel_Deserialize H (ByteBuffer_new data V1)) (\<lambda>(k, _). Inr (Some k))
             else Inr None)
      else Inr None)"

definition KernelMMR_GetLastLeafHashes :: "u64 \<Rightarrow> kernel_mmr \<Rightarrow> u8 list list result" where
  "KernelMMR_GetLastLeafHashes numHashes m = GetLastLeafHashes (km_hashFile m) None None numHashes"

definition on_km_hashFile :: "(data_file, 'a) action \<Rightarrow> (kernel_mmr, 'a) action" where
  "on_km_hashFile = zoom_action km_hashFile (\<lambda>f. km_hashFile_update (\<lambda>_. f))"

definition on_km_dataFile :: "(data_file, 'a) action \<Rightarrow> (kernel_mmr, 'a) action" where
  "on_km_dataFile = zoom_action km_dataFile (\<lambda>f. km_dataFile_update (\<lambda>_. f))"

definition KernelMMR_Rewind :: "u64 \<Rightarrow> (kernel_mmr, bool) action" where
  "KernelMMR_Rewind mmrSize =
     bind_action (on_km_hashFile (DataFile_Rewind 32 mmrSize)) (\<lambda>_.
     bind_action (on_km_dataFile (DataFile_Rewind KERNEL_SIZE (GetNumLeaves (mmrSize - 1)))) (\<lambda>_. return_action True))"

definition KernelMMR_Commit :: "bool \<Rightarrow> bool \<Rightarrow> (kernel_mmr, unit) action" where
  "KernelMMR_Commit truncated opened =
     bind_action (on_km_hashFile (DataFile_Commit truncated opened)) (\<lambda>_.
       on_km_dataFile (DataFile_Commit truncated opened))"

definition KernelMMR_Rollback :: "kernel_mmr \<Rightarrow> kernel_mmr" where
  "KernelMMR_Rollback m =
     m\<lparr>km_hashFile := DataFile_Rollback (km_hashFile m), km_dataFile := DataFile_Rollback (km_dataFile m)\<rparr>"

section \<open>HeaderMMR\<close>

text \<open>\<open>hm_batch\<close> says whether a batch is open; its writer holds the hash file itself.\<close>

record header_mmr =
  hm_dirty :: bool
  hm_batch :: bool
  hm_hashFile :: data_file

definition HeaderMMR_Load :: "u8 list \<Rightarrow> header_mmr" where
  "HeaderMMR_Load disk = \<lparr>hm_dirty = False, hm_batch = False, hm_hashFile = DataFile_Load disk\<rparr>"

text \<open>Reading the writer of a batch that is not open throws \<^verbatim>\<open>std::bad_optional_access\<close>.\<close>

definition HeaderMMR_Commit :: "bool \<Rightarrow> bool \<Rightarrow> (header_mmr, unit) action" where
  "HeaderMMR_Commit truncated opened m =
     (if hm_dirty m then
        if \<not> hm_batch m then (Inl STD_EXCEPTION, m)
        else (case DataFile_Commit truncated opened (hm_hashFile m) of
            (Inl e, f) \<Rightarrow> (Inl e, m\<lparr>hm_hashFile := f\<rparr>)
          | (Inr _, f) \<Rightarrow> (Inr (), m\<lparr>hm_hashFile := f, hm_dirty := False\<rparr>))
      else (Inr (), m))"

definition HeaderMMR_Rollback :: "header_mmr \<Rightarrow> header_mmr" where
  "HeaderMMR_Rollback m =
     (if hm_dirty m \<and> hm_batch m then m\<lparr>hm_hashFile := DataFile_Rollback (hm_hashFile m), hm_dirty := False\<rparr> else m)"

definition HeaderMMR_Rewind :: "u64 \<Rightarrow> (header_mmr, unit) action" where
  "HeaderMMR_Rewind numHeaders m =
     (let mmrSize = GetNumNodes (GetPMMRIndex (numHeaders - 1))
      in if \<not> hm_batch m then (Inl STD_EXCEPTION, m)
         else if mmrSize \<noteq> DataFile_GetSize 32 (hm_hashFile m) then
           (case DataFile_Rewind 32 mmrSize (hm_hashFile m) of
              (Inl e, f) \<Rightarrow> (Inl e, m\<lparr>hm_hashFile := f\<rparr>)
            | (Inr _, f) \<Rightarrow> (Inr (), m\<lparr>hm_hashFile := f, hm_dirty := True\<rparr>))
         else (Inr (), m))"

definition AddHeader :: "hash_fn \<Rightarrow> block_header \<Rightarrow> (header_mmr, unit) action" where
  "AddHeader H header m =
     (if \<not> hm_batch m then (Inl STD_EXCEPTION, m)
      else let bytes = GetBytes (ProofOfWork_SerializeCycle (bh_proofOfWork header) (Serializer_new V1))
           in case AddHashes H bytes None (hm_hashFile m) of
                (Inl e, f) \<Rightarrow> (Inl e, m\<lparr>hm_hashFile := f\<rparr>)
              | (Inr _, f) \<Rightarrow> (Inr (), m\<lparr>hm_hashFile := f, hm_dirty := True\<rparr>))"

definition HeaderMMR_Root :: "hash_fn \<Rightarrow> u64 \<Rightarrow> header_mmr \<Rightarrow> u8 list result" where
  "HeaderMMR_Root H lastHeight m = MMRHashUtil_Root H (hm_hashFile m) (GetNumNodes (GetPMMRIndex lastHeight)) None"

definition HeaderMMR_OnInitWrite :: "header_mmr \<Rightarrow> header_mmr" where
  "HeaderMMR_OnInitWrite m =
     m\<lparr>hm_dirty := False, hm_batch := True, hm_hashFile := InnerWriter_new (\<lambda>d. d) DataFile_SetDirty (hm_hashFile m)\<rparr>"

definition HeaderMMR_OnEndWrite :: "header_mmr \<Rightarrow> header_mmr" where
  "HeaderMMR_OnEndWrite m =
     m\<lparr>hm_batch := False,
       hm_hashFile := InnerWriter_destroy True (DataFile_Commit True True) DataFile_Rollback (\<lambda>d. d) d_dirty
          DataFile_SetDirty (hm_hashFile m)\<rparr>"

section \<open>TxHashSet\<close>

record tx_hash_set =
  ths_kernelMMR :: kernel_mmr
  ths_outputPMMR :: pmmr
  ths_rangeProofPMMR :: pmmr
  ths_blockHeader :: block_header
  ths_blockHeaderBackup :: block_header

definition TxHashSet_new :: "kernel_mmr \<Rightarrow> pmmr \<Rightarrow> pmmr \<Rightarrow> block_header \<Rightarrow> tx_hash_set" where
  "TxHashSet_new kernelMMR outputPMMR rangeProofPMMR header =
     \<lparr>ths_kernelMMR = kernelMMR, ths_outputPMMR = outputPMMR, ths_rangeProofPMMR = rangeProofPMMR,
      ths_blockHeader = header, ths_blockHeaderBackup = header\<rparr>"

definition OutputPMMR_GetAt :: "u64 \<Rightarrow> pmmr \<Rightarrow> output_identifier option result" where
  "OutputPMMR_GetAt = PMMR_GetAt OUTPUT_SIZE OutputIdentifier_Deserialize"

definition RangeProofPMMR_GetAt :: "u64 \<Rightarrow> pmmr \<Rightarrow> range_proof option result" where
  "RangeProofPMMR_GetAt = PMMR_GetAt RANGE_PROOF_SIZE RangeProof_Deserialize"

text \<open>The two loops of \<open>IsValid\<close>.\<close>

fun valid_inputs ::
  "u64 \<Rightarrow> tx_hash_set \<Rightarrow> block_db \<Rightarrow> transaction_input list \<Rightarrow> bool result" where
  "valid_inputs maximumBlockHeight t db [] = Inr True"
| "valid_inputs maximumBlockHeight t db (i # inputs) =
     bind_result (GetOutputPosition (ti_commitment i) db) (\<lambda>position. case position of
         None \<Rightarrow> Inr False
       | Some location \<Rightarrow>
           bind_result (OutputPMMR_GetAt (ol_mmrIndex location) (ths_outputPMMR t)) (\<lambda>output. case output of
               None \<Rightarrow> Inr False
             | Some identifier \<Rightarrow>
                 if oi_commitment identifier \<noteq> ti_commitment i \<or> oi_features identifier \<noteq> ti_features i then Inr False
                 else if ti_features i = COINBASE_OUTPUT \<and> ol_blockHeight location > maximumBlockHeight then Inr False
                 else valid_inputs maximumBlockHeight t db inputs))"

fun valid_outputs :: "tx_hash_set \<Rightarrow> block_db \<Rightarrow> transaction_output list \<Rightarrow> bool result" where
  "valid_outputs t db [] = Inr True"
| "valid_outputs t db (x # outputs) =
     bind_result (GetOutputPosition (to_commitment x) db) (\<lambda>position. case position of
         None \<Rightarrow> valid_outputs t db outputs
       | Some location \<Rightarrow>
           bind_result (OutputPMMR_GetAt (ol_mmrIndex location) (ths_outputPMMR t)) (\<lambda>output.
             if (case output of Some identifier \<Rightarrow> oi_commitment identifier = to_commitment x | None \<Rightarrow> False)
             then Inr False else valid_outputs t db outputs))"

definition TxHashSet_IsValid :: "EEnvironmentType \<Rightarrow> block_db \<Rightarrow> transaction \<Rightarrow> tx_hash_set \<Rightarrow> bool result" where
  "TxHashSet_IsValid env db tx t =
     (let maximumBlockHeight = GetMaxCoinbaseHeight env (bh_height (ths_blockHeader t) + 1)
      in bind_result (valid_inputs maximumBlockHeight t db (tb_inputs (tx_body tx))) (\<lambda>ok.
           if ok then valid_outputs t db (tb_outputs (tx_body tx)) else Inr False))"

text \<open>Actions on the parts of the pair of a hash set and a database.\<close>

type_synonym ('a) ths_action = "(tx_hash_set \<times> block_db, 'a) action"

definition on_ths :: "(tx_hash_set, 'a) action \<Rightarrow> 'a ths_action" where
  "on_ths = zoom_action fst (\<lambda>t s. (t, snd s))"

definition on_db :: "(block_db \<Rightarrow> block_db) \<Rightarrow> unit ths_action" where
  "on_db f = modify_action (\<lambda>s. (fst s, f (snd s)))"

definition on_outputs :: "(pmmr, 'a) action \<Rightarrow> (tx_hash_set, 'a) action" where
  "on_outputs = zoom_action ths_outputPMMR (\<lambda>m. ths_outputPMMR_update (\<lambda>_. m))"

definition on_rangeProofs :: "(pmmr, 'a) action \<Rightarrow> (tx_hash_set, 'a) action" where
  "on_rangeProofs = zoom_action ths_rangeProofPMMR (\<lambda>m. ths_rangeProofPMMR_update (\<lambda>_. m))"

definition on_kernels :: "(kernel_mmr, 'a) action \<Rightarrow> (tx_hash_set, 'a) action" where
  "on_kernels = zoom_action ths_kernelMMR (\<lambda>m. ths_kernelMMR_update (\<lambda>_. m))"

text \<open>The loop of \<open>ApplyBlock\<close> over the inputs, with the spent positions; \<open>None\<close> is the early return
  of \<open>false\<close>.\<close>

fun prune_inputs :: "transaction_input list \<Rightarrow> spent_output list \<Rightarrow> spent_output list option ths_action" where
  "prune_inputs [] spentPositions = return_action (Some spentPositions)"
| "prune_inputs (i # inputs) spentPositions =
     bind_action (read_action (\<lambda>s. GetOutputPosition (ti_commitment i) (snd s))) (\<lambda>position. case position of
         None \<Rightarrow> return_action None
       | Some location \<Rightarrow>
           bind_action (on_ths (on_outputs (PMMR_Remove (ol_mmrIndex location)))) (\<lambda>_.
           bind_action (on_ths (on_rangeProofs (PMMR_Remove (ol_mmrIndex location)))) (\<lambda>_.
             prune_inputs inputs
               (spentPositions @ [\<lparr>so_commitment = ti_commitment i, so_outputLocation = location\<rparr>]))))"

fun append_outputs :: "hash_fn \<Rightarrow> u64 \<Rightarrow> transaction_output list \<Rightarrow> bool ths_action" where
  "append_outputs H blockHeight [] = return_action True"
| "append_outputs H blockHeight (x # outputs) =
     bind_action (read_action (\<lambda>s. GetOutputPosition (to_commitment x) (snd s))) (\<lambda>position.
     bind_action (get_action (\<lambda>s. case position of None \<Rightarrow> False
         | Some location \<Rightarrow> IsUnpruned (ol_mmrIndex location) (ths_outputPMMR (fst s)))) (\<lambda>exists.
       if exists then return_action False
       else
         bind_action (get_action (\<lambda>s. PMMR_GetSize (ths_outputPMMR (fst s)))) (\<lambda>mmrIndex.
         bind_action (on_ths (on_outputs (PMMR_Append H OutputIdentifier_Serialize (OutputIdentifier_FromOutput x)))) (\<lambda>_.
         bind_action (on_ths (on_rangeProofs (PMMR_Append H RangeProof_Serialize (to_rangeProof x)))) (\<lambda>_.
         bind_action (on_db (AddOutputPosition (to_commitment x) \<lparr>ol_mmrIndex = mmrIndex, ol_blockHeight = blockHeight\<rparr>)) (\<lambda>_.
           append_outputs H blockHeight outputs))))))"

definition ApplyBlock :: "hash_fn \<Rightarrow> full_block \<Rightarrow> bool ths_action" where
  "ApplyBlock H b =
     bind_action (prune_inputs (tb_inputs (fb_body b)) []) (\<lambda>pruned. case pruned of
         None \<Rightarrow> return_action False
       | Some spentPositions \<Rightarrow>
           bind_action (on_db (AddSpentPositions (FullBlock_GetHash b) spentPositions)) (\<lambda>_.
           bind_action (append_outputs H (FullBlock_GetHeight b) (tb_outputs (fb_body b))) (\<lambda>appended.
             if \<not> appended then return_action False
             else
               bind_action (for_action (\<lambda>k. on_ths (on_kernels (ApplyKernel H k))) (tb_kernels (fb_body b))) (\<lambda>_.
               bind_action (modify_action (\<lambda>s. ((fst s)\<lparr>ths_blockHeader := fb_header b\<rparr>, snd s))) (\<lambda>_.
                 return_action True)))))"

text \<open>\<open>tmp\<close> is what the scratch file of the bitmap root held before.\<close>

definition TxHashSet_ValidateRoots :: "hash_fn \<Rightarrow> u8 list \<Rightarrow> block_header \<Rightarrow> tx_hash_set \<Rightarrow> bool result" where
  "TxHashSet_ValidateRoots H tmp header t =
     bind_result (KernelMMR_Root H (bh_kernelMMRSize header) (ths_kernelMMR t)) (\<lambda>kernelRoot.
     if kernelRoot \<noteq> bh_kernelRoot header then Inr False
     else bind_result (PMMR_Root H (bh_outputMMRSize header) (ths_outputPMMR t)) (\<lambda>outputRoot.
       bind_result
         (if bh_version header < 3 then Inr outputRoot
          else bind_result (PMMR_UBMTRoot H tmp (GetNumLeaves (bh_outputMMRSize header - 1)) (ths_outputPMMR t)) (\<lambda>UBMT.
                 Inr (HashParentWithIndex H outputRoot UBMT (bh_outputMMRSize header))))
         (\<lambda>merged.
            if merged \<noteq> bh_outputRoot header then Inr False
            else bind_result (PMMR_Root H (bh_outputMMRSize header) (ths_rangeProofPMMR t)) (\<lambda>rangeProofRoot.
              Inr (rangeProofRoot = bh_rangeProofRoot header)))))"

definition GetRoots_spend :: "block_db \<Rightarrow> transaction_input \<Rightarrow> (tx_hash_set, unit) action" where
  "GetRoots_spend db i =
     bind_action (read_action (\<lambda>_. GetOutputPosition (ti_commitment i) db)) (\<lambda>position. case position of
         None \<Rightarrow> throw_action STD_EXCEPTION
       | Some location \<Rightarrow>
           bind_action (on_outputs (PMMR_Remove (ol_mmrIndex location))) (\<lambda>_.
             on_rangeProofs (PMMR_Remove (ol_mmrIndex location))))"

definition GetRoots_append :: "hash_fn \<Rightarrow> transaction_output \<Rightarrow> (tx_hash_set, unit) action" where
  "GetRoots_append H x =
     bind_action (on_outputs (PMMR_Append H OutputIdentifier_Serialize (OutputIdentifier_FromOutput x))) (\<lambda>_.
       on_rangeProofs (PMMR_Append H RangeProof_Serialize (to_rangeProof x)))"

definition GetRoots :: "hash_fn \<Rightarrow> block_db \<Rightarrow> transaction_body \<Rightarrow> (tx_hash_set, tx_hash_set_roots) action" where
  "GetRoots H db body =
     bind_action (for_action (\<lambda>k. on_kernels (ApplyKernel H k)) (tb_kernels body)) (\<lambda>_.
     bind_action (for_action (GetRoots_spend db) (tb_inputs body)) (\<lambda>_.
     bind_action (for_action (GetRoots_append H) (tb_outputs body)) (\<lambda>_.
     bind_action (get_action ths_blockHeader) (\<lambda>header.
       let numKernels = GetLeafIndex (bh_kernelMMRSize header) + of_nat (length (tb_kernels body));
           kernelSize = GetPMMRIndex numKernels
       in bind_action (read_action (\<lambda>t. KernelMMR_Root H kernelSize (ths_kernelMMR t))) (\<lambda>kernelRoot.
          let numOutputs = GetLeafIndex (bh_outputMMRSize header) + of_nat (length (tb_outputs body));
              outputSize = GetPMMRIndex numOutputs
          in bind_action (read_action (\<lambda>t. PMMR_Root H outputSize (ths_outputPMMR t))) (\<lambda>outputRoot.
             bind_action (read_action (\<lambda>t. PMMR_Root H outputSize (ths_rangeProofPMMR t))) (\<lambda>rangeProofRoot.
               return_action
                 \<lparr>tr_kernelInfo = \<lparr>mi_root = kernelRoot, mi_size = kernelSize\<rparr>,
                  tr_outputInfo = \<lparr>mi_root = outputRoot, mi_size = outputSize\<rparr>,
                  tr_rangeProofInfo = \<lparr>mi_root = rangeProofRoot, mi_size = outputSize\<rparr>\<rparr>)))))))"

text \<open>\<open>SaveOutputPositions\<close>: the loop over the positions of a block, then over the blocks; the accumulator is the
  first output position of the next block.\<close>

definition save_position :: "pmmr \<Rightarrow> u64 \<Rightarrow> u64 \<Rightarrow> (block_db, unit) action" where
  "save_position outputs blockHeight mmrIndex =
     bind_action (read_action (\<lambda>_. OutputPMMR_GetAt mmrIndex outputs)) (\<lambda>output. case output of
         None \<Rightarrow> return_action ()
       | Some identifier \<Rightarrow> modify_action
           (AddOutputPosition (oi_commitment identifier) \<lparr>ol_mmrIndex = mmrIndex, ol_blockHeight = blockHeight\<rparr>))"

definition positions_between :: "u64 \<Rightarrow> u64 \<Rightarrow> u64 list" where
  "positions_between i n = map of_nat [unat i..<unat n]"

fun save_blocks :: "hash_fn \<Rightarrow> chain \<Rightarrow> pmmr \<Rightarrow> u64 \<Rightarrow> u64 list \<Rightarrow> (block_db, unit) action" where
  "save_blocks H c outputs firstOutput [] = return_action ()"
| "save_blocks H c outputs firstOutput (height # heights) =
     (case Chain_GetByHeight height c of
        None \<Rightarrow> save_blocks H c outputs firstOutput heights
      | Some index \<Rightarrow>
          bind_action (read_action (GetBlockHeader H (bi_hash index))) (\<lambda>header. case header of
              None \<Rightarrow> save_blocks H c outputs firstOutput heights
            | Some header \<Rightarrow>
                bind_action (for_action (save_position outputs (bh_height header))
                    (positions_between firstOutput (bh_outputMMRSize header))) (\<lambda>_.
                  save_blocks H c outputs (bh_outputMMRSize header) heights)))"

definition SaveOutputPositions :: "hash_fn \<Rightarrow> chain \<Rightarrow> tx_hash_set \<Rightarrow> (block_db, unit) action" where
  "SaveOutputPositions H c t =
     save_blocks H c (ths_outputPMMR t) 0 (heights_upto 0 (bh_height (ths_blockHeader t)))"

definition GetLastKernelHashes :: "u64 \<Rightarrow> tx_hash_set \<Rightarrow> u8 list list result" where
  "GetLastKernelHashes n t = KernelMMR_GetLastLeafHashes n (ths_kernelMMR t)"

definition GetLastOutputHashes :: "u64 \<Rightarrow> tx_hash_set \<Rightarrow> u8 list list result" where
  "GetLastOutputHashes n t = PMMR_GetLastLeafHashes n (ths_outputPMMR t)"

definition GetLastRangeProofHashes :: "u64 \<Rightarrow> tx_hash_set \<Rightarrow> u8 list list result" where
  "GetLastRangeProofHashes n t = PMMR_GetLastLeafHashes n (ths_rangeProofPMMR t)"

record output_dto =
  od_spent :: bool
  od_identifier :: output_identifier
  od_location :: output_location
  od_rangeProof :: range_proof

record output_range =
  or_highestIndex :: u64
  or_lastRetrievedIndex :: u64
  or_outputs :: "output_dto list"

partial_function (option) outputs_from ::
  "block_db \<Rightarrow> tx_hash_set \<Rightarrow> u64 \<Rightarrow> u64 \<Rightarrow> output_dto list \<Rightarrow> output_dto list result option" where
  "outputs_from db t maxNumOutputs leafIndex outputs =
     (if \<not> length outputs < unat maxNumOutputs then Some (Inr outputs)
      else
        let mmrIndex = GetPMMRIndex leafIndex
        in if mmrIndex \<ge> PMMR_GetSize (ths_outputPMMR t) then Some (Inr outputs)
           else (case OutputPMMR_GetAt mmrIndex (ths_outputPMMR t) of
               Inl e \<Rightarrow> Some (Inl e)
             | Inr None \<Rightarrow> outputs_from db t maxNumOutputs (leafIndex + 1) outputs
             | Inr (Some identifier) \<Rightarrow>
                 (case bind_result (RangeProofPMMR_GetAt mmrIndex (ths_rangeProofPMMR t)) (\<lambda>proof.
                       bind_result (GetOutputPosition (oi_commitment identifier) db) (\<lambda>position. Inr (proof, position))) of
                    Inl e \<Rightarrow> Some (Inl e)
                  | Inr (Some proof, Some position) \<Rightarrow>
                      if ol_mmrIndex position \<noteq> mmrIndex then Some (Inl TXHASHSET_EXCEPTION)
                      else outputs_from db t maxNumOutputs (leafIndex + 1)
                        (outputs @ [\<lparr>od_spent = False, od_identifier = identifier, od_location = position, od_rangeProof = proof\<rparr>])
                  | Inr _ \<Rightarrow> Some (Inl TXHASHSET_EXCEPTION))))"

definition GetOutputsByLeafIndex :: "block_db \<Rightarrow> u64 \<Rightarrow> u64 \<Rightarrow> tx_hash_set \<Rightarrow> output_range result option" where
  "GetOutputsByLeafIndex db startIndex maxNumOutputs t =
     (case outputs_from db t maxNumOutputs startIndex [] of
        None \<Rightarrow> None
      | Some r \<Rightarrow> Some (bind_result r (\<lambda>outputs.
          Inr \<lparr>or_highestIndex = GetNumLeaves (PMMR_GetSize (ths_outputPMMR t) - 1),
               or_lastRetrievedIndex = (if outputs = [] then 0 else GetNumLeaves (ol_mmrIndex (od_location (last outputs)))),
               or_outputs = outputs\<rparr>)))"

text \<open>A position without a range proof or a database entry dereferences a null pointer here.\<close>

definition output_at :: "block_db \<Rightarrow> tx_hash_set \<Rightarrow> u64 \<Rightarrow> output_dto option result" where
  "output_at db t mmrIndex =
     bind_result (OutputPMMR_GetAt mmrIndex (ths_outputPMMR t)) (\<lambda>output. case output of
         None \<Rightarrow> Inr None
       | Some identifier \<Rightarrow>
           bind_result (RangeProofPMMR_GetAt mmrIndex (ths_rangeProofPMMR t)) (\<lambda>proof.
           bind_result (GetOutputPosition (oi_commitment identifier) db) (\<lambda>position.
             case (proof, position) of
               (Some proof, Some position) \<Rightarrow>
                 Inr (Some \<lparr>od_spent = False, od_identifier = identifier, od_location = position, od_rangeProof = proof\<rparr>)
             | _ \<Rightarrow> Inl UNDEFINED_BEHAVIOUR)))"

definition GetOutputsByMMRIndex :: "block_db \<Rightarrow> u64 \<Rightarrow> u64 \<Rightarrow> tx_hash_set \<Rightarrow> output_dto list result" where
  "GetOutputsByMMRIndex db startIndex lastIndex t =
     bind_result (map_result (output_at db t) (heights_upto startIndex lastIndex)) (\<lambda>xs. Inr (List.map_filter (\<lambda>x. x) xs))"

subsection \<open>Rewind\<close>

fun restore_inputs ::
  "(commitment \<rightharpoonup> output_location) \<Rightarrow> transaction_input list \<Rightarrow> u64 list \<Rightarrow> (block_db, u64 list) action" where
  "restore_inputs spentOutputs [] leavesToAdd = return_action leavesToAdd"
| "restore_inputs spentOutputs (i # inputs) leavesToAdd =
     (case spentOutputs (ti_commitment i) of
        None \<Rightarrow> throw_action TXHASHSET_EXCEPTION
      | Some location \<Rightarrow>
          bind_action (modify_action (AddOutputPosition (ti_commitment i) location)) (\<lambda>_.
            restore_inputs spentOutputs inputs (leavesToAdd @ [GetLeafIndex (ol_mmrIndex location)])))"

text \<open>One turn of the loop. A missing previous header is dereferenced by the next comparison.\<close>

definition rewind_block :: "hash_fn \<Rightarrow> u64 list \<Rightarrow> u64 list ths_action" where
  "rewind_block H leavesToAdd =
     bind_action (get_action (\<lambda>s. ths_blockHeader (fst s))) (\<lambda>header.
     bind_action (read_action (\<lambda>s. GetBlock H (BlockHeader_GetHash header) (snd s))) (\<lambda>found. case found of
         None \<Rightarrow> throw_action TXHASHSET_EXCEPTION
       | Some b \<Rightarrow>
           bind_action (read_action (\<lambda>s. GetSpentPositions (BlockHeader_GetHash header) (snd s))) (\<lambda>spentOutputs.
           bind_action (on_db (RemoveOutputPositions (map to_commitment (tb_outputs (fb_body b))))) (\<lambda>_.
           bind_action (zoom_action snd (\<lambda>db s. (fst s, db)) (restore_inputs spentOutputs (tb_inputs (fb_body b)) leavesToAdd)) (\<lambda>leavesToAdd.
           bind_action (read_action (\<lambda>s. GetBlockHeader H (bh_previousBlockHash header) (snd s))) (\<lambda>previous. case previous of
               None \<Rightarrow> throw_action UNDEFINED_BEHAVIOUR
             | Some previous \<Rightarrow>
                 bind_action (modify_action (\<lambda>s. ((fst s)\<lparr>ths_blockHeader := previous\<rparr>, snd s))) (\<lambda>_.
                   return_action leavesToAdd)))))))"

partial_function (option) rewind_blocks ::
  "hash_fn \<Rightarrow> block_header \<Rightarrow> u64 list \<Rightarrow> tx_hash_set \<times> block_db \<Rightarrow> (u64 list result \<times> tx_hash_set \<times> block_db) option" where
  "rewind_blocks H header leavesToAdd s =
     (if BlockHeader_GetHash (ths_blockHeader (fst s)) = BlockHeader_GetHash header then Some (Inr leavesToAdd, s)
      else (case rewind_block H leavesToAdd s of
          (Inl e, s) \<Rightarrow> Some (Inl e, s)
        | (Inr leavesToAdd, s) \<Rightarrow> rewind_blocks H header leavesToAdd s))"

definition TxHashSet_Rewind ::
  "hash_fn \<Rightarrow> block_header \<Rightarrow> tx_hash_set \<times> block_db \<Rightarrow> (unit result \<times> tx_hash_set \<times> block_db) option" where
  "TxHashSet_Rewind H header s =
     (case rewind_blocks H header [] s of
        None \<Rightarrow> None
      | Some (Inl e, s) \<Rightarrow> Some (Inl e, s)
      | Some (Inr leavesToAdd, s) \<Rightarrow> Some (
          bind_action (on_ths (on_kernels (KernelMMR_Rewind (bh_kernelMMRSize header)))) (\<lambda>_.
          bind_action (on_ths (on_outputs (PMMR_Rewind OUTPUT_SIZE (bh_outputMMRSize header) leavesToAdd))) (\<lambda>_.
            on_ths (on_rangeProofs (PMMR_Rewind RANGE_PROOF_SIZE (bh_outputMMRSize header) leavesToAdd)))) s))"

text \<open>The three commits run in threads that are joined; they touch different files.\<close>

definition TxHashSet_Commit :: "bool \<Rightarrow> bool \<Rightarrow> (tx_hash_set, unit) action" where
  "TxHashSet_Commit truncated opened =
     bind_action (on_kernels (KernelMMR_Commit truncated opened)) (\<lambda>_.
     bind_action (on_outputs (PMMR_Commit truncated opened)) (\<lambda>_.
     bind_action (on_rangeProofs (PMMR_Commit truncated opened)) (\<lambda>_.
       modify_action (\<lambda>t. t\<lparr>ths_blockHeaderBackup := ths_blockHeader t\<rparr>))))"

definition TxHashSet_Rollback :: "tx_hash_set \<Rightarrow> tx_hash_set" where
  "TxHashSet_Rollback t =
     t\<lparr>ths_kernelMMR := KernelMMR_Rollback (ths_kernelMMR t), ths_outputPMMR := PMMR_Rollback (ths_outputPMMR t),
       ths_rangeProofPMMR := PMMR_Rollback (ths_rangeProofPMMR t), ths_blockHeader := ths_blockHeaderBackup t\<rparr>"

section \<open>Loading\<close>

text \<open>The files of a prunable MMR: hashes, data, leaf set and the roots of its prune list. \<open>pmmr_leaf.bin\<close>, read when
  there is no leaf set file, is not modelled.\<close>

definition PMMR_Load ::
  "hash_fn \<Rightarrow> ('d \<Rightarrow> serializer \<Rightarrow> serializer) \<Rightarrow> u8 list \<Rightarrow> u8 list \<Rightarrow> bitmap_file \<Rightarrow> prune_list \<Rightarrow> 'd option \<Rightarrow> pmmr result" where
  "PMMR_Load H ser hashDisk dataDisk leafSet pruneList first =
     (let m = \<lparr>pm_dirty = False, pm_hashFile = DataFile_Load hashDisk, pm_leafSet = leafSet, pm_pruneList = pruneList,
               pm_dataFile = DataFile_Load dataDisk\<rparr>
      in if DataFile_GetSize 32 (pm_hashFile m) = 0 then
           (case first of None \<Rightarrow> Inl UNDEFINED_BEHAVIOUR
            | Some x \<Rightarrow> (case PMMR_Append H ser x m of (r, m) \<Rightarrow> bind_result r (\<lambda>_. Inr m)))
         else Inr m)"

record txhashset_files =
  tf_kernelHash :: "u8 list"
  tf_kernelData :: "u8 list"
  tf_outputHash :: "u8 list"
  tf_outputData :: "u8 list"
  tf_outputLeafSet :: bitmap_file
  tf_outputPruneList :: prune_list
  tf_rangeProofHash :: "u8 list"
  tf_rangeProofData :: "u8 list"
  tf_rangeProofLeafSet :: bitmap_file
  tf_rangeProofPruneList :: prune_list

definition TxHashSetManager_Open :: "hash_fn \<Rightarrow> txhashset_files \<Rightarrow> block_header \<Rightarrow> full_block \<Rightarrow> tx_hash_set result" where
  "TxHashSetManager_Open H files confirmedTip genesisBlock =
     (let first = (case tb_outputs (fb_body genesisBlock) of [] \<Rightarrow> None | x # _ \<Rightarrow> Some x)
      in bind_result (KernelMMR_Load H (tf_kernelHash files) (tf_kernelData files) genesisBlock) (\<lambda>kernelMMR.
         bind_result (PMMR_Load H OutputIdentifier_Serialize (tf_outputHash files) (tf_outputData files) (tf_outputLeafSet files)
             (tf_outputPruneList files) (map_option OutputIdentifier_FromOutput first)) (\<lambda>outputPMMR.
         bind_result (PMMR_Load H RangeProof_Serialize (tf_rangeProofHash files) (tf_rangeProofData files)
             (tf_rangeProofLeafSet files) (tf_rangeProofPruneList files) (map_option to_rangeProof first)) (\<lambda>rangeProofPMMR.
           Inr (TxHashSet_new kernelMMR outputPMMR rangeProofPMMR confirmedTip)))))"

section \<open>TxHashSetValidator\<close>

text \<open>Progress reports are not modelled. \<open>catch_all\<close> is \<^verbatim>\<open>catch (...)\<close> with the answer it gives.\<close>

definition catch_all :: "'a \<Rightarrow> 'a result \<Rightarrow> 'a result" where
  "catch_all answer r = (case r of
      Inl UNDEFINED_BEHAVIOUR \<Rightarrow> Inl UNDEFINED_BEHAVIOUR | Inl _ \<Rightarrow> Inr answer | Inr x \<Rightarrow> Inr x)"

definition ValidateSizes :: "tx_hash_set \<Rightarrow> block_header \<Rightarrow> bool" where
  "ValidateSizes t header \<longleftrightarrow>
     KernelMMR_GetSize (ths_kernelMMR t) = bh_kernelMMRSize header \<and>
     PMMR_GetSize (ths_outputPMMR t) = bh_outputMMRSize header \<and>
     PMMR_GetSize (ths_rangeProofPMMR t) = bh_outputMMRSize header"

definition validate_node :: "hash_fn \<Rightarrow> (u64 \<Rightarrow> u8 list option result) \<Rightarrow> u64 \<Rightarrow> bool result" where
  "validate_node H GetHash i =
     (let height = GetHeight i
      in if height > 0 then
           bind_result (GetHash i) (\<lambda>parent. case parent of
               None \<Rightarrow> Inr True
             | Some parentHash \<Rightarrow>
                 bind_result (GetHash (GetLeftChildIndex i height)) (\<lambda>left.
                 bind_result (GetHash (GetRightChildIndex i)) (\<lambda>right.
                   case (left, right) of
                     (Some leftHash, Some rightHash) \<Rightarrow> Inr (parentHash = HashParentWithIndex H leftHash rightHash i)
                   | _ \<Rightarrow> Inr True)))
         else Inr True)"

fun validate_nodes :: "hash_fn \<Rightarrow> (u64 \<Rightarrow> u8 list option result) \<Rightarrow> u64 list \<Rightarrow> bool result" where
  "validate_nodes H GetHash [] = Inr True"
| "validate_nodes H GetHash (i # is) =
     bind_result (validate_node H GetHash i) (\<lambda>ok. if ok then validate_nodes H GetHash is else Inr False)"

definition ValidateMMRHashes :: "hash_fn \<Rightarrow> u64 \<Rightarrow> (u64 \<Rightarrow> u8 list option result) \<Rightarrow> bool result" where
  "ValidateMMRHashes H mmrSize GetHash = catch_all False (validate_nodes H GetHash (positions_between 0 mmrSize))"

fun kernel_history ::
  "hash_fn \<Rightarrow> kernel_mmr \<Rightarrow> (u64 \<Rightarrow> block_header option result) \<Rightarrow> u64 list \<Rightarrow> bool result" where
  "kernel_history H m GetBlockHeaderByHeight [] = Inr True"
| "kernel_history H m GetBlockHeaderByHeight (height # heights) =
     bind_result (GetBlockHeaderByHeight height) (\<lambda>found. case found of
         None \<Rightarrow> Inr False
       | Some header \<Rightarrow>
           bind_result (KernelMMR_Root H (bh_kernelMMRSize header) m) (\<lambda>root.
             if root \<noteq> bh_kernelRoot header then Inr False
             else kernel_history H m GetBlockHeaderByHeight heights))"

definition ValidateKernelHistory ::
  "hash_fn \<Rightarrow> kernel_mmr \<Rightarrow> (u64 \<Rightarrow> block_header option result) \<Rightarrow> block_header \<Rightarrow> bool result" where
  "ValidateKernelHistory H m GetBlockHeaderByHeight header =
     kernel_history H m GetBlockHeaderByHeight (heights_upto 0 (bh_height header))"

text \<open>The objects at a range of positions, in order.\<close>

definition collect_at :: "(u64 \<Rightarrow> 'a option result) \<Rightarrow> u64 list \<Rightarrow> 'a list result" where
  "collect_at get is = bind_result (map_result get is) (\<lambda>xs. Inr (List.map_filter (\<lambda>x. x) xs))"

definition TxHashSet_ValidateKernelSums :: "hash_fn \<Rightarrow> secp256k1 \<Rightarrow> tx_hash_set \<Rightarrow> block_header \<Rightarrow> block_sums result" where
  "TxHashSet_ValidateKernelSums H secp t header =
     (let overage = 0 - (REWARD * (1 + bh_height header)) :: i64
      in bind_result (collect_at (\<lambda>i. OutputPMMR_GetAt i (ths_outputPMMR t)) (positions_between 0 (bh_outputMMRSize header))) (\<lambda>outputs.
         bind_result (collect_at (\<lambda>i. GetKernelAt H i (ths_kernelMMR t)) (positions_between 0 (bh_kernelMMRSize header))) (\<lambda>kernels.
           ValidateKernelSums_commitments secp [] (map oi_commitment outputs) (map tk_excessCommitment kernels) overage
             (bh_totalKernelOffset header) None)))"

fun range_proof_batches ::
  "secp256k1 \<Rightarrow> tx_hash_set \<Rightarrow> u64 list \<Rightarrow> (commitment \<times> range_proof) list \<Rightarrow> bool cached" where
  "range_proof_batches secp t [] rangeProofs =
     (if rangeProofs \<noteq> [] then VerifyRangeProofs_crypto secp rangeProofs else lift_cached (Inr True))"
| "range_proof_batches secp t (i # is) rangeProofs =
     bind_cached (lift_cached (OutputPMMR_GetAt i (ths_outputPMMR t))) (\<lambda>output. case output of
         None \<Rightarrow> range_proof_batches secp t is rangeProofs
       | Some identifier \<Rightarrow>
           bind_cached (lift_cached (RangeProofPMMR_GetAt i (ths_rangeProofPMMR t))) (\<lambda>proof. case proof of
               None \<Rightarrow> lift_cached (Inr False)
             | Some proof \<Rightarrow>
                 let rangeProofs = rangeProofs @ [(oi_commitment identifier, proof)]
                 in if length rangeProofs \<ge> 1000 then
                      bind_cached (VerifyRangeProofs_crypto secp rangeProofs) (\<lambda>ok.
                        if ok then range_proof_batches secp t is [] else lift_cached (Inr False))
                    else range_proof_batches secp t is rangeProofs))"

definition ValidateRangeProofs :: "secp256k1 \<Rightarrow> tx_hash_set \<Rightarrow> bool cached" where
  "ValidateRangeProofs secp t =
     range_proof_batches secp t (positions_between 0 (PMMR_GetSize (ths_outputPMMR t))) []"

fun kernel_batches ::
  "hash_fn \<Rightarrow> secp256k1 \<Rightarrow> kernel_mmr \<Rightarrow> u64 list \<Rightarrow> transaction_kernel list \<Rightarrow> bool result" where
  "kernel_batches H secp m [] kernels = Inr (kernels = [] \<or> VerifyKernelSignatures H secp kernels)"
| "kernel_batches H secp m (i # is) kernels =
     bind_result (GetKernelAt H i m) (\<lambda>found. case found of
         None \<Rightarrow> kernel_batches H secp m is kernels
       | Some k \<Rightarrow>
           let kernels = kernels @ [k]
           in if length kernels \<ge> 2000 then
                if \<not> VerifyKernelSignatures H secp kernels then Inr False else kernel_batches H secp m is []
              else kernel_batches H secp m is kernels)"

definition ValidateKernelSignatures :: "hash_fn \<Rightarrow> secp256k1 \<Rightarrow> kernel_mmr \<Rightarrow> bool result" where
  "ValidateKernelSignatures H secp m = kernel_batches H secp m (positions_between 0 (KernelMMR_GetSize m)) []"

definition TxHashSetValidator_Validate ::
  "hash_fn \<Rightarrow> secp256k1 \<Rightarrow> u8 list \<Rightarrow> (u64 \<Rightarrow> block_header option result) \<Rightarrow> tx_hash_set \<Rightarrow> block_header \<Rightarrow>
   block_sums option cached" where
  "TxHashSetValidator_Validate H secp tmp GetBlockHeaderByHeight t header =
     (if \<not> ValidateSizes t header then lift_cached (Inr None)
      else bind_cached (lift_cached (
          bind_result (ValidateMMRHashes H (KernelMMR_GetSize (ths_kernelMMR t)) (\<lambda>i. KernelMMR_GetHashAt i (ths_kernelMMR t))) (\<lambda>kernels.
          bind_result (ValidateMMRHashes H (PMMR_GetSize (ths_outputPMMR t)) (\<lambda>i. PMMR_GetHashAt i (ths_outputPMMR t))) (\<lambda>outputs.
          bind_result (ValidateMMRHashes H (PMMR_GetSize (ths_rangeProofPMMR t)) (\<lambda>i. PMMR_GetHashAt i (ths_rangeProofPMMR t))) (\<lambda>rangeProofs.
            Inr (kernels \<and> outputs \<and> rangeProofs)))))) (\<lambda>mmrHashesValidated.
        if \<not> mmrHashesValidated then lift_cached (Inr None)
        else bind_cached (lift_cached (TxHashSet_ValidateRoots H tmp header t)) (\<lambda>roots.
          if \<not> roots then lift_cached (Inr None)
          else bind_cached (lift_cached (ValidateKernelHistory H (ths_kernelMMR t) GetBlockHeaderByHeight header)) (\<lambda>history.
            if \<not> history then lift_cached (Inr None)
            else bind_cached (lift_cached (catch_all None (
                bind_result (TxHashSet_ValidateKernelSums H secp t header) (\<lambda>blockSums. Inr (Some blockSums))))) (\<lambda>sums.
              case sums of None \<Rightarrow> lift_cached (Inr None)
              | Some blockSums \<Rightarrow>
                  bind_cached (ValidateRangeProofs secp t) (\<lambda>proofs.
                    if \<not> proofs then lift_cached (Inr None)
                    else bind_cached (lift_cached (ValidateKernelSignatures H secp (ths_kernelMMR t))) (\<lambda>signatures.
                      lift_cached (Inr (if signatures then Some blockSums else None)))))))))"

definition ValidateTxHashSet ::
  "hash_fn \<Rightarrow> secp256k1 \<Rightarrow> u8 list \<Rightarrow> (u64 \<Rightarrow> block_header option result) \<Rightarrow> tx_hash_set \<Rightarrow> block_header \<Rightarrow>
   block_sums option cached" where
  "ValidateTxHashSet H secp tmp GetBlockHeaderByHeight t header cache =
     (case TxHashSetValidator_Validate H secp tmp GetBlockHeaderByHeight t header cache of
        (r, cache) \<Rightarrow> (catch_all None r, cache))"

end
