(* ===== verification/Tx_Hash_Set_Rewind.thy ===== *)
theory Tx_Hash_Set_Rewind
  imports Tx_Hash_Set
begin

text \<open>
  Connecting and disconnecting blocks: what \<open>ApplyBlock\<close> does to the three Merkle mountain ranges and
  the output positions, and that \<open>Rewind\<close> undoes it. The lemmas are about ranges with nothing compacted
  (\<^verbatim>\<open>TxHashSet::Compact\<close> is not implemented in the code).
\<close>

section \<open>The leaves below a position determine its hash\<close>

lemma node_hash_cong:
  assumes "\<And>j. j < n \<Longrightarrow> lf j = lf' j" and "i + 1 < 2 ^ 64" and "i < mmr_size n"
  shows "node_hash H lf (nheight i) i = node_hash H lf' (nheight i) i"
  using assms(2,3)
proof (induction "nheight i" arbitrary: i)
  case 0
  have "postorder_heights 63 ! i = 0" using 0(1) by (simp add: nheight_def)
  then obtain m where m: "m < 2 ^ 63" "i = mmr_size m" using leaf_positions [OF 0(2)] by blast
  then have "m < n" using 0(3) mmr_size_mono [of n m] by (cases m n rule: linorder_cases) auto
  then show ?case using 0(1)[symmetric] m mmr_size_leaf(2) [OF m(1)] assms(1) by simp
next
  case (Suc h)
  note c = nheight_children [OF Suc.prems(1) Suc.hyps(2)[symmetric]]
  have "node_hash H lf h (i - 1) = node_hash H lf' h (i - 1)"
    using Suc.hyps(1) [of "i - 1"] Suc.prems c(2) by simp
  moreover have "node_hash H lf h (i - 2 ^ Suc h) = node_hash H lf' h (i - 2 ^ Suc h)"
    using Suc.hyps(1) [of "i - 2 ^ Suc h"] Suc.prems c(3) by simp
  ultimately show ?case using Suc.hyps(2)[symmetric] by simp
qed

lemma holds_nodes_cong:
  assumes "\<And>j. j < n \<Longrightarrow> lf j = lf' j" and "n < 2 ^ 63"
  shows "holds_nodes H lf (mmr_size n) f = holds_nodes H lf' (mmr_size n) f"
proof -
  have "node_hash H lf (nheight i) i = node_hash H lf' (nheight i) i" if "i < mmr_size n" for i
    using node_hash_cong [of n lf lf' i H] assms that mmr_size_63 [OF assms(2)] by simp
  then have "map (\<lambda>i. node_hash H lf (nheight i) i) [0..<mmr_size n] = map (\<lambda>i. node_hash H lf' (nheight i) i) [0..<mmr_size n]"
    by simp
  then show ?thesis by (simp only: holds_nodes_def)
qed

section \<open>Leaf sets of bounded size\<close>

definition bm_small :: "bitmap_file \<Rightarrow> bool" where
  "bm_small b \<longleftrightarrow> length (bm_mmap b) < 2 ^ 60 \<and> (\<forall>k\<in>fst ` set (bm_modifiedBytes b). unat k < 2 ^ 60)"

lemma unat_div_8: "unat (i :: u64) < 2 ^ 63 \<Longrightarrow> unat (i div 8) < 2 ^ 60"
  by (simp add: unat_div)

lemma bm_small_set [simp]: "bm_small b \<Longrightarrow> unat i < 2 ^ 63 \<Longrightarrow> bm_small (BitmapFile_Set i b)"
  using unat_div_8 [of i] by (simp add: bm_small_def BitmapFile_Set_def Let_def)

lemma bm_small_unset [simp]: "bm_small b \<Longrightarrow> unat i < 2 ^ 63 \<Longrightarrow> bm_small (BitmapFile_Unset i b)"
  using unat_div_8 [of i] by (simp add: bm_small_def BitmapFile_Unset_def Let_def)

lemma bm_small_leaf_set [simp]:
  "bm_small b \<Longrightarrow> unat i < 2 ^ 63 \<Longrightarrow> bm_small (LeafSet_Add i b)"
  "bm_small b \<Longrightarrow> unat i < 2 ^ 63 \<Longrightarrow> bm_small (LeafSet_Remove i b)"
  by (simp_all add: LeafSet_Add_def LeafSet_Remove_def)

lemma bm_small_bytes:
  assumes "bm_small b" shows "unat (BitmapFile_GetNumBytes b) < 2 ^ 61"
proof -
  have "unat (fst (last (bm_modifiedBytes b))) < 2 ^ 60" if "bm_modifiedBytes b \<noteq> []"
    using assms that by (simp add: bm_small_def)
  then have "unat (if bm_modifiedBytes b \<noteq> [] then fst (last (bm_modifiedBytes b)) + 1 else 0) < 2 ^ 61"
    by (cases "bm_modifiedBytes b = []") (simp_all add: unat_word_ariths)
  moreover have "unat (of_nat (length (bm_mmap b)) + 1 :: u64) < 2 ^ 61"
    using assms by (simp add: bm_small_def unat_word_ariths unat_of_nat_small)
  ultimately show ?thesis by (simp add: BitmapFile_GetNumBytes_def Let_def max_def)
qed

lemma bm_small_room: "bm_small b \<Longrightarrow> \<forall>i\<in>set xs. unat i < 2 ^ 63 \<Longrightarrow> bm_room xs b"
proof -
  have "bm_small b \<Longrightarrow> \<forall>i\<in>set xs. unat i < 2 ^ 63 \<Longrightarrow> bm_small (fold BitmapFile_Set xs b)"
    by (induction xs arbitrary: b) simp_all
  then show "bm_small b \<Longrightarrow> \<forall>i\<in>set xs. unat i < 2 ^ 63 \<Longrightarrow> bm_room xs b"
    unfolding bm_room_def by (blast intro: bm_small_bytes)
qed

section \<open>The operations of a prunable MMR\<close>

text \<open>\<open>pmmr_at\<close>: an MMR of \<open>n\<close> leaves whose serialized leaves are given by \<open>lf\<close>, with a leaf set of bounded size.\<close>

definition pmmr_at :: "hash_fn \<Rightarrow> nat \<Rightarrow> (nat \<Rightarrow> u8 list) \<Rightarrow> nat \<Rightarrow> pmmr \<Rightarrow> bool" where
  "pmmr_at H D lf n m \<longleftrightarrow> pmmr_ok H D lf n m \<and> bm_small (pm_leafSet m)"

lemma pmmr_at_cong:
  assumes "\<And>j. j < n \<Longrightarrow> lf j = lf' j" and "pmmr_at H D lf n m"
  shows "pmmr_at H D lf' n m"
proof -
  have "n < 2 ^ 63" using assms(2) by (simp add: pmmr_at_def pmmr_ok_def)
  moreover have "map lf [0..<n] = map lf' [0..<n]" using assms(1) by simp
  ultimately show ?thesis
    using assms holds_nodes_cong [of n lf lf' H "pm_hashFile m"] by (simp add: pmmr_at_def pmmr_ok_def)
qed

lemma pmmr_at_unspent: "pmmr_at H D lf n m \<Longrightarrow> i \<in> unspent m \<Longrightarrow> unat i < n \<and> unat i < 2 ^ 63"
  by (force simp: pmmr_at_def pmmr_ok_def unspent_def)

lemma pmmr_at_append:
  assumes "\<And>x. length (H x) = 32" and "pmmr_at H D lf n m"
    and "lf n = GetBytes (ser x (Serializer_new V1))" "length (lf n) = D"
    and "mmr_size (Suc n) * 32 < 2 ^ 64" "Suc n < 2 ^ 63" "Suc n * D < 2 ^ 64"
  shows "\<exists>m'. PMMR_Append H ser x m = (Inr (), m') \<and> pmmr_at H D lf (Suc n) m' \<and>
    unspent m' = insert (of_nat n) (unspent m)"
proof -
  from PMMR_Append_ok [of H D lf n m ser x, OF assms(1) _ assms(3-7)] assms(2) obtain m' where
    m': "PMMR_Append H ser x m = (Inr (), m')" "pmmr_ok H D lf (Suc n) m'" "unspent m' = insert (of_nat n) (unspent m)"
    by (auto simp: pmmr_at_def)
  have size: "DataFile_GetSize 32 (pm_hashFile m) = of_nat (mmr_size n)" and pl: "pm_pruneList m = pl_empty"
    using assms(2,6) PMMR_GetSize_ok [of H D lf n m] by (auto simp: pmmr_at_def pmmr_ok_def PMMR_GetSize_def)
  have n: "unat (of_nat n :: u64) < 2 ^ 63" using assms(6) by (simp add: unat_of_nat_small)
  have "pm_leafSet m' = LeafSet_Add (of_nat n) (pm_leafSet m)"
    using m'(1) assms(6) size pl GetLeafIndex_size [of n]
    by (auto simp: PMMR_Append_def Let_def split: prod.splits)
  then show ?thesis using m' assms(2) n by (auto simp: pmmr_at_def)
qed

lemma pmmr_at_remove:
  assumes at: "pmmr_at H D lf n m" and rm: "PMMR_Remove p m = (Inr (), m')"
  shows "GetLeafIndex p \<in> unspent m" and "pmmr_at H D lf n m'" and "unspent m' = unspent m - {GetLeafIndex p}"
proof -
  have bm: "bm_ok (pm_leafSet m)" using at by (simp add: pmmr_at_def pmmr_ok_def)
  have eq: "IsLeaf p" "GetLeafIndex p \<in> unspent m"
    "m' = m\<lparr>pm_dirty := True, pm_leafSet := LeafSet_Remove (GetLeafIndex p) (pm_leafSet m)\<rparr>"
    using rm by (auto simp: PMMR_Remove_def Let_def unspent_def bitmap_leaves.contains_members split: if_splits)
  show "GetLeafIndex p \<in> unspent m" by (rule eq)
  show "pmmr_at H D lf n m'" and "unspent m' = unspent m - {GetLeafIndex p}"
    using at bitmap_leaves.remove_members [OF bm, of "GetLeafIndex p"] pmmr_at_unspent [OF at eq(2)]
    by (auto simp: eq(3) pmmr_at_def pmmr_ok_def unspent_def)
qed

lemma GetNumLeaves_last:
  assumes "0 < n" "n < 2 ^ 63"
  shows "unat (GetNumLeaves (of_nat (mmr_size n) - 1)) = n"
proof -
  obtain k where k: "n = Suc k" using assms by (cases n) auto
  have pos: "0 < mmr_size n" using mmr_size_mono [of 0 n] assms by simp
  have "unat (of_nat (mmr_size n) :: u64) = mmr_size n" using assms by (intro unat_of_nat_mmr_size)
  moreover have "(of_nat (mmr_size n) :: u64) \<noteq> 0" using calculation pos by auto
  ultimately have "unat (of_nat (mmr_size n) - 1 :: u64) = mmr_size n - 1" by (simp add: unat_minus_one)
  then show ?thesis
    using nodes_and_leaves [of k "of_nat (mmr_size n) - 1"] mmr_size_Suc [of k] assms k pos by simp
qed

lemma pmmr_at_rewind:
  assumes at: "pmmr_at H D lf n m" and n0: "0 < n0" "n0 \<le> n" and leaves: "\<forall>i\<in>set leaves. unat i < 2 ^ 63"
  shows "\<exists>m'. PMMR_Rewind D (of_nat (mmr_size n0)) leaves m = (Inr (), m') \<and> pmmr_ok H D lf n0 m' \<and>
    unspent m' = (unspent m \<union> set leaves) \<inter> {i. unat i < n0}"
proof -
  have ok: "pmmr_ok H D lf n m" and small: "bm_small (pm_leafSet m)" using at by (simp_all add: pmmr_at_def)
  have n63: "n < 2 ^ 63" "n0 < 2 ^ 63" using ok n0 by (simp_all add: pmmr_ok_def)
  have nodes: "df_ok 32 (pm_hashFile m)" "df_working 32 (pm_hashFile m) = map (\<lambda>i. node_hash H lf (nheight i) i) [0..<mmr_size n]"
    and data: "df_ok D (pm_dataFile m)" "df_working D (pm_dataFile m) = map lf [0..<n]"
    and pl: "pm_pruneList m = pl_empty" and bm: "bm_ok (pm_leafSet m)"
    using ok by (simp_all add: pmmr_ok_def holds_nodes_def)
  have s: "unat (of_nat (mmr_size n0) :: u64) = mmr_size n0" using n63 by (intro unat_of_nat_mmr_size)
  have le: "mmr_size n0 \<le> mmr_size n" using n0(2) mmr_size_mono [of n0 n] by (cases "n0 = n") auto
  have l: "unat (GetNumLeaves (of_nat (mmr_size n0) - 1)) = n0" using n0(1) n63(2) by (rule GetNumLeaves_last)
  note h = df_rewind [OF nodes(1), of "of_nat (mmr_size n0)"] and d = df_rewind [OF data(1), of "GetNumLeaves (of_nat (mmr_size n0) - 1)"]
  obtain hf where hf: "DataFile_Rewind 32 (of_nat (mmr_size n0)) (pm_hashFile m) = (Inr (), hf)" "holds_nodes H lf (mmr_size n0) hf"
    using h(1,2,3) s le nodes(2)
    by (cases "DataFile_Rewind 32 (of_nat (mmr_size n0)) (pm_hashFile m)") (auto simp: holds_nodes_def take_map)
  obtain dat where dat: "DataFile_Rewind D (GetNumLeaves (of_nat (mmr_size n0) - 1)) (pm_dataFile m) = (Inr (), dat)"
    "df_ok D dat" "df_working D dat = map lf [0..<n0]"
    using d(1,2,3) l n0(2) data(2)
    by (cases "DataFile_Rewind D (GetNumLeaves (of_nat (mmr_size n0) - 1)) (pm_dataFile m)") (auto simp: take_map)
  from bitmap_leaves.rewind_members [OF bm bm_small_room [OF small leaves], of "GetNumLeaves (of_nat (mmr_size n0) - 1)"]
  have rm: "bm_ok (LeafSet_Rewind (GetNumLeaves (of_nat (mmr_size n0) - 1)) leaves (pm_leafSet m))"
    "bm_members (LeafSet_Rewind (GetNumLeaves (of_nat (mmr_size n0) - 1)) leaves (pm_leafSet m)) =
       (unspent m \<union> set leaves) \<inter> {i. unat i < n0}"
    by (simp_all add: unspent_def word_less_nat_alt l)
  have "mmr_size n0 * 32 < 2 ^ 64" using ok le by (simp add: pmmr_ok_def)
  then show ?thesis
    using hf dat rm n63 pl ok
    by (auto simp: PMMR_Rewind_def Let_def pmmr_ok_def unspent_def)
qed

section \<open>The kernel MMR\<close>

definition kmmr_at :: "hash_fn \<Rightarrow> (nat \<Rightarrow> u8 list) \<Rightarrow> nat \<Rightarrow> kernel_mmr \<Rightarrow> bool" where
  "kmmr_at H lf n m \<longleftrightarrow> holds_nodes H lf (mmr_size n) (km_hashFile m) \<and>
     df_ok KERNEL_SIZE (km_dataFile m) \<and> df_working KERNEL_SIZE (km_dataFile m) = map lf [0..<n] \<and>
     mmr_size n * 32 < 2 ^ 64 \<and> n < 2 ^ 63"

lemma kmmr_at_cong:
  assumes "\<And>j. j < n \<Longrightarrow> lf j = lf' j" and "kmmr_at H lf n m"
  shows "kmmr_at H lf' n m"
  using assms holds_nodes_cong [of n lf lf' H "km_hashFile m"] by (simp add: kmmr_at_def)

lemma kmmr_at_apply:
  assumes H: "\<And>x. length (H x) = 32" and at: "kmmr_at H lf n m"
    and bytes: "lf n = GetBytes (TransactionKernel_Serialize k (Serializer_new V1))" "length (lf n) = KERNEL_SIZE"
    and room: "mmr_size (Suc n) * 32 < 2 ^ 64" "Suc n < 2 ^ 63" "Suc n * KERNEL_SIZE < 2 ^ 64"
  shows "\<exists>m'. ApplyKernel H k m = (Inr (), m') \<and> kmmr_at H lf (Suc n) m'"
proof -
  have nodes: "holds_nodes H lf (mmr_size n) (km_hashFile m)"
    and d: "df_ok KERNEL_SIZE (km_dataFile m)" "df_working KERNEL_SIZE (km_dataFile m) = map lf [0..<n]"
    using at by (simp_all add: kmmr_at_def)
  obtain f where f: "AddHashes H (lf n) None (km_hashFile m) = (Inr (), f)" "holds_nodes H lf (mmr_size (Suc n)) f"
    using AddHashes_nodes [of H, OF H room(1,2) nodes] by blast
  have "length (file_contents (d_file (km_dataFile m))) + KERNEL_SIZE < 2 ^ 64"
    using df_contents_length [OF d(1)] d(2) room(3) by simp
  then have "df_ok KERNEL_SIZE (DataFile_AddData (lf n) (km_dataFile m))"
    "df_working KERNEL_SIZE (DataFile_AddData (lf n) (km_dataFile m)) = map lf [0..<Suc n]"
    using df_add [OF d(1)] bytes(2) d(2) by simp_all
  then show ?thesis using f room bytes(1) by (auto simp: ApplyKernel_def Let_def kmmr_at_def)
qed

lemma kmmr_at_rewind:
  assumes at: "kmmr_at H lf n m" and n0: "0 < n0" "n0 \<le> n"
  shows "\<exists>m'. KernelMMR_Rewind (of_nat (mmr_size n0)) m = (Inr True, m') \<and> kmmr_at H lf n0 m'"
proof -
  have n63: "n < 2 ^ 63" "n0 < 2 ^ 63" using at n0 by (simp_all add: kmmr_at_def)
  have nodes: "df_ok 32 (km_hashFile m)" "df_working 32 (km_hashFile m) = map (\<lambda>i. node_hash H lf (nheight i) i) [0..<mmr_size n]"
    and data: "df_ok KERNEL_SIZE (km_dataFile m)" "df_working KERNEL_SIZE (km_dataFile m) = map lf [0..<n]"
    using at by (simp_all add: kmmr_at_def holds_nodes_def)
  have s: "unat (of_nat (mmr_size n0) :: u64) = mmr_size n0" using n63 by (intro unat_of_nat_mmr_size)
  have le: "mmr_size n0 \<le> mmr_size n" using n0(2) mmr_size_mono [of n0 n] by (cases "n0 = n") auto
  have l: "unat (GetNumLeaves (of_nat (mmr_size n0) - 1)) = n0" using n0(1) n63(2) by (rule GetNumLeaves_last)
  note h = df_rewind [OF nodes(1), of "of_nat (mmr_size n0)"] and d = df_rewind [OF data(1), of "GetNumLeaves (of_nat (mmr_size n0) - 1)"]
  obtain hf where hf: "DataFile_Rewind 32 (of_nat (mmr_size n0)) (km_hashFile m) = (Inr (), hf)" "holds_nodes H lf (mmr_size n0) hf"
    using h(1,2,3) s le nodes(2)
    by (cases "DataFile_Rewind 32 (of_nat (mmr_size n0)) (km_hashFile m)") (auto simp: holds_nodes_def take_map)
  obtain dat where dat: "DataFile_Rewind KERNEL_SIZE (GetNumLeaves (of_nat (mmr_size n0) - 1)) (km_dataFile m) = (Inr (), dat)"
    "df_ok KERNEL_SIZE dat" "df_working KERNEL_SIZE dat = map lf [0..<n0]"
    using d(1,2,3) l n0(2) data(2)
    by (cases "DataFile_Rewind KERNEL_SIZE (GetNumLeaves (of_nat (mmr_size n0) - 1)) (km_dataFile m)") (auto simp: take_map)
  have "mmr_size n0 * 32 < 2 ^ 64" using at le by (simp add: kmmr_at_def)
  then show ?thesis
    using hf dat n63
    by (auto simp: KernelMMR_Rewind_def on_km_hashFile_def on_km_dataFile_def zoom_action_eq action_simps bind_action_def kmmr_at_def)
qed

section \<open>The database beside the hash set\<close>

text \<open>Two databases that answer alike outside the given tables.\<close>

definition agree_outside :: "db_table set \<Rightarrow> block_db \<Rightarrow> block_db \<Rightarrow> bool" where
  "agree_outside T db db' \<longleftrightarrow> db_headersCache db' = db_headersCache db \<and>
     (\<forall>tbl. tbl \<notin> T \<longrightarrow> db_working db' tbl = db_working db tbl)"

lemma agree_refl [simp]: "agree_outside T db db"
  by (simp add: agree_outside_def)

lemma agree_trans: "agree_outside T db1 db2 \<Longrightarrow> agree_outside T db2 db3 \<Longrightarrow> agree_outside T db1 db3"
  by (simp add: agree_outside_def)

lemma agree_reads:
  "agree_outside T db db' \<Longrightarrow> BLOCK \<notin> T \<Longrightarrow> GetBlock H hash db' = GetBlock H hash db"
  "agree_outside T db db' \<Longrightarrow> HEADER \<notin> T \<Longrightarrow> GetBlockHeader H hash db' = GetBlockHeader H hash db"
  "agree_outside T db db' \<Longrightarrow> SPENT_OUTPUTS \<notin> T \<Longrightarrow> GetSpentPositions hash db' = GetSpentPositions hash db"
  "agree_outside T db db' \<Longrightarrow> OUTPUT_POS \<notin> T \<Longrightarrow> GetOutputPosition c db' = GetOutputPosition c db"
  by (simp_all add: agree_outside_def GetBlock_def GetBlockHeader_def GetSpentPositions_def GetOutputPosition_def db_working_def
      RocksDB_Get_def cong: option.case_cong)

lemma agree_writes [simp]:
  "agree_outside {OUTPUT_POS} db (AddOutputPosition c l db)"
  "agree_outside {OUTPUT_POS} db (RemoveOutputPositions cs db)"
  "agree_outside {SPENT_OUTPUTS} db (AddSpentPositions hash xs db)"
  by (simp_all add: agree_outside_def AddOutputPosition_def RemoveOutputPositions_def AddSpentPositions_def db_working_def
      DeleteKeys_view)

lemma position_add:
  "GetOutputPosition c' (AddOutputPosition c l db) = (if c' = c then Inr (Some l) else GetOutputPosition c' db)"
proof -
  have "length (location_enc V1 l) < 2 ^ 64" by (simp add: location_enc_def)
  then show ?thesis
    using location_codec.get_put [of l OUTPUT_POS c "db_rocks db"]
      location_codec.get_put_other [of OUTPUT_POS OUTPUT_POS c' c OutputLocation_Deserialize l "db_rocks db"]
    by (simp add: GetOutputPosition_def AddOutputPosition_def)
qed

lemma position_remove:
  "GetOutputPosition c (RemoveOutputPositions cs db) = (if c \<in> set cs then Inr None else GetOutputPosition c db)"
proof -
  have "rdb_view (RocksDB_DeleteKeys OUTPUT_POS cs r) OUTPUT_POS c = (if c \<in> set cs then None else rdb_view r OUTPUT_POS c)" for r
    unfolding RocksDB_DeleteKeys_def by (induction cs arbitrary: r) auto
  then show ?thesis by (simp add: GetOutputPosition_def RemoveOutputPositions_def RocksDB_Get_def)
qed

lemma spent_positions_add:
  assumes "\<forall>x\<in>set xs. length (so_commitment x) = 33" and "length xs < 2 ^ 16"
  shows "GetSpentPositions hash (AddSpentPositions hash xs db) = Inr (SpentOutputs_BuildMap xs)"
proof -
  have "length (concat (map (spent_enc V1) xs)) = 49 * length xs"
    using assms(1) by (induction xs) (simp_all add: spent_enc_def location_enc_def)
  then have "length (spents_enc V1 xs) < 2 ^ 64" using assms(2) by (simp add: spents_enc_def)
  moreover have "list_all (spent_ok V1) xs" using assms(1) by (simp add: list_all_iff spent_ok_def)
  ultimately show ?thesis
    using spents_codec.get_put [of xs SPENT_OUTPUTS hash "db_rocks db"] assms(2)
    by (simp add: GetSpentPositions_def AddSpentPositions_def bind_result_def)
qed

lemma BuildMap_distinct:
  assumes "distinct (map so_commitment xs)" and "x \<in> set xs"
  shows "SpentOutputs_BuildMap xs (so_commitment x) = Some (so_outputLocation x)"
proof -
  let ?f = "\<lambda>x m. if m (so_commitment x) = None then m(so_commitment x \<mapsto> so_outputLocation x) else m"
  have "fold ?f xs m (so_commitment x) = Some (so_outputLocation x)"
    if "\<forall>y\<in>set xs. m (so_commitment y) = None" "distinct (map so_commitment xs)" "x \<in> set xs" for m xs
    using that
  proof (induction xs arbitrary: m)
    case (Cons y xs)
    have keep: "fold ?f xs m c = Some l" if "m c = Some l" for m c l xs
      using that
    proof (induction xs arbitrary: m)
      case (Cons z zs)
      then have "?f z m c = Some l" by auto
      then show ?case using Cons.IH by simp
    qed simp
    show ?case
    proof (cases "x = y")
      case True
      then show ?thesis
        using Cons.prems keep [of "m(so_commitment y \<mapsto> so_outputLocation y)" "so_commitment y" "so_outputLocation y" xs] by simp
    next
      case False
      then have "x \<in> set xs" using Cons.prems by simp
      moreover have "\<forall>z\<in>set xs. (m(so_commitment y \<mapsto> so_outputLocation y)) (so_commitment z) = None"
        using Cons.prems(1,2) by (auto simp: image_iff)
      ultimately show ?thesis using Cons.IH Cons.prems by simp
    qed
  qed simp
  then show ?thesis using assms by (simp add: SpentOutputs_BuildMap_def)
qed

section \<open>Applying a block\<close>

definition ths_at ::
  "hash_fn \<Rightarrow> (nat \<Rightarrow> u8 list) \<Rightarrow> (nat \<Rightarrow> u8 list) \<Rightarrow> (nat \<Rightarrow> u8 list) \<Rightarrow> nat \<Rightarrow> nat \<Rightarrow> tx_hash_set \<Rightarrow> bool" where
  "ths_at H lo lp lk n k t \<longleftrightarrow>
     pmmr_at H OUTPUT_SIZE lo n (ths_outputPMMR t) \<and> pmmr_at H RANGE_PROOF_SIZE lp n (ths_rangeProofPMMR t) \<and>
     kmmr_at H lk k (ths_kernelMMR t) \<and> unspent (ths_rangeProofPMMR t) = unspent (ths_outputPMMR t)"

abbreviation utxo :: "tx_hash_set \<Rightarrow> u64 set" where
  "utxo t \<equiv> unspent (ths_outputPMMR t)"

abbreviation spent_leaf :: "spent_output \<Rightarrow> u64" where
  "spent_leaf x \<equiv> GetLeafIndex (ol_mmrIndex (so_outputLocation x))"

lemma on_ths_eq: "on_ths m s = (fst (m (fst s)), snd (m (fst s)), snd s)"
  by (simp add: on_ths_def zoom_action_eq)

lemmas on_defs = on_ths_eq on_outputs_def on_rangeProofs_def on_kernels_def on_db_def zoom_action_eq

lemma on_ths_Inr:
  "on_ths (on_outputs m) s = (Inr x, s') \<longleftrightarrow>
     (\<exists>o'. m (ths_outputPMMR (fst s)) = (Inr x, o') \<and> s' = ((fst s)\<lparr>ths_outputPMMR := o'\<rparr>, snd s))"
  "on_ths (on_rangeProofs m) s = (Inr x, s') \<longleftrightarrow>
     (\<exists>o'. m (ths_rangeProofPMMR (fst s)) = (Inr x, o') \<and> s' = ((fst s)\<lparr>ths_rangeProofPMMR := o'\<rparr>, snd s))"
  "on_ths (on_kernels k) s = (Inr y, s') \<longleftrightarrow>
     (\<exists>o'. k (ths_kernelMMR (fst s)) = (Inr y, o') \<and> s' = ((fst s)\<lparr>ths_kernelMMR := o'\<rparr>, snd s))"
  "on_db f s = (Inr u, s') \<longleftrightarrow> s' = (fst s, f (snd s))"
  by (auto simp: on_defs action_apply prod_eq_iff)

lemma prune_inputs_effect:
  assumes "ths_at H lo lp lk n k t" and "prune_inputs is acc (t, db) = (Inr (Some spent), (t', db'))"
  shows "db' = db \<and> ths_at H lo lp lk n k t' \<and> ths_blockHeader t' = ths_blockHeader t \<and>
    (\<exists>new. spent = acc @ new \<and> map so_commitment new = map ti_commitment is \<and>
       (\<forall>x\<in>set new. GetOutputPosition (so_commitment x) db = Inr (Some (so_outputLocation x)) \<and> spent_leaf x \<in> utxo t) \<and>
       distinct (map spent_leaf new) \<and> utxo t' = utxo t - spent_leaf ` set new)"
  using assms
proof (induction "is" arbitrary: acc t)
  case Nil
  then show ?case by (auto simp: action_simps)
next
  case (Cons i "is")
  from Cons.prems(2) obtain l m1 m2 where
    l: "GetOutputPosition (ti_commitment i) db = Inr (Some l)"
    and m1: "PMMR_Remove (ol_mmrIndex l) (ths_outputPMMR t) = (Inr (), m1)"
    and m2: "PMMR_Remove (ol_mmrIndex l) (ths_rangeProofPMMR t) = (Inr (), m2)"
    and rest: "prune_inputs is (acc @ [\<lparr>so_commitment = ti_commitment i, so_outputLocation = l\<rparr>])
        (t\<lparr>ths_outputPMMR := m1, ths_rangeProofPMMR := m2\<rparr>, db) = (Inr (Some spent), (t', db'))"
    by (auto simp: bind_action_eq_Inr_iff action_apply on_ths_Inr split: option.splits)
  let ?t = "t\<lparr>ths_outputPMMR := m1, ths_rangeProofPMMR := m2\<rparr>" and ?x = "\<lparr>so_commitment = ti_commitment i, so_outputLocation = l\<rparr>"
  have at: "pmmr_at H OUTPUT_SIZE lo n (ths_outputPMMR t)" "pmmr_at H RANGE_PROOF_SIZE lp n (ths_rangeProofPMMR t)"
    using Cons.prems(1) by (simp_all add: ths_at_def)
  note r1 = pmmr_at_remove [OF at(1) m1] and r2 = pmmr_at_remove [OF at(2) m2]
  have t: "ths_at H lo lp lk n k ?t" using Cons.prems(1) r1 r2 by (simp add: ths_at_def)
  from Cons.IH [OF t rest] obtain new where
    new: "spent = (acc @ [?x]) @ new" "map so_commitment new = map ti_commitment is"
      "\<forall>x\<in>set new. GetOutputPosition (so_commitment x) db = Inr (Some (so_outputLocation x)) \<and> spent_leaf x \<in> utxo ?t"
      "distinct (map spent_leaf new)" "utxo t' = utxo ?t - spent_leaf ` set new"
    and t': "db' = db" "ths_at H lo lp lk n k t'" "ths_blockHeader t' = ths_blockHeader t" by auto
  have "distinct (map spent_leaf (?x # new))" using new(3,4) r1(3) by auto
  moreover have "utxo t' = utxo t - spent_leaf ` set (?x # new)" using new(5) r1(3) by auto
  moreover have "\<forall>x\<in>set (?x # new). GetOutputPosition (so_commitment x) db = Inr (Some (so_outputLocation x)) \<and> spent_leaf x \<in> utxo t"
    using new(3) l r1(1,3) by auto
  ultimately show ?case using new(1,2) t' by (intro conjI exI [of _ "?x # new"]) simp_all
qed


text \<open>The bytes a block adds to the three ranges, and where the positions of the database point.\<close>

abbreviation output_leaf :: "transaction_output \<Rightarrow> u8 list" where
  "output_leaf x \<equiv> GetBytes (OutputIdentifier_Serialize (OutputIdentifier_FromOutput x) (Serializer_new V1))"

abbreviation proof_leaf :: "transaction_output \<Rightarrow> u8 list" where
  "proof_leaf x \<equiv> GetBytes (RangeProof_Serialize (to_rangeProof x) (Serializer_new V1))"

abbreviation kernel_leaf :: "transaction_kernel \<Rightarrow> u8 list" where
  "kernel_leaf k \<equiv> GetBytes (TransactionKernel_Serialize k (Serializer_new V1))"

definition positions_point :: "(nat \<Rightarrow> u8 list) \<Rightarrow> nat \<Rightarrow> block_db \<Rightarrow> bool" where
  "positions_point lo n db \<longleftrightarrow> (\<forall>c l. GetOutputPosition c db = Inr (Some l) \<longrightarrow>
     (\<exists>j<n. ol_mmrIndex l = of_nat (mmr_size j) \<and> drop 1 (lo j) = c))"

lemma leaf_bytes:
  "output_leaf x = to_features x # to_commitment x"
  "length (proof_leaf x) = 8 + length (to_rangeProof x)"
  by (simp_all add: OutputIdentifier_Serialize_def OutputIdentifier_FromOutput_def RangeProof_Serialize_def Commitment_Serialize_def
      writer_defs GetBytes_def insert_end_def Serializer_new_def be_bytes_u8)

lemma room_54:
  assumes "n < (2 :: nat) ^ 54"
  shows "mmr_size n * 32 < 2 ^ 64" "n < 2 ^ 63" "n * OUTPUT_SIZE < 2 ^ 64" "n * RANGE_PROOF_SIZE < 2 ^ 64" "n * KERNEL_SIZE < 2 ^ 64"
  using mmr_size_less [OF assms] assms by (simp_all add: OUTPUT_SIZE_def RANGE_PROOF_SIZE_def KERNEL_SIZE_def)

text \<open>One turn of the loop over the outputs.\<close>

lemma append_output_step:
  assumes at: "ths_at H lo lp lk n k t" and pp: "positions_point lo n db" and H: "\<And>x. length (H x) = 32"
    and lf: "lo n = output_leaf x" "lp n = proof_leaf x" and fits: "length (to_commitment x) = 33" "length (to_rangeProof x) = 675"
    and n: "Suc n < 2 ^ 54" and p: "GetOutputPosition (to_commitment x) db = Inr p"
    and free: "\<And>l. p = Some l \<Longrightarrow> GetLeafIndex (ol_mmrIndex l) \<notin> utxo t"
  shows "\<exists>t1. append_outputs H h (x # outs) (t, db) =
      append_outputs H h outs (t1, AddOutputPosition (to_commitment x) \<lparr>ol_mmrIndex = of_nat (mmr_size n), ol_blockHeight = h\<rparr> db) \<and>
    ths_at H lo lp lk (Suc n) k t1 \<and> ths_blockHeader t1 = ths_blockHeader t \<and> utxo t1 = insert (of_nat n) (utxo t)"
proof -
  note room = room_54 [OF n]
  have len: "length (lo n) = OUTPUT_SIZE" "length (lp n) = RANGE_PROOF_SIZE"
    using fits by (simp_all add: lf leaf_bytes OUTPUT_SIZE_def RANGE_PROOF_SIZE_def)
  have at': "pmmr_at H OUTPUT_SIZE lo n (ths_outputPMMR t)" "pmmr_at H RANGE_PROOF_SIZE lp n (ths_rangeProofPMMR t)"
    using at by (simp_all add: ths_at_def)
  obtain m1 where m1: "PMMR_Append H OutputIdentifier_Serialize (OutputIdentifier_FromOutput x) (ths_outputPMMR t) = (Inr (), m1)"
      "pmmr_at H OUTPUT_SIZE lo (Suc n) m1" "unspent m1 = insert (of_nat n) (utxo t)"
    using pmmr_at_append [of H OUTPUT_SIZE lo n _ OutputIdentifier_Serialize "OutputIdentifier_FromOutput x", OF H at'(1) lf(1) len(1)]
      room(1-3) by blast
  obtain m2 where m2: "PMMR_Append H RangeProof_Serialize (to_rangeProof x) (ths_rangeProofPMMR t) = (Inr (), m2)"
      "pmmr_at H RANGE_PROOF_SIZE lp (Suc n) m2" "unspent m2 = insert (of_nat n) (unspent (ths_rangeProofPMMR t))"
    using pmmr_at_append [of H RANGE_PROOF_SIZE lp n _ RangeProof_Serialize "to_rangeProof x", OF H at'(2) lf(2) len(2)]
      room(1,2,4) by blast
  let ?t = "t\<lparr>ths_outputPMMR := m1, ths_rangeProofPMMR := m2\<rparr>"
  have size: "PMMR_GetSize (ths_outputPMMR t) = of_nat (mmr_size n)" using at'(1) PMMR_GetSize_ok by (auto simp: pmmr_at_def)
  have "\<not> IsUnpruned (ol_mmrIndex l) (ths_outputPMMR t)" if some: "p = Some l" for l
    using free [OF some] by (simp add: IsUnpruned_def unspent_def bitmap_leaves.contains_members)
  then have "\<not> (case p of None \<Rightarrow> False | Some l \<Rightarrow> IsUnpruned (ol_mmrIndex l) (ths_outputPMMR t))" by (cases p) simp_all
  then have "append_outputs H h (x # outs) (t, db) =
      append_outputs H h outs (?t, AddOutputPosition (to_commitment x) \<lparr>ol_mmrIndex = of_nat (mmr_size n), ol_blockHeight = h\<rparr> db)"
    using p m1(1) m2(1) by (cases p) (simp_all add: bind_action_def action_apply on_defs size)
  moreover have "ths_at H lo lp lk (Suc n) k ?t" using at m1 m2 by (simp add: ths_at_def)
  ultimately show ?thesis using m1(3) by (intro exI [of _ ?t]) simp
qed

lemma positions_point_add:
  assumes "positions_point lo n db" and "lo n = output_leaf x"
  shows "positions_point lo (Suc n) (AddOutputPosition (to_commitment x) \<lparr>ol_mmrIndex = of_nat (mmr_size n), ol_blockHeight = h\<rparr> db)"
proof -
  have "drop 1 (lo n) = to_commitment x" by (simp add: assms(2) leaf_bytes)
  then show ?thesis
    using assms(1) by (auto simp: positions_point_def position_add split: if_splits) (meson less_SucI)
qed

lemma append_outputs_effect:
  assumes "ths_at H lo lp lk n k t" and "positions_point lo n db" and "\<And>x. length (H x) = 32"
    and "\<forall>j<length outs. lo (n + j) = output_leaf (outs ! j) \<and> lp (n + j) = proof_leaf (outs ! j)"
    and "\<forall>x\<in>set outs. length (to_commitment x) = 33 \<and> length (to_rangeProof x) = 675"
    and "n + length outs < 2 ^ 54" and "append_outputs H h outs (t, db) = (Inr True, (t', db'))"
  shows "ths_at H lo lp lk (n + length outs) k t' \<and> positions_point lo (n + length outs) db' \<and>
    ths_blockHeader t' = ths_blockHeader t \<and> utxo t' = utxo t \<union> of_nat ` {n..<n + length outs} \<and>
    agree_outside {OUTPUT_POS} db db' \<and>
    (\<forall>c. c \<notin> to_commitment ` set outs \<longrightarrow> GetOutputPosition c db' = GetOutputPosition c db) \<and>
    (\<forall>c\<in>to_commitment ` set outs. \<exists>p. GetOutputPosition c db = Inr p \<and>
       (\<forall>l. p = Some l \<longrightarrow> GetLeafIndex (ol_mmrIndex l) \<notin> utxo t))"
  using assms
proof (induction outs arbitrary: n t db)
  case Nil
  then show ?case by (simp add: action_simps)
next
  case (Cons x outs)
  let ?db = "AddOutputPosition (to_commitment x) \<lparr>ol_mmrIndex = of_nat (mmr_size n), ol_blockHeight = h\<rparr> db"
  have n: "Suc n < 2 ^ 54" and n63: "n < 2 ^ 63" using Cons.prems(6) by simp_all
  have lf: "lo n = output_leaf x" "lp n = proof_leaf x" using Cons.prems(4) by force+
  have at: "pmmr_ok H OUTPUT_SIZE lo n (ths_outputPMMR t)" using Cons.prems(1) by (simp add: ths_at_def pmmr_at_def)
  from Cons.prems(7) obtain p where p: "GetOutputPosition (to_commitment x) db = Inr p"
    and free: "\<And>l. p = Some l \<Longrightarrow> \<not> IsUnpruned (ol_mmrIndex l) (ths_outputPMMR t)"
    by (auto simp: bind_action_eq_Inr_iff action_apply split: if_splits option.splits)
  have first: "GetLeafIndex (ol_mmrIndex l) \<notin> utxo t" if some: "p = Some l" for l
  proof -
    obtain j where "j < n" "ol_mmrIndex l = of_nat (mmr_size j)" using Cons.prems(2) p some by (auto simp: positions_point_def)
    then show ?thesis using free [OF some] IsUnpruned_iff [OF at, of j] GetLeafIndex_size [of j] n63 by simp
  qed
  have fits: "length (to_commitment x) = 33" "length (to_rangeProof x) = 675" using Cons.prems(5) by simp_all
  from append_output_step [OF Cons.prems(1-3) lf fits n p first, of h outs] obtain t1 where
    step: "append_outputs H h (x # outs) (t, db) = append_outputs H h outs (t1, ?db)"
    and t1: "ths_at H lo lp lk (Suc n) k t1" "ths_blockHeader t1 = ths_blockHeader t" "utxo t1 = insert (of_nat n) (utxo t)" by blast
  have new: "\<forall>j<length outs. lo (Suc n + j) = output_leaf (outs ! j) \<and> lp (Suc n + j) = proof_leaf (outs ! j)"
    using Cons.prems(4) by (auto dest: spec [of _ "Suc _"])
  note IH = Cons.IH [OF t1(1) positions_point_add [OF Cons.prems(2) lf(1)] Cons.prems(3) new _ _ Cons.prems(7) [unfolded step]]
  have leaf: "GetLeafIndex (of_nat (mmr_size n)) = of_nat n" using n63 by (rule GetLeafIndex_size)
  have later: "\<exists>p. GetOutputPosition c db = Inr p \<and> (\<forall>l. p = Some l \<longrightarrow> GetLeafIndex (ol_mmrIndex l) \<notin> utxo t)"
    if "c \<in> to_commitment ` set outs" for c
    using IH Cons.prems(5,6) that t1(3) leaf by (fastforce simp: position_add split: if_splits)
  have range: "insert n {Suc n..<Suc n + length outs} = {n..<Suc n + length outs}" by auto
  then have "utxo t' = utxo t \<union> of_nat ` {n..<n + length (x # outs)}"
    using IH Cons.prems(5,6) t1(3) by (auto simp flip: range)
  moreover have "agree_outside {OUTPUT_POS} db db'"
    using IH Cons.prems(5,6) agree_trans [OF agree_writes(1)] by auto
  ultimately show ?case using IH Cons.prems(5,6) t1(2) first later p by (auto simp: position_add)
qed

lemma append_outputs_succeeds:
  assumes "ths_at H lo lp lk n k t" and "positions_point lo n db" and "\<And>x. length (H x) = 32"
    and "\<forall>j<length outs. lo (n + j) = output_leaf (outs ! j) \<and> lp (n + j) = proof_leaf (outs ! j)"
    and "\<forall>x\<in>set outs. length (to_commitment x) = 33 \<and> length (to_rangeProof x) = 675"
    and "n + length outs < 2 ^ 54" and "distinct (map to_commitment outs)"
    and "\<forall>x\<in>set outs. \<exists>p. GetOutputPosition (to_commitment x) db = Inr p \<and>
       (\<forall>l. p = Some l \<longrightarrow> GetLeafIndex (ol_mmrIndex l) \<notin> utxo t)"
  shows "\<exists>s. append_outputs H h outs (t, db) = (Inr True, s)"
  using assms
proof (induction outs arbitrary: n t db)
  case Nil
  then show ?case by (simp add: action_simps)
next
  case (Cons x outs)
  let ?db = "AddOutputPosition (to_commitment x) \<lparr>ol_mmrIndex = of_nat (mmr_size n), ol_blockHeight = h\<rparr> db"
  have n: "Suc n < 2 ^ 54" "n < 2 ^ 63" using Cons.prems(6) by simp_all
  have lf: "lo n = output_leaf x" "lp n = proof_leaf x" using Cons.prems(4) by force+
  have fits: "length (to_commitment x) = 33" "length (to_rangeProof x) = 675" using Cons.prems(5) by simp_all
  obtain p where p: "GetOutputPosition (to_commitment x) db = Inr p" "\<And>l. p = Some l \<Longrightarrow> GetLeafIndex (ol_mmrIndex l) \<notin> utxo t"
    using Cons.prems(8) by auto
  from append_output_step [OF Cons.prems(1-3) lf fits n(1) p, of h outs] obtain t1 where
    step: "append_outputs H h (x # outs) (t, db) = append_outputs H h outs (t1, ?db)"
    and t1: "ths_at H lo lp lk (Suc n) k t1" "utxo t1 = insert (of_nat n) (utxo t)" by blast
  have new: "\<forall>j<length outs. lo (Suc n + j) = output_leaf (outs ! j) \<and> lp (Suc n + j) = proof_leaf (outs ! j)"
    using Cons.prems(4) by (auto dest: spec [of _ "Suc _"])
  have other: "GetLeafIndex (ol_mmrIndex l) \<noteq> of_nat n" if l: "GetOutputPosition c db = Inr (Some l)" for c l
  proof -
    obtain j where j: "j < n" "ol_mmrIndex l = of_nat (mmr_size j)" using Cons.prems(2) l by (auto simp: positions_point_def)
    then show ?thesis using GetLeafIndex_size [of j] n(2) of_nat_distinct [of j n] by simp
  qed
  have "\<exists>p. GetOutputPosition (to_commitment y) ?db = Inr p \<and>
       (\<forall>l. p = Some l \<longrightarrow> GetLeafIndex (ol_mmrIndex l) \<notin> utxo t1)" if y: "y \<in> set outs" for y
  proof -
    have "to_commitment y \<noteq> to_commitment x" using Cons.prems(7) y by (auto simp: image_iff)
    moreover obtain p where "GetOutputPosition (to_commitment y) db = Inr p" "\<forall>l. p = Some l \<longrightarrow> GetLeafIndex (ol_mmrIndex l) \<notin> utxo t"
      using Cons.prems(8) y by auto
    ultimately show ?thesis using other [of "to_commitment y"] t1(2) by (simp add: position_add)
  qed
  then show ?case
    using Cons.IH [OF t1(1) positions_point_add [OF Cons.prems(2) lf(1)] Cons.prems(3) new] Cons.prems(5-7) step by simp
qed

lemma positions_point_inj:
  assumes "positions_point lo n db" "n < 2 ^ 63" "GetOutputPosition c db = Inr (Some l)" "GetOutputPosition c' db = Inr (Some l')"
    and "GetLeafIndex (ol_mmrIndex l) = GetLeafIndex (ol_mmrIndex l')"
  shows "c = c'"
proof -
  obtain j where j: "j < n" "ol_mmrIndex l = of_nat (mmr_size j)" "drop 1 (lo j) = c" using assms(1,3) by (auto simp: positions_point_def)
  obtain j' where j': "j' < n" "ol_mmrIndex l' = of_nat (mmr_size j')" "drop 1 (lo j') = c'" using assms(1,4) by (auto simp: positions_point_def)
  have "(of_nat j :: u64) = of_nat j'" using assms(2,5) j j' GetLeafIndex_size [of j] GetLeafIndex_size [of j'] by simp
  then have "unat (of_nat j :: u64) = unat (of_nat j' :: u64)" by simp
  then have "j = j'" using assms(2) j(1) j'(1) by (simp add: unat_of_nat_small)
  then show ?thesis using j j' by simp
qed


lemma prune_inputs_succeeds:
  assumes "ths_at H lo lp lk n k t" and "positions_point lo n db"
    and "\<forall>i\<in>set is. \<exists>l. GetOutputPosition (ti_commitment i) db = Inr (Some l) \<and> GetLeafIndex (ol_mmrIndex l) \<in> utxo t"
    and "distinct (map ti_commitment is)" and "n < 2 ^ 63"
  shows "\<exists>spent t'. prune_inputs is acc (t, db) = (Inr (Some spent), (t', db))"
  using assms
proof (induction "is" arbitrary: t acc)
  case Nil
  then show ?case by (simp add: action_simps)
next
  case (Cons i "is")
  obtain l where l: "GetOutputPosition (ti_commitment i) db = Inr (Some l)" "GetLeafIndex (ol_mmrIndex l) \<in> utxo t"
    using Cons.prems(3) by auto
  obtain j where j: "j < n" "ol_mmrIndex l = of_nat (mmr_size j)" using Cons.prems(2) l(1) by (auto simp: positions_point_def)
  have at: "pmmr_at H OUTPUT_SIZE lo n (ths_outputPMMR t)" "pmmr_at H RANGE_PROOF_SIZE lp n (ths_rangeProofPMMR t)"
    and eq: "unspent (ths_rangeProofPMMR t) = utxo t" using Cons.prems(1) by (simp_all add: ths_at_def)
  have mem: "of_nat j \<in> utxo t" using l(2) j Cons.prems(5) GetLeafIndex_size [of j] by simp
  obtain m1 where m1: "PMMR_Remove (ol_mmrIndex l) (ths_outputPMMR t) = (Inr (), m1)"
    using PMMR_Remove_ok(1) [of H OUTPUT_SIZE lo n "ths_outputPMMR t" j] at(1) j mem by (auto simp: pmmr_at_def prod_eq_iff)
  obtain m2 where m2: "PMMR_Remove (ol_mmrIndex l) (ths_rangeProofPMMR t) = (Inr (), m2)"
    using PMMR_Remove_ok(1) [of H RANGE_PROOF_SIZE lp n "ths_rangeProofPMMR t" j] at(2) j mem eq by (auto simp: pmmr_at_def prod_eq_iff)
  let ?t = "t\<lparr>ths_outputPMMR := m1, ths_rangeProofPMMR := m2\<rparr>"
  note r1 = pmmr_at_remove [OF at(1) m1] and r2 = pmmr_at_remove [OF at(2) m2]
  have t: "ths_at H lo lp lk n k ?t" using Cons.prems(1) r1 r2 by (simp add: ths_at_def)
  have "\<exists>l. GetOutputPosition (ti_commitment x) db = Inr (Some l) \<and> GetLeafIndex (ol_mmrIndex l) \<in> utxo ?t" if x: "x \<in> set is" for x
  proof -
    obtain l' where l': "GetOutputPosition (ti_commitment x) db = Inr (Some l')" "GetLeafIndex (ol_mmrIndex l') \<in> utxo t"
      using Cons.prems(3) x by auto
    moreover have "ti_commitment x \<noteq> ti_commitment i" using Cons.prems(4) x by (auto simp: image_iff)
    ultimately have "GetLeafIndex (ol_mmrIndex l') \<noteq> GetLeafIndex (ol_mmrIndex l)"
      using positions_point_inj [OF Cons.prems(2,5) l'(1) l(1)] by blast
    then show ?thesis using l' r1(3) by simp
  qed
  from Cons.IH [OF t Cons.prems(2) _ _ Cons.prems(5), of "acc @ [\<lparr>so_commitment = ti_commitment i, so_outputLocation = l\<rparr>]"] this
    Cons.prems(4) l(1) m1 m2
  show ?case by (simp add: bind_action_def action_apply on_defs)
qed

lemma apply_kernels_effect:
  assumes "ths_at H lo lp lk n k t" and "\<And>x. length (H x) = 32"
    and "\<forall>j<length ks. lk (k + j) = kernel_leaf (ks ! j)" and "\<forall>x\<in>set ks. length (kernel_leaf x) = KERNEL_SIZE"
    and "k + length ks < 2 ^ 54"
  shows "\<exists>m'. for_action (\<lambda>x. on_ths (on_kernels (ApplyKernel H x))) ks (t, db) = (Inr (), (t\<lparr>ths_kernelMMR := m'\<rparr>, db)) \<and>
    ths_at H lo lp lk n (k + length ks) (t\<lparr>ths_kernelMMR := m'\<rparr>)"
  using assms
proof (induction ks arbitrary: k t)
  case Nil
  then show ?case by (intro exI [of _ "ths_kernelMMR t"]) (simp add: action_simps)
next
  case (Cons x ks)
  note H = Cons.prems(2) and room = room_54 [of "Suc k"]
  have lf: "lk k = kernel_leaf x" using Cons.prems(3) by force
  have at: "kmmr_at H lk k (ths_kernelMMR t)" using Cons.prems(1) by (simp add: ths_at_def)
  obtain m1 where m1: "ApplyKernel H x (ths_kernelMMR t) = (Inr (), m1)" "kmmr_at H lk (Suc k) m1"
    using kmmr_at_apply [of H lk k "ths_kernelMMR t" x, OF H at lf] room Cons.prems(4,5) lf by auto
  have t: "ths_at H lo lp lk n (Suc k) (t\<lparr>ths_kernelMMR := m1\<rparr>)" using Cons.prems(1) m1 by (simp add: ths_at_def)
  have new: "\<forall>j<length ks. lk (Suc k + j) = kernel_leaf (ks ! j)" using Cons.prems(3) by (auto dest: spec [of _ "Suc _"])
  from Cons.IH [OF t H new] Cons.prems(4,5) obtain m' where
    m': "for_action (\<lambda>x. on_ths (on_kernels (ApplyKernel H x))) ks (t\<lparr>ths_kernelMMR := m1\<rparr>, db) = (Inr (), (t\<lparr>ths_kernelMMR := m'\<rparr>, db))"
      "ths_at H lo lp lk n (k + length (x # ks)) (t\<lparr>ths_kernelMMR := m'\<rparr>)" by auto
  have "on_ths (on_kernels (ApplyKernel H x)) (t, db) = (Inr (), (t\<lparr>ths_kernelMMR := m1\<rparr>, db))"
    using m1(1) by (simp add: on_ths_Inr)
  then show ?case using m' by (auto simp: bind_action_Inr)
qed

text \<open>A block whose parts have the sizes of their fixed-width formats.\<close>

definition block_fits :: "full_block \<Rightarrow> bool" where
  "block_fits b \<longleftrightarrow>
     (\<forall>x\<in>set (tb_outputs (fb_body b)). length (to_commitment x) = 33 \<and> length (to_rangeProof x) = 675) \<and>
     (\<forall>x\<in>set (tb_kernels (fb_body b)). length (kernel_leaf x) = KERNEL_SIZE) \<and>
     (\<forall>x\<in>set (tb_inputs (fb_body b)). length (ti_commitment x) = 33) \<and> length (tb_inputs (fb_body b)) < 2 ^ 16"

abbreviation block_outputs :: "full_block \<Rightarrow> transaction_output list" where
  "block_outputs b \<equiv> tb_outputs (fb_body b)"

abbreviation block_kernels :: "full_block \<Rightarrow> transaction_kernel list" where
  "block_kernels b \<equiv> tb_kernels (fb_body b)"

abbreviation block_inputs :: "full_block \<Rightarrow> transaction_input list" where
  "block_inputs b \<equiv> tb_inputs (fb_body b)"

definition extends_by ::
  "(nat \<Rightarrow> u8 list) \<Rightarrow> (nat \<Rightarrow> u8 list) \<Rightarrow> (nat \<Rightarrow> u8 list) \<Rightarrow> nat \<Rightarrow> nat \<Rightarrow> full_block \<Rightarrow> bool" where
  "extends_by lo lp lk n k b \<longleftrightarrow>
     (\<forall>j<length (block_outputs b). lo (n + j) = output_leaf (block_outputs b ! j) \<and> lp (n + j) = proof_leaf (block_outputs b ! j)) \<and>
     (\<forall>j<length (block_kernels b). lk (k + j) = kernel_leaf (block_kernels b ! j))"

text \<open>What one block does: the outputs it spent, and what changed beside them.\<close>

definition connects ::
  "full_block \<Rightarrow> nat \<Rightarrow> spent_output list \<Rightarrow> tx_hash_set \<Rightarrow> block_db \<Rightarrow> tx_hash_set \<Rightarrow> block_db \<Rightarrow> bool" where
  "connects b n spent t db t' db' \<longleftrightarrow>
     ths_blockHeader t' = fb_header b \<and> map so_commitment spent = map ti_commitment (block_inputs b) \<and>
     (\<forall>x\<in>set spent. GetOutputPosition (so_commitment x) db = Inr (Some (so_outputLocation x)) \<and> spent_leaf x \<in> utxo t) \<and>
     (\<forall>c l. GetOutputPosition c db = Inr (Some l) \<and> GetLeafIndex (ol_mmrIndex l) \<in> spent_leaf ` set spent \<longrightarrow>
        c \<in> ti_commitment ` set (block_inputs b)) \<and>
     distinct (map so_commitment spent) \<and>
     utxo t' = (utxo t - spent_leaf ` set spent) \<union> of_nat ` {n..<n + length (block_outputs b)} \<and>
     GetSpentPositions (FullBlock_GetHash b) db' = Inr (SpentOutputs_BuildMap spent) \<and>
     (\<forall>h. h \<noteq> FullBlock_GetHash b \<longrightarrow> GetSpentPositions h db' = GetSpentPositions h db) \<and>
     (\<forall>c. c \<notin> to_commitment ` set (block_outputs b) \<longrightarrow> GetOutputPosition c db' = GetOutputPosition c db) \<and>
     (\<forall>c\<in>to_commitment ` set (block_outputs b). c \<in> ti_commitment ` set (block_inputs b) \<or>
        (\<exists>p. GetOutputPosition c db = Inr p \<and> (\<forall>l. p = Some l \<longrightarrow> GetLeafIndex (ol_mmrIndex l) \<notin> utxo t)))"

lemma connectsD:
  assumes "connects b n spent t db t' db'"
  shows "ths_blockHeader t' = fb_header b" "map so_commitment spent = map ti_commitment (block_inputs b)"
    "distinct (map so_commitment spent)"
    "\<forall>x\<in>set spent. GetOutputPosition (so_commitment x) db = Inr (Some (so_outputLocation x)) \<and> spent_leaf x \<in> utxo t"
    "\<forall>c l. GetOutputPosition c db = Inr (Some l) \<and> GetLeafIndex (ol_mmrIndex l) \<in> spent_leaf ` set spent \<longrightarrow>
       c \<in> ti_commitment ` set (block_inputs b)"
    "utxo t' = (utxo t - spent_leaf ` set spent) \<union> of_nat ` {n..<n + length (block_outputs b)}"
    "GetSpentPositions (FullBlock_GetHash b) db' = Inr (SpentOutputs_BuildMap spent)"
    "\<forall>h. h \<noteq> FullBlock_GetHash b \<longrightarrow> GetSpentPositions h db' = GetSpentPositions h db"
    "\<forall>c. c \<notin> to_commitment ` set (block_outputs b) \<longrightarrow> GetOutputPosition c db' = GetOutputPosition c db"
    "\<forall>c\<in>to_commitment ` set (block_outputs b). c \<in> ti_commitment ` set (block_inputs b) \<or>
        (\<exists>p. GetOutputPosition c db = Inr p \<and> (\<forall>l. p = Some l \<longrightarrow> GetLeafIndex (ol_mmrIndex l) \<notin> utxo t))"
  using assms unfolding connects_def by - (elim conjE; assumption)+

lemma connects_inputs: "connects b n spent t db t' db' \<Longrightarrow> so_commitment ` set spent = ti_commitment ` set (block_inputs b)"
  by (metis connectsD(2) image_set)

lemma spent_positions_other: "h \<noteq> hash \<Longrightarrow> GetSpentPositions h (AddSpentPositions hash xs db) = GetSpentPositions h db"
  by (simp add: GetSpentPositions_def AddSpentPositions_def RocksDB_Get_def)

lemma spent_facts:
  assumes pp: "positions_point lo n db" and n63: "n < 2 ^ 63" and eq: "map so_commitment spent = map ti_commitment is"
    and pos: "\<forall>x\<in>set spent. GetOutputPosition (so_commitment x) db = Inr (Some (so_outputLocation x))"
    and leaves: "distinct (map spent_leaf spent)"
    and is16: "length is < 2 ^ 16" "\<forall>x\<in>set is. length (ti_commitment x) = 33"
  shows "\<lbrakk>GetOutputPosition c db = Inr (Some l); GetLeafIndex (ol_mmrIndex l) \<in> spent_leaf ` set spent\<rbrakk> \<Longrightarrow> c \<in> ti_commitment ` set is"
    and "distinct (map so_commitment spent)" and "length spent < 2 ^ 16" and "\<forall>x\<in>set spent. length (so_commitment x) = 33"
proof -
  have set: "so_commitment ` set spent = ti_commitment ` set is" using eq by (metis image_set)
  show "c \<in> ti_commitment ` set is"
    if c: "GetOutputPosition c db = Inr (Some l)" "GetLeafIndex (ol_mmrIndex l) \<in> spent_leaf ` set spent"
  proof -
    obtain x where x: "x \<in> set spent" "GetLeafIndex (ol_mmrIndex l) = spent_leaf x" using c(2) by auto
    then have "c = so_commitment x" using positions_point_inj [OF pp n63 c(1) _ x(2)] pos by simp
    then show ?thesis using x(1) set by auto
  qed
  have "inj_on so_commitment (set spent)"
  proof (rule inj_onI)
    fix x y assume xy: "x \<in> set spent" "y \<in> set spent" "so_commitment x = so_commitment y"
    then have "Inr (Some (so_outputLocation x)) = (Inr (Some (so_outputLocation y)) :: output_location option result)" using pos by metis
    with xy show "x = y" by simp
  qed
  then show "distinct (map so_commitment spent)" using leaves by (simp add: distinct_map)
  show "length spent < 2 ^ 16" using eq is16(1) by (metis length_map)
  show "\<forall>x\<in>set spent. length (so_commitment x) = 33"
  proof
    fix x assume "x \<in> set spent"
    then have "so_commitment x \<in> ti_commitment ` set is" using set by auto
    then show "length (so_commitment x) = 33" using is16(2) by auto
  qed
qed

lemma ApplyBlock_connects:
  assumes at: "ths_at H lo lp lk n k t" and pp: "positions_point lo n db" and H: "\<And>x. length (H x) = 32"
    and ext: "extends_by lo lp lk n k b" and fits: "block_fits b"
    and room: "n + length (block_outputs b) < 2 ^ 54" "k + length (block_kernels b) < 2 ^ 54"
    and ap: "ApplyBlock H b (t, db) = (Inr True, (t', db'))"
  shows "ths_at H lo lp lk (n + length (block_outputs b)) (k + length (block_kernels b)) t' \<and>
    positions_point lo (n + length (block_outputs b)) db' \<and> (\<exists>spent. connects b n spent t db t' db')"
proof -
  let ?sp = "AddSpentPositions (FullBlock_GetHash b)"
  from ap obtain spent t1 db1 t2 db2 t3 db3 where
    prune: "prune_inputs (block_inputs b) [] (t, db) = (Inr (Some spent), (t1, db1))"
    and append: "append_outputs H (FullBlock_GetHeight b) (block_outputs b) (t1, ?sp spent db1) = (Inr True, (t2, db2))"
    and kernels: "for_action (\<lambda>x. on_ths (on_kernels (ApplyKernel H x))) (block_kernels b) (t2, db2) = (Inr (), (t3, db3))"
    and t': "t' = t3\<lparr>ths_blockHeader := fb_header b\<rparr>" "db' = db3"
    by (auto simp: ApplyBlock_def bind_action_eq_Inr_iff action_apply on_ths_Inr split: option.splits if_splits)
  from prune_inputs_effect [OF at prune]
  have p: "db1 = db" "ths_at H lo lp lk n k t1" "map so_commitment spent = map ti_commitment (block_inputs b)"
    "\<forall>x\<in>set spent. GetOutputPosition (so_commitment x) db = Inr (Some (so_outputLocation x)) \<and> spent_leaf x \<in> utxo t"
    "distinct (map spent_leaf spent)" "utxo t1 = utxo t - spent_leaf ` set spent" by auto
  have same: "GetOutputPosition c (?sp spent db) = GetOutputPosition c db" for c
    using agree_reads(4) [OF agree_writes(3)] by simp
  then have pp1: "positions_point lo n (?sp spent db)" using pp by (simp add: positions_point_def)
  note a = append_outputs_effect [OF p(2) pp1 H _ _ room(1) append [unfolded p(1)]]
  have a': "ths_at H lo lp lk (n + length (block_outputs b)) k t2" "positions_point lo (n + length (block_outputs b)) db2"
      "utxo t2 = utxo t1 \<union> of_nat ` {n..<n + length (block_outputs b)}" "agree_outside {OUTPUT_POS} (?sp spent db) db2"
      "\<forall>c. c \<notin> to_commitment ` set (block_outputs b) \<longrightarrow> GetOutputPosition c db2 = GetOutputPosition c db"
      "\<forall>c\<in>to_commitment ` set (block_outputs b). \<exists>p. GetOutputPosition c db = Inr p \<and>
         (\<forall>l. p = Some l \<longrightarrow> GetLeafIndex (ol_mmrIndex l) \<notin> utxo t1)"
    using a ext fits by (simp_all add: extends_by_def block_fits_def same)
  from apply_kernels_effect [OF a'(1) H, of "block_kernels b" db2] ext fits room(2) kernels obtain m' where
    m': "t3 = t2\<lparr>ths_kernelMMR := m'\<rparr>" "db3 = db2"
      "ths_at H lo lp lk (n + length (block_outputs b)) (k + length (block_kernels b)) t3"
    by (auto simp: extends_by_def block_fits_def)
  have n63: "n < 2 ^ 63" using room(1) by simp
  have is16: "length (block_inputs b) < 2 ^ 16" "\<forall>x\<in>set (block_inputs b). length (ti_commitment x) = 33"
    using fits by (simp_all add: block_fits_def)
  note sf = spent_facts [OF pp n63 p(3) _ p(5) is16]
  have spent_in: "GetOutputPosition c db = Inr (Some l) \<Longrightarrow> GetLeafIndex (ol_mmrIndex l) \<in> spent_leaf ` set spent \<Longrightarrow>
      c \<in> ti_commitment ` set (block_inputs b)" for c l using sf(1) p(4) by blast
  then have spent_in': "\<forall>c l. GetOutputPosition c db = Inr (Some l) \<and> GetLeafIndex (ol_mmrIndex l) \<in> spent_leaf ` set spent \<longrightarrow>
      c \<in> ti_commitment ` set (block_inputs b)" by blast
  have dist: "distinct (map so_commitment spent)" and spent_len: "length spent < 2 ^ 16" "\<forall>x\<in>set spent. length (so_commitment x) = 33"
    using sf(2-4) p(4) by blast+
  have "GetSpentPositions h db2 = GetSpentPositions h (?sp spent db)" for h using agree_reads(3) [OF a'(4)] by simp
  then have "GetSpentPositions (FullBlock_GetHash b) db' = Inr (SpentOutputs_BuildMap spent)"
    "\<forall>h. h \<noteq> FullBlock_GetHash b \<longrightarrow> GetSpentPositions h db' = GetSpentPositions h db"
    using spent_positions_add [OF spent_len(2,1)] by (simp_all add: t' m' spent_positions_other)
  moreover have "\<forall>c\<in>to_commitment ` set (block_outputs b). c \<in> ti_commitment ` set (block_inputs b) \<or>
        (\<exists>p. GetOutputPosition c db = Inr p \<and> (\<forall>l. p = Some l \<longrightarrow> GetLeafIndex (ol_mmrIndex l) \<notin> utxo t))"
  proof (rule ballI)
    fix c assume "c \<in> to_commitment ` set (block_outputs b)"
    then obtain p where pos: "GetOutputPosition c db = Inr p" and "\<And>l. p = Some l \<Longrightarrow> GetLeafIndex (ol_mmrIndex l) \<notin> utxo t1"
      using a'(6) by blast
    then show "c \<in> ti_commitment ` set (block_inputs b) \<or>
        (\<exists>p. GetOutputPosition c db = Inr p \<and> (\<forall>l. p = Some l \<longrightarrow> GetLeafIndex (ol_mmrIndex l) \<notin> utxo t))"
      using spent_in [of c] p(6) by (cases p) auto
  qed
  moreover have "ths_blockHeader t' = fb_header b" "utxo t' = (utxo t - spent_leaf ` set spent) \<union> of_nat ` {n..<n + length (block_outputs b)}"
    "\<forall>c. c \<notin> to_commitment ` set (block_outputs b) \<longrightarrow> GetOutputPosition c db' = GetOutputPosition c db"
    using a'(3,5) p(6) by (simp_all add: t' m')
  ultimately have "connects b n spent t db t' db'"
    using p(3,4) dist spent_in' unfolding connects_def by - (intro conjI; assumption)
  then show ?thesis using a'(2) m' t' by (auto simp: ths_at_def)
qed


text \<open>Whatever its outcome, it writes no other table.\<close>

lemma keeps_branch [intro]:
  "keeps P m \<Longrightarrow> (\<And>x. keeps P (f x)) \<Longrightarrow> keeps P (case z of None \<Rightarrow> m | Some x \<Rightarrow> f x)"
  "keeps P m \<Longrightarrow> keeps P m' \<Longrightarrow> keeps P (if c then m else m')"
  by (auto split: option.split)

lemma ApplyBlock_tables: "agree_outside {OUTPUT_POS, SPENT_OUTPUTS} db (snd (snd (ApplyBlock H b (t, db))))"
proof -
  let ?P = "\<lambda>s :: tx_hash_set \<times> block_db. agree_outside {OUTPUT_POS, SPENT_OUTPUTS} db (snd s)"
  have ths: "keeps ?P (on_ths m)" for m :: "(tx_hash_set, 'a) action" by (simp add: keeps_def on_ths_eq)
  have put: "keeps ?P (on_db (AddOutputPosition c l))" "keeps ?P (on_db (AddSpentPositions h xs))" for c l h xs
    by (simp_all add: keeps_def on_db_def action_apply agree_outside_def AddOutputPosition_def AddSpentPositions_def db_working_def)
  have inputs: "keeps ?P (prune_inputs is acc)" for "is" acc
    by (induction "is" arbitrary: acc) (auto intro!: ths keeps_bind)
  have outputs: "keeps ?P (append_outputs H h xs)" for h xs
    by (induction xs) (auto intro!: ths put keeps_bind keeps_branch)
  have "keeps ?P (ApplyBlock H b)"
    unfolding ApplyBlock_def
    by (auto intro!: ths put inputs outputs keeps_for keeps_modify keeps_bind keeps_branch)
  from keepsD [OF this, of "(t, db)"] show ?thesis by simp
qed

lemma ApplyBlock_succeeds:
  assumes at: "ths_at H lo lp lk n k t" and pp: "positions_point lo n db" and H: "\<And>x. length (H x) = 32"
    and ext: "extends_by lo lp lk n k b" and fits: "block_fits b"
    and room: "n + length (block_outputs b) < 2 ^ 54" "k + length (block_kernels b) < 2 ^ 54"
    and inputs: "distinct (map ti_commitment (block_inputs b))"
      "\<forall>i\<in>set (block_inputs b). \<exists>l. GetOutputPosition (ti_commitment i) db = Inr (Some l) \<and> GetLeafIndex (ol_mmrIndex l) \<in> utxo t"
    and outputs: "distinct (map to_commitment (block_outputs b))"
      "\<forall>x\<in>set (block_outputs b). \<exists>p. GetOutputPosition (to_commitment x) db = Inr p \<and>
         (\<forall>l. p = Some l \<longrightarrow> GetLeafIndex (ol_mmrIndex l) \<notin> utxo t)"
  shows "\<exists>s. ApplyBlock H b (t, db) = (Inr True, s)"
proof -
  have n63: "n < 2 ^ 63" using room(1) by simp
  obtain spent t1 where prune: "prune_inputs (block_inputs b) [] (t, db) = (Inr (Some spent), (t1, db))"
    using prune_inputs_succeeds [OF at pp inputs(2,1) n63] by blast
  let ?db = "AddSpentPositions (FullBlock_GetHash b) spent db"
  from prune_inputs_effect [OF at prune] have t1: "ths_at H lo lp lk n k t1" "utxo t1 \<subseteq> utxo t" by auto
  have same: "GetOutputPosition c ?db = GetOutputPosition c db" for c
    using agree_reads(4) [OF agree_writes(3)] by simp
  then have pp1: "positions_point lo n ?db" using pp by (simp add: positions_point_def)
  have "\<forall>x\<in>set (block_outputs b). \<exists>p. GetOutputPosition (to_commitment x) ?db = Inr p \<and>
       (\<forall>l. p = Some l \<longrightarrow> GetLeafIndex (ol_mmrIndex l) \<notin> utxo t1)"
    unfolding same using outputs(2) t1(2) by blast
  then obtain t2 db2 where append: "append_outputs H (FullBlock_GetHeight b) (block_outputs b) (t1, ?db) = (Inr True, (t2, db2))"
    using append_outputs_succeeds [OF t1(1) pp1 H _ _ room(1) outputs(1)] ext fits
    by (fastforce simp: extends_by_def block_fits_def)
  from append_outputs_effect [OF t1(1) pp1 H _ _ room(1) append] ext fits
  have t2: "ths_at H lo lp lk (n + length (block_outputs b)) k t2" by (simp add: extends_by_def block_fits_def)
  from apply_kernels_effect [OF t2 H, of "block_kernels b" db2] ext fits room(2) obtain t3 where
    "for_action (\<lambda>x. on_ths (on_kernels (ApplyKernel H x))) (block_kernels b) (t2, db2) = (Inr (), (t3, db2))"
    by (auto simp: extends_by_def block_fits_def)
  then show ?thesis using prune append by (simp add: ApplyBlock_def bind_action_def action_apply on_db_def)
qed

lemma connects_spent_leaves:
  assumes con: "connects b n spent t db t' db'"
  shows "spent_leaf ` set spent =
    {GetLeafIndex (ol_mmrIndex l) |l i. i \<in> set (block_inputs b) \<and> GetOutputPosition (ti_commitment i) db = Inr (Some l)}"
    (is "_ = ?R")
proof
  show "spent_leaf ` set spent \<subseteq> ?R"
  proof
    fix y assume "y \<in> spent_leaf ` set spent"
    then obtain x where x: "x \<in> set spent" "y = spent_leaf x" by auto
    obtain i where i: "i \<in> set (block_inputs b)" "so_commitment x = ti_commitment i"
      using connects_inputs [OF con] x(1) by (auto simp: set_eq_iff image_iff)
    have "GetOutputPosition (ti_commitment i) db = Inr (Some (so_outputLocation x))"
      using bspec [OF connectsD(4) [OF con] x(1)] i(2) by simp
    then show "y \<in> ?R" using x(2) i(1) by blast
  qed
  show "?R \<subseteq> spent_leaf ` set spent"
  proof
    fix y assume "y \<in> ?R"
    then obtain i l where i: "i \<in> set (block_inputs b)" "GetOutputPosition (ti_commitment i) db = Inr (Some l)"
      and y: "y = GetLeafIndex (ol_mmrIndex l)" by auto
    have "ti_commitment i \<in> so_commitment ` set spent" using connects_inputs [OF con] i(1) by simp
    then obtain x where x: "x \<in> set spent" "so_commitment x = ti_commitment i" by auto
    then have "so_outputLocation x = l" using connectsD(4) [OF con] i(2) by force
    then show "y \<in> spent_leaf ` set spent" using x(1) y by auto
  qed
qed

section \<open>Rewinding blocks\<close>

abbreviation restore_positions :: "spent_output list \<Rightarrow> block_db \<Rightarrow> block_db" where
  "restore_positions spent \<equiv> fold (\<lambda>x. AddOutputPosition (so_commitment x) (so_outputLocation x)) spent"

lemma restore_inputs_effect:
  assumes "map so_commitment spent = map ti_commitment is"
    and "\<forall>x\<in>set spent. m (so_commitment x) = Some (so_outputLocation x)"
  shows "restore_inputs m is acc db = (Inr (acc @ map spent_leaf spent), restore_positions spent db)"
  using assms
proof (induction "is" arbitrary: spent acc db)
  case Nil
  then show ?case by (simp add: action_simps)
next
  case (Cons i "is")
  then obtain x xs where "spent = x # xs" "so_commitment x = ti_commitment i" "map so_commitment xs = map ti_commitment is" by auto
  with Cons show ?case by (simp add: bind_action_Inr action_apply)
qed

lemma restore_positions_get:
  assumes "\<forall>x\<in>set spent. m (so_commitment x) = Some (so_outputLocation x)"
  shows "GetOutputPosition c (restore_positions spent db) =
    (if c \<in> so_commitment ` set spent then Inr (m c) else GetOutputPosition c db)"
  using assms by (induction spent arbitrary: db) (auto simp: position_add)

lemma agree_restore: "agree_outside {OUTPUT_POS} db (restore_positions spent db)"
proof (induction spent arbitrary: db)
  case (Cons x spent)
  show ?case using agree_trans [OF agree_writes(1) Cons [of "AddOutputPosition _ _ _"]] by simp
qed simp

lemma rewind_block_effect:
  assumes "GetBlock H (BlockHeader_GetHash (ths_blockHeader t)) db = Inr (Some b)"
    and "GetSpentPositions (BlockHeader_GetHash (ths_blockHeader t)) db = Inr (SpentOutputs_BuildMap spent)"
    and "map so_commitment spent = map ti_commitment (block_inputs b)" and "distinct (map so_commitment spent)"
    and "GetBlockHeader H (bh_previousBlockHash (ths_blockHeader t)) db = Inr (Some h)"
  shows "rewind_block H acc (t, db) =
    (Inr (acc @ map spent_leaf spent), (t\<lparr>ths_blockHeader := h\<rparr>,
       restore_positions spent (RemoveOutputPositions (map to_commitment (block_outputs b)) db)))"
proof -
  let ?db = "RemoveOutputPositions (map to_commitment (block_outputs b)) db"
  have "\<forall>x\<in>set spent. SpentOutputs_BuildMap spent (so_commitment x) = Some (so_outputLocation x)"
    using BuildMap_distinct [OF assms(4)] by simp
  then have restore: "restore_inputs (SpentOutputs_BuildMap spent) (block_inputs b) acc ?db =
      (Inr (acc @ map spent_leaf spent), restore_positions spent ?db)" by (rule restore_inputs_effect [OF assms(3)])
  have "agree_outside {OUTPUT_POS} db (restore_positions spent ?db)"
    using agree_trans [OF agree_writes(2) agree_restore] .
  then have "GetBlockHeader H (bh_previousBlockHash (ths_blockHeader t)) (restore_positions spent ?db) = Inr (Some h)"
    using agree_reads(2) assms(5) by simp
  then show ?thesis
    using assms(1,2) restore
    by (simp add: rewind_block_def bind_action_def action_apply zoom_action_def on_db_def)
qed

text \<open>The positions of a database after rewinding: those of unspent outputs are as before; a position of an output
  that was spent before may be gone.\<close>

definition positions_restored :: "tx_hash_set \<Rightarrow> block_db \<Rightarrow> block_db \<Rightarrow> bool" where
  "positions_restored t db db' \<longleftrightarrow> (\<forall>c. GetOutputPosition c db' = GetOutputPosition c db \<or>
     GetOutputPosition c db' = Inr None \<and> (\<exists>l. GetOutputPosition c db = Inr (Some l) \<and> GetLeafIndex (ol_mmrIndex l) \<notin> utxo t))"

lemma disconnect_positions:
  assumes con: "connects b n spent t db t1 db1" and res: "positions_restored t1 db1 dbR"
  shows "positions_restored t db (restore_positions spent (RemoveOutputPositions (map to_commitment (block_outputs b)) dbR))"
  unfolding positions_restored_def
proof
  fix c
  let ?in = "c \<in> ti_commitment ` set (block_inputs b)" and ?out = "c \<in> to_commitment ` set (block_outputs b)"
    and ?R = "restore_positions spent (RemoveOutputPositions (map to_commitment (block_outputs b)) dbR)"
  have map: "\<forall>x\<in>set spent. SpentOutputs_BuildMap spent (so_commitment x) = Some (so_outputLocation x)"
    using BuildMap_distinct [OF connectsD(3) [OF con]] by simp
  note set = connects_inputs [OF con]
  note get = restore_positions_get [OF map, of c "RemoveOutputPositions (map to_commitment (block_outputs b)) dbR"]
  consider (inp) ?in | (out) "\<not> ?in" ?out | (other) "\<not> ?in" "\<not> ?out" by blast
  then show "GetOutputPosition c ?R = GetOutputPosition c db \<or> GetOutputPosition c ?R = Inr None \<and>
     (\<exists>l. GetOutputPosition c db = Inr (Some l) \<and> GetLeafIndex (ol_mmrIndex l) \<notin> utxo t)"
  proof cases
    case inp
    then obtain x where "x \<in> set spent" "c = so_commitment x" using set by blast
    then show ?thesis using connectsD(4) [OF con] get map by simp
  next
    case out
    then have "GetOutputPosition c ?R = Inr None" using get set by (simp add: position_remove)
    moreover obtain p where "GetOutputPosition c db = Inr p" "\<And>l. p = Some l \<Longrightarrow> GetLeafIndex (ol_mmrIndex l) \<notin> utxo t"
      using connectsD(10) [OF con] out by blast
    ultimately show ?thesis by (cases p) auto
  next
    case other
    have R: "GetOutputPosition c ?R = GetOutputPosition c dbR" using other get set by (simp add: position_remove)
    have same: "GetOutputPosition c db1 = GetOutputPosition c db" using connectsD(9) [OF con] other by simp
    have "GetLeafIndex (ol_mmrIndex l) \<notin> utxo t"
      if l: "GetOutputPosition c db = Inr (Some l)" "GetLeafIndex (ol_mmrIndex l) \<notin> utxo t1" for l
    proof -
      have "GetLeafIndex (ol_mmrIndex l) \<notin> spent_leaf ` set spent" using connectsD(5) [OF con] l(1) other(1) by blast
      then show ?thesis using connectsD(6) [OF con] l(2) by blast
    qed
    moreover have "GetOutputPosition c dbR = GetOutputPosition c db1 \<or> GetOutputPosition c dbR = Inr None \<and>
        (\<exists>l. GetOutputPosition c db1 = Inr (Some l) \<and> GetLeafIndex (ol_mmrIndex l) \<notin> utxo t1)"
      using res by (simp add: positions_restored_def)
    ultimately show ?thesis unfolding R same by blast
  qed
qed


lemma disconnect_leaves:
  assumes con: "connects b n spent t db t1 db1" and at: "pmmr_at H D lf n (ths_outputPMMR t)"
    and leaves: "(U \<union> set leaves) \<inter> {i. unat i < n + length (block_outputs b)} = utxo t1" "\<forall>i\<in>set leaves. unat i < 2 ^ 63"
    and n: "n + length (block_outputs b) < 2 ^ 54"
  shows "(U \<union> set (leaves @ map spent_leaf spent)) \<inter> {i. unat i < n} = utxo t \<and>
    (\<forall>i\<in>set (leaves @ map spent_leaf spent). unat i < 2 ^ 63)"
proof -
  have below: "unat i < n \<and> unat i < 2 ^ 63" if "i \<in> utxo t" for i using pmmr_at_unspent [OF at that] .
  have S: "spent_leaf ` set spent \<subseteq> utxo t" using connectsD(4) [OF con] by auto
  have "\<not> unat i < n" if i: "i \<in> of_nat ` {n..<n + length (block_outputs b)}" for i :: u64
    using i n by (auto simp: unat_of_nat_small)
  then have "utxo t1 \<inter> {i. unat i < n} = utxo t - spent_leaf ` set spent"
    using connectsD(6) [OF con] below by auto
  moreover have "(U \<union> set leaves) \<inter> {i. unat i < n} = utxo t1 \<inter> {i. unat i < n}" unfolding leaves(1) [symmetric] by auto
  ultimately have "(U \<union> set (leaves @ map spent_leaf spent)) \<inter> {i. unat i < n} = utxo t"
    using S below by (auto simp: Int_Un_distrib2)
  then show ?thesis using leaves(2) S below by auto
qed

subsection \<open>Any number of blocks\<close>

text \<open>Between two blocks the database may change, but it keeps the spent positions of the blocks and
  the output positions of unspent outputs: the block processor removes the positions of the spent ones and writes other
  tables.\<close>

definition forgets_spent :: "tx_hash_set \<Rightarrow> block_db \<Rightarrow> block_db \<Rightarrow> bool" where
  "forgets_spent t db db' \<longleftrightarrow> positions_restored t db db' \<and> (\<forall>h. GetSpentPositions h db' = GetSpentPositions h db)"

inductive block_run :: "hash_fn \<Rightarrow> full_block list \<Rightarrow> tx_hash_set \<times> block_db \<Rightarrow> tx_hash_set \<times> block_db \<Rightarrow> bool" for H where
  no_block: "forgets_spent t db db' \<Longrightarrow> block_run H [] (t, db) (t, db')"
| next_block: "\<lbrakk>ApplyBlock H b (t, db) = (Inr True, (t1, db1)); forgets_spent t1 db1 db2; block_run H bs (t1, db2) s'\<rbrakk> \<Longrightarrow>
    block_run H (b # bs) (t, db) s'"

inductive_cases block_run_NilE: "block_run H [] (t, db) (t', db')"
inductive_cases block_run_ConsE: "block_run H (b # bs) (t, db) s'"

lemma positions_restored_refl: "positions_restored t db db"
  by (simp add: positions_restored_def)

lemma positions_restored_trans:
  assumes 12: "positions_restored t db1 db2" and 23: "positions_restored t db2 db3"
  shows "positions_restored t db1 db3"
  unfolding positions_restored_def
proof
  fix c
  have "GetOutputPosition c db2 = GetOutputPosition c db1 \<or> GetOutputPosition c db2 = Inr None \<and>
      (\<exists>l. GetOutputPosition c db1 = Inr (Some l) \<and> GetLeafIndex (ol_mmrIndex l) \<notin> utxo t)"
    using 12 by (simp add: positions_restored_def)
  moreover have "GetOutputPosition c db3 = GetOutputPosition c db2 \<or> GetOutputPosition c db3 = Inr None \<and>
      (\<exists>l. GetOutputPosition c db2 = Inr (Some l) \<and> GetLeafIndex (ol_mmrIndex l) \<notin> utxo t)"
    using 23 by (simp add: positions_restored_def)
  ultimately show "GetOutputPosition c db3 = GetOutputPosition c db1 \<or> GetOutputPosition c db3 = Inr None \<and>
      (\<exists>l. GetOutputPosition c db1 = Inr (Some l) \<and> GetLeafIndex (ol_mmrIndex l) \<notin> utxo t)"
    by (elim disjE) auto
qed

lemma positions_point_restored:
  assumes "positions_point lo n db" and "positions_restored t db db'" shows "positions_point lo n db'"
  unfolding positions_point_def
proof (intro allI impI)
  fix c l assume l: "GetOutputPosition c db' = Inr (Some l)"
  have "GetOutputPosition c db' = GetOutputPosition c db \<or> GetOutputPosition c db' = Inr None"
    using assms(2) by (auto simp: positions_restored_def)
  with l have "GetOutputPosition c db = Inr (Some l)" by simp
  then show "\<exists>j<n. ol_mmrIndex l = of_nat (mmr_size j) \<and> drop 1 (lo j) = c"
    using assms(1) unfolding positions_point_def by blast
qed

text \<open>What the block processor does after a block was applied: the positions of the inputs are removed. Unless an
  output of the block has the commitment of an input (cut-through forbids it), these are outputs that are spent now.\<close>

lemma remove_inputs_forgets:
  assumes con: "connects b n spent t db t' db'" and pp: "positions_point lo n db" and n: "n + length (block_outputs b) < 2 ^ 54"
    and cut: "to_commitment ` set (block_outputs b) \<inter> ti_commitment ` set (block_inputs b) = {}"
  shows "forgets_spent t' db' (RemoveOutputPositions (map ti_commitment (block_inputs b)) db')"
proof -
  have "GetOutputPosition c db' = Inr (Some (so_outputLocation x)) \<and> spent_leaf x \<notin> utxo t'"
    if x: "x \<in> set spent" "c = so_commitment x" for c x
  proof -
    have pos: "GetOutputPosition c db = Inr (Some (so_outputLocation x))" using bspec [OF connectsD(4) [OF con] x(1)] x(2) by simp
    have "c \<in> ti_commitment ` set (block_inputs b)" using connects_inputs [OF con] x by blast
    then have same: "GetOutputPosition c db' = GetOutputPosition c db" using connectsD(9) [OF con] cut by blast
    obtain j where j: "j < n" "ol_mmrIndex (so_outputLocation x) = of_nat (mmr_size j)"
      using pp pos by (auto simp: positions_point_def)
    have "spent_leaf x = of_nat j" using j n GetLeafIndex_size [of j] by simp
    moreover have "of_nat j \<noteq> (of_nat i :: u64)" if "i \<in> {n..<n + length (block_outputs b)}" for i
      using j(1) n that by (intro of_nat_distinct) simp_all
    ultimately have "spent_leaf x \<notin> of_nat ` {n..<n + length (block_outputs b)}" by (metis imageE)
    then have "spent_leaf x \<notin> utxo t'" using connectsD(6) [OF con] x(1) by blast
    then show ?thesis using pos same by simp
  qed
  then have "\<exists>l. GetOutputPosition c db' = Inr (Some l) \<and> GetLeafIndex (ol_mmrIndex l) \<notin> utxo t'"
    if "c \<in> ti_commitment ` set (block_inputs b)" for c
    using that connects_inputs [OF con, symmetric] by blast
  then have "positions_restored t' db' (RemoveOutputPositions (map ti_commitment (block_inputs b)) db')"
    by (auto simp: positions_restored_def position_remove)
  then show ?thesis using agree_reads(3) [OF agree_writes(2)] by (simp add: forgets_spent_def)
qed

fun linked :: "block_header \<Rightarrow> full_block list \<Rightarrow> bool" where
  "linked h [] \<longleftrightarrow> True"
| "linked h (b # bs) \<longleftrightarrow> bh_previousBlockHash (fb_header b) = BlockHeader_GetHash h \<and> linked (fb_header b) bs"

definition stored_blocks :: "hash_fn \<Rightarrow> block_header \<Rightarrow> full_block list \<Rightarrow> block_db \<Rightarrow> bool" where
  "stored_blocks H h bs db \<longleftrightarrow>
     (\<forall>b\<in>set bs. GetBlock H (FullBlock_GetHash b) db = Inr (Some b)) \<and>
     (\<forall>x\<in>insert h (fb_header ` set bs). GetBlockHeader H (BlockHeader_GetHash x) db = Inr (Some x))"

fun blocks_extend ::
  "(nat \<Rightarrow> u8 list) \<Rightarrow> (nat \<Rightarrow> u8 list) \<Rightarrow> (nat \<Rightarrow> u8 list) \<Rightarrow> nat \<Rightarrow> nat \<Rightarrow> full_block list \<Rightarrow> bool" where
  "blocks_extend lo lp lk n k [] \<longleftrightarrow> n < 2 ^ 54 \<and> k < 2 ^ 54"
| "blocks_extend lo lp lk n k (b # bs) \<longleftrightarrow> extends_by lo lp lk n k b \<and> block_fits b \<and>
     blocks_extend lo lp lk (n + length (block_outputs b)) (k + length (block_kernels b)) bs"

abbreviation total_outputs :: "full_block list \<Rightarrow> nat" where
  "total_outputs bs \<equiv> sum_list (map (\<lambda>b. length (block_outputs b)) bs)"

abbreviation total_kernels :: "full_block list \<Rightarrow> nat" where
  "total_kernels bs \<equiv> sum_list (map (\<lambda>b. length (block_kernels b)) bs)"

lemma blocks_extend_room: "blocks_extend lo lp lk n k bs \<Longrightarrow> n + total_outputs bs < 2 ^ 54 \<and> k + total_kernels bs < 2 ^ 54"
proof (induction bs arbitrary: n k)
  case (Cons b bs)
  then have "n + length (block_outputs b) + total_outputs bs < 2 ^ 54 \<and> k + length (block_kernels b) + total_kernels bs < 2 ^ 54"
    by (intro Cons.IH) simp
  then show ?case by (simp add: add.assoc)
qed simp

text \<open>The loop of \<open>Rewind\<close> over the applied blocks, newest first, for any target below them.\<close>

definition unwinds :: "hash_fn \<Rightarrow> full_block list \<Rightarrow> u64 list \<Rightarrow> tx_hash_set \<times> block_db \<Rightarrow> tx_hash_set \<times> block_db \<Rightarrow> bool" where
  "unwinds H bs leaves s s' \<longleftrightarrow> (\<forall>h acc. BlockHeader_GetHash h \<notin> FullBlock_GetHash ` set bs \<longrightarrow>
     rewind_blocks H h acc s = rewind_blocks H h (acc @ leaves) s')"

lemma unwinds_step:
  assumes "unwinds H bs leaves s (t1, db1)" and "ths_blockHeader t1 = fb_header b"
    and "\<And>acc. rewind_block H acc (t1, db1) = (Inr (acc @ leaves'), s2)"
  shows "unwinds H (b # bs) (leaves @ leaves') s s2"
  unfolding unwinds_def
proof (intro allI impI)
  fix h acc assume h: "BlockHeader_GetHash h \<notin> FullBlock_GetHash ` set (b # bs)"
  then have "rewind_blocks H h acc s = rewind_blocks H h (acc @ leaves) (t1, db1)" using assms(1) by (simp add: unwinds_def)
  also have "\<dots> = rewind_blocks H h (acc @ leaves @ leaves') s2"
    using h assms(2,3) by (auto simp: rewind_blocks.simps [of H _ _ "(t1, db1)"] FullBlock_GetHash_def)
  finally show "rewind_blocks H h acc s = rewind_blocks H h (acc @ leaves @ leaves') s2" .
qed

lemma block_run_unwinds:
  assumes "ths_at H lo lp lk n k t" and "positions_point lo n db" and "\<And>x. length (H x) = 32"
    and "blocks_extend lo lp lk n k bs" and "block_run H bs (t, db) (t', dbR)"
    and "linked (ths_blockHeader t) bs" and "distinct (map FullBlock_GetHash bs)"
    and "stored_blocks H (ths_blockHeader t) bs dbR"
  shows "ths_at H lo lp lk (n + total_outputs bs) (k + total_kernels bs) t' \<and>
    (\<forall>h. h \<notin> FullBlock_GetHash ` set bs \<longrightarrow> GetSpentPositions h dbR = GetSpentPositions h db) \<and>
    (\<exists>leaves dbR'. unwinds H bs leaves (t', dbR) (t'\<lparr>ths_blockHeader := ths_blockHeader t\<rparr>, dbR') \<and>
       positions_restored t db dbR' \<and> agree_outside {OUTPUT_POS} dbR dbR' \<and>
       (utxo t' \<union> set leaves) \<inter> {i. unat i < n} = utxo t \<and> (\<forall>i\<in>set leaves. unat i < 2 ^ 63))"
  using assms
proof (induction bs arbitrary: n k t db)
  case Nil
  have "utxo t \<inter> {i. unat i < n} = utxo t"
    using Nil.prems(1) pmmr_at_unspent by (fastforce simp: ths_at_def)
  moreover have "t' = t" "forgets_spent t db dbR" using Nil.prems(5) by (auto elim: block_run_NilE)
  ultimately show ?case
    using Nil.prems(1) by (intro conjI exI [of _ "[]"] exI [of _ dbR]) (auto simp: unwinds_def forgets_spent_def)
next
  case (Cons b bs)
  let ?n = "n + length (block_outputs b)" and ?k = "k + length (block_kernels b)"
  have ext: "extends_by lo lp lk n k b" "block_fits b" "blocks_extend lo lp lk ?n ?k bs" using Cons.prems(4) by simp_all
  have room: "?n < 2 ^ 54" "?k < 2 ^ 54" using blocks_extend_room [OF ext(3)] by simp_all
  from Cons.prems(5) obtain t1 db1 db2 where b: "ApplyBlock H b (t, db) = (Inr True, (t1, db1))"
    and forget: "positions_restored t1 db1 db2" "\<And>h. GetSpentPositions h db2 = GetSpentPositions h db1"
    and bs: "block_run H bs (t1, db2) (t', dbR)"
    by (auto elim!: block_run_ConsE simp: forgets_spent_def)
  from ApplyBlock_connects [OF Cons.prems(1-3) ext(1,2) room b] obtain spent where
    at1: "ths_at H lo lp lk ?n ?k t1" and pp1: "positions_point lo ?n db1" and con: "connects b n spent t db t1 db1" by blast
  note header = connectsD(1) [OF con]
  have link: "linked (ths_blockHeader t1) bs" "bh_previousBlockHash (fb_header b) = BlockHeader_GetHash (ths_blockHeader t)"
    and dist: "distinct (map FullBlock_GetHash bs)" "FullBlock_GetHash b \<notin> FullBlock_GetHash ` set bs"
    using Cons.prems(6,7) header by auto
  have st: "stored_blocks H (ths_blockHeader t1) bs dbR" "GetBlock H (FullBlock_GetHash b) dbR = Inr (Some b)"
    "GetBlockHeader H (BlockHeader_GetHash (ths_blockHeader t)) dbR = Inr (Some (ths_blockHeader t))"
    using Cons.prems(8) header by (auto simp: stored_blocks_def)
  from Cons.IH [OF at1 positions_point_restored [OF pp1 forget(1)] Cons.prems(3) ext(3) bs link(1) dist(1) st(1)] obtain leaves dbR1 where
    at': "ths_at H lo lp lk (?n + total_outputs bs) (?k + total_kernels bs) t'"
    and spent': "\<forall>h. h \<notin> FullBlock_GetHash ` set bs \<longrightarrow> GetSpentPositions h dbR = GetSpentPositions h db2"
    and un: "unwinds H bs leaves (t', dbR) (t'\<lparr>ths_blockHeader := ths_blockHeader t1\<rparr>, dbR1)"
    and pos: "positions_restored t1 db2 dbR1" and agree: "agree_outside {OUTPUT_POS} dbR dbR1"
    and leaves: "(utxo t' \<union> set leaves) \<inter> {i. unat i < ?n} = utxo t1" "\<forall>i\<in>set leaves. unat i < 2 ^ 63" by blast
  let ?t = "t'\<lparr>ths_blockHeader := fb_header b\<rparr>"
    and ?dbR = "restore_positions spent (RemoveOutputPositions (map to_commitment (block_outputs b)) dbR1)"
  have "rewind_block H acc (?t, dbR1) = (Inr (acc @ map spent_leaf spent), (?t\<lparr>ths_blockHeader := ths_blockHeader t\<rparr>, ?dbR))" for acc
    using agree_reads(1,2,3) [OF agree] st(2,3) link(2) connectsD(7) [OF con] spent' dist(2) forget(2)
    by (intro rewind_block_effect [OF _ _ connectsD(2,3) [OF con]]) (simp_all add: FullBlock_GetHash_def)
  then have "unwinds H (b # bs) (leaves @ map spent_leaf spent) (t', dbR) (?t\<lparr>ths_blockHeader := ths_blockHeader t\<rparr>, ?dbR)"
    using unwinds_step [OF un [unfolded header]] by simp
  moreover have "positions_restored t db ?dbR" by (rule disconnect_positions [OF con positions_restored_trans [OF forget(1) pos]])
  moreover have "agree_outside {OUTPUT_POS} dbR ?dbR"
    using agree_trans [OF agree agree_trans [OF agree_writes(2) agree_restore]] .
  moreover have "(utxo t' \<union> set (leaves @ map spent_leaf spent)) \<inter> {i. unat i < n} = utxo t \<and>
      (\<forall>i\<in>set (leaves @ map spent_leaf spent). unat i < 2 ^ 63)"
    using Cons.prems(1) disconnect_leaves [OF con _ leaves room(1)] unfolding ths_at_def by blast
  moreover have "\<forall>h. h \<notin> FullBlock_GetHash ` set (b # bs) \<longrightarrow> GetSpentPositions h dbR = GetSpentPositions h db"
    using spent' connectsD(8) [OF con] forget(2) by simp
  ultimately show ?case using at' by (intro conjI exI [of _ "leaves @ map spent_leaf spent"] exI [of _ ?dbR]) (simp_all add: add.assoc)
qed


section \<open>Applying and rewinding blocks\<close>

text \<open>The serialized leaves of the three ranges, as their data files hold them, and a hash set whose hash files hold
  the nodes over these leaves.\<close>

definition output_leaves :: "tx_hash_set \<Rightarrow> u8 list list" where
  "output_leaves t = df_working OUTPUT_SIZE (pm_dataFile (ths_outputPMMR t))"

definition proof_leaves :: "tx_hash_set \<Rightarrow> u8 list list" where
  "proof_leaves t = df_working RANGE_PROOF_SIZE (pm_dataFile (ths_rangeProofPMMR t))"

definition kernel_leaves :: "tx_hash_set \<Rightarrow> u8 list list" where
  "kernel_leaves t = df_working KERNEL_SIZE (km_dataFile (ths_kernelMMR t))"

definition ths_ok :: "hash_fn \<Rightarrow> tx_hash_set \<Rightarrow> bool" where
  "ths_ok H t \<longleftrightarrow> length (proof_leaves t) = length (output_leaves t) \<and>
     pmmr_ok H OUTPUT_SIZE ((!) (output_leaves t)) (length (output_leaves t)) (ths_outputPMMR t) \<and>
     pmmr_ok H RANGE_PROOF_SIZE ((!) (proof_leaves t)) (length (output_leaves t)) (ths_rangeProofPMMR t) \<and>
     kmmr_at H ((!) (kernel_leaves t)) (length (kernel_leaves t)) (ths_kernelMMR t) \<and>
     unspent (ths_rangeProofPMMR t) = unspent (ths_outputPMMR t)"

abbreviation leaf_sets_small :: "tx_hash_set \<Rightarrow> bool" where
  "leaf_sets_small t \<equiv> bm_small (pm_leafSet (ths_outputPMMR t)) \<and> bm_small (pm_leafSet (ths_rangeProofPMMR t))"

lemma ths_at_leaves:
  "ths_at H lo lp lk n k t \<Longrightarrow> output_leaves t = map lo [0..<n] \<and> proof_leaves t = map lp [0..<n] \<and> kernel_leaves t = map lk [0..<k]"
  by (simp add: ths_at_def pmmr_at_def pmmr_ok_def kmmr_at_def output_leaves_def proof_leaves_def kernel_leaves_def)

lemma map_nth_append: "n = length xs + length ys \<Longrightarrow> map ((!) (xs @ ys)) [0..<n] = xs @ ys"
  by (rule nth_equalityI) simp_all

lemma ths_ok_at:
  assumes "ths_ok H t" "leaf_sets_small t"
  shows "ths_at H ((!) (output_leaves t @ os)) ((!) (proof_leaves t @ ps)) ((!) (kernel_leaves t @ ks))
    (length (output_leaves t)) (length (kernel_leaves t)) t"
proof -
  have "pmmr_at H OUTPUT_SIZE ((!) (output_leaves t @ os)) (length (output_leaves t)) (ths_outputPMMR t)"
    by (rule pmmr_at_cong [where lf = "(!) (output_leaves t)"]) (use assms in \<open>simp_all add: ths_ok_def pmmr_at_def nth_append\<close>)
  moreover have "pmmr_at H RANGE_PROOF_SIZE ((!) (proof_leaves t @ ps)) (length (output_leaves t)) (ths_rangeProofPMMR t)"
    by (rule pmmr_at_cong [where lf = "(!) (proof_leaves t)"]) (use assms in \<open>simp_all add: ths_ok_def pmmr_at_def nth_append\<close>)
  moreover have "kmmr_at H ((!) (kernel_leaves t @ ks)) (length (kernel_leaves t)) (ths_kernelMMR t)"
    by (rule kmmr_at_cong [where lf = "(!) (kernel_leaves t)"]) (use assms in \<open>simp_all add: ths_ok_def nth_append\<close>)
  ultimately show ?thesis using assms(1) by (simp add: ths_at_def ths_ok_def)
qed

lemma ths_ok_of:
  assumes "pmmr_ok H OUTPUT_SIZE lo n (ths_outputPMMR t)" "pmmr_ok H RANGE_PROOF_SIZE lp n (ths_rangeProofPMMR t)"
    "kmmr_at H lk k (ths_kernelMMR t)" "unspent (ths_rangeProofPMMR t) = unspent (ths_outputPMMR t)"
  shows "ths_ok H t"
proof -
  have eq: "output_leaves t = map lo [0..<n]" "proof_leaves t = map lp [0..<n]" "kernel_leaves t = map lk [0..<k]"
    using assms by (simp_all add: pmmr_ok_def kmmr_at_def output_leaves_def proof_leaves_def kernel_leaves_def)
  have n: "n < 2 ^ 63" "k < 2 ^ 63" using assms by (simp_all add: pmmr_ok_def kmmr_at_def)
  have nth: "map ((!) (map f [0..<i])) [0..<i] = map f [0..<i]" for f :: "nat \<Rightarrow> u8 list" and i by simp
  show ?thesis
    using assms holds_nodes_cong [OF _ n(1), of lo "(!) (map lo [0..<n])"] holds_nodes_cong [OF _ n(1), of lp "(!) (map lp [0..<n])"]
      holds_nodes_cong [OF _ n(2), of lk "(!) (map lk [0..<k])"]
    by (simp add: ths_ok_def eq pmmr_ok_def kmmr_at_def nth)
qed

lemma blocks_extend_append:
  assumes "\<forall>b\<in>set bs. block_fits b" and "length os + total_outputs bs < 2 ^ 54" "length ks + total_kernels bs < 2 ^ 54"
    and "length ps = length os"
  shows "blocks_extend ((!) (os @ concat (map (\<lambda>b. map output_leaf (block_outputs b)) bs)))
    ((!) (ps @ concat (map (\<lambda>b. map proof_leaf (block_outputs b)) bs)))
    ((!) (ks @ concat (map (\<lambda>b. map kernel_leaf (block_kernels b)) bs))) (length os) (length ks) bs"
  using assms
proof (induction bs arbitrary: os ps ks)
  case (Cons b bs)
  have "blocks_extend ((!) ((os @ map output_leaf (block_outputs b)) @ concat (map (\<lambda>b. map output_leaf (block_outputs b)) bs)))
    ((!) ((ps @ map proof_leaf (block_outputs b)) @ concat (map (\<lambda>b. map proof_leaf (block_outputs b)) bs)))
    ((!) ((ks @ map kernel_leaf (block_kernels b)) @ concat (map (\<lambda>b. map kernel_leaf (block_kernels b)) bs)))
    (length (os @ map output_leaf (block_outputs b))) (length (ks @ map kernel_leaf (block_kernels b))) bs"
    using Cons.prems by (intro Cons.IH) simp_all
  moreover have "extends_by ((!) (os @ map output_leaf (block_outputs b) @ os')) ((!) (ps @ map proof_leaf (block_outputs b) @ ps'))
      ((!) (ks @ map kernel_leaf (block_kernels b) @ ks')) (length os) (length ks) b" for os' ps' ks'
    using Cons.prems(4) by (simp add: extends_by_def nth_append)
  ultimately show ?case using Cons.prems by simp
qed simp

definition rewind_ranges :: "hash_fn \<Rightarrow> block_header \<Rightarrow> u64 list \<Rightarrow> unit ths_action" where
  "rewind_ranges H header leaves =
     bind_action (on_ths (on_kernels (KernelMMR_Rewind (bh_kernelMMRSize header)))) (\<lambda>_.
     bind_action (on_ths (on_outputs (PMMR_Rewind OUTPUT_SIZE (bh_outputMMRSize header) leaves))) (\<lambda>_.
       on_ths (on_rangeProofs (PMMR_Rewind RANGE_PROOF_SIZE (bh_outputMMRSize header) leaves))))"

lemma rewind_ranges_effect:
  assumes at: "ths_at H lo lp lk N K t" and n: "0 < n" "n \<le> N" "0 < k" "k \<le> K"
    and sizes: "bh_outputMMRSize h = of_nat (mmr_size n)" "bh_kernelMMRSize h = of_nat (mmr_size k)"
    and leaves: "\<forall>i\<in>set leaves. unat i < 2 ^ 63"
  shows "\<exists>t1. rewind_ranges H h leaves (t, db) = (Inr (), (t1, db)) \<and> ths_blockHeader t1 = ths_blockHeader t \<and>
    pmmr_ok H OUTPUT_SIZE lo n (ths_outputPMMR t1) \<and> pmmr_ok H RANGE_PROOF_SIZE lp n (ths_rangeProofPMMR t1) \<and>
    kmmr_at H lk k (ths_kernelMMR t1) \<and> utxo t1 = (utxo t \<union> set leaves) \<inter> {i. unat i < n} \<and>
    unspent (ths_rangeProofPMMR t1) = (utxo t \<union> set leaves) \<inter> {i. unat i < n}"
proof -
  have at': "pmmr_at H OUTPUT_SIZE lo N (ths_outputPMMR t)" "pmmr_at H RANGE_PROOF_SIZE lp N (ths_rangeProofPMMR t)"
    "kmmr_at H lk K (ths_kernelMMR t)" "unspent (ths_rangeProofPMMR t) = utxo t"
    using at by (simp_all add: ths_at_def)
  obtain m1 where m1: "PMMR_Rewind OUTPUT_SIZE (of_nat (mmr_size n)) leaves (ths_outputPMMR t) = (Inr (), m1)"
      "pmmr_ok H OUTPUT_SIZE lo n m1" "unspent m1 = (utxo t \<union> set leaves) \<inter> {i. unat i < n}"
    using pmmr_at_rewind [OF at'(1) n(1,2) leaves] by auto
  obtain m2 where m2: "PMMR_Rewind RANGE_PROOF_SIZE (of_nat (mmr_size n)) leaves (ths_rangeProofPMMR t) = (Inr (), m2)"
      "pmmr_ok H RANGE_PROOF_SIZE lp n m2" "unspent m2 = (utxo t \<union> set leaves) \<inter> {i. unat i < n}"
    using pmmr_at_rewind [OF at'(2) n(1,2) leaves] at'(4) by auto
  obtain m3 where m3: "KernelMMR_Rewind (of_nat (mmr_size k)) (ths_kernelMMR t) = (Inr True, m3)" "kmmr_at H lk k m3"
    using kmmr_at_rewind [OF at'(3) n(3,4)] by auto
  let ?t = "t\<lparr>ths_kernelMMR := m3, ths_outputPMMR := m1, ths_rangeProofPMMR := m2\<rparr>"
  have "rewind_ranges H h leaves (t, db) = (Inr (), (?t, db))"
    using m1(1) m2(1) m3(1) by (simp add: rewind_ranges_def sizes on_defs bind_action_def)
  then show ?thesis using m1 m2 m3 by (intro exI [of _ ?t]) simp
qed

text \<open>C4. Applying blocks to the transaction hash set and rewinding it to the header before them
  gives back the state before them. From a hash set whose three ranges hold the hashes of their leaves, and a database
  whose output positions point to the leaves of the outputs, let a sequence of linked blocks be applied; between blocks the
  positions of spent outputs may be removed and other tables written, as the block processor does. Rewinding to the
  old header returns; afterwards the output, range proof and kernel leaves, the hashes over them, the set of unspent
  outputs and the header are as before, every unspent output has its position back, and no position appears that was not
  there.
\<close>

theorem ApplyBlock_Rewind:
  assumes H: "\<And>x. length (H x) = 32" and ok: "ths_ok H t" "leaf_sets_small t"
    and pp: "positions_point ((!) (output_leaves t)) (length (output_leaves t)) db"
    and sizes: "bh_outputMMRSize (ths_blockHeader t) = of_nat (mmr_size (length (output_leaves t)))" "output_leaves t \<noteq> []"
      "bh_kernelMMRSize (ths_blockHeader t) = of_nat (mmr_size (length (kernel_leaves t)))" "kernel_leaves t \<noteq> []"
    and room: "length (output_leaves t) + total_outputs bs < 2 ^ 54" "length (kernel_leaves t) + total_kernels bs < 2 ^ 54"
    and fits: "\<forall>b\<in>set bs. block_fits b"
    and run: "block_run H bs (t, db) (t', db')"
    and link: "linked (ths_blockHeader t) bs" "distinct (BlockHeader_GetHash (ths_blockHeader t) # map FullBlock_GetHash bs)"
    and stored: "stored_blocks H (ths_blockHeader t) bs db'"
  shows "\<exists>t'' db''. TxHashSet_Rewind H (ths_blockHeader t) (t', db') = Some (Inr (), (t'', db'')) \<and> ths_ok H t'' \<and>
    output_leaves t'' = output_leaves t \<and> proof_leaves t'' = proof_leaves t \<and> kernel_leaves t'' = kernel_leaves t \<and>
    unspent (ths_outputPMMR t'') = unspent (ths_outputPMMR t) \<and> ths_blockHeader t'' = ths_blockHeader t \<and>
    positions_restored t db db''"
proof -
  let ?n = "length (output_leaves t)" and ?k = "length (kernel_leaves t)" and ?h = "ths_blockHeader t"
  define lo where "lo = (!) (output_leaves t @ concat (map (\<lambda>b. map output_leaf (block_outputs b)) bs))"
  define lp where "lp = (!) (proof_leaves t @ concat (map (\<lambda>b. map proof_leaf (block_outputs b)) bs))"
  define lk where "lk = (!) (kernel_leaves t @ concat (map (\<lambda>b. map kernel_leaf (block_kernels b)) bs))"
  have lens: "length (proof_leaves t) = ?n" using ok(1) by (simp add: ths_ok_def)
  have at: "ths_at H lo lp lk ?n ?k t" unfolding lo_def lp_def lk_def by (rule ths_ok_at [OF ok])
  have pp': "positions_point lo ?n db" using pp by (fastforce simp: positions_point_def lo_def nth_append)
  have ext: "blocks_extend lo lp lk ?n ?k bs"
    unfolding lo_def lp_def lk_def using fits room lens by (rule blocks_extend_append)
  have dist: "distinct (map FullBlock_GetHash bs)" and new: "BlockHeader_GetHash ?h \<notin> FullBlock_GetHash ` set bs" using link(2) by auto
  from block_run_unwinds [OF at pp' H ext run link(1) dist stored] obtain leaves dbR' where
    at': "ths_at H lo lp lk (?n + total_outputs bs) (?k + total_kernels bs) t'"
    and un: "unwinds H bs leaves (t', db') (t'\<lparr>ths_blockHeader := ?h\<rparr>, dbR')"
    and res: "positions_restored t db dbR'"
    and leaves: "(utxo t' \<union> set leaves) \<inter> {i. unat i < ?n} = utxo t" "\<forall>i\<in>set leaves. unat i < 2 ^ 63" by blast
  have loop: "rewind_blocks H ?h [] (t', db') = Some (Inr leaves, (t'\<lparr>ths_blockHeader := ?h\<rparr>, dbR'))"
    using un new by (simp add: unwinds_def rewind_blocks.simps [of H _ _ "(t'\<lparr>ths_blockHeader := ?h\<rparr>, dbR')"])
  obtain t1 where t1: "rewind_ranges H ?h leaves (t'\<lparr>ths_blockHeader := ?h\<rparr>, dbR') = (Inr (), (t1, dbR'))" "ths_blockHeader t1 = ?h"
      "pmmr_ok H OUTPUT_SIZE lo ?n (ths_outputPMMR t1)" "pmmr_ok H RANGE_PROOF_SIZE lp ?n (ths_rangeProofPMMR t1)"
      "kmmr_at H lk ?k (ths_kernelMMR t1)" "utxo t1 = utxo t" "unspent (ths_rangeProofPMMR t1) = utxo t"
    using rewind_ranges_effect [of H lo lp lk "?n + total_outputs bs" "?k + total_kernels bs" "t'\<lparr>ths_blockHeader := ?h\<rparr>" ?n ?k ?h leaves dbR'] at' sizes leaves
    by (auto simp: ths_at_def)
  have rewind: "TxHashSet_Rewind H ?h (t', db') = Some (Inr (), (t1, dbR'))"
    using t1(1) by (simp add: TxHashSet_Rewind_def loop rewind_ranges_def)
  have out: "output_leaves t1 = output_leaves t" "proof_leaves t1 = proof_leaves t" "kernel_leaves t1 = kernel_leaves t"
    using t1(3-5) ths_at_leaves [OF at]
    by (simp_all add: pmmr_ok_def kmmr_at_def output_leaves_def proof_leaves_def kernel_leaves_def)
  have "ths_ok H t1" using t1(6,7) by (intro ths_ok_of [OF t1(3-5)]) simp
  then show ?thesis using rewind out t1(2,6) res by (intro exI [of _ t1] exI [of _ dbR'] conjI) simp_all
qed


text \<open>C5. Every block that spends unspent outputs and creates new ones can be applied. Let each input of a block name an
  output whose position in the database is an unspent leaf, no output twice, and let no output of the block be
  an unspent output already. Then \<open>ApplyBlock\<close> returns true, appends the outputs, their range proofs and the
  kernels of the block to the three ranges, removes exactly the leaves of the inputs from the unspent outputs and adds
  those of the new ones, writes no other table of the database, and keeps the hash set and the output positions in order for the next block.
\<close>

theorem ApplyBlock_accepts:
  assumes H: "\<And>x. length (H x) = 32" and ok: "ths_ok H t" "leaf_sets_small t"
    and pp: "positions_point ((!) (output_leaves t)) (length (output_leaves t)) db"
    and room: "length (output_leaves t) + length (tb_outputs (fb_body b)) < 2 ^ 54"
      "length (kernel_leaves t) + length (tb_kernels (fb_body b)) < 2 ^ 54"
    and fits: "block_fits b"
    and inputs: "distinct (map ti_commitment (tb_inputs (fb_body b)))"
      "\<forall>i\<in>set (tb_inputs (fb_body b)). \<exists>l. GetOutputPosition (ti_commitment i) db = Inr (Some l) \<and>
         GetLeafIndex (ol_mmrIndex l) \<in> unspent (ths_outputPMMR t)"
    and outputs: "distinct (map to_commitment (tb_outputs (fb_body b)))"
      "\<forall>x\<in>set (tb_outputs (fb_body b)). \<exists>p. GetOutputPosition (to_commitment x) db = Inr p \<and>
         (\<forall>l. p = Some l \<longrightarrow> GetLeafIndex (ol_mmrIndex l) \<notin> unspent (ths_outputPMMR t))"
  shows "\<exists>t' db'. ApplyBlock H b (t, db) = (Inr True, (t', db')) \<and> ths_ok H t' \<and> leaf_sets_small t' \<and>
    agree_outside {OUTPUT_POS, SPENT_OUTPUTS} db db' \<and> ths_blockHeader t' = fb_header b \<and>
    output_leaves t' = output_leaves t @ map output_leaf (tb_outputs (fb_body b)) \<and>
    proof_leaves t' = proof_leaves t @ map proof_leaf (tb_outputs (fb_body b)) \<and>
    kernel_leaves t' = kernel_leaves t @ map kernel_leaf (tb_kernels (fb_body b)) \<and>
    positions_point ((!) (output_leaves t')) (length (output_leaves t')) db' \<and>
    unspent (ths_outputPMMR t') = unspent (ths_outputPMMR t) -
        {GetLeafIndex (ol_mmrIndex l) |l i. i \<in> set (tb_inputs (fb_body b)) \<and> GetOutputPosition (ti_commitment i) db = Inr (Some l)} \<union>
      of_nat ` {length (output_leaves t)..<length (output_leaves t')}"
proof -
  let ?n = "length (output_leaves t)" and ?k = "length (kernel_leaves t)"
  define lo where "lo = (!) (output_leaves t @ map output_leaf (block_outputs b))"
  define lp where "lp = (!) (proof_leaves t @ map proof_leaf (block_outputs b))"
  define lk where "lk = (!) (kernel_leaves t @ map kernel_leaf (block_kernels b))"
  have lens: "length (proof_leaves t) = ?n" using ok(1) by (simp add: ths_ok_def)
  have at: "ths_at H lo lp lk ?n ?k t" unfolding lo_def lp_def lk_def by (rule ths_ok_at [OF ok])
  have pp': "positions_point lo ?n db" using pp by (fastforce simp: positions_point_def lo_def nth_append)
  have ext: "extends_by lo lp lk ?n ?k b" using lens by (simp add: extends_by_def lo_def lp_def lk_def nth_append)
  obtain t' db' where ap: "ApplyBlock H b (t, db) = (Inr True, (t', db'))"
    using ApplyBlock_succeeds [OF at pp' H ext fits room inputs outputs] by auto
  from ApplyBlock_connects [OF at pp' H ext fits room ap] obtain spent where
    at': "ths_at H lo lp lk (?n + length (block_outputs b)) (?k + length (block_kernels b)) t'"
    and pp'': "positions_point lo (?n + length (block_outputs b)) db'" and con: "connects b ?n spent t db t' db'" by blast
  have out: "output_leaves t' = output_leaves t @ map output_leaf (block_outputs b)"
    "proof_leaves t' = proof_leaves t @ map proof_leaf (block_outputs b)"
    "kernel_leaves t' = kernel_leaves t @ map kernel_leaf (block_kernels b)"
    using ths_at_leaves [OF at'] lens map_nth_append unfolding lo_def lp_def lk_def by (simp_all add: map_nth_append)
  have ok': "ths_ok H t'" "leaf_sets_small t'"
    using at' ths_ok_of [of H lo _ t' lp lk] by (auto simp: ths_at_def pmmr_at_def)
  have "spent_leaf ` set spent =
      {GetLeafIndex (ol_mmrIndex l) |l i. i \<in> set (block_inputs b) \<and> GetOutputPosition (ti_commitment i) db = Inr (Some l)}"
    by (rule connects_spent_leaves [OF con])
  then have "utxo t' = utxo t - {GetLeafIndex (ol_mmrIndex l) |l i. i \<in> set (block_inputs b) \<and>
        GetOutputPosition (ti_commitment i) db = Inr (Some l)} \<union> of_nat ` {?n..<length (output_leaves t')}"
    using connectsD(6) [OF con] by (simp add: out)
  moreover have "positions_point ((!) (output_leaves t')) (length (output_leaves t')) db'"
    using pp'' by (simp add: out lo_def)
  moreover have "agree_outside {OUTPUT_POS, SPENT_OUTPUTS} db db'" using ApplyBlock_tables [of db H b t] ap by simp
  ultimately show ?thesis using ap ok' out connectsD(1) [OF con] by (intro exI [of _ t'] exI [of _ db'] conjI) simp_all
qed


section \<open>A chain of two blocks\<close>

text \<open>Opening the hash set on empty files puts the genesis output and kernel into it.\<close>

definition empty_bitmap :: bitmap_file where
  "empty_bitmap = \<lparr>bm_dirty = False, bm_modifiedBytes = [], bm_mmap = []\<rparr>"

definition empty_files :: txhashset_files where
  "empty_files = \<lparr>tf_kernelHash = [], tf_kernelData = [], tf_outputHash = [], tf_outputData = [], tf_outputLeafSet = empty_bitmap,
     tf_outputPruneList = pl_empty, tf_rangeProofHash = [], tf_rangeProofData = [], tf_rangeProofLeafSet = empty_bitmap,
     tf_rangeProofPruneList = pl_empty\<rparr>"

definition empty_hash_set :: "block_header \<Rightarrow> tx_hash_set" where
  "empty_hash_set h = TxHashSet_new \<lparr>km_hashFile = DataFile_Load [], km_dataFile = DataFile_Load []\<rparr> sample_pmmr sample_pmmr h"

lemma empty_hash_set_at: "ths_at H lo lp lk 0 0 (empty_hash_set h)" "utxo (empty_hash_set h) = {}"
  by (simp_all add: empty_hash_set_def TxHashSet_new_def ths_at_def pmmr_at_def pmmr_ok_def kmmr_at_def sample_pmmr_def holds_nodes_def
      df_load_empty bm_ok_def map_ok_def bm_members_def BitmapFile_IsSet_def BitmapFile_GetByte_def bm_small_def unspent_def OUTPUT_SIZE_def RANGE_PROOF_SIZE_def KERNEL_SIZE_def)

lemma Open_genesis:
  assumes H: "\<And>x. length (H x) = 32" and fits: "block_fits g" and g: "block_outputs g = [x]" "block_kernels g = [k]"
  shows "\<exists>t. TxHashSetManager_Open H empty_files h g = Inr t \<and> ths_ok H t \<and> leaf_sets_small t \<and> output_leaves t = [output_leaf x] \<and>
    proof_leaves t = [proof_leaf x] \<and> kernel_leaves t = [kernel_leaf k] \<and> unspent (ths_outputPMMR t) = {0} \<and> ths_blockHeader t = h"
proof -
  let ?lo = "\<lambda>_. output_leaf x" and ?lp = "\<lambda>_. proof_leaf x" and ?lk = "\<lambda>_. kernel_leaf k" and ?e = "empty_hash_set h"
  note at = empty_hash_set_at(1) [of H ?lo ?lp ?lk h] and room = room_54 [of "Suc 0"]
  have len: "length (output_leaf x) = OUTPUT_SIZE" "length (proof_leaf x) = RANGE_PROOF_SIZE" "length (kernel_leaf k) = KERNEL_SIZE"
    using fits g by (simp_all add: block_fits_def leaf_bytes OUTPUT_SIZE_def RANGE_PROOF_SIZE_def)
  have at': "pmmr_at H OUTPUT_SIZE ?lo 0 sample_pmmr" "pmmr_at H RANGE_PROOF_SIZE ?lp 0 sample_pmmr"
    "kmmr_at H ?lk 0 \<lparr>km_hashFile = DataFile_Load [], km_dataFile = DataFile_Load []\<rparr>" "unspent sample_pmmr = {}"
    using at empty_hash_set_at(2) [of h] by (simp_all add: ths_at_def empty_hash_set_def TxHashSet_new_def)
  obtain m1 where m1: "PMMR_Append H OutputIdentifier_Serialize (OutputIdentifier_FromOutput x) sample_pmmr = (Inr (), m1)"
      "pmmr_at H OUTPUT_SIZE ?lo 1 m1" "unspent m1 = {0}"
    using pmmr_at_append [of H OUTPUT_SIZE ?lo 0 _ OutputIdentifier_Serialize "OutputIdentifier_FromOutput x", OF H at'(1) refl len(1)]
      room(1-3) at'(4) by auto
  obtain m2 where m2: "PMMR_Append H RangeProof_Serialize (to_rangeProof x) sample_pmmr = (Inr (), m2)"
      "pmmr_at H RANGE_PROOF_SIZE ?lp 1 m2" "unspent m2 = {0}"
    using pmmr_at_append [of H RANGE_PROOF_SIZE ?lp 0 _ RangeProof_Serialize "to_rangeProof x", OF H at'(2) refl len(2)]
      room(1,2,4) at'(4) by auto
  obtain m3 where m3: "ApplyKernel H k \<lparr>km_hashFile = DataFile_Load [], km_dataFile = DataFile_Load []\<rparr> = (Inr (), m3)" "kmmr_at H ?lk 1 m3"
    using kmmr_at_apply [of H ?lk 0 _ k, OF H at'(3) refl len(3)] room(1,2,5) by auto
  let ?t = "TxHashSet_new m3 m1 m2 h"
  have empty: "DataFile_GetSize 32 (DataFile_Load []) = 0" "DataFile_GetSize 32 (pm_hashFile sample_pmmr) = 0"
    by (simp_all add: sample_pmmr_def DataFile_Load_def DataFile_GetSize_def AppendOnlyFile_Load_def AppendOnlyFile_GetSize_def)
  have eq: "\<lparr>pm_dirty = False, pm_hashFile = DataFile_Load [], pm_leafSet = empty_bitmap, pm_pruneList = pl_empty,
      pm_dataFile = DataFile_Load []\<rparr> = sample_pmmr" by (simp add: sample_pmmr_def empty_bitmap_def)
  have "TxHashSetManager_Open H empty_files h g = Inr ?t"
    using m1(1) m2(1) m3(1) g
    by (simp add: TxHashSetManager_Open_def KernelMMR_Load_def PMMR_Load_def empty_files_def empty eq bind_result_def Let_def)
  moreover have "ths_at H ?lo ?lp ?lk 1 1 ?t" using m1 m2 m3 by (simp add: ths_at_def TxHashSet_new_def)
  then have "ths_ok H ?t" "leaf_sets_small ?t" "output_leaves ?t = [output_leaf x]" "proof_leaves ?t = [proof_leaf x]" "kernel_leaves ?t = [kernel_leaf k]"
    using ths_at_leaves [of H ?lo ?lp ?lk 1 1 ?t] ths_ok_of [of H ?lo 1 ?t ?lp ?lk 1] by (simp_all add: ths_at_def pmmr_at_def)
  ultimately show ?thesis using m1(3) by (intro exI [of _ ?t]) (simp add: TxHashSet_new_def)
qed

definition sample_output_of :: "u8 \<Rightarrow> transaction_output" where
  "sample_output_of c = TransactionOutput_new sample_hash DEFAULT (replicate 33 c) (replicate 675 1)"

definition genesis_block :: full_block where
  "genesis_block = FullBlock_new sample_header \<lparr>tb_inputs = [], tb_outputs = [sample_output_of 3], tb_kernels = [sample_kernel]\<rparr>"

definition next_header :: block_header where
  "next_header = sample_header\<lparr>bh_height := 6, bh_previousBlockHash := BlockHeader_GetHash sample_header,
     bh_proofOfWork := ProofOfWork_new sample_hash 29 (map of_nat [2..<44])\<rparr>"

text \<open>The next block spends the genesis output.\<close>

definition spend_block :: full_block where
  "spend_block = FullBlock_new next_header
     \<lparr>tb_inputs = [TransactionInput_move sample_hash DEFAULT (replicate 33 3)], tb_outputs = [sample_output_of 4], tb_kernels = [sample_kernel]\<rparr>"

definition genesis_db :: block_db where
  "genesis_db = AddOutputPosition (replicate 33 3) \<lparr>ol_mmrIndex = 0, ol_blockHeight = 5\<rparr>
     (BlockDB_AddBlock spend_block (AddBlockHeader next_header (AddBlockHeader sample_header (BlockDB_OpenDB (\<lambda>_. Map.empty)))))"

lemma sample_fits: "block_fits genesis_block" "block_fits spend_block"
  by (simp_all add: block_fits_def genesis_block_def spend_block_def FullBlock_new_def sample_output_of_def output_hash sample_kernel_def
      kernel_hash input_hash kernel_ser GetBytes_def kernel_enc_def heights_enc_def KERNEL_SIZE_def)


lemma next_header_ok: "header_ok sample_hash v next_header"
proof -
  have "unat (of_nat n :: u64) < 2 ^ 29" if "n < 44" for n
    using that by (subst unat_of_nat_small) simp_all
  then show ?thesis
    by (auto simp: header_ok_def next_header_def sample_header_def pow_hash_new pow_ok_def PROOFSIZE_def BlockHeader_GetHash_def
        sample_pow_def sample_hash_laws)
qed

lemma sample_headers_differ: "BlockHeader_GetHash next_header \<noteq> BlockHeader_GetHash sample_header"
proof -
  have first: "bit (cycle_bits 29 xs ! 0) 0 \<longleftrightarrow> bit (xs ! 0) 0" if "length xs = 42" for xs
    using packed_cycle_bits [of xs 0 0 29] that by (simp add: packed_bit_def PROOFSIZE_def)
  have len: "cycle_bits 29 xs \<noteq> []" if "length xs = 42" for xs
    using length_cycle_bits [of xs 29] that by (auto simp: PROOFSIZE_def cycle_bytes_len_def)
  let ?xs = "map of_nat [2..<44] :: u64 list" and ?ys = "map of_nat [1..<43] :: u64 list"
  have l: "length ?xs = 42" "length ?ys = 42" by simp_all
  have nth: "sample_hash x ! 1 = x ! 0" if "x \<noteq> []" for x
    using that by (cases x) (simp_all add: sample_hash_def numeral_eq_Suc)
  have "\<not> bit (sample_hash (cycle_bits 29 ?xs) ! 1) 0" "bit (sample_hash (cycle_bits 29 ?ys) ! 1) 0"
    using first [OF l(1)] first [OF l(2)] unfolding nth [OF len [OF l(1)]] nth [OF len [OF l(2)]] by simp_all
  then have "sample_hash (cycle_bits 29 ?xs) \<noteq> sample_hash (cycle_bits 29 ?ys)" by metis
  then show ?thesis by (simp add: next_header_def sample_header_def sample_pow_def pow_hash_new BlockHeader_GetHash_def)
qed

lemma sample_stored: "stored_blocks sample_hash sample_header [spend_block] genesis_db"
proof -
  have body: "body_ok sample_hash V1 (fb_body spend_block)"
    by (simp add: body_ok_def spend_block_def FullBlock_new_def sample_defs sample_output_of_def input_ok_def input_enc_def output_ok_def
        range_proof_ok_def kernel_ok_def kernel_enc_def heights_ok_def feature_defs consensus_consts)
  have cycle: "length (cycle_bits 29 (map of_nat [2..<44])) < 2 ^ 16"
    using length_cycle_bits [of "map of_nat [2..<44]" 29] cycle_bytes_len_small [of 29] by (simp add: PROOFSIZE_def)
  have len: "length (header_enc V1 (fb_header spend_block) @ body_enc V1 (fb_body spend_block)) < 2 ^ 64"
    using cycle
    by (simp add: spend_block_def FullBlock_new_def header_enc_def next_header_def sample_header_def pow_enc_def sample_pow_def pow_hash_new
        body_enc_def sample_defs sample_output_of_def input_enc_def output_enc_def range_proof_enc_def kernel_enc_def heights_enc_def
        feature_defs BlockHeader_GetHash_def sample_hash_laws)
  have header: "fb_header spend_block = next_header" "\<not> fb_validated spend_block" by (simp_all add: spend_block_def FullBlock_new_def)
  have idle: "\<not> IsTransactional (db_rocks (BlockDB_OpenDB (\<lambda>_. Map.empty)))"
    by (simp add: BlockDB_OpenDB_def IsTransactional_def RocksDB_DeleteAll_def rdb_update_def)
  have block: "GetBlock sample_hash (FullBlock_GetHash spend_block) genesis_db = Inr (Some spend_block)"
    using block_codec.get_put [of sample_hash spend_block BLOCK] body len next_header_ok header
    by (simp add: genesis_db_def GetBlock_def AddOutputPosition_def location_codec.get_put_other BlockDB_AddBlock_def)
  have "db_headersCache genesis_db =
      header_cache_Put (BlockHeader_GetHash next_header) next_header (header_cache_Put (BlockHeader_GetHash sample_header) sample_header [])"
    using idle by (simp add: genesis_db_def AddOutputPosition_def BlockDB_AddBlock_def AddBlockHeader_def Let_def BlockDB_OpenDB_def)
  then show ?thesis
    using sample_headers_differ block header
    by (simp add: stored_blocks_def GetBlockHeader_def header_cache_Put_def header_cache_capacity_def)
qed


lemma sample_positions: "GetOutputPosition c genesis_db =
    (if c = replicate 33 3 then Inr (Some \<lparr>ol_mmrIndex = 0, ol_blockHeight = 5\<rparr>) else Inr None)"
proof -
  have "db_working (BlockDB_OpenDB (\<lambda>_. Map.empty)) OUTPUT_POS = Map.empty"
    by (simp add: BlockDB_OpenDB_def db_working_def rdb_view_def RocksDB_DeleteAll_def rdb_update_def)
  then have "GetOutputPosition c (BlockDB_AddBlock spend_block (AddBlockHeader next_header (AddBlockHeader sample_header
      (BlockDB_OpenDB (\<lambda>_. Map.empty))))) = Inr None"
    by (simp add: GetOutputPosition_def BlockDB_AddBlock_def AddBlockHeader_def Let_def RocksDB_Get_def db_working_def)
  then show ?thesis by (simp add: genesis_db_def position_add)
qed

lemma spend_block_simps:
  "block_inputs spend_block = [TransactionInput_move sample_hash DEFAULT (replicate 33 3)]"
  "block_outputs spend_block = [sample_output_of 4]" "block_kernels spend_block = [sample_kernel]"
  "ti_commitment (TransactionInput_move sample_hash DEFAULT (replicate 33 3)) = replicate 33 3"
  "to_commitment (sample_output_of 4) = replicate 33 4" "replicate 33 4 \<noteq> (replicate 33 3 :: u8 list)"
  "fb_header spend_block = next_header" "FullBlock_GetHash spend_block = BlockHeader_GetHash next_header"
  by (simp_all add: spend_block_def FullBlock_new_def input_hash sample_output_of_def TransactionOutput_new_def replicate_eq_replicate
      FullBlock_GetHash_def)

lemma sample_opened:
  obtains t where "TxHashSetManager_Open sample_hash empty_files sample_header genesis_block = Inr t" "ths_ok sample_hash t"
    "leaf_sets_small t" "output_leaves t = [output_leaf (sample_output_of 3)]" "kernel_leaves t = [kernel_leaf sample_kernel]"
    "unspent (ths_outputPMMR t) = {0}" "ths_blockHeader t = sample_header"
    "positions_point ((!) (output_leaves t)) (length (output_leaves t)) genesis_db"
proof -
  have "to_commitment (sample_output_of 3) = replicate 33 3" by (simp add: sample_output_of_def TransactionOutput_new_def)
  then have "positions_point ((!) [output_leaf (sample_output_of 3)]) (length [output_leaf (sample_output_of 3)]) genesis_db"
    by (auto simp: positions_point_def sample_positions leaf_bytes split: if_splits)
  then show thesis
    using that Open_genesis [of sample_hash genesis_block "sample_output_of 3" sample_kernel sample_header] sample_fits(1)
    by (auto simp: sample_hash_laws genesis_block_def FullBlock_new_def)
qed

theorem ApplyBlock_accepts_witness:
  "\<exists>t t' db'. TxHashSetManager_Open sample_hash empty_files sample_header genesis_block = Inr t \<and>
     ApplyBlock sample_hash spend_block (t, genesis_db) = (Inr True, (t', db')) \<and>
     length (output_leaves t') = 2 \<and> unspent (ths_outputPMMR t') = {1}"
proof -
  obtain t where t: "TxHashSetManager_Open sample_hash empty_files sample_header genesis_block = Inr t" "ths_ok sample_hash t"
    "leaf_sets_small t" "output_leaves t = [output_leaf (sample_output_of 3)]" "kernel_leaves t = [kernel_leaf sample_kernel]"
    "unspent (ths_outputPMMR t) = {0}" "positions_point ((!) (output_leaves t)) (length (output_leaves t)) genesis_db"
    by (rule sample_opened)
  have leaf: "GetLeafIndex 0 = 0" using GetLeafIndex_size [of 0] by simp
  from ApplyBlock_accepts [of sample_hash t genesis_db spend_block, OF sample_hash_laws(1) t(2,3,7)] sample_fits(2)
  show ?thesis
    using t(1,4-6) by (auto simp: spend_block_simps sample_positions leaf)
qed

theorem ApplyBlock_Rewind_witness:
  "\<exists>t t' db' t'' db''. TxHashSetManager_Open sample_hash empty_files sample_header genesis_block = Inr t \<and>
     ApplyBlock sample_hash spend_block (t, genesis_db) = (Inr True, (t', db')) \<and>
     TxHashSet_Rewind sample_hash sample_header (t', db') = Some (Inr (), (t'', db'')) \<and>
     output_leaves t'' = [output_leaf (sample_output_of 3)] \<and> unspent (ths_outputPMMR t'') = {0}"
proof -
  obtain t where t: "TxHashSetManager_Open sample_hash empty_files sample_header genesis_block = Inr t" "ths_ok sample_hash t"
    "leaf_sets_small t" "output_leaves t = [output_leaf (sample_output_of 3)]" "kernel_leaves t = [kernel_leaf sample_kernel]"
    "unspent (ths_outputPMMR t) = {0}" "ths_blockHeader t = sample_header"
    "positions_point ((!) (output_leaves t)) (length (output_leaves t)) genesis_db"
    by (rule sample_opened)
  have leaf: "GetLeafIndex 0 = 0" using GetLeafIndex_size [of 0] by simp
  let ?lo = "(!) (output_leaves t @ [output_leaf (sample_output_of 4)])" and ?lp = "(!) (proof_leaves t @ [proof_leaf (sample_output_of 4)])"
    and ?lk = "(!) (kernel_leaves t @ [kernel_leaf sample_kernel])"
  note at = ths_ok_at [OF t(2,3), of "[output_leaf (sample_output_of 4)]" "[proof_leaf (sample_output_of 4)]" "[kernel_leaf sample_kernel]"]
  have pp: "positions_point ?lo (length (output_leaves t)) genesis_db" using t(8) by (fastforce simp: positions_point_def nth_append)
  have ext: "extends_by ?lo ?lp ?lk (length (output_leaves t)) (length (kernel_leaves t)) spend_block"
    using t(2) by (auto simp: extends_by_def spend_block_simps ths_ok_def nth_append)
  obtain t' db' where ap: "ApplyBlock sample_hash spend_block (t, genesis_db) = (Inr True, (t', db'))"
    using ApplyBlock_succeeds [OF at pp sample_hash_laws(1) ext sample_fits(2)] t(4-6)
    by (auto simp: spend_block_simps sample_positions leaf)
  have "forgets_spent t' db' db'" by (simp add: forgets_spent_def positions_restored_refl)
  then have run: "block_run sample_hash [spend_block] (t, genesis_db) (t', db')"
    using ap block_run.no_block block_run.next_block by blast
  have agree: "agree_outside {OUTPUT_POS, SPENT_OUTPUTS} genesis_db db'" using ApplyBlock_tables [of genesis_db sample_hash spend_block t] ap by simp
  have "stored_blocks sample_hash (ths_blockHeader t) [spend_block] db'"
    using sample_stored agree_reads(1,2) [OF agree] by (simp add: stored_blocks_def t(7))
  moreover have "linked (ths_blockHeader t) [spend_block]" by (simp add: t(7) spend_block_simps next_header_def)
  moreover have "bh_outputMMRSize sample_header = of_nat (mmr_size 1)" "bh_kernelMMRSize sample_header = of_nat (mmr_size 1)"
    by (simp_all add: sample_header_def mmr_size_def popcount.simps)
  ultimately show ?thesis
    using ApplyBlock_Rewind [of sample_hash t genesis_db "[spend_block]" t' db', OF sample_hash_laws(1) t(2,3,8)] run ap t(1,4-7)
      sample_fits(2) sample_headers_differ
    by (auto simp: spend_block_simps)
qed

end
