(* ===== verification/Tx_Pool.thy ===== *)
theory Tx_Pool
  imports Tx_Hash_Set_Rewind
begin

text \<open>
  The transaction pool: \<^verbatim>\<open>TxPoolEntry\<close>, \<^verbatim>\<open>Pool\<close>, \<^verbatim>\<open>ValidTransactionFinder\<close>
  and \<^verbatim>\<open>TransactionPool\<close> (\<^verbatim>\<open>src/TxPool\<close>).

  The pool keeps pointers to transactions: a pointer is the transaction with its address, which
  \<^verbatim>\<open>ChangeStatus\<close> compares and \<^verbatim>\<open>std::set<TransactionPtr>\<close> orders by. Operations that
  allocate a transaction take its address as an argument. The clock, random numbers and the configured stem probability are arguments.
  Operations that validate act on the pool and the cache of verified range proofs. The mutex is not modelled.
\<close>

datatype EDandelionStatus = TO_STEM | STEMMED | TO_FLUFF | FLUFFED

datatype EPoolType = STEMPOOL | MEMPOOL | JOINPOOL

datatype EAddTransactionStatus = ADDED | DUPLICATE | LOW_FEE | TX_INVALID | NOT_ADDED

record tx_ptr =
  ptr_address :: nat
  ptr_tx :: transaction

record tx_pool_entry =
  pe_transaction :: tx_ptr
  pe_status :: EDandelionStatus
  pe_timestamp :: int

type_synonym pool = "tx_pool_entry list"

abbreviation entry_tx :: "tx_pool_entry \<Rightarrow> transaction" where
  "entry_tx e \<equiv> ptr_tx (pe_transaction e)"

section \<open>ValidTransactionFinder\<close>

text \<open>A null hash set is dereferenced.\<close>

definition IsValidTransaction ::
  "EEnvironmentType \<Rightarrow> hash_fn \<Rightarrow> secp256k1 \<Rightarrow> block_db \<Rightarrow> tx_hash_set option \<Rightarrow> transaction \<Rightarrow> bool cached" where
  "IsValidTransaction env H secp db txHashSet tx cache =
     (case bind_cached (TransactionValidator_Validate H secp tx) (\<lambda>_.
        lift_cached (case txHashSet of None \<Rightarrow> Inl UNDEFINED_BEHAVIOUR | Some t \<Rightarrow> TxHashSet_IsValid env db tx t)) cache of
      (r, cache) \<Rightarrow> (catch_all False r, cache))"

fun find_valid ::
  "EEnvironmentType \<Rightarrow> hash_fn \<Rightarrow> secp256k1 \<Rightarrow> block_db \<Rightarrow> tx_hash_set option \<Rightarrow> transaction option \<Rightarrow>
   tx_ptr list \<Rightarrow> tx_ptr list \<Rightarrow> tx_ptr list cached" where
  "find_valid env H secp db txHashSet extraTransaction [] validTransactions = lift_cached (Inr validTransactions)"
| "find_valid env H secp db txHashSet extraTransaction (p # transactions) validTransactions =
     (let candidateTransactions = map ptr_tx validTransactions @
            (case extraTransaction of None \<Rightarrow> [] | Some extra \<Rightarrow> [extra]) @ [ptr_tx p]
      in bind_cached (lift_cached (Aggregate H secp candidateTransactions)) (\<lambda>aggregated.
         bind_cached (IsValidTransaction env H secp db txHashSet aggregated) (\<lambda>ok.
           find_valid env H secp db txHashSet extraTransaction transactions
             (if ok then validTransactions @ [p] else validTransactions))))"

definition FindValidTransactions ::
  "EEnvironmentType \<Rightarrow> hash_fn \<Rightarrow> secp256k1 \<Rightarrow> block_db \<Rightarrow> tx_hash_set option \<Rightarrow> tx_ptr list \<Rightarrow>
   transaction option \<Rightarrow> tx_ptr list cached" where
  "FindValidTransactions env H secp db txHashSet transactions extraTransaction =
     find_valid env H secp db txHashSet extraTransaction transactions []"

section \<open>Pool\<close>

fun match_short_ids ::
  "hash_fn \<Rightarrow> big_integer \<Rightarrow> u64 \<Rightarrow> short_id set \<Rightarrow> (transaction_kernel \<times> tx_ptr) list \<Rightarrow> tx_ptr list \<Rightarrow> tx_ptr list result" where
  "match_short_ids H hash nonce missingShortIds [] transactionsFound = Inr transactionsFound"
| "match_short_ids H hash nonce missingShortIds ((k, p) # rest) transactionsFound =
     bind_result (ShortId_Create H (tk_hash k) hash nonce) (\<lambda>shortId.
       if shortId \<in> missingShortIds then
         let transactionsFound = transactionsFound @ [p]
         in if length transactionsFound = card missingShortIds then Inr transactionsFound
            else match_short_ids H hash nonce missingShortIds rest transactionsFound
       else match_short_ids H hash nonce missingShortIds rest transactionsFound)"

definition pool_kernels :: "pool \<Rightarrow> (transaction_kernel \<times> tx_ptr) list" where
  "pool_kernels p = concat (map (\<lambda>e. map (\<lambda>k. (k, pe_transaction e)) (tb_kernels (tx_body (entry_tx e)))) p)"

definition Pool_GetTransactionsByShortId ::
  "hash_fn \<Rightarrow> big_integer \<Rightarrow> u64 \<Rightarrow> short_id set \<Rightarrow> pool \<Rightarrow> tx_ptr list result" where
  "Pool_GetTransactionsByShortId H hash nonce missingShortIds p =
     match_short_ids H hash nonce missingShortIds (pool_kernels p) []"

text \<open>The time stamp is \<^verbatim>\<open>std::time_t()\<close>, a value-initialised number.\<close>

definition Pool_AddTransaction :: "tx_ptr \<Rightarrow> EDandelionStatus \<Rightarrow> pool \<Rightarrow> pool" where
  "Pool_AddTransaction tx status p = p @ [\<lparr>pe_transaction = tx, pe_status = status, pe_timestamp = 0\<rparr>]"

definition ContainsTransaction :: "transaction \<Rightarrow> pool \<Rightarrow> bool" where
  "ContainsTransaction tx p \<longleftrightarrow> list_ex (\<lambda>e. tx_hash (entry_tx e) = tx_hash tx) p"

fun insert_ptr :: "tx_ptr \<Rightarrow> tx_ptr list \<Rightarrow> tx_ptr list" where
  "insert_ptr p [] = [p]"
| "insert_ptr p (q # ps) =
     (if ptr_address p < ptr_address q then p # q # ps
      else if ptr_address p = ptr_address q then q # ps else q # insert_ptr p ps)"

text \<open>Kernels in a set are the same when their excess commitments are.\<close>

definition Pool_FindTransactionsByKernel :: "transaction_kernel list \<Rightarrow> pool \<Rightarrow> tx_ptr list" where
  "Pool_FindTransactionsByKernel kernels p =
     fold (\<lambda>(k, tx). if tk_excessCommitment k \<in> set (map tk_excessCommitment kernels) then insert_ptr tx else id) (pool_kernels p) []"

definition Pool_FindTransactionByKernelHash :: "big_integer \<Rightarrow> pool \<Rightarrow> tx_ptr option" where
  "Pool_FindTransactionByKernelHash kernelHash p =
     map_option snd (find (\<lambda>(k, tx). tk_hash k = kernelHash) (pool_kernels p))"

definition FindTransactionsByStatus :: "EDandelionStatus \<Rightarrow> pool \<Rightarrow> tx_ptr list" where
  "FindTransactionsByStatus status p = map pe_transaction (filter (\<lambda>e. pe_status e = status) p)"

definition Pool_GetExpiredTransactions :: "int \<Rightarrow> u16 \<Rightarrow> pool \<Rightarrow> tx_ptr list" where
  "Pool_GetExpiredTransactions now embargoSeconds p =
     (let cutoff = now - uint embargoSeconds
      in map pe_transaction (filter (\<lambda>e. pe_timestamp e < cutoff) p))"

definition RemoveTransaction :: "transaction \<Rightarrow> pool \<Rightarrow> pool" where
  "RemoveTransaction tx p = remove_first (\<lambda>e. tx_hash tx = tx_hash (entry_tx e)) p"

definition ShouldEvict :: "transaction \<Rightarrow> full_block \<Rightarrow> bool" where
  "ShouldEvict tx b \<longleftrightarrow>
     list_ex (\<lambda>i. ti_hash i \<in> set (map ti_hash (tb_inputs (fb_body b)))) (tb_inputs (tx_body tx)) \<or>
     list_ex (\<lambda>k. tk_hash k \<in> set (map tk_hash (tb_kernels (fb_body b)))) (tb_kernels (tx_body tx))"

text \<open>Of two entries with the same hash, the map of filtered entries holds the first.\<close>

definition entry_of :: "pool \<Rightarrow> tx_ptr \<Rightarrow> tx_pool_entry result" where
  "entry_of filtered p = (case find (\<lambda>e. tx_hash (entry_tx e) = tx_hash (ptr_tx p)) filtered of
      None \<Rightarrow> Inl STD_EXCEPTION | Some e \<Rightarrow> Inr e)"

definition Pool_ReconcileBlock ::
  "EEnvironmentType \<Rightarrow> hash_fn \<Rightarrow> secp256k1 \<Rightarrow> block_db \<Rightarrow> tx_hash_set option \<Rightarrow> full_block \<Rightarrow>
   transaction option \<Rightarrow> (pool \<times> proofs_cache, unit) action" where
  "Pool_ReconcileBlock env H secp db txHashSet b memPoolAggTx =
     bind_action (get_action (\<lambda>s. filter (\<lambda>e. \<not> ShouldEvict (entry_tx e) b) (fst s))) (\<lambda>filtered.
     bind_action (modify_action (\<lambda>s. ([], snd s))) (\<lambda>_.
     bind_action (zoom_action snd (\<lambda>cache s. (fst s, cache))
         (FindValidTransactions env H secp db txHashSet (map pe_transaction filtered) memPoolAggTx)) (\<lambda>validTransactions.
     bind_action (read_action (\<lambda>_. map_result (entry_of filtered) validTransactions)) (\<lambda>entries.
       modify_action (\<lambda>s. (entries, snd s))))))"

definition ChangeStatus :: "tx_ptr list \<Rightarrow> EDandelionStatus \<Rightarrow> pool \<Rightarrow> pool" where
  "ChangeStatus transactions status p =
     map (\<lambda>e. if ptr_address (pe_transaction e) \<in> set (map ptr_address transactions) then e\<lparr>pe_status := status\<rparr> else e) p"

text \<open>\<open>TransactionUtil::Aggregate\<close> on pointers: one transaction is returned as it is.\<close>

definition Aggregate_ptr :: "hash_fn \<Rightarrow> secp256k1 \<Rightarrow> nat \<Rightarrow> tx_ptr list \<Rightarrow> tx_ptr result" where
  "Aggregate_ptr H secp address ps = (case ps of
      [p] \<Rightarrow> Inr p
    | _ \<Rightarrow> bind_result (Aggregate H secp (map ptr_tx ps)) (\<lambda>tx. Inr \<lparr>ptr_address = address, ptr_tx = tx\<rparr>))"

definition Pool_Aggregate :: "hash_fn \<Rightarrow> secp256k1 \<Rightarrow> nat \<Rightarrow> pool \<Rightarrow> tx_ptr option result" where
  "Pool_Aggregate H secp address p =
     (if p = [] then Inr None
      else bind_result (Aggregate_ptr H secp address (map pe_transaction p)) (\<lambda>tx. Inr (Some tx)))"

section \<open>TransactionPool\<close>

record transaction_pool =
  tp_memPool :: pool
  tp_stemPool :: pool
  tp_joinPool :: pool

definition TransactionPool_new :: transaction_pool where
  "TransactionPool_new = \<lparr>tp_memPool = [], tp_stemPool = [], tp_joinPool = []\<rparr>"

type_synonym 'a pool_action = "(transaction_pool \<times> proofs_cache, 'a) action"

text \<open>Actions on one pool and the cache, or on the cache alone.\<close>

definition on_pool ::
  "(transaction_pool \<Rightarrow> pool) \<Rightarrow> (pool \<Rightarrow> transaction_pool \<Rightarrow> transaction_pool) \<Rightarrow> (pool \<times> proofs_cache, 'a) action \<Rightarrow> 'a pool_action" where
  "on_pool get put = zoom_action (\<lambda>s. (get (fst s), snd s)) (\<lambda>(p, cache) s. (put p (fst s), cache))"

abbreviation on_memPool :: "(pool \<times> proofs_cache, 'a) action \<Rightarrow> 'a pool_action" where
  "on_memPool \<equiv> on_pool tp_memPool (\<lambda>p. tp_memPool_update (\<lambda>_. p))"

abbreviation on_stemPool :: "(pool \<times> proofs_cache, 'a) action \<Rightarrow> 'a pool_action" where
  "on_stemPool \<equiv> on_pool tp_stemPool (\<lambda>p. tp_stemPool_update (\<lambda>_. p))"

abbreviation on_joinPool :: "(pool \<times> proofs_cache, 'a) action \<Rightarrow> 'a pool_action" where
  "on_joinPool \<equiv> on_pool tp_joinPool (\<lambda>p. tp_joinPool_update (\<lambda>_. p))"

definition on_cache :: "'a cached \<Rightarrow> 'a pool_action" where
  "on_cache = zoom_action snd (\<lambda>cache s. (fst s, cache))"

abbreviation update_pool :: "(pool \<Rightarrow> pool) \<Rightarrow> (pool \<times> proofs_cache, unit) action" where
  "update_pool f \<equiv> modify_action (\<lambda>s. (f (fst s), snd s))"

definition GetTransactionsByShortId ::
  "hash_fn \<Rightarrow> big_integer \<Rightarrow> u64 \<Rightarrow> short_id set \<Rightarrow> transaction_pool \<Rightarrow> tx_ptr list result" where
  "GetTransactionsByShortId H hash nonce missingShortIds p =
     Pool_GetTransactionsByShortId H hash nonce missingShortIds (tp_memPool p)"

text \<open>The exceptions of the validation are caught; undefined behaviour is not an exception.\<close>

definition validates :: "hash_fn \<Rightarrow> secp256k1 \<Rightarrow> transaction \<Rightarrow> bool cached" where
  "validates H secp tx cache =
     (case bind_cached (TransactionValidator_Validate H secp tx) (\<lambda>_. lift_cached (Inr True)) cache of
        (r, cache) \<Rightarrow> (catch_all False r, cache))"

definition feeBase :: u64 where "feeBase = 1000000"

definition insert_into_pool :: "tx_ptr \<Rightarrow> EPoolType \<Rightarrow> u8 \<Rightarrow> u8 \<Rightarrow> transaction_pool \<Rightarrow> transaction_pool" where
  "insert_into_pool tx poolType random stemProbability p = (case poolType of
      MEMPOOL \<Rightarrow> p\<lparr>tp_memPool := Pool_AddTransaction tx FLUFFED (tp_memPool p), tp_stemPool := RemoveTransaction (ptr_tx tx) (tp_stemPool p)\<rparr>
    | STEMPOOL \<Rightarrow> p\<lparr>tp_stemPool :=
        Pool_AddTransaction tx (if random \<le> stemProbability then TO_STEM else TO_FLUFF) (tp_stemPool p)\<rparr>
    | JOINPOOL \<Rightarrow> p\<lparr>tp_joinPool := Pool_AddTransaction tx TO_FLUFF (tp_joinPool p)\<rparr>)"

definition AddTransaction ::
  "EEnvironmentType \<Rightarrow> hash_fn \<Rightarrow> secp256k1 \<Rightarrow> u8 \<Rightarrow> u8 \<Rightarrow> block_db \<Rightarrow> tx_hash_set option \<Rightarrow> tx_ptr \<Rightarrow> EPoolType \<Rightarrow>
   block_header \<Rightarrow> EAddTransactionStatus pool_action" where
  "AddTransaction env H secp random stemProbability db txHashSet tx poolType lastConfirmedBlock =
     bind_action (get_action fst) (\<lambda>p.
       if poolType = MEMPOOL \<and> ContainsTransaction (ptr_tx tx) (tp_memPool p) then return_action DUPLICATE
       else if CalculateMinimumFee feeBase (ptr_tx tx) > CalculateActualFee (ptr_tx tx) then return_action LOW_FEE
       else if list_ex (\<lambda>k. tk_lockHeight k > bh_height lastConfirmedBlock + 1) (tb_kernels (tx_body (ptr_tx tx))) then return_action NOT_ADDED
       else bind_action (on_cache (validates H secp (ptr_tx tx))) (\<lambda>valid.
         if \<not> valid then return_action TX_INVALID
         else bind_action (read_action (\<lambda>_. case txHashSet of None \<Rightarrow> Inr False | Some t \<Rightarrow> TxHashSet_IsValid env db (ptr_tx tx) t)) (\<lambda>unspent.
           if \<not> unspent then return_action NOT_ADDED
           else bind_action (modify_action (\<lambda>s. (insert_into_pool tx poolType random stemProbability (fst s), snd s))) (\<lambda>_.
             return_action ADDED))))"

definition FindTransactionsByKernel :: "transaction_kernel list \<Rightarrow> transaction_pool \<Rightarrow> tx_ptr list" where
  "FindTransactionsByKernel kernels p = Pool_FindTransactionsByKernel kernels (tp_memPool p)"

definition FindTransactionByKernelHash :: "big_integer \<Rightarrow> transaction_pool \<Rightarrow> tx_ptr option" where
  "FindTransactionByKernelHash kernelHash p =
     (case Pool_FindTransactionByKernelHash kernelHash (tp_memPool p) of
        Some tx \<Rightarrow> Some tx
      | None \<Rightarrow> Pool_FindTransactionByKernelHash kernelHash (tp_stemPool p))"

definition ReconcileBlock ::
  "EEnvironmentType \<Rightarrow> hash_fn \<Rightarrow> secp256k1 \<Rightarrow> block_db \<Rightarrow> tx_hash_set option \<Rightarrow> full_block \<Rightarrow> unit pool_action" where
  "ReconcileBlock env H secp db txHashSet b =
     bind_action (on_memPool (Pool_ReconcileBlock env H secp db txHashSet b None)) (\<lambda>_.
     bind_action (read_action (\<lambda>s. Pool_Aggregate H secp 0 (tp_memPool (fst s)))) (\<lambda>memPoolAggTx.
     bind_action (on_stemPool (Pool_ReconcileBlock env H secp db txHashSet b (map_option ptr_tx memPoolAggTx))) (\<lambda>_.
       on_joinPool (Pool_ReconcileBlock env H secp db txHashSet b (map_option ptr_tx memPoolAggTx)))))"

text \<open>The transactions of a status that are valid beside the memory pool.\<close>

definition valid_of_status ::
  "EEnvironmentType \<Rightarrow> hash_fn \<Rightarrow> secp256k1 \<Rightarrow> block_db \<Rightarrow> tx_hash_set option \<Rightarrow> EDandelionStatus \<Rightarrow> tx_ptr list pool_action" where
  "valid_of_status env H secp db txHashSet status =
     bind_action (get_action (\<lambda>s. FindTransactionsByStatus status (tp_stemPool (fst s)))) (\<lambda>transactions.
       if transactions = [] then return_action []
       else bind_action (read_action (\<lambda>s. Pool_Aggregate H secp 0 (tp_memPool (fst s)))) (\<lambda>memPoolAggTx.
         on_cache (FindValidTransactions env H secp db txHashSet transactions (map_option ptr_tx memPoolAggTx))))"

definition GetTransactionToStem ::
  "EEnvironmentType \<Rightarrow> hash_fn \<Rightarrow> secp256k1 \<Rightarrow> nat \<Rightarrow> block_db \<Rightarrow> tx_hash_set option \<Rightarrow> tx_ptr option pool_action" where
  "GetTransactionToStem env H secp address db txHashSet =
     bind_action (valid_of_status env H secp db txHashSet TO_STEM) (\<lambda>validTransactions.
       if validTransactions = [] then return_action None
       else bind_action (read_action (\<lambda>_. Aggregate_ptr H secp address validTransactions)) (\<lambda>tx.
         bind_action (on_stemPool (update_pool (ChangeStatus validTransactions STEMMED))) (\<lambda>_. return_action (Some tx))))"

definition GetTransactionToFluff ::
  "EEnvironmentType \<Rightarrow> hash_fn \<Rightarrow> secp256k1 \<Rightarrow> nat \<Rightarrow> block_db \<Rightarrow> tx_hash_set option \<Rightarrow> tx_ptr option pool_action" where
  "GetTransactionToFluff env H secp address db txHashSet =
     bind_action (valid_of_status env H secp db txHashSet TO_FLUFF) (\<lambda>validTransactions.
       if validTransactions = [] then return_action None
       else bind_action (read_action (\<lambda>_. Aggregate_ptr H secp address validTransactions)) (\<lambda>tx.
         bind_action (on_memPool (update_pool (Pool_AddTransaction tx FLUFFED))) (\<lambda>_.
         bind_action (on_stemPool (update_pool (fold (\<lambda>t. RemoveTransaction (ptr_tx t)) validTransactions))) (\<lambda>_.
           return_action (Some tx)))))"

text \<open>The addition is made in \<^verbatim>\<open>int\<close> and narrowed to 16 bits.\<close>

definition GetExpiredTransactions :: "int \<Rightarrow> u16 \<Rightarrow> u16 \<Rightarrow> transaction_pool \<Rightarrow> tx_ptr list" where
  "GetExpiredTransactions now embargoSeconds random p = Pool_GetExpiredTransactions now (embargoSeconds + random) (tp_stemPool p)"

definition FluffJoinPool :: "hash_fn \<Rightarrow> secp256k1 \<Rightarrow> nat \<Rightarrow> unit pool_action" where
  "FluffJoinPool H secp address =
     bind_action (read_action (\<lambda>s. Pool_Aggregate H secp address (tp_joinPool (fst s)))) (\<lambda>aggregated.
     bind_action (case aggregated of
         None \<Rightarrow> return_action ()
       | Some tx \<Rightarrow> on_stemPool (update_pool (Pool_AddTransaction tx TO_FLUFF))) (\<lambda>_.
       on_joinPool (update_pool (\<lambda>_. []))))"


section \<open>Finding valid transactions\<close>

text \<open>A cache that only holds commitments with a valid range proof, and a list of transactions whose aggregate was
  accepted with such a cache and spends from the given chain state.\<close>

definition sound_cache :: "secp256k1 \<Rightarrow> (u8 list \<Rightarrow> u8 list \<Rightarrow> bool) \<Rightarrow> proofs_cache \<Rightarrow> bool" where
  "sound_cache secp R cache \<longleftrightarrow> cache_ok cache \<and> (\<forall>c\<in>set cache. in_range secp R c)"

definition accepted ::
  "EEnvironmentType \<Rightarrow> hash_fn \<Rightarrow> secp256k1 \<Rightarrow> (u8 list \<Rightarrow> u8 list \<Rightarrow> bool) \<Rightarrow> block_db \<Rightarrow> tx_hash_set \<Rightarrow> transaction list \<Rightarrow> bool" where
  "accepted env H secp R db t txs \<longleftrightarrow> (\<exists>tx cache cache'. Aggregate H secp txs = Inr tx \<and> sound_cache secp R cache \<and>
     TransactionValidator_Validate H secp tx cache = (Inr (), cache') \<and> TxHashSet_IsValid env db tx t = Inr True)"

lemma Validate_sound_cache:
  assumes "batch_law secp R" "sound_cache secp R cache" and "TransactionValidator_Validate H secp tx cache = (r, cache')"
  shows "sound_cache secp R cache'"
proof -
  obtain r' where "TransactionBodyValidator_Validate H secp (tx_body tx) True cache = (r', cache')"
    using assms(3) by (auto simp: TransactionValidator_Validate_def bind_cached_def lift_cached_def split: prod.splits sum.splits)
  from body_cache_step [OF this] consider "cache' = cache" |
      "snd (VerifyBulletproofs secp (map (\<lambda>x. (to_commitment x, to_rangeProof x)) (tb_outputs (tx_body tx))) cache) = cache'" by blast
  then show ?thesis
  proof cases
    case 2
    then obtain r where "VerifyBulletproofs secp (map (\<lambda>x. (to_commitment x, to_rangeProof x)) (tb_outputs (tx_body tx))) cache = (r, cache')"
      by (metis prod.collapse)
    from VerifyBulletproofs_keeps [OF assms(1) _ _ this] assms(2) show ?thesis by (simp add: sound_cache_def)
  qed (use assms(2) in simp)
qed

lemma IsValidTransaction_cases:
  assumes "batch_law secp R" "sound_cache secp R cache" and "IsValidTransaction env H secp db (Some t) tx cache = (Inr ok, cache')"
  shows "sound_cache secp R cache'" and "ok \<Longrightarrow> \<exists>c'. TransactionValidator_Validate H secp tx cache = (Inr (), c') \<and> TxHashSet_IsValid env db tx t = Inr True"
proof -
  obtain r c where v: "TransactionValidator_Validate H secp tx cache = (r, c)" by fastforce
  have c: "sound_cache secp R c" by (rule Validate_sound_cache [OF assms(1,2) v])
  show "sound_cache secp R cache'" using assms(3) c v
    by (cases r) (auto simp: IsValidTransaction_def bind_cached_def lift_cached_def)
  show "ok \<Longrightarrow> \<exists>c'. TransactionValidator_Validate H secp tx cache = (Inr (), c') \<and> TxHashSet_IsValid env db tx t = Inr True"
    using assms(3) v
    by (cases r) (auto simp: IsValidTransaction_def bind_cached_def lift_cached_def catch_all_def split: sum.splits exn.splits)
qed

lemma find_valid_sound:
  assumes "batch_law secp R" "sound_cache secp R cache"
    and "find_valid env H secp db (Some t) extra txs valid cache = (Inr result, cache')"
    and "extra = None \<Longrightarrow> valid \<noteq> [] \<Longrightarrow> accepted env H secp R db t (map ptr_tx valid)"
  shows "sound_cache secp R cache' \<and> set result \<subseteq> set valid \<union> set txs \<and>
    (extra = None \<longrightarrow> result \<noteq> [] \<longrightarrow> accepted env H secp R db t (map ptr_tx result))"
  using assms(2-4)
proof (induction txs arbitrary: valid cache)
  case Nil
  then show ?case by (simp add: lift_cached_def)
next
  case (Cons p txs)
  let ?cand = "map ptr_tx valid @ (case extra of None \<Rightarrow> [] | Some x \<Rightarrow> [x]) @ [ptr_tx p]"
  from Cons.prems(2) obtain agg ok c where agg: "Aggregate H secp ?cand = Inr agg"
    and v: "IsValidTransaction env H secp db (Some t) agg cache = (Inr ok, c)"
    and rest: "find_valid env H secp db (Some t) extra txs (if ok then valid @ [p] else valid) c = (Inr result, cache')"
    by (auto simp: bind_cached_eq_Inr_iff lift_cached_def Let_def)
  note iv = IsValidTransaction_cases [OF assms(1) Cons.prems(1) v]
  have "accepted env H secp R db t (map ptr_tx (if ok then valid @ [p] else valid))"
    if "extra = None" "(if ok then valid @ [p] else valid) \<noteq> []"
    using that agg iv(2) Cons.prems(1,3) by (cases ok) (auto simp: accepted_def)
  from Cons.IH [OF iv(1) rest this] show ?case by (auto split: if_splits)
qed

lemma map_result_entry_of:
  assumes "map_result (entry_of filtered) ps = Inr es"
  shows "set es \<subseteq> set filtered \<and> map (tx_hash \<circ> entry_tx) es = map (tx_hash \<circ> ptr_tx) ps"
  using assms
proof (induction ps arbitrary: es)
  case (Cons p ps)
  from Cons.prems obtain e es' where e: "entry_of filtered p = Inr e" "map_result (entry_of filtered) ps = Inr es'" "es = e # es'"
    by (auto simp: bind_result_eq_Inr_iff)
  have "e \<in> set filtered \<and> tx_hash (entry_tx e) = tx_hash (ptr_tx p)"
    using e(1) by (auto simp: entry_of_def find_Some_iff split: option.splits)
  then show ?case using Cons.IH [OF e(2)] e(3) by simp
qed simp


section \<open>Reconciling with a block\<close>

lemma on_pool_eq:
  "on_pool get put m s = (case m (get (fst s), snd s) of (r, p, cache) \<Rightarrow> (r, put p (fst s), cache))"
  by (simp add: on_pool_def zoom_action_def case_prod_unfold)

lemma on_pool_Inr:
  "on_pool get put m s = (Inr x, s') \<longleftrightarrow> (\<exists>p cache. m (get (fst s), snd s) = (Inr x, (p, cache)) \<and> s' = (put p (fst s), cache))"
  by (auto simp: on_pool_eq split: prod.splits)

lemma Pool_ReconcileBlock_subset:
  "set (fst (snd (Pool_ReconcileBlock env H secp db t b extra (p, cache)))) \<subseteq> {e \<in> set p. \<not> ShouldEvict (entry_tx e) b}"
proof -
  let ?f = "filter (\<lambda>e. \<not> ShouldEvict (entry_tx e) b) p"
  obtain r c where "FindValidTransactions env H secp db t (map pe_transaction ?f) extra cache = (r, c)" by fastforce
  moreover have "set es \<subseteq> {e \<in> set p. \<not> ShouldEvict (entry_tx e) b}" if "map_result (entry_of ?f) ps = Inr es" for ps es
    using map_result_entry_of [OF that] by auto
  ultimately show ?thesis
    by (cases r) (auto simp: Pool_ReconcileBlock_def bind_action_def action_apply zoom_action_def split: sum.split)
qed

lemma Pool_ReconcileBlock_effect:
  assumes "batch_law secp R" "sound_cache secp R cache"
    and run: "Pool_ReconcileBlock env H secp db (Some t) b extra (p, cache) = (Inr (), (p', cache'))"
  shows "sound_cache secp R cache'"
    and "extra = None \<Longrightarrow> p' \<noteq> [] \<Longrightarrow> inj_on tx_hash (entry_tx ` set p) \<Longrightarrow> accepted env H secp R db t (map entry_tx p')"
proof -
  let ?f = "filter (\<lambda>e. \<not> ShouldEvict (entry_tx e) b) p"
  from run obtain valid where find: "find_valid env H secp db (Some t) extra (map pe_transaction ?f) [] cache = (Inr valid, cache')"
    and es: "map_result (entry_of ?f) valid = Inr p'"
    by (auto simp: Pool_ReconcileBlock_def FindValidTransactions_def bind_action_eq_Inr_iff action_apply zoom_action_def split: prod.splits)
  note fv = find_valid_sound [OF assms(1,2) find]
  show "sound_cache secp R cache'" using fv by simp
  show "accepted env H secp R db t (map entry_tx p')" if "extra = None" "p' \<noteq> []" "inj_on tx_hash (entry_tx ` set p)"
  proof -
    have sub: "set p' \<subseteq> set p" and hashes: "map (tx_hash \<circ> entry_tx) p' = map (tx_hash \<circ> ptr_tx) valid"
      using map_result_entry_of [OF es] by auto
    have "set valid \<subseteq> pe_transaction ` set p" using fv by auto
    have "map entry_tx p' = map ptr_tx valid"
    proof (rule nth_equalityI)
      show len: "length (map entry_tx p') = length (map ptr_tx valid)" using hashes by (metis length_map)
      fix i assume i: "i < length (map entry_tx p')"
      then have "tx_hash (entry_tx (p' ! i)) = tx_hash (ptr_tx (valid ! i))"
        using hashes len by (metis comp_apply length_map nth_map)
      moreover have "p' ! i \<in> set p" using i sub nth_mem [of i p'] by auto
      then have "entry_tx (p' ! i) \<in> entry_tx ` set p" by (rule imageI)
      moreover have "ptr_tx (valid ! i) \<in> entry_tx ` set p"
        using i len \<open>set valid \<subseteq> pe_transaction ` set p\<close> nth_mem [of i valid] by fastforce
      ultimately have "entry_tx (p' ! i) = ptr_tx (valid ! i)" using inj_onD [OF that(3)] by blast
      then show "map entry_tx p' ! i = map ptr_tx valid ! i" using i len by simp
    qed
    moreover have "valid \<noteq> []" using that(2) calculation by auto
    ultimately show ?thesis using fv that(1) by simp
  qed
qed


section \<open>The embargo timer\<close>

text \<open>The states a pool reaches by its own operations, returned or thrown; the cache is shared with other
  components and may change between them.\<close>

inductive pool_run :: "EEnvironmentType \<Rightarrow> hash_fn \<Rightarrow> secp256k1 \<Rightarrow> transaction_pool \<times> proofs_cache \<Rightarrow> bool"
  for env H secp where
  created: "pool_run env H secp (TransactionPool_new, cache)"
| added: "pool_run env H secp s \<Longrightarrow>
    pool_run env H secp (snd (AddTransaction env H secp random probability db t tx poolType header s))"
| reconciled: "pool_run env H secp s \<Longrightarrow> pool_run env H secp (snd (ReconcileBlock env H secp db t b s))"
| stemmed: "pool_run env H secp s \<Longrightarrow> pool_run env H secp (snd (GetTransactionToStem env H secp address db t s))"
| fluffed: "pool_run env H secp s \<Longrightarrow> pool_run env H secp (snd (GetTransactionToFluff env H secp address db t s))"
| joined: "pool_run env H secp s \<Longrightarrow> pool_run env H secp (snd (FluffJoinPool H secp address s))"
| cached: "pool_run env H secp (p, cache) \<Longrightarrow> pool_run env H secp (p, cache')"

definition unstamped :: "pool \<Rightarrow> bool" where
  "unstamped p \<longleftrightarrow> (\<forall>e\<in>set p. pe_timestamp e = 0)"

abbreviation unstamped_pools :: "transaction_pool \<times> proofs_cache \<Rightarrow> bool" where
  "unstamped_pools s \<equiv> unstamped (tp_memPool (fst s)) \<and> unstamped (tp_stemPool (fst s)) \<and> unstamped (tp_joinPool (fst s))"

lemma unstamped_ops [simp]:
  "unstamped []"
  "unstamped p \<Longrightarrow> unstamped (Pool_AddTransaction tx status p)"
  "unstamped p \<Longrightarrow> unstamped (RemoveTransaction tx' p)"
  "unstamped p \<Longrightarrow> unstamped (ChangeStatus txs status p)"
  using set_remove_first [of _ p]
  by (auto simp: unstamped_def Pool_AddTransaction_def RemoveTransaction_def ChangeStatus_def)

lemma unstamped_fold: "unstamped p \<Longrightarrow> unstamped (fold (\<lambda>t. RemoveTransaction (ptr_tx t)) txs p)"
  by (induction txs arbitrary: p) simp_all

lemma keeps_on_part:
  assumes "keeps (\<lambda>s. P (fst s)) m" and "\<And>s. Q s \<Longrightarrow> P (get (fst s))" and "\<And>s p cache. Q s \<Longrightarrow> P p \<Longrightarrow> Q (put p (fst s), cache)"
  shows "keeps Q (on_pool get put m)"
  unfolding keeps_def
proof (intro allI impI)
  fix s assume "Q s"
  then have "P (fst (snd (m (get (fst s), snd s))))" using keepsD [OF assms(1), of "(get (fst s), snd s)"] assms(2) by simp
  with \<open>Q s\<close> show "Q (snd (on_pool get put m s))" using assms(3) by (simp add: on_pool_eq case_prod_unfold)
qed

lemma keeps_on_pool:
  assumes "keeps (\<lambda>s. unstamped (fst s)) m"
  shows "keeps unstamped_pools (on_memPool m)" "keeps unstamped_pools (on_stemPool m)" "keeps unstamped_pools (on_joinPool m)"
  by (rule keeps_on_part [OF assms]; simp)+

lemma keeps_pool_ops:
  "keeps (\<lambda>s. unstamped (fst s)) (Pool_ReconcileBlock env H secp db t b extra)"
  "(\<And>p. unstamped p \<Longrightarrow> unstamped (f p)) \<Longrightarrow> keeps (\<lambda>s. unstamped (fst s)) (update_pool f)"
  "keeps unstamped_pools (on_cache m)"
proof -
  show "keeps (\<lambda>s. unstamped (fst s)) (Pool_ReconcileBlock env H secp db t b extra)"
    unfolding keeps_def
  proof (intro allI impI)
    fix s :: "pool \<times> proofs_cache" assume "unstamped (fst s)"
    then show "unstamped (fst (snd (Pool_ReconcileBlock env H secp db t b extra s)))"
      using Pool_ReconcileBlock_subset [of env H secp db t b extra "fst s" "snd s"] by (auto simp: unstamped_def)
  qed
qed (simp_all add: keeps_def action_apply on_cache_def zoom_action_eq)

lemma keeps_insert:
  "keeps unstamped_pools (modify_action (\<lambda>s. (insert_into_pool tx poolType random probability (fst s), snd s)))"
  by (auto simp: keeps_def action_apply insert_into_pool_def split: EPoolType.split)

lemmas keeps_pool = keeps_on_pool keeps_pool_ops keeps_insert keeps_bind keeps_branch keeps_basic

lemma pool_ops_keep:
  "keeps unstamped_pools (AddTransaction env H secp random probability db t tx poolType header)"
  "keeps unstamped_pools (ReconcileBlock env H secp db t b)"
  "keeps unstamped_pools (valid_of_status env H secp db t status)"
  "keeps unstamped_pools (GetTransactionToStem env H secp address db t)"
  "keeps unstamped_pools (GetTransactionToFluff env H secp address db t)"
  "keeps unstamped_pools (FluffJoinPool H secp address)"
proof -
  show v: "keeps unstamped_pools (valid_of_status env H secp db t status)" for status
    unfolding valid_of_status_def by (intro keeps_pool)
  show "keeps unstamped_pools (AddTransaction env H secp random probability db t tx poolType header)"
    unfolding AddTransaction_def by (intro keeps_pool)
  show "keeps unstamped_pools (ReconcileBlock env H secp db t b)"
    unfolding ReconcileBlock_def by (intro keeps_pool)
  show "keeps unstamped_pools (GetTransactionToStem env H secp address db t)"
    unfolding GetTransactionToStem_def by (intro keeps_pool v) simp
  show "keeps unstamped_pools (GetTransactionToFluff env H secp address db t)"
    unfolding GetTransactionToFluff_def by (intro keeps_pool v) (simp_all add: unstamped_fold)
  show "keeps unstamped_pools (FluffJoinPool H secp address)"
    unfolding FluffJoinPool_def by (intro keeps_pool) simp_all
qed

lemma pool_run_unstamped: "pool_run env H secp s \<Longrightarrow> unstamped_pools s"
proof (induction rule: pool_run.induct)
  case (created cache)
  show ?case by (simp add: TransactionPool_new_def)
qed (simp_all add: keepsD [OF pool_ops_keep(1)] keepsD [OF pool_ops_keep(2)] keepsD [OF pool_ops_keep(4)]
       keepsD [OF pool_ops_keep(5)] keepsD [OF pool_ops_keep(6)])

text \<open>C35. The embargo of stemmed transactions never holds. An entry is stamped with \<^verbatim>\<open>std::time_t()\<close>, which is zero and not
  the current time; so in every state a pool can reach, every transaction of the stem pool counts as expired, whatever its
  age, as soon as the clock is past the embargo time counted from 1970.\<close>

theorem GetExpiredTransactions_all:
  assumes "pool_run env H secp s" and "uint (embargoSeconds + random) < now"
  shows "GetExpiredTransactions now embargoSeconds random (fst s) = map pe_transaction (tp_stemPool (fst s))"
proof -
  have "filter (\<lambda>e. pe_timestamp e < now - uint (embargoSeconds + random)) (tp_stemPool (fst s)) = tp_stemPool (fst s)"
    using pool_run_unstamped [OF assms(1)] assms(2) by (simp add: filter_id_conv unstamped_def)
  then show ?thesis by (simp add: GetExpiredTransactions_def Pool_GetExpiredTransactions_def)
qed


section \<open>A pool with one transaction\<close>

text \<open>Spends 10, pays 7 and a fee of 8000000; the kernel excess is 7999994, the offset 3.\<close>

definition fee_tx :: transaction where
  "fee_tx = Transaction_new sample_hash (sample_blind 3)
     \<lparr>tb_inputs = [pay_input 10], tb_outputs = [pay_output DEFAULT 7], tb_kernels = [pay_kernel DEFAULT_KERNEL 8000000 7999994]\<rparr>"

definition fee_output :: transaction_output where
  "fee_output = TransactionOutput_new sample_hash DEFAULT (sample_commitment 10) (replicate 675 1)"

definition fee_genesis :: full_block where
  "fee_genesis = FullBlock_new sample_header \<lparr>tb_inputs = [], tb_outputs = [fee_output], tb_kernels = [sample_kernel]\<rparr>"

definition fee_db :: block_db where
  "fee_db = AddOutputPosition (sample_commitment 10) \<lparr>ol_mmrIndex = 0, ol_blockHeight = 0\<rparr> (BlockDB_OpenDB (\<lambda>_. Map.empty))"

lemma fee_tx_valid: "TransactionValidator_Validate sample_hash sample_secp fee_tx [] = (Inr (), [sample_commitment 7])"
proof -
  have "TransactionBodyValidator_Validate sample_hash sample_secp (tx_body fee_tx) True [] = (Inr (), [sample_commitment 7])"
    "ValidateFeatures (tx_body fee_tx) = Inr ()" by code_simp+
  moreover have "TransactionValidator_ValidateKernelSums sample_secp fee_tx = Inr ()"
    using sample_sums [of "[10]" "[7]" "[7999994]" 8000000 3 None]
    by (simp add: TransactionValidator_ValidateKernelSums_def ValidateKernelSums_def fee_tx_def pay_defs sample_prev_def overage_value_def
        word_sless_alt rethrow_bad_data_def)
  ultimately show ?thesis by (simp add: TransactionValidator_Validate_def bind_cached_def lift_cached_def)
qed

lemma fee_positions: "GetOutputPosition c fee_db =
    (if c = sample_commitment 10 then Inr (Some \<lparr>ol_mmrIndex = 0, ol_blockHeight = 0\<rparr>) else Inr None)"
proof -
  have "GetOutputPosition c (BlockDB_OpenDB (\<lambda>_. Map.empty)) = Inr None"
    by (simp add: GetOutputPosition_def RocksDB_Get_def BlockDB_OpenDB_def rdb_view_def RocksDB_DeleteAll_def rdb_update_def)
  then show ?thesis by (simp add: fee_db_def position_add)
qed

lemma fee_state:
  obtains t where "TxHashSetManager_Open sample_hash empty_files sample_header fee_genesis = Inr t" "ths_blockHeader t = sample_header"
    "TxHashSet_IsValid MAINNET fee_db fee_tx t = Inr True"
proof -
  have fits: "block_fits fee_genesis"
    by (simp add: block_fits_def fee_genesis_def fee_output_def FullBlock_new_def output_hash sample_kernel_def kernel_hash kernel_ser
        GetBytes_def kernel_enc_def heights_enc_def KERNEL_SIZE_def)
  obtain t where t: "TxHashSetManager_Open sample_hash empty_files sample_header fee_genesis = Inr t" "ths_ok sample_hash t"
    "output_leaves t = [output_leaf fee_output]" "unspent (ths_outputPMMR t) = {0}" "ths_blockHeader t = sample_header"
    using Open_genesis [of sample_hash fee_genesis fee_output sample_kernel sample_header] fits
    by (auto simp: sample_hash_laws fee_genesis_def FullBlock_new_def)
  have get: "OutputPMMR_GetAt 0 (ths_outputPMMR t) = Inr (Some \<lparr>oi_features = DEFAULT, oi_commitment = sample_commitment 10\<rparr>)"
  proof -
    have "OutputPMMR_GetAt 0 (ths_outputPMMR t) =
        bind_result (OutputIdentifier_Deserialize (ByteBuffer_new (output_leaf fee_output) V1)) (\<lambda>(x, _). Inr (Some x))"
      using PMMR_GetAt_ok [of sample_hash OUTPUT_SIZE "(!) (output_leaves t)" 1 "ths_outputPMMR t" 0] t(2-4)
      by (simp add: ths_ok_def OutputPMMR_GetAt_def)
    moreover have "bind_result (OutputIdentifier_Deserialize (ByteBuffer_new (output_leaf fee_output) V1)) (\<lambda>(x, _). Inr (Some x)) =
        Inr (Some \<lparr>oi_features = DEFAULT, oi_commitment = sample_commitment 10\<rparr>)" by code_simp
    ultimately show ?thesis by (rule trans)
  qed
  have "TxHashSet_IsValid MAINNET fee_db fee_tx t = Inr True"
    using get by (simp add: TxHashSet_IsValid_def fee_positions fee_tx_def pay_defs)
  then show thesis using that t(1,5) by blast
qed

theorem GetExpiredTransactions_all_witness:
  "\<exists>t p cache. TxHashSetManager_Open sample_hash empty_files sample_header fee_genesis = Inr t \<and>
     AddTransaction MAINNET sample_hash sample_secp 1 90 fee_db (Some t) \<lparr>ptr_address = 1, ptr_tx = fee_tx\<rparr> STEMPOOL sample_header (TransactionPool_new, []) =
       (Inr ADDED, (p, cache)) \<and>
     GetExpiredTransactions 1600000000 180 7 p = [\<lparr>ptr_address = 1, ptr_tx = fee_tx\<rparr>]"
proof -
  obtain t where t: "TxHashSetManager_Open sample_hash empty_files sample_header fee_genesis = Inr t" "ths_blockHeader t = sample_header"
    "TxHashSet_IsValid MAINNET fee_db fee_tx t = Inr True" by (rule fee_state)
  let ?ptr = "\<lparr>ptr_address = 1, ptr_tx = fee_tx\<rparr>"
  let ?add = "AddTransaction MAINNET sample_hash sample_secp 1 90 fee_db (Some t) ?ptr STEMPOOL sample_header"
  have fee: "\<not> CalculateMinimumFee feeBase fee_tx > CalculateActualFee fee_tx"
    "map tk_lockHeight (tb_kernels (tx_body fee_tx)) = [0]" by code_simp+
  then have lock: "\<not> list_ex (\<lambda>k. tk_lockHeight k > bh_height sample_header + 1) (tb_kernels (tx_body fee_tx))"
    by (auto simp: list_ex_iff)
  have add: "?add (TransactionPool_new, []) =
      (Inr ADDED, (insert_into_pool ?ptr STEMPOOL 1 90 TransactionPool_new, [sample_commitment 7]))"
    using fee(1) lock t(3) fee_tx_valid
    by (simp add: AddTransaction_def bind_action_def action_apply on_cache_def zoom_action_def validates_def bind_cached_def lift_cached_def catch_all_def)
  have "pool_run MAINNET sample_hash sample_secp (snd (?add (TransactionPool_new, [])))" by (intro pool_run.intros)
  from GetExpiredTransactions_all [OF this, of 180 7 1600000000] add
  have "GetExpiredTransactions 1600000000 180 7 (insert_into_pool ?ptr STEMPOOL 1 90 TransactionPool_new) = [?ptr]"
    by (simp add: insert_into_pool_def Pool_AddTransaction_def TransactionPool_new_def)
  then show ?thesis using t(1) add by blast
qed


end
