(* ===== verification/Chain_State.thy ===== *)
theory Chain_State
  imports Tx_Pool
begin

text \<open>
  The state of the chain: \<^verbatim>\<open>ChainState\<close> (\<^verbatim>\<open>src/BlockChain/ChainState.cpp\<close>,
  \<^verbatim>\<open>ChainState.h\<close>), \<^verbatim>\<open>TxHashSetManager\<close> as a batchable object, and
  \<^verbatim>\<open>SyncStatus\<close>.

  The chain state owns the chains, the block database, the header MMR, the transaction hash set, the
  orphan pool and the transaction pool. A batch on it opens a batch on the first four. The writers
  of a batch hold the objects themselves, so inside a batch reads and writes act on the members of the record; outside a
  batch only reads occur. The cache of verified range proofs is global in the program and part of the state here.

  A process is an action that may run forever; then its value is \<open>None\<close>.
\<close>

section \<open>Processes\<close>

type_synonym ('s, 'a) process = "'s \<Rightarrow> ('a result \<times> 's) option"

definition run_action :: "('s, 'a) action \<Rightarrow> ('s, 'a) process" where
  "run_action m s = Some (m s)"

definition bind_process :: "('s, 'a) process \<Rightarrow> ('a \<Rightarrow> ('s, 'b) process) \<Rightarrow> ('s, 'b) process" where
  "bind_process m f s = (case m s of
      None \<Rightarrow> None
    | Some (Inl e, s) \<Rightarrow> Some (Inl e, s)
    | Some (Inr x, s) \<Rightarrow> f x s)"

definition catch_process :: "('s, 'a) process \<Rightarrow> (exn \<Rightarrow> ('s, 'a) process) \<Rightarrow> ('s, 'a) process" where
  "catch_process m handler s = (case m s of
      Some (Inl e, s) \<Rightarrow> if e = UNDEFINED_BEHAVIOUR then Some (Inl e, s) else handler e s
    | r \<Rightarrow> r)"

section \<open>The world\<close>

text \<open>What the operations take from outside: the network, the hash function, the elliptic-curve and
  proof-of-work libraries, the clock (its tick rate and its reading), what the scratch file of the bitmap root held, and the
  outcomes of the file system calls and of the database when a batch is committed.\<close>

record node_world =
  w_env :: EEnvironmentType
  w_H :: hash_fn
  w_secp :: secp256k1
  w_cuckoo :: cuckoo_library
  w_ticks :: int
  w_now :: int
  w_tmp :: "u8 list"
  w_chainFiles :: "bool \<times> bool"
  w_dbCommits :: bool
  w_headerFiles :: "bool \<times> bool"
  w_hashSetFiles :: "bool \<times> bool"

section \<open>TxHashSetManager\<close>

record tx_hash_set_manager =
  tm_dirty :: bool
  tm_txHashSet :: "tx_hash_set option"

definition TxHashSetManager_Commit :: "bool \<Rightarrow> bool \<Rightarrow> (tx_hash_set_manager, unit) action" where
  "TxHashSetManager_Commit truncated opened m = (case tm_txHashSet m of
      None \<Rightarrow> (Inr (), m)
    | Some t \<Rightarrow> (case TxHashSet_Commit truncated opened t of (r, t) \<Rightarrow> (r, m\<lparr>tm_txHashSet := Some t\<rparr>)))"

definition TxHashSetManager_Rollback :: "tx_hash_set_manager \<Rightarrow> tx_hash_set_manager" where
  "TxHashSetManager_Rollback m = m\<lparr>tm_txHashSet := map_option TxHashSet_Rollback (tm_txHashSet m)\<rparr>"

definition TxHashSetManager_SetDirty :: "bool \<Rightarrow> tx_hash_set_manager \<Rightarrow> tx_hash_set_manager" where
  "TxHashSetManager_SetDirty dirty m = m\<lparr>tm_dirty := dirty\<rparr>"

definition TxHashSetManager_Close :: "tx_hash_set_manager \<Rightarrow> tx_hash_set_manager" where
  "TxHashSetManager_Close m = m\<lparr>tm_txHashSet := None\<rparr>"

definition SetTxHashSet :: "tx_hash_set \<Rightarrow> tx_hash_set_manager \<Rightarrow> tx_hash_set_manager" where
  "SetTxHashSet t m = m\<lparr>tm_txHashSet := Some t\<rparr>"

section \<open>ChainState\<close>

record chain_state =
  st_dirty :: bool
  st_chainStore :: chain_store
  st_blockDB :: block_db
  st_headerMMR :: header_mmr
  st_txHashSetManager :: tx_hash_set_manager
  st_orphanPool :: orphan_pool
  st_txPool :: transaction_pool
  st_cache :: proofs_cache

definition on_chainStore :: "(chain_store, 'a) action \<Rightarrow> (chain_state, 'a) action" where
  "on_chainStore = zoom_action st_chainStore (\<lambda>x. st_chainStore_update (\<lambda>_. x))"

definition on_blockDB :: "(block_db, 'a) action \<Rightarrow> (chain_state, 'a) action" where
  "on_blockDB = zoom_action st_blockDB (\<lambda>x. st_blockDB_update (\<lambda>_. x))"

definition on_headerMMR :: "(header_mmr, 'a) action \<Rightarrow> (chain_state, 'a) action" where
  "on_headerMMR = zoom_action st_headerMMR (\<lambda>x. st_headerMMR_update (\<lambda>_. x))"

definition on_txHashSetManager :: "(tx_hash_set_manager, 'a) action \<Rightarrow> (chain_state, 'a) action" where
  "on_txHashSetManager = zoom_action st_txHashSetManager (\<lambda>x. st_txHashSetManager_update (\<lambda>_. x))"

definition on_orphanPool :: "(orphan_pool, 'a) action \<Rightarrow> (chain_state, 'a) action" where
  "on_orphanPool = zoom_action st_orphanPool (\<lambda>x. st_orphanPool_update (\<lambda>_. x))"

definition on_txPool :: "(transaction_pool \<times> proofs_cache, 'a) action \<Rightarrow> (chain_state, 'a) action" where
  "on_txPool = zoom_action (\<lambda>s. (st_txPool s, st_cache s)) (\<lambda>(p, cache) s. s\<lparr>st_txPool := p, st_cache := cache\<rparr>)"

definition on_proofsCache :: "'a cached \<Rightarrow> (chain_state, 'a) action" where
  "on_proofsCache = zoom_action st_cache (\<lambda>x. st_cache_update (\<lambda>_. x))"

subsection \<open>Batches\<close>

definition ChainState_SetDirty :: "bool \<Rightarrow> chain_state \<Rightarrow> chain_state" where
  "ChainState_SetDirty dirty s = s\<lparr>st_dirty := dirty\<rparr>"

definition ChainState_Commit :: "node_world \<Rightarrow> (chain_state, unit) action" where
  "ChainState_Commit w =
     bind_action (on_chainStore (ChainStore_Commit (fst (w_chainFiles w)) (snd (w_chainFiles w)))) (\<lambda>_.
     bind_action (on_blockDB (BlockDB_Commit (w_dbCommits w))) (\<lambda>_.
     bind_action (on_headerMMR (HeaderMMR_Commit (fst (w_headerFiles w)) (snd (w_headerFiles w)))) (\<lambda>_.
       on_txHashSetManager (TxHashSetManager_Commit (fst (w_hashSetFiles w)) (snd (w_hashSetFiles w))))))"

text \<open>\<open>Rollback\<close> is \<^verbatim>\<open>noexcept\<close>: an exception inside it calls \<^verbatim>\<open>std::terminate\<close>, which, like undefined
  behaviour, no handler catches.\<close>

definition no_except :: "('s \<Rightarrow> 's result) \<Rightarrow> ('s, unit) action" where
  "no_except f s = (case f s of Inl _ \<Rightarrow> (Inl UNDEFINED_BEHAVIOUR, s) | Inr t \<Rightarrow> (Inr (), t))"

definition ChainState_Rollback :: "(chain_state, unit) action" where
  "ChainState_Rollback =
     bind_action (on_chainStore (no_except ChainStore_Rollback)) (\<lambda>_.
     bind_action (on_blockDB (modify_action BlockDB_Rollback)) (\<lambda>_.
     bind_action (on_headerMMR (modify_action HeaderMMR_Rollback)) (\<lambda>_.
       on_txHashSetManager (modify_action TxHashSetManager_Rollback))))"

definition ChainState_OnInitWrite :: "chain_state \<Rightarrow> chain_state" where
  "ChainState_OnInitWrite s =
     s\<lparr>st_chainStore := InnerWriter_new ChainStore_OnInitWrite ChainStore_SetDirty (st_chainStore s),
       st_blockDB := InnerWriter_new BlockDB_OnInitWrite BlockDB_SetDirty (st_blockDB s),
       st_headerMMR := InnerWriter_new HeaderMMR_OnInitWrite (\<lambda>d m. m\<lparr>hm_dirty := d\<rparr>) (st_headerMMR s),
       st_txHashSetManager := InnerWriter_new (\<lambda>m. m) TxHashSetManager_SetDirty (st_txHashSetManager s)\<rparr>"

text \<open>Clearing a writer destroys the batch it holds.\<close>

definition close_chainStore :: "(chain_store, unit) action" where
  "close_chainStore =
     bind_action (get_action cs_dirty) (\<lambda>dirty.
     bind_action (when_action dirty (bind_action (no_except ChainStore_Rollback) (\<lambda>_. modify_action (ChainStore_SetDirty False)))) (\<lambda>_.
       modify_action ChainStore_OnEndWrite))"

definition close_blockDB :: "block_db \<Rightarrow> block_db" where
  "close_blockDB = InnerWriter_destroy True (BlockDB_Commit True) BlockDB_Rollback BlockDB_OnEndWrite db_dirty BlockDB_SetDirty"

definition close_headerMMR :: "header_mmr \<Rightarrow> header_mmr" where
  "close_headerMMR =
     InnerWriter_destroy True (HeaderMMR_Commit True True) HeaderMMR_Rollback HeaderMMR_OnEndWrite hm_dirty (\<lambda>d m. m\<lparr>hm_dirty := d\<rparr>)"

definition close_txHashSetManager :: "tx_hash_set_manager \<Rightarrow> tx_hash_set_manager" where
  "close_txHashSetManager =
     InnerWriter_destroy True (TxHashSetManager_Commit True True) TxHashSetManager_Rollback (\<lambda>m. m) tm_dirty TxHashSetManager_SetDirty"

definition ChainState_OnEndWrite :: "(chain_state, unit) action" where
  "ChainState_OnEndWrite =
     bind_action (on_chainStore close_chainStore) (\<lambda>_.
     bind_action (on_blockDB (modify_action close_blockDB)) (\<lambda>_.
     bind_action (on_headerMMR (modify_action close_headerMMR)) (\<lambda>_.
       on_txHashSetManager (modify_action close_txHashSetManager))))"

text \<open>The destructor of a batch writer, and of a plain writer, whose exceptions are swallowed.\<close>

definition end_batch :: "(chain_state, unit) action" where
  "end_batch =
     bind_action (get_action st_dirty) (\<lambda>dirty.
     bind_action (when_action dirty (bind_action ChainState_Rollback (\<lambda>_. modify_action (ChainState_SetDirty False)))) (\<lambda>_.
       ChainState_OnEndWrite))"

definition end_write :: "node_world \<Rightarrow> (chain_state, unit) action" where
  "end_write w s =
     (case bind_action (get_action st_dirty) (\<lambda>dirty.
        bind_action (when_action dirty (bind_action (ChainState_Commit w) (\<lambda>_. modify_action (ChainState_SetDirty False)))) (\<lambda>_.
          ChainState_OnEndWrite)) s of
      (Inl e, s) \<Rightarrow> (if e = UNDEFINED_BEHAVIOUR then Inl e else Inr (), s)
    | r \<Rightarrow> r)"

definition BatchWrite :: "(chain_state, 'a) process \<Rightarrow> (chain_state, 'a) process" where
  "BatchWrite body s = (case body (InnerWriter_new ChainState_OnInitWrite ChainState_SetDirty s) of
      None \<Rightarrow> None
    | Some (r, s) \<Rightarrow> (case end_batch s of
          (Inl e, s) \<Rightarrow> Some (Inl e, s)
        | (Inr _, s) \<Rightarrow> Some (r, s)))"

definition ChainState_Write :: "node_world \<Rightarrow> (chain_state, 'a) action \<Rightarrow> (chain_state, 'a) action" where
  "ChainState_Write w body s = (case body (InnerWriter_new ChainState_OnInitWrite ChainState_SetDirty s) of
      (r, s) \<Rightarrow> (case end_write w s of
          (Inl e, s) \<Rightarrow> (Inl e, s)
        | (Inr _, s) \<Rightarrow> (r, s)))"

subsection \<open>Reading the chain state\<close>

definition ChainState_GetHeight :: "EChainType \<Rightarrow> chain_state \<Rightarrow> u64 result" where
  "ChainState_GetHeight chainType s = bind_result (GetChain chainType (st_chainStore s)) (\<lambda>c. Inr (ch_height c))"

definition GetBlockHeaderByHash :: "hash_fn \<Rightarrow> big_integer \<Rightarrow> chain_state \<Rightarrow> block_header option result" where
  "GetBlockHeaderByHash H hash s = GetBlockHeader H hash (st_blockDB s)"

definition GetTipBlockHeader :: "hash_fn \<Rightarrow> EChainType \<Rightarrow> chain_state \<Rightarrow> block_header option result" where
  "GetTipBlockHeader H chainType s =
     bind_result (GetChain chainType (st_chainStore s)) (\<lambda>c.
     bind_result (Chain_GetTipHash c) (\<lambda>headHash. GetBlockHeader H headHash (st_blockDB s)))"

definition GetTotalDifficulty :: "hash_fn \<Rightarrow> EChainType \<Rightarrow> chain_state \<Rightarrow> u64 result" where
  "GetTotalDifficulty H chainType s =
     bind_result (GetTipBlockHeader H chainType s) (\<lambda>head.
       Inr (case head of None \<Rightarrow> 0 | Some header \<Rightarrow> bh_totalDifficulty header))"

definition GetBlockHeaderByHeight :: "hash_fn \<Rightarrow> u64 \<Rightarrow> EChainType \<Rightarrow> chain_state \<Rightarrow> block_header option result" where
  "GetBlockHeaderByHeight H height chainType s =
     bind_result (GetChain chainType (st_chainStore s)) (\<lambda>c. case Chain_GetByHeight height c of
         None \<Rightarrow> Inr None
       | Some index \<Rightarrow> GetBlockHeader H (bi_hash index) (st_blockDB s))"

definition GetBlockHeaderByCommitment :: "hash_fn \<Rightarrow> commitment \<Rightarrow> chain_state \<Rightarrow> block_header option result" where
  "GetBlockHeaderByCommitment H outputCommitment s =
     bind_result (GetOutputPosition outputCommitment (st_blockDB s)) (\<lambda>location. case location of
         None \<Rightarrow> Inr None
       | Some location \<Rightarrow> GetBlockHeaderByHeight H (ol_blockHeight location) CONFIRMED s)"

definition GetBlockByHash :: "hash_fn \<Rightarrow> big_integer \<Rightarrow> chain_state \<Rightarrow> full_block option result" where
  "GetBlockByHash H hash s = GetBlock H hash (st_blockDB s)"

definition GetBlockByHeight :: "hash_fn \<Rightarrow> u64 \<Rightarrow> chain_state \<Rightarrow> full_block option result" where
  "GetBlockByHeight H height s = (case Chain_GetByHeight height (cs_confirmed (st_chainStore s)) of
      None \<Rightarrow> Inr None
    | Some index \<Rightarrow> GetBlock H (bi_hash index) (st_blockDB s))"

record block_identifier =
  bid_hash :: big_integer
  bid_previousHash :: big_integer
  bid_height :: u64

definition BlockIdentifier_FromHeader :: "block_header \<Rightarrow> block_identifier" where
  "BlockIdentifier_FromHeader header =
     \<lparr>bid_hash = BlockHeader_GetHash header, bid_previousHash = bh_previousBlockHash header, bid_height = bh_height header\<rparr>"

record block_with_outputs =
  bwo_blockIdentifier :: block_identifier
  bwo_outputs :: "output_dto list"

definition find_output :: "block_db \<Rightarrow> transaction_output \<Rightarrow> output_dto option result" where
  "find_output db x =
     bind_result (GetOutputPosition (to_commitment x) db) (\<lambda>location.
       Inr (map_option (\<lambda>location. \<lparr>od_spent = False, od_identifier = OutputIdentifier_FromOutput x, od_location = location,
                          od_rangeProof = to_rangeProof x\<rparr>) location))"

definition GetBlockWithOutputs :: "hash_fn \<Rightarrow> u64 \<Rightarrow> chain_state \<Rightarrow> block_with_outputs option result" where
  "GetBlockWithOutputs H height s =
     bind_result (GetBlockByHeight H height s) (\<lambda>found. case found of
         None \<Rightarrow> Inr None
       | Some b \<Rightarrow>
           bind_result (map_result (find_output (st_blockDB s)) (tb_outputs (fb_body b))) (\<lambda>outputs.
             Inr (Some \<lparr>bwo_blockIdentifier = BlockIdentifier_FromHeader (fb_header b),
                        bwo_outputs = List.map_filter (\<lambda>x. x) outputs\<rparr>)))"

text \<open>The loop over the heights of the candidate chain above the common block.\<close>

fun blocks_needed ::
  "chain \<Rightarrow> orphan_pool \<Rightarrow> u64 \<Rightarrow> u64 list \<Rightarrow> (u64 \<times> big_integer) list \<Rightarrow> (u64 \<times> big_integer) list result" where
  "blocks_needed c pool maxNumBlocks [] blocksNeeded = Inr blocksNeeded"
| "blocks_needed c pool maxNumBlocks (nextHeight # heights) blocksNeeded = (case Chain_GetByHeight nextHeight c of
      None \<Rightarrow> Inl UNDEFINED_BEHAVIOUR
    | Some index \<Rightarrow>
        if IsOrphan nextHeight (bi_hash index) pool then blocks_needed c pool maxNumBlocks heights blocksNeeded
        else let blocksNeeded = blocksNeeded @ [(nextHeight, bi_hash index)]
             in if length blocksNeeded = unat maxNumBlocks then Inr blocksNeeded
                else blocks_needed c pool maxNumBlocks heights blocksNeeded)"

definition GetBlocksNeeded :: "u64 \<Rightarrow> chain_state \<Rightarrow> (u64 \<times> big_integer) list result" where
  "GetBlocksNeeded maxNumBlocks s =
     (let candidate = cs_candidate (st_chainStore s)
      in bind_result (Chain_GetTip candidate) (\<lambda>tip.
         bind_result (FindCommonIndex CANDIDATE CONFIRMED (st_chainStore s)) (\<lambda>common.
           blocks_needed candidate (st_orphanPool s) maxNumBlocks (heights_upto (bi_height common + 1) (bi_height tip)) [])))"

section \<open>SyncStatus\<close>

datatype ESyncStatus = SYNCING_HEADERS | SYNCING_TXHASHSET | PROCESSING_TXHASHSET | TXHASHSET_SYNC_FAILED | SYNCING_BLOCKS
  | WAITING_FOR_PEERS | NOT_SYNCING

record sync_status =
  ss_syncStatus :: ESyncStatus
  ss_numActiveConnections :: u64
  ss_networkHeight :: u64
  ss_networkDifficulty :: u64
  ss_headerHeight :: u64
  ss_headerDifficulty :: u64
  ss_blockHeight :: u64
  ss_blockDifficulty :: u64
  ss_txHashSetDownloaded :: u64
  ss_txHashSetTotalSize :: u64
  ss_txHashSetProcessingStatus :: u8

definition SyncStatus_new :: sync_status where
  "SyncStatus_new = \<lparr>ss_syncStatus = SYNCING_HEADERS, ss_numActiveConnections = 0, ss_networkHeight = 0, ss_networkDifficulty = 0,
     ss_headerHeight = 0, ss_headerDifficulty = 0, ss_blockHeight = 0, ss_blockDifficulty = 0, ss_txHashSetDownloaded = 0,
     ss_txHashSetTotalSize = 0, ss_txHashSetProcessingStatus = 0\<rparr>"

definition IsSyncing :: "sync_status \<Rightarrow> bool" where
  "IsSyncing ss \<longleftrightarrow> ss_syncStatus ss \<noteq> NOT_SYNCING"

definition UpdateStatus :: "ESyncStatus \<Rightarrow> sync_status \<Rightarrow> sync_status" where
  "UpdateStatus status ss = ss\<lparr>ss_syncStatus := status\<rparr>"

definition UpdateNetworkStatus :: "u64 \<Rightarrow> u64 \<Rightarrow> u64 \<Rightarrow> sync_status \<Rightarrow> sync_status" where
  "UpdateNetworkStatus numActiveConnections networkHeight networkDifficulty ss =
     ss\<lparr>ss_numActiveConnections := numActiveConnections, ss_networkHeight := networkHeight, ss_networkDifficulty := networkDifficulty\<rparr>"

definition UpdateHeaderStatus :: "u64 \<Rightarrow> u64 \<Rightarrow> sync_status \<Rightarrow> sync_status" where
  "UpdateHeaderStatus headerHeight headerDifficulty ss = ss\<lparr>ss_headerHeight := headerHeight, ss_headerDifficulty := headerDifficulty\<rparr>"

definition UpdateBlockStatus :: "u64 \<Rightarrow> u64 \<Rightarrow> sync_status \<Rightarrow> sync_status" where
  "UpdateBlockStatus blockHeight blockDifficulty ss = ss\<lparr>ss_blockHeight := blockHeight, ss_blockDifficulty := blockDifficulty\<rparr>"

definition UpdateSyncStatus :: "hash_fn \<Rightarrow> sync_status \<Rightarrow> chain_state \<Rightarrow> sync_status result" where
  "UpdateSyncStatus H ss s =
     bind_result (GetTipBlockHeader H CANDIDATE s) (\<lambda>candidate.
     let ss = (case candidate of None \<Rightarrow> ss | Some h \<Rightarrow> UpdateHeaderStatus (bh_height h) (bh_totalDifficulty h) ss)
     in bind_result (GetTipBlockHeader H CONFIRMED s) (\<lambda>confirmed.
          Inr (case confirmed of None \<Rightarrow> ss | Some h \<Rightarrow> UpdateBlockStatus (bh_height h) (bh_totalDifficulty h) ss)))"


section \<open>A batch on the chain state\<close>

text \<open>The chains, the nodes of the header MMR and the tables of the database, as a batch sees them and as they are on disk.\<close>

abbreviation candidate_chain :: "chain_state \<Rightarrow> chain" where
  "candidate_chain s \<equiv> cs_candidate (st_chainStore s)"

abbreviation confirmed_chain :: "chain_state \<Rightarrow> chain" where
  "confirmed_chain s \<equiv> cs_confirmed (st_chainStore s)"

abbreviation header_file :: "chain_state \<Rightarrow> data_file" where
  "header_file s \<equiv> hm_hashFile (st_headerMMR s)"

type_synonym state_view = "(big_integer list \<times> big_integer list) \<times> u8 list list \<times> db_tables"

definition state_working :: "chain_state \<Rightarrow> state_view" where
  "state_working s = (store_hashes (st_chainStore s), df_working 32 (header_file s), db_working (st_blockDB s))"

definition state_disk :: "chain_state \<Rightarrow> state_view" where
  "state_disk s = (store_durable (st_chainStore s), df_durable 32 (header_file s), db_durable (st_blockDB s))"

definition state_idle :: "chain_state \<Rightarrow> bool" where
  "state_idle s \<longleftrightarrow> store_idle (st_chainStore s) \<and> \<not> hm_batch (st_headerMMR s) \<and> df_ok 32 (header_file s) \<and>
     df_working 32 (header_file s) = df_durable 32 (header_file s) \<and> \<not> IsTransactional (db_rocks (st_blockDB s))"

definition state_open :: "chain_state \<Rightarrow> bool" where
  "state_open s \<longleftrightarrow> cs_dirty (st_chainStore s) \<and> chain_ok (candidate_chain s) \<and> chain_ok (confirmed_chain s) \<and>
     hm_batch (st_headerMMR s) \<and> df_ok 32 (header_file s) \<and>
     (hm_dirty (st_headerMMR s) \<or> df_working 32 (header_file s) = df_durable 32 (header_file s)) \<and>
     IsTransactional (db_rocks (st_blockDB s)) \<and> db_dirty (st_blockDB s) \<and> (st_dirty s \<or> state_working s = state_disk s)"

lemmas on_parts = on_chainStore_def on_blockDB_def on_headerMMR_def on_txHashSetManager_def on_orphanPool_def zoom_action_eq

lemmas state_view_defs = state_working_def state_disk_def store_hashes_def store_durable_def db_working_def db_durable_def

text \<open>The parts of the state that no batch rolls back.\<close>

definition same_rest :: "chain_state \<Rightarrow> chain_state \<Rightarrow> bool" where
  "same_rest s t \<longleftrightarrow> st_orphanPool t = st_orphanPool s \<and> st_txPool t = st_txPool s \<and> st_cache t = st_cache s \<and>
     db_headersCache (st_blockDB t) = db_headersCache (st_blockDB s)"

lemma state_opened:
  assumes "state_idle s"
  shows "state_open (ChainState_OnInitWrite (ChainState_SetDirty True s))"
    and "state_working (ChainState_OnInitWrite (ChainState_SetDirty True s)) = state_disk s"
    and "state_disk (ChainState_OnInitWrite (ChainState_SetDirty True s)) = state_disk s"
    and "same_rest s (ChainState_OnInitWrite (ChainState_SetDirty True s))"
    and "st_dirty (ChainState_OnInitWrite (ChainState_SetDirty True s))"
proof -
  have idle: "chain_idle (candidate_chain s)" "chain_idle (confirmed_chain s)" using assms by (simp_all add: state_idle_def store_idle_def)
  note in1 = chain_init [OF idle(1)] and in2 = chain_init [OF idle(2)]
  show "state_open (ChainState_OnInitWrite (ChainState_SetDirty True s))"
    and "state_working (ChainState_OnInitWrite (ChainState_SetDirty True s)) = state_disk s"
    and "state_disk (ChainState_OnInitWrite (ChainState_SetDirty True s)) = state_disk s"
    and "same_rest s (ChainState_OnInitWrite (ChainState_SetDirty True s))"
    and "st_dirty (ChainState_OnInitWrite (ChainState_SetDirty True s))"
    using assms in1 in2
    by (simp_all add: state_open_def state_idle_def state_view_defs ChainState_OnInitWrite_def ChainState_SetDirty_def InnerWriter_new_def
        ChainStore_OnInitWrite_def ChainStore_SetDirty_def HeaderMMR_OnInitWrite_def batch_defs same_rest_def)
qed

lemma state_rolled_back:
  assumes "state_open s"
  shows "\<exists>s'. ChainState_Rollback s = (Inr (), s') \<and> state_open s' \<and> state_working s' = state_disk s \<and> state_disk s' = state_disk s \<and>
    \<not> hm_dirty (st_headerMMR s') \<and> st_dirty s' = st_dirty s \<and> same_rest s s'"
proof -
  have ok: "store_ok (st_chainStore s)" "chain_ok (candidate_chain s)" "chain_ok (confirmed_chain s)"
    using assms by (simp_all add: state_open_def store_ok_def)
  note r1 = chain_rollback [OF ok(2)] and r2 = chain_rollback [OF ok(3)] and st = store_rollback [OF ok(1)]
  have df: "df_ok 32 (header_file s)" using assms by (simp add: state_open_def)
  let ?s = "s\<lparr>st_chainStore := or_same ChainStore_Rollback (st_chainStore s), st_blockDB := BlockDB_Rollback (st_blockDB s),
     st_headerMMR := HeaderMMR_Rollback (st_headerMMR s), st_txHashSetManager := TxHashSetManager_Rollback (st_txHashSetManager s)\<rparr>"
  have "ChainState_Rollback s = (Inr (), ?s)"
    using st(1) by (simp add: ChainState_Rollback_def on_parts bind_action_def action_apply no_except_def)
  moreover have "state_working ?s = state_disk s" "state_disk ?s = state_disk s" "\<not> hm_dirty (st_headerMMR ?s)" "same_rest s ?s"
    using assms r1(3,4) r2(3,4) st(2) df_rollback [OF df]
    by (auto simp: state_view_defs HeaderMMR_Rollback_def BlockDB_Rollback_def RocksDB_Rollback_def state_open_def same_rest_def)
  moreover have "state_open ?s"
    using assms r1(2) r2(2) st(2) df_rollback [OF df] calculation(2,3)
    by (auto simp: state_open_def HeaderMMR_Rollback_def BlockDB_Rollback_def RocksDB_Rollback_def)
  ultimately show ?thesis by (intro exI [of _ ?s]) simp
qed

text \<open>Closing the four writers of a clean batch.\<close>

lemma state_ended:
  assumes "state_open s" "state_working s = state_disk s"
  shows "\<exists>s'. ChainState_OnEndWrite s = (Inr (), s') \<and> state_idle s' \<and> state_disk s' = state_disk s \<and> same_rest s s' \<and>
    db_uncommitted (st_blockDB s') = []"
proof -
  have ok: "store_ok (st_chainStore s)" "chain_ok (candidate_chain s)" "chain_ok (confirmed_chain s)"
    using assms by (simp_all add: state_open_def store_ok_def)
  note r1 = chain_rollback [OF ok(2)] and r2 = chain_rollback [OF ok(3)] and st = store_rollback [OF ok(1)]
  let ?cs = "ChainStore_OnEndWrite (ChainStore_SetDirty False (or_same ChainStore_Rollback (st_chainStore s)))"
  let ?m = "close_headerMMR (st_headerMMR s)" and ?db = "close_blockDB (st_blockDB s)"
  let ?s = "s\<lparr>st_chainStore := ?cs, st_blockDB := ?db, st_headerMMR := ?m, st_txHashSetManager := close_txHashSetManager (st_txHashSetManager s)\<rparr>"
  have close: "close_chainStore (st_chainStore s) = (Inr (), ?cs)"
    using st(1) assms by (simp add: close_chainStore_def bind_action_def action_apply no_except_def state_open_def)
  have idle: "store_idle ?cs" "store_durable ?cs = store_durable (st_chainStore s)"
    using chain_end [OF r1(2)] chain_end [OF r2(2)] r1(3,4) r2(3,4) st(2)
    by (simp_all add: store_idle_def store_durable_def ChainStore_OnEndWrite_def ChainStore_SetDirty_def)
  have df: "df_ok 32 (header_file s)" using assms by (simp add: state_open_def)
  note rb = df_rollback [OF df] df_rollback [OF df_rollback(1) [OF df]]
  have m: "\<not> hm_batch ?m" "df_ok 32 (hm_hashFile ?m)" "df_working 32 (hm_hashFile ?m) = df_durable 32 (hm_hashFile ?m)"
    "df_durable 32 (hm_hashFile ?m) = df_durable 32 (header_file s)"
    using assms df rb
    by (auto simp: close_headerMMR_def InnerWriter_destroy_def InnerWriter_Rollback_def HeaderMMR_OnEndWrite_def HeaderMMR_Rollback_def
        state_open_def state_view_defs)
  have db: "\<not> IsTransactional (db_rocks ?db)" "db_durable ?db = db_durable (st_blockDB s)" "db_headersCache ?db = db_headersCache (st_blockDB s)"
    "db_uncommitted ?db = []"
    using assms by (simp_all add: close_blockDB_def InnerWriter_destroy_def InnerWriter_Rollback_def state_open_def batch_defs db_durable_def)
  have "ChainState_OnEndWrite s = (Inr (), ?s)"
    using close by (simp add: bind_action_def action_apply ChainState_OnEndWrite_def on_parts)
  then show ?thesis
    using idle m db by (intro exI [of _ ?s]) (simp add: state_idle_def state_disk_def same_rest_def)
qed

lemma state_closed:
  assumes "state_open s"
  shows "\<exists>s'. end_batch s = (Inr (), s') \<and> state_idle s' \<and> state_disk s' = state_disk s \<and> same_rest s s' \<and> db_uncommitted (st_blockDB s') = []"
proof (cases "st_dirty s")
  case True
  obtain t where t: "ChainState_Rollback s = (Inr (), t)" "state_open t" "state_working t = state_disk s" "state_disk t = state_disk s" "same_rest s t"
    using state_rolled_back [OF assms] by blast
  let ?t = "ChainState_SetDirty False t"
  have "state_open ?t" "state_working ?t = state_disk ?t" "state_disk ?t = state_disk s" "same_rest s ?t"
    using t by (simp_all add: state_open_def ChainState_SetDirty_def state_view_defs same_rest_def)
  from state_ended [OF this(1,2)] this(3,4) obtain s' where "ChainState_OnEndWrite ?t = (Inr (), s')" "state_idle s'" "state_disk s' = state_disk s"
    "same_rest s s'" "db_uncommitted (st_blockDB s') = []" by (auto simp: same_rest_def)
  then show ?thesis using t(1) True by (simp add: end_batch_def bind_action_def action_apply)
next
  case False
  then have "state_working s = state_disk s" using assms by (simp add: state_open_def)
  from state_ended [OF assms this] False show ?thesis by (auto simp: end_batch_def bind_action_def action_apply)
qed

text \<open>The commits of the chains, the database and the header MMR succeed. The hash set comes last; whether its commit
  succeeds makes no difference to the others.\<close>

definition commits_succeed :: "node_world \<Rightarrow> bool" where
  "commits_succeed w \<longleftrightarrow> w_chainFiles w = (True, True) \<and> w_dbCommits w \<and> w_headerFiles w = (True, True)"

lemma manager_same: "t\<lparr>st_txHashSetManager := st_txHashSetManager t\<rparr> = t"
  by simp

lemma state_committed:
  assumes "state_open s" "commits_succeed w" and run: "ChainState_Commit w s = (r, s')"
  shows "state_open s'" "state_working s' = state_working s" "state_disk s' = state_working s" "st_dirty s' = st_dirty s"
    "st_orphanPool s' = st_orphanPool s" "st_blockDB s' = snd (BlockDB_Commit True (st_blockDB s))"
proof -
  have ok: "store_ok (st_chainStore s)" "chain_ok (candidate_chain s)" "chain_ok (confirmed_chain s)" and df: "df_ok 32 (header_file s)"
    using assms(1) by (simp_all add: state_open_def store_ok_def)
  note c1 = chain_commit [OF ok(2)] and c2 = chain_commit [OF ok(3)] and st = store_commit [OF ok(1)] and cm = df_commit [OF df]
  define cs where "cs = snd (ChainStore_Commit True True (st_chainStore s))"
  define db where "db = snd (BlockDB_Commit True (st_blockDB s))"
  define m where "m = snd (HeaderMMR_Commit True True (st_headerMMR s))"
  have st': "ChainStore_Commit True True (st_chainStore s) = (Inr (), cs)" using st by (simp add: cs_def)
  have db': "BlockDB_Commit True (st_blockDB s) = (Inr (), db)" by (simp add: db_def BlockDB_Commit_def RocksDB_Commit_def)
  obtain fl where fl: "DataFile_Commit True True (header_file s) = (Inr (), fl)"
    using cm(1) by (cases "DataFile_Commit True True (header_file s)") auto
  have eqm: "HeaderMMR_Commit True True (st_headerMMR s) =
      (Inr (), if hm_dirty (st_headerMMR s) then (st_headerMMR s)\<lparr>hm_hashFile := fl, hm_dirty := False\<rparr> else st_headerMMR s)"
    using assms(1) fl by (simp add: HeaderMMR_Commit_def state_open_def)
  have m': "HeaderMMR_Commit True True (st_headerMMR s) = (Inr (), m)" using eqm by (simp add: m_def)
  have m_at: "hm_batch m" "df_ok 32 (hm_hashFile m)" "df_working 32 (hm_hashFile m) = df_working 32 (header_file s)"
    "df_durable 32 (hm_hashFile m) = df_working 32 (header_file s)"
    using eqm assms(1) cm fl df by (auto simp: m_def state_open_def)
  define t where "t = s\<lparr>st_chainStore := cs, st_blockDB := db, st_headerMMR := m\<rparr>"
  have "s' = t \<or> (\<exists>x. s' = t\<lparr>st_txHashSetManager := x\<rparr>)"
    using run assms(2) st' db' m'
    by (auto simp: ChainState_Commit_def commits_succeed_def on_parts bind_action_def t_def split: sum.splits prod.splits)
  then obtain x where s': "s' = t\<lparr>st_txHashSetManager := x\<rparr>" by (metis manager_same)
  have chains: "cs_candidate cs = snd (Chain_Commit True True (candidate_chain s))" "cs_confirmed cs = snd (Chain_Commit True True (confirmed_chain s))"
    "cs_dirty cs = cs_dirty (st_chainStore s)" using st by (simp_all add: cs_def)
  have db_at: "IsTransactional (db_rocks db)" "db_dirty db" "db_working db = db_working (st_blockDB s)" "db_durable db = db_working (st_blockDB s)"
    using assms(1) by (simp_all add: db_def state_open_def BlockDB_Commit_def RocksDB_Commit_def db_working_def db_durable_def)
  have w: "state_working t = state_working s" "state_disk t = state_working s"
    using c1 c2 chains m_at db_at by (simp_all add: state_working_def state_disk_def store_hashes_def store_durable_def t_def)
  have "state_open t" using assms(1) m_at c1 c2 chains db_at(1,2) w by (simp add: state_open_def t_def)
  moreover have "state_open s' = state_open t" "state_working s' = state_working t" "state_disk s' = state_disk t" "st_dirty s' = st_dirty t"
    by (simp_all add: s' state_open_def state_view_defs)
  ultimately show "state_open s'" "state_working s' = state_working s" "state_disk s' = state_working s" "st_dirty s' = st_dirty s"
    using w by (simp_all add: t_def)
  show "st_orphanPool s' = st_orphanPool s" "st_blockDB s' = snd (BlockDB_Commit True (st_blockDB s))"
    by (simp_all add: s' t_def db_def)
qed

abbreviation sure_commit :: "node_world \<Rightarrow> chain_state \<Rightarrow> chain_state" where
  "sure_commit w s \<equiv> snd (ChainState_Commit (w\<lparr>w_chainFiles := (True, True), w_dbCommits := True, w_headerFiles := (True, True)\<rparr>) s)"

lemma sure_commits:
  assumes "state_open s"
  shows "state_open (sure_commit w s)" "state_working (sure_commit w s) = state_working s"
    "state_disk (sure_commit w s) = state_working s" "st_dirty (sure_commit w s) = st_dirty s"
proof -
  let ?w = "w\<lparr>w_chainFiles := (True, True), w_dbCommits := True, w_headerFiles := (True, True)\<rparr>"
  have w: "commits_succeed ?w" by (simp add: commits_succeed_def)
  show "state_open (sure_commit w s)" "state_working (sure_commit w s) = state_working s"
    "state_disk (sure_commit w s) = state_working s" "st_dirty (sure_commit w s) = st_dirty s"
    by (rule state_committed [OF assms w prod.collapse [symmetric]])+
qed

lemma state_set_dirty [simp]:
  "state_working (ChainState_SetDirty d s) = state_working s" "state_disk (ChainState_SetDirty d s) = state_disk s"
  "st_dirty (ChainState_SetDirty d s) = d"
  by (simp_all add: ChainState_SetDirty_def state_view_defs)

lemma state_open_clean: "state_open s \<Longrightarrow> state_working s = state_disk s \<Longrightarrow> state_open (ChainState_SetDirty d s)"
  by (simp add: state_open_def ChainState_SetDirty_def state_view_defs)

interpretation state_writer: batch_writer state_open state_working state_disk "sure_commit w" "\<lambda>s. snd (ChainState_Rollback s)" state_idle
  ChainState_OnInitWrite "\<lambda>s. snd (ChainState_OnEndWrite s)" st_dirty ChainState_SetDirty for w
proof
  fix s assume s: "state_idle s"
  show "state_open (ChainState_OnInitWrite (ChainState_SetDirty True s))"
    "state_working (ChainState_OnInitWrite (ChainState_SetDirty True s)) = state_disk s"
    "state_disk (ChainState_OnInitWrite (ChainState_SetDirty True s)) = state_disk s" by (rule state_opened [OF s])+
next
  fix s assume s: "state_open s"
  from state_rolled_back [OF s] obtain t where t: "ChainState_Rollback s = (Inr (), t)" "state_open t" "state_working t = state_disk s" "state_disk t = state_disk s"
    by blast
  note c = sure_commits [OF s, of w]
  show "state_open (sure_commit w s)" "state_working (sure_commit w s) = state_working s" "state_disk (sure_commit w s) = state_working s"
    using c by simp_all
  show "state_open (snd (ChainState_Rollback s))" "state_working (snd (ChainState_Rollback s)) = state_disk s"
    "state_disk (snd (ChainState_Rollback s)) = state_disk s" using t by simp_all
  show "state_open (ChainState_SetDirty False (sure_commit w s)) \<and> \<not> st_dirty (ChainState_SetDirty False (sure_commit w s)) \<and>
      state_disk (ChainState_SetDirty False (sure_commit w s)) = state_disk (sure_commit w s)"
    using c state_open_clean by simp
  show "state_open (ChainState_SetDirty False (snd (ChainState_Rollback s))) \<and> \<not> st_dirty (ChainState_SetDirty False (snd (ChainState_Rollback s))) \<and>
      state_disk (ChainState_SetDirty False (snd (ChainState_Rollback s))) = state_disk (snd (ChainState_Rollback s))"
    using t state_open_clean by simp
  assume "\<not> st_dirty s"
  then show w: "state_working s = state_disk s" using s by (simp add: state_open_def)
  from state_ended [OF s w] show "state_idle (snd (ChainState_OnEndWrite s))" "state_disk (snd (ChainState_OnEndWrite s)) = state_disk s" by auto
qed

text \<open>A batch whose body ends in an open state leaves on disk what the body left there.\<close>

lemma BatchWrite_closed:
  assumes "BatchWrite body s = Some (r, s')" "\<And>r t. body (InnerWriter_new ChainState_OnInitWrite ChainState_SetDirty s) = Some (r, t) \<Longrightarrow> state_open t"
  shows "\<exists>t. body (InnerWriter_new ChainState_OnInitWrite ChainState_SetDirty s) = Some (r, t) \<and> state_idle s' \<and> state_disk s' = state_disk t \<and>
    same_rest t s' \<and> db_uncommitted (st_blockDB s') = []"
proof -
  obtain r1 t where t: "body (InnerWriter_new ChainState_OnInitWrite ChainState_SetDirty s) = Some (r1, t)"
    using assms(1) by (auto simp: BatchWrite_def split: option.splits)
  from state_closed [OF assms(2) [OF t]] obtain u where "end_batch t = (Inr (), u)" "state_idle u" "state_disk u = state_disk t" "same_rest t u"
    "db_uncommitted (st_blockDB u) = []" by blast
  then show ?thesis using assms(1) t by (simp add: BatchWrite_def)
qed

end
