(* ===== verification/Header_Processor.thy ===== *)
theory Header_Processor
  imports Chain_State
begin

text \<open>
  Processing of block headers: \<^verbatim>\<open>BlockHeaderProcessor\<close>
  (\<^verbatim>\<open>src/BlockChain/Processors/BlockHeaderProcessor.cpp\<close>). Every entry point runs in a batch on the chain state.
\<close>

datatype EBlockChainStatus = SUCCESS | UNKNOWN_ERROR | STORE_ERROR | TRANSACTIONS_MISSING | ALREADY_EXISTS | NOT_FOUND | INVALID | ORPHANED

abbreviation on_candidate :: "(chain, 'a) action \<Rightarrow> (chain_state, 'a) action" where
  "on_candidate m \<equiv> on_chainStore (on_chain CANDIDATE m)"

text \<open>The difficulty loader reads headers from the database; a record that does not deserialize counts as absent
  there.\<close>

definition stored_headers :: "hash_fn \<Rightarrow> block_db \<Rightarrow> header_db" where
  "stored_headers H db hash = (case GetBlockHeader H hash db of Inl _ \<Rightarrow> None | Inr h \<Rightarrow> h)"

definition valid_header :: "node_world \<Rightarrow> block_header \<Rightarrow> block_header \<Rightarrow> chain_state \<Rightarrow> bool result" where
  "valid_header w header previousHeader s =
     IsValidHeader (w_env w) (w_ticks w) (w_now w)
       (PoWManager_IsPoWValid (w_env w) (w_cuckoo w) (stored_headers (w_H w) (st_blockDB s)))
       (\<lambda>height. HeaderMMR_Root (w_H w) height (st_headerMMR s)) header previousHeader"

section \<open>Adding headers\<close>

fun validate_each :: "node_world \<Rightarrow> block_header \<Rightarrow> block_header list \<Rightarrow> (chain_state, unit) action" where
  "validate_each w previousHeader [] = return_action ()"
| "validate_each w previousHeader (header # headers) =
     bind_action (read_action (valid_header w header previousHeader)) (\<lambda>valid.
       if \<not> valid then throw_action BAD_DATA_EXCEPTION
       else bind_action (on_headerMMR (AddHeader (w_H w) header)) (\<lambda>_.
         bind_action (on_blockDB (modify_action (AddBlockHeader header))) (\<lambda>_.
         bind_action (on_candidate (Chain_AddBlock (BlockHeader_GetHash header) (bh_height header))) (\<lambda>_.
           validate_each w header headers))))"

definition ValidateHeaders :: "node_world \<Rightarrow> block_header list \<Rightarrow> (chain_state, unit) action" where
  "ValidateHeaders w headers = (case headers of
      [] \<Rightarrow> throw_action UNDEFINED_BEHAVIOUR
    | first # _ \<Rightarrow>
        bind_action (read_action (GetBlockHeaderByHash (w_H w) (bh_previousBlockHash first))) (\<lambda>found. case found of
            None \<Rightarrow> throw_action BLOCK_CHAIN_EXCEPTION
          | Some previousHeader \<Rightarrow> validate_each w previousHeader headers))"

text \<open>The common end of \<open>ProcessOrphan\<close> and \<open>ProcessChunkedSyncHeaders\<close>: the candidate chain and the header MMR are
  rewound to the header before the first new one, the headers are validated and added, and when the total difficulty did not
  increase both are rolled back.\<close>

definition apply_headers :: "node_world \<Rightarrow> u64 \<Rightarrow> u64 \<Rightarrow> block_header list \<Rightarrow> (chain_state, EBlockChainStatus) action" where
  "apply_headers w totalDifficulty newDifficulty headers = (case headers of
      [] \<Rightarrow> throw_action UNDEFINED_BEHAVIOUR
    | first # _ \<Rightarrow>
        bind_action (on_candidate (Chain_Rewind (bh_height first - 1))) (\<lambda>_.
        bind_action (on_headerMMR (HeaderMMR_Rewind (bh_height first))) (\<lambda>_.
        bind_action (ValidateHeaders w headers) (\<lambda>_.
        bind_action (when_action (newDifficulty \<le> totalDifficulty)
          (bind_action (on_headerMMR (modify_action HeaderMMR_Rollback)) (\<lambda>_. on_candidate (no_except Chain_Rollback)))) (\<lambda>_.
        bind_action (ChainState_Commit w) (\<lambda>_. return_action SUCCESS))))))"

section \<open>Orphans\<close>

definition previous_header :: "hash_fn \<Rightarrow> block_header \<Rightarrow> (chain_state, block_header option) action" where
  "previous_header H header =
     bind_action (on_orphanPool (\<lambda>p. case GetOrphanHeader (bh_previousBlockHash header) p of (h, p) \<Rightarrow> (Inr h, p))) (\<lambda>orphan.
       case orphan of
         Some h \<Rightarrow> return_action (Some h)
       | None \<Rightarrow> read_action (GetBlockHeaderByHash H (bh_previousBlockHash header)))"

text \<open>The search for an ancestor on the candidate chain. The previous hash of an orphan is not covered by its hash, which is that of its
  proof of work, so the walk need not end.\<close>

partial_function (option) collect_ancestors ::
  "hash_fn \<Rightarrow> block_header list \<Rightarrow> block_header option \<Rightarrow> chain_state \<Rightarrow>
   ((block_header list \<times> block_header option) result \<times> chain_state) option" where
  "collect_ancestors H reorgHeaders tempHeader s = (case tempHeader of
      None \<Rightarrow> Some (Inr (reorgHeaders, None), s)
    | Some header \<Rightarrow>
        (case Chain_IsOnChain (bh_height header) (BlockHeader_GetHash header) (candidate_chain s) of
           Inl e \<Rightarrow> Some (Inl e, s)
         | Inr onChain \<Rightarrow>
             if onChain then Some (Inr (rev reorgHeaders, Some header), s)
             else (case previous_header H header s of
                 (Inl e, s) \<Rightarrow> Some (Inl e, s)
               | (Inr previous, s) \<Rightarrow> collect_ancestors H (reorgHeaders @ [header]) previous s)))"

definition ProcessOrphan :: "node_world \<Rightarrow> block_header \<Rightarrow> (chain_state, EBlockChainStatus) process" where
  "ProcessOrphan w header =
     bind_process (run_action (read_action (GetTotalDifficulty (w_H w) CANDIDATE))) (\<lambda>totalDifficulty.
     bind_process (collect_ancestors (w_H w) [] (Some header)) (\<lambda>(reorgHeaders, found). case found of
         None \<Rightarrow> run_action (bind_action (on_orphanPool (modify_action (AddOrphanHeader header))) (\<lambda>_. return_action ORPHANED))
       | Some _ \<Rightarrow> run_action (apply_headers w totalDifficulty (bh_totalDifficulty header) reorgHeaders)))"

definition process_next :: "node_world \<Rightarrow> block_header \<Rightarrow> big_integer \<Rightarrow> (chain_state, EBlockChainStatus) action" where
  "process_next w header tipHash =
     bind_action (read_action (GetBlockHeaderByHash (w_H w) tipHash)) (\<lambda>found. case found of
         None \<Rightarrow> throw_action UNDEFINED_BEHAVIOUR
       | Some previousHeader \<Rightarrow>
           bind_action (read_action (valid_header w header previousHeader)) (\<lambda>valid.
             if \<not> valid then throw_action BAD_DATA_EXCEPTION
             else bind_action (on_blockDB (modify_action (AddBlockHeader header))) (\<lambda>_.
               bind_action (on_headerMMR (AddHeader (w_H w) header)) (\<lambda>_.
               bind_action (on_candidate (Chain_AddBlock (BlockHeader_GetHash header) (bh_height header))) (\<lambda>_.
               bind_action (ChainState_Commit w) (\<lambda>_. return_action SUCCESS))))))"

definition ProcessSingleHeader :: "node_world \<Rightarrow> block_header \<Rightarrow> (chain_state, EBlockChainStatus) process" where
  "ProcessSingleHeader w header = BatchWrite (
     bind_process (run_action (read_action (GetBlockHeaderByHash (w_H w) (BlockHeader_GetHash header)))) (\<lambda>found.
       if found \<noteq> None then run_action (return_action ALREADY_EXISTS)
       else bind_process (run_action (read_action (\<lambda>s. Chain_GetTipHash (candidate_chain s)))) (\<lambda>tipHash.
         if tipHash \<noteq> bh_previousBlockHash header then ProcessOrphan w header
         else run_action (process_next w header tipHash))))"

section \<open>Synchronization\<close>

definition SYNC_BATCH_SIZE :: nat where "SYNC_BATCH_SIZE = 128"

definition PrepareSyncChain :: "block_header list \<Rightarrow> (chain_state, unit) action" where
  "PrepareSyncChain headers = (case headers of
      [] \<Rightarrow> throw_action UNDEFINED_BEHAVIOUR
    | first # _ \<Rightarrow>
        bind_action (read_action (\<lambda>s. Chain_IsOnChain (bh_height first - 1) (bh_previousBlockHash first) (candidate_chain s))) (\<lambda>onChain.
          guard_action BLOCK_CHAIN_EXCEPTION onChain))"

text \<open>The headers from the first one that is not on the chain.\<close>

fun new_headers :: "chain \<Rightarrow> block_header list \<Rightarrow> block_header list result" where
  "new_headers c [] = Inr []"
| "new_headers c (header # headers) =
     bind_result (Chain_IsOnChain (bh_height header) (BlockHeader_GetHash header) c) (\<lambda>onChain.
       if onChain then new_headers c headers else Inr (header # headers))"

definition ProcessChunkedSyncHeaders :: "node_world \<Rightarrow> block_header list \<Rightarrow> (chain_state, EBlockChainStatus) process" where
  "ProcessChunkedSyncHeaders w headers = BatchWrite (run_action (
     bind_action (read_action (GetTotalDifficulty (w_H w) CANDIDATE)) (\<lambda>totalDifficulty.
     bind_action (PrepareSyncChain headers) (\<lambda>_.
     bind_action (read_action (\<lambda>s. new_headers (candidate_chain s) headers)) (\<lambda>newHeaders.
       if newHeaders = [] then return_action ALREADY_EXISTS
       else apply_headers w totalDifficulty (bh_totalDifficulty (last newHeaders)) newHeaders)))))"

function process_chunks :: "node_world \<Rightarrow> block_header list \<Rightarrow> (chain_state, EBlockChainStatus) process" where
  "process_chunks w headers =
     (if headers = [] then run_action (return_action SUCCESS)
      else bind_process (ProcessChunkedSyncHeaders w (take SYNC_BATCH_SIZE headers)) (\<lambda>status.
        if status \<noteq> SUCCESS \<and> status \<noteq> ALREADY_EXISTS then run_action (return_action status)
        else process_chunks w (drop SYNC_BATCH_SIZE headers)))"
  by pat_completeness auto
termination
  by (relation "measure (\<lambda>(w, headers). length headers)") (auto simp: SYNC_BATCH_SIZE_def)

declare process_chunks.simps [simp del]

definition ProcessSyncHeaders :: "node_world \<Rightarrow> block_header list \<Rightarrow> (chain_state, EBlockChainStatus) process" where
  "ProcessSyncHeaders w headers = (case headers of
      [] \<Rightarrow> run_action (return_action SUCCESS)
    | first # _ \<Rightarrow>
        if bh_height first = 0 then run_action (throw_action BAD_DATA_EXCEPTION)
        else if list_ex (\<lambda>(h, next). bh_height next \<noteq> bh_height h + 1) (zip headers (tl headers))
        then run_action (throw_action BAD_DATA_EXCEPTION)
        else process_chunks w headers)"

end
