(* ===== verification/Header_Chain.thy ===== *)
theory Header_Chain
  imports Header_Processor
begin

text \<open>
  What the header processor keeps: the header MMR matches the candidate chain in every state between two operations, whatever
  headers arrive in whatever order and whichever of them are rejected. The leaves of the header MMR are the packed
  proofs of work, whose hashes are the hashes of the blocks.
\<close>

definition header_leaf :: "block_header \<Rightarrow> u8 list" where
  "header_leaf h = GetBytes (ProofOfWork_SerializeCycle (bh_proofOfWork h) (Serializer_new V1))"

text \<open>A header that survives its wire format and has a height far from the range of the counters.\<close>

definition known_ok :: "hash_fn \<Rightarrow> block_header \<Rightarrow> bool" where
  "known_ok H h \<longleftrightarrow> header_ok H V1 h \<and> unat (bh_height h) < 2 ^ 53"

definition db_known :: "hash_fn \<Rightarrow> block_db \<Rightarrow> bool" where
  "db_known H db \<longleftrightarrow> (\<forall>(k, h)\<in>set (db_headersCache db). known_ok H h) \<and> (\<forall>h\<in>set (db_uncommitted db). known_ok H h) \<and>
     (\<forall>k h. stored_header H (db_working db) k h \<longrightarrow> known_ok H h) \<and> (\<forall>k h. stored_header H (db_durable db) k h \<longrightarrow> known_ok H h)"

definition pool_known :: "hash_fn \<Rightarrow> orphan_pool \<Rightarrow> bool" where
  "pool_known H p \<longleftrightarrow> (\<forall>(k, h)\<in>set (op_orphanHeadersByHash p). known_ok H h)"

text \<open>The nodes of the MMR over the given leaves, and what it means that a file of nodes matches a list of block hashes.\<close>

definition header_nodes :: "hash_fn \<Rightarrow> u8 list list \<Rightarrow> u8 list list" where
  "header_nodes H ls = map (\<lambda>i. node_hash H ((!) ls) (nheight i) i) [0..<mmr_size (length ls)]"

definition mmr_matches :: "hash_fn \<Rightarrow> big_integer list \<Rightarrow> u8 list list \<Rightarrow> bool" where
  "mmr_matches H hashes nodes \<longleftrightarrow> (\<exists>ls. map H ls = hashes \<and> nodes = header_nodes H ls)"

text \<open>Between two operations.\<close>

definition headers_idle :: "hash_fn \<Rightarrow> chain_state \<Rightarrow> bool" where
  "headers_idle H s \<longleftrightarrow> store_idle (st_chainStore s) \<and> \<not> hm_batch (st_headerMMR s) \<and> df_ok 32 (header_file s) \<and>
     df_working 32 (header_file s) = df_durable 32 (header_file s) \<and>
     mmr_matches H (chain_hashes (candidate_chain s)) (df_working 32 (header_file s)) \<and>
     length (chain_hashes (candidate_chain s)) \<le> 2 ^ 53 \<and>
     \<not> IsTransactional (db_rocks (st_blockDB s)) \<and> db_known H (st_blockDB s) \<and> pool_known H (st_orphanPool s)"

text \<open>In a batch: what a rollback goes back to matches.\<close>

definition headers_open :: "hash_fn \<Rightarrow> chain_state \<Rightarrow> bool" where
  "headers_open H s \<longleftrightarrow> st_dirty s \<and> cs_dirty (st_chainStore s) \<and> chain_ok (candidate_chain s) \<and> chain_ok (cs_confirmed (st_chainStore s)) \<and>
     hm_batch (st_headerMMR s) \<and> df_ok 32 (header_file s) \<and>
     (hm_dirty (st_headerMMR s) \<or> df_working 32 (header_file s) = df_durable 32 (header_file s)) \<and>
     mmr_matches H (chain_durable (candidate_chain s)) (df_durable 32 (header_file s)) \<and>
     length (chain_durable (candidate_chain s)) \<le> 2 ^ 53 \<and>
     IsTransactional (db_rocks (st_blockDB s)) \<and> db_dirty (st_blockDB s) \<and> db_known H (st_blockDB s) \<and> pool_known H (st_orphanPool s)"

text \<open>In a batch, with the working states in step over the given leaves.\<close>

definition headers_at :: "hash_fn \<Rightarrow> u8 list list \<Rightarrow> chain_state \<Rightarrow> bool" where
  "headers_at H ls s \<longleftrightarrow> headers_open H s \<and> map H ls = chain_hashes (candidate_chain s) \<and>
     df_working 32 (header_file s) = header_nodes H ls \<and> length ls \<le> 2 ^ 53"

lemma header_leaf_eq: "header_leaf h = cycle_bits (pow_edgeBits (bh_proofOfWork h)) (pow_proofNonces (bh_proofOfWork h))"
  by (simp add: header_leaf_def ProofOfWork_SerializeCycle_def writer_defs GetBytes_def Serializer_new_def insert_end_def)

lemma header_leaf_hash: "known_ok H h \<Longrightarrow> H (header_leaf h) = BlockHeader_GetHash h"
  by (simp add: header_leaf_eq known_ok_def header_ok_def pow_ok_def BlockHeader_GetHash_def)

section \<open>Database and orphans\<close>

lemma stored_headerI:
  assumes "GetBlockHeader H k db = Inr (Some h)"
  shows "(k, h) \<in> set (db_headersCache db) \<or> stored_header H (db_working db) k h"
proof (cases "map_of (db_headersCache db) k")
  case None
  then show ?thesis using assms
    by (auto simp: GetBlockHeader_def RocksDB_Get_def stored_header_def db_working_def bind_result_eq_Inr_iff split: option.splits sum.splits)
next
  case (Some h')
  then show ?thesis using assms by (auto simp: GetBlockHeader_def dest: map_of_SomeD)
qed

lemma db_known_get: "db_known H db \<Longrightarrow> GetBlockHeader H k db = Inr (Some h) \<Longrightarrow> known_ok H h"
  by (drule stored_headerI) (auto simp: db_known_def)

lemma db_known_add:
  assumes "db_known H db" "known_ok H h" "IsTransactional (db_rocks db)"
  shows "db_known H (AddBlockHeader h db)"
  using assms stored_header_put [of H h]
  by (auto simp: db_known_def AddBlockHeader_def Let_def db_working_def db_durable_def known_ok_def split: if_splits)

lemma AddBlockHeader_flags [simp]:
  "IsTransactional (db_rocks (AddBlockHeader h db)) = IsTransactional (db_rocks db)" "db_dirty (AddBlockHeader h db) = db_dirty db"
  by (simp_all add: AddBlockHeader_def Let_def)

lemma db_known_commit:
  assumes "db_known H db" "IsTransactional (db_rocks db)"
  shows "db_known H (snd (BlockDB_Commit True db))"
  using assms fold_header_cache_Put_set [of "db_uncommitted db" "db_headersCache db"]
  by (fastforce simp: db_known_def BlockDB_Commit_def RocksDB_Commit_def db_working_def db_durable_def)

lemma db_known_rollback: "db_known H db \<Longrightarrow> db_known H (BlockDB_Rollback db)"
  by (simp add: db_known_def BlockDB_Rollback_def RocksDB_Rollback_def db_working_def db_durable_def)

lemma pool_known_get:
  assumes "pool_known H p" "GetOrphanHeader k p = (h, p')"
  shows "pool_known H p' \<and> (\<forall>x. h = Some x \<longrightarrow> known_ok H x)"
proof (cases "map_of (op_orphanHeadersByHash p) k")
  case (Some x)
  then have "(k, x) \<in> set (op_orphanHeadersByHash p)" by (rule map_of_SomeD)
  then show ?thesis using assms Some by (auto simp: pool_known_def GetOrphanHeader_def lru_Get_def)
qed (use assms in \<open>auto simp: pool_known_def GetOrphanHeader_def lru_Get_def\<close>)

lemma pool_known_add: "pool_known H p \<Longrightarrow> known_ok H h \<Longrightarrow> pool_known H (AddOrphanHeader h p)"
  by (auto simp: pool_known_def AddOrphanHeader_def lru_Put_def split: if_splits dest: in_set_butlastD)

section \<open>The header MMR\<close>

lemma holds_header_nodes: "holds_nodes H ((!) ls) (mmr_size (length ls)) f \<longleftrightarrow> df_ok 32 f \<and> df_working 32 f = header_nodes H ls"
  by (simp add: holds_nodes_def header_nodes_def)

lemma AddHashes_loop_durable: "df_durable n (snd (AddHashes_loop H pl p k f)) = df_durable n f"
proof (induction H pl p k f rule: AddHashes_loop.induct)
  case (1 H pl p k f)
  then show ?case
    by (subst AddHashes_loop.simps)
      (auto simp: Let_def df_durable_def DataFile_AddData_def AppendOnlyFile_Append_def split: sum.split)
qed

lemma AddHashes_durable: "df_durable n (snd (AddHashes H bytes pl f)) = df_durable n f"
  by (simp add: AddHashes_def Let_def AddHashes_loop_durable) (simp add: df_durable_def DataFile_AddData_def AppendOnlyFile_Append_def)

lemma AddHeader_nodes:
  assumes H: "\<And>x. length (H x) = 32" and f: "df_ok 32 (hm_hashFile m)" "df_working 32 (hm_hashFile m) = header_nodes H ls"
    and small: "length ls \<le> 2 ^ 53" and batch: "hm_batch m"
  shows "\<exists>f'. AddHeader H h m = (Inr (), m\<lparr>hm_hashFile := f', hm_dirty := True\<rparr>) \<and> df_ok 32 f' \<and>
    df_working 32 f' = header_nodes H (ls @ [header_leaf h]) \<and> df_durable 32 f' = df_durable 32 (hm_hashFile m)"
proof -
  let ?ls = "ls @ [header_leaf h]"
  have room: "mmr_size (Suc (length ls)) * 32 < 2 ^ 64" "Suc (length ls) < 2 ^ 63"
    using room_54 [of "Suc (length ls)"] small by simp_all
  have "holds_nodes H ((!) ls) (mmr_size (length ls)) (hm_hashFile m)" using f by (simp add: holds_header_nodes)
  then have "holds_nodes H ((!) ?ls) (mmr_size (length ls)) (hm_hashFile m)"
    using holds_nodes_cong [of "length ls" "(!) ls" "(!) ?ls" H "hm_hashFile m"] room(2) by (simp add: nth_append)
  from AddHashes_nodes [of H, OF H room this] obtain f' where f': "AddHashes H (header_leaf h) None (hm_hashFile m) = (Inr (), f')"
    "holds_nodes H ((!) ?ls) (mmr_size (length ?ls)) f'" by auto
  then have "df_ok 32 f'" "df_working 32 f' = header_nodes H ?ls" by (simp_all only: holds_header_nodes)
  moreover have "df_durable 32 f' = df_durable 32 (hm_hashFile m)"
    using AddHashes_durable [of 32 H "header_leaf h" None "hm_hashFile m"] f'(1) by simp
  ultimately show ?thesis using batch f'(1) by (intro exI [of _ f']) (simp add: AddHeader_def Let_def header_leaf_def [symmetric])
qed

lemma rewind_size:
  assumes "0 < unat n" "unat n < 2 ^ 62"
  shows "unat (GetNumNodes (GetPMMRIndex (n - 1))) = mmr_size (unat n)"
proof -
  obtain k where k: "unat n = Suc k" using assms(1) by (cases "unat n") auto
  have "n \<noteq> 0" using assms(1) by auto
  then have n1: "unat (n - 1) = k" using k by (simp add: unat_minus_one)
  then have i: "unat (GetPMMRIndex (n - 1)) = mmr_size k" using GetPMMRIndex_mmr_size [of "n - 1"] assms(2) k by simp
  show ?thesis using GetNumNodes_spec [of k "GetPMMRIndex (n - 1)"] mmr_size_Suc [of k] assms(2) i k by simp
qed

lemma header_nodes_take:
  assumes "n \<le> length ls" "length ls < 2 ^ 63"
  shows "take (mmr_size n) (header_nodes H ls) = header_nodes H (take n ls)"
proof -
  have "mmr_size n \<le> mmr_size (length ls)" using assms(1) mmr_size_mono [of n "length ls"] by (cases "n = length ls") auto
  moreover have "node_hash H ((!) ls) (nheight i) i = node_hash H ((!) (take n ls)) (nheight i) i" if "i < mmr_size n" for i
    using that assms node_hash_cong [of n "(!) ls" "(!) (take n ls)" i H] mmr_size_63 [of n] by simp
  ultimately show ?thesis using assms(1) by (simp add: header_nodes_def take_map min_absorb2)
qed


section \<open>Opening and closing a batch\<close>

lemma headers_open_iff: "headers_open H s \<longleftrightarrow> state_open s \<and> st_dirty s \<and>
    mmr_matches H (chain_durable (candidate_chain s)) (df_durable 32 (header_file s)) \<and>
    length (chain_durable (candidate_chain s)) \<le> 2 ^ 53 \<and> db_known H (st_blockDB s) \<and> pool_known H (st_orphanPool s)"
  by (auto simp: headers_open_def state_open_def)

lemma headers_idle_iff: "headers_idle H s \<longleftrightarrow> state_idle s \<and> mmr_matches H (chain_durable (candidate_chain s)) (df_durable 32 (header_file s)) \<and>
    length (chain_durable (candidate_chain s)) \<le> 2 ^ 53 \<and> db_known H (st_blockDB s) \<and> pool_known H (st_orphanPool s)"
  by (auto simp: headers_idle_def state_idle_def store_idle_def chain_idle_def)

lemma headers_state_idle: "headers_idle H s \<Longrightarrow> state_idle s"
  by (simp add: headers_idle_iff)

lemma state_parts:
  "state_disk s = state_disk t \<longleftrightarrow> chain_durable (candidate_chain s) = chain_durable (candidate_chain t) \<and>
     chain_durable (confirmed_chain s) = chain_durable (confirmed_chain t) \<and>
     df_durable 32 (header_file s) = df_durable 32 (header_file t) \<and> db_durable (st_blockDB s) = db_durable (st_blockDB t)"
  "state_working s = state_disk t \<longleftrightarrow> chain_hashes (candidate_chain s) = chain_durable (candidate_chain t) \<and>
     chain_hashes (confirmed_chain s) = chain_durable (confirmed_chain t) \<and>
     df_working 32 (header_file s) = df_durable 32 (header_file t) \<and> db_working (st_blockDB s) = db_durable (st_blockDB t)"
  by (auto simp: state_disk_def state_working_def store_durable_def store_hashes_def)

lemma batch_opened:
  assumes "headers_idle H s"
  shows "\<exists>ls. headers_at H ls (InnerWriter_new ChainState_OnInitWrite ChainState_SetDirty s)"
proof -
  let ?s = "InnerWriter_new ChainState_OnInitWrite ChainState_SetDirty s"
  have eq: "?s = ChainState_OnInitWrite (ChainState_SetDirty True s)" by (simp add: InnerWriter_new_def)
  have idle: "state_idle s" using assms by (simp add: headers_idle_iff)
  note o = state_opened [OF idle, folded eq]
  have parts: "chain_hashes (candidate_chain ?s) = chain_durable (candidate_chain s)" "df_working 32 (header_file ?s) = df_durable 32 (header_file s)"
    "chain_durable (candidate_chain ?s) = chain_durable (candidate_chain s)" "df_durable 32 (header_file ?s) = df_durable 32 (header_file s)"
    using o(2,3) by (simp_all add: state_parts)
  have "st_blockDB ?s = BlockDB_OnInitWrite (BlockDB_SetDirty True (st_blockDB s))" "st_orphanPool ?s = st_orphanPool s"
    by (simp_all add: InnerWriter_new_def ChainState_OnInitWrite_def ChainState_SetDirty_def)
  then have "db_known H (st_blockDB ?s)" "pool_known H (st_orphanPool ?s)"
    using assms by (simp_all add: headers_idle_iff state_idle_def db_known_def batch_defs db_working_def db_durable_def)
  then have "headers_open H ?s" using assms o(1,5) parts(3,4) by (simp add: headers_open_iff headers_idle_iff)
  moreover obtain ls where "map H ls = chain_hashes (candidate_chain ?s)" "df_working 32 (header_file ?s) = header_nodes H ls"
    using assms parts by (auto simp: headers_idle_iff mmr_matches_def)
  moreover from this(1) have "length ls \<le> 2 ^ 53"
    using assms parts(1) by (metis headers_idle_iff length_map)
  ultimately show ?thesis by (auto simp: headers_at_def)
qed

text \<open>The orphans and what the database has on disk and in its cache.\<close>

definition same_store :: "chain_state \<Rightarrow> chain_state \<Rightarrow> bool" where
  "same_store s t \<longleftrightarrow> st_orphanPool t = st_orphanPool s \<and> db_durable (st_blockDB t) = db_durable (st_blockDB s) \<and>
     db_headersCache (st_blockDB t) = db_headersCache (st_blockDB s)"

lemma db_known_idle:
  assumes "db_known H db" "\<not> IsTransactional (db_rocks db')" "db_durable db' = db_durable db" "db_headersCache db' = db_headersCache db"
    "db_uncommitted db' = []"
  shows "db_known H db'"
proof -
  have "db_working db' = db_durable db'" using assms(2) by (simp add: db_working_def db_durable_def rdb_view_idle)
  then show ?thesis using assms by (simp add: db_known_def)
qed

lemma batch_closed:
  assumes "headers_open H s"
  shows "\<exists>s'. end_batch s = (Inr (), s') \<and> headers_idle H s' \<and> chain_durable (candidate_chain s') = chain_durable (candidate_chain s) \<and>
    df_durable 32 (header_file s') = df_durable 32 (header_file s) \<and> same_store s s'"
proof -
  have o: "state_open s" "db_known H (st_blockDB s)" using assms by (simp_all add: headers_open_iff)
  obtain s' where s': "end_batch s = (Inr (), s')" "state_idle s'" "state_disk s' = state_disk s" "same_rest s s'"
    "db_uncommitted (st_blockDB s') = []" using state_closed [OF o(1)] by blast
  then have "db_known H (st_blockDB s')"
    using db_known_idle [OF o(2), of "st_blockDB s'"] by (simp add: state_idle_def state_parts same_rest_def)
  then have "headers_idle H s'" using assms s' by (simp add: headers_idle_iff headers_open_iff state_parts same_rest_def)
  then show ?thesis using s' by (auto simp: state_parts same_rest_def same_store_def)
qed

section \<open>Steps in a batch\<close>

lemma headers_commit:
  assumes "headers_at H ls s" "commits_succeed w" and run: "ChainState_Commit w s = (r, s')"
  shows "headers_open H s' \<and> chain_durable (candidate_chain s') = chain_hashes (candidate_chain s)"
proof -
  have o: "headers_open H s" "state_open s" and ls: "map H ls = chain_hashes (candidate_chain s)" "df_working 32 (header_file s) = header_nodes H ls"
    "length ls \<le> 2 ^ 53" using assms(1) by (simp_all add: headers_at_def headers_open_iff)
  note c = state_committed [OF o(2) assms(2) run]
  have eq: "chain_durable (candidate_chain s') = chain_hashes (candidate_chain s)" "df_durable 32 (header_file s') = header_nodes H ls"
    using c(3) ls(2) by (simp_all add: state_disk_def state_working_def store_durable_def store_hashes_def)
  moreover have "length (chain_hashes (candidate_chain s)) \<le> 2 ^ 53" using arg_cong [OF ls(1), of length] ls(3) by simp
  moreover have "mmr_matches H (chain_hashes (candidate_chain s)) (header_nodes H ls)" using ls(1) by (auto simp: mmr_matches_def)
  moreover have "db_known H (st_blockDB s')" using o(1) c(6) db_known_commit [of H "st_blockDB s"] by (simp add: headers_open_iff state_open_def)
  ultimately show ?thesis using o(1) c by (simp add: headers_open_iff)
qed

text \<open>An exception is an outcome that leaves the durable state; the batch is discarded.\<close>

lemma headers_at_length:
  assumes "headers_at H ls s"
  shows "length (chain_hashes (candidate_chain s)) = length ls" "Suc (unat (ch_height (candidate_chain s))) = length ls"
    "unat (ch_height (candidate_chain s) + 1) = length ls"
proof -
  show l: "length (chain_hashes (candidate_chain s)) = length ls"
    using assms unfolding headers_at_def by (metis length_map)
  have "chain_ok (candidate_chain s)" "length ls \<le> 2 ^ 53" using assms by (simp_all add: headers_at_def headers_open_def)
  then show "Suc (unat (ch_height (candidate_chain s))) = length ls" "unat (ch_height (candidate_chain s) + 1) = length ls"
    using l by (auto simp: chain_ok_def unat_word_ariths)
qed

lemma headers_rewind:
  assumes at: "headers_at H ls s" and n: "0 < unat h" "unat h \<le> length ls"
  shows "\<exists>t u. on_candidate (Chain_Rewind (h - 1)) s = (Inr (), t) \<and> on_headerMMR (HeaderMMR_Rewind h) t = (Inr (), u) \<and>
    headers_at H (take (unat h) ls) u \<and>
    chain_durable (candidate_chain u) = chain_durable (candidate_chain s) \<and> ch_height (candidate_chain u) = h - 1"
proof -
  let ?c = "snd (Chain_Rewind (h - 1) (candidate_chain s))" and ?m = "st_headerMMR s"
  have o: "headers_open H s" and ls: "map H ls = chain_hashes (candidate_chain s)" "df_working 32 (header_file s) = header_nodes H ls" "length ls \<le> 2 ^ 53"
    using at by (simp_all add: headers_at_def)
  have ok: "chain_ok (candidate_chain s)" and df: "df_ok 32 (header_file s)" and batch: "hm_batch ?m"
    using o by (simp_all add: headers_open_def)
  have h: "unat (h - 1) = unat h - 1" using n(1) by (intro unat_minus_one) auto
  then have lt: "unat (h - 1) < length (chain_hashes (candidate_chain s))" using n headers_at_length(1) [OF at] by simp
  note rw = chain_rewind [OF ok lt]
  have size: "unat (GetNumNodes (GetPMMRIndex (h - 1))) = mmr_size (unat h)" using n ls(3) by (intro rewind_size) simp_all
  have le: "mmr_size (unat h) \<le> length (df_working 32 (header_file s))"
    using n(2) mmr_size_mono [of "unat h" "length ls"] ls(2) by (cases "unat h = length ls") (auto simp: header_nodes_def)
  note dr = df_rewind [OF df, of "GetNumNodes (GetPMMRIndex (h - 1))", unfolded size, OF le]
  have take: "take (mmr_size (unat h)) (df_working 32 (header_file s)) = header_nodes H (take (unat h) ls)"
    using header_nodes_take [OF n(2)] ls(2,3) by simp
  obtain m where m: "HeaderMMR_Rewind h ?m = (Inr (), m)" "hm_batch m" "df_ok 32 (hm_hashFile m)"
    "df_working 32 (hm_hashFile m) = header_nodes H (take (unat h) ls)" "df_durable 32 (hm_hashFile m) = df_durable 32 (header_file s)"
    "hm_dirty m \<or> df_working 32 (hm_hashFile m) = df_durable 32 (hm_hashFile m)"
  proof (cases "GetNumNodes (GetPMMRIndex (h - 1)) = DataFile_GetSize 32 (header_file s)")
    case True
    then have "mmr_size (unat h) = length (df_working 32 (header_file s))" using size df_size [OF df] by simp
    then show thesis using that [of ?m] True take batch df o by (simp add: HeaderMMR_Rewind_def Let_def headers_open_def)
  next
    case False
    obtain f' where f': "DataFile_Rewind 32 (GetNumNodes (GetPMMRIndex (h - 1))) (header_file s) = (Inr (), f')"
      using dr(1) by (cases "DataFile_Rewind 32 (GetNumNodes (GetPMMRIndex (h - 1))) (header_file s)") auto
    show thesis
      using that [of "?m\<lparr>hm_hashFile := f', hm_dirty := True\<rparr>"] f' False batch dr take by (simp add: HeaderMMR_Rewind_def Let_def)
  qed
  let ?t = "s\<lparr>st_chainStore := (st_chainStore s)\<lparr>cs_candidate := ?c\<rparr>\<rparr>"
  let ?u = "?t\<lparr>st_headerMMR := m\<rparr>"
  have "on_candidate (Chain_Rewind (h - 1)) s = (Inr (), ?t)" "on_headerMMR (HeaderMMR_Rewind h) ?t = (Inr (), ?u)"
    using rw(1) m(1) by (simp_all add: on_parts on_chain_def)
  moreover have "headers_open H ?u" using o rw(2,4) m(2-6) by (simp add: headers_open_def)
  moreover have "map H (take (unat h) ls) = chain_hashes ?c"
    using rw(3) h n(1) ls(1) by (simp add: take_map [symmetric])
  ultimately show ?thesis
    using ls(3) m(4) rw(4,5) by (intro exI [of _ ?t] exI [of _ ?u]) (simp add: headers_at_def)
qed

text \<open>Adding one header to the MMR, the database and the chain.\<close>

lemma headers_add:
  assumes H: "\<And>x. length (H x) = 32" and at: "headers_at H ls s" and known: "known_ok H h"
    and height: "bh_height h = ch_height (candidate_chain s) + 1"
  shows "\<exists>m c. AddHeader H h (st_headerMMR s) = (Inr (), m) \<and>
    Chain_AddBlock (BlockHeader_GetHash h) (bh_height h) (candidate_chain s) = (Inr (BlockIndex_new (BlockHeader_GetHash h) (bh_height h)), c) \<and>
    headers_at H (ls @ [header_leaf h]) (s\<lparr>st_headerMMR := m, st_blockDB := AddBlockHeader h (st_blockDB s),
      st_chainStore := (st_chainStore s)\<lparr>cs_candidate := c\<rparr>\<rparr>) \<and>
    chain_durable c = chain_durable (candidate_chain s) \<and> ch_height c = bh_height h"
proof -
  have o: "headers_open H s" and ls: "map H ls = chain_hashes (candidate_chain s)" "df_working 32 (header_file s) = header_nodes H ls" "length ls \<le> 2 ^ 53"
    using at by (simp_all add: headers_at_def)
  have ok: "chain_ok (candidate_chain s)" using o by (simp add: headers_open_def)
  have "length ls < 2 ^ 53" using headers_at_length(3) [OF at] known height by (simp add: known_ok_def)
  then have len: "length (ls @ [header_leaf h]) \<le> 2 ^ 53" by simp
  have "length (BlockHeader_GetHash h) = 32" using header_leaf_hash [OF known] H by metis
  note add = chain_add [OF ok _ this, of 0]
  have room: "chain_room (Suc 0) (candidate_chain s)" using headers_at_length(1) [OF at] ls(3) by (simp add: chain_room_def)
  obtain f' where f': "AddHeader H h (st_headerMMR s) = (Inr (), (st_headerMMR s)\<lparr>hm_hashFile := f', hm_dirty := True\<rparr>)" "df_ok 32 f'"
    "df_working 32 f' = header_nodes H (ls @ [header_leaf h])" "df_durable 32 f' = df_durable 32 (header_file s)"
    using AddHeader_nodes [of H "st_headerMMR s" ls h] H ls o by (auto simp: headers_open_def)
  let ?m = "(st_headerMMR s)\<lparr>hm_hashFile := f', hm_dirty := True\<rparr>"
  let ?c = "snd (Chain_AddBlock (BlockHeader_GetHash h) (bh_height h) (candidate_chain s))"
  let ?s = "s\<lparr>st_headerMMR := ?m, st_blockDB := AddBlockHeader h (st_blockDB s), st_chainStore := (st_chainStore s)\<lparr>cs_candidate := ?c\<rparr>\<rparr>"
  note add = add [OF room, folded height]
  have "headers_open H ?s"
    using o add(2,4) f'(2-4) db_known_add [of H "st_blockDB s" h] known by (simp add: headers_open_def)
  then have "headers_at H (ls @ [header_leaf h]) ?s"
    using add(3) f'(3) ls(1) len header_leaf_hash [OF known] by (simp add: headers_at_def)
  then show ?thesis
    using f'(1) add(1,4,5) by (intro exI [of _ ?m] exI [of _ ?c]) (simp add: prod_eq_iff)
qed

lemma validate_each_at:
  assumes H: "\<And>x. length (H x) = 32" and w: "w_H w = H" and at: "headers_at H ls s"
    and known: "\<forall>h\<in>set headers. known_ok H h" and height: "ch_height (candidate_chain s) = bh_height previous"
    and run: "validate_each w previous headers s = (r, s')"
  shows "headers_open H s' \<and> chain_durable (candidate_chain s') = chain_durable (candidate_chain s) \<and>
    (\<forall>u. r = Inr u \<longrightarrow> headers_at H (ls @ map header_leaf headers) s')"
  using at known height run
proof (induction headers arbitrary: previous ls s)
  case Nil
  then show ?case by (simp add: action_apply headers_at_def)
next
  case (Cons h headers)
  show ?case
  proof (cases "valid_header w h previous s = Inr True")
    case False
    then have "s' = s \<and> (\<exists>e. r = Inl e)"
      using Cons.prems(4) by (cases "valid_header w h previous s") (auto simp: bind_action_def action_apply split: if_splits)
    then show ?thesis using Cons.prems(1) by (auto simp: headers_at_def)
  next
    case True
    then have "bh_height h = ch_height (candidate_chain s) + 1"
      using Cons.prems(3) by (auto simp: valid_header_def IsValidHeader_def split: if_splits)
    from headers_add [OF H Cons.prems(1) _ this] Cons.prems(2) obtain m c where
      mc: "AddHeader H h (st_headerMMR s) = (Inr (), m)"
      "Chain_AddBlock (BlockHeader_GetHash h) (bh_height h) (candidate_chain s) = (Inr (BlockIndex_new (BlockHeader_GetHash h) (bh_height h)), c)"
      "headers_at H (ls @ [header_leaf h]) (s\<lparr>st_headerMMR := m, st_blockDB := AddBlockHeader h (st_blockDB s),
         st_chainStore := (st_chainStore s)\<lparr>cs_candidate := c\<rparr>\<rparr>)"
      "chain_durable c = chain_durable (candidate_chain s)" "ch_height c = bh_height h" by auto
    let ?s = "s\<lparr>st_headerMMR := m, st_blockDB := AddBlockHeader h (st_blockDB s), st_chainStore := (st_chainStore s)\<lparr>cs_candidate := c\<rparr>\<rparr>"
    have "validate_each w h headers ?s = (r, s')"
      using Cons.prems(4) True mc(1,2) by (simp add: bind_action_def action_apply on_parts on_chain_def w)
    from Cons.IH [OF mc(3) _ _ this] show ?thesis using Cons.prems(2) mc(4,5) by simp
  qed
qed


lemma ValidateHeaders_at:
  assumes H: "\<And>x. length (H x) = 32" and w: "w_H w = H" and at: "headers_at H ls s"
    and known: "\<forall>h\<in>set (h # headers). known_ok H h" and height: "ch_height (candidate_chain s) = bh_height h - 1"
    and run: "ValidateHeaders w (h # headers) s = (r, s')"
  shows "headers_open H s' \<and> (\<forall>u. r = Inr u \<longrightarrow> headers_at H (ls @ map header_leaf (h # headers)) s')"
proof -
  have o: "headers_open H s" using at by (simp add: headers_at_def)
  consider (bad) "s' = s" "\<exists>e. r = Inl e" | (good) previous where "validate_each w previous (h # headers) s = (r, s')"
    using run by (auto simp: ValidateHeaders_def bind_action_def action_apply split: sum.splits option.splits)
  then show ?thesis
  proof cases
    case bad
    then show ?thesis using o by auto
  next
    case good
    show ?thesis
    proof (cases "bh_height h = bh_height previous + 1")
      case True
      then show ?thesis using validate_each_at [OF H w at known _ good] height by simp
    next
      case False
      then have "valid_header w h previous s = Inr False" by (simp add: valid_header_def IsValidHeader_def)
      then have "s' = s" "\<exists>e. r = Inl e" using good by (auto simp: bind_action_def action_apply)
      then show ?thesis using o by auto
    qed
  qed
qed

lemma headers_discard:
  assumes "headers_open H s"
  shows "\<exists>ls t. bind_action (on_headerMMR (modify_action HeaderMMR_Rollback)) (\<lambda>_. on_candidate (no_except Chain_Rollback)) s = (Inr (), t) \<and>
    headers_at H ls t \<and> chain_durable (candidate_chain t) = chain_durable (candidate_chain s)"
proof -
  have ok: "chain_ok (candidate_chain s)" "df_ok 32 (header_file s)" using assms by (simp_all add: headers_open_def)
  note r = chain_rollback [OF ok(1)] and d = df_rollback [OF ok(2)]
  obtain ls where ls: "map H ls = chain_durable (candidate_chain s)" "df_durable 32 (header_file s) = header_nodes H ls"
    using assms by (auto simp: headers_open_def mmr_matches_def)
  have len: "length ls \<le> 2 ^ 53" using assms ls(1) unfolding headers_open_def by (metis length_map)
  let ?t = "s\<lparr>st_headerMMR := HeaderMMR_Rollback (st_headerMMR s), st_chainStore := (st_chainStore s)\<lparr>cs_candidate := or_same Chain_Rollback (candidate_chain s)\<rparr>\<rparr>"
  have run: "bind_action (on_headerMMR (modify_action HeaderMMR_Rollback)) (\<lambda>_. on_candidate (no_except Chain_Rollback)) s = (Inr (), ?t)"
    using r(1) by (simp add: bind_action_def on_parts on_chain_def action_apply no_except_def)
  have "headers_open H ?t" using assms r(2,4) d by (auto simp: headers_open_def HeaderMMR_Rollback_def)
  moreover have "df_working 32 (header_file ?t) = header_nodes H ls"
    using assms d ls(2) by (auto simp: headers_open_def HeaderMMR_Rollback_def)
  ultimately show ?thesis using run r(3,4) ls(1) len by (intro exI [of _ ls] exI [of _ ?t]) (simp add: headers_at_def)
qed

lemma apply_headers_open:
  assumes H: "\<And>x. length (H x) = 32" and w: "w_H w = H" "commits_succeed w" and at: "headers_at H ls s"
    and known: "\<forall>h\<in>set headers. known_ok H h" and run: "apply_headers w td nd headers s = (r, s')"
  shows "headers_open H s'"
proof (cases headers)
  case Nil
  then show ?thesis using run at by (simp add: apply_headers_def action_apply headers_at_def)
next
  case (Cons h hs)
  show ?thesis
  proof (cases "0 < unat (bh_height h) \<and> unat (bh_height h) \<le> length ls")
    case False
    have l: "Suc (unat (ch_height (candidate_chain s))) = length ls" "length ls \<le> 2 ^ 53"
      using headers_at_length(2) [OF at] at by (simp_all add: headers_at_def)
    have "ch_height (candidate_chain s) < bh_height h - 1"
    proof (cases "bh_height h = 0")
      case True
      then show ?thesis using l by (simp add: word_less_nat_alt unsigned_minus_1_eq_mask mask_eq_exp_minus_1)
    next
      case nz: False
      then have "unat (bh_height h - 1) = unat (bh_height h) - 1" "0 < unat (bh_height h)"
        by (simp_all add: unat_minus_one unat_gt_0)
      then show ?thesis using False l by (simp add: word_less_nat_alt)
    qed
    then have "s' = s" using run Cons by (simp add: apply_headers_def bind_action_def on_parts on_chain_def Chain_Rewind_def)
    then show ?thesis using at by (simp add: headers_at_def)
  next
    case True
    from headers_rewind [OF at] True obtain t u where
      tu: "on_candidate (Chain_Rewind (bh_height h - 1)) s = (Inr (), t)" "on_headerMMR (HeaderMMR_Rewind (bh_height h)) t = (Inr (), u)"
      "headers_at H (take (unat (bh_height h)) ls) u" "ch_height (candidate_chain u) = bh_height h - 1" by blast
    obtain r1 v where v: "ValidateHeaders w headers u = (r1, v)" by fastforce
    note va = ValidateHeaders_at [OF H w(1) tu(3) _ tu(4), of hs, folded Cons, OF known v]
    show ?thesis
    proof (cases r1)
      case (Inl e)
      then have "s' = v" using run tu(1,2) v Cons by (simp add: apply_headers_def bind_action_def)
      then show ?thesis using va by simp
    next
      case (Inr _)
      obtain ls' v' where v': "when_action (nd \<le> td) (bind_action (on_headerMMR (modify_action HeaderMMR_Rollback)) (\<lambda>_. on_candidate (no_except Chain_Rollback))) v =
          (Inr (), v')" "headers_at H ls' v'"
        using va Inr headers_discard [of H v] by (cases "nd \<le> td") (auto simp: action_apply)
      have "\<exists>r2. ChainState_Commit w v' = (r2, s')"
        using run tu(1,2) v Inr v'(1) Cons
        by (cases "ChainState_Commit w v'") (auto simp: apply_headers_def bind_action_def action_apply split: sum.splits)
      then show ?thesis using headers_commit [OF v'(2) w(2)] by blast
    qed
  qed
qed


lemma previous_header_at:
  assumes "headers_at H ls s" "previous_header H h s = (r, s')"
  shows "headers_at H ls s' \<and> (\<forall>x. r = Inr (Some x) \<longrightarrow> known_ok H x)"
proof -
  obtain x p where g: "GetOrphanHeader (bh_previousBlockHash h) (st_orphanPool s) = (x, p)" by fastforce
  have o: "headers_open H s" using assms(1) by (simp add: headers_at_def)
  note k = pool_known_get [of H, OF _ g]
  have s': "s' = s\<lparr>st_orphanPool := p\<rparr>"
    using assms(2) g by (cases x) (auto simp: previous_header_def bind_action_def on_parts action_apply)
  have "known_ok H y" if "r = Inr (Some y)" for y
    using assms(2) g that o k db_known_get [of H "st_blockDB s"]
    by (cases x) (auto simp: previous_header_def bind_action_def on_parts action_apply GetBlockHeaderByHash_def headers_open_def)
  moreover have "headers_at H ls s'" using assms(1) k o by (simp add: s' headers_at_def headers_open_def)
  ultimately show ?thesis by blast
qed

lemma collect_ancestors_at:
  assumes "collect_ancestors H acc temp s = Some (r, s')" "headers_at H ls s" "\<forall>h\<in>set acc \<union> set_option temp. known_ok H h"
  shows "headers_at H ls s' \<and> (\<forall>hs found. r = Inr (hs, found) \<longrightarrow> (\<forall>h\<in>set hs. known_ok H h))"
proof -
  define P where "P = (\<lambda>H acc temp s y. headers_at H ls s \<longrightarrow> (\<forall>h\<in>set acc \<union> set_option temp. known_ok H h) \<longrightarrow>
    headers_at H ls (snd y) \<and> (\<forall>hs found. fst y = (Inr (hs, found) :: (block_header list \<times> block_header option) result) \<longrightarrow> (\<forall>h\<in>set hs. known_ok H h)))"
  have "P H acc temp s (r, s')"
  proof (rule collect_ancestors.raw_induct [OF _ assms(1)])
    fix f H acc temp s y
    assume IH: "\<And>H acc temp s y. f H acc temp s = Some y \<Longrightarrow> P H acc temp s y"
      and body: "(case temp of None \<Rightarrow> Some (Inr (acc, None), s)
        | Some header \<Rightarrow> (case Chain_IsOnChain (bh_height header) (BlockHeader_GetHash header) (candidate_chain s) of
             Inl e \<Rightarrow> Some (Inl e, s)
           | Inr onChain \<Rightarrow>
               if onChain then Some (Inr (rev acc, Some header), s)
               else (case previous_header H header s of
                   (Inl e, s) \<Rightarrow> Some (Inl e, s)
                 | (Inr previous, s) \<Rightarrow> f H (acc @ [header]) previous s))) = Some y"
    show "P H acc temp s y"
      unfolding P_def
    proof (intro impI)
      assume at: "headers_at H ls s" and known: "\<forall>h\<in>set acc \<union> set_option temp. known_ok H h"
      consider (stop) x where "y = (x, s)" "\<forall>hs found. x = Inr (hs, found) \<longrightarrow> (\<forall>h\<in>set hs. known_ok H h)"
        | (step) header x t where "temp = Some header" "previous_header H header s = (x, t)" "case x of Inl e \<Rightarrow> y = (Inl e, t) | Inr p \<Rightarrow> f H (acc @ [header]) p t = Some y"
        using body known by (cases temp) (auto split: sum.splits if_splits prod.splits)
      then show "headers_at H ls (snd y) \<and> (\<forall>hs found. fst y = Inr (hs, found) \<longrightarrow> (\<forall>h\<in>set hs. known_ok H h))"
      proof cases
        case stop
        then show ?thesis using at by simp
      next
        case step
        note p = previous_header_at [OF at step(2)]
        show ?thesis
        proof (cases x)
          case (Inr q)
          then have "P H (acc @ [header]) q t y" using IH step(3) by simp
          moreover have "\<forall>h\<in>set (acc @ [header]) \<union> set_option q. known_ok H h" using p known step(1) Inr by (cases q) auto
          ultimately show ?thesis using p unfolding P_def by blast
        qed (use step(3) p in auto)
      qed
    qed
  qed
  then show ?thesis using assms(2,3) by (simp add: P_def)
qed

section \<open>The invariant\<close>

lemma BatchWrite_idle:
  assumes "headers_idle H s" "BatchWrite body s = Some (r, s')"
    and "\<And>ls t r t'. headers_at H ls t \<Longrightarrow> body t = Some (r, t') \<Longrightarrow> headers_open H t'"
  shows "headers_idle H s'"
proof -
  let ?s = "InnerWriter_new ChainState_OnInitWrite ChainState_SetDirty s"
  obtain ls where ls: "headers_at H ls ?s" using batch_opened [OF assms(1)] by blast
  obtain r1 t where t: "body ?s = Some (r1, t)" using assms(2) by (auto simp: BatchWrite_def split: option.splits)
  from batch_closed [OF assms(3) [OF ls t]] t assms(2) show ?thesis by (auto simp: BatchWrite_def)
qed

lemma process_next_open:
  assumes H: "\<And>x. length (H x) = 32" and w: "w_H w = H" "commits_succeed w" and at: "headers_at H ls s"
    and known: "known_ok H h" and run: "process_next w h tip s = (r, s')"
  shows "headers_open H s'"
proof -
  have o: "headers_open H s" using at by (simp add: headers_at_def)
  show ?thesis
  proof (cases "\<exists>previous. valid_header w h previous s = Inr True \<and> GetBlockHeaderByHash (w_H w) tip s = Inr (Some previous)")
    case False
    then have "s' = s" using run
      by (auto simp: process_next_def bind_action_def action_apply split: sum.splits option.splits if_splits)
    then show ?thesis using o by simp
  next
    case True
    then obtain previous where p: "valid_header w h previous s = Inr True" "GetBlockHeaderByHash (w_H w) tip s = Inr (Some previous)" by blast
    let ?s = "s\<lparr>st_blockDB := AddBlockHeader h (st_blockDB s)\<rparr>"
    obtain f' where f': "AddHeader H h (st_headerMMR s) = (Inr (), (st_headerMMR s)\<lparr>hm_hashFile := f', hm_dirty := True\<rparr>)" "df_ok 32 f'"
      "df_durable 32 f' = df_durable 32 (header_file s)"
      using AddHeader_nodes [of H "st_headerMMR s" ls h] H at o by (auto simp: headers_at_def headers_open_def)
    show ?thesis
    proof (cases "bh_height h = ch_height (candidate_chain s) + 1")
      case False
      then have "s' = ?s\<lparr>st_headerMMR := (st_headerMMR s)\<lparr>hm_hashFile := f', hm_dirty := True\<rparr>\<rparr>"
        using run p f'(1) by (simp add: process_next_def bind_action_def action_apply on_parts on_chain_def w Chain_AddBlock_def)
      then show ?thesis using o f'(2,3) db_known_add [of H "st_blockDB s" h] known by (simp add: headers_open_def)
    next
      case True
      from headers_add [OF H at known True] obtain m c where
        mc: "AddHeader H h (st_headerMMR s) = (Inr (), m)"
        "Chain_AddBlock (BlockHeader_GetHash h) (bh_height h) (candidate_chain s) = (Inr (BlockIndex_new (BlockHeader_GetHash h) (bh_height h)), c)"
        "headers_at H (ls @ [header_leaf h]) (s\<lparr>st_headerMMR := m, st_blockDB := AddBlockHeader h (st_blockDB s),
           st_chainStore := (st_chainStore s)\<lparr>cs_candidate := c\<rparr>\<rparr>)" by blast
      let ?t = "s\<lparr>st_blockDB := AddBlockHeader h (st_blockDB s), st_headerMMR := m, st_chainStore := (st_chainStore s)\<lparr>cs_candidate := c\<rparr>\<rparr>"
      have at': "headers_at H (ls @ [header_leaf h]) ?t" using mc(3) by (auto simp: headers_at_def headers_open_def)
      have "\<exists>r2. ChainState_Commit w ?t = (r2, s')"
        using run p mc(1,2) w
        by (cases "ChainState_Commit w ?t") (auto simp: process_next_def bind_action_def action_apply on_parts on_chain_def split: sum.splits)
      then show ?thesis using headers_commit [OF at' w(2)] by blast
    qed
  qed
qed

lemma ProcessSingleHeader_idle:
  assumes H: "\<And>x. length (H x) = 32" and w: "w_H w = H" "commits_succeed w" and idle: "headers_idle H s"
    and known: "known_ok H h" and run: "ProcessSingleHeader w h s = Some (r, s')"
  shows "headers_idle H s'"
  using run unfolding ProcessSingleHeader_def
proof (rule BatchWrite_idle [OF idle])
  fix ls t r t'
  assume at: "headers_at H ls t"
    and run: "bind_process (run_action (read_action (GetBlockHeaderByHash (w_H w) (BlockHeader_GetHash h)))) (\<lambda>found.
       if found \<noteq> None then run_action (return_action ALREADY_EXISTS)
       else bind_process (run_action (read_action (\<lambda>s. Chain_GetTipHash (candidate_chain s)))) (\<lambda>tipHash.
         if tipHash \<noteq> bh_previousBlockHash h then ProcessOrphan w h
         else run_action (process_next w h tipHash))) t = Some (r, t')"
  have o: "headers_open H t" using at by (simp add: headers_at_def)
  consider "t' = t" | tip where "process_next w h tip t = (r, t')" | "ProcessOrphan w h t = Some (r, t')"
    using run by (auto simp: bind_process_def run_action_def action_apply split: sum.splits if_splits)
  then show "headers_open H t'"
  proof cases
    case 3
    then obtain td where td: "t' = t \<or> (bind_process (collect_ancestors (w_H w) [] (Some h)) (\<lambda>(reorgHeaders, found). case found of
         None \<Rightarrow> run_action (bind_action (on_orphanPool (modify_action (AddOrphanHeader h))) (\<lambda>_. return_action ORPHANED))
       | Some _ \<Rightarrow> run_action (apply_headers w td (bh_totalDifficulty h) reorgHeaders))) t = Some (r, t')"
      by (auto simp: ProcessOrphan_def bind_process_def run_action_def action_apply split: sum.splits)
    show ?thesis
    proof (cases "collect_ancestors (w_H w) [] (Some h) t")
      case None
      then show ?thesis using td o by (auto simp: bind_process_def)
    next
      case (Some y)
      obtain x u where y: "y = (x, u)" by fastforce
      have c: "headers_at H ls u" "\<And>hs found. x = Inr (hs, found) \<Longrightarrow> \<forall>h\<in>set hs. known_ok H h"
        using collect_ancestors_at [of H "[]" "Some h" t x u ls] Some at known w(1) y by auto
      have ou: "headers_open H u" using c(1) by (simp add: headers_at_def)
      from td show ?thesis
      proof (elim disjE)
        assume run': "bind_process (collect_ancestors (w_H w) [] (Some h)) (\<lambda>(reorgHeaders, found). case found of
           None \<Rightarrow> run_action (bind_action (on_orphanPool (modify_action (AddOrphanHeader h))) (\<lambda>_. return_action ORPHANED))
         | Some _ \<Rightarrow> run_action (apply_headers w td (bh_totalDifficulty h) reorgHeaders)) t = Some (r, t')"
        show ?thesis
        proof (cases x)
          case (Inl e)
          then show ?thesis using run' Some y ou by (simp add: bind_process_def)
        next
          case (Inr hf)
          obtain hs found where hf: "hf = (hs, found)" by fastforce
          show ?thesis
          proof (cases found)
            case None
            then have "t' = u\<lparr>st_orphanPool := AddOrphanHeader h (st_orphanPool u)\<rparr>"
              using run' Some y Inr hf by (simp add: bind_process_def run_action_def bind_action_def on_parts action_apply)
            then show ?thesis using ou known pool_known_add by (simp add: headers_open_def)
          next
            case (Some g)
            then have ap: "apply_headers w td (bh_totalDifficulty h) hs u = (r, t')"
              using run' \<open>collect_ancestors (w_H w) [] (Some h) t = Some y\<close> y Inr hf by (simp add: bind_process_def run_action_def)
            have "\<forall>h\<in>set hs. known_ok H h" by (rule c(2)) (simp add: Inr hf)
            then show ?thesis by (rule apply_headers_open [OF H w c(1) _ ap])
          qed
        qed
      qed (use o in simp)
    qed
  qed (use o process_next_open [OF H w at known] in auto)
qed

lemma new_headers_sub: "new_headers c hs = Inr ys \<Longrightarrow> set ys \<subseteq> set hs"
  by (induction hs) (auto simp: bind_result_eq_Inr_iff split: if_splits)

lemma ProcessChunked_idle:
  assumes H: "\<And>x. length (H x) = 32" and w: "w_H w = H" "commits_succeed w" and idle: "headers_idle H s"
    and known: "\<forall>h\<in>set headers. known_ok H h" and run: "ProcessChunkedSyncHeaders w headers s = Some (r, s')"
  shows "headers_idle H s'"
  using run unfolding ProcessChunkedSyncHeaders_def
proof (rule BatchWrite_idle [OF idle])
  fix ls t r t'
  assume at: "headers_at H ls t" and run: "run_action (
     bind_action (read_action (GetTotalDifficulty (w_H w) CANDIDATE)) (\<lambda>totalDifficulty.
     bind_action (PrepareSyncChain headers) (\<lambda>_.
     bind_action (read_action (\<lambda>s. new_headers (candidate_chain s) headers)) (\<lambda>newHeaders.
       if newHeaders = [] then return_action ALREADY_EXISTS
       else apply_headers w totalDifficulty (bh_totalDifficulty (last newHeaders)) newHeaders)))) t = Some (r, t')"
  have "snd (PrepareSyncChain headers t) = t"
    by (auto simp: PrepareSyncChain_def bind_action_def action_apply split: list.split sum.split)
  then consider "t' = t" | td nd hs where "apply_headers w td nd hs t = (r, t')" "set hs \<subseteq> set headers"
    using run new_headers_sub [of "candidate_chain t" headers]
    by (cases "PrepareSyncChain headers t") (auto simp: run_action_def bind_action_def action_apply split: sum.splits if_splits)
  then show "headers_open H t'"
  proof cases
    case 2
    then have "\<forall>h\<in>set hs. known_ok H h" using known by auto
    then show ?thesis by (rule apply_headers_open [OF H w at _ 2(1)])
  qed (use at in \<open>simp add: headers_at_def\<close>)
qed


lemma process_chunks_idle:
  assumes H: "\<And>x. length (H x) = 32" and w: "w_H w = H" "commits_succeed w"
  shows "headers_idle H s \<Longrightarrow> \<forall>h\<in>set headers. known_ok H h \<Longrightarrow> process_chunks w headers s = Some (r, s') \<Longrightarrow> headers_idle H s'"
proof (induction "length headers" arbitrary: headers s rule: less_induct)
  case less
  show ?case
  proof (cases "headers = []")
    case True
    then show ?thesis using less.prems by (simp add: process_chunks.simps run_action_def action_apply)
  next
    case False
    let ?now = "take SYNC_BATCH_SIZE headers" and ?later = "drop SYNC_BATCH_SIZE headers"
    obtain r1 t where t: "ProcessChunkedSyncHeaders w ?now s = Some (r1, t)"
      using less.prems(3) False by (subst (asm) process_chunks.simps) (auto simp: bind_process_def split: option.splits)
    have "headers_idle H t"
      by (rule ProcessChunked_idle [OF H w less.prems(1) _ t]) (use less.prems(2) in \<open>auto dest: in_set_takeD\<close>)
    moreover have "s' = t \<or> process_chunks w ?later t = Some (r, s')"
      using less.prems(3) False t
      by (subst (asm) process_chunks.simps) (auto simp: bind_process_def run_action_def action_apply split: sum.splits if_splits)
    moreover have "length ?later < length headers" using False by (simp add: SYNC_BATCH_SIZE_def)
    ultimately show ?thesis using less.hyps [of ?later t] less.prems(2) by (auto dest: in_set_dropD)
  qed
qed

lemma ProcessSyncHeaders_idle:
  assumes H: "\<And>x. length (H x) = 32" and w: "w_H w = H" "commits_succeed w" and idle: "headers_idle H s"
    and known: "\<forall>h\<in>set headers. known_ok H h" and run: "ProcessSyncHeaders w headers s = Some (r, s')"
  shows "headers_idle H s'"
proof -
  consider "s' = s" | "process_chunks w headers s = Some (r, s')"
    using run by (auto simp: ProcessSyncHeaders_def run_action_def action_apply split: list.splits if_splits)
  then show ?thesis using process_chunks_idle [OF H w idle known] idle by cases auto
qed

text \<open>A valid header on top of the candidate chain is accepted and is on disk afterwards. (The transaction hash set is the last part
  to be committed; here it is not loaded.)\<close>

lemma committed_result:
  assumes "state_open s" "commits_succeed w" "tm_txHashSet (st_txHashSetManager s) = None"
  shows "fst (ChainState_Commit w s) = Inr ()"
proof -
  have ok: "store_ok (st_chainStore s)" and df: "df_ok 32 (header_file s)"
    using assms(1) by (simp_all add: state_open_def store_ok_def)
  obtain cs where "ChainStore_Commit True True (st_chainStore s) = (Inr (), cs)" using store_commit [OF ok] by (metis prod.collapse)
  moreover obtain fl where "DataFile_Commit True True (header_file s) = (Inr (), fl)" using df_commit(1) [OF df] by (metis prod.collapse)
  then have "\<exists>m. HeaderMMR_Commit True True (st_headerMMR s) = (Inr (), m)"
    using assms(1) by (simp add: HeaderMMR_Commit_def state_open_def)
  ultimately show ?thesis using assms(2,3)
    by (auto simp: ChainState_Commit_def commits_succeed_def on_parts bind_action_def BlockDB_Commit_def RocksDB_Commit_def
        TxHashSetManager_Commit_def)
qed

text \<open>What the theorems on a header that extends the candidate chain assume of it, with \<open>t\<close> the state inside the batch.\<close>

definition extends_tip :: "node_world \<Rightarrow> u8 list list \<Rightarrow> block_header \<Rightarrow> chain_state \<Rightarrow> bool" where
  "extends_tip w ls h t \<longleftrightarrow> headers_at (w_H w) ls t \<and> known_ok (w_H w) h \<and>
     GetBlockHeader (w_H w) (BlockHeader_GetHash h) (st_blockDB t) = Inr None \<and> bh_previousBlockHash h = w_H w (last ls) \<and>
     (\<exists>previous. GetBlockHeader (w_H w) (w_H w (last ls)) (st_blockDB t) = Inr (Some previous) \<and> valid_header w h previous t = Inr True) \<and>
     unat (bh_height h) = length ls"

lemma extends_tip_run:
  fixes w s
  defines "t \<equiv> InnerWriter_new ChainState_OnInitWrite ChainState_SetDirty s"
  assumes H: "\<And>x. length (w_H w x) = 32" and ext: "extends_tip w ls h t"
  shows "\<exists>m c. headers_at (w_H w) (ls @ [header_leaf h]) (t\<lparr>st_blockDB := AddBlockHeader h (st_blockDB t), st_headerMMR := m,
      st_chainStore := (st_chainStore t)\<lparr>cs_candidate := c\<rparr>\<rparr>) \<and> df_durable 32 (hm_hashFile m) = df_durable 32 (header_file t) \<and>
    ProcessSingleHeader w h s = (case ChainState_Commit w (t\<lparr>st_blockDB := AddBlockHeader h (st_blockDB t), st_headerMMR := m,
        st_chainStore := (st_chainStore t)\<lparr>cs_candidate := c\<rparr>\<rparr>) of
      (r, u) \<Rightarrow> (case end_batch u of (Inl e, s) \<Rightarrow> Some (Inl e, s) | (Inr _, s) \<Rightarrow> Some (map_sum id (\<lambda>_. SUCCESS) r, s)))"
proof -
  have at: "headers_at (w_H w) ls t" and known: "known_ok (w_H w) h" and fresh: "GetBlockHeader (w_H w) (BlockHeader_GetHash h) (st_blockDB t) = Inr None"
    and tip: "bh_previousBlockHash h = w_H w (last ls)" and h: "unat (bh_height h) = length ls"
    using ext by (simp_all add: extends_tip_def)
  obtain previous where valid: "GetBlockHeader (w_H w) (w_H w (last ls)) (st_blockDB t) = Inr (Some previous)" "valid_header w h previous t = Inr True"
    using ext by (auto simp: extends_tip_def)
  have o: "headers_open (w_H w) t" and hs: "map (w_H w) ls = chain_hashes (candidate_chain t)" using at by (simp_all add: headers_at_def)
  have ok: "chain_ok (candidate_chain t)" using o by (simp add: headers_open_def)
  have "ls \<noteq> []" using chain_nonempty [OF ok] hs by auto
  then have "Chain_GetTipHash (candidate_chain t) = Inr (w_H w (last ls))" using chain_get(4) [OF ok] hs by (metis last_map)
  then have run: "ProcessSingleHeader w h s = (case process_next w h (w_H w (last ls)) t of (r, u) \<Rightarrow>
      (case end_batch u of (Inl e, s) \<Rightarrow> Some (Inl e, s) | (Inr _, s) \<Rightarrow> Some (r, s)))"
    using fresh tip by (simp add: ProcessSingleHeader_def BatchWrite_def bind_process_def run_action_def action_apply GetBlockHeaderByHash_def t_def
        split: prod.splits)
  have height: "bh_height h = ch_height (candidate_chain t) + 1"
    using headers_at_length(3) [OF at] h by (metis word_unat_eq_iff)
  obtain m c where mc: "AddHeader (w_H w) h (st_headerMMR t) = (Inr (), m)"
      "Chain_AddBlock (BlockHeader_GetHash h) (bh_height h) (candidate_chain t) = (Inr (BlockIndex_new (BlockHeader_GetHash h) (bh_height h)), c)"
      "headers_at (w_H w) (ls @ [header_leaf h]) (t\<lparr>st_headerMMR := m, st_blockDB := AddBlockHeader h (st_blockDB t),
         st_chainStore := (st_chainStore t)\<lparr>cs_candidate := c\<rparr>\<rparr>)" using headers_add [OF H at known height] by blast
  let ?t = "t\<lparr>st_blockDB := AddBlockHeader h (st_blockDB t), st_headerMMR := m, st_chainStore := (st_chainStore t)\<lparr>cs_candidate := c\<rparr>\<rparr>"
  have "headers_at (w_H w) (ls @ [header_leaf h]) ?t" using mc(3) by (auto simp: headers_at_def headers_open_def)
  moreover have "df_durable 32 (hm_hashFile m) = df_durable 32 (header_file t)"
    using AddHeader_nodes [of "w_H w" "st_headerMMR t" ls h] H at o mc(1) by (auto simp: headers_at_def headers_open_def)
  moreover have "process_next w h (w_H w (last ls)) t = (case ChainState_Commit w ?t of (r, u) \<Rightarrow> (map_sum id (\<lambda>_. SUCCESS) r, u))"
    using valid mc(1,2)
    by (simp add: process_next_def bind_action_def action_apply on_parts on_chain_def GetBlockHeaderByHash_def split: prod.split sum.split)
  ultimately show ?thesis using run by (intro exI [of _ m] exI [of _ c]) (simp split: prod.splits)
qed

lemma ProcessSingleHeader_accepts:
  fixes w s
  defines "t \<equiv> InnerWriter_new ChainState_OnInitWrite ChainState_SetDirty s"
  assumes H: "\<And>x. length (w_H w x) = 32" and w: "commits_succeed w" and ext: "extends_tip w ls h t"
    and none: "tm_txHashSet (st_txHashSetManager t) = None"
  shows "\<exists>s'. ProcessSingleHeader w h s = Some (Inr SUCCESS, s') \<and> chain_durable (candidate_chain s') = map (w_H w) ls @ [BlockHeader_GetHash h]"
proof -
  obtain m c where mc: "headers_at (w_H w) (ls @ [header_leaf h]) (t\<lparr>st_blockDB := AddBlockHeader h (st_blockDB t), st_headerMMR := m,
      st_chainStore := (st_chainStore t)\<lparr>cs_candidate := c\<rparr>\<rparr>)"
    and run: "ProcessSingleHeader w h s = (case ChainState_Commit w (t\<lparr>st_blockDB := AddBlockHeader h (st_blockDB t), st_headerMMR := m,
        st_chainStore := (st_chainStore t)\<lparr>cs_candidate := c\<rparr>\<rparr>) of
      (r, u) \<Rightarrow> (case end_batch u of (Inl e, s) \<Rightarrow> Some (Inl e, s) | (Inr _, s) \<Rightarrow> Some (map_sum id (\<lambda>_. SUCCESS) r, s)))"
    using extends_tip_run [of w ls h s] H ext unfolding t_def by blast
  let ?t = "t\<lparr>st_blockDB := AddBlockHeader h (st_blockDB t), st_headerMMR := m, st_chainStore := (st_chainStore t)\<lparr>cs_candidate := c\<rparr>\<rparr>"
  have "state_open ?t" using mc by (simp only: headers_at_def headers_open_iff)
  then have "fst (ChainState_Commit w ?t) = Inr ()" using committed_result [OF _ w] none by simp
  then obtain u where u: "ChainState_Commit w ?t = (Inr (), u)" by (metis prod.collapse)
  have known: "known_ok (w_H w) h" using ext by (simp add: extends_tip_def)
  have hc: "headers_open (w_H w) u" "chain_durable (candidate_chain u) = map (w_H w) ls @ [BlockHeader_GetHash h]"
    using headers_commit [OF mc w u] mc header_leaf_hash [OF known] by (simp_all add: headers_at_def)
  from batch_closed [OF hc(1)] obtain s' where "end_batch u = (Inr (), s')" "chain_durable (candidate_chain s') = chain_durable (candidate_chain u)"
    by blast
  then show ?thesis using run u hc(2) by simp
qed

text \<open>The chains are committed first. When the commit of the database fails after them, the candidate chain on disk names a header
  that neither the database nor the header MMR has.\<close>

lemma failed_commit:
  assumes o: "state_open s" "st_dirty s" and w: "w_chainFiles w = (True, True)" "\<not> w_dbCommits w"
  shows "\<exists>u. ChainState_Commit w s = (Inl DATABASE_EXCEPTION, u) \<and> state_open u \<and> store_durable (st_chainStore u) = store_hashes (st_chainStore s) \<and>
    header_file u = header_file s \<and> db_durable (st_blockDB u) = db_durable (st_blockDB s) \<and> same_rest s u"
proof -
  have ok: "store_ok (st_chainStore s)" "chain_ok (candidate_chain s)" "chain_ok (confirmed_chain s)"
    using o by (simp_all add: state_open_def store_ok_def)
  note c1 = chain_commit [OF ok(2)] and c2 = chain_commit [OF ok(3)] and st = store_commit [OF ok(1)]
  obtain cs where cs: "ChainStore_Commit True True (st_chainStore s) = (Inr (), cs)" using st by (metis prod.collapse)
  let ?u = "s\<lparr>st_chainStore := cs\<rparr>"
  have parts: "cs_candidate cs = snd (Chain_Commit True True (candidate_chain s))" "cs_confirmed cs = snd (Chain_Commit True True (confirmed_chain s))"
    "cs_dirty cs = cs_dirty (st_chainStore s)" using st cs by simp_all
  have "ChainState_Commit w s = (Inl DATABASE_EXCEPTION, ?u)"
    using cs w by (simp add: ChainState_Commit_def on_parts bind_action_def BlockDB_Commit_def RocksDB_Commit_def)
  moreover have "store_durable cs = store_hashes (st_chainStore s)" using parts c1 c2 by (simp add: store_durable_def store_hashes_def)
  moreover have "state_open ?u" using o parts c1 c2 by (simp add: state_open_def)
  ultimately show ?thesis by (intro exI [of _ ?u]) (simp add: same_rest_def)
qed

lemma same_disk_reads:
  assumes "db_durable db' = db_durable db" "db_headersCache db' = db_headersCache db"
    "\<not> IsTransactional (db_rocks db)" "\<not> IsTransactional (db_rocks db')"
  shows "GetBlockHeader H k db' = GetBlockHeader H k db"
  using assms by (simp add: GetBlockHeader_def RocksDB_Get_def rdb_view_idle db_durable_def cong: option.case_cong)

lemma AddBlockHeader_durable:
  "IsTransactional (db_rocks db) \<Longrightarrow> db_durable (AddBlockHeader h db) = db_durable db \<and> db_headersCache (AddBlockHeader h db) = db_headersCache db"
  by (simp add: AddBlockHeader_def Let_def db_durable_def)

lemma ProcessSingleHeader_commit_fails:
  fixes w s
  defines "t \<equiv> InnerWriter_new ChainState_OnInitWrite ChainState_SetDirty s"
  assumes H: "\<And>x. length (w_H w x) = 32" and idle: "state_idle s" and w: "w_chainFiles w = (True, True)" "\<not> w_dbCommits w"
    and ext: "extends_tip w ls h t"
  shows "\<exists>s'. ProcessSingleHeader w h s = Some (Inl DATABASE_EXCEPTION, s') \<and> state_idle s' \<and>
    chain_durable (candidate_chain s') = map (w_H w) ls @ [BlockHeader_GetHash h] \<and>
    df_durable 32 (header_file s') = df_durable 32 (header_file s) \<and>
    (\<forall>k. GetBlockHeader (w_H w) k (st_blockDB s') = GetBlockHeader (w_H w) k (st_blockDB s))"
proof -
  have t: "t = ChainState_OnInitWrite (ChainState_SetDirty True s)" by (simp add: t_def InnerWriter_new_def)
  note op = state_opened [OF idle, folded t]
  obtain m c where mc: "headers_at (w_H w) (ls @ [header_leaf h]) (t\<lparr>st_blockDB := AddBlockHeader h (st_blockDB t), st_headerMMR := m,
      st_chainStore := (st_chainStore t)\<lparr>cs_candidate := c\<rparr>\<rparr>)" "df_durable 32 (hm_hashFile m) = df_durable 32 (header_file t)"
    and run: "ProcessSingleHeader w h s = (case ChainState_Commit w (t\<lparr>st_blockDB := AddBlockHeader h (st_blockDB t), st_headerMMR := m,
        st_chainStore := (st_chainStore t)\<lparr>cs_candidate := c\<rparr>\<rparr>) of
      (r, u) \<Rightarrow> (case end_batch u of (Inl e, s) \<Rightarrow> Some (Inl e, s) | (Inr _, s) \<Rightarrow> Some (map_sum id (\<lambda>_. SUCCESS) r, s)))"
    using extends_tip_run [of w ls h s] H ext unfolding t_def by blast
  let ?t = "t\<lparr>st_blockDB := AddBlockHeader h (st_blockDB t), st_headerMMR := m, st_chainStore := (st_chainStore t)\<lparr>cs_candidate := c\<rparr>\<rparr>"
  have "state_open ?t" "st_dirty ?t" using mc(1) by (simp_all only: headers_at_def headers_open_iff)
  from failed_commit [OF this w] obtain u where u: "ChainState_Commit w ?t = (Inl DATABASE_EXCEPTION, u)" "state_open u"
    "store_durable (st_chainStore u) = store_hashes (st_chainStore ?t)" "header_file u = hm_hashFile m"
    "db_durable (st_blockDB u) = db_durable (AddBlockHeader h (st_blockDB t))" "same_rest ?t u" by auto
  from state_closed [OF u(2)] obtain s' where s': "end_batch u = (Inr (), s')" "state_idle s'" "state_disk s' = state_disk u" "same_rest u s'"
    by blast
  have trans: "IsTransactional (db_rocks (st_blockDB t))" using op(1) by (simp add: state_open_def)
  have "db_durable (st_blockDB s') = db_durable (st_blockDB s)" "db_headersCache (st_blockDB s') = db_headersCache (st_blockDB s)"
    using s'(3,4) u(5,6) AddBlockHeader_durable [OF trans] op(3,4) by (simp_all add: state_parts same_rest_def)
  moreover have "\<not> IsTransactional (db_rocks (st_blockDB s))" "\<not> IsTransactional (db_rocks (st_blockDB s'))"
    using idle s'(2) by (simp_all add: state_idle_def)
  ultimately have "GetBlockHeader (w_H w) k (st_blockDB s') = GetBlockHeader (w_H w) k (st_blockDB s)" for k by (rule same_disk_reads)
  moreover have "chain_durable (candidate_chain s') = map (w_H w) (ls @ [header_leaf h])"
    using s'(3) u(3) mc(1) by (simp add: state_parts store_durable_def store_hashes_def headers_at_def)
  moreover have "df_durable 32 (header_file s') = df_durable 32 (header_file s)" using s'(3) u(4) mc(2) op(3) by (simp add: state_parts)
  moreover have "w_H w (header_leaf h) = BlockHeader_GetHash h" using header_leaf_hash ext by (simp add: extends_tip_def)
  ultimately show ?thesis using run u(1) s' by simp
qed

text \<open>The states a node reaches by processing headers, one at a time or in bulk, whatever the clock, the libraries and the outcomes.\<close>

inductive header_run :: "hash_fn \<Rightarrow> chain_state \<Rightarrow> chain_state \<Rightarrow> bool" for H s0 where
  start: "header_run H s0 s0"
| single: "header_run H s0 s \<Longrightarrow> w_H w = H \<Longrightarrow> commits_succeed w \<Longrightarrow> known_ok H h \<Longrightarrow>
    ProcessSingleHeader w h s = Some (r, s') \<Longrightarrow> header_run H s0 s'"
| sync: "header_run H s0 s \<Longrightarrow> w_H w = H \<Longrightarrow> commits_succeed w \<Longrightarrow> \<forall>h\<in>set hs. known_ok H h \<Longrightarrow>
    ProcessSyncHeaders w hs s = Some (r, s') \<Longrightarrow> header_run H s0 s'"

lemma header_run_idle:
  assumes "\<And>x. length (H x) = 32" "headers_idle H s0" "header_run H s0 s"
  shows "headers_idle H s"
  using assms(3)
proof (induction rule: header_run.induct)
  case start
  show ?case by (rule assms(2))
next
  case (single s w h r s')
  then show ?case using ProcessSingleHeader_idle [of H, OF assms(1)] by blast
next
  case (sync s w hs r s')
  then show ?case using ProcessSyncHeaders_idle [of H, OF assms(1)] by blast
qed

section \<open>Headers that are their own parent\<close>

lemma opened_reads:
  assumes "state_idle s"
  shows "GetBlockHeader H k (st_blockDB (InnerWriter_new ChainState_OnInitWrite ChainState_SetDirty s)) = GetBlockHeader H k (st_blockDB s)"
    and "chain_ok (candidate_chain (InnerWriter_new ChainState_OnInitWrite ChainState_SetDirty s))"
    and "chain_hashes (candidate_chain (InnerWriter_new ChainState_OnInitWrite ChainState_SetDirty s)) = chain_hashes (candidate_chain s)"
    and "same_store s (InnerWriter_new ChainState_OnInitWrite ChainState_SetDirty s)"
proof -
  have "chain_idle (candidate_chain s)" "\<not> IsTransactional (db_rocks (st_blockDB s))"
    using assms by (simp_all add: state_idle_def store_idle_def)
  moreover note chain_init [OF this(1)]
  ultimately show "GetBlockHeader H k (st_blockDB (InnerWriter_new ChainState_OnInitWrite ChainState_SetDirty s)) = GetBlockHeader H k (st_blockDB s)"
    and "chain_ok (candidate_chain (InnerWriter_new ChainState_OnInitWrite ChainState_SetDirty s))"
    and "chain_hashes (candidate_chain (InnerWriter_new ChainState_OnInitWrite ChainState_SetDirty s)) = chain_hashes (candidate_chain s)"
    and "same_store s (InnerWriter_new ChainState_OnInitWrite ChainState_SetDirty s)"
    by (simp_all add: InnerWriter_new_def ChainState_OnInitWrite_def ChainState_SetDirty_def ChainStore_OnInitWrite_def ChainStore_SetDirty_def
        chain_idle_def GetBlockHeader_def RocksDB_Get_def BlockDB_OnInitWrite_def BlockDB_SetDirty_def RocksDB_OnInitWrite_def rdb_view_idle
        same_store_def db_durable_def cong: option.case_cong)
qed

lemma collect_ancestors_cycle:
  assumes "bh_previousBlockHash h = BlockHeader_GetHash h"
    and "Chain_IsOnChain (bh_height h) (BlockHeader_GetHash h) (candidate_chain s) = Inr False"
    and "map_of (op_orphanHeadersByHash (st_orphanPool s)) (BlockHeader_GetHash h) = Some h"
  shows "collect_ancestors H acc (Some h) s = None"
proof (rule ccontr)
  define P where "P = (\<lambda>(H :: hash_fn) (acc :: block_header list) temp s (y :: (block_header list \<times> block_header option) result \<times> chain_state).
    \<not> (temp = Some h \<and> Chain_IsOnChain (bh_height h) (BlockHeader_GetHash h) (candidate_chain s) = Inr False \<and>
       map_of (op_orphanHeadersByHash (st_orphanPool s)) (BlockHeader_GetHash h) = Some h))"
  assume "collect_ancestors H acc (Some h) s \<noteq> None"
  then obtain y where y: "collect_ancestors H acc (Some h) s = Some y" by blast
  have "P H acc (Some h) s y"
  proof (rule collect_ancestors.raw_induct [OF _ y])
    fix f H acc temp s y
    assume IH: "\<And>H acc temp s y. f H acc temp s = Some y \<Longrightarrow> P H acc temp s y"
      and body: "(case temp of None \<Rightarrow> Some (Inr (acc, None), s)
        | Some header \<Rightarrow> (case Chain_IsOnChain (bh_height header) (BlockHeader_GetHash header) (candidate_chain s) of
             Inl e \<Rightarrow> Some (Inl e, s)
           | Inr onChain \<Rightarrow>
               if onChain then Some (Inr (rev acc, Some header), s)
               else (case previous_header H header s of
                   (Inl e, s) \<Rightarrow> Some (Inl e, s)
                 | (Inr previous, s) \<Rightarrow> f H (acc @ [header]) previous s))) = Some y"
    show "P H acc temp s y"
      unfolding P_def
    proof (rule notI, elim conjE)
      assume st: "temp = Some h" "Chain_IsOnChain (bh_height h) (BlockHeader_GetHash h) (candidate_chain s) = Inr False"
        "map_of (op_orphanHeadersByHash (st_orphanPool s)) (BlockHeader_GetHash h) = Some h"
      let ?p = "(BlockHeader_GetHash h, h) # filter (\<lambda>(k', _). k' \<noteq> BlockHeader_GetHash h) (op_orphanHeadersByHash (st_orphanPool s))"
      let ?s = "s\<lparr>st_orphanPool := (st_orphanPool s)\<lparr>op_orphanHeadersByHash := ?p\<rparr>\<rparr>"
      have "previous_header H h s = (Inr (Some h), ?s)"
        using st(3) assms(1) by (simp add: previous_header_def bind_action_def on_parts action_apply GetOrphanHeader_def lru_Get_def)
      then have "f H (acc @ [h]) (Some h) ?s = Some y" using body st(1,2) by simp
      then show False using IH st(2) unfolding P_def by fastforce
    qed
  qed
  then show False using assms(2,3) by (simp add: P_def)
qed

end
