(* ===== verification/Header_Safety.thy ===== *)
theory Header_Safety
  imports Header_Chain
begin

text \<open>
  Properties of the header processor, with a node of the automated tests as their instance: its chains hold a genesis block, and a
  header for the next block arrives.
\<close>

section \<open>A new node\<close>

definition first_header :: block_header where
  "first_header = sample_header\<lparr>bh_height := 0\<rparr>"

definition later_pow :: proof_of_work where
  "later_pow = ProofOfWork_new sample_hash 29 (map of_nat [2..<44])"

definition second_header :: block_header where
  "second_header = sample_header\<lparr>bh_height := 1, bh_timestamp := 1060, bh_previousBlockHash := BlockHeader_GetHash first_header,
     bh_previousRoot := mmr_root sample_hash ((!) [header_leaf first_header]) 1, bh_proofOfWork := later_pow\<rparr>"

definition self_parent :: block_header where
  "self_parent = second_header\<lparr>bh_previousBlockHash := BlockHeader_GetHash second_header\<rparr>"

definition test_world :: "bool \<Rightarrow> node_world" where
  "test_world dbCommits = \<lparr>w_env = AUTOMATED_TESTING, w_H = sample_hash, w_secp = sample_secp, w_cuckoo = accepting_cuckoo, w_ticks = 1,
     w_now = 2000, w_tmp = [], w_chainFiles = (True, True), w_dbCommits = dbCommits, w_headerFiles = (True, True), w_hashSetFiles = (True, True)\<rparr>"

definition new_node :: chain_state where
  "new_node = \<lparr>st_dirty = False,
     st_chainStore = (case ChainStore_Load True True [] [] (BlockIndex_new (BlockHeader_GetHash first_header) 0) of Inr cs \<Rightarrow> cs),
     st_blockDB = AddBlockHeader first_header (BlockDB_OpenDB (\<lambda>_. Map.empty)),
     st_headerMMR = HeaderMMR_Load (concat (header_nodes sample_hash [header_leaf first_header])),
     st_txHashSetManager = \<lparr>tm_dirty = False, tm_txHashSet = None\<rparr>, st_orphanPool = OrphanPool_new, st_txPool = TransactionPool_new,
     st_cache = []\<rparr>"

lemma sample_nonces: "unat (of_nat n :: u64) < 2 ^ 29" if "n < 44" for n
  using that by (subst unat_of_nat_small) simp_all

lemma one_leaf_root: "mmr_root H ls 1 = node_hash H ls (nheight 0) 0"
proof -
  have "mountains 1 = [1]" by (simp add: mountains_def bit_nat_def upt_rec)
  then show ?thesis by (simp add: mmr_root_def)
qed

lemmas sample_node_length = length_node_hash [of sample_hash, OF sample_hash_laws(1)]

lemma samples_known: "known_ok sample_hash first_header" "known_ok sample_hash second_header" "known_ok sample_hash self_parent"
  using sample_header_ok [of V1] sample_nonces
  by (auto simp: known_ok_def header_ok_def first_header_def second_header_def self_parent_def sample_header_def later_pow_def sample_pow_def
      pow_hash_new pow_ok_def PROOFSIZE_def BlockHeader_GetHash_def sample_hash_laws one_leaf_root [unfolded One_nat_def] sample_node_length)

lemma sample_hash_bit:
  assumes "length xs = unat PROOFSIZE"
  shows "bit (sample_hash (cycle_bits 29 xs) ! 1) 0 \<longleftrightarrow> bit (xs ! 0) 0"
proof -
  have "cycle_bits 29 xs \<noteq> []"
    using length_cycle_bits [of xs 29] assms by (auto simp: cycle_bytes_len_def PROOFSIZE_def)
  moreover have "packed_bit (cycle_bits 29 xs) 0 \<longleftrightarrow> bit (xs ! 0) 0"
    using packed_cycle_bits [of xs 0 0 29] assms by (simp add: PROOFSIZE_def)
  ultimately show ?thesis by (simp add: sample_hash_def packed_bit_def nth_append)
qed

lemma sample_hashes_differ: "BlockHeader_GetHash second_header \<noteq> BlockHeader_GetHash first_header"
proof
  assume eq: "BlockHeader_GetHash second_header = BlockHeader_GetHash first_header"
  have "bit (BlockHeader_GetHash first_header ! 1) 0"
    using sample_hash_bit [of "map of_nat [1..<43]"]
    by (simp add: BlockHeader_GetHash_def first_header_def sample_header_def sample_pow_def pow_hash_new PROOFSIZE_def)
  moreover have "\<not> bit (BlockHeader_GetHash second_header ! 1) 0"
    using sample_hash_bit [of "map of_nat [2..<44]"]
    by (simp add: BlockHeader_GetHash_def second_header_def later_pow_def pow_hash_new PROOFSIZE_def)
  ultimately show False using eq by simp
qed

lemma new_node_chains: "store_idle (st_chainStore new_node)" "chain_hashes (candidate_chain new_node) = [BlockHeader_GetHash first_header]"
  "chain_hashes (confirmed_chain new_node) = [BlockHeader_GetHash first_header]"
proof -
  have "length (BlockHeader_GetHash first_header) = 32"
    using header_leaf_hash [OF samples_known(1)] sample_hash_laws(1) by metis
  from ChainStore_Load_correct [of "[]" "[]", OF _ _ _ _ this] show "store_idle (st_chainStore new_node)"
    "chain_hashes (candidate_chain new_node) = [BlockHeader_GetHash first_header]" "chain_hashes (confirmed_chain new_node) = [BlockHeader_GetHash first_header]"
    by (auto simp: new_node_def loaded_hashes_def store_hashes_def)
qed

lemma new_node_headers:
  "header_nodes sample_hash [header_leaf first_header] = [node_hash sample_hash ((!) [header_leaf first_header]) (nheight 0) 0]"
  "df_ok 32 (header_file new_node)" "df_working 32 (header_file new_node) = header_nodes sample_hash [header_leaf first_header]"
  "df_durable 32 (header_file new_node) = header_nodes sample_hash [header_leaf first_header]"
  "\<not> hm_batch (st_headerMMR new_node)"
proof -
  have "mmr_size (Suc 0) = 1" by code_simp
  then show one: "header_nodes sample_hash [header_leaf first_header] = [node_hash sample_hash ((!) [header_leaf first_header]) (nheight 0) 0]"
    by (simp add: header_nodes_def)
  have len: "length (node_hash sample_hash ((!) [header_leaf first_header]) (nheight 0) 0) = 32" by (rule sample_node_length)
  have f: "st_headerMMR new_node = \<lparr>hm_dirty = False, hm_batch = False,
      hm_hashFile = DataFile_Load (node_hash sample_hash ((!) [header_leaf first_header]) (nheight 0) 0)\<rparr>"
    unfolding new_node_def one HeaderMMR_Load_def by simp
  show "df_ok 32 (header_file new_node)" "df_working 32 (header_file new_node) = header_nodes sample_hash [header_leaf first_header]"
    "df_durable 32 (header_file new_node) = header_nodes sample_hash [header_leaf first_header]" "\<not> hm_batch (st_headerMMR new_node)"
    using df_load [of "node_hash sample_hash ((!) [header_leaf first_header]) (nheight 0) 0"]
    unfolding len blocks_one [OF len] f one by simp_all
qed

lemma new_node_db:
  "GetBlockHeader sample_hash k (st_blockDB new_node) = Inr (if k = BlockHeader_GetHash first_header then Some first_header else None)"
  "\<not> IsTransactional (db_rocks (st_blockDB new_node))" "db_known sample_hash (st_blockDB new_node)"
proof -
  have ok: "header_ok sample_hash V1 first_header" using samples_known(1) by (simp add: known_ok_def)
  have empty: "rdb_view (db_rocks (BlockDB_OpenDB (\<lambda>_. Map.empty))) HEADER = Map.empty" "\<not> IsTransactional (db_rocks (BlockDB_OpenDB (\<lambda>_. Map.empty)))"
    "db_headersCache (BlockDB_OpenDB (\<lambda>_. Map.empty)) = []" "db_uncommitted (BlockDB_OpenDB (\<lambda>_. Map.empty)) = []"
    by (simp_all add: BlockDB_OpenDB_def rdb_view_def RocksDB_DeleteAll_def rdb_update_def IsTransactional_def)
  show "GetBlockHeader sample_hash k (st_blockDB new_node) = Inr (if k = BlockHeader_GetHash first_header then Some first_header else None)"
    using empty by (simp add: new_node_def GetBlockHeader_def AddBlockHeader_def Let_def header_cache_Put_def RocksDB_Get_def)
  show "\<not> IsTransactional (db_rocks (st_blockDB new_node))" using empty by (simp add: new_node_def)
  have "\<not> stored_header sample_hash (rdb_view (db_rocks (BlockDB_OpenDB (\<lambda>_. Map.empty)))) k h" for k h
    using empty(1) by (simp add: stored_header_def)
  then show "db_known sample_hash (st_blockDB new_node)"
    using empty(2-4) samples_known(1) stored_header_put [of sample_hash first_header] ok
    by (auto simp: db_known_def new_node_def AddBlockHeader_def Let_def header_cache_Put_def db_working_def db_durable_def
        split: if_splits)
qed

lemma new_node_idle: "headers_idle sample_hash new_node"
proof -
  have "mmr_matches sample_hash (chain_hashes (candidate_chain new_node)) (df_working 32 (header_file new_node))"
    using new_node_chains(2) new_node_headers(3) header_leaf_hash [OF samples_known(1)]
    by (auto simp: mmr_matches_def intro!: exI [of _ "[header_leaf first_header]"])
  then show ?thesis
    using new_node_chains new_node_headers new_node_db(2,3)
    by (simp add: headers_idle_def pool_known_def new_node_def OrphanPool_new_def)
qed


lemma new_node_opened:
  "headers_at sample_hash [header_leaf first_header] (InnerWriter_new ChainState_OnInitWrite ChainState_SetDirty new_node)"
  "MMRHashUtil_Root sample_hash (header_file (InnerWriter_new ChainState_OnInitWrite ChainState_SetDirty new_node)) 1 None =
     Inr (bh_previousRoot second_header)"
proof -
  let ?s = "InnerWriter_new ChainState_OnInitWrite ChainState_SetDirty new_node"
  have eq: "?s = ChainState_OnInitWrite (ChainState_SetDirty True new_node)" by (simp add: InnerWriter_new_def)
  have idle: "state_idle new_node" using new_node_idle by (simp add: headers_idle_iff)
  have o: "headers_open sample_hash ?s" using batch_opened [OF new_node_idle] by (auto simp only: headers_at_def)
  have w: "df_working 32 (header_file ?s) = header_nodes sample_hash [header_leaf first_header]"
    using state_opened(2) [OF idle, folded eq] new_node_headers(4) by (simp add: state_parts)
  have "chain_hashes (candidate_chain ?s) = [BlockHeader_GetHash first_header]"
    using opened_reads(3) [OF headers_state_idle [OF new_node_idle]] new_node_chains(2) by simp
  then show "headers_at sample_hash [header_leaf first_header] ?s"
    using o w header_leaf_hash [OF samples_known(1)] by (simp add: headers_at_def)
  have "holds_nodes sample_hash ((!) [header_leaf first_header]) (mmr_size (Suc 0)) (header_file ?s)"
    using o w holds_header_nodes [of sample_hash "[header_leaf first_header]"] by (simp add: headers_open_def)
  moreover have "mmr_size (Suc 0) = 1" by code_simp
  ultimately show "MMRHashUtil_Root sample_hash (header_file ?s) 1 None = Inr (bh_previousRoot second_header)"
    using MMRHashUtil_Root_spec [of sample_hash "(!) [header_leaf first_header]" 1 "header_file ?s" "Suc 0", OF _ _ _ _ _ sample_hash_laws(2)]
    by (simp add: second_header_def)
qed

lemma second_header_extends:
  "extends_tip (test_world d) [header_leaf first_header] second_header (InnerWriter_new ChainState_OnInitWrite ChainState_SetDirty new_node)"
proof -
  let ?s = "InnerWriter_new ChainState_OnInitWrite ChainState_SetDirty new_node"
  have "GetNumNodes (GetPMMRIndex 0) = 1" by code_simp
  then have "valid_header (test_world d) second_header first_header ?s = Inr True"
    using new_node_opened(2)
    by (simp add: valid_header_def IsValidHeader_def test_world_def first_header_def second_header_def sample_header_def GetMaxBlockTime_def
        GetHeaderVersion_def PoWManager_IsPoWValid_def HeaderMMR_Root_def consensus_consts BigInteger_eq_def)
  moreover have "sample_hash (header_leaf first_header) = BlockHeader_GetHash first_header" by (rule header_leaf_hash [OF samples_known(1)])
  moreover have "GetBlockHeader sample_hash k (st_blockDB ?s) = Inr (if k = BlockHeader_GetHash first_header then Some first_header else None)" for k
    using opened_reads(1) [OF headers_state_idle [OF new_node_idle]] new_node_db(1) by simp
  moreover have "bh_previousBlockHash second_header = BlockHeader_GetHash first_header" "unat (bh_height second_header) = 1"
    "w_H (test_world d) = sample_hash" by (simp_all add: second_header_def test_world_def)
  ultimately show ?thesis using new_node_opened(1) samples_known(2) sample_hashes_differ by (simp add: extends_tip_def)
qed

lemma second_header_accepted:
  "\<exists>s'. ProcessSingleHeader (test_world True) second_header new_node = Some (Inr SUCCESS, s') \<and>
     chain_durable (candidate_chain s') = [BlockHeader_GetHash first_header, BlockHeader_GetHash second_header]"
proof -
  have w: "w_H (test_world True) = sample_hash" "commits_succeed (test_world True)" by (simp_all add: test_world_def commits_succeed_def)
  have "tm_txHashSet (st_txHashSetManager (InnerWriter_new ChainState_OnInitWrite ChainState_SetDirty new_node)) = None"
    by (simp add: InnerWriter_new_def ChainState_OnInitWrite_def ChainState_SetDirty_def TxHashSetManager_SetDirty_def new_node_def)
  from ProcessSingleHeader_accepts [OF _ w(2) second_header_extends this] show ?thesis
    using w(1) header_leaf_hash [OF samples_known(1)] by (simp add: sample_hash_laws)
qed

section \<open>Properties\<close>

text \<open>C6. The header MMR always matches the candidate chain. Whatever sequence of single headers and of lists of headers a
  node processes, accepted, orphaned or rejected with an exception: afterwards no batch is open, and the header MMR on disk is the
  Merkle mountain range over leaves whose hashes are, in order, the block hashes of the candidate chain on disk. (The
  commits to disk succeed, and headers are well formed with heights below \<open>2 ^ 53\<close>.)\<close>

theorem header_mmr_matches_candidate:
  assumes "\<And>x. length (H x) = 32" "headers_idle H s0" "header_run H s0 s"
  shows "\<exists>ls. map H ls = chain_durable (candidate_chain s) \<and> df_durable 32 (header_file s) = header_nodes H ls \<and>
    chain_hashes (candidate_chain s) = chain_durable (candidate_chain s) \<and>
    df_working 32 (header_file s) = df_durable 32 (header_file s)"
  using header_run_idle [OF assms] by (auto simp: headers_idle_def mmr_matches_def store_idle_def chain_idle_def)

theorem header_mmr_matches_candidate_witness:
  "\<exists>s ls. ProcessSingleHeader (test_world True) second_header new_node = Some (Inr SUCCESS, s) \<and>
     map sample_hash ls = [BlockHeader_GetHash first_header, BlockHeader_GetHash second_header] \<and>
     df_durable 32 (header_file s) = header_nodes sample_hash ls"
proof -
  obtain s where s: "ProcessSingleHeader (test_world True) second_header new_node = Some (Inr SUCCESS, s)"
    "chain_durable (candidate_chain s) = [BlockHeader_GetHash first_header, BlockHeader_GetHash second_header]"
    using second_header_accepted by blast
  have "header_run sample_hash new_node s"
    by (rule header_run.single [OF header_run.start _ _ samples_known(2) s(1)]) (simp_all add: test_world_def commits_succeed_def)
  from header_mmr_matches_candidate [of sample_hash, OF sample_hash_laws(1) new_node_idle this] s show ?thesis by metis
qed

text \<open>C31. A header whose previous hash is its own hash stops the node. The hash of a header covers its proof of work only, so such
  a header can be made without any work, and it is not validated before it is kept as an orphan. When it arrives for the first time it is
  orphaned; when it arrives again the search for its ancestors never ends.\<close>

theorem self_parent_header_never_returns:
  assumes H: "\<And>x. length (w_H w x) = 32" and idle: "headers_idle (w_H w) s" and h: "known_ok (w_H w) h"
    "bh_previousBlockHash h = BlockHeader_GetHash h" "BlockHeader_GetHash h \<notin> set (chain_hashes (candidate_chain s))"
    and new: "GetBlockHeader (w_H w) (BlockHeader_GetHash h) (st_blockDB s) = Inr None"
      "map_of (op_orphanHeadersByHash (st_orphanPool s)) (BlockHeader_GetHash h) = None"
    and tip: "GetBlockHeader (w_H w) (last (chain_hashes (candidate_chain s))) (st_blockDB s) = Inr (Some tip)"
  shows "\<exists>s'. ProcessSingleHeader w h s = Some (Inr ORPHANED, s') \<and> ProcessSingleHeader w h s' = None"
proof -
  let ?open = "InnerWriter_new ChainState_OnInitWrite ChainState_SetDirty"
  let ?s = "?open s" and ?k = "BlockHeader_GetHash h"
  note rd = opened_reads [OF headers_state_idle [OF idle]]
  have chain: "Chain_GetTipHash (candidate_chain ?s) = Inr (last (chain_hashes (candidate_chain s)))"
    "Chain_IsOnChain (bh_height h) ?k (candidate_chain ?s) = Inr False"
    using chain_get(4,5) [OF rd(2)] rd(3) h(3) by (auto simp: in_set_conv_nth)
  have "chain_hashes (candidate_chain s) \<noteq> []" using chain_nonempty [OF rd(2)] rd(3) by simp
  then have tipneq: "last (chain_hashes (candidate_chain s)) \<noteq> ?k" using h(3) last_in_set by metis
  have td: "GetTotalDifficulty (w_H w) CANDIDATE ?s = Inr (bh_totalDifficulty tip)"
    using tip rd(1) chain(1) by (simp add: GetTotalDifficulty_def GetTipBlockHeader_def GetChain_def bind_result_def)
  have "previous_header (w_H w) h ?s = (Inr None, ?s)"
    using new rd(1,4) h(2)
    by (simp add: previous_header_def bind_action_def on_parts action_apply GetOrphanHeader_def lru_Get_def same_store_def GetBlockHeaderByHash_def)
  then have col: "collect_ancestors (w_H w) [] (Some h) ?s = Some (Inr ([h], None), ?s)"
    using chain(2) by (simp add: collect_ancestors.simps)
  let ?t = "?s\<lparr>st_orphanPool := AddOrphanHeader h (st_orphanPool ?s)\<rparr>"
  have first: "ProcessSingleHeader w h s = (case end_batch ?t of (Inl e, s) \<Rightarrow> Some (Inl e, s) | (Inr _, s) \<Rightarrow> Some (Inr ORPHANED, s))"
    using new(1) rd(1) chain(1) tipneq h(2) td col
    by (simp add: ProcessSingleHeader_def BatchWrite_def bind_process_def run_action_def action_apply GetBlockHeaderByHash_def ProcessOrphan_def bind_action_def on_parts)
  have "headers_open (w_H w) ?s" using batch_opened [OF idle] by (auto simp only: headers_at_def)
  then have "headers_open (w_H w) ?t" using h(1) pool_known_add by (simp add: headers_open_def)
  from batch_closed [OF this] obtain s' where s': "end_batch ?t = (Inr (), s')" "headers_idle (w_H w) s'"
    "chain_durable (candidate_chain s') = chain_durable (candidate_chain ?t)" "same_store ?t s'" by blast
  note rd' = opened_reads [OF headers_state_idle [OF s'(2)]]
  let ?s' = "?open s'"
  have hs: "chain_hashes (candidate_chain s') = chain_hashes (candidate_chain s)"
    using s'(2,3) idle chain_init(3) [of "candidate_chain s"]
    by (simp add: headers_idle_def store_idle_def chain_idle_def InnerWriter_new_def ChainState_OnInitWrite_def ChainState_SetDirty_def
        ChainStore_OnInitWrite_def ChainStore_SetDirty_def)
  have db: "GetBlockHeader (w_H w) k (st_blockDB s') = GetBlockHeader (w_H w) k (st_blockDB s)" for k
    using same_disk_reads [of "st_blockDB s'" "st_blockDB s"] s'(2,4) idle rd(4) by (simp add: same_store_def headers_idle_def)
  have pool: "st_orphanPool ?s' = AddOrphanHeader h (st_orphanPool s)" using s'(4) rd(4) rd'(4) by (simp add: same_store_def)
  have chain': "Chain_GetTipHash (candidate_chain ?s') = Inr (last (chain_hashes (candidate_chain s)))"
    "Chain_IsOnChain (bh_height h) ?k (candidate_chain ?s') = Inr False"
    using chain_get(4,5) [OF rd'(2)] rd'(3) hs h(3) by (auto simp: in_set_conv_nth)
  have "map_of (op_orphanHeadersByHash (st_orphanPool ?s')) ?k = Some h" using pool by (simp add: AddOrphanHeader_def lru_Put_def)
  then have "collect_ancestors (w_H w) [] (Some h) ?s' = None" using collect_ancestors_cycle [OF h(2) chain'(2)] by blast
  moreover have "GetTotalDifficulty (w_H w) CANDIDATE ?s' = Inr (bh_totalDifficulty tip)"
    using tip rd'(1) db chain'(1) by (simp add: GetTotalDifficulty_def GetTipBlockHeader_def GetChain_def bind_result_def)
  ultimately have "ProcessSingleHeader w h s' = None"
    using new(1) rd'(1) db chain'(1) tipneq h(2)
    by (simp add: ProcessSingleHeader_def BatchWrite_def bind_process_def run_action_def action_apply GetBlockHeaderByHash_def ProcessOrphan_def)
  then show ?thesis using first s'(1) by simp
qed

theorem self_parent_header_never_returns_witness:
  "\<exists>s. ProcessSingleHeader (test_world True) self_parent new_node = Some (Inr ORPHANED, s) \<and> ProcessSingleHeader (test_world True) self_parent s = None"
proof (rule self_parent_header_never_returns)
  have H: "w_H (test_world True) = sample_hash" by (simp add: test_world_def)
  have hash: "BlockHeader_GetHash self_parent = BlockHeader_GetHash second_header" by (simp add: self_parent_def BlockHeader_GetHash_def)
  show "length (w_H (test_world True) x) = 32" for x by (simp add: H sample_hash_laws)
  show "headers_idle (w_H (test_world True)) new_node" "known_ok (w_H (test_world True)) self_parent" by (simp_all add: H new_node_idle samples_known)
  show "bh_previousBlockHash self_parent = BlockHeader_GetHash self_parent" by (simp add: hash) (simp add: self_parent_def)
  show "BlockHeader_GetHash self_parent \<notin> set (chain_hashes (candidate_chain new_node))"
    using sample_hashes_differ by (simp add: new_node_chains hash)
  show "GetBlockHeader (w_H (test_world True)) (BlockHeader_GetHash self_parent) (st_blockDB new_node) = Inr None"
    using sample_hashes_differ by (simp add: H hash new_node_db)
  show "map_of (op_orphanHeadersByHash (st_orphanPool new_node)) (BlockHeader_GetHash self_parent) = None"
    by (simp add: new_node_def OrphanPool_new_def)
  show "GetBlockHeader (w_H (test_world True)) (last (chain_hashes (candidate_chain new_node))) (st_blockDB new_node) = Inr (Some first_header)"
    by (simp add: H new_node_chains new_node_db)
qed

text \<open>C32. A commit that fails half way is not undone. When a valid header extends the candidate chain and the database fails to
  commit, the caller sees the exception of the database, but the candidate chain on disk already ends with the new header, which
  neither the database nor the header MMR has. From then on the header is on the chain without being stored:
  processing it again reaches undefined behaviour (the first element of an empty list of headers).\<close>

theorem failed_commit_leaves_chain_ahead:
  assumes "\<And>x. length (w_H w x) = 32" "state_idle s" "w_chainFiles w = (True, True)" "\<not> w_dbCommits w"
    and "extends_tip w ls h (InnerWriter_new ChainState_OnInitWrite ChainState_SetDirty s)"
  shows "\<exists>s'. ProcessSingleHeader w h s = Some (Inl DATABASE_EXCEPTION, s') \<and>
    chain_durable (candidate_chain s') = map (w_H w) ls @ [BlockHeader_GetHash h] \<and>
    GetBlockHeader (w_H w) (BlockHeader_GetHash h) (st_blockDB s') = Inr None \<and>
    df_durable 32 (header_file s') = header_nodes (w_H w) ls \<and>
    (\<exists>s''. ProcessSingleHeader w h s' = Some (Inl UNDEFINED_BEHAVIOUR, s''))"
proof -
  let ?open = "InnerWriter_new ChainState_OnInitWrite ChainState_SetDirty"
  let ?k = "BlockHeader_GetHash h"
  obtain s' where s': "ProcessSingleHeader w h s = Some (Inl DATABASE_EXCEPTION, s')" "state_idle s'"
    "chain_durable (candidate_chain s') = map (w_H w) ls @ [?k]" "df_durable 32 (header_file s') = df_durable 32 (header_file s)"
    "GetBlockHeader (w_H w) k (st_blockDB s') = GetBlockHeader (w_H w) k (st_blockDB s)" for k
    using ProcessSingleHeader_commit_fails [OF assms] by blast
  have eq: "?open s = ChainState_OnInitWrite (ChainState_SetDirty True s)" for s by (simp add: InnerWriter_new_def)
  have ext: "GetBlockHeader (w_H w) ?k (st_blockDB s) = Inr None" "bh_previousBlockHash h = w_H w (last ls)"
    "\<exists>previous. GetBlockHeader (w_H w) (w_H w (last ls)) (st_blockDB s) = Inr (Some previous)" "unat (bh_height h) = length ls"
    "df_working 32 (header_file (?open s)) = header_nodes (w_H w) ls"
    using assms(5) opened_reads(1) [OF assms(2)] by (auto simp: extends_tip_def headers_at_def)
  have nodes: "df_durable 32 (header_file s) = header_nodes (w_H w) ls"
    using ext(5) state_opened(2) [OF assms(2)] by (simp add: eq state_parts)
  note rd = opened_reads [OF s'(2)]
  have read: "GetBlockHeader (w_H w) ?k (st_blockDB (?open s')) = Inr None" using rd(1) s'(5) ext(1) by simp
  have hashes: "chain_hashes (candidate_chain (?open s')) = map (w_H w) ls @ [?k]"
    using rd(3) s'(2,3) by (simp add: state_idle_def store_idle_def chain_idle_def)
  have chain: "Chain_GetTipHash (candidate_chain (?open s')) = Inr ?k"
    "Chain_IsOnChain (bh_height h) ?k (candidate_chain (?open s')) = Inr True"
    using chain_get(4,5) [OF rd(2)] hashes ext(4) by (simp_all add: nth_append)
  have neq: "bh_previousBlockHash h \<noteq> ?k" using ext(1-3) by auto
  obtain u where u: "end_batch (?open s') = (Inr (), u)"
    using state_closed [of "?open s'"] state_opened(1) [OF s'(2)] by (auto simp: eq)
  have "GetTotalDifficulty (w_H w) CANDIDATE (?open s') = Inr 0"
    using read chain(1) by (simp add: GetTotalDifficulty_def GetTipBlockHeader_def GetChain_def bind_result_def)
  moreover have "collect_ancestors (w_H w) [] (Some h) (?open s') = Some (Inr ([], Some h), ?open s')"
    using chain(2) by (simp add: collect_ancestors.simps)
  ultimately have "ProcessSingleHeader w h s' = Some (Inl UNDEFINED_BEHAVIOUR, u)"
    using read chain(1) neq u
    by (simp add: ProcessSingleHeader_def BatchWrite_def bind_process_def run_action_def action_apply GetBlockHeaderByHash_def ProcessOrphan_def apply_headers_def)
  then show ?thesis using s' nodes ext(1) by auto
qed

theorem failed_commit_leaves_chain_ahead_witness:
  "\<exists>s. ProcessSingleHeader (test_world False) second_header new_node = Some (Inl DATABASE_EXCEPTION, s) \<and>
     chain_durable (candidate_chain s) = [BlockHeader_GetHash first_header, BlockHeader_GetHash second_header] \<and>
     GetBlockHeader sample_hash (BlockHeader_GetHash second_header) (st_blockDB s) = Inr None"
proof -
  have w: "w_H (test_world False) = sample_hash" "w_chainFiles (test_world False) = (True, True)" "\<not> w_dbCommits (test_world False)"
    by (simp_all add: test_world_def)
  from failed_commit_leaves_chain_ahead [OF _ headers_state_idle [OF new_node_idle] w(2,3) second_header_extends] show ?thesis
    using header_leaf_hash [OF samples_known(1)] by (auto simp: w(1) sample_hash_laws)
qed

end
