(* ===== verification/Block_Processor.thy ===== *)
theory Block_Processor
  imports Header_Processor
begin

text \<open>
  Processing of blocks: \<^verbatim>\<open>BlockProcessor\<close>, \<^verbatim>\<open>TxHashSetProcessor\<close>
  (\<^verbatim>\<open>src/BlockChain/Processors\<close>), \<^verbatim>\<open>ChainResyncer\<close>, the hydration of compact blocks
  (\<^verbatim>\<open>BlockHydrator\<close>, \<^verbatim>\<open>CompactBlockFactory\<close>) and \<^verbatim>\<open>BlockChainServer\<close>
  (\<^verbatim>\<open>src/BlockChain\<close>).
\<close>

abbreviation on_confirmed :: "(chain, 'a) action \<Rightarrow> (chain_state, 'a) action" where
  "on_confirmed m \<equiv> on_chainStore (on_chain CONFIRMED m)"

abbreviation the_hash_set :: "chain_state \<Rightarrow> tx_hash_set option" where
  "the_hash_set s \<equiv> tm_txHashSet (st_txHashSetManager s)"

section \<open>Compact blocks\<close>

fun insert_new :: "('a \<Rightarrow> big_integer) \<Rightarrow> 'a list \<Rightarrow> 'a list \<Rightarrow> 'a list" where
  "insert_new GetHash [] collected = collected"
| "insert_new GetHash (x # xs) collected =
     insert_new GetHash xs (if GetHash x \<in> GetHash ` set collected then collected else collected @ [x])"

definition hydrate :: "compact_block \<Rightarrow> transaction list \<Rightarrow> full_block" where
  "hydrate compactBlock transactions =
     (let inputs = fold (\<lambda>tx. insert_new ti_hash (tb_inputs (tx_body tx))) transactions [];
          outputs = fold (\<lambda>tx. insert_new to_hash (tb_outputs (tx_body tx))) transactions [];
          kernels = fold (\<lambda>tx. insert_new tk_hash (tb_kernels (tx_body tx))) transactions [];
          outputs = insert_new to_hash (cb_outputs compactBlock) outputs;
          kernels = insert_new tk_hash (cb_kernels compactBlock) kernels;
          (inputs, outputs) = PerformCutThrough inputs outputs
      in FullBlock_new (cb_header compactBlock)
           \<lparr>tb_inputs = sort_by_hash ti_hash inputs, tb_outputs = sort_by_hash to_hash outputs,
            tb_kernels = sort_by_hash tk_hash kernels\<rparr>)"

definition Hydrate :: "hash_fn \<Rightarrow> compact_block \<Rightarrow> transaction_pool \<Rightarrow> full_block option result" where
  "Hydrate H compactBlock p =
     (let shortIds = cb_shortIds compactBlock
      in if shortIds = [] then Inr (Some (hydrate compactBlock []))
         else bind_result (GetTransactionsByShortId H (BlockHeader_GetHash (cb_header compactBlock)) (cb_nonce compactBlock) (set shortIds) p)
           (\<lambda>transactions.
             Inr (if length transactions = length shortIds then Some (hydrate compactBlock (map ptr_tx transactions)) else None)))"

definition CreateCompactBlock :: "hash_fn \<Rightarrow> u64 \<Rightarrow> full_block \<Rightarrow> compact_block result" where
  "CreateCompactBlock H nonce b =
     (let outputs = filter TransactionOutput_IsCoinbase (tb_outputs (fb_body b));
          kernels = filter TransactionKernel_IsCoinbase (tb_kernels (fb_body b))
      in bind_result (map_result (\<lambda>k. ShortId_Create H (tk_hash k) (FullBlock_GetHash b) nonce)
             (filter (\<lambda>k. \<not> TransactionKernel_IsCoinbase k) (tb_kernels (fb_body b)))) (\<lambda>shortIds.
           Inr \<lparr>cb_header = fb_header b, cb_nonce = nonce, cb_outputs = sort_by_hash to_hash outputs,
                cb_kernels = sort_by_hash tk_hash kernels, cb_shortIds = sort_by_hash (ShortId_GetHash H) shortIds\<rparr>))"

section \<open>BlockProcessor\<close>

datatype EBlockStatus = NEXT_BLOCK | REORG | ORPHAN

record block_processing_info =
  bpi_status :: EBlockStatus
  bpi_reorgBlocks :: "full_block list"

text \<open>The walk from a block to its last ancestor on the confirmed chain; \<open>None\<close> inside the result when an ancestor is missing.\<close>

partial_function (option) fork_blocks ::
  "hash_fn \<Rightarrow> full_block \<Rightarrow> full_block list \<Rightarrow> chain_state \<Rightarrow> (full_block list option result) option" where
  "fork_blocks H forkBlock reorgBlocks s =
     (case Chain_IsOnChain (FullBlock_GetHeight forkBlock - 1) (bh_previousBlockHash (fb_header forkBlock)) (confirmed_chain s) of
        Inl e \<Rightarrow> Some (Inl e)
      | Inr onChain \<Rightarrow>
          if onChain then Some (Inr (Some (rev reorgBlocks)))
          else
            let previousHash = bh_previousBlockHash (fb_header forkBlock)
            in (case GetOrphanBlock (FullBlock_GetHeight forkBlock - 1) previousHash (st_orphanPool s) of
                  Some b \<Rightarrow> fork_blocks H b (reorgBlocks @ [b]) s
                | None \<Rightarrow>
                    (case GetBlock H previousHash (st_blockDB s) of
                       Inl e \<Rightarrow> Some (Inl e)
                     | Inr None \<Rightarrow> Some (Inr None)
                     | Inr (Some b) \<Rightarrow> fork_blocks H b (reorgBlocks @ [b]) s)))"

definition DetermineBlockStatus :: "hash_fn \<Rightarrow> full_block \<Rightarrow> (chain_state, block_processing_info) process" where
  "DetermineBlockStatus H b =
     bind_process (run_action (read_action (GetBlockHeaderByHash H (FullBlock_GetHash b)))) (\<lambda>storeHeader.
       if storeHeader = None then run_action (return_action \<lparr>bpi_status = ORPHAN, bpi_reorgBlocks = []\<rparr>)
       else bind_process (run_action (read_action (\<lambda>s. Chain_GetTipHash (confirmed_chain s)))) (\<lambda>tipHash.
         if tipHash = bh_previousBlockHash (fb_header b) then run_action (return_action \<lparr>bpi_status = NEXT_BLOCK, bpi_reorgBlocks = []\<rparr>)
         else bind_process (\<lambda>s. map_option (\<lambda>r. (r, s)) (fork_blocks H b [b] s)) (\<lambda>reorgBlocks.
           run_action (return_action (case reorgBlocks of
               None \<Rightarrow> \<lparr>bpi_status = ORPHAN, bpi_reorgBlocks = []\<rparr>
             | Some bs \<Rightarrow> \<lparr>bpi_status = REORG, bpi_reorgBlocks = bs\<rparr>)))))"

text \<open>An operation on the open hash set and the database.\<close>

definition on_hashSet :: "(tx_hash_set \<times> block_db, 'a) process \<Rightarrow> (chain_state, 'a) process" where
  "on_hashSet m s = (case the_hash_set s of
      None \<Rightarrow> Some (Inl UNDEFINED_BEHAVIOUR, s)
    | Some t \<Rightarrow> (case m (t, st_blockDB s) of
          None \<Rightarrow> None
        | Some (r, t, db) \<Rightarrow>
            Some (r, s\<lparr>st_txHashSetManager := (st_txHashSetManager s)\<lparr>tm_txHashSet := Some t\<rparr>, st_blockDB := db\<rparr>)))"

definition on_hashSet_action :: "'a ths_action \<Rightarrow> (chain_state, 'a) action" where
  "on_hashSet_action m s = (case the_hash_set s of
      None \<Rightarrow> (Inl UNDEFINED_BEHAVIOUR, s)
    | Some t \<Rightarrow> (case m (t, st_blockDB s) of
          (r, t, db) \<Rightarrow> (r, s\<lparr>st_txHashSetManager := (st_txHashSetManager s)\<lparr>tm_txHashSet := Some t\<rparr>, st_blockDB := db\<rparr>)))"

text \<open>The validator reads positions and sums from the database; a record that does not deserialize counts as absent.\<close>

definition validate_block :: "node_world \<Rightarrow> full_block \<Rightarrow> (chain_state, block_sums \<times> full_block) action" where
  "validate_block w b =
     bind_action (get_action (\<lambda>s. s)) (\<lambda>s. on_proofsCache (
       ContextualBlockValidator_ValidateBlock (w_env w) (w_H w) (w_secp w)
         (\<lambda>c. case GetOutputPosition c (st_blockDB s) of Inl _ \<Rightarrow> None | Inr location \<Rightarrow> location)
         (\<lambda>hash. case GetBlockSums hash (st_blockDB s) of Inl _ \<Rightarrow> None | Inr sums \<Rightarrow> sums)
         (\<lambda>header. case the_hash_set s of None \<Rightarrow> Inl UNDEFINED_BEHAVIOUR | Some t \<Rightarrow> TxHashSet_ValidateRoots (w_H w) (w_tmp w) header t)
         b))"

definition ValidateAndAddBlock :: "node_world \<Rightarrow> full_block \<Rightarrow> (chain_state, unit) action" where
  "ValidateAndAddBlock w b =
     bind_action (read_action (GetBlockHeaderByHash (w_H w) (bh_previousBlockHash (fb_header b)))) (\<lambda>previousHeader.
       if previousHeader = None then throw_action BLOCK_CHAIN_EXCEPTION
       else bind_action (get_action the_hash_set) (\<lambda>hashSet.
         bind_action (if hashSet = None then return_action False else on_hashSet_action (ApplyBlock (w_H w) b)) (\<lambda>applied.
         if \<not> applied then throw_action BAD_DATA_EXCEPTION
         else bind_action (validate_block w b) (\<lambda>(blockSums, b).
           bind_action (on_blockDB (modify_action (RemoveOutputPositions (FullBlock_GetInputCommitments b)))) (\<lambda>_.
           bind_action (on_blockDB (modify_action (AddBlockSums (FullBlock_GetHash b) blockSums))) (\<lambda>_.
           bind_action (on_blockDB (modify_action (BlockDB_AddBlock b))) (\<lambda>_.
           bind_action (on_orphanPool (modify_action (RemoveOrphan (FullBlock_GetHeight b) (FullBlock_GetHash b)))) (\<lambda>_.
           bind_action (get_action (\<lambda>s. (st_blockDB s, the_hash_set s))) (\<lambda>(db, hashSet).
             on_txPool (ReconcileBlock (w_env w) (w_H w) (w_secp w) db hashSet b))))))))))"

definition add_to_chain :: "full_block \<Rightarrow> (chain_state, unit) action" where
  "add_to_chain b = bind_action (on_confirmed (Chain_AddBlock (FullBlock_GetHash b) (FullBlock_GetHeight b))) (\<lambda>_. return_action ())"

definition HandleReorg :: "node_world \<Rightarrow> full_block list \<Rightarrow> (chain_state, unit) process" where
  "HandleReorg w reorgBlocks = (case reorgBlocks of
      [] \<Rightarrow> run_action (throw_action UNDEFINED_BEHAVIOUR)
    | first # _ \<Rightarrow>
        bind_process (run_action (read_action (GetTotalDifficulty (w_H w) CONFIRMED))) (\<lambda>totalDifficulty.
        bind_process (run_action (get_action the_hash_set)) (\<lambda>hashSet.
          if hashSet = None then run_action (throw_action BLOCK_CHAIN_EXCEPTION)
          else bind_process (run_action (read_action (GetBlockHeaderByHash (w_H w) (bh_previousBlockHash (fb_header first))))) (\<lambda>commonHeader.
            case commonHeader of
              None \<Rightarrow> run_action (throw_action BLOCK_CHAIN_EXCEPTION)
            | Some commonHeader \<Rightarrow>
                bind_process (on_hashSet (TxHashSet_Rewind (w_H w) commonHeader)) (\<lambda>_.
                run_action (
                bind_action (for_action (ValidateAndAddBlock w) reorgBlocks) (\<lambda>_.
                  if bh_totalDifficulty (fb_header (last reorgBlocks)) > totalDifficulty then
                    bind_action (on_confirmed (Chain_Rewind (FullBlock_GetHeight first - 1))) (\<lambda>_.
                    bind_action (for_action add_to_chain reorgBlocks) (\<lambda>_. ChainState_Commit w))
                  else
                    bind_action ChainState_Rollback (\<lambda>_.
                    bind_action (for_action (\<lambda>b. on_blockDB (modify_action (BlockDB_AddBlock b))) reorgBlocks) (\<lambda>_.
                      on_blockDB (BlockDB_Commit (w_dbCommits w)))))))))))"

text \<open>A block that is not known yet.\<close>

definition process_new_block :: "node_world \<Rightarrow> full_block \<Rightarrow> (chain_state, EBlockChainStatus) process" where
  "process_new_block w b =
     bind_process (DetermineBlockStatus (w_H w) b) (\<lambda>info. case bpi_status info of
         ORPHAN \<Rightarrow> run_action (
           bind_action (get_action (\<lambda>s. IsOrphan (FullBlock_GetHeight b) (FullBlock_GetHash b) (st_orphanPool s))) (\<lambda>orphan.
             if orphan then return_action ALREADY_EXISTS
             else bind_action (on_orphanPool (modify_action (AddOrphanBlock b))) (\<lambda>_. return_action ORPHANED)))
       | REORG \<Rightarrow> bind_process (HandleReorg w (bpi_reorgBlocks info)) (\<lambda>_. run_action (return_action SUCCESS))
       | NEXT_BLOCK \<Rightarrow> run_action (
           bind_action (ValidateAndAddBlock w b) (\<lambda>_.
           bind_action (add_to_chain b) (\<lambda>_.
           bind_action (ChainState_Commit w) (\<lambda>_. return_action SUCCESS)))))"

definition ProcessBlockInternal :: "node_world \<Rightarrow> full_block \<Rightarrow> (chain_state, EBlockChainStatus) process" where
  "ProcessBlockInternal w b = BatchWrite (
     bind_process (run_action (read_action (\<lambda>s. Chain_IsOnChain (FullBlock_GetHeight b) (FullBlock_GetHash b) (confirmed_chain s)))) (\<lambda>onChain.
     if onChain then run_action (return_action ALREADY_EXISTS)
     else bind_process (run_action (read_action (GetBlockByHash (w_H w) (FullBlock_GetHash b)))) (\<lambda>processed.
       if processed \<noteq> None then run_action (return_action ALREADY_EXISTS)
       else process_new_block w b)))"

definition ProcessBlock :: "node_world \<Rightarrow> full_block \<Rightarrow> (chain_state, EBlockChainStatus) process" where
  "ProcessBlock w b =
     bind_process (run_action (read_action (ChainState_GetHeight CANDIDATE))) (\<lambda>candidateHeight.
       if FullBlock_GetHeight b \<le> GetHorizonHeight candidateHeight then run_action (throw_action BAD_DATA_EXCEPTION)
       else bind_process (ProcessSingleHeader w (fb_header b)) (\<lambda>headerStatus.
         if headerStatus = SUCCESS \<or> headerStatus = ALREADY_EXISTS \<or> headerStatus = ORPHANED then
           bind_process (run_action (on_proofsCache (VerifySelfConsistent (w_H w) (w_secp w) b))) (\<lambda>b. ProcessBlockInternal w b)
         else run_action (return_action headerStatus)))"

section \<open>ChainResyncer\<close>

definition CleanDatabase :: "block_db \<Rightarrow> block_db" where
  "CleanDatabase db = ClearSpentPositions (ClearOutputPositions (ClearBlockSums db))"

fun resync_headers :: "node_world \<Rightarrow> block_header option \<Rightarrow> u64 list \<Rightarrow> (chain_state, unit) action" where
  "resync_headers w previous [] = return_action ()"
| "resync_headers w previous (i # heights) =
     bind_action (get_action (\<lambda>s. Chain_GetByHeight i (candidate_chain s))) (\<lambda>index. case index of
         None \<Rightarrow> throw_action UNDEFINED_BEHAVIOUR
       | Some index \<Rightarrow>
           bind_action (read_action (GetBlockHeaderByHash (w_H w) (bi_hash index))) (\<lambda>header. case (header, previous) of
               (None, _) \<Rightarrow> on_candidate (Chain_Rewind (i - 1))
             | (Some header, None) \<Rightarrow> throw_action UNDEFINED_BEHAVIOUR
             | (Some header, Some previous) \<Rightarrow>
                 if bh_previousBlockHash header \<noteq> BlockHeader_GetHash previous then on_candidate (Chain_Rewind (i - 1))
                 else bind_action (on_headerMMR (AddHeader (w_H w) header)) (\<lambda>_. resync_headers w (Some header) heights)))"

definition ResyncChain :: "node_world \<Rightarrow> (chain_state, unit) process" where
  "ResyncChain w = BatchWrite (run_action (
     bind_action (on_blockDB (modify_action CleanDatabase)) (\<lambda>_.
     bind_action (on_confirmed (Chain_Rewind 0)) (\<lambda>_.
     bind_action (on_headerMMR (HeaderMMR_Rewind 1)) (\<lambda>_.
     bind_action (read_action (GetBlockHeaderByHeight (w_H w) 0 CANDIDATE)) (\<lambda>previous.
     bind_action (get_action (\<lambda>s. ch_height (candidate_chain s))) (\<lambda>height.
     bind_action (resync_headers w previous (heights_upto 1 height)) (\<lambda>_. ChainState_Commit w))))))))"

section \<open>TxHashSetProcessor\<close>

definition UpdateConfirmedChain :: "block_header \<Rightarrow> (chain_state, bool) action" where
  "UpdateConfirmedChain header =
     bind_action (get_action (\<lambda>s. Chain_GetByHeight (bh_height header) (candidate_chain s))) (\<lambda>index. case index of
         None \<Rightarrow> throw_action UNDEFINED_BEHAVIOUR
       | Some index \<Rightarrow>
           if bi_hash index \<noteq> BlockHeader_GetHash header then return_action False
           else bind_action (read_action (\<lambda>s. FindCommonIndex CANDIDATE CONFIRMED (st_chainStore s))) (\<lambda>common.
             bind_action (on_confirmed (Chain_Rewind (bi_height common))) (\<lambda>_.
             bind_action (on_chainStore (for_action (copy_block CANDIDATE CONFIRMED) (heights_upto (bi_height common + 1) (bi_height index)))) (\<lambda>_.
               return_action True))))"

text \<open>\<open>load\<close> is \<open>LoadFromZip\<close> on the downloaded archive; the validation reads headers of the candidate chain.\<close>

definition ProcessTxHashSet :: "node_world \<Rightarrow> (block_header \<Rightarrow> tx_hash_set option) \<Rightarrow> big_integer \<Rightarrow> (chain_state, bool) process" where
  "ProcessTxHashSet w load blockHash =
     bind_process (run_action (read_action (GetBlockHeaderByHash (w_H w) blockHash))) (\<lambda>found. case found of
         None \<Rightarrow> run_action (return_action False)
       | Some header \<Rightarrow>
           bind_process (run_action (ChainState_Write w (on_txHashSetManager (modify_action TxHashSetManager_Close)))) (\<lambda>_.
             case load header of
               None \<Rightarrow> run_action (return_action False)
             | Some t \<Rightarrow>
                 bind_process (run_action (bind_action (get_action (\<lambda>s. s)) (\<lambda>s. on_proofsCache (
                     ValidateTxHashSet (w_H w) (w_secp w) (w_tmp w) (\<lambda>height. GetBlockHeaderByHeight (w_H w) height CANDIDATE s) t header)))) (\<lambda>sums.
                   case sums of
                     None \<Rightarrow> run_action (return_action False)
                   | Some blockSums \<Rightarrow> BatchWrite (run_action (
                       bind_action (on_blockDB (modify_action (AddBlockSums (BlockHeader_GetHash header) blockSums))) (\<lambda>_.
                       bind_action (get_action candidate_chain) (\<lambda>candidate.
                       bind_action (on_blockDB (SaveOutputPositions (w_H w) candidate t)) (\<lambda>_.
                       bind_action (on_txHashSetManager (modify_action (SetTxHashSet t))) (\<lambda>_.
                       bind_action (UpdateConfirmedChain header) (\<lambda>updated.
                         if \<not> updated then
                           bind_action (on_txHashSetManager (modify_action TxHashSetManager_Close)) (\<lambda>_. return_action False)
                         else bind_action (ChainState_Commit w) (\<lambda>_. return_action True)))))))))))"

section \<open>BlockChainServer\<close>

definition catch_status :: "(exn \<Rightarrow> EBlockChainStatus) \<Rightarrow> (chain_state, EBlockChainStatus) process \<Rightarrow> (chain_state, EBlockChainStatus) process" where
  "catch_status status m = catch_process m (\<lambda>e. run_action (return_action (status e)))"

definition Server_AddBlock :: "node_world \<Rightarrow> full_block \<Rightarrow> (chain_state, EBlockChainStatus) process" where
  "Server_AddBlock w b = catch_status (\<lambda>_. INVALID) (ProcessBlock w b)"

definition AddCompactBlock :: "node_world \<Rightarrow> compact_block \<Rightarrow> (chain_state, EBlockChainStatus) process" where
  "AddCompactBlock w compactBlock =
     bind_process (run_action (get_action (\<lambda>s. Chain_GetByHeight (bh_height (cb_header compactBlock)) (confirmed_chain s)))) (\<lambda>confirmed.
       if (case confirmed of None \<Rightarrow> False | Some index \<Rightarrow> bi_hash index = BlockHeader_GetHash (cb_header compactBlock))
       then run_action (return_action ALREADY_EXISTS)
       else catch_status (\<lambda>_. TRANSACTIONS_MISSING) (
         bind_process (run_action (read_action (\<lambda>s. Hydrate (w_H w) compactBlock (st_txPool s)))) (\<lambda>hydrated. case hydrated of
             None \<Rightarrow> run_action (return_action TRANSACTIONS_MISSING)
           | Some b \<Rightarrow> bind_process (Server_AddBlock w b) (\<lambda>added.
               run_action (return_action (if added = INVALID then TRANSACTIONS_MISSING else added))))))"

definition Server_AddTransaction ::
  "node_world \<Rightarrow> u8 \<Rightarrow> u8 \<Rightarrow> tx_ptr \<Rightarrow> EPoolType \<Rightarrow> (chain_state, EBlockChainStatus) process" where
  "Server_AddTransaction w random stemProbability tx poolType = catch_status (\<lambda>_. INVALID) (run_action (
     bind_action (read_action (GetTipBlockHeader (w_H w) CONFIRMED)) (\<lambda>lastConfirmedHeader. case lastConfirmedHeader of
         None \<Rightarrow> return_action INVALID
       | Some header \<Rightarrow>
           bind_action (get_action (\<lambda>s. (st_blockDB s, the_hash_set s))) (\<lambda>(db, hashSet).
           bind_action (on_txPool (AddTransaction (w_env w) (w_H w) (w_secp w) random stemProbability db hashSet tx poolType header)) (\<lambda>status.
             return_action (case status of ADDED \<Rightarrow> SUCCESS | TX_INVALID \<Rightarrow> INVALID | _ \<Rightarrow> UNKNOWN_ERROR))))))"

definition Server_AddBlockHeader :: "node_world \<Rightarrow> block_header \<Rightarrow> (chain_state, EBlockChainStatus) process" where
  "Server_AddBlockHeader w header = catch_status (\<lambda>_. INVALID) (ProcessSingleHeader w header)"

definition Server_AddBlockHeaders :: "node_world \<Rightarrow> block_header list \<Rightarrow> (chain_state, EBlockChainStatus) process" where
  "Server_AddBlockHeaders w headers =
     catch_status (\<lambda>e. if e = BAD_DATA_EXCEPTION then INVALID else UNKNOWN_ERROR) (ProcessSyncHeaders w headers)"

definition ProcessTransactionHashSet ::
  "node_world \<Rightarrow> (block_header \<Rightarrow> tx_hash_set option) \<Rightarrow> big_integer \<Rightarrow> (chain_state, EBlockChainStatus) process" where
  "ProcessTransactionHashSet w load blockHash = catch_status (\<lambda>_. INVALID) (
     bind_process (ProcessTxHashSet w load blockHash) (\<lambda>success. run_action (return_action (if success then SUCCESS else INVALID))))"

definition GetBlockHeadersByHash :: "hash_fn \<Rightarrow> big_integer list \<Rightarrow> chain_state \<Rightarrow> block_header list result" where
  "GetBlockHeadersByHash H hashes s =
     bind_result (map_result (\<lambda>hash. GetBlockHeaderByHash H hash s) hashes) (\<lambda>found. Inr (List.map_filter (\<lambda>h. h) found))"

definition GetCompactBlockByHash :: "hash_fn \<Rightarrow> u64 \<Rightarrow> big_integer \<Rightarrow> chain_state \<Rightarrow> compact_block option result" where
  "GetCompactBlockByHash H nonce hash s =
     bind_result (GetBlockByHash H hash s) (\<lambda>found. case found of
         None \<Rightarrow> Inr None
       | Some b \<Rightarrow> bind_result (CreateCompactBlock H nonce b) (\<lambda>c. Inr (Some c)))"

definition GetBlockByCommitment :: "hash_fn \<Rightarrow> commitment \<Rightarrow> chain_state \<Rightarrow> full_block option result" where
  "GetBlockByCommitment H outputCommitment s =
     bind_result (GetBlockHeaderByCommitment H outputCommitment s) (\<lambda>found. case found of
         None \<Rightarrow> Inr None
       | Some header \<Rightarrow> GetBlockByHash H (BlockHeader_GetHash header) s)"

text \<open>\<open>maxSize\<close> is the \<^verbatim>\<open>max_size\<close> of a vector of blocks; to reserve more throws.\<close>

definition GetOutputsByHeight :: "nat \<Rightarrow> hash_fn \<Rightarrow> u64 \<Rightarrow> u64 \<Rightarrow> chain_state \<Rightarrow> block_with_outputs list result" where
  "GetOutputsByHeight maxSize H startHeight maxHeight s =
     bind_result (ChainState_GetHeight CONFIRMED s) (\<lambda>confirmedHeight.
     let highestHeight = min confirmedHeight maxHeight
     in if unat (highestHeight - startHeight + 1) > maxSize then Inl STD_EXCEPTION
        else bind_result (map_result (\<lambda>height. GetBlockWithOutputs H height s) (heights_upto startHeight highestHeight)) (\<lambda>found.
          Inr (List.map_filter (\<lambda>b. b) found)))"

definition HasBlock :: "u64 \<Rightarrow> big_integer \<Rightarrow> chain_state \<Rightarrow> bool" where
  "HasBlock height hash s = (case Chain_GetByHeight height (confirmed_chain s) of
      None \<Rightarrow> False | Some index \<Rightarrow> bi_hash index = hash)"

definition ProcessNextOrphanBlock :: "node_world \<Rightarrow> (chain_state, bool) process" where
  "ProcessNextOrphanBlock w =
     bind_process (run_action (read_action (ChainState_GetHeight CONFIRMED))) (\<lambda>confirmedHeight.
     let height = confirmedHeight + 1
     in bind_process (run_action (read_action (GetBlockHeaderByHeight (w_H w) height CANDIDATE))) (\<lambda>nextHeader. case nextHeader of
          None \<Rightarrow> run_action (return_action False)
        | Some header \<Rightarrow>
            bind_process (run_action (get_action (\<lambda>s. GetOrphanBlock height (BlockHeader_GetHash header) (st_orphanPool s)))) (\<lambda>orphan. case orphan of
                None \<Rightarrow> run_action (return_action False)
              | Some b \<Rightarrow>
                  catch_process (bind_process (ProcessBlock w b) (\<lambda>status. run_action (return_action (status = SUCCESS)))) (\<lambda>_.
                    run_action (bind_action (ChainState_Write w
                      (on_orphanPool (modify_action (RemoveOrphan (bh_height header) (BlockHeader_GetHash header))))) (\<lambda>_.
                      return_action False))))))"

end
