(* ===== verification/Block_Safety.thy ===== *)
theory Block_Safety
  imports Block_Processor Header_Safety
begin

text \<open>
  What processing a block does to the chains, the header MMR and the database on disk: nothing until the batch is committed, and then
  the confirmed chain ends with the block, or the block was a fork of no more work and is only stored.
\<close>

section \<open>What a batch leaves alone\<close>

text \<open>A database in the same batch: only the open transaction differs.\<close>

definition in_batch :: "block_db \<Rightarrow> block_db \<Rightarrow> bool" where
  "in_batch db0 db \<longleftrightarrow> IsTransactional (db_rocks db) \<and> db_dirty db = db_dirty db0 \<and> db_durable db = db_durable db0 \<and>
     db_headersCache db = db_headersCache db0 \<and> db_uncommitted db = db_uncommitted db0"

lemma RocksDB_DeleteKeys_base:
  "IsTransactional r \<Longrightarrow> IsTransactional (RocksDB_DeleteKeys tbl ks r) \<and> rdb_base (RocksDB_DeleteKeys tbl ks r) = rdb_base r"
  unfolding RocksDB_DeleteKeys_def by (induction ks arbitrary: r) simp_all

lemma in_batch_writes:
  assumes "in_batch db0 db"
  shows "in_batch db0 (AddOutputPosition c location db)" "in_batch db0 (RemoveOutputPositions cs db)" "in_batch db0 (AddSpentPositions k xs db)"
    "in_batch db0 (AddBlockSums k sums db)" "in_batch db0 (BlockDB_AddBlock b db)"
  using assms RocksDB_DeleteKeys_base [of "db_rocks db"]
  by (simp_all add: in_batch_def db_durable_def AddOutputPosition_def RemoveOutputPositions_def AddSpentPositions_def AddBlockSums_def BlockDB_AddBlock_def)

lemma keeps_on_ths: "keeps (\<lambda>s. P (snd s)) (on_ths m)"
  by (simp add: keeps_def on_ths_def zoom_action_eq)

lemma keeps_on_db: "(\<And>db. P db \<Longrightarrow> P (f db)) \<Longrightarrow> keeps (\<lambda>s. P (snd s)) (on_db f)"
  by (simp add: keeps_def on_db_def action_apply)

lemma keeps_prune_inputs: "keeps (\<lambda>s. P (snd s)) (prune_inputs is spent)"
  by (induction "is" arbitrary: spent) (auto intro!: keeps_bind keeps_basic keeps_on_ths split: option.split)

lemma keeps_append_outputs: "keeps (\<lambda>s. in_batch db0 (snd s)) (append_outputs H height outputs)"
  by (induction outputs) (auto intro!: keeps_bind keeps_basic keeps_on_ths keeps_on_db in_batch_writes)

lemma keeps_ApplyBlock: "keeps (\<lambda>s. in_batch db0 (snd s)) (ApplyBlock H b)"
  unfolding ApplyBlock_def
  by (auto intro!: keeps_bind keeps_basic keeps_on_ths keeps_on_db keeps_prune_inputs keeps_append_outputs keeps_for keeps_modify in_batch_writes
      split: option.split)

lemma keeps_restore_inputs: "keeps (in_batch db0) (restore_inputs spent is leaves)"
  by (induction "is" arbitrary: leaves) (auto intro!: keeps_bind keeps_basic keeps_modify in_batch_writes split: option.split)

lemma keeps_rewind_block: "keeps (\<lambda>s. in_batch db0 (snd s)) (rewind_block H leaves)"
proof -
  have "keeps (\<lambda>s. in_batch db0 (snd s)) (zoom_action snd (\<lambda>db s. (fst s, db)) (restore_inputs spent is leaves))" for spent "is"
    using keeps_restore_inputs [of db0] by (simp add: keeps_def zoom_action_eq)
  then show ?thesis unfolding rewind_block_def
    by (auto intro!: keeps_bind keeps_basic keeps_on_db keeps_modify in_batch_writes split: option.split)
qed

lemma rewind_blocks_in_batch: "rewind_blocks H header leaves s = Some (r, s') \<Longrightarrow> in_batch db0 (snd s) \<Longrightarrow> in_batch db0 (snd s')"
proof -
  define P where "P = (\<lambda>(H :: hash_fn) (header :: block_header) (leaves :: u64 list) (s :: tx_hash_set \<times> block_db)
    (y :: u64 list result \<times> tx_hash_set \<times> block_db). in_batch db0 (snd s) \<longrightarrow> in_batch db0 (snd (snd y)))"
  assume run: "rewind_blocks H header leaves s = Some (r, s')" and "in_batch db0 (snd s)"
  moreover have "P H header leaves s (r, s')"
  proof (rule rewind_blocks.raw_induct [OF _ run])
    fix f H header leaves s y
    assume IH: "\<And>H header leaves s y. f H header leaves s = Some y \<Longrightarrow> P H header leaves s y"
      and body: "(if BlockHeader_GetHash (ths_blockHeader (fst s)) = BlockHeader_GetHash header then Some (Inr leaves, s)
        else (case rewind_block H leaves s of (Inl e, s) \<Rightarrow> Some (Inl e, s) | (Inr leaves, s) \<Rightarrow> f H header leaves s)) = Some y"
    obtain x u where u: "rewind_block H leaves s = (x, u)" by (cases "rewind_block H leaves s")
    have "in_batch db0 (snd s) \<Longrightarrow> in_batch db0 (snd u)" using keepsD [OF keeps_rewind_block, of db0 s H leaves] u by simp
    moreover have "y = (Inr leaves, s) \<or> (\<exists>e. y = (Inl e, u)) \<or> (\<exists>leaves. f H header leaves u = Some y)"
      using body unfolding u by (cases x) (auto split: if_splits)
    ultimately show "P H header leaves s y" using IH [of H header _ u y] unfolding P_def by auto
  qed
  ultimately show ?thesis by (simp add: P_def)
qed

lemma TxHashSet_Rewind_in_batch:
  assumes "TxHashSet_Rewind H header s = Some (r, s')" "in_batch db0 (snd s)"
  shows "in_batch db0 (snd s')"
proof -
  have keep: "keeps (\<lambda>s. in_batch db0 (snd s)) (bind_action (on_ths (on_kernels (KernelMMR_Rewind k))) (\<lambda>_.
      bind_action (on_ths (on_outputs (PMMR_Rewind OUTPUT_SIZE n leaves))) (\<lambda>_. on_ths (on_rangeProofs (PMMR_Rewind RANGE_PROOF_SIZE n leaves)))))"
    for k n leaves by (intro keeps_bind keeps_on_ths)
  obtain x u where u: "rewind_blocks H header [] s = Some (x, u)"
    using assms(1) by (auto simp: TxHashSet_Rewind_def split: option.splits)
  have "in_batch db0 (snd u)" by (rule rewind_blocks_in_batch [OF u assms(2)])
  then show ?thesis
    using assms(1) u keepsD [OF keep, of u "bh_kernelMMRSize header" "bh_outputMMRSize header"]
    by (cases x) (auto simp: TxHashSet_Rewind_def, metis snd_conv)
qed

text \<open>A state in the same batch: the chains and the header MMR are untouched.\<close>

definition batch_frame :: "chain_state \<Rightarrow> chain_state \<Rightarrow> bool" where
  "batch_frame s0 s \<longleftrightarrow> st_dirty s = st_dirty s0 \<and> st_chainStore s = st_chainStore s0 \<and> st_headerMMR s = st_headerMMR s0 \<and>
     in_batch (st_blockDB s0) (st_blockDB s)"

lemma frame_open:
  assumes "state_open s0" "st_dirty s0" "batch_frame s0 s"
  shows "state_open s" "state_disk s = state_disk s0" "st_dirty s"
  using assms by (auto simp: state_open_def batch_frame_def in_batch_def state_disk_def)

lemma frame_refl: "state_open s \<Longrightarrow> batch_frame s s"
  by (simp add: batch_frame_def in_batch_def state_open_def)

lemma keeps_parts:
  "keeps (batch_frame s0) (on_orphanPool m)" "keeps (batch_frame s0) (on_txPool m')" "keeps (batch_frame s0) (on_proofsCache m'')"
  by (auto simp: keeps_def batch_frame_def on_orphanPool_def on_txPool_def on_proofsCache_def zoom_action_eq split: prod.splits)

lemma keeps_on_blockDB:
  "(\<And>db. in_batch (st_blockDB s0) db \<Longrightarrow> in_batch (st_blockDB s0) (f db)) \<Longrightarrow> keeps (batch_frame s0) (on_blockDB (modify_action f))"
  by (simp add: keeps_def batch_frame_def on_blockDB_def zoom_action_eq action_apply)

lemma keeps_on_hashSet:
  assumes "keeps (\<lambda>s. in_batch (st_blockDB s0) (snd s)) m"
  shows "keeps (batch_frame s0) (on_hashSet_action m)"
  unfolding keeps_def
proof (intro allI impI)
  fix s assume s: "batch_frame s0 s"
  show "batch_frame s0 (snd (on_hashSet_action m s))"
  proof (cases "the_hash_set s")
    case (Some t)
    obtain r t' db' where "m (t, st_blockDB s) = (r, t', db')" by (metis surj_pair)
    then show ?thesis
      using keepsD [OF assms, of "(t, st_blockDB s)"] s Some by (simp add: on_hashSet_action_def batch_frame_def)
  qed (use s in \<open>simp add: on_hashSet_action_def\<close>)
qed

lemma keeps_validate_block: "keeps (batch_frame s0) (validate_block w b)"
  unfolding validate_block_def by (intro keeps_bind keeps_basic keeps_parts)

lemma keeps_ValidateAndAddBlock: "keeps (batch_frame s0) (ValidateAndAddBlock w b)"
  unfolding ValidateAndAddBlock_def
  by (auto intro!: keeps_bind keeps_basic keeps_parts keeps_on_blockDB keeps_on_hashSet keeps_ApplyBlock keeps_validate_block in_batch_writes
      split: prod.split)


section \<open>Adding blocks to the confirmed chain\<close>

abbreviation with_confirmed :: "chain \<Rightarrow> chain_state \<Rightarrow> chain_state" where
  "with_confirmed c s \<equiv> s\<lparr>st_chainStore := (st_chainStore s)\<lparr>cs_confirmed := c\<rparr>\<rparr>"

lemma on_confirmed_eq: "on_confirmed m s = (fst (m (confirmed_chain s)), with_confirmed (snd (m (confirmed_chain s))) s)"
  by (simp add: on_chainStore_def on_chain_def zoom_action_eq)

lemma with_confirmed_open:
  assumes "state_open s" "st_dirty s" "chain_ok c" "chain_durable c = chain_durable (confirmed_chain s)"
  shows "state_open (with_confirmed c s)" "state_disk (with_confirmed c s) = state_disk s"
  using assms by (simp_all add: state_open_def state_disk_def store_durable_def)

lemma add_to_chain_apply:
  "add_to_chain b s =
     (map_sum id (\<lambda>_. ()) (fst (Chain_AddBlock (FullBlock_GetHash b) (FullBlock_GetHeight b) (confirmed_chain s))),
      with_confirmed (snd (Chain_AddBlock (FullBlock_GetHash b) (FullBlock_GetHeight b) (confirmed_chain s))) s)"
  by (simp add: add_to_chain_def bind_action_def on_confirmed_eq action_apply split: sum.split)

lemma add_all_to_chain:
  assumes "chain_ok c" "(length (chain_hashes c) + length bs) * 32 < 2 ^ 64" "\<forall>b\<in>set bs. length (FullBlock_GetHash b) = 32"
    and "for_action add_to_chain bs (with_confirmed c s) = (r, s')"
  shows "\<exists>c'. s' = with_confirmed c' s \<and> chain_ok c' \<and> chain_durable c' = chain_durable c \<and>
    (r = Inr () \<longrightarrow> chain_hashes c' = chain_hashes c @ map FullBlock_GetHash bs)"
  using assms
proof (induction bs arbitrary: c)
  case Nil
  then show ?case by (auto simp: action_apply)
next
  case (Cons b bs)
  show ?case
  proof (cases "FullBlock_GetHeight b = ch_height c + 1")
    case False
    then have "s' = with_confirmed c s \<and> r = Inl BLOCK_CHAIN_EXCEPTION"
      using Cons.prems(4) by (auto simp: add_to_chain_apply [of b "with_confirmed c s"] bind_action_def Chain_AddBlock_def)
    then show ?thesis using Cons.prems(1) by auto
  next
    case True
    have "chain_room (Suc (length bs)) c" using Cons.prems(2) by (simp add: chain_room_def)
    note add = chain_add [OF Cons.prems(1) this, of "FullBlock_GetHash b", folded True]
    let ?c = "snd (Chain_AddBlock (FullBlock_GetHash b) (FullBlock_GetHeight b) c)"
    have "for_action add_to_chain bs (with_confirmed ?c s) = (r, s')"
      using Cons.prems(3,4) add(1) by (simp add: add_to_chain_apply [of b "with_confirmed c s"] bind_action_def)
    moreover have "(length (chain_hashes ?c) + length bs) * 32 < 2 ^ 64" using Cons.prems(2,3) add(3) by simp
    moreover have "chain_ok ?c" "\<forall>b\<in>set bs. length (FullBlock_GetHash b) = 32" using add(2) Cons.prems(3) by simp_all
    ultimately show ?thesis using Cons.IH [of ?c] add(3,4) Cons.prems(3) by auto
  qed
qed

text \<open>A commit of a state whose candidate chain and header MMR are as on disk.\<close>

lemma commit_confirmed:
  assumes "state_open s" "commits_succeed w" "ChainState_Commit w s = (r, s')"
    and "chain_hashes (candidate_chain s) = chain_durable (candidate_chain s)" "df_working 32 (header_file s) = df_durable 32 (header_file s)"
  shows "state_open s'" "chain_durable (candidate_chain s') = chain_durable (candidate_chain s)"
    "df_durable 32 (header_file s') = df_durable 32 (header_file s)" "chain_durable (confirmed_chain s') = chain_hashes (confirmed_chain s)"
  using state_committed [OF assms(1-3)] assms(4,5)
  by (simp_all add: state_disk_def state_working_def store_durable_def store_hashes_def)

section \<open>The confirmed chain\<close>

text \<open>The confirmed chain on disk after it moved to a block: the block extends it, or a fork with more work that ends in the block replaces
  what came after its parent.\<close>

definition moves_to :: "u64 result \<Rightarrow> full_block \<Rightarrow> big_integer list \<Rightarrow> big_integer list \<Rightarrow> bool" where
  "moves_to oldDifficulty b old new \<longleftrightarrow>
     (new = old @ [FullBlock_GetHash b] \<and> last old = bh_previousBlockHash (fb_header b)) \<or>
     (\<exists>k fork d. new = take k old @ map FullBlock_GetHash fork \<and> fork \<noteq> [] \<and> last fork = b \<and> 0 < k \<and> k \<le> length old \<and>
        old ! (k - 1) = bh_previousBlockHash (fb_header (hd fork)) \<and> oldDifficulty = Inr d \<and> d < bh_totalDifficulty (fb_header b))"

text \<open>The possible outcomes: nothing on disk changed; the confirmed chain moved; or, without an exception, only the database changed.\<close>

definition block_outcome :: "u64 result \<Rightarrow> full_block \<Rightarrow> 'a result \<Rightarrow> chain_state \<Rightarrow> chain_state \<Rightarrow> bool" where
  "block_outcome oldDifficulty b r s s' \<longleftrightarrow>
     chain_durable (candidate_chain s') = chain_durable (candidate_chain s) \<and> df_durable 32 (header_file s') = df_durable 32 (header_file s) \<and>
     (state_disk s' = state_disk s \<or>
      moves_to oldDifficulty b (chain_durable (confirmed_chain s)) (chain_durable (confirmed_chain s')) \<or>
      (\<exists>x. r = Inr x) \<and> chain_durable (confirmed_chain s') = chain_durable (confirmed_chain s))"

lemma outcome_unchanged: "state_disk s' = state_disk s \<Longrightarrow> block_outcome td b r s s'"
  by (simp add: block_outcome_def state_parts)

lemma outcome_trans: "state_disk t = state_disk s \<Longrightarrow> block_outcome td b r t s' \<Longrightarrow> block_outcome td b r s s'"
  by (auto simp: block_outcome_def state_parts)

definition clean_open :: "chain_state \<Rightarrow> bool" where
  "clean_open s \<longleftrightarrow> state_open s \<and> st_dirty s \<and> state_working s = state_disk s"

lemma frame_clean:
  assumes "clean_open s" "batch_frame s t"
  shows "state_open t" "st_dirty t" "state_disk t = state_disk s" "chain_hashes (candidate_chain t) = chain_durable (candidate_chain t)"
    "chain_hashes (confirmed_chain t) = chain_durable (confirmed_chain t)" "df_working 32 (header_file t) = df_durable 32 (header_file t)"
    "chain_ok (confirmed_chain t)"
  using assms frame_open [of s t] by (auto simp: clean_open_def batch_frame_def state_parts state_open_def)


lemma fork_blocks_shape:
  assumes "fork_blocks H b acc s = Some (Inr (Some bs))" "acc \<noteq> []" "last acc = b"
  shows "bs \<noteq> [] \<and> last bs = hd acc \<and>
    Chain_IsOnChain (FullBlock_GetHeight (hd bs) - 1) (bh_previousBlockHash (fb_header (hd bs))) (confirmed_chain s) = Inr True"
proof -
  define P where "P = (\<lambda>(H :: hash_fn) b acc s (y :: full_block list option result). acc \<noteq> [] \<longrightarrow> last acc = b \<longrightarrow> (\<forall>bs. y = Inr (Some bs) \<longrightarrow> bs \<noteq> [] \<and> last bs = hd acc \<and>
    Chain_IsOnChain (FullBlock_GetHeight (hd bs) - 1) (bh_previousBlockHash (fb_header (hd bs))) (confirmed_chain s) = Inr True))"
  have "P H b acc s (Inr (Some bs))"
  proof (rule fork_blocks.raw_induct [OF _ assms(1)])
    fix f H and b :: full_block and acc s y
    let ?prev = "bh_previousBlockHash (fb_header b)"
    assume IH: "\<And>H b acc s y. f H b acc s = Some y \<Longrightarrow> P H b acc s y"
      and body: "(case Chain_IsOnChain (FullBlock_GetHeight b - 1) ?prev (confirmed_chain s) of
        Inl e \<Rightarrow> Some (Inl e)
      | Inr onChain \<Rightarrow>
          if onChain then Some (Inr (Some (rev acc)))
          else let previousHash = ?prev
            in (case GetOrphanBlock (FullBlock_GetHeight b - 1) previousHash (st_orphanPool s) of
                  None \<Rightarrow> (case GetBlock H previousHash (st_blockDB s) of
                       Inl e \<Rightarrow> Some (Inl e)
                     | Inr None \<Rightarrow> Some (Inr None)
                     | Inr (Some b) \<Rightarrow> f H b (acc @ [b]) s)
                | Some b \<Rightarrow> f H b (acc @ [b]) s)) = Some y"
    have "(\<exists>e. y = Inl e) \<or> y = Inr None \<or>
        (y = Inr (Some (rev acc)) \<and> Chain_IsOnChain (FullBlock_GetHeight b - 1) ?prev (confirmed_chain s) = Inr True) \<or>
        (\<exists>b'. f H b' (acc @ [b']) s = Some y)"
      using body by (auto simp: Let_def split: sum.splits if_splits option.splits)
    then show "P H b acc s y"
      using IH unfolding P_def by (fastforce simp: hd_rev last_rev)
  qed
  then show ?thesis using assms(2,3) by (simp add: P_def)
qed


section \<open>Reorganizations\<close>

lemma rewind_frame:
  assumes "state_open s" "on_hashSet (TxHashSet_Rewind H header) s = Some (r, s')"
  shows "batch_frame s s'"
proof (cases "the_hash_set s")
  case None
  then show ?thesis using assms frame_refl by (simp add: on_hashSet_def)
next
  case (Some t)
  then obtain r' t' db' where r: "TxHashSet_Rewind H header (t, st_blockDB s) = Some (r', t', db')"
    using assms(2) by (auto simp: on_hashSet_def split: option.splits)
  have "in_batch (st_blockDB s) (st_blockDB s)" using frame_refl [OF assms(1)] by (simp add: batch_frame_def)
  with TxHashSet_Rewind_in_batch [OF r] have "in_batch (st_blockDB s) db'" by simp
  then show ?thesis using assms(2) Some r by (auto simp: on_hashSet_def batch_frame_def)
qed

text \<open>The fork has more work: the confirmed chain goes back to its parent and takes the fork.\<close>

lemma switch_chain:
  assumes cl: "clean_open s" and fr: "batch_frame s t" and w: "commits_succeed w"
    and bs: "bs \<noteq> []" "\<forall>b\<in>set bs. length (FullBlock_GetHash b) = 32" "(length (chain_durable (confirmed_chain s)) + length bs) * 32 < 2 ^ 64"
    and on: "Chain_IsOnChain (FullBlock_GetHeight (hd bs) - 1) (bh_previousBlockHash (fb_header (hd bs))) (confirmed_chain s) = Inr True"
    and more: "td = Inr d" "d < bh_totalDifficulty (fb_header (last bs))"
    and run: "bind_action (on_confirmed (Chain_Rewind (FullBlock_GetHeight (hd bs) - 1))) (\<lambda>_.
        bind_action (for_action add_to_chain bs) (\<lambda>_. ChainState_Commit w)) t = (r, s')"
  shows "state_open s' \<and> block_outcome td (last bs) r s s'"
proof -
  note f = frame_clean [OF cl fr]
  let ?h = "FullBlock_GetHeight (hd bs) - 1" and ?old = "chain_durable (confirmed_chain s)"
  have same: "confirmed_chain t = confirmed_chain s" using fr by (simp add: batch_frame_def)
  have old: "chain_hashes (confirmed_chain t) = ?old" using f(5) same by simp
  have h: "unat ?h < length ?old" "?old ! unat ?h = bh_previousBlockHash (fb_header (hd bs))"
    using on chain_get(5) [OF f(7)] old same by simp_all
  define c where "c = snd (Chain_Rewind ?h (confirmed_chain t))"
  have c: "fst (Chain_Rewind ?h (confirmed_chain t)) = Inr ()" "chain_ok c" "chain_hashes c = take (Suc (unat ?h)) ?old" "chain_durable c = ?old"
    using chain_rewind [OF f(7), of ?h] h(1) old f(5) by (simp_all add: c_def)
  obtain r1 u where u: "for_action add_to_chain bs (with_confirmed c t) = (r1, u)" by fastforce
  have "(length (chain_hashes c) + length bs) * 32 \<le> (length ?old + length bs) * 32" using c(3) by simp
  then have "(length (chain_hashes c) + length bs) * 32 < 2 ^ 64" using bs(3) by linarith
  from add_all_to_chain [OF c(2) this bs(2) u] obtain c' where c': "u = with_confirmed c' t" "chain_ok c'" "chain_durable c' = ?old"
    "r1 = Inr () \<longrightarrow> chain_hashes c' = take (Suc (unat ?h)) ?old @ map FullBlock_GetHash bs" using c(3,4) by auto
  note op = with_confirmed_open [OF f(1,2) c'(2)]
  have ou: "state_open u" "state_disk u = state_disk s" using op c'(1,3) f(3,5) old by simp_all
  show ?thesis
  proof (cases r1)
    case (Inl e)
    then have "s' = u" using run u c(1) by (simp add: bind_action_def on_confirmed_eq c_def)
    then show ?thesis using ou outcome_unchanged by blast
  next
    case (Inr x)
    then have run': "ChainState_Commit w u = (r, s')" using run u c(1) by (simp add: bind_action_def on_confirmed_eq c_def)
    have cand: "chain_hashes (candidate_chain u) = chain_durable (candidate_chain u)" "df_working 32 (header_file u) = df_durable 32 (header_file u)"
      using f(4,6) c'(1) by simp_all
    note cm = commit_confirmed [OF ou(1) w run' cand]
    have "chain_durable (confirmed_chain s') = take (Suc (unat ?h)) ?old @ map FullBlock_GetHash bs" using cm(4) c'(1,4) Inr by simp
    then have "moves_to td (last bs) ?old (chain_durable (confirmed_chain s'))"
      unfolding moves_to_def using bs(1) h more by (intro disjI2 exI [of _ "Suc (unat ?h)"] exI [of _ bs] exI [of _ d]) simp
    then show ?thesis using cm(1-3) ou(2) by (simp add: block_outcome_def state_parts)
  qed
qed

text \<open>The fork has no more work: everything is rolled back and the blocks are stored.\<close>

lemma store_fork:
  assumes cl: "clean_open s" and fr: "batch_frame s t" and w: "commits_succeed w"
    and run: "bind_action ChainState_Rollback (\<lambda>_.
        bind_action (for_action (\<lambda>b. on_blockDB (modify_action (BlockDB_AddBlock b))) bs) (\<lambda>_. on_blockDB (BlockDB_Commit (w_dbCommits w)))) t = (r, s')"
  shows "state_open s' \<and> block_outcome td b r s s'"
proof -
  note f = frame_clean [OF cl fr]
  from state_rolled_back [OF f(1)] f(2) obtain u where u: "ChainState_Rollback t = (Inr (), u)" "state_open u" "state_working u = state_disk t"
    "state_disk u = state_disk t" "st_dirty u" by blast
  have keep: "keeps (batch_frame u) (for_action (\<lambda>b. on_blockDB (modify_action (BlockDB_AddBlock b))) bs)"
    by (intro keeps_for keeps_on_blockDB in_batch_writes)
  have writes: "fst (for_action (\<lambda>b. on_blockDB (modify_action (BlockDB_AddBlock b))) bs v) = Inr ()" for v
    by (induction bs arbitrary: v) (simp_all add: action_apply bind_action_def on_blockDB_def zoom_action_eq)
  define v where "v = snd (for_action (\<lambda>b. on_blockDB (modify_action (BlockDB_AddBlock b))) bs u)"
  have fv: "batch_frame u v" using keepsD [OF keep frame_refl [OF u(2)]] by (simp add: v_def)
  have v: "for_action (\<lambda>b. on_blockDB (modify_action (BlockDB_AddBlock b))) bs u = (Inr (), v)" using writes [of u] by (simp add: v_def prod_eq_iff)
  let ?db = "snd (BlockDB_Commit True (st_blockDB v))"
  have s': "r = Inr ()" "s' = v\<lparr>st_blockDB := ?db\<rparr>"
    using run u(1) v w by (auto simp: bind_action_def on_blockDB_def zoom_action_eq commits_succeed_def BlockDB_Commit_def RocksDB_Commit_def)
  have ov: "state_open v" "state_disk v = state_disk s" using frame_open [OF u(2,5) fv] u(4) f(3) by simp_all
  have "state_open s'" using ov(1) frame_open(3) [OF u(2,5) fv] by (simp add: s'(2) state_open_def BlockDB_Commit_def RocksDB_Commit_def)
  moreover have "block_outcome td b r s s'" using ov(2) by (auto simp: block_outcome_def s' state_parts)
  ultimately show ?thesis by simp
qed


lemma frame_trans: "batch_frame s t \<Longrightarrow> batch_frame t u \<Longrightarrow> batch_frame s u"
  by (auto simp: batch_frame_def in_batch_def)

lemma HandleReorg_outcome:
  assumes cl: "clean_open s" and w: "commits_succeed w"
    and bs: "bs \<noteq> []" "\<forall>b\<in>set bs. length (FullBlock_GetHash b) = 32" "(length (chain_durable (confirmed_chain s)) + length bs) * 32 < 2 ^ 64"
    and on: "Chain_IsOnChain (FullBlock_GetHeight (hd bs) - 1) (bh_previousBlockHash (fb_header (hd bs))) (confirmed_chain s) = Inr True"
    and run: "HandleReorg w bs s = Some (r, s')"
  shows "state_open s' \<and> block_outcome (GetTotalDifficulty (w_H w) CONFIRMED s) (last bs) r s s'"
proof -
  have o: "state_open s" using cl by (simp add: clean_open_def)
  note fr = frame_refl [OF o]
  let ?td = "GetTotalDifficulty (w_H w) CONFIRMED s"
  let ?parent = "bh_previousBlockHash (fb_header (hd bs))"
  obtain first rest where first: "bs = first # rest" using bs(1) by (cases bs) auto
  define tail where "tail = (\<lambda>d. if bh_totalDifficulty (fb_header (last bs)) > d then
      bind_action (on_confirmed (Chain_Rewind (FullBlock_GetHeight (hd bs) - 1))) (\<lambda>_. bind_action (for_action add_to_chain bs) (\<lambda>_. ChainState_Commit w))
    else bind_action ChainState_Rollback (\<lambda>_. bind_action (for_action (\<lambda>b. on_blockDB (modify_action (BlockDB_AddBlock b))) bs) (\<lambda>_.
      on_blockDB (BlockDB_Commit (w_dbCommits w)))))"
  have early: "\<And>t. s' = t \<Longrightarrow> batch_frame s t \<Longrightarrow> ?thesis" using frame_clean [OF cl] outcome_unchanged by metis
  define core where "core = (\<lambda>d common. bind_process (on_hashSet (TxHashSet_Rewind (w_H w) common)) (\<lambda>_.
      run_action (bind_action (for_action (ValidateAndAddBlock w) bs) (\<lambda>_. tail d))))"
  have "HandleReorg w bs = bind_process (run_action (read_action (GetTotalDifficulty (w_H w) CONFIRMED))) (\<lambda>d.
      bind_process (run_action (get_action the_hash_set)) (\<lambda>hashSet.
        if hashSet = None then run_action (throw_action BLOCK_CHAIN_EXCEPTION)
        else bind_process (run_action (read_action (GetBlockHeaderByHash (w_H w) ?parent))) (\<lambda>common. case common of
            None \<Rightarrow> run_action (throw_action BLOCK_CHAIN_EXCEPTION) | Some common \<Rightarrow> core d common)))"
    unfolding HandleReorg_def core_def tail_def by (simp add: first del: for_action.simps cong: if_cong option.case_cong)
  then have "s' = s \<or> (\<exists>d common. ?td = Inr d \<and> core d common s = Some (r, s'))"
    using run by (auto simp: bind_process_def run_action_def action_apply split: sum.splits option.splits if_splits)
  then show ?thesis
  proof (elim disjE exE conjE)
    assume "s' = s"
    then show ?thesis using early fr by blast
  next
    fix d common
    assume td: "?td = Inr d" and run: "core d common s = Some (r, s')"
    obtain x t where t: "on_hashSet (TxHashSet_Rewind (w_H w) common) s = Some (x, t)" using run by (auto simp: core_def bind_process_def split: option.splits)
    have ft: "batch_frame s t" by (rule rewind_frame [OF o t])
    obtain y u where u: "for_action (ValidateAndAddBlock w) bs t = (y, u)" by fastforce
    have "keeps (batch_frame s) (for_action (ValidateAndAddBlock w) bs)" by (intro keeps_for keeps_ValidateAndAddBlock)
    from keepsD [OF this ft] u have fu: "batch_frame s u" by simp
    consider "s' = t" | "s' = u" | "tail d u = (r, s')"
      using run t u by (auto simp: core_def bind_process_def run_action_def bind_action_def split: sum.splits)
    then show ?thesis
    proof cases
      case 3
      show ?thesis
      proof (cases "bh_totalDifficulty (fb_header (last bs)) > d")
        case True
        show ?thesis by (rule switch_chain [OF cl fu w bs on td True]) (use 3 True in \<open>simp add: tail_def\<close>)
      next
        case False
        show ?thesis by (rule store_fork [OF cl fu w]) (use 3 False in \<open>simp add: tail_def\<close>)
      qed
    qed (use early ft fu in blast)+
  qed
qed

section \<open>Processing a block\<close>

text \<open>The fork of a block that is not the next one, as \<open>DetermineBlockStatus\<close> collects it, has hashes of 32 bytes and fits on the chain.\<close>

definition fork_fits :: "hash_fn \<Rightarrow> full_block \<Rightarrow> chain_state \<Rightarrow> bool" where
  "fork_fits H b s \<longleftrightarrow> length (FullBlock_GetHash b) = 32 \<and> (length (chain_hashes (confirmed_chain s)) + 1) * 32 < 2 ^ 64 \<and>
     (\<forall>bs. fork_blocks H b [b] s = Some (Inr (Some bs)) \<longrightarrow>
        (\<forall>x\<in>set bs. length (FullBlock_GetHash x) = 32) \<and> (length (chain_hashes (confirmed_chain s)) + length bs) * 32 < 2 ^ 64)"

lemma DetermineBlockStatus_facts:
  assumes "DetermineBlockStatus H b s = Some (r, s')"
  shows "s' = s \<and> (\<forall>info. r = Inr info \<longrightarrow>
    (bpi_status info = NEXT_BLOCK \<longrightarrow> Chain_GetTipHash (confirmed_chain s) = Inr (bh_previousBlockHash (fb_header b))) \<and>
    (bpi_status info = REORG \<longrightarrow> fork_blocks H b [b] s = Some (Inr (Some (bpi_reorgBlocks info)))))"
  using assms
  by (auto simp: DetermineBlockStatus_def bind_process_def run_action_def action_apply split: sum.splits option.splits if_splits)

lemma next_block_outcome:
  assumes cl: "clean_open s" and w: "commits_succeed w" and len: "length (FullBlock_GetHash b) = 32"
    and room: "(length (chain_hashes (confirmed_chain s)) + 1) * 32 < 2 ^ 64"
    and tip: "Chain_GetTipHash (confirmed_chain s) = Inr (bh_previousBlockHash (fb_header b))"
    and run: "bind_action (ValidateAndAddBlock w b) (\<lambda>_. bind_action (add_to_chain b) (\<lambda>_.
      bind_action (ChainState_Commit w) (\<lambda>_. return_action SUCCESS))) s = (r, s')"
  shows "state_open s' \<and> block_outcome td b r s s'"
proof -
  have o: "state_open s" using cl by (simp add: clean_open_def)
  obtain x t where t: "ValidateAndAddBlock w b s = (x, t)" by fastforce
  have ft: "batch_frame s t" using keepsD [OF keeps_ValidateAndAddBlock frame_refl [OF o], of w b] t by simp
  note f = frame_clean [OF cl ft] and fs = frame_clean [OF cl frame_refl [OF o]]
  obtain y u where u: "add_to_chain b t = (y, u)" by fastforce
  have same: "with_confirmed (confirmed_chain t) t = t" by simp
  have old: "chain_hashes (confirmed_chain t) = chain_durable (confirmed_chain s)" using f(3,5) by (simp add: state_parts)
  have "for_action add_to_chain [b] (with_confirmed (confirmed_chain t) t) = (y, u)"
    using u unfolding same by (cases y) (auto simp: bind_action_def action_apply)
  from add_all_to_chain [OF f(7) _ _ this] obtain c where c: "u = with_confirmed c t" "chain_ok c" "chain_durable c = chain_durable (confirmed_chain t)"
    "y = Inr () \<longrightarrow> chain_hashes c = chain_durable (confirmed_chain s) @ [FullBlock_GetHash b]"
    using len room fs(5) old by auto
  have ou: "state_open u" "state_disk u = state_disk s" using with_confirmed_open [OF f(1,2) c(2,3)] c(1) f(3) by simp_all
  consider "s' = t" | "s' = u" | r' where "y = Inr ()" "ChainState_Commit w u = (r', s')"
    using run t u by (cases "ChainState_Commit w u") (auto simp: bind_action_def action_apply split: sum.splits)
  then show ?thesis
  proof cases
    case 3
    have cand: "chain_hashes (candidate_chain u) = chain_durable (candidate_chain u)" "df_working 32 (header_file u) = df_durable 32 (header_file u)"
      using f(4,6) c(1) by simp_all
    note cm = commit_confirmed [OF ou(1) w 3(2) cand]
    have "last (chain_durable (confirmed_chain s)) = bh_previousBlockHash (fb_header b)"
      using tip chain_get(4) [OF fs(7)] fs(5) by simp
    then have "moves_to td b (chain_durable (confirmed_chain s)) (chain_durable (confirmed_chain s'))"
      using cm(4) c(1,4) 3(1) by (simp add: moves_to_def)
    then show ?thesis using cm(1-3) ou(2) by (simp add: block_outcome_def state_parts)
  qed (use f(1,3) ou outcome_unchanged in blast)+
qed


lemma process_new_block_outcome:
  assumes cl: "clean_open t" and w: "commits_succeed w" and fits: "fork_fits (w_H w) b t"
    and run: "process_new_block w b t = Some (r, t')"
  shows "state_open t' \<and> block_outcome (GetTotalDifficulty (w_H w) CONFIRMED t) b r t t'"
proof -
  have o: "state_open t" using cl by (simp add: clean_open_def)
  note f = frame_clean [OF cl frame_refl [OF o]]
  obtain x u where ds: "DetermineBlockStatus (w_H w) b t = Some (x, u)" using run by (auto simp: process_new_block_def bind_process_def split: option.splits)
  note facts = DetermineBlockStatus_facts [OF ds]
  show ?thesis
  proof (cases x)
    case (Inl e)
    then have "t' = t" using run ds facts by (auto simp: process_new_block_def bind_process_def)
    then show ?thesis using o outcome_unchanged by blast
  next
    case (Inr info)
    show ?thesis
    proof (cases "bpi_status info")
      case NEXT_BLOCK
      then have tip: "Chain_GetTipHash (confirmed_chain t) = Inr (bh_previousBlockHash (fb_header b))" using facts Inr by simp
      have len: "length (FullBlock_GetHash b) = 32" "(length (chain_hashes (confirmed_chain t)) + 1) * 32 < 2 ^ 64"
        using fits by (simp_all add: fork_fits_def)
      show ?thesis
        by (rule next_block_outcome [OF cl w len tip]) (use run ds facts Inr NEXT_BLOCK in \<open>simp add: process_new_block_def bind_process_def run_action_def\<close>)
    next
      case REORG
      let ?bs = "bpi_reorgBlocks info"
      have fb: "fork_blocks (w_H w) b [b] t = Some (Inr (Some ?bs))" using facts Inr REORG by simp
      note sh = fork_blocks_shape [OF fb]
      obtain y v where v: "HandleReorg w ?bs t = Some (y, v)" using run ds facts Inr REORG by (auto simp: process_new_block_def bind_process_def split: option.splits)
      have "state_open v \<and> block_outcome (GetTotalDifficulty (w_H w) CONFIRMED t) (last ?bs) y t v"
        using HandleReorg_outcome [OF cl w _ _ _ _ v] sh fits fb f(5) by (auto simp: fork_fits_def)
      moreover have "t' = v" "(\<exists>z. y = Inr z) \<longrightarrow> (\<exists>z. r = Inr z)"
        using run ds facts Inr REORG v by (auto simp: process_new_block_def bind_process_def run_action_def action_apply split: sum.splits)
      ultimately show ?thesis using sh by (auto simp: block_outcome_def)
    next
      case ORPHAN
      then have "batch_frame t t'" "True"
        using run ds facts Inr frame_refl [OF o]
        by (auto simp: process_new_block_def bind_process_def run_action_def bind_action_def action_apply on_orphanPool_def zoom_action_eq batch_frame_def split: if_splits)
      then show ?thesis using frame_clean [OF cl] outcome_unchanged by blast
    qed
  qed
qed



definition second_block :: full_block where
  "second_block = FullBlock_new second_header (tx_body sample_tx)"


end
