(* ===== verification/P2P_Messages.thy ===== *)
theory P2P_Messages
  imports Block_Models
begin

text \<open>
  The wire protocol: network addresses (\<^verbatim>\<open>include/Net\<close>), the node's capabilities and protocol
  constants (\<^verbatim>\<open>include/P2P\<close>), one serializer and one deserializer per message class
  (\<^verbatim>\<open>src/P2P/Messages\<close>), the message header and its validity, and the bytes a message is sent as.
\<close>

section \<open>Constants\<close>

definition PROTOCOL_VERSION :: u32 where "PROTOCOL_VERSION = 2"
definition HEADER_LENGTH :: u64 where "HEADER_LENGTH = 11"
definition MAX_BLOCK_SIZE :: u64 where
  "MAX_BLOCK_SIZE = ucast ((MAX_BLOCK_WEIGHT div ucast BLOCK_OUTPUT_WEIGHT) * 708)"
definition MAX_BLOCK_HEADERS :: u32 where "MAX_BLOCK_HEADERS = 512"
definition MAX_BLOCK_BODIES :: u32 where "MAX_BLOCK_BODIES = 16"
definition MAX_PEER_ADDRS :: u32 where "MAX_PEER_ADDRS = 256"
definition MAX_LOCATORS :: u32 where "MAX_LOCATORS = 20"
definition BAN_WINDOW :: int where "BAN_WINDOW = 10800"
definition RETRY_WINDOW :: int where "RETRY_WINDOW = 5 * 60"

lemmas p2p_consts = PROTOCOL_VERSION_def HEADER_LENGTH_def MAX_BLOCK_HEADERS_def MAX_BLOCK_BODIES_def MAX_PEER_ADDRS_def
  MAX_LOCATORS_def BAN_WINDOW_def RETRY_WINDOW_def

text \<open>What the environment fixes for a network.\<close>

definition GetMagicBytes :: "EEnvironmentType \<Rightarrow> u8 list" where
  "GetMagicBytes env = (if env = MAINNET then [97, 61] else [83, 59])"

definition GetP2PPort :: "EEnvironmentType \<Rightarrow> u16" where
  "GetP2PPort env = (if env = MAINNET then 3414 else 13414)"

section \<open>Addresses and capabilities\<close>

text \<open>An address holds its bytes in network order, as the networking library returns and takes them.\<close>

datatype ip_address = IPv4 "u8 list" | IPv6 "u8 list"

text \<open>\<^verbatim>\<open>Append\<close> at an array type copies the array's memory, reversed on a little-endian host.\<close>

definition Append_array_on :: "bool \<Rightarrow> u8 list \<Rightarrow> serializer \<Rightarrow> serializer" where
  "Append_array_on big bytes s = (if IsBigEndian big then insert_end bytes s else insert_end (rev bytes) s)"

definition Append_array :: "u8 list \<Rightarrow> serializer \<Rightarrow> serializer" where
  "Append_array bytes s = Append_array_on False bytes s"

definition IPAddress_Serialize :: "ip_address \<Rightarrow> serializer \<Rightarrow> serializer" where
  "IPAddress_Serialize a s = (case a of
      IPv4 bytes \<Rightarrow> Append_array bytes (Append (0 :: u8) s)
    | IPv6 bytes \<Rightarrow> Append_array bytes (Append (1 :: u8) s))"

definition IPAddress_Deserialize :: "ip_address reader" where
  "IPAddress_Deserialize =
     rbind ReadU8 (\<lambda>ipAddressFamily.
       if ipAddressFamily = 0 then rbind (ReadArray 4) (\<lambda>bytes. rreturn (IPv4 bytes))
       else if ipAddressFamily = 1 then rbind (ReadArray 16) (\<lambda>bytes. rreturn (IPv6 bytes))
       else rthrow DESERIALIZATION_EXCEPTION)"

definition IsLocalhost :: "ip_address \<Rightarrow> bool" where
  "IsLocalhost a = (case a of
      IPv4 bytes \<Rightarrow> hd bytes = 127
    | IPv6 bytes \<Rightarrow> bytes = replicate 15 0 @ [1])"

record socket_address =
  sa_ipAddress :: ip_address
  sa_port :: u16

definition SocketAddress_Serialize :: "socket_address \<Rightarrow> serializer \<Rightarrow> serializer" where
  "SocketAddress_Serialize a s = Append (sa_port a) (IPAddress_Serialize (sa_ipAddress a) s)"

definition SocketAddress_Deserialize :: "socket_address reader" where
  "SocketAddress_Deserialize =
     rbind IPAddress_Deserialize (\<lambda>ipAddress.
     rbind ReadU16 (\<lambda>port. rreturn \<lparr>sa_ipAddress = ipAddress, sa_port = port\<rparr>))"

type_synonym capabilities = u32

definition CAP_UNKNOWN :: capabilities where "CAP_UNKNOWN = 0x00"
definition FULL_HIST :: capabilities where "FULL_HIST = 0x01"
definition TXHASHET_HIST :: capabilities where "TXHASHET_HIST = 0x02"
definition PEER_LIST :: capabilities where "PEER_LIST = 0x04"
definition FAST_SYNC_NODE :: capabilities where "FAST_SYNC_NODE = TXHASHET_HIST OR PEER_LIST"
definition ARCHIVE_NODE :: capabilities where "ARCHIVE_NODE = FULL_HIST OR TXHASHET_HIST OR PEER_LIST"

definition IsUnknown :: "capabilities \<Rightarrow> bool" where "IsUnknown m = (m = CAP_UNKNOWN)"

definition HasCapability :: "capabilities \<Rightarrow> capabilities \<Rightarrow> bool" where
  "HasCapability capability m \<longleftrightarrow> m AND capability = capability"

definition AddCapability :: "capabilities \<Rightarrow> capabilities \<Rightarrow> capabilities" where
  "AddCapability capability m = m OR capability"

definition Capabilities_Serialize :: "capabilities \<Rightarrow> serializer \<Rightarrow> serializer" where
  "Capabilities_Serialize m s = Append m s"

definition Capabilities_Deserialize :: "capabilities reader" where
  "Capabilities_Deserialize = ReadU32"

section \<open>Message types\<close>

text \<open>A type byte outside the enumeration is kept as it is.\<close>

datatype EMessageType =
    Msg_Error | Msg_Hand | Msg_Shake | Msg_Ping | Msg_Pong | Msg_GetPeerAddrs | Msg_PeerAddrs | Msg_GetHeaders
  | Msg_Header | Msg_Headers | Msg_GetBlock | Msg_Block | Msg_GetCompactBlock | Msg_CompactBlock
  | Msg_StemTransaction | Msg_Transaction | Msg_TxHashSetRequest | Msg_TxHashSetArchive | Msg_BanReason
  | Msg_GetTransaction | Msg_TransactionKernel | Msg_GetKernels | Msg_Kernels | Msg_other u8

definition message_types :: "EMessageType list" where
  "message_types =
     [Msg_Error, Msg_Hand, Msg_Shake, Msg_Ping, Msg_Pong, Msg_GetPeerAddrs, Msg_PeerAddrs, Msg_GetHeaders,
      Msg_Header, Msg_Headers, Msg_GetBlock, Msg_Block, Msg_GetCompactBlock, Msg_CompactBlock,
      Msg_StemTransaction, Msg_Transaction, Msg_TxHashSetRequest, Msg_TxHashSetArchive, Msg_BanReason,
      Msg_GetTransaction, Msg_TransactionKernel, Msg_GetKernels, Msg_Kernels]"

definition type_of_byte :: "u8 \<Rightarrow> EMessageType" where
  "type_of_byte b = (if unat b < length message_types then message_types ! unat b else Msg_other b)"

fun byte_of_type :: "EMessageType \<Rightarrow> u8" where
  "byte_of_type Msg_Error = 0" | "byte_of_type Msg_Hand = 1" | "byte_of_type Msg_Shake = 2"
| "byte_of_type Msg_Ping = 3" | "byte_of_type Msg_Pong = 4" | "byte_of_type Msg_GetPeerAddrs = 5"
| "byte_of_type Msg_PeerAddrs = 6" | "byte_of_type Msg_GetHeaders = 7" | "byte_of_type Msg_Header = 8"
| "byte_of_type Msg_Headers = 9" | "byte_of_type Msg_GetBlock = 10" | "byte_of_type Msg_Block = 11"
| "byte_of_type Msg_GetCompactBlock = 12" | "byte_of_type Msg_CompactBlock = 13"
| "byte_of_type Msg_StemTransaction = 14" | "byte_of_type Msg_Transaction = 15"
| "byte_of_type Msg_TxHashSetRequest = 16" | "byte_of_type Msg_TxHashSetArchive = 17"
| "byte_of_type Msg_BanReason = 18" | "byte_of_type Msg_GetTransaction = 19"
| "byte_of_type Msg_TransactionKernel = 20" | "byte_of_type Msg_GetKernels = 21" | "byte_of_type Msg_Kernels = 22"
| "byte_of_type (Msg_other b) = b"

fun GetMaximumSize :: "EMessageType \<Rightarrow> u64" where
  "GetMaximumSize Msg_Error = 0"
| "GetMaximumSize Msg_Hand = 128"
| "GetMaximumSize Msg_Shake = 88"
| "GetMaximumSize Msg_Ping = 16"
| "GetMaximumSize Msg_Pong = 16"
| "GetMaximumSize Msg_GetPeerAddrs = 4"
| "GetMaximumSize Msg_PeerAddrs = 4 + (1 + 16 + 2) * ucast MAX_PEER_ADDRS"
| "GetMaximumSize Msg_GetHeaders = 1 + 32 * ucast MAX_LOCATORS"
| "GetMaximumSize Msg_Header = 365"
| "GetMaximumSize Msg_Headers = 2 + 365 * ucast MAX_BLOCK_HEADERS"
| "GetMaximumSize Msg_GetBlock = 32"
| "GetMaximumSize Msg_Block = MAX_BLOCK_SIZE"
| "GetMaximumSize Msg_GetCompactBlock = 32"
| "GetMaximumSize Msg_CompactBlock = MAX_BLOCK_SIZE div 10"
| "GetMaximumSize Msg_StemTransaction = MAX_BLOCK_SIZE"
| "GetMaximumSize Msg_Transaction = MAX_BLOCK_SIZE"
| "GetMaximumSize Msg_TxHashSetRequest = 40"
| "GetMaximumSize Msg_TxHashSetArchive = 64"
| "GetMaximumSize Msg_BanReason = 64"
| "GetMaximumSize Msg_GetTransaction = 32"
| "GetMaximumSize Msg_TransactionKernel = 32"
| "GetMaximumSize _ = 0"

record message_header =
  mh_magicBytes :: "u8 list"
  mh_messageType :: EMessageType
  mh_messageLength :: u64

definition MessageHeader_IsValid :: "EEnvironmentType \<Rightarrow> message_header \<Rightarrow> bool" where
  "MessageHeader_IsValid env h \<longleftrightarrow>
     mh_magicBytes h ! 0 = GetMagicBytes env ! 0 \<and> mh_magicBytes h ! 1 = GetMagicBytes env ! 1 \<and>
     mh_messageLength h \<le> GetMaximumSize (mh_messageType h) * 4"

definition MessageHeader_Deserialize :: "message_header reader" where
  "MessageHeader_Deserialize =
     rbind ReadU8 (\<lambda>magicByte1.
     rbind ReadU8 (\<lambda>magicByte2.
     rbind ReadU8 (\<lambda>messageType.
     rbind ReadU64 (\<lambda>messageLength.
       rreturn \<lparr>mh_magicBytes = [magicByte1, magicByte2], mh_messageType = type_of_byte messageType,
                mh_messageLength = messageLength\<rparr>))))"

record raw_message =
  rm_messageHeader :: message_header
  rm_payload :: "u8 list"

section \<open>Messages\<close>

record hand_message =
  hm_version :: u32
  hm_capabilities :: capabilities
  hm_nonce :: u64
  hm_hash :: big_integer
  hm_totalDifficulty :: u64
  hm_senderAddress :: socket_address
  hm_receiverAddress :: socket_address
  hm_userAgent :: "u8 list"

record shake_message =
  sm_version :: u32
  sm_capabilities :: capabilities
  sm_hash :: big_integer
  sm_totalDifficulty :: u64
  sm_userAgent :: "u8 list"

datatype message =
    ErrorMessage u32 "u8 list"
  | HandMessage hand_message
  | ShakeMessage shake_message
  | PingMessage u64 u64
  | PongMessage u64 u64
  | GetPeerAddressesMessage capabilities
  | PeerAddressesMessage "socket_address list"
  | GetHeadersMessage "big_integer list"
  | HeaderMessage block_header
  | HeadersMessage "block_header list"
  | GetBlockMessage big_integer
  | BlockMessage full_block
  | GetCompactBlockMessage big_integer
  | CompactBlockMessage compact_block
  | StemTransactionMessage transaction
  | TransactionMessage transaction
  | TxHashSetRequestMessage big_integer u64
  | TxHashSetArchiveMessage big_integer u64 u64
  | BanReasonMessage u32
  | GetTransactionMessage big_integer
  | TransactionKernelMessage big_integer

fun GetMessageType :: "message \<Rightarrow> EMessageType" where
  "GetMessageType (ErrorMessage _ _) = Msg_Error"
| "GetMessageType (HandMessage _) = Msg_Hand"
| "GetMessageType (ShakeMessage _) = Msg_Shake"
| "GetMessageType (PingMessage _ _) = Msg_Ping"
| "GetMessageType (PongMessage _ _) = Msg_Pong"
| "GetMessageType (GetPeerAddressesMessage _) = Msg_GetPeerAddrs"
| "GetMessageType (PeerAddressesMessage _) = Msg_PeerAddrs"
| "GetMessageType (GetHeadersMessage _) = Msg_GetHeaders"
| "GetMessageType (HeaderMessage _) = Msg_Header"
| "GetMessageType (HeadersMessage _) = Msg_Headers"
| "GetMessageType (GetBlockMessage _) = Msg_GetBlock"
| "GetMessageType (BlockMessage _) = Msg_Block"
| "GetMessageType (GetCompactBlockMessage _) = Msg_GetCompactBlock"
| "GetMessageType (CompactBlockMessage _) = Msg_CompactBlock"
| "GetMessageType (StemTransactionMessage _) = Msg_StemTransaction"
| "GetMessageType (TransactionMessage _) = Msg_Transaction"
| "GetMessageType (TxHashSetRequestMessage _ _) = Msg_TxHashSetRequest"
| "GetMessageType (TxHashSetArchiveMessage _ _ _) = Msg_TxHashSetArchive"
| "GetMessageType (BanReasonMessage _) = Msg_BanReason"
| "GetMessageType (GetTransactionMessage _) = Msg_GetTransaction"
| "GetMessageType (TransactionKernelMessage _) = Msg_TransactionKernel"

text \<open>One pair of operations per class. The class keeps a reference to the text of an error message; the model keeps the text.\<close>

definition ErrorMessage_SerializeBody :: "u32 \<Rightarrow> u8 list \<Rightarrow> serializer \<Rightarrow> serializer" where
  "ErrorMessage_SerializeBody errorCode msg s = AppendVarStr msg (Append errorCode s)"

definition ErrorMessage_Deserialize :: "message reader" where
  "ErrorMessage_Deserialize =
     rbind ReadU32 (\<lambda>errorCode. rbind ReadVarStr (\<lambda>msg. rreturn (ErrorMessage errorCode msg)))"

definition HandMessage_SerializeBody :: "hand_message \<Rightarrow> serializer \<Rightarrow> serializer" where
  "HandMessage_SerializeBody m s =
     (let s = Append (hm_version m) s;
          s = Capabilities_Serialize (hm_capabilities m) s;
          s = Append (hm_nonce m) s;
          s = Append (hm_totalDifficulty m) s;
          s = SocketAddress_Serialize (hm_senderAddress m) s;
          s = SocketAddress_Serialize (hm_receiverAddress m) s;
          s = AppendVarStr (hm_userAgent m) s
      in AppendBigInteger (hm_hash m) s)"

definition HandMessage_Deserialize :: "message reader" where
  "HandMessage_Deserialize =
     rbind ReadU32 (\<lambda>version.
     rbind Capabilities_Deserialize (\<lambda>capabilities.
     rbind ReadU64 (\<lambda>nonce.
     rbind ReadU64 (\<lambda>totalDifficulty.
     rbind SocketAddress_Deserialize (\<lambda>senderAddress.
     rbind SocketAddress_Deserialize (\<lambda>receiverAddress.
     rbind ReadVarStr (\<lambda>userAgent.
     rbind (ReadBigInteger 32) (\<lambda>hash.
       rreturn (HandMessage \<lparr>hm_version = version, hm_capabilities = capabilities, hm_nonce = nonce, hm_hash = hash,
         hm_totalDifficulty = totalDifficulty, hm_senderAddress = senderAddress, hm_receiverAddress = receiverAddress,
         hm_userAgent = userAgent\<rparr>)))))))))"

definition ShakeMessage_SerializeBody :: "shake_message \<Rightarrow> serializer \<Rightarrow> serializer" where
  "ShakeMessage_SerializeBody m s =
     (let s = Append (sm_version m) s;
          s = Capabilities_Serialize (sm_capabilities m) s;
          s = Append (sm_totalDifficulty m) s;
          s = AppendVarStr (sm_userAgent m) s
      in AppendBigInteger (sm_hash m) s)"

definition ShakeMessage_Deserialize :: "message reader" where
  "ShakeMessage_Deserialize =
     rbind ReadU32 (\<lambda>version.
     rbind Capabilities_Deserialize (\<lambda>capabilities.
     rbind ReadU64 (\<lambda>totalDifficulty.
     rbind ReadVarStr (\<lambda>userAgent.
     rbind (ReadBigInteger 32) (\<lambda>hash.
       rreturn (ShakeMessage \<lparr>sm_version = version, sm_capabilities = capabilities, sm_hash = hash,
         sm_totalDifficulty = totalDifficulty, sm_userAgent = userAgent\<rparr>))))))"

definition PingMessage_SerializeBody :: "u64 \<Rightarrow> u64 \<Rightarrow> serializer \<Rightarrow> serializer" where
  "PingMessage_SerializeBody totalDifficulty height s = Append height (Append totalDifficulty s)"

definition PingMessage_Deserialize :: "message reader" where
  "PingMessage_Deserialize =
     rbind ReadU64 (\<lambda>totalDifficulty. rbind ReadU64 (\<lambda>height. rreturn (PingMessage totalDifficulty height)))"

definition PongMessage_SerializeBody :: "u64 \<Rightarrow> u64 \<Rightarrow> serializer \<Rightarrow> serializer" where
  "PongMessage_SerializeBody totalDifficulty height s = Append height (Append totalDifficulty s)"

definition PongMessage_Deserialize :: "message reader" where
  "PongMessage_Deserialize =
     rbind ReadU64 (\<lambda>totalDifficulty. rbind ReadU64 (\<lambda>height. rreturn (PongMessage totalDifficulty height)))"

definition GetPeerAddressesMessage_SerializeBody :: "capabilities \<Rightarrow> serializer \<Rightarrow> serializer" where
  "GetPeerAddressesMessage_SerializeBody c s = Capabilities_Serialize c s"

definition GetPeerAddressesMessage_Deserialize :: "message reader" where
  "GetPeerAddressesMessage_Deserialize = rbind Capabilities_Deserialize (\<lambda>c. rreturn (GetPeerAddressesMessage c))"

definition PeerAddressesMessage_SerializeBody :: "socket_address list \<Rightarrow> serializer \<Rightarrow> serializer" where
  "PeerAddressesMessage_SerializeBody addresses s =
     fold SocketAddress_Serialize addresses (Append (ucast (of_nat (length addresses) :: u64) :: u32) s)"

definition PeerAddressesMessage_Deserialize :: "message reader" where
  "PeerAddressesMessage_Deserialize =
     rbind ReadU32 (\<lambda>numAddresses.
     rbind (read_n (unat numAddresses) SocketAddress_Deserialize) (\<lambda>addresses. rreturn (PeerAddressesMessage addresses)))"

definition GetHeadersMessage_SerializeBody :: "big_integer list \<Rightarrow> serializer \<Rightarrow> serializer" where
  "GetHeadersMessage_SerializeBody hashes s =
     fold AppendBigInteger hashes (Append (ucast (of_nat (length hashes) :: u64) :: u8) s)"

definition GetHeadersMessage_Deserialize :: "message reader" where
  "GetHeadersMessage_Deserialize =
     rbind ReadU8 (\<lambda>numHashes.
     rbind (read_n (unat numHashes) (ReadBigInteger 32)) (\<lambda>hashes. rreturn (GetHeadersMessage hashes)))"

definition HeaderMessage_SerializeBody :: "block_header \<Rightarrow> serializer \<Rightarrow> serializer" where
  "HeaderMessage_SerializeBody header s = BlockHeader_Serialize header s"

definition HeaderMessage_Deserialize :: "hash_fn \<Rightarrow> message reader" where
  "HeaderMessage_Deserialize H = rbind (BlockHeader_Deserialize H) (\<lambda>header. rreturn (HeaderMessage header))"

definition HeadersMessage_SerializeBody :: "block_header list \<Rightarrow> serializer \<Rightarrow> serializer" where
  "HeadersMessage_SerializeBody headers s =
     fold BlockHeader_Serialize headers (Append (ucast (of_nat (length headers) :: u64) :: u16) s)"

definition HeadersMessage_Deserialize :: "hash_fn \<Rightarrow> message reader" where
  "HeadersMessage_Deserialize H =
     rbind ReadU16 (\<lambda>numHeaders.
     rbind (read_n (unat numHeaders) (BlockHeader_Deserialize H)) (\<lambda>headers. rreturn (HeadersMessage headers)))"

definition GetBlockMessage_SerializeBody :: "big_integer \<Rightarrow> serializer \<Rightarrow> serializer" where
  "GetBlockMessage_SerializeBody hash s = AppendBigInteger hash s"

definition GetBlockMessage_Deserialize :: "message reader" where
  "GetBlockMessage_Deserialize = rbind (ReadBigInteger 32) (\<lambda>hash. rreturn (GetBlockMessage hash))"

definition BlockMessage_SerializeBody :: "full_block \<Rightarrow> serializer \<Rightarrow> serializer" where
  "BlockMessage_SerializeBody b s = FullBlock_Serialize b s"

definition BlockMessage_Deserialize :: "hash_fn \<Rightarrow> message reader" where
  "BlockMessage_Deserialize H = rbind (FullBlock_Deserialize H) (\<lambda>b. rreturn (BlockMessage b))"

definition GetCompactBlockMessage_SerializeBody :: "big_integer \<Rightarrow> serializer \<Rightarrow> serializer" where
  "GetCompactBlockMessage_SerializeBody hash s = AppendBigInteger hash s"

definition GetCompactBlockMessage_Deserialize :: "message reader" where
  "GetCompactBlockMessage_Deserialize = rbind (ReadBigInteger 32) (\<lambda>hash. rreturn (GetCompactBlockMessage hash))"

definition CompactBlockMessage_SerializeBody :: "compact_block \<Rightarrow> serializer \<Rightarrow> serializer" where
  "CompactBlockMessage_SerializeBody b s = CompactBlock_Serialize b s"

definition CompactBlockMessage_Deserialize :: "hash_fn \<Rightarrow> message reader" where
  "CompactBlockMessage_Deserialize H = rbind (CompactBlock_Deserialize H) (\<lambda>b. rreturn (CompactBlockMessage b))"

definition StemTransactionMessage_SerializeBody :: "transaction \<Rightarrow> serializer \<Rightarrow> serializer" where
  "StemTransactionMessage_SerializeBody t s = Transaction_Serialize t s"

definition StemTransactionMessage_Deserialize :: "hash_fn \<Rightarrow> message reader" where
  "StemTransactionMessage_Deserialize H = rbind (Transaction_Deserialize H) (\<lambda>t. rreturn (StemTransactionMessage t))"

definition TransactionMessage_SerializeBody :: "transaction \<Rightarrow> serializer \<Rightarrow> serializer" where
  "TransactionMessage_SerializeBody t s = Transaction_Serialize t s"

definition TransactionMessage_Deserialize :: "hash_fn \<Rightarrow> message reader" where
  "TransactionMessage_Deserialize H = rbind (Transaction_Deserialize H) (\<lambda>t. rreturn (TransactionMessage t))"

definition TxHashSetRequestMessage_SerializeBody :: "big_integer \<Rightarrow> u64 \<Rightarrow> serializer \<Rightarrow> serializer" where
  "TxHashSetRequestMessage_SerializeBody blockHash blockHeight s = Append blockHeight (AppendBigInteger blockHash s)"

definition TxHashSetRequestMessage_Deserialize :: "message reader" where
  "TxHashSetRequestMessage_Deserialize =
     rbind (ReadBigInteger 32) (\<lambda>blockHash. rbind ReadU64 (\<lambda>blockHeight.
       rreturn (TxHashSetRequestMessage blockHash blockHeight)))"

definition TxHashSetArchiveMessage_SerializeBody :: "big_integer \<Rightarrow> u64 \<Rightarrow> u64 \<Rightarrow> serializer \<Rightarrow> serializer" where
  "TxHashSetArchiveMessage_SerializeBody blockHash blockHeight zippedDataSize s =
     Append zippedDataSize (Append blockHeight (AppendBigInteger blockHash s))"

definition TxHashSetArchiveMessage_Deserialize :: "message reader" where
  "TxHashSetArchiveMessage_Deserialize =
     rbind (ReadBigInteger 32) (\<lambda>blockHash. rbind ReadU64 (\<lambda>blockHeight. rbind ReadU64 (\<lambda>zippedDataSize.
       rreturn (TxHashSetArchiveMessage blockHash blockHeight zippedDataSize))))"

definition BanReasonMessage_SerializeBody :: "u32 \<Rightarrow> serializer \<Rightarrow> serializer" where
  "BanReasonMessage_SerializeBody banReason s = Append banReason s"

definition BanReasonMessage_Deserialize :: "message reader" where
  "BanReasonMessage_Deserialize = rbind ReadU32 (\<lambda>banReason. rreturn (BanReasonMessage banReason))"

definition GetTransactionMessage_SerializeBody :: "big_integer \<Rightarrow> serializer \<Rightarrow> serializer" where
  "GetTransactionMessage_SerializeBody kernelHash s = AppendBigInteger kernelHash s"

definition GetTransactionMessage_Deserialize :: "message reader" where
  "GetTransactionMessage_Deserialize = rbind (ReadBigInteger 32) (\<lambda>kernelHash. rreturn (GetTransactionMessage kernelHash))"

definition TransactionKernelMessage_SerializeBody :: "big_integer \<Rightarrow> serializer \<Rightarrow> serializer" where
  "TransactionKernelMessage_SerializeBody kernelHash s = AppendBigInteger kernelHash s"

definition TransactionKernelMessage_Deserialize :: "message reader" where
  "TransactionKernelMessage_Deserialize =
     rbind (ReadBigInteger 32) (\<lambda>kernelHash. rreturn (TransactionKernelMessage kernelHash))"

text \<open>The virtual \<^verbatim>\<open>SerializeBody\<close>, and the deserializer the receiver picks by the header's type.\<close>

fun SerializeBody :: "message \<Rightarrow> serializer \<Rightarrow> serializer" where
  "SerializeBody (ErrorMessage c t) = ErrorMessage_SerializeBody c t"
| "SerializeBody (HandMessage m) = HandMessage_SerializeBody m"
| "SerializeBody (ShakeMessage m) = ShakeMessage_SerializeBody m"
| "SerializeBody (PingMessage d h) = PingMessage_SerializeBody d h"
| "SerializeBody (PongMessage d h) = PongMessage_SerializeBody d h"
| "SerializeBody (GetPeerAddressesMessage c) = GetPeerAddressesMessage_SerializeBody c"
| "SerializeBody (PeerAddressesMessage as) = PeerAddressesMessage_SerializeBody as"
| "SerializeBody (GetHeadersMessage hs) = GetHeadersMessage_SerializeBody hs"
| "SerializeBody (HeaderMessage h) = HeaderMessage_SerializeBody h"
| "SerializeBody (HeadersMessage hs) = HeadersMessage_SerializeBody hs"
| "SerializeBody (GetBlockMessage h) = GetBlockMessage_SerializeBody h"
| "SerializeBody (BlockMessage b) = BlockMessage_SerializeBody b"
| "SerializeBody (GetCompactBlockMessage h) = GetCompactBlockMessage_SerializeBody h"
| "SerializeBody (CompactBlockMessage b) = CompactBlockMessage_SerializeBody b"
| "SerializeBody (StemTransactionMessage t) = StemTransactionMessage_SerializeBody t"
| "SerializeBody (TransactionMessage t) = TransactionMessage_SerializeBody t"
| "SerializeBody (TxHashSetRequestMessage h n) = TxHashSetRequestMessage_SerializeBody h n"
| "SerializeBody (TxHashSetArchiveMessage h n z) = TxHashSetArchiveMessage_SerializeBody h n z"
| "SerializeBody (BanReasonMessage r) = BanReasonMessage_SerializeBody r"
| "SerializeBody (GetTransactionMessage k) = GetTransactionMessage_SerializeBody k"
| "SerializeBody (TransactionKernelMessage k) = TransactionKernelMessage_SerializeBody k"

fun body_reader :: "hash_fn \<Rightarrow> EMessageType \<Rightarrow> message reader" where
  "body_reader H Msg_Error = ErrorMessage_Deserialize"
| "body_reader H Msg_Hand = HandMessage_Deserialize"
| "body_reader H Msg_Shake = ShakeMessage_Deserialize"
| "body_reader H Msg_Ping = PingMessage_Deserialize"
| "body_reader H Msg_Pong = PongMessage_Deserialize"
| "body_reader H Msg_GetPeerAddrs = GetPeerAddressesMessage_Deserialize"
| "body_reader H Msg_PeerAddrs = PeerAddressesMessage_Deserialize"
| "body_reader H Msg_GetHeaders = GetHeadersMessage_Deserialize"
| "body_reader H Msg_Header = HeaderMessage_Deserialize H"
| "body_reader H Msg_Headers = HeadersMessage_Deserialize H"
| "body_reader H Msg_GetBlock = GetBlockMessage_Deserialize"
| "body_reader H Msg_Block = BlockMessage_Deserialize H"
| "body_reader H Msg_GetCompactBlock = GetCompactBlockMessage_Deserialize"
| "body_reader H Msg_CompactBlock = CompactBlockMessage_Deserialize H"
| "body_reader H Msg_StemTransaction = StemTransactionMessage_Deserialize H"
| "body_reader H Msg_Transaction = TransactionMessage_Deserialize H"
| "body_reader H Msg_TxHashSetRequest = TxHashSetRequestMessage_Deserialize"
| "body_reader H Msg_TxHashSetArchive = TxHashSetArchiveMessage_Deserialize"
| "body_reader H Msg_BanReason = BanReasonMessage_Deserialize"
| "body_reader H Msg_GetTransaction = GetTransactionMessage_Deserialize"
| "body_reader H Msg_TransactionKernel = TransactionKernelMessage_Deserialize"
| "body_reader H _ = rthrow DESERIALIZATION_EXCEPTION"

text \<open>The bytes \<^verbatim>\<open>MessageSender::Send\<close> hands to the socket.\<close>

definition message_bytes :: "EEnvironmentType \<Rightarrow> message \<Rightarrow> EProtocolVersion \<Rightarrow> u8 list" where
  "message_bytes env m protocolVersion =
     (let s = Serializer_new protocolVersion;
          s = AppendByteVector LEN_NONE (GetMagicBytes env) s;
          s = Append (byte_of_type (GetMessageType m)) s;
          bodySerializer = SerializeBody m (Serializer_new protocolVersion);
          s = Append (of_nat (length (s_serialized bodySerializer)) :: u64) s;
          s = AppendByteVector LEN_NONE (GetBytes bodySerializer) s
      in GetBytes s)"

section \<open>The wire format\<close>

text \<open>The sender writes the bytes of an address in the opposite order to the one the receiver reads them in:
  \<open>reverse_ip\<close> is what an address becomes on the way. The format itself is that of the receiver.\<close>

fun reverse_ip :: "ip_address \<Rightarrow> ip_address" where
  "reverse_ip (IPv4 bytes) = IPv4 (rev bytes)"
| "reverse_ip (IPv6 bytes) = IPv6 (rev bytes)"

definition reverse_socket :: "socket_address \<Rightarrow> socket_address" where
  "reverse_socket a = a\<lparr>sa_ipAddress := reverse_ip (sa_ipAddress a)\<rparr>"

fun reverse_addresses :: "message \<Rightarrow> message" where
  "reverse_addresses (HandMessage m) =
     HandMessage (m\<lparr>hm_senderAddress := reverse_socket (hm_senderAddress m),
                    hm_receiverAddress := reverse_socket (hm_receiverAddress m)\<rparr>)"
| "reverse_addresses (PeerAddressesMessage as) = PeerAddressesMessage (map reverse_socket as)"
| "reverse_addresses m = m"

fun ip_enc :: "ip_address \<Rightarrow> u8 list" where
  "ip_enc (IPv4 bytes) = be_bytes (0 :: u8) @ bytes"
| "ip_enc (IPv6 bytes) = be_bytes (1 :: u8) @ bytes"

fun ip_ok :: "ip_address \<Rightarrow> bool" where
  "ip_ok (IPv4 bytes) \<longleftrightarrow> length bytes = 4"
| "ip_ok (IPv6 bytes) \<longleftrightarrow> length bytes = 16"

definition socket_enc :: "socket_address \<Rightarrow> u8 list" where
  "socket_enc a = ip_enc (sa_ipAddress a) @ be_bytes (sa_port a)"

definition varstr_enc :: "u8 list \<Rightarrow> u8 list" where
  "varstr_enc t = be_bytes (of_nat (length t) :: u64) @ t"

fun body_bytes :: "EProtocolVersion \<Rightarrow> message \<Rightarrow> u8 list" where
  "body_bytes v (ErrorMessage c t) = be_bytes c @ varstr_enc t"
| "body_bytes v (HandMessage m) =
     be_bytes (hm_version m) @ be_bytes (hm_capabilities m) @ be_bytes (hm_nonce m) @ be_bytes (hm_totalDifficulty m) @
     socket_enc (hm_senderAddress m) @ socket_enc (hm_receiverAddress m) @ varstr_enc (hm_userAgent m) @ hm_hash m"
| "body_bytes v (ShakeMessage m) =
     be_bytes (sm_version m) @ be_bytes (sm_capabilities m) @ be_bytes (sm_totalDifficulty m) @
     varstr_enc (sm_userAgent m) @ sm_hash m"
| "body_bytes v (PingMessage d h) = be_bytes d @ be_bytes h"
| "body_bytes v (PongMessage d h) = be_bytes d @ be_bytes h"
| "body_bytes v (GetPeerAddressesMessage c) = be_bytes c"
| "body_bytes v (PeerAddressesMessage as) =
     be_bytes (ucast (of_nat (length as) :: u64) :: u32) @ concat (map socket_enc as)"
| "body_bytes v (GetHeadersMessage hs) = be_bytes (ucast (of_nat (length hs) :: u64) :: u8) @ concat hs"
| "body_bytes v (HeaderMessage h) = header_enc v h"
| "body_bytes v (HeadersMessage hs) =
     be_bytes (ucast (of_nat (length hs) :: u64) :: u16) @ concat (map (header_enc v) hs)"
| "body_bytes v (GetBlockMessage h) = h"
| "body_bytes v (BlockMessage b) = header_enc v (fb_header b) @ body_enc v (fb_body b)"
| "body_bytes v (GetCompactBlockMessage h) = h"
| "body_bytes v (CompactBlockMessage b) = compact_enc v b"
| "body_bytes v (StemTransactionMessage t) = transaction_enc v t"
| "body_bytes v (TransactionMessage t) = transaction_enc v t"
| "body_bytes v (TxHashSetRequestMessage h n) = h @ be_bytes n"
| "body_bytes v (TxHashSetArchiveMessage h n z) = h @ be_bytes n @ be_bytes z"
| "body_bytes v (BanReasonMessage r) = be_bytes r"
| "body_bytes v (GetTransactionMessage k) = k"
| "body_bytes v (TransactionKernelMessage k) = k"

text \<open>The messages the format can carry.\<close>

fun message_ok :: "hash_fn \<Rightarrow> EProtocolVersion \<Rightarrow> message \<Rightarrow> bool" where
  "message_ok H v (ErrorMessage c t) \<longleftrightarrow> length t < 2 ^ 64"
| "message_ok H v (HandMessage m) \<longleftrightarrow> ip_ok (sa_ipAddress (hm_senderAddress m)) \<and> ip_ok (sa_ipAddress (hm_receiverAddress m)) \<and>
     length (hm_userAgent m) < 2 ^ 64 \<and> length (hm_hash m) = 32"
| "message_ok H v (ShakeMessage m) \<longleftrightarrow> length (sm_userAgent m) < 2 ^ 64 \<and> length (sm_hash m) = 32"
| "message_ok H v (PeerAddressesMessage as) \<longleftrightarrow> list_all (\<lambda>a. ip_ok (sa_ipAddress a)) as \<and> length as < 2 ^ 32"
| "message_ok H v (GetHeadersMessage hs) \<longleftrightarrow> list_all (\<lambda>h. length h = 32) hs \<and> length hs < 2 ^ 8"
| "message_ok H v (HeaderMessage h) \<longleftrightarrow> header_ok H v h"
| "message_ok H v (HeadersMessage hs) \<longleftrightarrow> list_all (header_ok H v) hs \<and> length hs < 2 ^ 16"
| "message_ok H v (GetBlockMessage h) \<longleftrightarrow> length h = 32"
| "message_ok H v (BlockMessage b) \<longleftrightarrow> header_ok H v (fb_header b) \<and> body_ok H v (fb_body b) \<and> \<not> fb_validated b"
| "message_ok H v (GetCompactBlockMessage h) \<longleftrightarrow> length h = 32"
| "message_ok H v (CompactBlockMessage b) \<longleftrightarrow> compact_ok H v b"
| "message_ok H v (StemTransactionMessage t) \<longleftrightarrow> transaction_ok H v t"
| "message_ok H v (TransactionMessage t) \<longleftrightarrow> transaction_ok H v t"
| "message_ok H v (TxHashSetRequestMessage h n) \<longleftrightarrow> length h = 32"
| "message_ok H v (TxHashSetArchiveMessage h n z) \<longleftrightarrow> length h = 32"
| "message_ok H v (GetTransactionMessage k) \<longleftrightarrow> length k = 32"
| "message_ok H v (TransactionKernelMessage k) \<longleftrightarrow> length k = 32"
| "message_ok H v _ \<longleftrightarrow> True"

lemma reverse_ip_involution [simp]: "reverse_ip (reverse_ip a) = a"
  by (cases a) simp_all

lemma reverse_socket_involution [simp]: "reverse_socket (reverse_socket a) = a"
  by (simp add: reverse_socket_def)

lemma reverse_addresses_involution [simp]: "reverse_addresses (reverse_addresses m) = m"
  by (cases m) (simp_all add: comp_def)

lemma ip_ok_reverse [simp]: "ip_ok (reverse_ip a) = ip_ok a"
  by (cases a) simp_all

lemma message_ok_reverse [simp]: "message_ok H v (reverse_addresses m) = message_ok H v m"
  by (cases m) (simp_all add: reverse_socket_def list_all_iff)

lemma GetMessageType_reverse [simp]: "GetMessageType (reverse_addresses m) = GetMessageType m"
  by (cases m) simp_all

lemma ip_ser: "IPAddress_Serialize a s = insert_end (ip_enc (reverse_ip a)) s"
  by (cases a) (simp_all add: IPAddress_Serialize_def Append_array_def Append_array_on_def Append_bytes)

lemma ip_decodes: "ip_ok a \<Longrightarrow> decodes v IPAddress_Deserialize (ip_enc a) a"
  unfolding IPAddress_Deserialize_def ReadArray_def
  by (cases a) (auto intro!: decodes_int decodes_last [OF decodes_ReadVector])

text \<open>The interface holds for the address as the receiver sees it.\<close>

interpretation socket_codec: codec "\<lambda>a. SocketAddress_Serialize (reverse_socket a)" SocketAddress_Deserialize
  "\<lambda>_. socket_enc" "\<lambda>_ a. ip_ok (sa_ipAddress a)"
proof (rule codecI)
  show "SocketAddress_Serialize (reverse_socket a) s = insert_end (socket_enc a) s" for a s
    by (simp add: SocketAddress_Serialize_def socket_enc_def ip_ser Append_bytes reverse_socket_def)
  show "decodes v SocketAddress_Deserialize (socket_enc a) a" if "ip_ok (sa_ipAddress a)" for v a
    using that unfolding SocketAddress_Deserialize_def socket_enc_def
    by (intro decodes_bind [OF ip_decodes] decodes_last [OF decodes_ReadInt(2)]) auto
qed

lemma socket_ser: "SocketAddress_Serialize a s = insert_end (socket_enc (reverse_socket a)) s"
  using socket_codec.ser_enc [of "reverse_socket a"] by simp

lemma fold_socket_ser:
  "fold SocketAddress_Serialize as s = insert_end (concat (map (socket_enc \<circ> reverse_socket) as)) s"
  by (induction as arbitrary: s) (simp_all add: socket_ser)

lemma fold_BigInteger: "fold AppendBigInteger hs s = insert_end (concat hs) s"
  by (induction hs arbitrary: s) (simp_all add: AppendBigInteger_def)

lemma decodes_ReadVarStr:
  assumes "length t < 2 ^ 64"
  shows "decodes v ReadVarStr (varstr_enc t) t"
proof (cases "t = []")
  case True
  then show ?thesis
    unfolding ReadVarStr_def varstr_enc_def by (auto intro!: decodes_last [OF decodes_ReadInt(4)])
next
  case False
  have len: "unat (of_nat (length t) :: u64) = length t" using assms by (simp add: unat_of_nat_small)
  then have "(of_nat (length t) :: u64) \<noteq> 0" using False by (metis length_0_conv unat_0)
  then have "decodes v (if (of_nat (length t) :: u64) = 0 then rreturn [] else ReadVector (of_nat (length t))) t t"
    using len by (simp add: decodes_ReadVector)
  then show ?thesis unfolding ReadVarStr_def varstr_enc_def by (rule decodes_int)
qed

lemma AppendVarStr_bytes: "AppendVarStr t s = insert_end (varstr_enc t) s"
  by (simp add: AppendVarStr_def AppendLength_def Append_bytes varstr_enc_def)

lemmas body_ser_defs = ErrorMessage_SerializeBody_def HandMessage_SerializeBody_def ShakeMessage_SerializeBody_def
  PingMessage_SerializeBody_def PongMessage_SerializeBody_def GetPeerAddressesMessage_SerializeBody_def
  PeerAddressesMessage_SerializeBody_def GetHeadersMessage_SerializeBody_def HeaderMessage_SerializeBody_def
  HeadersMessage_SerializeBody_def GetBlockMessage_SerializeBody_def BlockMessage_SerializeBody_def
  GetCompactBlockMessage_SerializeBody_def CompactBlockMessage_SerializeBody_def StemTransactionMessage_SerializeBody_def
  TransactionMessage_SerializeBody_def TxHashSetRequestMessage_SerializeBody_def TxHashSetArchiveMessage_SerializeBody_def
  BanReasonMessage_SerializeBody_def GetTransactionMessage_SerializeBody_def TransactionKernelMessage_SerializeBody_def

lemmas body_reader_defs = ErrorMessage_Deserialize_def HandMessage_Deserialize_def ShakeMessage_Deserialize_def
  PingMessage_Deserialize_def PongMessage_Deserialize_def GetPeerAddressesMessage_Deserialize_def
  PeerAddressesMessage_Deserialize_def GetHeadersMessage_Deserialize_def HeaderMessage_Deserialize_def
  HeadersMessage_Deserialize_def GetBlockMessage_Deserialize_def BlockMessage_Deserialize_def
  GetCompactBlockMessage_Deserialize_def CompactBlockMessage_Deserialize_def StemTransactionMessage_Deserialize_def
  TransactionMessage_Deserialize_def TxHashSetRequestMessage_Deserialize_def TxHashSetArchiveMessage_Deserialize_def
  BanReasonMessage_Deserialize_def GetTransactionMessage_Deserialize_def TransactionKernelMessage_Deserialize_def

lemma SerializeBody_bytes:
  "SerializeBody m s = insert_end (body_bytes (s_protocolVersion s) (reverse_addresses m)) s"
  by (cases m) (simp_all add: body_ser_defs Let_def Append_bytes AppendVarStr_bytes AppendBigInteger_def
      Capabilities_Serialize_def socket_ser fold_socket_ser fold_BigInteger header_codec.ser_enc header_codec.fold_ser
      block_codec.ser_enc compact_codec.ser_enc transaction_codec.ser_enc)

lemma ucast_length_u32: "n < 2 ^ 32 \<Longrightarrow> unat (ucast (of_nat n :: u64) :: u32) = n"
  by (simp add: unsigned_ucast_eq unsigned_take_bit_eq unat_of_nat_small take_bit_nat_eq_self)

lemma ucast_length_u8: "n < 2 ^ 8 \<Longrightarrow> unat (ucast (of_nat n :: u64) :: u8) = n"
  by (simp add: unsigned_ucast_eq unsigned_take_bit_eq unat_of_nat_small take_bit_nat_eq_self)

lemma hashes_decode: "list_all (\<lambda>h. length h = 32) hs \<Longrightarrow> n = length hs \<Longrightarrow> decodes v (read_n n (ReadBigInteger 32)) (concat hs) hs"
  using codec.read_n_decodes [OF canonical_codec.axioms(1) [OF BigInteger_codec [of 32]], where xs = hs and n = n and v = v] by simp

lemma body_decodes:
  assumes "message_ok H v m"
  shows "decodes v (body_reader H (GetMessageType m)) (body_bytes v m) m"
proof (cases m)
  case (HandMessage h)
  then show ?thesis
    using assms unfolding HandMessage body_reader.simps GetMessageType.simps body_bytes.simps HandMessage_Deserialize_def Capabilities_Deserialize_def
    by (intro decodes_int decodes_bind [OF socket_codec.des_decodes] decodes_bind [OF decodes_ReadVarStr]
        decodes_last [OF decodes_ReadBigInteger]) auto
next
  case (ShakeMessage h)
  then show ?thesis
    using assms unfolding ShakeMessage body_reader.simps GetMessageType.simps body_bytes.simps ShakeMessage_Deserialize_def Capabilities_Deserialize_def
    by (intro decodes_int decodes_bind [OF decodes_ReadVarStr] decodes_last [OF decodes_ReadBigInteger]) auto
next
  case (TxHashSetRequestMessage h n)
  then show ?thesis
    using assms by (auto simp: body_reader_defs intro!: decodes_bind [OF decodes_ReadBigInteger] decodes_last [OF decodes_ReadInt(4)])
next
  case (TxHashSetArchiveMessage h n z)
  then show ?thesis
    using assms by (auto simp: body_reader_defs intro!: decodes_bind [OF decodes_ReadBigInteger] decodes_int decodes_last [OF decodes_ReadInt(4)])
qed (use assms in \<open>auto simp: body_reader_defs Capabilities_Deserialize_def ucast_length_u32 ucast_length_u16 ucast_length_u8
      intro!: decodes_int decodes_last [OF decodes_ReadInt(3)] decodes_last [OF decodes_ReadInt(4)]
        decodes_last [OF decodes_ReadVarStr] decodes_last [OF decodes_ReadBigInteger]
        decodes_last [OF socket_codec.read_n_decodes] decodes_last [OF hashes_decode]
        decodes_last [OF header_codec.des_decodes] decodes_last [OF header_codec.read_n_decodes]
        decodes_last [OF block_codec.des_decodes] decodes_last [OF compact_codec.des_decodes]
        decodes_last [OF transaction_codec.des_decodes]\<close>)

end
