(* ===== verification/Peers.thy ===== *)
theory Peers
  imports P2P_Messages State_Actions "HOL-Library.List_Lexorder" "HOL-Library.Product_Lexorder"
begin

text \<open>
  The peers a node knows: \<^verbatim>\<open>Peer\<close> and \<^verbatim>\<open>ConnectedPeer\<close>
  (\<^verbatim>\<open>include/P2P\<close>), the peer database (\<^verbatim>\<open>src/Database/PeerDBImpl.cpp\<close>) and
  \<^verbatim>\<open>PeerManager\<close> (\<^verbatim>\<open>src/P2P/Seed\<close>). A peer object is shared by the manager's
  table and by connections, so peers live in a store and the table holds references.
\<close>

section \<open>Ordered maps\<close>

text \<open>\<^verbatim>\<open>std::map\<close> and the database's key space: association lists in key order.\<close>

fun om_put :: "'k::linorder \<Rightarrow> 'v \<Rightarrow> ('k \<times> 'v) list \<Rightarrow> ('k \<times> 'v) list" where
  "om_put k v [] = [(k, v)]"
| "om_put k v ((k', v') # m) =
     (if k < k' then (k, v) # (k', v') # m else if k = k' then (k, v) # m else (k', v') # om_put k v m)"

definition om_emplace :: "'k::linorder \<Rightarrow> 'v \<Rightarrow> ('k \<times> 'v) list \<Rightarrow> ('k \<times> 'v) list" where
  "om_emplace k v m = (if map_of m k = None then om_put k v m else m)"

definition om_erase :: "'k \<Rightarrow> ('k \<times> 'v) list \<Rightarrow> ('k \<times> 'v) list" where
  "om_erase k m = filter (\<lambda>(k', _). k' \<noteq> k) m"

abbreviation om_ok :: "('k::linorder \<times> 'v) list \<Rightarrow> bool" where
  "om_ok m \<equiv> sorted_wrt (<) (map fst m)"

lemma map_of_om_put [simp]: "om_ok m \<Longrightarrow> map_of (om_put k v m) = (map_of m)(k \<mapsto> v)"
  by (induction k v m rule: om_put.induct) (auto simp: fun_eq_iff map_of_eq_None_iff dest: weak_map_of_SomeI)

lemma fst_om_put [simp]: "fst ` set (om_put k v m) = insert k (fst ` set m)"
  by (induction k v m rule: om_put.induct) auto

lemma om_put_ok: "om_ok m \<Longrightarrow> om_ok (om_put k v m)"
  by (induction k v m rule: om_put.induct) (auto simp: image_iff Ball_def)

lemma set_om_put: "set (om_put k v m) \<subseteq> insert (k, v) (set m)"
  by (induction k v m rule: om_put.induct) auto

lemma om_emplace_ok: "om_ok m \<Longrightarrow> om_ok (om_emplace k v m)"
  by (simp add: om_emplace_def om_put_ok)

lemma map_of_om_emplace: "om_ok m \<Longrightarrow> map_of (om_emplace k v m) = (if map_of m k = None then (map_of m)(k \<mapsto> v) else map_of m)"
  by (simp add: om_emplace_def)

lemma om_erase_ok: "om_ok m \<Longrightarrow> om_ok (om_erase k m)"
  by (induction m) (auto simp: om_erase_def)

lemma map_of_om_erase [simp]: "map_of (om_erase k m) = (map_of m)(k := None)"
  by (induction m) (auto simp: om_erase_def fun_eq_iff)

section \<open>Peer\<close>

text \<open>The order of addresses is that of the networking library: version 4 before version 6, then the bytes.\<close>

fun ip_key :: "ip_address \<Rightarrow> nat \<times> u8 list" where
  "ip_key (IPv4 bytes) = (0, bytes)"
| "ip_key (IPv6 bytes) = (1, bytes)"

definition IPAddress_less :: "ip_address \<Rightarrow> ip_address \<Rightarrow> bool" where
  "IPAddress_less a b \<longleftrightarrow> ip_key a < ip_key b"

lemma ip_key_inject [simp]: "ip_key a = ip_key b \<longleftrightarrow> a = b"
  by (cases a; cases b) auto

instantiation ip_address :: linorder
begin

definition less_eq_ip_address :: "ip_address \<Rightarrow> ip_address \<Rightarrow> bool" where
  "less_eq_ip_address a b \<longleftrightarrow> ip_key a \<le> ip_key b"

definition less_ip_address :: "ip_address \<Rightarrow> ip_address \<Rightarrow> bool" where
  "less_ip_address a b \<longleftrightarrow> IPAddress_less a b"

instance
  by standard (auto simp: less_eq_ip_address_def less_ip_address_def IPAddress_less_def simp flip: ip_key_inject)

end

type_synonym ban_reason = "32 word"

definition NoBan :: ban_reason where "NoBan = 0"
definition BadBlock :: ban_reason where "BadBlock = 1"
definition BadCompactBlock :: ban_reason where "BadCompactBlock = 2"
definition BadBlockHeader :: ban_reason where "BadBlockHeader = 3"
definition BadTxHashSet :: ban_reason where "BadTxHashSet = 4"
definition ManualBan :: ban_reason where "ManualBan = 5"
definition FraudHeight :: ban_reason where "FraudHeight = 6"
definition BadHandshake :: ban_reason where "BadHandshake = 7"
definition Abusive :: ban_reason where "Abusive = 8"
definition BadTransaction :: ban_reason where "BadTransaction = 9"

record peer =
  p_dirty :: bool
  p_connected :: bool
  p_ipAddress :: ip_address
  p_version :: u32
  p_capabilities :: capabilities
  p_userAgent :: "u8 list"
  p_lastContactTime :: i64
  p_lastBanTime :: i64
  p_banReason :: ban_reason
  p_lastTxHashSetRequest :: i64

definition Peer_new :: "ip_address \<Rightarrow> peer" where
  "Peer_new ipAddress = \<lparr>p_dirty = False, p_connected = False, p_ipAddress = ipAddress, p_version = 0, p_capabilities = CAP_UNKNOWN,
     p_userAgent = [], p_lastContactTime = 0, p_lastBanTime = 0, p_banReason = NoBan, p_lastTxHashSetRequest = 0\<rparr>"

definition Peer_known :: "ip_address \<Rightarrow> u32 \<Rightarrow> capabilities \<Rightarrow> u8 list \<Rightarrow> peer" where
  "Peer_known ipAddress version c userAgent = \<lparr>p_dirty = False, p_connected = False, p_ipAddress = ipAddress, p_version = version,
     p_capabilities = c, p_userAgent = userAgent, p_lastContactTime = 0, p_lastBanTime = 0, p_banReason = NoBan,
     p_lastTxHashSetRequest = 0\<rparr>"

definition SetConnected :: "bool \<Rightarrow> peer \<Rightarrow> peer" where
  "SetConnected connected p = p\<lparr>p_connected := connected, p_dirty := True\<rparr>"

text \<open>\<open>now\<close> is the clock's reading in seconds.\<close>

definition UpdateLastContactTime :: "int \<Rightarrow> peer \<Rightarrow> peer" where
  "UpdateLastContactTime now p = p\<lparr>p_lastContactTime := word_of_int now\<rparr>"

definition Ban :: "int \<Rightarrow> ban_reason \<Rightarrow> peer \<Rightarrow> peer" where
  "Ban now banReason p = p\<lparr>p_lastBanTime := word_of_int now, p_banReason := banReason, p_dirty := True\<rparr>"

definition Unban :: "peer \<Rightarrow> peer" where
  "Unban p = p\<lparr>p_lastBanTime := 0, p_dirty := True\<rparr>"

definition UpdateLastTxHashSetRequest :: "int \<Rightarrow> peer \<Rightarrow> peer" where
  "UpdateLastTxHashSetRequest now p = p\<lparr>p_lastTxHashSetRequest := word_of_int now\<rparr>"

definition IsBanned :: "int \<Rightarrow> peer \<Rightarrow> bool" where
  "IsBanned now p \<longleftrightarrow> sint (p_lastBanTime p) > now - BAN_WINDOW"

definition Peer_Serialize :: "peer \<Rightarrow> serializer \<Rightarrow> serializer" where
  "Peer_Serialize p s =
     (let s = SocketAddress_Serialize \<lparr>sa_ipAddress = p_ipAddress p, sa_port = 0\<rparr> s;
          s = Append (p_version p) s;
          s = Capabilities_Serialize (p_capabilities p) s;
          s = AppendVarStr (p_userAgent p) s;
          s = Append (p_lastContactTime p) s;
          s = Append (p_lastBanTime p) s
      in Append (p_banReason p) s)"

definition Peer_Deserialize :: "peer reader" where
  "Peer_Deserialize =
     rbind SocketAddress_Deserialize (\<lambda>socketAddress.
     rbind ReadU32 (\<lambda>version.
     rbind Capabilities_Deserialize (\<lambda>capabilities.
     rbind ReadVarStr (\<lambda>userAgent.
     rbind Read64 (\<lambda>lastContactTime.
     rbind Read64 (\<lambda>lastBanTime.
     rbind Read32 (\<lambda>banReason.
       rreturn \<lparr>p_dirty = False, p_connected = False, p_ipAddress = sa_ipAddress socketAddress, p_version = version,
         p_capabilities = capabilities, p_userAgent = userAgent, p_lastContactTime = lastContactTime,
         p_lastBanTime = lastBanTime, p_banReason = banReason, p_lastTxHashSetRequest = 0\<rparr>)))))))"

section \<open>PeerDB\<close>

type_synonym peer_db = "(u8 list \<times> u8 list) list"

definition address_key :: "ip_address \<Rightarrow> u8 list" where
  "address_key a = GetBytes (IPAddress_Serialize a (Serializer_new V1))"

definition LoadAllPeers :: "peer_db \<Rightarrow> peer list result" where
  "LoadAllPeers db = map_result (\<lambda>(_, data). bind_result (Peer_Deserialize (ByteBuffer_new data V1)) (\<lambda>(p, _). Inr p)) db"

definition PeerDB_GetPeer :: "ip_address \<Rightarrow> u16 option \<Rightarrow> peer_db \<Rightarrow> peer option result" where
  "PeerDB_GetPeer address port db =
     (let key = (case port of
            Some port \<Rightarrow> if IsLocalhost address then GetBytes (SocketAddress_Serialize \<lparr>sa_ipAddress = address, sa_port = port\<rparr> (Serializer_new V1))
                         else address_key address
          | None \<Rightarrow> address_key address)
      in case map_of db key of
           None \<Rightarrow> Inr None
         | Some data \<Rightarrow> bind_result (Peer_Deserialize (ByteBuffer_new data V1)) (\<lambda>(p, _). Inr (Some p)))"

definition SavePeers :: "peer list \<Rightarrow> peer_db \<Rightarrow> peer_db" where
  "SavePeers peers db = fold (\<lambda>p. om_put (address_key (p_ipAddress p)) (GetBytes (Peer_Serialize p (Serializer_new V1)))) peers db"

definition DeletePeers :: "peer list \<Rightarrow> peer_db \<Rightarrow> peer_db" where
  "DeletePeers peers db = fold (\<lambda>p. om_erase (address_key (p_ipAddress p))) peers db"

section \<open>PeerManager\<close>

type_synonym peer_ref = nat

record peer_entry =
  pe_peer :: peer_ref
  pe_lastAttempt :: i64

text \<open>The table, the store of all peer objects, and the database.\<close>

record peer_manager =
  pm_peersByAddress :: "(ip_address \<times> peer_entry) list"
  pm_peers :: "peer list"
  pm_db :: peer_db

definition update_peer :: "peer_ref \<Rightarrow> (peer \<Rightarrow> peer) \<Rightarrow> peer_manager \<Rightarrow> peer_manager" where
  "update_peer r f m = m\<lparr>pm_peers := (pm_peers m)[r := f (pm_peers m ! r)]\<rparr>"

definition add_peer :: "peer \<Rightarrow> int \<Rightarrow> peer_manager \<Rightarrow> peer_manager" where
  "add_peer p lastAttempt m = m\<lparr>
     pm_peersByAddress := om_emplace (p_ipAddress p) \<lparr>pe_peer = length (pm_peers m), pe_lastAttempt = word_of_int lastAttempt\<rparr>
       (pm_peersByAddress m),
     pm_peers := pm_peers m @ [p]\<rparr>"

definition PeerManager_Create :: "peer_db \<Rightarrow> peer_manager result" where
  "PeerManager_Create db =
     bind_result (LoadAllPeers db) (\<lambda>peers.
       Inr (fold (\<lambda>p. add_peer p 0) peers \<lparr>pm_peersByAddress = [], pm_peers = [], pm_db = db\<rparr>))"

definition minimum_contact :: "int \<Rightarrow> int" where
  "minimum_contact now = now - 24 * 7 * 3600"

text \<open>The scan of the periodic task: which peers to save and to delete.\<close>

fun manage_scan ::
  "int \<Rightarrow> (ip_address \<times> peer_entry) list \<Rightarrow> peer list \<Rightarrow> peer list \<Rightarrow> peer_manager \<Rightarrow> peer list \<times> peer list \<times> peer_manager" where
  "manage_scan now [] peersToUpdate peersToDelete m = (peersToUpdate, peersToDelete, m)"
| "manage_scan now ((_, entry) # entries) peersToUpdate peersToDelete m =
     (let p = pm_peers m ! pe_peer entry
      in if p_dirty p then
           manage_scan now entries (peersToUpdate @ [p]) peersToDelete (update_peer (pe_peer entry) (p_dirty_update (\<lambda>_. False)) m)
         else if sint (p_lastContactTime p) < minimum_contact now then manage_scan now entries peersToUpdate (peersToDelete @ [p]) m
         else manage_scan now entries peersToUpdate peersToDelete m)"

definition ManagePeers :: "int \<Rightarrow> peer_manager \<Rightarrow> peer_manager" where
  "ManagePeers now m =
     (let (peersToUpdate, peersToDelete, m) = manage_scan now (pm_peersByAddress m) [] [] m;
          m = m\<lparr>pm_peersByAddress := fold (\<lambda>p. om_erase (p_ipAddress p)) peersToDelete (pm_peersByAddress m)\<rparr>
      in m\<lparr>pm_db := DeletePeers peersToDelete (SavePeers peersToUpdate (pm_db m))\<rparr>)"

text \<open>A peer the node may connect to: not banned, with the capability, not connected and not tried lately.\<close>

definition connectable :: "int \<Rightarrow> capabilities \<Rightarrow> peer \<Rightarrow> i64 \<Rightarrow> bool" where
  "connectable now capability p lastAttempt \<longleftrightarrow>
     \<not> IsBanned now p \<and> HasCapability capability (p_capabilities p) \<and> \<not> p_connected p \<and> now - sint lastAttempt > RETRY_WINDOW"

fun count_peers :: "int \<Rightarrow> capabilities \<Rightarrow> peer list \<Rightarrow> (ip_address \<times> peer_entry) list \<Rightarrow> u64 \<Rightarrow> bool" where
  "count_peers now capability peers [] peersFound \<longleftrightarrow> peersFound < 100"
| "count_peers now capability peers ((_, entry) # entries) peersFound \<longleftrightarrow>
     (if connectable now capability (peers ! pe_peer entry) (pe_lastAttempt entry) then
        if peersFound + 1 \<ge> 100 then False else count_peers now capability peers entries (peersFound + 1)
      else count_peers now capability peers entries peersFound)"

definition ArePeersNeeded :: "int \<Rightarrow> capabilities \<Rightarrow> peer_manager \<Rightarrow> bool" where
  "ArePeersNeeded now capability m = count_peers now capability (pm_peers m) (pm_peersByAddress m) 0"

definition PeerManager_GetPeer :: "ip_address \<Rightarrow> peer_manager \<Rightarrow> peer_ref \<times> peer_manager" where
  "PeerManager_GetPeer address m = (case map_of (pm_peersByAddress m) address of
      Some entry \<Rightarrow> (pe_peer entry, m)
    | None \<Rightarrow> (length (pm_peers m), add_peer (Peer_new address) 0 m))"

definition PeerManager_GetPeer_const :: "ip_address \<Rightarrow> peer_manager \<Rightarrow> peer option result" where
  "PeerManager_GetPeer_const address m = (case map_of (pm_peersByAddress m) address of
      Some entry \<Rightarrow> Inr (Some (pm_peers m ! pe_peer entry))
    | None \<Rightarrow> PeerDB_GetPeer address None (pm_db m))"

definition GetAllPeers :: "peer_manager \<Rightarrow> peer_ref list" where
  "GetAllPeers m = filter (\<lambda>r. 0 < sint (p_lastContactTime (pm_peers m ! r))) (map (pe_peer \<circ> snd) (pm_peersByAddress m))"

text \<open>The loop of \<^verbatim>\<open>GetPeersWithCapability\<close> over the visited positions of the table.\<close>

fun find_peers ::
  "int \<Rightarrow> capabilities \<Rightarrow> u16 \<Rightarrow> bool \<Rightarrow> nat list \<Rightarrow> peer_ref list \<Rightarrow> peer_manager \<Rightarrow> peer_ref list \<times> peer_manager" where
  "find_peers now capability maxPeers connecting [] peersFound m = (peersFound, m)"
| "find_peers now capability maxPeers connecting (i # is) peersFound m =
     (let (address, entry) = pm_peersByAddress m ! i;
          p = pm_peers m ! pe_peer entry
      in if connecting \<and> IsBanned now p then find_peers now capability maxPeers connecting is peersFound m
         else if HasCapability capability (p_capabilities p) \<and>
              (\<not> connecting \<or> \<not> p_connected p \<and> now - sint (pe_lastAttempt entry) > RETRY_WINDOW) then
           let m = (if connecting
                    then m\<lparr>pm_peersByAddress := (pm_peersByAddress m)[i := (address, entry\<lparr>pe_lastAttempt := word_of_int now\<rparr>)]\<rparr>
                    else m);
               peersFound = peersFound @ [pe_peer entry]
           in if length peersFound = unat maxPeers then (peersFound, m)
              else find_peers now capability maxPeers connecting is peersFound m
         else find_peers now capability maxPeers connecting is peersFound m)"

text \<open>The random number is drawn from \<open>0\<close> to the number of peers, both included; at the upper end the iterator is incremented past the end.\<close>

definition GetPeersWithCapability ::
  "int \<Rightarrow> nat \<Rightarrow> capabilities \<Rightarrow> u16 \<Rightarrow> bool \<Rightarrow> (peer_manager, peer_ref list) action" where
  "GetPeersWithCapability now random capability maxPeers connecting m =
     (let numPeers = length (pm_peersByAddress m)
      in if numPeers = 0 then (Inr [], m)
         else if random \<ge> numPeers then (Inl UNDEFINED_BEHAVIOUR, m)
         else case find_peers now capability maxPeers connecting (map (\<lambda>i. (random + 1 + i) mod numPeers) [0..<numPeers]) [] m of
           (found, m) \<Rightarrow> (Inr found, m))"

definition GetNewPeer :: "int \<Rightarrow> nat \<Rightarrow> nat \<Rightarrow> capabilities \<Rightarrow> (peer_manager, peer_ref option) action" where
  "GetNewPeer now random random' capability =
     bind_action (GetPeersWithCapability now random capability 1 True) (\<lambda>peers.
     bind_action (if peers = [] then GetPeersWithCapability now random' CAP_UNKNOWN 1 True else return_action peers) (\<lambda>peers.
       return_action (case peers of [] \<Rightarrow> None | p # _ \<Rightarrow> Some p)))"

definition GetPeers :: "int \<Rightarrow> nat \<Rightarrow> nat \<Rightarrow> capabilities \<Rightarrow> u16 \<Rightarrow> (peer_manager, peer_ref list) action" where
  "GetPeers now random random' capability maxPeers =
     bind_action (GetPeersWithCapability now random capability maxPeers False) (\<lambda>peers.
       if peers = [] then GetPeersWithCapability now random' CAP_UNKNOWN maxPeers False else return_action peers)"

definition AddFreshPeers :: "socket_address list \<Rightarrow> peer_manager \<Rightarrow> peer_manager" where
  "AddFreshPeers addresses m =
     fold (\<lambda>a m. if map_of (pm_peersByAddress m) (sa_ipAddress a) = None then add_peer (Peer_new (sa_ipAddress a)) 0 m else m) addresses m"

definition BanPeer :: "int \<Rightarrow> ip_address \<Rightarrow> ban_reason \<Rightarrow> peer_manager \<Rightarrow> peer_manager" where
  "BanPeer now address banReason m = (case map_of (pm_peersByAddress m) address of
      Some entry \<Rightarrow> update_peer (pe_peer entry) (Ban now banReason) m
    | None \<Rightarrow> add_peer (Ban now banReason (Peer_known address 0 0 [])) now m)"

definition UnbanPeer :: "ip_address \<Rightarrow> peer_manager \<Rightarrow> peer_manager" where
  "UnbanPeer address m = (case map_of (pm_peersByAddress m) address of
      Some entry \<Rightarrow> update_peer (pe_peer entry) Unban m
    | None \<Rightarrow> m)"

section \<open>Peers on disk\<close>

definition peer_bytes :: "peer \<Rightarrow> u8 list" where
  "peer_bytes p = socket_enc \<lparr>sa_ipAddress = p_ipAddress p, sa_port = 0\<rparr> @ be_bytes (p_version p) @ be_bytes (p_capabilities p) @
     varstr_enc (p_userAgent p) @ be_bytes (p_lastContactTime p) @ be_bytes (p_lastBanTime p) @ be_bytes (p_banReason p)"

text \<open>What the format carries of a peer.\<close>

definition stored_peer :: "peer \<Rightarrow> peer" where
  "stored_peer p = p\<lparr>p_dirty := False, p_connected := False, p_lastTxHashSetRequest := 0\<rparr>"

definition peer_storable :: "peer \<Rightarrow> bool" where
  "peer_storable p \<longleftrightarrow> ip_ok (p_ipAddress p) \<and> length (p_userAgent p) < 2 ^ 64 \<and> stored_peer p = p"

definition reverse_peer :: "peer \<Rightarrow> peer" where
  "reverse_peer p = p\<lparr>p_ipAddress := reverse_ip (p_ipAddress p)\<rparr>"

lemma Read32_ReadU32: "Read32 = ReadU32"
  by (simp add: Read32_def ReadU32_def)

interpretation peer_codec: codec "\<lambda>p. Peer_Serialize (reverse_peer p)" Peer_Deserialize "\<lambda>_. peer_bytes" "\<lambda>_. peer_storable"
proof (rule codecI)
  show "Peer_Serialize (reverse_peer p) s = insert_end (peer_bytes p) s" for p s
    by (simp add: Peer_Serialize_def peer_bytes_def reverse_peer_def Let_def Append_bytes AppendVarStr_bytes
        Capabilities_Serialize_def socket_ser reverse_socket_def)
  show "decodes v Peer_Deserialize (peer_bytes p) p" if "peer_storable p" for v p
    using that unfolding Peer_Deserialize_def peer_bytes_def Capabilities_Deserialize_def Read32_ReadU32 peer_storable_def
    by (intro decodes_bind [OF socket_codec.des_decodes] decodes_int decodes_bind [OF decodes_ReadVarStr]
        decodes_last [OF decodes_ReadInt(3)]) (auto simp: stored_peer_def, cases p, simp)
qed

lemma Peer_ser: "GetBytes (Peer_Serialize p (Serializer_new v)) = peer_bytes (reverse_peer p)"
  using peer_codec.ser_enc [of "reverse_peer p"] by (simp add: reverse_peer_def GetBytes_def)

lemma address_key_eq: "address_key a = ip_enc (reverse_ip a)"
  by (simp add: address_key_def ip_ser GetBytes_def)

lemma be_bytes_single: "be_bytes (w :: u8) = [w]"
  by (simp add: be_bytes_def)

lemma address_key_inject [simp]: "address_key a = address_key b \<longleftrightarrow> a = b"
  by (cases a; cases b) (auto simp: address_key_eq be_bytes_single)

section \<open>The table of peers\<close>

text \<open>The table is in order, and every entry refers to a peer of its own address that no other entry refers to.\<close>

definition pm_ok :: "peer_manager \<Rightarrow> bool" where
  "pm_ok m \<longleftrightarrow> om_ok (pm_peersByAddress m) \<and> distinct (map (pe_peer \<circ> snd) (pm_peersByAddress m)) \<and>
     (\<forall>(a, entry) \<in> set (pm_peersByAddress m). pe_peer entry < length (pm_peers m) \<and> p_ipAddress (pm_peers m ! pe_peer entry) = a)"

lemma pm_okD:
  assumes "pm_ok m" "map_of (pm_peersByAddress m) a = Some entry"
  shows "pe_peer entry < length (pm_peers m)" "p_ipAddress (pm_peers m ! pe_peer entry) = a"
  using assms map_of_SomeD unfolding pm_ok_def by fastforce+

lemma update_peer_ok:
  assumes "pm_ok m" "\<And>p. p_ipAddress (f p) = p_ipAddress p"
  shows "pm_ok (update_peer r f m)"
proof -
  have "p_ipAddress ((pm_peers m)[r := f (pm_peers m ! r)] ! i) = p_ipAddress (pm_peers m ! i)" if "i < length (pm_peers m)" for i
    using that assms(2) by (cases "i = r") simp_all
  then show ?thesis using assms(1) unfolding pm_ok_def update_peer_def by auto
qed

lemma pe_peer_set_om_put:
  "distinct (map (pe_peer \<circ> snd) es) \<Longrightarrow> pe_peer e \<notin> (pe_peer \<circ> snd) ` set es \<Longrightarrow>
   distinct (map (pe_peer \<circ> snd) (om_put a e es))"
proof (induction a e es rule: om_put.induct)
  case (2 k v k' v' m)
  then show ?case using set_om_put [of k v m] by (auto simp: image_iff)
qed simp

lemma add_peer_ok:
  assumes ok: "pm_ok m" shows "pm_ok (add_peer p t m)"
proof (cases "map_of (pm_peersByAddress m) (p_ipAddress p)")
  case None
  let ?e = "\<lparr>pe_peer = length (pm_peers m), pe_lastAttempt = word_of_int t\<rparr>"
  have "pe_peer ?e \<notin> (pe_peer \<circ> snd) ` set (pm_peersByAddress m)"
    using ok unfolding pm_ok_def by force
  then have "distinct (map (pe_peer \<circ> snd) (om_put (p_ipAddress p) ?e (pm_peersByAddress m)))"
    using ok by (intro pe_peer_set_om_put) (simp_all add: pm_ok_def)
  then show ?thesis
    using ok None set_om_put [of "p_ipAddress p" ?e "pm_peersByAddress m"]
    by (fastforce simp: pm_ok_def add_peer_def om_emplace_def om_put_ok nth_append)
next
  case (Some e)
  then show ?thesis using ok by (fastforce simp: pm_ok_def add_peer_def om_emplace_def nth_append)
qed

lemma AddFreshPeers_ok: "pm_ok m \<Longrightarrow> pm_ok (AddFreshPeers addresses m)"
  unfolding AddFreshPeers_def by (induction addresses arbitrary: m) (auto simp: add_peer_ok)

lemma BanPeer_ok: "pm_ok m \<Longrightarrow> pm_ok (BanPeer now a r m)"
  by (auto simp: BanPeer_def add_peer_ok Ban_def intro!: update_peer_ok split: option.splits)

lemma UnbanPeer_ok: "pm_ok m \<Longrightarrow> pm_ok (UnbanPeer a m)"
  by (auto simp: UnbanPeer_def Unban_def intro!: update_peer_ok split: option.splits)

lemma PeerManager_GetPeer_ok: "pm_ok m \<Longrightarrow> pm_ok (snd (PeerManager_GetPeer a m))"
  by (auto simp: PeerManager_GetPeer_def add_peer_ok split: option.splits)

lemma PeerManager_Create_ok: "PeerManager_Create db = Inr m \<Longrightarrow> pm_ok m"
proof -
  have "pm_ok (fold (\<lambda>p. add_peer p 0) ps m)" if "pm_ok m" for ps m
    using that by (induction ps arbitrary: m) (simp_all add: add_peer_ok)
  moreover have "pm_ok \<lparr>pm_peersByAddress = [], pm_peers = [], pm_db = db\<rparr>" by (simp add: pm_ok_def)
  ultimately show "PeerManager_Create db = Inr m \<Longrightarrow> pm_ok m"
    by (auto simp: PeerManager_Create_def bind_result_eq_Inr_iff)
qed

section \<open>The periodic task\<close>

definition stale :: "int \<Rightarrow> peer \<Rightarrow> bool" where
  "stale now p \<longleftrightarrow> \<not> p_dirty p \<and> sint (p_lastContactTime p) < minimum_contact now"

abbreviation entry_peer :: "peer_manager \<Rightarrow> ip_address \<times> peer_entry \<Rightarrow> peer" where
  "entry_peer m e \<equiv> pm_peers m ! pe_peer (snd e)"

definition clear_dirty :: "(ip_address \<times> peer_entry) list \<Rightarrow> peer list \<Rightarrow> peer list" where
  "clear_dirty es ps = map (\<lambda>r. if r \<in> (pe_peer \<circ> snd) ` set es then (ps ! r)\<lparr>p_dirty := False\<rparr> else ps ! r) [0..<length ps]"

lemma clear_dirty_fields [simp]: "length (clear_dirty es ps) = length ps"
  by (simp add: clear_dirty_def)

lemma clear_dirty_nth:
  "r < length ps \<Longrightarrow> clear_dirty es ps ! r = (if r \<in> (pe_peer \<circ> snd) ` set es then (ps ! r)\<lparr>p_dirty := False\<rparr> else ps ! r)"
  by (simp add: clear_dirty_def)

lemma map_filter_same:
  "(\<And>x. x \<in> set xs \<Longrightarrow> f x = g x) \<Longrightarrow> map f (filter (\<lambda>x. P (f x)) xs) = map g (filter (\<lambda>x. P (g x)) xs)"
  by (induction xs) auto

lemma manage_scan_eq:
  assumes "distinct (map (pe_peer \<circ> snd) es)" "\<forall>e\<in>set es. pe_peer (snd e) < length (pm_peers m)"
  shows "manage_scan now es ups dels m =
    (ups @ map (entry_peer m) (filter (\<lambda>e. p_dirty (entry_peer m e)) es),
     dels @ map (entry_peer m) (filter (\<lambda>e. stale now (entry_peer m e)) es),
     m\<lparr>pm_peers := clear_dirty es (pm_peers m)\<rparr>)"
  using assms
proof (induction es arbitrary: ups dels m)
  case Nil
  then show ?case by (simp add: clear_dirty_def map_nth)
next
  case (Cons e es)
  obtain a entry where e: "e = (a, entry)" by (cases e)
  let ?r = "pe_peer entry" and ?p = "pm_peers m ! pe_peer entry"
  let ?m = "update_peer ?r (p_dirty_update (\<lambda>_. False)) m"
  have r: "?r < length (pm_peers m)" "?r \<notin> (pe_peer \<circ> snd) ` set es" using Cons.prems e by auto
  have same: "entry_peer ?m x = entry_peer m x" if "x \<in> set es" for x
    using r that by (auto simp: update_peer_def nth_list_update)
  have clr: "clear_dirty es (pm_peers ?m) = clear_dirty (e # es) (pm_peers m)"
    using r e by (intro nth_equalityI) (auto simp: clear_dirty_nth update_peer_def nth_list_update)
  have clr': "clear_dirty es (pm_peers m) = clear_dirty (e # es) (pm_peers m)" if "\<not> p_dirty ?p"
  proof (rule nth_equalityI)
    have "?p\<lparr>p_dirty := False\<rparr> = ?p" using that by (cases ?p) simp
    then show "clear_dirty es (pm_peers m) ! i = clear_dirty (e # es) (pm_peers m) ! i" if "i < length (clear_dirty es (pm_peers m))" for i
      using r e that by (auto simp: clear_dirty_nth)
  qed simp
  have IH: "manage_scan now es ups' dels' ?m =
      (ups' @ map (entry_peer m) (filter (\<lambda>e. p_dirty (entry_peer m e)) es),
       dels' @ map (entry_peer m) (filter (\<lambda>e. stale now (entry_peer m e)) es), m\<lparr>pm_peers := clear_dirty (e # es) (pm_peers m)\<rparr>)" for ups' dels'
  proof -
    have "map (entry_peer ?m) (filter (\<lambda>e. P (entry_peer ?m e)) es) = map (entry_peer m) (filter (\<lambda>e. P (entry_peer m e)) es)" for P
      using same by (intro map_filter_same) blast
    moreover have "manage_scan now es ups' dels' ?m = (ups' @ map (entry_peer ?m) (filter (\<lambda>e. p_dirty (entry_peer ?m e)) es),
       dels' @ map (entry_peer ?m) (filter (\<lambda>e. stale now (entry_peer ?m e)) es), ?m\<lparr>pm_peers := clear_dirty es (pm_peers ?m)\<rparr>)"
      using Cons.prems by (intro Cons.IH) (simp_all add: update_peer_def)
    moreover have "?m\<lparr>pm_peers := clear_dirty es (pm_peers ?m)\<rparr> = m\<lparr>pm_peers := clear_dirty (e # es) (pm_peers m)\<rparr>"
      unfolding clr by (simp add: update_peer_def)
    ultimately show ?thesis by simp
  qed
  show ?case
    using IH Cons.IH [of m] Cons.prems clr' by (auto simp: e Let_def stale_def)
qed

lemma om_erase_fold: "map_of (fold (\<lambda>p. om_erase (g p)) ps m) k = (if k \<in> g ` set ps then None else map_of m k)"
  by (induction ps arbitrary: m) auto

lemma om_put_fold:
  "om_ok m \<Longrightarrow> map_of (fold (\<lambda>p. om_put (g p) (h p)) ps m) k =
     (case map_of (map (\<lambda>p. (g p, h p)) (rev ps)) k of Some v \<Rightarrow> Some v | None \<Rightarrow> map_of m k)"
  by (induction ps arbitrary: m rule: list.induct) (auto simp: om_put_ok map_add_def split: option.splits)

lemma ManagePeers_eq:
  assumes "pm_ok m"
  shows "ManagePeers now m =
    (let dels = map (entry_peer m) (filter (\<lambda>e. stale now (entry_peer m e)) (pm_peersByAddress m));
         ups = map (entry_peer m) (filter (\<lambda>e. p_dirty (entry_peer m e)) (pm_peersByAddress m))
     in m\<lparr>pm_peersByAddress := fold (\<lambda>p. om_erase (p_ipAddress p)) dels (pm_peersByAddress m),
           pm_peers := clear_dirty (pm_peersByAddress m) (pm_peers m),
           pm_db := DeletePeers dels (SavePeers ups (pm_db m))\<rparr>)"
proof -
  have "distinct (map (pe_peer \<circ> snd) (pm_peersByAddress m))" "\<forall>e\<in>set (pm_peersByAddress m). pe_peer (snd e) < length (pm_peers m)"
    using assms unfolding pm_ok_def by auto
  then show ?thesis by (simp add: ManagePeers_def manage_scan_eq Let_def)
qed

lemma om_ok_distinct: "om_ok m \<Longrightarrow> distinct (map fst m)"
  using strict_sorted_imp_sorted strict_sorted_iff by blast

lemma entry_of_address:
  assumes "pm_ok m"
  shows "a \<in> p_ipAddress ` set (map (entry_peer m) (filter (\<lambda>e. P (entry_peer m e)) (pm_peersByAddress m))) \<longleftrightarrow>
    (\<exists>entry. map_of (pm_peersByAddress m) a = Some entry \<and> P (pm_peers m ! pe_peer entry))"
proof -
  have "map_of (pm_peersByAddress m) a = Some entry \<longleftrightarrow> (a, entry) \<in> set (pm_peersByAddress m)" for entry
    using om_ok_distinct [of "pm_peersByAddress m"] assms by (simp add: pm_ok_def)
  moreover have "p_ipAddress (entry_peer m e) = fst e" if "e \<in> set (pm_peersByAddress m)" for e
    using assms that unfolding pm_ok_def by auto
  ultimately show ?thesis by force
qed

lemma ManagePeers_table:
  assumes "pm_ok m"
  shows "map_of (pm_peersByAddress (ManagePeers now m)) a = (case map_of (pm_peersByAddress m) a of
    None \<Rightarrow> None | Some entry \<Rightarrow> if stale now (pm_peers m ! pe_peer entry) then None else Some entry)"
  using entry_of_address [OF assms, of a "stale now"] by (auto simp: ManagePeers_eq [OF assms] Let_def om_erase_fold split: option.splits)

lemma saved_record:
  assumes ok: "pm_ok m" and e: "map_of (pm_peersByAddress m) a = Some entry" and d: "p_dirty (pm_peers m ! pe_peer entry)"
  shows "map_of (map (\<lambda>p. (address_key (p_ipAddress p), f p)) (rev (map (entry_peer m) (filter (\<lambda>e. p_dirty (entry_peer m e)) (pm_peersByAddress m)))))
    (address_key a) = Some (f (pm_peers m ! pe_peer entry))"
proof (rule map_of_is_SomeI)
  let ?es = "filter (\<lambda>e. p_dirty (entry_peer m e)) (pm_peersByAddress m)"
  have ip: "p_ipAddress (entry_peer m e) = fst e" if "e \<in> set (pm_peersByAddress m)" for e
    using ok that unfolding pm_ok_def by auto
  have "map (\<lambda>e. p_ipAddress (entry_peer m e)) ?es = map fst ?es" using ip by auto
  moreover have "distinct (map fst ?es)" using om_ok_distinct [of "pm_peersByAddress m"] ok by (simp add: pm_ok_def distinct_map_filter)
  ultimately have "distinct (map (\<lambda>e. p_ipAddress (entry_peer m e)) ?es)" by (simp only:)
  then have "distinct (map address_key (map (\<lambda>e. p_ipAddress (entry_peer m e)) ?es))"
    unfolding distinct_map [of address_key] by (auto intro: inj_onI)
  then show "distinct (map fst (map (\<lambda>p. (address_key (p_ipAddress p), f p)) (rev (map (entry_peer m) ?es))))"
    by (simp add: comp_def rev_map [symmetric])
  have "(a, entry) \<in> set ?es" using map_of_SomeD [OF e] d by simp
  moreover have "p_ipAddress (entry_peer m (a, entry)) = a" using pm_okD(2) [OF ok e] by simp
  ultimately show "(address_key a, f (pm_peers m ! pe_peer entry)) \<in> set (map (\<lambda>p. (address_key (p_ipAddress p), f p)) (rev (map (entry_peer m) ?es)))"
    by force
qed

lemma address_key_image: "address_key a \<in> (\<lambda>p. address_key (p_ipAddress p)) ` S \<longleftrightarrow> a \<in> p_ipAddress ` S"
  by auto

lemma ManagePeers_db:
  assumes ok: "pm_ok m" and db: "om_ok (pm_db m)"
  shows "map_of (pm_db (ManagePeers now m)) (address_key a) = (case map_of (pm_peersByAddress m) a of
      None \<Rightarrow> map_of (pm_db m) (address_key a)
    | Some entry \<Rightarrow> let p = pm_peers m ! pe_peer entry
        in if p_dirty p then Some (GetBytes (Peer_Serialize p (Serializer_new V1)))
           else if stale now p then None else map_of (pm_db m) (address_key a))"
proof -
  let ?ups = "map (entry_peer m) (filter (\<lambda>e. p_dirty (entry_peer m e)) (pm_peersByAddress m))"
  let ?kv = "\<lambda>p. (address_key (p_ipAddress p), GetBytes (Peer_Serialize p (Serializer_new V1)))"
  have dels: "address_key a \<in> (\<lambda>p. address_key (p_ipAddress p)) ` set (map (entry_peer m) (filter (\<lambda>e. stale now (entry_peer m e)) (pm_peersByAddress m)))
      \<longleftrightarrow> (\<exists>entry. map_of (pm_peersByAddress m) a = Some entry \<and> stale now (pm_peers m ! pe_peer entry))"
    unfolding address_key_image by (rule entry_of_address [OF ok])
  have no: "map_of (map ?kv (rev ?ups)) (address_key a) = None"
    if "\<not> (\<exists>entry. map_of (pm_peersByAddress m) a = Some entry \<and> p_dirty (pm_peers m ! pe_peer entry))"
  proof -
    have "a \<notin> p_ipAddress ` set ?ups" using that entry_of_address [OF ok, of a p_dirty] by blast
    then have "address_key a \<notin> (\<lambda>p. address_key (p_ipAddress p)) ` set ?ups" unfolding address_key_image .
    then show ?thesis unfolding map_of_eq_None_iff by (simp only: set_map set_rev image_image fst_conv not_False_eq_True)
  qed
  show ?thesis
    using dels no saved_record [OF ok, of a _ "\<lambda>p. GetBytes (Peer_Serialize p (Serializer_new V1))"]
    by (auto simp: ManagePeers_eq [OF ok] Let_def DeletePeers_def SavePeers_def om_erase_fold om_put_fold [OF db] stale_def
        split: option.splits)
qed

lemma ManagePeers_peer:
  assumes "pm_ok m" "map_of (pm_peersByAddress m) a = Some entry"
  shows "pm_peers (ManagePeers now m) ! pe_peer entry = (pm_peers m ! pe_peer entry)\<lparr>p_dirty := False\<rparr>"
proof -
  have "pe_peer entry < length (pm_peers m)" "pe_peer entry \<in> (pe_peer \<circ> snd) ` set (pm_peersByAddress m)"
    using pm_okD(1) [OF assms] map_of_SomeD [OF assms(2)] by force+
  then show ?thesis by (simp add: ManagePeers_eq [OF assms(1)] Let_def clear_dirty_nth)
qed

lemma fold_om_erase: "fold (\<lambda>p. om_erase (g p)) ps m = filter (\<lambda>(k, _). k \<notin> g ` set ps) m"
  by (induction ps arbitrary: m) (auto simp: om_erase_def case_prod_unfold intro: filter_cong)

lemma ManagePeers_ok:
  assumes ok: "pm_ok m" shows "pm_ok (ManagePeers now m)"
proof -
  have "sorted_wrt (<) (map fst (filter P es)) \<and> distinct (map (pe_peer \<circ> snd) (filter P es))"
    if "om_ok es" "distinct (map (pe_peer \<circ> snd) es)" for P and es :: "(ip_address \<times> peer_entry) list"
    using that by (induction es) auto
  then show ?thesis
    using ok by (auto simp: ManagePeers_eq [OF ok] Let_def fold_om_erase pm_ok_def clear_dirty_nth)
qed

section \<open>Choosing peers\<close>

lemma find_peers_read:
  assumes "length found < unat n"
  shows "find_peers now c n False is found m =
    (take (unat n) (found @ filter (\<lambda>r. HasCapability c (p_capabilities (pm_peers m ! r))) (map (\<lambda>i. pe_peer (snd (pm_peersByAddress m ! i))) is)), m)"
  using assms
proof (induction "is" arbitrary: found)
  case (Cons i "is")
  obtain a e where "pm_peersByAddress m ! i = (a, e)" by fastforce
  moreover obtain k where "unat n = length found + Suc k" using less_imp_Suc_add [OF Cons.prems] by auto
  ultimately show ?case using Cons.IH [of "found @ [pe_peer e]"] Cons.IH [of found] Cons.prems by (auto simp: Let_def)
qed simp

definition connectable_at :: "int \<Rightarrow> capabilities \<Rightarrow> peer_manager \<Rightarrow> nat \<Rightarrow> bool" where
  "connectable_at now c m i = (case pm_peersByAddress m ! i of (_, e) \<Rightarrow> connectable now c (pm_peers m ! pe_peer e) (pe_lastAttempt e))"

definition mark_attempt :: "int \<Rightarrow> nat \<Rightarrow> peer_manager \<Rightarrow> peer_manager" where
  "mark_attempt now i m = m\<lparr>pm_peersByAddress := (pm_peersByAddress m)[i :=
     (fst (pm_peersByAddress m ! i), (snd (pm_peersByAddress m ! i))\<lparr>pe_lastAttempt := word_of_int now\<rparr>)]\<rparr>"

lemma find_peers_connect:
  "find_peers now c 1 True is [] m = (case find (connectable_at now c m) is of
      None \<Rightarrow> ([], m)
    | Some i \<Rightarrow> ([pe_peer (snd (pm_peersByAddress m ! i))], mark_attempt now i m))"
proof (induction "is")
  case (Cons i "is")
  obtain a e where "pm_peersByAddress m ! i = (a, e)" by fastforce
  then show ?case using Cons.IH by (auto simp: Let_def connectable_at_def connectable_def mark_attempt_def)
qed simp

lemma visited_all:
  assumes "0 < n" shows "set (map (\<lambda>i. (r + 1 + i) mod n) [0..<n]) = {0..<n}"
proof -
  have "j \<in> (\<lambda>i. (r + 1 + i) mod n) ` {0..<n}" if "j < n" for j
  proof
    show "j = (r + 1 + (j + (n - (r + 1) mod n)) mod n) mod n"
    proof -
      have "(r + 1 + (j + (n - (r + 1) mod n)) mod n) mod n = ((r + 1) mod n + (j + (n - (r + 1) mod n))) mod n"
        by (simp only: mod_add_left_eq mod_add_right_eq)
      also have "(r + 1) mod n + (j + (n - (r + 1) mod n)) = j + n"
        using assms mod_less_divisor [OF assms, of "r + 1"] by linarith
      finally show ?thesis using that by simp
    qed
    show "(j + (n - (r + 1) mod n)) mod n \<in> {0..<n}" using assms by simp
  qed
  then show ?thesis using assms by fastforce
qed

lemma GetPeersWithCapability_connect:
  assumes "random < length (pm_peersByAddress m)"
  shows "(\<exists>i < length (pm_peersByAddress m). connectable_at now c m i \<and>
      GetPeersWithCapability now random c 1 True m = (Inr [pe_peer (snd (pm_peersByAddress m ! i))], mark_attempt now i m)) \<or>
    (\<forall>i < length (pm_peersByAddress m). \<not> connectable_at now c m i) \<and> GetPeersWithCapability now random c 1 True m = (Inr [], m)"
proof -
  let ?is = "map (\<lambda>i. (random + 1 + i) mod length (pm_peersByAddress m)) [0..<length (pm_peersByAddress m)]"
  have n: "0 < length (pm_peersByAddress m)" using assms by linarith
  have eq: "GetPeersWithCapability now random c 1 True m = (case find_peers now c 1 True ?is [] m of (found, m) \<Rightarrow> (Inr found, m))"
    using assms by (auto simp: GetPeersWithCapability_def Let_def)
  show ?thesis
  proof (cases "find (connectable_at now c m) ?is")
    case None
    then have "\<forall>i \<in> set ?is. \<not> connectable_at now c m i" by (simp add: find_None_iff)
    then show ?thesis using None eq unfolding visited_all [OF n] by (simp add: find_peers_connect)
  next
    case (Some i)
    then have "i \<in> set ?is" "connectable_at now c m i" by (auto simp: find_Some_iff)
    then show ?thesis using Some eq unfolding visited_all [OF n] by (auto simp: find_peers_connect)
  qed
qed

lemma connectable_unknown: "connectable_at now c m i \<Longrightarrow> connectable_at now CAP_UNKNOWN m i"
  by (auto simp: connectable_at_def connectable_def HasCapability_def CAP_UNKNOWN_def split: prod.splits)

lemma mark_attempt_ok: "pm_ok m \<Longrightarrow> i < length (pm_peersByAddress m) \<Longrightarrow> pm_ok (mark_attempt now i m)"
proof -
  assume ok: "pm_ok m" and i: "i < length (pm_peersByAddress m)"
  have "map fst (pm_peersByAddress (mark_attempt now i m)) = map fst (pm_peersByAddress m)"
    "map (pe_peer \<circ> snd) (pm_peersByAddress (mark_attempt now i m)) = map (pe_peer \<circ> snd) (pm_peersByAddress m)"
    using i by (auto simp: mark_attempt_def map_update list_update_id nth_list_update intro!: nth_equalityI)
  moreover have "(fst (pm_peersByAddress m ! i), snd (pm_peersByAddress m ! i)) \<in> set (pm_peersByAddress m)" using i by simp
  ultimately show ?thesis
    using ok i set_update_subset_insert [of "pm_peersByAddress m" i] unfolding pm_ok_def mark_attempt_def
    by (fastforce simp del: prod.collapse)
qed

lemma GetNewPeer_cases:
  assumes "random < length (pm_peersByAddress m)" "random' < length (pm_peersByAddress m)"
  shows "(\<exists>i < length (pm_peersByAddress m). connectable_at now CAP_UNKNOWN m i \<and>
      (connectable_at now c m i \<or> (\<forall>j < length (pm_peersByAddress m). \<not> connectable_at now c m j)) \<and>
      GetNewPeer now random random' c m = (Inr (Some (pe_peer (snd (pm_peersByAddress m ! i)))), mark_attempt now i m)) \<or>
    (\<forall>i < length (pm_peersByAddress m). \<not> connectable_at now CAP_UNKNOWN m i) \<and> GetNewPeer now random random' c m = (Inr None, m)"
  using GetPeersWithCapability_connect [OF assms(1), of now c] GetPeersWithCapability_connect [OF assms(2), of now CAP_UNKNOWN]
    connectable_unknown
  by (auto simp: GetNewPeer_def bind_action_def action_simps)

section \<open>Reachable states of the manager\<close>

text \<open>What happens to the manager after it is created from the database: its own operations, and the updates connections make to
  the peers they hold, none of which changes an address.\<close>

inductive pm_reachable :: "peer_manager \<Rightarrow> bool" where
  created: "om_ok db \<Longrightarrow> PeerManager_Create db = Inr m \<Longrightarrow> pm_reachable m"
| fresh: "pm_reachable m \<Longrightarrow> pm_reachable (AddFreshPeers addresses m)"
| banned: "pm_reachable m \<Longrightarrow> pm_reachable (BanPeer now a reason m)"
| unbanned: "pm_reachable m \<Longrightarrow> pm_reachable (UnbanPeer a m)"
| looked_up: "pm_reachable m \<Longrightarrow> pm_reachable (snd (PeerManager_GetPeer a m))"
| chosen: "pm_reachable m \<Longrightarrow> GetNewPeer now random random' c m = (Inr r, m') \<Longrightarrow> pm_reachable m'"
| managed: "pm_reachable m \<Longrightarrow> pm_reachable (ManagePeers now m)"
| touched: "pm_reachable m \<Longrightarrow> (\<And>p. p_ipAddress (f p) = p_ipAddress p) \<Longrightarrow> pm_reachable (update_peer r f m)"

lemma om_put_fold_ok: "om_ok m \<Longrightarrow> om_ok (fold (\<lambda>p. om_put (g p) (h p)) ps m)"
  by (induction ps arbitrary: m) (simp_all add: om_put_ok)

lemma om_erase_fold_ok: "om_ok m \<Longrightarrow> om_ok (fold (\<lambda>p. om_erase (g p)) ps m)"
  by (induction ps arbitrary: m) (simp_all add: om_erase_ok)

lemma pm_db_fields [simp]:
  "pm_db (update_peer r f m) = pm_db m" "pm_db (add_peer p t m) = pm_db m" "pm_db (mark_attempt now i m) = pm_db m"
  by (simp_all add: update_peer_def add_peer_def mark_attempt_def)

lemma ops_db [simp]:
  "pm_db (AddFreshPeers addresses m) = pm_db m" "pm_db (BanPeer now a reason m) = pm_db m" "pm_db (UnbanPeer a m) = pm_db m"
  "pm_db (snd (PeerManager_GetPeer a m)) = pm_db m"
  by (induction addresses arbitrary: m) (simp_all add: AddFreshPeers_def BanPeer_def UnbanPeer_def PeerManager_GetPeer_def split: option.splits)

lemma find_peers_fields: "length (pm_peersByAddress (snd (find_peers now c n b is found m))) = length (pm_peersByAddress m)"
  by (induction now c n b "is" found m rule: find_peers.induct) (auto simp: Let_def split: prod.splits)

lemma GetNewPeer_state:
  assumes "GetNewPeer now random random' c m = (Inr r, m')"
  shows "m' = m \<or> (\<exists>i < length (pm_peersByAddress m). m' = mark_attempt now i m)"
proof (cases "pm_peersByAddress m = []")
  case True
  then show ?thesis using assms by (auto simp: GetNewPeer_def GetPeersWithCapability_def bind_action_def action_simps)
next
  case False
  then have r: "random < length (pm_peersByAddress m)"
    using assms by (auto simp: GetNewPeer_def GetPeersWithCapability_def bind_action_def Let_def split: if_splits)
  show ?thesis
  proof (cases "random' < length (pm_peersByAddress m)")
    case True
    then show ?thesis using GetNewPeer_cases [OF r True, of now c] assms by auto
  next
    case random': False
    from GetPeersWithCapability_connect [OF r, of now c] show ?thesis
    proof (elim disjE exE conjE)
      fix i assume "i < length (pm_peersByAddress m)"
        "GetPeersWithCapability now random c 1 True m = (Inr [pe_peer (snd (pm_peersByAddress m ! i))], mark_attempt now i m)"
      then show ?thesis using assms by (auto simp: GetNewPeer_def bind_action_def action_simps)
    next
      assume "GetPeersWithCapability now random c 1 True m = (Inr [], m)"
      moreover have "GetPeersWithCapability now random' CAP_UNKNOWN 1 True m = (Inl UNDEFINED_BEHAVIOUR, m)"
        using random' False by (simp add: GetPeersWithCapability_def)
      ultimately show ?thesis using assms by (simp add: GetNewPeer_def bind_action_def)
    qed
  qed
qed

lemma pm_reachable_ok: "pm_reachable m \<Longrightarrow> pm_ok m \<and> om_ok (pm_db m)"
proof (induction rule: pm_reachable.induct)
  case (created db m)
  have "pm_db (fold (\<lambda>p. add_peer p 0) ps m) = pm_db m" for ps m by (induction ps arbitrary: m) simp_all
  then have "pm_db m = db" using created by (auto simp: PeerManager_Create_def bind_result_eq_Inr_iff)
  then show ?case using created PeerManager_Create_ok by blast
next
  case (chosen m now random random' c r m')
  then show ?case using GetNewPeer_state [OF chosen.hyps(2)] mark_attempt_ok by auto
next
  case (managed m now)
  then have "om_ok (pm_db (ManagePeers now m))"
    by (simp add: ManagePeers_eq Let_def DeletePeers_def SavePeers_def om_put_fold_ok om_erase_fold_ok)
  then show ?case using managed ManagePeers_ok by blast
qed (simp_all add: AddFreshPeers_ok BanPeer_ok UnbanPeer_ok PeerManager_GetPeer_ok update_peer_ok)

section \<open>Properties of the peer manager\<close>

lemma sint_clock: "0 \<le> t \<Longrightarrow> t < 2 ^ 63 \<Longrightarrow> sint (word_of_int t :: i64) = t"
  by (simp add: sint_sbintrunc' signed_take_bit_int_eq_self)

text \<open>In every reachable state the table has one peer object per address, and no object is listed under two addresses.\<close>

theorem peer_table_one_object_per_address:
  assumes "pm_reachable m" "map_of (pm_peersByAddress m) a = Some entry"
  shows "pe_peer entry < length (pm_peers m)" "p_ipAddress (pm_peers m ! pe_peer entry) = a"
    "map_of (pm_peersByAddress m) b = Some entry' \<Longrightarrow> pe_peer entry' = pe_peer entry \<Longrightarrow> b = a"
  using pm_okD [of m a entry] pm_okD [of m b entry'] pm_reachable_ok [OF assms(1)] assms(2) by auto


text \<open>The periodic task: a changed peer is written to the database and stays; an unchanged peer not contacted for a week leaves
  the table and the database; every other peer, and every record of an address that is not in the table, stays as it is.\<close>

theorem ManagePeers_correct:
  assumes "pm_reachable m"
  shows "case map_of (pm_peersByAddress m) a of
      None \<Rightarrow> map_of (pm_peersByAddress (ManagePeers now m)) a = None \<and>
        map_of (pm_db (ManagePeers now m)) (address_key a) = map_of (pm_db m) (address_key a)
    | Some entry \<Rightarrow> (let p = pm_peers m ! pe_peer entry in
        pm_peers (ManagePeers now m) ! pe_peer entry = p\<lparr>p_dirty := False\<rparr> \<and>
        (if p_dirty p then
           map_of (pm_peersByAddress (ManagePeers now m)) a = Some entry \<and>
           map_of (pm_db (ManagePeers now m)) (address_key a) = Some (GetBytes (Peer_Serialize p (Serializer_new V1)))
         else if sint (p_lastContactTime p) < now - 7 * 24 * 3600 then
           map_of (pm_peersByAddress (ManagePeers now m)) a = None \<and> map_of (pm_db (ManagePeers now m)) (address_key a) = None
         else
           map_of (pm_peersByAddress (ManagePeers now m)) a = Some entry \<and>
           map_of (pm_db (ManagePeers now m)) (address_key a) = map_of (pm_db m) (address_key a)))"
proof -
  have ok: "pm_ok m" and db: "om_ok (pm_db m)" using pm_reachable_ok [OF assms] by auto
  show ?thesis
  proof (cases "map_of (pm_peersByAddress m) a")
    case (Some entry)
    then show ?thesis
      using ManagePeers_peer [OF ok Some] by (simp add: ManagePeers_table [OF ok] ManagePeers_db [OF ok db] Let_def stale_def minimum_contact_def)
  qed (simp add: ManagePeers_table [OF ok] ManagePeers_db [OF ok db])
qed

lemma BanPeer_unknown:
  assumes "map_of (pm_peersByAddress m) a = None" "om_ok (pm_peersByAddress m)"
  shows "map_of (pm_peersByAddress (BanPeer now a reason m)) a = Some \<lparr>pe_peer = length (pm_peers m), pe_lastAttempt = word_of_int now\<rparr>"
    "pm_peers (BanPeer now a reason m) ! length (pm_peers m) = Ban now reason (Peer_known a 0 0 [])"
  using assms by (simp_all add: BanPeer_def add_peer_def Ban_def Peer_known_def map_of_om_emplace)

text \<open>A ban of an address the node has no peer for holds only until the periodic task has run twice: the first run writes the
  new peer to the database, the second finds it unchanged and never contacted, and deletes it from the table and from the
  database. The peer that was banned for three hours is then unknown, and not banned.\<close>

theorem ban_of_unknown_address_is_lost:
  assumes "pm_reachable m" and "map_of (pm_peersByAddress m) a = None" and "7 * 24 * 3600 < now" and "now < 2 ^ 63"
    and "now \<le> first" and "first \<le> second"
  shows "(\<exists>p. PeerManager_GetPeer_const a (BanPeer now a reason m) = Inr (Some p) \<and> IsBanned now p) \<and>
    PeerManager_GetPeer_const a (ManagePeers second (ManagePeers first (BanPeer now a reason m))) = Inr None"
proof -
  let ?e = "\<lparr>pe_peer = length (pm_peers m), pe_lastAttempt = word_of_int now\<rparr> :: peer_entry"
  let ?p = "Ban now reason (Peer_known a 0 0 [])" and ?m0 = "BanPeer now a reason m"
  let ?m1 = "ManagePeers first ?m0"
  have "om_ok (pm_peersByAddress m)" using pm_reachable_ok [OF assms(1)] by (simp add: pm_ok_def)
  note b = BanPeer_unknown [OF assms(2) this, of now reason]
  have r: "pm_reachable ?m0" "pm_reachable ?m1" using assms(1) by (auto intro: pm_reachable.intros)
  note ok = pm_reachable_ok [OF r(1)] pm_reachable_ok [OF r(2)]
  have "map_of (pm_peersByAddress ?m1) a = Some ?e" "pm_peers ?m1 ! length (pm_peers m) = ?p\<lparr>p_dirty := False\<rparr>"
    using ManagePeers_table [of ?m0 first a] ManagePeers_peer [of ?m0 a ?e first] ok(1) b by (simp_all add: stale_def Ban_def)
  moreover from this have "stale second (pm_peers ?m1 ! length (pm_peers m))"
    using assms(3,5,6) by (simp add: stale_def Ban_def Peer_known_def minimum_contact_def)
  ultimately have "map_of (pm_peersByAddress (ManagePeers second ?m1)) a = None"
    "map_of (pm_db (ManagePeers second ?m1)) (address_key a) = None"
    using ManagePeers_table [of ?m1 second a] ManagePeers_db [of ?m1 second a] ok(2) by (simp_all add: Let_def stale_def)
  then have "PeerManager_GetPeer_const a (ManagePeers second ?m1) = Inr None"
    by (simp add: PeerManager_GetPeer_const_def PeerDB_GetPeer_def)
  moreover have "sint (p_lastBanTime ?p) = now" using assms(3,4) sint_clock [of now] by (simp add: Ban_def)
  then have "\<exists>p. PeerManager_GetPeer_const a ?m0 = Inr (Some p) \<and> IsBanned now p"
    using b by (simp add: PeerManager_GetPeer_const_def IsBanned_def BAN_WINDOW_def)
  ultimately show ?thesis by blast
qed

text \<open>The peer database does not give a peer back: a peer written under its address is read with the bytes of its address in
  reverse order, because an address is written byte-reversed on a little-endian host and read in order.\<close>

theorem saved_peer_has_reversed_address:
  assumes "om_ok db" and "ip_ok (p_ipAddress p)" and "length (p_userAgent p) < 2 ^ 32"
  shows "PeerDB_GetPeer (p_ipAddress p) None (SavePeers [p] db) =
    Inr (Some (p\<lparr>p_ipAddress := reverse_ip (p_ipAddress p), p_dirty := False, p_connected := False, p_lastTxHashSetRequest := 0\<rparr>))"
proof -
  let ?q = "stored_peer (reverse_peer p)"
  have "peer_bytes (reverse_peer p) = peer_bytes ?q" by (simp add: peer_bytes_def stored_peer_def)
  moreover have ok: "peer_storable ?q" using assms by (simp add: peer_storable_def stored_peer_def reverse_peer_def)
  have "length (ip_enc (reverse_ip (p_ipAddress p))) \<le> 17" using assms(2) by (cases "p_ipAddress p") (simp_all add: be_bytes_single)
  then have "length (peer_bytes ?q) < 2 ^ 64"
    using assms(3) by (simp add: peer_bytes_def stored_peer_def reverse_peer_def socket_enc_def varstr_enc_def size_of_simps)
  then have "Peer_Deserialize (ByteBuffer_new (peer_bytes ?q) V1) = Inr (?q, buf V1 (peer_bytes ?q) [])"
    by (intro decodes_new peer_codec.des_decodes ok)
  ultimately show ?thesis
    using assms(1) by (simp add: PeerDB_GetPeer_def SavePeers_def Peer_ser) (simp add: stored_peer_def reverse_peer_def)
qed

section \<open>Witnesses\<close>

definition one_peer :: peer_manager where
  "one_peer = AddFreshPeers [\<lparr>sa_ipAddress = IPv4 [10, 0, 0, 7], sa_port = 3414\<rparr>] \<lparr>pm_peersByAddress = [], pm_peers = [], pm_db = []\<rparr>"

lemma one_peer_reachable: "pm_reachable one_peer"
  unfolding one_peer_def by (intro fresh created [of "[]"]) (simp_all add: PeerManager_Create_def LoadAllPeers_def)

lemma one_peer_table: "pm_peersByAddress one_peer = [(IPv4 [10, 0, 0, 7], \<lparr>pe_peer = 0, pe_lastAttempt = 0\<rparr>)]"
  "pm_peers one_peer = [Peer_new (IPv4 [10, 0, 0, 7])]"
  by (simp_all add: one_peer_def AddFreshPeers_def add_peer_def om_emplace_def Peer_new_def)


theorem ManagePeers_correct_witness:
  "map_of (pm_peersByAddress (ManagePeers 1000000 one_peer)) (IPv4 [10, 0, 0, 7]) = None"
  using ManagePeers_correct [OF one_peer_reachable, of 1000000 "IPv4 [10, 0, 0, 7]"] one_peer_table
  by (simp add: Peer_new_def)

theorem ban_of_unknown_address_is_lost_witness:
  "(\<exists>p. PeerManager_GetPeer_const (IPv4 [10, 0, 0, 8]) (BanPeer 1000000 (IPv4 [10, 0, 0, 8]) ManualBan one_peer) = Inr (Some p) \<and> IsBanned 1000000 p) \<and>
   PeerManager_GetPeer_const (IPv4 [10, 0, 0, 8])
     (ManagePeers 1000030 (ManagePeers 1000015 (BanPeer 1000000 (IPv4 [10, 0, 0, 8]) ManualBan one_peer))) = Inr None"
  using ban_of_unknown_address_is_lost [OF one_peer_reachable, of "IPv4 [10, 0, 0, 8]" 1000000 1000015 1000030 ManualBan] one_peer_table
  by simp

theorem saved_peer_has_reversed_address_witness:
  "PeerDB_GetPeer (IPv4 [10, 0, 0, 7]) None (SavePeers [Peer_new (IPv4 [10, 0, 0, 7])] []) = Inr (Some (Peer_new (IPv4 [7, 0, 0, 10])))"
  using saved_peer_has_reversed_address [of "[]" "Peer_new (IPv4 [10, 0, 0, 7])"] by (simp add: Peer_new_def)

end
