(* ===== verification/Message_Processor.thy ===== *)
theory Message_Processor
  imports Block_Processor Peers
begin

text \<open>
  Messages between nodes: sockets as message streams (\<^verbatim>\<open>src/Net/Socket.cpp\<close>,
  \<^verbatim>\<open>include/Net/RateCounter.h\<close>), \<^verbatim>\<open>MessageSender\<close>,
  \<^verbatim>\<open>MessageRetriever\<close>, \<^verbatim>\<open>BlockLocator\<close>, the pipes that queue blocks and transactions, the
  download of the transaction hash set and \<^verbatim>\<open>MessageProcessor\<close> (\<^verbatim>\<open>src/P2P\<close>).
\<close>

section \<open>The world and the node\<close>

text \<open>Beside the world of the chain: what the networking library does with a write (the bytes it takes and whether an error ends the
  connection) and whether the remote end has closed, the clock in seconds, random numbers, whether a shutdown was requested, and
  the archive file that a snapshot of the transaction hash set leaves (\<open>None\<close> when taking or opening it fails).\<close>

record p2p_world = node_world +
  pw_write :: "u8 list \<Rightarrow> nat \<times> bool"
  pw_closed :: bool
  pw_clock :: int
  pw_random :: "nat \<times> nat"
  pw_cbNonce :: u64
  pw_shutdown :: bool
  pw_snapshot :: "block_header \<Rightarrow> chain_state \<Rightarrow> u8 list option"

abbreviation chain_world :: "p2p_world \<Rightarrow> node_world" where
  "chain_world w \<equiv> node_world.truncate w"

text \<open>The bytes that will arrive in time, and the bytes handed over; the times of the messages counted.\<close>

record rate_counter =
  rc_received :: "int list"
  rc_sent :: "int list"

record socket =
  so_incoming :: "u8 list"
  so_outgoing :: "u8 list"
  so_rateCounter :: rate_counter
  so_blocking :: bool

record block_entry =
  be_peer :: peer_ref
  be_block :: full_block

record tx_entry =
  te_connectionId :: u64
  te_peer :: peer_ref
  te_transaction :: transaction
  te_poolType :: EPoolType

text \<open>The shared parts of a node and, for the connection that is being served, its socket and its \<^verbatim>\<open>ConnectedPeer\<close>.
  A download that is complete leaves a job for the thread that processes it.\<close>

record p2p_node =
  pn_chain :: chain_state
  pn_peers :: peer_manager
  pn_sync :: sync_status
  pn_blocksToProcess :: "block_entry list"
  pn_transactionsToProcess :: "tx_entry list"
  pn_processing :: bool
  pn_job :: "(peer_ref \<times> big_integer \<times> u8 list) option"
  pn_broadcasts :: "(u64 \<times> message) list"
  pn_socket :: socket
  pn_peer :: peer_ref
  pn_totalDifficulty :: u64
  pn_height :: u64

definition on_chainState :: "(chain_state, 'a) process \<Rightarrow> (p2p_node, 'a) process" where
  "on_chainState m n = (case m (pn_chain n) of None \<Rightarrow> None | Some (r, c) \<Rightarrow> Some (r, n\<lparr>pn_chain := c\<rparr>))"

definition read_chain :: "(chain_state \<Rightarrow> 'a result) \<Rightarrow> (p2p_node, 'a) process" where
  "read_chain f = run_action (read_action (\<lambda>n. f (pn_chain n)))"

definition on_peers :: "(peer_manager, 'a) action \<Rightarrow> (p2p_node, 'a) process" where
  "on_peers m = run_action (zoom_action pn_peers (\<lambda>p n. n\<lparr>pn_peers := p\<rparr>) m)"

definition on_socket :: "(socket, 'a) action \<Rightarrow> (p2p_node, 'a) process" where
  "on_socket m = run_action (zoom_action pn_socket (\<lambda>s n. n\<lparr>pn_socket := s\<rparr>) m)"

definition modify_node :: "(p2p_node \<Rightarrow> p2p_node) \<Rightarrow> (p2p_node, unit) process" where
  "modify_node f = run_action (modify_action f)"

definition get_node :: "(p2p_node \<Rightarrow> 'a) \<Rightarrow> (p2p_node, 'a) process" where
  "get_node f = run_action (get_action f)"

abbreviation return_process :: "'a \<Rightarrow> ('s, 'a) process" where
  "return_process x \<equiv> run_action (return_action x)"

abbreviation throw_process :: "exn \<Rightarrow> ('s, 'a) process" where
  "throw_process e \<equiv> run_action (throw_action e)"

definition update_this_peer :: "(peer \<Rightarrow> peer) \<Rightarrow> p2p_node \<Rightarrow> p2p_node" where
  "update_this_peer f n = n\<lparr>pn_peers := update_peer (pn_peer n) f (pn_peers n)\<rparr>"

definition this_peer :: "p2p_node \<Rightarrow> peer" where
  "this_peer n = pm_peers (pn_peers n) ! pn_peer n"

definition UpdateTotals :: "u64 \<Rightarrow> u64 \<Rightarrow> p2p_node \<Rightarrow> p2p_node" where
  "UpdateTotals totalDifficulty height n = n\<lparr>pn_totalDifficulty := totalDifficulty, pn_height := height\<rparr>"

definition protocol_of :: "u32 \<Rightarrow> EProtocolVersion" where
  "protocol_of version = (if version > 1 then V2 else V1)"

section \<open>Socket and RateCounter\<close>

definition AddMessageReceived :: "int \<Rightarrow> rate_counter \<Rightarrow> rate_counter" where
  "AddMessageReceived now c = c\<lparr>rc_received := rc_received c @ [now]\<rparr>"

definition AddMessageSent :: "int \<Rightarrow> rate_counter \<Rightarrow> rate_counter" where
  "AddMessageSent now c = c\<lparr>rc_sent := rc_sent c @ [now]\<rparr>"

definition GetReceivedInLastMinute :: "int \<Rightarrow> rate_counter \<Rightarrow> nat \<times> rate_counter" where
  "GetReceivedInLastMinute now c =
     (let received = dropWhile (\<lambda>t. t < now - 60) (rc_received c) in (length received, c\<lparr>rc_received := received\<rparr>))"

definition GetSentInLastMinute :: "int \<Rightarrow> rate_counter \<Rightarrow> nat \<times> rate_counter" where
  "GetSentInLastMinute now c =
     (let sent = dropWhile (\<lambda>t. t < now - 60) (rc_sent c) in (length sent, c\<lparr>rc_sent := sent\<rparr>))"

definition Socket_Send :: "p2p_world \<Rightarrow> u8 list \<Rightarrow> bool \<Rightarrow> (socket, bool) action" where
  "Socket_Send w bytes incrementCount s =
     (let s = (if incrementCount then s\<lparr>so_rateCounter := AddMessageSent (pw_clock w) (so_rateCounter s)\<rparr> else s);
          (bytesWritten, failed) = pw_write w bytes;
          s = s\<lparr>so_outgoing := so_outgoing s @ take bytesWritten bytes\<rparr>
      in if failed then (Inl STD_EXCEPTION, s) else (Inr (bytesWritten = length bytes), s))"

text \<open>Three reads, each of which waits for the receive timeout: the bytes that arrive in time are read. \<open>None\<close> when they are too few.\<close>

definition Socket_Receive :: "p2p_world \<Rightarrow> nat \<Rightarrow> bool \<Rightarrow> (socket, u8 list option) action" where
  "Socket_Receive w numBytes incrementCount s =
     (if numBytes \<le> length (so_incoming s) then
        (Inr (Some (take numBytes (so_incoming s))),
         s\<lparr>so_incoming := drop numBytes (so_incoming s),
           so_rateCounter := (if incrementCount then AddMessageReceived (pw_clock w) (so_rateCounter s) else so_rateCounter s)\<rparr>)
      else if pw_closed w then (Inl STD_EXCEPTION, s\<lparr>so_incoming := []\<rparr>)
      else (Inr None, s\<lparr>so_incoming := []\<rparr>))"

definition HasReceivedData :: "socket \<Rightarrow> bool" where
  "HasReceivedData s \<longleftrightarrow> 11 \<le> length (so_incoming s)"

definition MessageSender_Send :: "p2p_world \<Rightarrow> message \<Rightarrow> EProtocolVersion \<Rightarrow> (p2p_node, bool) process" where
  "MessageSender_Send w m protocolVersion = on_socket (Socket_Send w (message_bytes (w_env w) m protocolVersion) True)"

definition RetrieveMessage :: "p2p_world \<Rightarrow> (p2p_node, raw_message option) process" where
  "RetrieveMessage w =
     bind_process (get_node (\<lambda>n. HasReceivedData (pn_socket n))) (\<lambda>hasReceivedData.
     if \<not> hasReceivedData then return_process None
     else bind_process (on_socket (Socket_Receive w 11 True)) (\<lambda>headerBuffer. case headerBuffer of
         None \<Rightarrow> return_process None
       | Some bytes \<Rightarrow> (case MessageHeader_Deserialize (ByteBuffer_new bytes V1) of
             Inl e \<Rightarrow> throw_process e
           | Inr (messageHeader, _) \<Rightarrow>
               if \<not> MessageHeader_IsValid (w_env w) messageHeader then throw_process DESERIALIZATION_EXCEPTION
               else bind_process (on_socket (Socket_Receive w (unat (mh_messageLength messageHeader)) False)) (\<lambda>payload. case payload of
                   None \<Rightarrow> throw_process DESERIALIZATION_EXCEPTION
                 | Some payload \<Rightarrow>
                     bind_process (modify_node (update_this_peer (UpdateLastContactTime (pw_clock w)))) (\<lambda>_.
                       return_process (Some \<lparr>rm_messageHeader = messageHeader, rm_payload = payload\<rparr>))))))"

section \<open>BlockLocator\<close>

function locator_loop :: "u64 \<Rightarrow> u64 list \<Rightarrow> u64 list" where
  "locator_loop current heights =
     (if current > 0 then
        let heights = heights @ [current]
        in if length heights \<ge> unat (MAX_LOCATORS - 1) then heights
           else let next = 2 ^ length heights
                in if current > next then locator_loop (current - next) heights else heights
      else heights)"
  by auto
termination by (relation "measure (\<lambda>(_, heights). 19 - length heights)") (auto simp: p2p_consts)

declare locator_loop.simps [simp del]

definition GetLocatorHeights :: "sync_status \<Rightarrow> u64 list" where
  "GetLocatorHeights syncStatus = locator_loop (ss_headerHeight syncStatus) [] @ [0]"

definition GetLocators :: "hash_fn \<Rightarrow> sync_status \<Rightarrow> chain_state \<Rightarrow> big_integer list result" where
  "GetLocators H syncStatus s =
     bind_result (map_result (\<lambda>height. GetBlockHeaderByHeight H height CANDIDATE s) (GetLocatorHeights syncStatus)) (\<lambda>headers.
       Inr (map BlockHeader_GetHash (List.map_filter (\<lambda>h. h) headers)))"

fun FindCommonHeader :: "hash_fn \<Rightarrow> big_integer list \<Rightarrow> chain_state \<Rightarrow> block_header option result" where
  "FindCommonHeader H [] s = Inr None"
| "FindCommonHeader H (locatorHash # hashes) s =
     bind_result (GetBlockHeaderByHash H locatorHash s) (\<lambda>header.
       case header of Some header \<Rightarrow> Inr (Some header) | None \<Rightarrow> FindCommonHeader H hashes s)"

fun headers_from :: "hash_fn \<Rightarrow> u64 list \<Rightarrow> chain_state \<Rightarrow> block_header list result" where
  "headers_from H [] s = Inr []"
| "headers_from H (height # heights) s =
     bind_result (GetBlockHeaderByHeight H height CANDIDATE s) (\<lambda>header. case header of
         None \<Rightarrow> Inr []
       | Some header \<Rightarrow> bind_result (headers_from H heights s) (\<lambda>headers. Inr (header # headers)))"

definition LocateHeaders :: "hash_fn \<Rightarrow> big_integer list \<Rightarrow> chain_state \<Rightarrow> block_header list result" where
  "LocateHeaders H locatorHashes s =
     bind_result (FindCommonHeader H locatorHashes s) (\<lambda>commonHeader. case commonHeader of
         None \<Rightarrow> Inr []
       | Some commonHeader \<Rightarrow>
           bind_result (ChainState_GetHeight CANDIDATE s) (\<lambda>totalHeight.
           let headerHeight = bh_height commonHeader;
               numHeadersToSend = min (totalHeight - headerHeight) (ucast MAX_BLOCK_HEADERS)
           in headers_from H (map (\<lambda>i. headerHeight + of_nat i) [1..<unat numHeadersToSend + 1]) s))"

section \<open>Pipes\<close>

definition push_back_unique :: "('a \<Rightarrow> 'a \<Rightarrow> bool) \<Rightarrow> 'a \<Rightarrow> 'a list \<Rightarrow> bool \<times> 'a list" where
  "push_back_unique comparator item deque =
     (if list_ex (\<lambda>x. comparator x item) deque then (False, deque) else (True, deque @ [item]))"

definition AddBlockToProcess :: "peer_ref \<Rightarrow> full_block \<Rightarrow> (p2p_node, bool) process" where
  "AddBlockToProcess peer b = run_action (\<lambda>n.
     case push_back_unique (\<lambda>x y. FullBlock_GetHash (be_block x) = FullBlock_GetHash (be_block y)) \<lparr>be_peer = peer, be_block = b\<rparr>
            (pn_blocksToProcess n) of
       (added, queue) \<Rightarrow> (Inr added, n\<lparr>pn_blocksToProcess := queue\<rparr>))"

definition IsProcessingBlock :: "big_integer \<Rightarrow> p2p_node \<Rightarrow> bool" where
  "IsProcessingBlock hash n \<longleftrightarrow> list_ex (\<lambda>x. FullBlock_GetHash (be_block x) = hash) (pn_blocksToProcess n)"

definition AddTransactionToProcess :: "u64 \<Rightarrow> peer_ref \<Rightarrow> transaction \<Rightarrow> EPoolType \<Rightarrow> (p2p_node, bool) process" where
  "AddTransactionToProcess connectionId peer t poolType = run_action (\<lambda>n.
     case push_back_unique (\<lambda>x y. tx_hash (te_transaction x) = tx_hash (te_transaction y))
            \<lparr>te_connectionId = connectionId, te_peer = peer, te_transaction = t, te_poolType = poolType\<rparr> (pn_transactionsToProcess n) of
       (added, queue) \<Rightarrow> (Inr added, n\<lparr>pn_transactionsToProcess := queue\<rparr>))"

definition BroadcastMessage :: "message \<Rightarrow> u64 \<Rightarrow> (p2p_node, unit) process" where
  "BroadcastMessage m sourceId = modify_node (\<lambda>n. n\<lparr>pn_broadcasts := pn_broadcasts n @ [(sourceId, m)]\<rparr>)"

definition ban_peer :: "int \<Rightarrow> peer_ref \<Rightarrow> ban_reason \<Rightarrow> p2p_node \<Rightarrow> p2p_node" where
  "ban_peer now peer reason n = n\<lparr>pn_peers := update_peer peer (Ban now reason) (pn_peers n)\<rparr>"

text \<open>One block of the pipe's queue: what the worker thread does with it.\<close>

definition ProcessNewBlock :: "p2p_world \<Rightarrow> block_entry \<Rightarrow> (p2p_node, unit) process" where
  "ProcessNewBlock w entry = catch_process
     (bind_process (on_chainState (Server_AddBlock (chain_world w) (be_block entry))) (\<lambda>status.
        if status = INVALID then modify_node (ban_peer (pw_clock w) (be_peer entry) BadBlock) else return_process ()))
     (\<lambda>_. modify_node (ban_peer (pw_clock w) (be_peer entry) BadBlock))"

text \<open>One turn of the transaction thread: the first entry is added to the pool, its kernels are announced, and it leaves the queue.
  \<open>ptr\<close> is the address of the transaction, \<open>random\<close> and \<open>stemProbability\<close> decide whether it is stemmed.\<close>

definition process_next_transaction :: "p2p_world \<Rightarrow> nat \<Rightarrow> u8 \<Rightarrow> u8 \<Rightarrow> (p2p_node, unit) process" where
  "process_next_transaction w ptr random stemProbability =
     bind_process (get_node pn_transactionsToProcess) (\<lambda>queue. case queue of
         [] \<Rightarrow> return_process ()
       | entry # _ \<Rightarrow>
           bind_process (on_chainState (Server_AddTransaction (chain_world w) random stemProbability
               \<lparr>ptr_address = ptr, ptr_tx = te_transaction entry\<rparr> (te_poolType entry))) (\<lambda>status.
           bind_process (
             if status = SUCCESS \<and> te_poolType entry = MEMPOOL then
               run_action (for_action (\<lambda>kernel. modify_action (\<lambda>n. n\<lparr>pn_broadcasts := pn_broadcasts n @
                 [(te_connectionId entry, TransactionKernelMessage (tk_hash kernel))]\<rparr>)) (tb_kernels (tx_body (te_transaction entry))))
             else if status = INVALID then modify_node (ban_peer (pw_clock w) (te_peer entry) BadTransaction)
             else return_process ()) (\<lambda>_.
           modify_node (\<lambda>n. n\<lparr>pn_transactionsToProcess := tl (pn_transactionsToProcess n)\<rparr>))))"

section \<open>Download of a transaction hash set\<close>

definition BUFFER_SIZE :: int where "BUFFER_SIZE = 256 * 1024"

text \<open>The loop over the announced size. \<^verbatim>\<open>(int)(size - bytesReceived)\<close> keeps the low 32 bits as a signed number; a
  negative number of bytes asks the buffer for more than it can hold, which throws. \<open>Inr None\<close> when the transmission ends early.\<close>

definition bytes_to_read :: "u64 \<Rightarrow> u64 \<Rightarrow> int" where
  "bytes_to_read zippedSize bytesReceived = min (sint (ucast (zippedSize - bytesReceived) :: 32 word)) BUFFER_SIZE"

partial_function (option) receive_archive ::
  "p2p_world \<Rightarrow> u64 \<Rightarrow> u64 \<Rightarrow> u8 list \<Rightarrow> p2p_node \<Rightarrow> (u8 list option result \<times> p2p_node) option" where
  "receive_archive w zippedSize bytesReceived file n =
     (if bytesReceived < zippedSize then
        let bytesToRead = bytes_to_read zippedSize bytesReceived
        in if bytesToRead < 0 then Some (Inl STD_EXCEPTION, n)
           else (case Socket_Receive w (nat bytesToRead) False (pn_socket n) of
               (Inl e, s) \<Rightarrow> Some (Inl e, n\<lparr>pn_socket := s\<rparr>)
             | (Inr None, s) \<Rightarrow> Some (Inr None, n\<lparr>pn_socket := s\<rparr>)
             | (Inr (Some bytes), s) \<Rightarrow>
                 if pw_shutdown w then Some (Inr None, n\<lparr>pn_socket := s\<rparr>)
                 else receive_archive w zippedSize (bytesReceived + word_of_int bytesToRead) (file @ bytes)
                   (n\<lparr>pn_socket := s, pn_sync := (pn_sync n)\<lparr>ss_txHashSetDownloaded := bytesReceived + word_of_int bytesToRead\<rparr>\<rparr>))
      else Some (Inr (Some file), n))"

definition set_status :: "ESyncStatus \<Rightarrow> p2p_node \<Rightarrow> p2p_node" where
  "set_status status n = n\<lparr>pn_sync := UpdateStatus status (pn_sync n)\<rparr>"

definition ReceiveTxHashSet :: "p2p_world \<Rightarrow> peer_ref \<Rightarrow> big_integer \<Rightarrow> u64 \<Rightarrow> (p2p_node, bool) process" where
  "ReceiveTxHashSet w peer blockHash zippedSize =
     bind_process (get_node pn_processing) (\<lambda>processing.
     bind_process (modify_node (\<lambda>n. n\<lparr>pn_processing := True\<rparr>)) (\<lambda>_.
     if processing then return_process False
     else bind_process (modify_node (\<lambda>n. n\<lparr>pn_sync := (pn_sync n)\<lparr>ss_txHashSetDownloaded := 0, ss_txHashSetTotalSize := zippedSize\<rparr>\<rparr>)) (\<lambda>_.
       bind_process (catch_process (receive_archive w zippedSize 0 []) (\<lambda>e.
           bind_process (modify_node (\<lambda>n. set_status TXHASHSET_SYNC_FAILED (n\<lparr>pn_processing := False\<rparr>))) (\<lambda>_. throw_process e))) (\<lambda>file.
         case file of
           None \<Rightarrow>
             bind_process (modify_node (\<lambda>n. set_status TXHASHSET_SYNC_FAILED (n\<lparr>pn_processing := False\<rparr>))) (\<lambda>_. return_process False)
         | Some file \<Rightarrow>
             bind_process (modify_node (\<lambda>n. n\<lparr>pn_job := Some (peer, blockHash, file)\<rparr>)) (\<lambda>_. return_process True)))))"

text \<open>The thread that processes a downloaded archive; \<open>load\<close> unpacks and opens it.\<close>

definition Thread_ProcessTxHashSet ::
  "p2p_world \<Rightarrow> (u8 list \<Rightarrow> block_header \<Rightarrow> tx_hash_set option) \<Rightarrow> peer_ref \<times> big_integer \<times> u8 list \<Rightarrow> (p2p_node, unit) process" where
  "Thread_ProcessTxHashSet w load job = (case job of (peer, blockHash, file) \<Rightarrow>
     bind_process (catch_process (
       bind_process (modify_node (\<lambda>n. set_status PROCESSING_TXHASHSET (n\<lparr>pn_sync := (pn_sync n)\<lparr>ss_txHashSetProcessingStatus := 0\<rparr>\<rparr>))) (\<lambda>_.
       bind_process (on_chainState (ProcessTransactionHashSet (chain_world w) (load file) blockHash)) (\<lambda>processStatus.
         if processStatus = INVALID then
           bind_process (modify_node (set_status TXHASHSET_SYNC_FAILED)) (\<lambda>_. modify_node (ban_peer (pw_clock w) peer BadTxHashSet))
         else modify_node (set_status SYNCING_BLOCKS))))
       (\<lambda>_. modify_node (ban_peer (pw_clock w) peer BadTxHashSet))) (\<lambda>_.
     modify_node (\<lambda>n. n\<lparr>pn_processing := False, pn_job := None\<rparr>)))"

section \<open>MessageProcessor\<close>

datatype EStatus = MP_SUCCESS | MP_SOCKET_FAILURE | MP_UNKNOWN_ERROR | MP_RESOURCE_NOT_FOUND | MP_UNKNOWN_MESSAGE | MP_SYNCING | MP_BAN_PEER

definition reply :: "p2p_world \<Rightarrow> EProtocolVersion \<Rightarrow> message \<Rightarrow> (p2p_node, EStatus) process" where
  "reply w protocolVersion m =
     bind_process (MessageSender_Send w m protocolVersion) (\<lambda>sent. return_process (if sent then MP_SUCCESS else MP_SOCKET_FAILURE))"

definition read_body :: "message reader \<Rightarrow> byte_buffer \<Rightarrow> (p2p_node, message) process" where
  "read_body reader byteBuffer = (case reader byteBuffer of Inl e \<Rightarrow> throw_process e | Inr (m, _) \<Rightarrow> return_process m)"

definition handle_ping :: "p2p_world \<Rightarrow> EProtocolVersion \<Rightarrow> u64 \<Rightarrow> u64 \<Rightarrow> (p2p_node, EStatus) process" where
  "handle_ping w protocolVersion totalDifficulty height =
     bind_process (modify_node (UpdateTotals totalDifficulty height)) (\<lambda>_.
     bind_process (read_chain (GetTipBlockHeader (w_H w) CONFIRMED)) (\<lambda>tipHeader. case tipHeader of
         None \<Rightarrow> throw_process UNDEFINED_BEHAVIOUR
       | Some tip \<Rightarrow> reply w protocolVersion (PongMessage (bh_totalDifficulty tip) (bh_height tip))))"

definition handle_get_peers :: "p2p_world \<Rightarrow> EProtocolVersion \<Rightarrow> capabilities \<Rightarrow> (p2p_node, EStatus) process" where
  "handle_get_peers w protocolVersion c =
     bind_process (on_peers (GetPeers (pw_clock w) (fst (pw_random w)) (snd (pw_random w)) c (ucast MAX_PEER_ADDRS))) (\<lambda>peers.
     bind_process (get_node (\<lambda>n. map (\<lambda>r. \<lparr>sa_ipAddress = p_ipAddress (pm_peers (pn_peers n) ! r), sa_port = GetP2PPort (w_env w)\<rparr>) peers)) (\<lambda>addresses.
       reply w protocolVersion (PeerAddressesMessage addresses)))"

definition handle_header :: "p2p_world \<Rightarrow> EProtocolVersion \<Rightarrow> block_header \<Rightarrow> (p2p_node, EStatus) process" where
  "handle_header w protocolVersion header =
     bind_process (modify_node (\<lambda>n. if bh_totalDifficulty header > pn_totalDifficulty n
       then UpdateTotals (bh_totalDifficulty header) (bh_height header) n else n)) (\<lambda>_.
     bind_process (get_node (\<lambda>n. ss_syncStatus (pn_sync n))) (\<lambda>syncStatus.
     if syncStatus \<noteq> NOT_SYNCING then return_process MP_SUCCESS
     else bind_process (on_chainState (Server_AddBlockHeader (chain_world w) header)) (\<lambda>status.
       let done = return_process (if status = SUCCESS then MP_SUCCESS else MP_UNKNOWN_ERROR)
       in if status = SUCCESS \<or> status = ALREADY_EXISTS \<or> status = ORPHANED then
            bind_process (get_node (\<lambda>n. HasBlock (bh_height header) (BlockHeader_GetHash header) (pn_chain n))) (\<lambda>hasBlock.
              if \<not> hasBlock then reply w protocolVersion (GetCompactBlockMessage (BlockHeader_GetHash header)) else done)
          else if status = INVALID then return_process MP_BAN_PEER
          else done)))"

definition handle_headers :: "p2p_world \<Rightarrow> block_header list \<Rightarrow> (p2p_node, EStatus) process" where
  "handle_headers w headers =
     bind_process (on_chainState (Server_AddBlockHeaders (chain_world w) headers)) (\<lambda>status.
       return_process (if status = INVALID then MP_BAN_PEER else MP_SUCCESS))"

definition handle_block :: "p2p_world \<Rightarrow> EProtocolVersion \<Rightarrow> u64 \<Rightarrow> full_block \<Rightarrow> (p2p_node, EStatus) process" where
  "handle_block w protocolVersion connectionId b =
     bind_process (get_node (\<lambda>n. (ss_syncStatus (pn_sync n), pn_peer n))) (\<lambda>(syncStatus, peer).
     if syncStatus = SYNCING_BLOCKS then bind_process (AddBlockToProcess peer b) (\<lambda>_. return_process MP_SUCCESS)
     else bind_process (on_chainState (Server_AddBlock (chain_world w) b)) (\<lambda>added.
       if added = SUCCESS then
         bind_process (BroadcastMessage (HeaderMessage (fb_header b)) connectionId) (\<lambda>_. return_process MP_SUCCESS)
       else if added = ORPHANED then
         bind_process (read_chain (GetTotalDifficulty (w_H w) CONFIRMED)) (\<lambda>totalDifficulty.
           if bh_totalDifficulty (fb_header b) > totalDifficulty
           then reply w protocolVersion (GetCompactBlockMessage (bh_previousBlockHash (fb_header b)))
           else return_process MP_SUCCESS)
       else if added = INVALID then return_process MP_BAN_PEER
       else return_process MP_SUCCESS))"

definition handle_compact_block :: "p2p_world \<Rightarrow> EProtocolVersion \<Rightarrow> u64 \<Rightarrow> compact_block \<Rightarrow> (p2p_node, EStatus) process" where
  "handle_compact_block w protocolVersion connectionId b =
     bind_process (on_chainState (AddCompactBlock (chain_world w) b)) (\<lambda>added.
       if added = SUCCESS then
         bind_process (BroadcastMessage (HeaderMessage (cb_header b)) connectionId) (\<lambda>_. return_process MP_SUCCESS)
       else if added = TRANSACTIONS_MISSING then reply w protocolVersion (GetBlockMessage (BlockHeader_GetHash (cb_header b)))
       else if added = ORPHANED then
         bind_process (get_node (\<lambda>n. ss_syncStatus (pn_sync n))) (\<lambda>syncStatus.
           if syncStatus = NOT_SYNCING then
             bind_process (read_chain (GetTotalDifficulty (w_H w) CONFIRMED)) (\<lambda>totalDifficulty.
               if bh_totalDifficulty (cb_header b) > totalDifficulty
               then reply w protocolVersion (GetCompactBlockMessage (bh_previousBlockHash (cb_header b)))
               else return_process MP_UNKNOWN_ERROR)
           else return_process MP_UNKNOWN_ERROR)
       else return_process MP_UNKNOWN_ERROR)"

text \<open>The archive is sent in pieces of the buffer's size until one is not sent; the loop ends with the file.\<close>

fun send_pieces :: "p2p_world \<Rightarrow> u8 list list \<Rightarrow> (socket, bool) action" where
  "send_pieces w [] = return_action True"
| "send_pieces w (piece # pieces) =
     bind_action (Socket_Send w piece False) (\<lambda>sent.
       if \<not> sent \<or> pw_shutdown w then return_action False else send_pieces w pieces)"

function pieces_of :: "u8 list \<Rightarrow> u8 list list" where
  "pieces_of file = (if file = [] then [] else take (nat BUFFER_SIZE) file # pieces_of (drop (nat BUFFER_SIZE) file))"
  by auto
termination by (relation "measure length") (auto simp: BUFFER_SIZE_def)

declare pieces_of.simps [simp del]

definition SendTxHashSet :: "p2p_world \<Rightarrow> big_integer \<Rightarrow> (p2p_node, EStatus) process" where
  "SendTxHashSet w blockHash =
     bind_process (get_node (\<lambda>n. sint (p_lastTxHashSetRequest (this_peer n)))) (\<lambda>lastRequest.
     if lastRequest > pw_clock w - 2 * 3600 then return_process MP_BAN_PEER
     else bind_process (modify_node (update_this_peer (UpdateLastTxHashSetRequest (pw_clock w)))) (\<lambda>_.
       bind_process (read_chain (GetBlockHeaderByHash (w_H w) blockHash)) (\<lambda>found. case found of
           None \<Rightarrow> return_process MP_UNKNOWN_ERROR
         | Some header \<Rightarrow>
             bind_process (get_node (\<lambda>n. (pw_snapshot w header (pn_chain n), protocol_of (p_version (this_peer n))))) (\<lambda>(snapshot, protocolVersion).
               case snapshot of
                 None \<Rightarrow> return_process MP_UNKNOWN_ERROR
               | Some file \<Rightarrow>
                   bind_process (MessageSender_Send w (TxHashSetArchiveMessage (BlockHeader_GetHash header) (bh_height header) (of_nat (length file)))
                     protocolVersion) (\<lambda>_.
                   bind_process (on_socket (modify_action (so_blocking_update (\<lambda>_. False)))) (\<lambda>_.
                   bind_process (on_socket (send_pieces w (pieces_of file))) (\<lambda>sent.
                     if \<not> sent then return_process MP_BAN_PEER
                     else bind_process (on_socket (modify_action (so_blocking_update (\<lambda>_. True)))) (\<lambda>_. return_process MP_SUCCESS))))))))"

definition ProcessMessageInternal :: "p2p_world \<Rightarrow> u64 \<Rightarrow> raw_message \<Rightarrow> (p2p_node, EStatus) process" where
  "ProcessMessageInternal w connectionId rawMessage =
     bind_process (get_node (\<lambda>n. (protocol_of (p_version (this_peer n)), ss_syncStatus (pn_sync n), pn_peer n))) (\<lambda>(protocolVersion, syncStatus, peer).
     let header = rm_messageHeader rawMessage;
         byteBuffer = ByteBuffer_new (rm_payload rawMessage) protocolVersion;
         receive = (\<lambda>handler. bind_process (read_body (body_reader (w_H w) (mh_messageType header)) byteBuffer) handler)
     in if \<not> MessageHeader_IsValid (w_env w) header then return_process MP_UNKNOWN_MESSAGE
        else (case mh_messageType header of
            Msg_Error \<Rightarrow> receive (\<lambda>_. return_process MP_BAN_PEER)
          | Msg_BanReason \<Rightarrow> receive (\<lambda>_. return_process MP_BAN_PEER)
          | Msg_Ping \<Rightarrow> receive (\<lambda>m. case m of
                PingMessage totalDifficulty height \<Rightarrow> handle_ping w protocolVersion totalDifficulty height
              | _ \<Rightarrow> throw_process UNDEFINED_BEHAVIOUR)
          | Msg_Pong \<Rightarrow> receive (\<lambda>m. case m of
                PongMessage totalDifficulty height \<Rightarrow>
                  bind_process (modify_node (UpdateTotals totalDifficulty height)) (\<lambda>_. return_process MP_SUCCESS)
              | _ \<Rightarrow> throw_process UNDEFINED_BEHAVIOUR)
          | Msg_GetPeerAddrs \<Rightarrow> receive (\<lambda>m. case m of
                GetPeerAddressesMessage c \<Rightarrow> handle_get_peers w protocolVersion c
              | _ \<Rightarrow> throw_process UNDEFINED_BEHAVIOUR)
          | Msg_PeerAddrs \<Rightarrow> receive (\<lambda>m. case m of
                PeerAddressesMessage addresses \<Rightarrow>
                  bind_process (on_peers (modify_action (AddFreshPeers addresses))) (\<lambda>_. return_process MP_SUCCESS)
              | _ \<Rightarrow> throw_process UNDEFINED_BEHAVIOUR)
          | Msg_GetHeaders \<Rightarrow> receive (\<lambda>m. case m of
                GetHeadersMessage hashes \<Rightarrow>
                  bind_process (read_chain (LocateHeaders (w_H w) hashes)) (\<lambda>headers. reply w protocolVersion (HeadersMessage headers))
              | _ \<Rightarrow> throw_process UNDEFINED_BEHAVIOUR)
          | Msg_Header \<Rightarrow> receive (\<lambda>m. case m of
                HeaderMessage h \<Rightarrow> handle_header w protocolVersion h
              | _ \<Rightarrow> throw_process UNDEFINED_BEHAVIOUR)
          | Msg_Headers \<Rightarrow> receive (\<lambda>m. case m of
                HeadersMessage hs \<Rightarrow> handle_headers w hs
              | _ \<Rightarrow> throw_process UNDEFINED_BEHAVIOUR)
          | Msg_GetBlock \<Rightarrow> receive (\<lambda>m. case m of
                GetBlockMessage hash \<Rightarrow>
                  bind_process (read_chain (GetBlockByHash (w_H w) hash)) (\<lambda>found. case found of
                      Some b \<Rightarrow> reply w protocolVersion (BlockMessage b)
                    | None \<Rightarrow> return_process MP_RESOURCE_NOT_FOUND)
              | _ \<Rightarrow> throw_process UNDEFINED_BEHAVIOUR)
          | Msg_Block \<Rightarrow> receive (\<lambda>m. case m of
                BlockMessage b \<Rightarrow> handle_block w protocolVersion connectionId b
              | _ \<Rightarrow> throw_process UNDEFINED_BEHAVIOUR)
          | Msg_GetCompactBlock \<Rightarrow> receive (\<lambda>m. case m of
                GetCompactBlockMessage hash \<Rightarrow>
                  bind_process (read_chain (GetCompactBlockByHash (w_H w) (pw_cbNonce w) hash)) (\<lambda>found. case found of
                      Some b \<Rightarrow> reply w protocolVersion (CompactBlockMessage b)
                    | None \<Rightarrow> return_process MP_RESOURCE_NOT_FOUND)
              | _ \<Rightarrow> throw_process UNDEFINED_BEHAVIOUR)
          | Msg_CompactBlock \<Rightarrow> receive (\<lambda>m. case m of
                CompactBlockMessage b \<Rightarrow> handle_compact_block w protocolVersion connectionId b
              | _ \<Rightarrow> throw_process UNDEFINED_BEHAVIOUR)
          | Msg_StemTransaction \<Rightarrow>
              if syncStatus \<noteq> NOT_SYNCING then return_process MP_SYNCING
              else receive (\<lambda>m. case m of
                StemTransactionMessage t \<Rightarrow>
                  bind_process (AddTransactionToProcess connectionId peer t STEMPOOL) (\<lambda>_. return_process MP_SUCCESS)
              | _ \<Rightarrow> throw_process UNDEFINED_BEHAVIOUR)
          | Msg_Transaction \<Rightarrow>
              if syncStatus \<noteq> NOT_SYNCING then return_process MP_SYNCING
              else receive (\<lambda>m. case m of
                TransactionMessage t \<Rightarrow>
                  bind_process (AddTransactionToProcess connectionId peer t MEMPOOL) (\<lambda>added.
                    return_process (if added then MP_SUCCESS else MP_UNKNOWN_ERROR))
              | _ \<Rightarrow> throw_process UNDEFINED_BEHAVIOUR)
          | Msg_TxHashSetRequest \<Rightarrow> receive (\<lambda>m. case m of
                TxHashSetRequestMessage blockHash _ \<Rightarrow> SendTxHashSet w blockHash
              | _ \<Rightarrow> throw_process UNDEFINED_BEHAVIOUR)
          | Msg_TxHashSetArchive \<Rightarrow> receive (\<lambda>m. case m of
                TxHashSetArchiveMessage blockHash _ zippedSize \<Rightarrow>
                  bind_process (ReceiveTxHashSet w peer blockHash zippedSize) (\<lambda>received.
                    return_process (if received then MP_SUCCESS else MP_BAN_PEER))
              | _ \<Rightarrow> throw_process UNDEFINED_BEHAVIOUR)
          | Msg_GetTransaction \<Rightarrow> receive (\<lambda>m. case m of
                GetTransactionMessage kernelHash \<Rightarrow>
                  bind_process (get_node (\<lambda>n. FindTransactionByKernelHash kernelHash (st_txPool (pn_chain n)))) (\<lambda>found. case found of
                      Some t \<Rightarrow> reply w protocolVersion (TransactionMessage (ptr_tx t))
                    | None \<Rightarrow> return_process MP_RESOURCE_NOT_FOUND)
              | _ \<Rightarrow> throw_process UNDEFINED_BEHAVIOUR)
          | Msg_TransactionKernel \<Rightarrow>
              if syncStatus \<noteq> NOT_SYNCING then return_process MP_SYNCING
              else receive (\<lambda>m. case m of
                TransactionKernelMessage kernelHash \<Rightarrow>
                  bind_process (get_node (\<lambda>n. FindTransactionByKernelHash kernelHash (st_txPool (pn_chain n)))) (\<lambda>found. case found of
                      None \<Rightarrow> reply w protocolVersion (GetTransactionMessage kernelHash)
                    | Some _ \<Rightarrow> return_process MP_RESOURCE_NOT_FOUND)
              | _ \<Rightarrow> throw_process UNDEFINED_BEHAVIOUR)
          | _ \<Rightarrow> return_process MP_UNKNOWN_MESSAGE))"

definition ProcessMessage :: "p2p_world \<Rightarrow> u64 \<Rightarrow> raw_message \<Rightarrow> (p2p_node, EStatus) process" where
  "ProcessMessage w connectionId rawMessage = catch_process (ProcessMessageInternal w connectionId rawMessage) (\<lambda>e.
     if e = BAD_DATA_EXCEPTION \<or> e = BLOCK_CHAIN_EXCEPTION \<or> e = DESERIALIZATION_EXCEPTION then return_process MP_BAN_PEER
     else throw_process e)"

end
