(* ===== verification/P2P_Safety.thy ===== *)
theory P2P_Safety
  imports Message_Processor Block_Safety
begin

text \<open>
  What the message layer guarantees: messages cross the wire, locators have their reference form, replies are bounded, and
  which messages can change the chain.
\<close>

section \<open>Framing\<close>

lemma u64_bound: "unat (x :: u64) < 2 ^ 64"
  using unsigned_less [of x] by simp

lemma type_of_byte_of_type: "type_of_byte (byte_of_type (GetMessageType m)) = GetMessageType m"
  by (cases m) (simp_all add: type_of_byte_def message_types_def)

lemma message_bytes_eq:
  "message_bytes env m v =
     (be_bytes (GetMagicBytes env ! 0) @ be_bytes (GetMagicBytes env ! 1) @ be_bytes (byte_of_type (GetMessageType m)) @
      be_bytes (of_nat (length (body_bytes v (reverse_addresses m))) :: u64)) @ body_bytes v (reverse_addresses m)"
  by (simp add: message_bytes_def Let_def AppendByteVector_def AppendLength_def Append_bytes SerializeBody_bytes GetBytes_def
      GetMagicBytes_def be_bytes_u8)

lemma header_decodes:
  "decodes v MessageHeader_Deserialize (be_bytes a @ be_bytes b @ be_bytes c @ be_bytes d)
     \<lparr>mh_magicBytes = [a, b], mh_messageType = type_of_byte c, mh_messageLength = d\<rparr>"
  unfolding MessageHeader_Deserialize_def
  by (intro decodes_int decodes_last [OF decodes_ReadInt(4)]) (rule refl)

lemmas process_simps = bind_process_def run_action_def action_apply get_node_def modify_node_def on_socket_def on_peers_def
  read_chain_def zoom_action_eq catch_process_def

definition sent_header :: "EEnvironmentType \<Rightarrow> EProtocolVersion \<Rightarrow> message \<Rightarrow> message_header" where
  "sent_header env v m = \<lparr>mh_magicBytes = [GetMagicBytes env ! 0, GetMagicBytes env ! 1], mh_messageType = GetMessageType m,
    mh_messageLength = of_nat (length (body_bytes v (reverse_addresses m)))\<rparr>"

lemma RetrieveMessage_sent:
  assumes "length (body_bytes v (reverse_addresses m)) \<le> unat (GetMaximumSize (GetMessageType m) * 4)"
    and "so_incoming (pn_socket n) = message_bytes (w_env w) m v @ rest"
  shows "RetrieveMessage w n = Some (Inr (Some \<lparr>rm_messageHeader = sent_header (w_env w) v m, rm_payload = body_bytes v (reverse_addresses m)\<rparr>),
    update_this_peer (UpdateLastContactTime (pw_clock w)) (n\<lparr>pn_socket := (pn_socket n)\<lparr>so_incoming := rest,
      so_rateCounter := AddMessageReceived (pw_clock w) (so_rateCounter (pn_socket n))\<rparr>\<rparr>))"
proof -
  let ?body = "body_bytes v (reverse_addresses m)"
  let ?head = "be_bytes (GetMagicBytes (w_env w) ! 0) @ be_bytes (GetMagicBytes (w_env w) ! 1) @
    be_bytes (byte_of_type (GetMessageType m)) @ be_bytes (of_nat (length ?body) :: u64)"
  have "length ?body < 2 ^ 64" using assms(1) u64_bound [of "GetMaximumSize (GetMessageType m) * 4"] by simp
  then have len: "unat (of_nat (length ?body) :: u64) = length ?body" by (simp add: unat_of_nat_small)
  have in11: "so_incoming (pn_socket n) = ?head @ ?body @ rest" and h11: "length ?head = 11"
    using assms(2) by (simp_all add: message_bytes_eq)
  have head: "MessageHeader_Deserialize (ByteBuffer_new ?head V1) = Inr (sent_header (w_env w) v m, buf V1 ?head [])"
    using decodes_new [OF header_decodes] h11 by (simp add: type_of_byte_of_type sent_header_def)
  have "MessageHeader_IsValid (w_env w) (sent_header (w_env w) v m)"
    using assms(1) len by (simp add: MessageHeader_IsValid_def word_le_nat_alt sent_header_def)
  moreover have "take 11 (?head @ ?body @ rest) = ?head" "drop 11 (?head @ ?body @ rest) = ?body @ rest"
    using h11 by (simp_all del: append_assoc)
  moreover have "unat (mh_messageLength (sent_header (w_env w) v m)) = length ?body" using len by (simp add: sent_header_def)
  ultimately show ?thesis
    using head h11
    by (simp del: append_assoc add: RetrieveMessage_def process_simps HasReceivedData_def in11 Socket_Receive_def)
qed


section \<open>Locators\<close>

text \<open>How far the i-th height of a locator is below the header height.\<close>

definition locator_back :: "nat \<Rightarrow> nat" where
  "locator_back i = 2 ^ (i + 1) - 2"

lemma locator_back_mono:
  assumes "i < j" shows "locator_back i < locator_back j"
proof -
  have "(2 :: nat) ^ (i + 1) < 2 ^ (j + 1)" using assms by (intro power_strict_increasing) simp_all
  moreover have "(2 :: nat) \<le> 2 ^ (i + 1)" by simp
  ultimately show ?thesis unfolding locator_back_def by linarith
qed

lemma locator_loop_reference:
  assumes "k < 19" "length hs = k" "0 < c" "unat c + locator_back k = h"
  shows "locator_loop c hs = hs @ map (\<lambda>i. of_nat (h - locator_back i)) (takeWhile (\<lambda>i. locator_back i < h) [k..<19])"
  using assms
proof (induction c hs arbitrary: k rule: locator_loop.induct)
  case (1 c hs)
  let ?next = "2 ^ length (hs @ [c]) :: u64"
  have k2: "(2 :: nat) \<le> 2 ^ (k + 1)" "locator_back (k + 1) = locator_back k + 2 ^ (k + 1)" by (simp_all add: locator_back_def)
  have c: "of_nat (h - locator_back k) = c" using 1(5) by (metis add_diff_cancel_right' of_nat_unat ucast_id)
  have pos: "locator_back k < h" using 1(4,5) by (metis add.commute less_add_same_cancel1 unat_gt_0 word_gt_0)
  have upt: "[k..<19] = k # [k + 1..<19]" using 1(2) by (simp add: upt_conv_Cons)
  show ?case
  proof (cases "k + 1 = 19")
    case True
    then show ?thesis using 1(3,4) pos c upt by (simp add: locator_loop.simps [of c hs] p2p_consts)
  next
    case False
    then have k: "k + 1 < 19" using 1(2) by simp
    then have "(2 :: nat) ^ (k + 1) < 2 ^ 64" by (intro power_strict_increasing) simp_all
    moreover have "?next = of_nat (2 ^ (k + 1))" using 1(3) by simp
    ultimately have nx: "unat ?next = 2 ^ (k + 1)" by (metis unat_of_nat_small)
    show ?thesis
    proof (cases "c > ?next")
      case True
      then have "unat (c - ?next) = unat c - unat ?next" by (intro unat_sub) simp
      then have d: "unat (c - ?next) = unat c - 2 ^ (k + 1)" "2 ^ (k + 1) < unat c"
        using True nx by (simp_all add: word_less_nat_alt del: power_Suc)
      have "unat (c - ?next) + locator_back (k + 1) = h" using d 1(5) k2 by simp
      moreover have "0 < c - ?next" using d unfolding word_less_nat_alt unat_0 by linarith
      ultimately have "locator_loop (c - ?next) (hs @ [c]) =
          (hs @ [c]) @ map (\<lambda>i. of_nat (h - locator_back i)) (takeWhile (\<lambda>i. locator_back i < h) [k + 1..<19])"
        using 1(1) [OF 1(4) refl _ refl True, of "k + 1"] k 1(3) by (simp add: p2p_consts)
      then show ?thesis using 1(3,4) True k pos c upt by (simp add: locator_loop.simps [of c hs] p2p_consts Let_def)
    next
      case le: False
      then have "unat c \<le> 2 ^ (k + 1)" using nx by (simp add: word_less_nat_alt)
      then have "\<not> locator_back (k + 1) < h" using 1(5) k2 by simp
      then have "takeWhile (\<lambda>i. locator_back i < h) [k + 1..<19] = []" using k by (simp add: upt_conv_Cons)
      then show ?thesis using 1(3,4) le k pos c upt by (simp add: locator_loop.simps [of c hs] p2p_consts Let_def)
    qed
  qed
qed

text \<open>C24. The heights of a locator are the header height, then steps back of 2, 4, 8 and so on as long as they stay above the
  genesis block, at most nineteen of them, then height 0; so a locator never exceeds the twenty hashes the protocol allows and
  the heights strictly decrease.\<close>

theorem GetLocatorHeights_reference:
  "GetLocatorHeights ss =
     map (\<lambda>i. of_nat (unat (ss_headerHeight ss) - locator_back i)) (takeWhile (\<lambda>i. locator_back i < unat (ss_headerHeight ss)) [0..<19]) @ [0] \<and>
   length (GetLocatorHeights ss) \<le> unat MAX_LOCATORS \<and> sorted_wrt (>) (GetLocatorHeights ss)"
proof -
  let ?h = "ss_headerHeight ss" and ?is = "takeWhile (\<lambda>i. locator_back i < unat (ss_headerHeight ss)) [0..<19]"
  have eq: "GetLocatorHeights ss = map (\<lambda>i. of_nat (unat ?h - locator_back i)) ?is @ [0]"
  proof (cases "?h = 0")
    case True
    then show ?thesis by (simp add: GetLocatorHeights_def locator_loop.simps upt_conv_Cons)
  next
    case False
    then show ?thesis
      using locator_loop_reference [of 0 "[]" ?h "unat ?h"] by (simp add: GetLocatorHeights_def word_gt_0 locator_back_def [of 0])
  qed
  have "length ?is \<le> length [0..<19]" by (rule length_takeWhile_le)
  then have "length (GetLocatorHeights ss) \<le> unat MAX_LOCATORS" by (simp add: eq p2p_consts)
  moreover have "sorted_wrt (>) (map (\<lambda>i. of_nat (unat ?h - locator_back i) :: u64) ?is)"
  proof -
    have "sorted_wrt (<) ?is" using sorted_wrt_upt [of 0 19] by (metis sorted_wrt_take takeWhile_eq_take)
    moreover have "(of_nat (unat ?h - locator_back i) :: u64) > of_nat (unat ?h - locator_back j)"
      if "i < j" "locator_back j < unat ?h" for i j
    proof -
      have "unat ?h - locator_back j < unat ?h - locator_back i" using locator_back_mono [OF that(1)] that(2) by linarith
      moreover have "unat ?h - x < 2 ^ 64" for x using u64_bound [of ?h] by (simp add: less_imp_diff_less)
      ultimately show ?thesis by (simp add: word_less_nat_alt unat_of_nat_small del: of_nat_diff)
    qed
    ultimately show ?thesis unfolding sorted_wrt_map by (rule sorted_wrt_mono_rel [rotated]) (auto dest: set_takeWhileD)
  qed
  moreover have "x > 0" if "x \<in> set (map (\<lambda>i. of_nat (unat ?h - locator_back i) :: u64) ?is)" for x
  proof -
    from that obtain i where i: "x = of_nat (unat ?h - locator_back i)" "locator_back i < unat ?h" by (auto dest: set_takeWhileD)
    moreover have "unat ?h - locator_back i < 2 ^ 64" using u64_bound [of ?h] by (simp add: less_imp_diff_less)
    ultimately show ?thesis by (simp add: word_less_nat_alt unat_of_nat_small del: of_nat_diff)
  qed
  ultimately show ?thesis unfolding eq by (simp add: sorted_wrt_append)
qed

section \<open>Which messages change the chain\<close>

definition chain_same :: "(p2p_node, 'a) process \<Rightarrow> bool" where
  "chain_same m \<longleftrightarrow> (\<forall>n r n'. m n = Some (r, n') \<longrightarrow> pn_chain n' = pn_chain n)"

lemma chain_sameI: "(\<And>n r n'. m n = Some (r, n') \<Longrightarrow> pn_chain n' = pn_chain n) \<Longrightarrow> chain_same m"
  by (simp add: chain_same_def)

lemma chain_same_basic [simp]:
  "chain_same (return_process x)" "chain_same (throw_process e)" "chain_same (get_node f)" "chain_same (read_chain g)"
  "chain_same (on_socket m)" "chain_same (on_peers k)"
  by (auto simp: chain_same_def process_simps)

lemma chain_same_modify: "(\<And>n. pn_chain (f n) = pn_chain n) \<Longrightarrow> chain_same (modify_node f)"
  by (auto simp: chain_same_def process_simps)

lemma chain_same_bind:
  assumes "chain_same m" "\<And>x. chain_same (f x)"
  shows "chain_same (bind_process m f)"
proof (rule chain_sameI)
  fix n r n' assume "bind_process m f n = Some (r, n')"
  then consider e where "m n = Some (Inl e, n')" | x u where "m n = Some (Inr x, u)" "f x u = Some (r, n')"
    by (auto simp: bind_process_def split: option.splits sum.splits)
  then show "pn_chain n' = pn_chain n" using assms unfolding chain_same_def by cases (metis, metis)
qed

lemma chain_same_catch:
  assumes "chain_same m" "\<And>e. chain_same (f e)"
  shows "chain_same (catch_process m f)"
proof (rule chain_sameI)
  fix n r n' assume "catch_process m f n = Some (r, n')"
  then consider x where "m n = Some (x, n')" | e u where "m n = Some (Inl e, u)" "f e u = Some (r, n')"
    by (auto simp: catch_process_def split: option.splits sum.splits if_splits)
  then show "pn_chain n' = pn_chain n" using assms unfolding chain_same_def by cases (metis, metis)
qed

lemma chain_same_reply [simp]: "chain_same (reply w v m)"
  by (simp add: reply_def MessageSender_Send_def chain_same_bind)

lemma chain_same_archive: "chain_same (receive_archive w z k file)"
proof (rule chain_sameI)
  fix n r n' assume run: "receive_archive w z k file n = Some (r, n')"
  have "pn_chain (snd (r, n')) = pn_chain n"
  proof (rule receive_archive.raw_induct [OF _ run])
    fix self :: "p2p_world \<Rightarrow> u64 \<Rightarrow> u64 \<Rightarrow> u8 list \<Rightarrow> p2p_node \<Rightarrow> (u8 list option result \<times> p2p_node) option" and w z k fl n y
    assume IH: "\<And>w z k file n y. self w z k file n = Some y \<Longrightarrow> pn_chain (snd y) = pn_chain n"
      and eq: "(if k < z then let bytesToRead = bytes_to_read z k in if bytesToRead < 0 then Some (Inl STD_EXCEPTION, n)
        else case Socket_Receive w (nat bytesToRead) False (pn_socket n) of
            (Inl e, s) \<Rightarrow> Some (Inl e, n\<lparr>pn_socket := s\<rparr>)
          | (Inr None, s) \<Rightarrow> Some (Inr None, n\<lparr>pn_socket := s\<rparr>)
          | (Inr (Some bytes), s) \<Rightarrow> if pw_shutdown w then Some (Inr None, n\<lparr>pn_socket := s\<rparr>)
              else self w z (k + word_of_int bytesToRead) (fl @ bytes)
                (n\<lparr>pn_socket := s, pn_sync := (pn_sync n)\<lparr>ss_txHashSetDownloaded := k + word_of_int bytesToRead\<rparr>\<rparr>)
        else Some (Inr (Some fl), n)) = Some y"
    show "pn_chain (snd y) = pn_chain n"
      using eq by (auto simp: Let_def split: if_splits prod.splits sum.splits option.splits dest: IH)
  qed
  then show "pn_chain n' = pn_chain n" by simp
qed

lemma chain_same_receive [simp]: "chain_same (ReceiveTxHashSet w peer blockHash zippedSize)"
  unfolding ReceiveTxHashSet_def
  by (intro chain_same_bind chain_same_catch chain_same_archive chain_same_modify)
    (auto simp: set_status_def intro!: chain_same_bind chain_same_modify chain_same_catch chain_same_archive split: option.splits)

lemma chain_same_send [simp]: "chain_same (SendTxHashSet w blockHash)"
  unfolding SendTxHashSet_def MessageSender_Send_def
  by (auto simp: update_this_peer_def intro!: chain_same_bind chain_same_modify split: option.splits)

lemma chain_same_handlers [simp]:
  "chain_same (handle_ping w v d h)" "chain_same (handle_get_peers w v c)" "chain_same (AddTransactionToProcess i p t pool)"
  "chain_same (AddBlockToProcess p b)" "chain_same (read_body rd bb)"
  unfolding handle_ping_def handle_get_peers_def read_body_def
  by (auto simp: UpdateTotals_def intro!: chain_same_bind chain_same_modify split: option.splits sum.splits)
    (auto simp: chain_same_def AddTransactionToProcess_def AddBlockToProcess_def run_action_def split: prod.splits)


section \<open>Replies to locators\<close>

lemma headers_from_correct:
  "headers_from H heights s = Inr hs \<Longrightarrow> length hs \<le> length heights \<and>
     (\<forall>i < length hs. GetBlockHeaderByHeight H (heights ! i) CANDIDATE s = Inr (Some (hs ! i))) \<and>
     (length hs < length heights \<longrightarrow> GetBlockHeaderByHeight H (heights ! length hs) CANDIDATE s = Inr None)"
proof (induction heights arbitrary: hs)
  case (Cons x heights)
  then show ?case by (fastforce simp: bind_result_eq_Inr_iff nth_Cons split: option.splits nat.splits)
qed simp


section \<open>An archive of a multiple of 4 GiB\<close>

lemma zero_bytes_loop:
  assumes "z \<noteq> 0" "(ucast z :: 32 word) = 0" "\<not> pw_shutdown w"
  shows "receive_archive w z 0 fl n = None"
proof (rule ccontr)
  assume "receive_archive w z 0 fl n \<noteq> None"
  then obtain y where run: "receive_archive w z 0 fl n = Some y" by blast
  define P where "P = (\<lambda>w' (z' :: u64) (k :: u64) (fl :: u8 list) (n :: p2p_node) (y :: u8 list option result \<times> p2p_node). w' = w \<longrightarrow> z' = z \<longrightarrow> k = 0 \<longrightarrow> False)"
  have "P w z 0 fl n y"
  proof (rule receive_archive.raw_induct [OF _ run])
    fix self :: "p2p_world \<Rightarrow> u64 \<Rightarrow> u64 \<Rightarrow> u8 list \<Rightarrow> p2p_node \<Rightarrow> (u8 list option result \<times> p2p_node) option" and w' z' k fl n y
    assume IH: "\<And>w z k fl n y. self w z k fl n = Some y \<Longrightarrow> P w z k fl n y"
      and eq: "(if k < z' then let bytesToRead = bytes_to_read z' k in if bytesToRead < 0 then Some (Inl STD_EXCEPTION, n)
        else case Socket_Receive w' (nat bytesToRead) False (pn_socket n) of
            (Inl e, s) \<Rightarrow> Some (Inl e, n\<lparr>pn_socket := s\<rparr>)
          | (Inr None, s) \<Rightarrow> Some (Inr None, n\<lparr>pn_socket := s\<rparr>)
          | (Inr (Some bytes), s) \<Rightarrow> if pw_shutdown w' then Some (Inr None, n\<lparr>pn_socket := s\<rparr>)
              else self w' z' (k + word_of_int bytesToRead) (fl @ bytes)
                (n\<lparr>pn_socket := s, pn_sync := (pn_sync n)\<lparr>ss_txHashSetDownloaded := k + word_of_int bytesToRead\<rparr>\<rparr>)
        else Some (Inr (Some fl), n)) = Some y"
    have "bytes_to_read z 0 = 0" using assms(2) by (simp add: bytes_to_read_def BUFFER_SIZE_def)
    then show "P w' z' k fl n y"
      using eq assms(1,3) IH [of w z 0 fl "n\<lparr>pn_sync := (pn_sync n)\<lparr>ss_txHashSetDownloaded := 0\<rparr>\<rparr>" y]
      by (auto simp: P_def Let_def Socket_Receive_def word_gt_0)
  qed
  then show False by (simp add: P_def)
qed

text \<open>C26. A peer can stop the thread of its connection: an archive announced with a size that is a multiple of 4 GiB is read zero
  bytes at a time, until the node is shut down. The message has not been asked for and no archive need follow it; while the loop runs the node takes no
  archive from any other peer.\<close>

theorem archive_of_4GiB_never_ends:
  assumes "rm_messageHeader raw = \<lparr>mh_magicBytes = GetMagicBytes (w_env w), mh_messageType = Msg_TxHashSetArchive, mh_messageLength = 48\<rparr>"
    and "rm_payload raw = blockHash @ be_bytes (height :: u64) @ be_bytes (zipped :: u64)" and "length blockHash = 32"
    and "zipped \<noteq> 0" and "(ucast zipped :: 32 word) = 0" and "\<not> pn_processing n" and "\<not> pw_shutdown w"
  shows "ProcessMessage w connectionId raw n = None"
proof -
  have "message_ok (w_H w) v (TxHashSetArchiveMessage blockHash height zipped)" for v using assms(3) by simp
  from body_decodes [OF this] have "body_reader (w_H w) Msg_TxHashSetArchive (ByteBuffer_new (rm_payload raw) v) =
      Inr (TxHashSetArchiveMessage blockHash height zipped, buf v (rm_payload raw) [])" for v
    using decodes_new [of v "TxHashSetArchiveMessage_Deserialize"] assms(2,3) by simp
  moreover have "receive_archive w zipped 0 [] m = None" for m using zero_bytes_loop assms(4,5,7) by blast
  moreover have "MessageHeader_IsValid (w_env w) (rm_messageHeader raw)" by (simp add: assms(1) MessageHeader_IsValid_def)
  ultimately show ?thesis
    using assms(1,6) by (simp add: ProcessMessage_def ProcessMessageInternal_def process_simps read_body_def ReceiveTxHashSet_def)
qed

section \<open>Witnesses\<close>

definition test_p2p_world :: p2p_world where
  "test_p2p_world = node_world.extend (test_world True) (p2p_world.fields (\<lambda>bs. (length bs, False)) False 1000000 (0, 0) 7 False (\<lambda>_ _. None))"

definition test_node :: p2p_node where
  "test_node = \<lparr>pn_chain = new_node, pn_peers = one_peer, pn_sync = SyncStatus_new, pn_blocksToProcess = [], pn_transactionsToProcess = [],
     pn_processing = False, pn_job = None, pn_broadcasts = [],
     pn_socket = \<lparr>so_incoming = [], so_outgoing = [], so_rateCounter = \<lparr>rc_received = [], rc_sent = []\<rparr>, so_blocking = True\<rparr>,
     pn_peer = 0, pn_totalDifficulty = 0, pn_height = 0\<rparr>"

lemma test_p2p_fields: "w_env test_p2p_world = w_env (test_world True)" "w_H test_p2p_world = sample_hash" "pw_clock test_p2p_world = 1000000" "\<not> pw_shutdown test_p2p_world"
  by (simp_all add: test_p2p_world_def node_world.defs p2p_world.defs test_world_def)

definition peer_list :: message where
  "peer_list = PeerAddressesMessage [\<lparr>sa_ipAddress = IPv4 [10, 0, 0, 7], sa_port = 3414\<rparr>]"


definition pong :: raw_message where
  "pong = \<lparr>rm_messageHeader = \<lparr>mh_magicBytes = GetMagicBytes (w_env test_p2p_world), mh_messageType = Msg_Pong, mh_messageLength = 16\<rparr>,
     rm_payload = be_bytes (5 :: u64) @ be_bytes (9 :: u64)\<rparr>"



definition huge_archive :: raw_message where
  "huge_archive = \<lparr>rm_messageHeader = \<lparr>mh_magicBytes = GetMagicBytes (w_env test_p2p_world), mh_messageType = Msg_TxHashSetArchive, mh_messageLength = 48\<rparr>,
     rm_payload = replicate 32 1 @ be_bytes (0 :: u64) @ be_bytes (0x100000000 :: u64)\<rparr>"

theorem archive_of_4GiB_never_ends_witness: "ProcessMessage test_p2p_world 1 huge_archive test_node = None"
  by (rule archive_of_4GiB_never_ends [where blockHash = "replicate 32 1" and height = 0 and zipped = "0x100000000"])
    (simp_all add: huge_archive_def test_p2p_fields test_node_def)

end
