(* ===== verification/P2P_Sync.thy ===== *)
theory P2P_Sync
  imports P2P_Safety
begin

text \<open>
  Connections and synchronization: \<^verbatim>\<open>HandShake\<close>, \<^verbatim>\<open>ConnectionManager\<close>, one turn of
  \<^verbatim>\<open>Connection::Thread_ProcessConnection\<close>, and the header, state and block synchronizers with the
  \<^verbatim>\<open>Syncer\<close> that drives them (\<^verbatim>\<open>src/P2P\<close>).
\<close>

section \<open>HandShake\<close>

text \<open>The random number of the process, the hash of the genesis block, the name of the software, and the port of the socket.\<close>

record handshake_config =
  hc_nonce :: u64
  hc_genesisHash :: big_integer
  hc_userAgent :: "u8 list"
  hc_port :: u16

definition hand_of :: "EEnvironmentType \<Rightarrow> handshake_config \<Rightarrow> u64 \<Rightarrow> message" where
  "hand_of env c totalDifficulty =
     (let localHostIP = IPv4 [0x7F, 0x00, 0x00, 0x01]
      in HandMessage \<lparr>hm_version = PROTOCOL_VERSION, hm_capabilities = FAST_SYNC_NODE, hm_nonce = hc_nonce c,
           hm_hash = hc_genesisHash c, hm_totalDifficulty = totalDifficulty,
           hm_senderAddress = \<lparr>sa_ipAddress = localHostIP, sa_port = GetP2PPort env\<rparr>,
           hm_receiverAddress = \<lparr>sa_ipAddress = localHostIP, sa_port = hc_port c\<rparr>, hm_userAgent = hc_userAgent c\<rparr>)"

definition TransmitHandMessage :: "p2p_world \<Rightarrow> handshake_config \<Rightarrow> (p2p_node, bool) process" where
  "TransmitHandMessage w c =
     bind_process (read_chain (GetTotalDifficulty (w_H w) CONFIRMED)) (\<lambda>totalDifficulty.
       MessageSender_Send w (hand_of (w_env w) c totalDifficulty) V2)"

definition shake_of :: "handshake_config \<Rightarrow> u32 \<Rightarrow> u64 \<Rightarrow> message" where
  "shake_of c protocolVersion totalDifficulty =
     ShakeMessage \<lparr>sm_version = protocolVersion, sm_capabilities = FAST_SYNC_NODE, sm_hash = hc_genesisHash c,
       sm_totalDifficulty = totalDifficulty, sm_userAgent = hc_userAgent c\<rparr>"

definition TransmitShakeMessage :: "p2p_world \<Rightarrow> handshake_config \<Rightarrow> u32 \<Rightarrow> (p2p_node, bool) process" where
  "TransmitShakeMessage w c protocolVersion =
     bind_process (read_chain (GetTotalDifficulty (w_H w) CONFIRMED)) (\<lambda>totalDifficulty.
       MessageSender_Send w (shake_of c protocolVersion totalDifficulty) (protocol_of protocolVersion))"

definition PerformOutboundHandshake :: "p2p_world \<Rightarrow> handshake_config \<Rightarrow> (p2p_node, bool) process" where
  "PerformOutboundHandshake w c =
     bind_process (TransmitHandMessage w c) (\<lambda>sent.
     if \<not> sent then return_process False
     else bind_process (RetrieveMessage w) (\<lambda>received. case received of
         None \<Rightarrow> return_process False
       | Some raw \<Rightarrow>
           if mh_messageType (rm_messageHeader raw) = Msg_Shake then
             bind_process (read_body ShakeMessage_Deserialize (ByteBuffer_new (rm_payload raw) V1)) (\<lambda>m. case m of
                 ShakeMessage shake \<Rightarrow>
                   bind_process (modify_node (update_this_peer (p_version_update (\<lambda>_. sm_version shake)))) (\<lambda>_.
                   bind_process (modify_node (update_this_peer (p_capabilities_update (\<lambda>_. sm_capabilities shake)))) (\<lambda>_.
                   bind_process (modify_node (update_this_peer (p_userAgent_update (\<lambda>_. sm_userAgent shake)))) (\<lambda>_.
                   bind_process (modify_node (UpdateTotals (sm_totalDifficulty shake) 0)) (\<lambda>_. return_process True))))
               | _ \<Rightarrow> throw_process UNDEFINED_BEHAVIOUR)
           else if mh_messageType (rm_messageHeader raw) = Msg_BanReason then
             bind_process (read_body BanReasonMessage_Deserialize (ByteBuffer_new (rm_payload raw) V1)) (\<lambda>_. return_process False)
           else return_process False))"

text \<open>\<open>connected\<close> is what the connection manager answers for the peer's address.\<close>

definition PerformInboundHandshake :: "p2p_world \<Rightarrow> handshake_config \<Rightarrow> bool \<Rightarrow> (p2p_node, bool) process" where
  "PerformInboundHandshake w c connected =
     bind_process (RetrieveMessage w) (\<lambda>received. case received of
         None \<Rightarrow> return_process False
       | Some raw \<Rightarrow>
           if mh_messageType (rm_messageHeader raw) = Msg_Hand then
             bind_process (read_body HandMessage_Deserialize (ByteBuffer_new (rm_payload raw) V1)) (\<lambda>m. case m of
                 HandMessage hand \<Rightarrow>
                   if hm_nonce hand \<noteq> hc_nonce c \<and> \<not> connected then
                     bind_process (modify_node (update_this_peer (p_capabilities_update (\<lambda>_. hm_capabilities hand)))) (\<lambda>_.
                     bind_process (modify_node (update_this_peer (p_userAgent_update (\<lambda>_. hm_userAgent hand)))) (\<lambda>_.
                     bind_process (modify_node (UpdateTotals (hm_totalDifficulty hand) 0)) (\<lambda>_.
                     let version = min PROTOCOL_VERSION (hm_version hand)
                     in bind_process (modify_node (update_this_peer (p_version_update (\<lambda>_. version)))) (\<lambda>_. TransmitShakeMessage w c version))))
                   else return_process False
               | _ \<Rightarrow> throw_process UNDEFINED_BEHAVIOUR)
           else return_process False)"

definition PerformHandshake :: "p2p_world \<Rightarrow> handshake_config \<Rightarrow> bool \<Rightarrow> bool \<Rightarrow> (p2p_node, bool) process" where
  "PerformHandshake w c connected outbound =
     catch_process (if outbound then PerformOutboundHandshake w c else PerformInboundHandshake w c connected) (\<lambda>e.
       if e = DESERIALIZATION_EXCEPTION \<or> e = STD_EXCEPTION then return_process False else throw_process e)"

section \<open>ConnectionManager\<close>

record connection =
  cn_id :: u64
  cn_peer :: peer_ref
  cn_inbound :: bool
  cn_totalDifficulty :: u64
  cn_height :: u64
  cn_sendQueue :: "message list"
  cn_active :: bool

text \<open>The state of the network side: the node, its connections and the synchronizers.\<close>

record header_syncer =
  hs_timeout :: int
  hs_lastHeight :: u64
  hs_peer :: "peer_ref option"
  hs_retried :: bool

record state_syncer =
  ts_timeRequested :: int
  ts_requestedHeight :: u64
  ts_peer :: "peer_ref option"

record requested_block =
  rb_peer :: peer_ref
  rb_blockHeight :: u64
  rb_timeout :: int

record block_syncer =
  bs_timeout :: int
  bs_lastHeight :: u64
  bs_requestedBlocks :: "(u64 \<times> requested_block) list"
  bs_slowPeers :: "ip_address list"

record syncer =
  sy_node :: p2p_node
  sy_connections :: "connection list"
  sy_header :: header_syncer
  sy_state :: state_syncer
  sy_block :: block_syncer
  sy_startup :: bool

abbreviation peer_at :: "syncer \<Rightarrow> peer_ref \<Rightarrow> peer" where
  "peer_at y r \<equiv> pm_peers (pn_peers (sy_node y)) ! r"

fun most_work_loop :: "(nat \<times> connection) list \<Rightarrow> nat list \<Rightarrow> u64 \<Rightarrow> u64 \<Rightarrow> nat list" where
  "most_work_loop [] mostWorkPeers mostWork mostWorkHeight = mostWorkPeers"
| "most_work_loop ((i, c) # cs) mostWorkPeers mostWork mostWorkHeight =
     (if cn_height c = 0 then most_work_loop cs mostWorkPeers mostWork mostWorkHeight
      else if cn_totalDifficulty c > mostWork then most_work_loop cs [i] (cn_totalDifficulty c) (cn_height c)
      else if cn_totalDifficulty c = mostWork then
        if cn_height c > mostWorkHeight then most_work_loop cs [i] mostWork (cn_height c)
        else if cn_height c = mostWorkHeight then most_work_loop cs (mostWorkPeers @ [i]) mostWork mostWorkHeight
        else most_work_loop cs mostWorkPeers mostWork mostWorkHeight
      else most_work_loop cs mostWorkPeers mostWork mostWorkHeight)"

definition StartsWith :: "u8 list \<Rightarrow> u8 list \<Rightarrow> bool" where
  "StartsWith value beginning \<longleftrightarrow> length beginning \<le> length value \<and> take (length beginning) value = beginning"

definition is_grinpp :: "u8 list \<Rightarrow> bool" where
  "is_grinpp userAgent \<longleftrightarrow>
     StartsWith userAgent [71, 114, 105, 110, 43, 43] \<or> StartsWith userAgent [77, 87, 47, 71, 114, 105, 110, 32, 51]"

text \<open>A position in the list of connections; \<open>random\<close> stands for any number the generator may draw below the number of candidates.\<close>

definition GetMostWorkPeer :: "nat \<Rightarrow> peer list \<Rightarrow> connection list \<Rightarrow> bool \<Rightarrow> nat option" where
  "GetMostWorkPeer random peers connections preferGrinPP =
     (let mostWorkPeers = most_work_loop (enumerate 0 connections) [] 0 0
      in if mostWorkPeers = [] then None
         else case (if preferGrinPP then find (\<lambda>i. is_grinpp (p_userAgent (peers ! cn_peer (connections ! i)))) mostWorkPeers else None) of
             Some i \<Rightarrow> Some i
           | None \<Rightarrow> Some (mostWorkPeers ! (random mod length mostWorkPeers)))"

definition ConnectionManager_UpdateSyncStatus :: "nat \<Rightarrow> syncer \<Rightarrow> syncer" where
  "ConnectionManager_UpdateSyncStatus random y =
     (case GetMostWorkPeer random (pm_peers (pn_peers (sy_node y))) (sy_connections y) False of
        None \<Rightarrow> y
      | Some i \<Rightarrow> y\<lparr>sy_node := (sy_node y)\<lparr>pn_sync := UpdateNetworkStatus (of_nat (length (sy_connections y)))
            (cn_height (sy_connections y ! i)) (cn_totalDifficulty (sy_connections y ! i)) (pn_sync (sy_node y))\<rparr>\<rparr>)"

definition IsConnected :: "ip_address \<Rightarrow> syncer \<Rightarrow> bool" where
  "IsConnected address y \<longleftrightarrow> list_ex (\<lambda>c. p_ipAddress (peer_at y (cn_peer c)) = address \<and> cn_active c) (sy_connections y)"

definition GetMostWorkPeers :: "nat \<Rightarrow> syncer \<Rightarrow> peer_ref list" where
  "GetMostWorkPeers random y =
     (case GetMostWorkPeer random (pm_peers (pn_peers (sy_node y))) (sy_connections y) False of
        None \<Rightarrow> []
      | Some i \<Rightarrow> map cn_peer (filter (\<lambda>c. cn_totalDifficulty c \<ge> cn_totalDifficulty (sy_connections y ! i) \<and> cn_height c > 0) (sy_connections y)))"

definition GetConnectedPeer :: "ip_address \<Rightarrow> syncer \<Rightarrow> (u64 \<times> peer_ref) option" where
  "GetConnectedPeer address y = map_option (\<lambda>c. (cn_id c, cn_peer c))
     (find (\<lambda>c. p_ipAddress (peer_at y (cn_peer c)) = address) (sy_connections y))"

definition GetMostWork :: "nat \<Rightarrow> syncer \<Rightarrow> u64" where
  "GetMostWork random y = (case GetMostWorkPeer random (pm_peers (pn_peers (sy_node y))) (sy_connections y) False of
      None \<Rightarrow> 0 | Some i \<Rightarrow> cn_totalDifficulty (sy_connections y ! i))"

definition GetHighestHeight :: "nat \<Rightarrow> syncer \<Rightarrow> u64" where
  "GetHighestHeight random y = (case GetMostWorkPeer random (pm_peers (pn_peers (sy_node y))) (sy_connections y) False of
      None \<Rightarrow> 0 | Some i \<Rightarrow> cn_height (sy_connections y ! i))"

definition Connection_Send :: "message \<Rightarrow> connection \<Rightarrow> connection" where
  "Connection_Send m c = c\<lparr>cn_sendQueue := cn_sendQueue c @ [m]\<rparr>"

definition SendMessageToMostWorkPeer :: "nat \<Rightarrow> message \<Rightarrow> bool \<Rightarrow> syncer \<Rightarrow> peer_ref option \<times> syncer" where
  "SendMessageToMostWorkPeer random m preferGrinPP y =
     (case GetMostWorkPeer random (pm_peers (pn_peers (sy_node y))) (sy_connections y) preferGrinPP of
        None \<Rightarrow> (None, y)
      | Some i \<Rightarrow> (Some (cn_peer (sy_connections y ! i)),
          y\<lparr>sy_connections := (sy_connections y)[i := Connection_Send m (sy_connections y ! i)]\<rparr>))"

fun send_to_address :: "(connection \<Rightarrow> bool) \<Rightarrow> message \<Rightarrow> connection list \<Rightarrow> bool \<times> connection list" where
  "send_to_address matches m [] = (False, [])"
| "send_to_address matches m (c # cs) =
     (if matches c then (True, Connection_Send m c # cs)
      else case send_to_address matches m cs of (sent, cs) \<Rightarrow> (sent, c # cs))"

definition SendMessageToPeer :: "message \<Rightarrow> peer_ref \<Rightarrow> syncer \<Rightarrow> bool \<times> syncer" where
  "SendMessageToPeer m peer y =
     (case send_to_address (\<lambda>c. p_ipAddress (peer_at y (cn_peer c)) = p_ipAddress (peer_at y peer)) m (sy_connections y) of
        (sent, cs) \<Rightarrow> (sent, y\<lparr>sy_connections := cs\<rparr>))"

definition AddConnection :: "connection \<Rightarrow> syncer \<Rightarrow> syncer" where
  "AddConnection c y = y\<lparr>sy_connections := sy_connections y @ [c]\<rparr>"

text \<open>Connections that are closed mark their peers as not connected; the last connection is closed first. The counts are of those that stay.\<close>

definition PruneConnections :: "bool \<Rightarrow> syncer \<Rightarrow> (nat \<times> nat) \<times> syncer" where
  "PruneConnections inactiveOnly y =
     (let closing = (\<lambda>c. \<not> inactiveOnly \<or> \<not> cn_active c);
          remaining = filter (\<lambda>c. \<not> closing c) (sy_connections y);
          node = fold (\<lambda>c n. n\<lparr>pn_peers := update_peer (cn_peer c) (SetConnected False) (pn_peers n)\<rparr>)
            (rev (filter closing (sy_connections y))) (sy_node y)
      in ((length (filter cn_inbound remaining), length (filter (\<lambda>c. \<not> cn_inbound c) remaining)),
          y\<lparr>sy_connections := remaining, sy_node := node\<rparr>))"

text \<open>One turn of the broadcast thread: the first message of the queue goes to every connection except its source.\<close>

definition broadcast_next :: "syncer \<Rightarrow> syncer" where
  "broadcast_next y = (case pn_broadcasts (sy_node y) of
      [] \<Rightarrow> y
    | (sourceId, m) # rest \<Rightarrow> y\<lparr>sy_node := (sy_node y)\<lparr>pn_broadcasts := rest\<rparr>,
        sy_connections := map (\<lambda>c. if cn_id c \<noteq> sourceId then Connection_Send m c else c) (sy_connections y)\<rparr>)"

section \<open>A turn of a connection\<close>

definition ExceedsRateLimit :: "int \<Rightarrow> socket \<Rightarrow> bool \<times> socket" where
  "ExceedsRateLimit now s =
     (case GetSentInLastMinute now (so_rateCounter s) of (sent, counter) \<Rightarrow>
        if sent > 500 then (True, s\<lparr>so_rateCounter := counter\<rparr>)
        else case GetReceivedInLastMinute now counter of (received, counter) \<Rightarrow> (received > 500, s\<lparr>so_rateCounter := counter\<rparr>))"

text \<open>The outcome of a turn of the loop: whether the connection goes on. \<open>queue\<close> holds the messages to send; the times of the last
  ping and of the last message received are passed along.\<close>

record turn =
  tn_continues :: bool
  tn_sendQueue :: "message list"
  tn_lastPing :: int
  tn_lastReceived :: int

definition connection_exchange :: "p2p_world \<Rightarrow> u64 \<Rightarrow> turn \<Rightarrow> (p2p_node, turn) process" where
  "connection_exchange w connectionId t =
     bind_process (RetrieveMessage w) (\<lambda>raw.
     bind_process (case raw of
         None \<Rightarrow> return_process None
       | Some raw \<Rightarrow> bind_process (ProcessMessage w connectionId raw) (\<lambda>status. return_process (Some status))) (\<lambda>processed.
     if processed = Some MP_BAN_PEER then
       bind_process (modify_node (update_this_peer (Ban (pw_clock w) Abusive))) (\<lambda>_. return_process (t\<lparr>tn_continues := False\<rparr>))
     else
       let t = (if processed = None then t else t\<lparr>tn_lastReceived := pw_clock w\<rparr>)
       in (case tn_sendQueue t of
             m # queue \<Rightarrow>
               bind_process (get_node (\<lambda>n. protocol_of (p_version (this_peer n)))) (\<lambda>version.
               bind_process (MessageSender_Send w m version) (\<lambda>_. return_process (t\<lparr>tn_sendQueue := queue\<rparr>)))
           | [] \<Rightarrow>
               return_process (if processed = None \<and> tn_lastReceived t + 30 < pw_clock w then t\<lparr>tn_continues := False\<rparr> else t))))"

definition connection_turn :: "p2p_world \<Rightarrow> u64 \<Rightarrow> turn \<Rightarrow> (p2p_node, turn) process" where
  "connection_turn w connectionId t =
     bind_process (get_node (\<lambda>n. IsBanned (pw_clock w) (this_peer n))) (\<lambda>banned.
     if banned then return_process (t\<lparr>tn_continues := False\<rparr>)
     else bind_process (on_socket (\<lambda>s. case ExceedsRateLimit (pw_clock w) s of (exceeds, s) \<Rightarrow> (Inr exceeds, s))) (\<lambda>exceeds.
       if exceeds then
         bind_process (modify_node (update_this_peer (Ban (pw_clock w) Abusive))) (\<lambda>_. return_process (t\<lparr>tn_continues := False\<rparr>))
       else
         bind_process (get_node pn_sync) (\<lambda>ss.
         let t = (if tn_lastPing t + 10 < pw_clock w
                  then t\<lparr>tn_sendQueue := tn_sendQueue t @ [PingMessage (ss_blockDifficulty ss) (ss_blockHeight ss)], tn_lastPing := pw_clock w\<rparr>
                  else t)
         in catch_process (connection_exchange w connectionId t) (\<lambda>_. return_process (t\<lparr>tn_continues := False\<rparr>)))))"

text \<open>
  The thread of a connection: the handshake, the first question to the peer, then one turn per element of \<open>ws\<close>, each with
  the clock and the random numbers it sees, until a turn ends the loop or the connection is terminated.
\<close>

fun connection_loop :: "p2p_world list \<Rightarrow> u64 \<Rightarrow> turn \<Rightarrow> (p2p_node, unit) process" where
  "connection_loop [] connectionId t = return_process ()"
| "connection_loop (w # ws) connectionId t =
     bind_process (connection_turn w connectionId t) (\<lambda>t. if tn_continues t then connection_loop ws connectionId t else return_process ())"

definition Thread_ProcessConnection :: "p2p_world \<Rightarrow> p2p_world list \<Rightarrow> handshake_config \<Rightarrow> bool \<Rightarrow> bool \<Rightarrow> u64 \<Rightarrow> (p2p_node, bool) process" where
  "Thread_ProcessConnection w ws c connected outbound connectionId =
     bind_process (catch_process (PerformHandshake w c connected outbound) (\<lambda>_. return_process False)) (\<lambda>handshakeSuccess.
     if \<not> handshakeSuccess then return_process False
     else
       bind_process (modify_node (update_this_peer (SetConnected True))) (\<lambda>_.
       bind_process (connection_loop ws connectionId \<lparr>tn_continues = True, tn_sendQueue = [GetPeerAddressesMessage FAST_SYNC_NODE],
         tn_lastPing = pw_clock w, tn_lastReceived = pw_clock w\<rparr>) (\<lambda>_.
       bind_process (modify_node (update_this_peer (SetConnected False))) (\<lambda>_. return_process True))))"

section \<open>HeaderSyncer\<close>

definition read_sync_chain :: "(chain_state \<Rightarrow> 'a result) \<Rightarrow> (syncer, 'a) action" where
  "read_sync_chain f = read_action (\<lambda>y. f (pn_chain (sy_node y)))"

abbreviation the_status :: "syncer \<Rightarrow> sync_status" where
  "the_status y \<equiv> pn_sync (sy_node y)"

definition update_header_syncer :: "(header_syncer \<Rightarrow> header_syncer) \<Rightarrow> syncer \<Rightarrow> syncer" where
  "update_header_syncer f y = y\<lparr>sy_header := f (sy_header y)\<rparr>"

definition sync_ban :: "int \<Rightarrow> peer_ref \<Rightarrow> ban_reason \<Rightarrow> syncer \<Rightarrow> syncer" where
  "sync_ban now peer reason y = y\<lparr>sy_node := ban_peer now peer reason (sy_node y)\<rparr>"

definition IsHeaderSyncDue :: "int \<Rightarrow> syncer \<Rightarrow> bool \<times> syncer" where
  "IsHeaderSyncDue now y = (case hs_peer (sy_header y) of
      None \<Rightarrow> (True, y)
    | Some peer \<Rightarrow>
        if ss_headerHeight (the_status y) \<ge> hs_lastHeight (sy_header y) + ucast MAX_BLOCK_HEADERS - 1
        then (True, update_header_syncer (hs_retried_update (\<lambda>_. False)) y)
        else if \<not> IsConnected (p_ipAddress (peer_at y peer)) y then (True, update_header_syncer (hs_peer_update (\<lambda>_. None)) y)
        else if hs_timeout (sy_header y) < now then
          (True, if hs_retried (sy_header y)
                 then update_header_syncer (hs_peer_update (\<lambda>_. None) \<circ> hs_retried_update (\<lambda>_. False)) (sync_ban now peer FraudHeight y)
                 else update_header_syncer (hs_retried_update (\<lambda>_. True)) y)
        else (False, y))"

definition RequestHeaders :: "hash_fn \<Rightarrow> int \<Rightarrow> nat \<Rightarrow> (syncer, bool) action" where
  "RequestHeaders H now random =
     bind_action (get_action the_status) (\<lambda>syncStatus.
     bind_action (read_sync_chain (GetLocators H syncStatus)) (\<lambda>locators.
     bind_action (get_action (\<lambda>y. hs_peer (sy_header y))) (\<lambda>peer.
     bind_action (case peer of
         None \<Rightarrow> return_action False
       | Some peer \<Rightarrow> (\<lambda>y. case SendMessageToPeer (GetHeadersMessage locators) peer y of (sent, y) \<Rightarrow> (Inr sent, y))) (\<lambda>messageSent.
     bind_action (if messageSent then return_action ()
       else (\<lambda>y. case SendMessageToMostWorkPeer random (GetHeadersMessage locators) False y of
          (peer, y) \<Rightarrow> (Inr (), update_header_syncer (hs_peer_update (\<lambda>_. peer)) y))) (\<lambda>_.
     bind_action (modify_action (\<lambda>y. if hs_peer (sy_header y) = None then y
       else update_header_syncer (\<lambda>h. h\<lparr>hs_timeout := now + 12, hs_lastHeight := ss_headerHeight syncStatus\<rparr>) y)) (\<lambda>_.
       get_action (\<lambda>y. hs_peer (sy_header y) \<noteq> None)))))))"

definition behind :: "u64 \<Rightarrow> u64 \<Rightarrow> bool \<Rightarrow> bool" where
  "behind chainHeight networkHeight startup \<longleftrightarrow> networkHeight \<ge> chainHeight + 5 \<or> startup \<and> networkHeight > chainHeight"

definition SyncHeaders :: "hash_fn \<Rightarrow> int \<Rightarrow> nat \<Rightarrow> (syncer, bool) action" where
  "SyncHeaders H now random =
     bind_action (get_action (\<lambda>y. (the_status y, sy_startup y))) (\<lambda>(ss, startup).
     if ss_networkHeight ss = 0 then return_action True
     else if behind (ss_headerHeight ss) (ss_networkHeight ss) startup then
       bind_action (\<lambda>y. case IsHeaderSyncDue now y of (due, y) \<Rightarrow> (Inr due, y)) (\<lambda>due.
       bind_action (if due then RequestHeaders H now random else return_action False) (\<lambda>_. return_action True))
     else bind_action (modify_action (update_header_syncer (\<lambda>h. h\<lparr>hs_peer := None, hs_retried := False\<rparr>))) (\<lambda>_. return_action False))"

section \<open>StateSyncer\<close>

definition IsStateSyncDue :: "int \<Rightarrow> syncer \<Rightarrow> bool" where
  "IsStateSyncDue now y =
     (let ss = the_status y; ts = sy_state y;
          headerHeight = ss_headerHeight ss; blockHeight = ss_blockHeight ss
      in if ss_syncStatus ss = PROCESSING_TXHASHSET then False
         else if ss_syncStatus ss = TXHASHSET_SYNC_FAILED then True
         else if headerHeight < ucast CUT_THROUGH_HORIZON then False
         else if blockHeight > headerHeight - ucast CUT_THROUGH_HORIZON then False
         else if ts_requestedHeight ts = 0 then True
         else if ts_timeRequested ts + 20 * 60 < now then True
         else if ts_timeRequested ts + 30 < now \<and> ss_txHashSetDownloaded ss = 0 then True
         else (case ts_peer ts of None \<Rightarrow> False | Some peer \<Rightarrow> \<not> IsConnected (p_ipAddress (peer_at y peer)) y))"

definition update_state_syncer :: "(state_syncer \<Rightarrow> state_syncer) \<Rightarrow> syncer \<Rightarrow> syncer" where
  "update_state_syncer f y = y\<lparr>sy_state := f (sy_state y)\<rparr>"

definition RequestState :: "hash_fn \<Rightarrow> int \<Rightarrow> nat \<Rightarrow> bool \<Rightarrow> (syncer, bool) action" where
  "RequestState H now random shutdown =
     bind_action (modify_action (\<lambda>y. case ts_peer (sy_state y) of
         None \<Rightarrow> y
       | Some peer \<Rightarrow> update_state_syncer (ts_peer_update (\<lambda>_. None)) (sync_ban now peer BadTxHashSet y))) (\<lambda>_.
     bind_action (if shutdown then return_action () else
       bind_action (get_action (\<lambda>y. ss_headerHeight (the_status y) - ucast STATE_SYNC_THRESHOLD)) (\<lambda>requestedHeight.
       bind_action (read_sync_chain (GetBlockHeaderByHeight H requestedHeight CANDIDATE)) (\<lambda>header. case header of
           None \<Rightarrow> throw_action UNDEFINED_BEHAVIOUR
         | Some header \<Rightarrow> modify_action (\<lambda>y.
             case SendMessageToMostWorkPeer random (TxHashSetRequestMessage (BlockHeader_GetHash header) requestedHeight) True y of
               (None, y) \<Rightarrow> update_state_syncer (ts_peer_update (\<lambda>_. None)) y
             | (Some peer, y) \<Rightarrow> update_state_syncer (\<lambda>t. t\<lparr>ts_peer := Some peer, ts_timeRequested := now, ts_requestedHeight := requestedHeight\<rparr>) y)))) (\<lambda>_.
       get_action (\<lambda>y. ts_peer (sy_state y) \<noteq> None)))"

definition set_sync_status :: "ESyncStatus \<Rightarrow> syncer \<Rightarrow> syncer" where
  "set_sync_status status y = y\<lparr>sy_node := set_status status (sy_node y)\<rparr>"

definition SyncState :: "hash_fn \<Rightarrow> int \<Rightarrow> nat \<Rightarrow> bool \<Rightarrow> (syncer, bool) action" where
  "SyncState H now random shutdown =
     bind_action (get_action (IsStateSyncDue now)) (\<lambda>due.
     if due then
       bind_action (modify_action (set_sync_status SYNCING_TXHASHSET)) (\<lambda>_.
       bind_action (RequestState H now random shutdown) (\<lambda>_. return_action True))
     else get_action (\<lambda>y. ss_blockHeight (the_status y) < ss_headerHeight (the_status y) - ucast CUT_THROUGH_HORIZON))"

section \<open>BlockSyncer\<close>

definition update_block_syncer :: "(block_syncer \<Rightarrow> block_syncer) \<Rightarrow> syncer \<Rightarrow> syncer" where
  "update_block_syncer f y = y\<lparr>sy_block := f (sy_block y)\<rparr>"

definition IsSlowPeer :: "peer_ref \<Rightarrow> syncer \<Rightarrow> bool" where
  "IsSlowPeer peer y \<longleftrightarrow> p_ipAddress (peer_at y peer) \<in> set (bs_slowPeers (sy_block y))"

fun request_due :: "int \<Rightarrow> (u64 \<times> big_integer) list \<Rightarrow> syncer \<Rightarrow> bool" where
  "request_due now [] y = False"
| "request_due now ((height, hash) # needed) y = (case map_of (bs_requestedBlocks (sy_block y)) height of
      None \<Rightarrow> True
    | Some r \<Rightarrow>
        if IsSlowPeer (rb_peer r) y then True
        else if rb_timeout r < now \<and> \<not> IsProcessingBlock hash (sy_node y) then True
        else request_due now needed y)"

definition IsBlockSyncDue :: "int \<Rightarrow> (syncer, bool) action" where
  "IsBlockSyncDue now =
     bind_action (modify_action (\<lambda>y.
       let chainHeight = ss_blockHeight (the_status y)
       in update_block_syncer (\<lambda>b. b\<lparr>bs_requestedBlocks := filter (\<lambda>(h, _). \<not> (bs_lastHeight b \<le> h \<and> h \<le> chainHeight)) (bs_requestedBlocks b),
            bs_lastHeight := chainHeight\<rparr>) y)) (\<lambda>_.
     bind_action (get_action (\<lambda>y. length (bs_requestedBlocks (sy_block y)))) (\<lambda>requested.
     if requested < 15 then return_action True
     else bind_action (read_sync_chain (GetBlocksNeeded 15)) (\<lambda>blocksNeeded. get_action (request_due now blocksNeeded))))"

fun select_blocks ::
  "int \<Rightarrow> nat \<Rightarrow> (u64 \<times> big_integer) list \<Rightarrow> (u64 \<times> big_integer) list \<Rightarrow> syncer \<Rightarrow> (u64 \<times> big_integer) list \<times> syncer" where
  "select_blocks now blocksWanted [] blocksToRequest y = (blocksToRequest, y)"
| "select_blocks now blocksWanted ((height, hash) # needed) blocksToRequest y =
     (if IsProcessingBlock hash (sy_node y) then select_blocks now blocksWanted needed blocksToRequest y
      else
        let (blocksToRequest, y) = (case map_of (bs_requestedBlocks (sy_block y)) height of
              None \<Rightarrow> (blocksToRequest @ [(height, hash)], y)
            | Some r \<Rightarrow>
                if IsSlowPeer (rb_peer r) y \<or> rb_timeout r < now then
                  let y = (if \<not> IsBanned now (peer_at y (rb_peer r)) then sync_ban now (rb_peer r) FraudHeight y else y);
                      y = update_block_syncer (bs_slowPeers_update (List.insert (p_ipAddress (peer_at y (rb_peer r))))) y
                  in (blocksToRequest @ [(height, hash)], y)
                else (blocksToRequest, y))
        in if length blocksToRequest \<ge> blocksWanted then (blocksToRequest, y)
           else select_blocks now blocksWanted needed blocksToRequest y)"

fun request_each :: "int \<Rightarrow> peer_ref list \<Rightarrow> nat \<Rightarrow> nat \<Rightarrow> (u64 \<times> big_integer) list \<Rightarrow> syncer \<Rightarrow> syncer" where
  "request_each now peers nextPeer i [] y = y"
| "request_each now peers nextPeer i ((height, hash) # pending) y =
     (let peer = peers ! nextPeer;
          (sent, y) = SendMessageToPeer (GetBlockMessage hash) peer y;
          y = (if sent then update_block_syncer (bs_requestedBlocks_update
                 (om_put height \<lparr>rb_peer = peer, rb_blockHeight = height, rb_timeout = now + 10\<rparr>)) y else y);
          nextPeer = (if (i + 1) mod 16 = 0 then (nextPeer + 1) mod length peers else nextPeer)
      in request_each now peers nextPeer (i + 1) pending y)"

definition RequestBlocks :: "int \<Rightarrow> nat \<Rightarrow> nat \<Rightarrow> (syncer, bool) action" where
  "RequestBlocks now random random' =
     bind_action (get_action (GetMostWorkPeers random)) (\<lambda>mostWorkPeers.
     if mostWorkPeers = [] then return_action False
     else let blocksWanted = 16 * length mostWorkPeers
       in bind_action (read_sync_chain (GetBlocksNeeded (of_nat (2 * blocksWanted)))) (\<lambda>blocksNeeded.
            if blocksNeeded = [] then return_action False
            else bind_action (\<lambda>y. case select_blocks now blocksWanted blocksNeeded [] y of (pending, y) \<Rightarrow> (Inr pending, y)) (\<lambda>blocksToRequest.
              bind_action (modify_action (request_each now mostWorkPeers (random' mod length mostWorkPeers) 0 blocksToRequest)) (\<lambda>_.
                return_action True))))"

definition SyncBlocks :: "int \<Rightarrow> nat \<Rightarrow> nat \<Rightarrow> (syncer, bool) action" where
  "SyncBlocks now random random' =
     bind_action (get_action (\<lambda>y. (the_status y, sy_startup y))) (\<lambda>(ss, startup).
     if behind (ss_blockHeight ss) (ss_networkHeight ss) startup then
       bind_action (IsBlockSyncDue now) (\<lambda>due.
       bind_action (if \<not> due then return_action () else
         bind_action (RequestBlocks now random random') (\<lambda>_.
         modify_action (update_block_syncer (\<lambda>b. b\<lparr>bs_lastHeight := ss_blockHeight ss, bs_timeout := now + 5\<rparr>)))) (\<lambda>_.
         return_action True))
     else return_action False)"

section \<open>Syncer\<close>

definition MINIMUM_NUM_PEERS :: u64 where "MINIMUM_NUM_PEERS = 4"

definition Syncer_UpdateSyncStatus :: "hash_fn \<Rightarrow> nat \<Rightarrow> (syncer, unit) action" where
  "Syncer_UpdateSyncStatus H random =
     bind_action (get_action the_status) (\<lambda>ss.
     bind_action (read_sync_chain (UpdateSyncStatus H ss)) (\<lambda>ss.
     bind_action (modify_action (\<lambda>y. y\<lparr>sy_node := (sy_node y)\<lparr>pn_sync := ss\<rparr>\<rparr>)) (\<lambda>_.
       modify_action (ConnectionManager_UpdateSyncStatus random))))"

text \<open>One turn of the synchronization thread.\<close>

definition sync_turn :: "p2p_world \<Rightarrow> (syncer, unit) action" where
  "sync_turn w =
     (let now = pw_clock w; (random, random') = pw_random w
      in bind_action (Syncer_UpdateSyncStatus (w_H w) random) (\<lambda>_.
         bind_action (get_action the_status) (\<lambda>ss.
         if ss_numActiveConnections ss \<ge> MINIMUM_NUM_PEERS then
           bind_action (SyncHeaders (w_H w) now random) (\<lambda>syncingHeaders.
           if syncingHeaders then
             modify_action (\<lambda>y. if ss_syncStatus (the_status y) \<noteq> SYNCING_TXHASHSET \<and> ss_syncStatus (the_status y) \<noteq> PROCESSING_TXHASHSET
               then set_sync_status SYNCING_HEADERS y else y)
           else bind_action (SyncState (w_H w) now random (pw_shutdown w)) (\<lambda>syncingState.
             if syncingState then return_action ()
             else bind_action (SyncBlocks now random random') (\<lambda>syncingBlocks.
               if syncingBlocks then modify_action (set_sync_status SYNCING_BLOCKS)
               else modify_action (\<lambda>y. set_sync_status NOT_SYNCING (y\<lparr>sy_startup := False\<rparr>)))))
         else modify_action (\<lambda>y. if ss_syncStatus (the_status y) \<noteq> PROCESSING_TXHASHSET then set_sync_status WAITING_FOR_PEERS y else y))))"

section \<open>Properties\<close>

definition less_work :: "u64 \<Rightarrow> u64 \<Rightarrow> connection \<Rightarrow> bool" where
  "less_work work height c \<longleftrightarrow> work < cn_totalDifficulty c \<or> work = cn_totalDifficulty c \<and> height \<le> cn_height c"

lemma most_work_loop_correct:
  assumes "\<forall>(i, c) \<in> set ics. f i = c" "\<forall>i \<in> set ps. cn_totalDifficulty (f i) = work \<and> cn_height (f i) = height \<and> height > 0"
    "ps = [] \<longrightarrow> work = 0 \<and> height = 0"
  shows "(most_work_loop ics ps work height = [] \<longleftrightarrow> ps = [] \<and> (\<forall>(i, c) \<in> set ics. cn_height c = 0)) \<and>
    (\<forall>i \<in> set (most_work_loop ics ps work height). (i \<in> set ps \<or> i \<in> fst ` set ics) \<and> cn_height (f i) > 0 \<and>
       less_work work height (f i) \<and> (\<forall>(j, c) \<in> set ics. cn_height c > 0 \<longrightarrow> less_work (cn_totalDifficulty c) (cn_height c) (f i)))"
  using assms
proof (induction ics ps work height rule: most_work_loop.induct)
  case (1 ps work height)
  then show ?case by (auto simp: less_work_def)
next
  case (2 i c cs ps work height)
  let ?d = "cn_totalDifficulty c" and ?h = "cn_height c"
  have fi: "f i = c" and cs: "\<forall>(i, c) \<in> set cs. f i = c" using "2.prems"(1) by auto
  have tr: "less_work a b x" if "less_work a' b' x" "a < a' \<or> a = a' \<and> b \<le> b'" for a b a' b' x
    using that by (auto simp: less_work_def)
  consider (skip) "?h = 0" | (more) "?h \<noteq> 0" "work < ?d" | (higher) "?h \<noteq> 0" "\<not> work < ?d" "?d = work" "height < ?h"
    | (equal) "?h \<noteq> 0" "\<not> work < ?d" "?d = work" "\<not> height < ?h" "?h = height"
    | (lower) "?h \<noteq> 0" "\<not> work < ?d" "?d = work" "\<not> height < ?h" "?h \<noteq> height" | (less) "?h \<noteq> 0" "\<not> work < ?d" "?d \<noteq> work"
    by blast
  then show ?case
  proof cases
    case skip
    then show ?thesis using "2.IH"(1)[OF skip cs "2.prems"(2,3)] by auto
  next
    case more
    have "0 < ?h" using more by (simp add: word_gt_0)
    then show ?thesis using more fi "2.IH"(2)[OF more cs] by (auto intro: tr)
  next
    case higher
    have "0 < ?h" using higher by (simp add: word_gt_0)
    then show ?thesis using higher fi "2.IH"(3)[OF higher cs] by (auto intro: tr)
  next
    case equal
    have "0 < ?h" using equal by (simp add: word_gt_0)
    then show ?thesis using equal fi "2.IH"(4)[OF equal cs] "2.prems"(2) by (auto intro: tr)
  next
    case lower
    have "0 < ?h" "?h < height" using lower by (auto simp: word_gt_0)
    then show ?thesis using lower fi "2.IH"(5)[OF lower cs "2.prems"(2,3)] "2.prems"(2,3) by (auto intro: tr)
  next
    case less
    have "0 < ?h" "?d < work" using less by (auto simp: word_gt_0)
    then show ?thesis using less fi "2.IH"(6)[OF less cs "2.prems"(2,3)] "2.prems"(2,3) by (auto intro: tr)
  qed
qed

text \<open>The peer chosen for synchronization: the connection manager finds no peer exactly when every connection reports height 0;
  otherwise it returns a connection that reports a height above 0 and such that no other connection with a height above 0 reports
  more work, or the same work and a greater height, whichever number the generator draws.
\<close>

theorem GetMostWorkPeer_correct:
  "(case GetMostWorkPeer random peers connections preferGrinPP of
      None \<Rightarrow> list_all (\<lambda>c. cn_height c = 0) connections
    | Some i \<Rightarrow> i < length connections \<and> cn_height (connections ! i) > 0 \<and>
        list_all (\<lambda>c. cn_height c = 0 \<or> cn_totalDifficulty c < cn_totalDifficulty (connections ! i) \<or>
          cn_totalDifficulty c = cn_totalDifficulty (connections ! i) \<and> cn_height c \<le> cn_height (connections ! i)) connections)"
proof -
  let ?m = "most_work_loop (enumerate 0 connections) [] 0 0"
  have enum: "\<forall>(i, c) \<in> set (enumerate 0 connections). connections ! i = c" by (auto simp: in_set_enumerate_eq)
  note loop = most_work_loop_correct[OF enum, of "[]" 0 0, simplified]
  have "set connections = snd ` set (enumerate 0 connections)" by (metis map_snd_enumerate set_map)
  then have all: "list_all P connections" if "\<forall>(j, c) \<in> set (enumerate 0 connections). P c" for P
    using that by (auto simp: list_all_iff)
  have member: "i < length connections \<and> cn_height (connections ! i) > 0 \<and>
        list_all (\<lambda>c. cn_height c = 0 \<or> cn_totalDifficulty c < cn_totalDifficulty (connections ! i) \<or>
          cn_totalDifficulty c = cn_totalDifficulty (connections ! i) \<and> cn_height c \<le> cn_height (connections ! i)) connections"
    if "i \<in> set ?m" for i
    using loop that by (intro conjI all) (auto simp: in_set_enumerate_eq less_work_def word_gt_0 split_def)
  show ?thesis
  proof (cases "GetMostWorkPeer random peers connections preferGrinPP")
    case None
    then have "?m = []" by (auto simp: GetMostWorkPeer_def Let_def split: if_splits option.splits)
    then show ?thesis using loop None all[of "\<lambda>c. cn_height c = 0"] by (simp add: split_def)
  next
    case (Some i)
    then have "i \<in> set ?m"
      by (auto simp: GetMostWorkPeer_def Let_def find_Some_iff split: if_splits option.splits)
    then show ?thesis using member Some by simp
  qed
qed

subsection \<open>What a turn of the synchronization thread changes\<close>

definition sync_frame :: "sync_status \<Rightarrow> bool \<Rightarrow> syncer \<Rightarrow> bool" where
  "sync_frame ss startup y \<longleftrightarrow> the_status y = ss \<and> sy_startup y = startup"

definition block_frame :: "sync_status \<Rightarrow> bool \<Rightarrow> block_syncer \<Rightarrow> syncer \<Rightarrow> bool" where
  "block_frame ss startup b y \<longleftrightarrow> sync_frame ss startup y \<and> sy_block y = b"

lemmas frame_defs = sync_frame_def block_frame_def update_header_syncer_def update_state_syncer_def update_block_syncer_def
  sync_ban_def ban_peer_def set_sync_status_def set_status_def

lemma send_frame [simp]:
  "sy_node (snd (SendMessageToPeer m peer y)) = sy_node y" "sy_block (snd (SendMessageToPeer m peer y)) = sy_block y"
  "sy_startup (snd (SendMessageToPeer m peer y)) = sy_startup y"
  "sy_node (snd (SendMessageToMostWorkPeer random m prefer y)) = sy_node y"
  "sy_block (snd (SendMessageToMostWorkPeer random m prefer y)) = sy_block y"
  "sy_startup (snd (SendMessageToMostWorkPeer random m prefer y)) = sy_startup y"
  by (simp_all add: SendMessageToPeer_def SendMessageToMostWorkPeer_def split: prod.splits option.splits)

lemma keeps_step: "(\<And>y. P y \<Longrightarrow> P (snd (f y))) \<Longrightarrow> keeps P f"
  by (simp add: keeps_def)

lemma SyncHeaders_frame: "keeps (block_frame ss startup b) (SyncHeaders H now random)"
proof -
  let ?P = "block_frame ss startup b"
  have "keeps ?P (\<lambda>y. case IsHeaderSyncDue now y of (due, y) \<Rightarrow> (Inr due, y))"
    by (rule keeps_step) (auto simp: IsHeaderSyncDue_def frame_defs split: option.splits)
  moreover have "keeps ?P (\<lambda>y. case SendMessageToPeer m peer y of (sent, y) \<Rightarrow> (Inr sent, y))" for m peer
    by (rule keeps_step) (simp add: frame_defs split_def)
  moreover have "keeps ?P (\<lambda>y. case SendMessageToMostWorkPeer random m False y of
      (peer, y) \<Rightarrow> (Inr (), update_header_syncer (hs_peer_update (\<lambda>_. peer)) y))" for m
    by (rule keeps_step) (simp add: frame_defs split_def)
  ultimately have "keeps ?P (RequestHeaders H now random)"
    unfolding RequestHeaders_def read_sync_chain_def
    by (intro keeps_bind) (auto simp: frame_defs intro!: keeps_modify split: option.splits)
  then show ?thesis
    unfolding SyncHeaders_def
    by (intro keeps_bind) (auto simp: frame_defs \<open>keeps ?P (\<lambda>y. case IsHeaderSyncDue now y of (due, y) \<Rightarrow> (Inr due, y))\<close>
        intro!: keeps_modify keeps_bind split: prod.splits)
qed

lemma SyncHeaders_False:
  "fst (SyncHeaders H now random y) = Inr False \<Longrightarrow>
    ss_networkHeight (the_status y) \<noteq> 0 \<and> \<not> behind (ss_headerHeight (the_status y)) (ss_networkHeight (the_status y)) (sy_startup y)"
  by (auto simp: SyncHeaders_def bind_action_def action_simps split: if_splits prod.splits sum.splits)

lemma RequestState_frame: "keeps (block_frame ss startup b) (RequestState H now random shutdown)"
proof -
  have sent: "block_frame ss startup b (case SendMessageToMostWorkPeer random m True y of
       (None, y) \<Rightarrow> update_state_syncer f y | (Some peer, y) \<Rightarrow> update_state_syncer (g peer) y)"
    if "block_frame ss startup b y" for m f g y
    using that send_frame(4-6) [of random m True y]
    by (cases "SendMessageToMostWorkPeer random m True y") (auto simp: frame_defs split: option.splits)
  have ban: "block_frame ss startup b (case ts_peer (sy_state y) of None \<Rightarrow> y
       | Some peer \<Rightarrow> update_state_syncer (ts_peer_update (\<lambda>_. None)) (sync_ban now peer BadTxHashSet y))"
    if "block_frame ss startup b y" for y
    using that by (auto simp: frame_defs split: option.splits)
  show ?thesis
    unfolding RequestState_def read_sync_chain_def
    by (intro keeps_bind) (auto intro!: keeps_modify keeps_bind sent ban split: option.splits)
qed

text \<open>The state of the transaction hash set is requested, or nothing changes and the answer says whether the confirmed chain is below the horizon.\<close>

lemma SyncState_cases:
  assumes "SyncState H now random shutdown y = (r, y')"
  shows "(r \<noteq> Inr False \<and> block_frame (UpdateStatus SYNCING_TXHASHSET (the_status y)) (sy_startup y) (sy_block y) y') \<or>
    (y' = y \<and> r = Inr (ss_blockHeight (the_status y) < ss_headerHeight (the_status y) - ucast CUT_THROUGH_HORIZON))"
proof (cases "IsStateSyncDue now y")
  case True
  let ?y = "set_sync_status SYNCING_TXHASHSET y"
  have "block_frame (UpdateStatus SYNCING_TXHASHSET (the_status y)) (sy_startup y) (sy_block y) ?y" by (simp add: frame_defs)
  from keepsD [OF RequestState_frame this, of H now random shutdown] show ?thesis
    using assms True by (cases "RequestState H now random shutdown ?y")
      (auto simp: SyncState_def bind_action_def action_simps split: sum.splits)
next
  case False
  then show ?thesis using assms by (auto simp: SyncState_def bind_action_def action_simps)
qed

lemma update_frame: "sync_frame ss startup (update_block_syncer f y) = sync_frame ss startup y"
  "sync_frame ss startup (sync_ban now peer reason y) = sync_frame ss startup y"
  by (simp_all add: frame_defs)

lemma select_blocks_frame: "sync_frame ss startup y \<Longrightarrow> sync_frame ss startup (snd (select_blocks now wanted needed pending y))"
proof (induction needed arbitrary: pending y)
  case (Cons p needed)
  then show ?case by (cases p; cases "map_of (bs_requestedBlocks (sy_block y)) (fst p)") (simp_all add: Let_def update_frame)
qed simp

lemma request_each_frame: "sync_frame ss startup y \<Longrightarrow> sync_frame ss startup (request_each now peers nextPeer i pending y)"
proof (induction pending arbitrary: nextPeer i y)
  case (Cons p pending)
  obtain height hash sent y' where p: "p = (height, hash)" and y': "SendMessageToPeer (GetBlockMessage hash) (peers ! nextPeer) y = (sent, y')"
    by (metis surj_pair)
  have "sync_frame ss startup y'" "sync_frame ss startup (update_block_syncer f y')" for f
    using send_frame(1,3) [of "GetBlockMessage hash" "peers ! nextPeer" y] Cons.prems y' by (simp_all add: frame_defs)
  then show ?case by (simp add: p y' Let_def Cons.IH)
qed simp

lemma SyncBlocks_frame: "keeps (sync_frame ss startup) (SyncBlocks now random random')"
proof -
  let ?P = "sync_frame ss startup"
  have select: "keeps ?P (\<lambda>y. case select_blocks now wanted needed [] y of (pending, y) \<Rightarrow> (Inr pending, y))" for wanted needed
    using select_blocks_frame by (intro keeps_step) (simp add: split_def)
  have due: "keeps ?P (IsBlockSyncDue now)"
    unfolding IsBlockSyncDue_def read_sync_chain_def by (intro keeps_bind) (auto simp: frame_defs Let_def intro!: keeps_modify)
  have request: "keeps ?P (RequestBlocks now random random')"
    unfolding RequestBlocks_def read_sync_chain_def Let_def using select request_each_frame
    by (intro keeps_bind) (auto intro!: keeps_modify keeps_bind)
  show ?thesis
    unfolding SyncBlocks_def using due request
    by (intro keeps_bind) (auto simp: frame_defs intro!: keeps_modify keeps_bind split: prod.splits)
qed

lemma SyncBlocks_False:
  "fst (SyncBlocks now random random' y) = Inr False \<Longrightarrow>
    \<not> behind (ss_blockHeight (the_status y)) (ss_networkHeight (the_status y)) (sy_startup y)"
  by (auto simp: SyncBlocks_def bind_action_def action_simps split: if_splits prod.splits sum.splits)

text \<open>The status after the first step of a turn: the heights of the tips and, when a peer has a height, of the network.\<close>

definition refreshed :: "p2p_world \<Rightarrow> sync_status \<Rightarrow> syncer \<Rightarrow> syncer" where
  "refreshed w ss y = ConnectionManager_UpdateSyncStatus (fst (pw_random w)) (y\<lparr>sy_node := (sy_node y)\<lparr>pn_sync := ss\<rparr>\<rparr>)"

lemma refreshed_fields:
  assumes "UpdateSyncStatus H (the_status y) c = Inr ss"
  shows "ss_syncStatus (the_status (refreshed w ss y)) = ss_syncStatus (the_status y)" "sy_block (refreshed w ss y) = sy_block y"
    "sy_startup (refreshed w ss y) = sy_startup y" "ss_headerHeight (the_status (refreshed w ss y)) = ss_headerHeight ss"
    "ss_blockHeight (the_status (refreshed w ss y)) = ss_blockHeight ss"
  using assms by (auto simp: refreshed_def ConnectionManager_UpdateSyncStatus_def UpdateNetworkStatus_def UpdateSyncStatus_def Let_def bind_result_def
      UpdateHeaderStatus_def UpdateBlockStatus_def split: option.splits sum.splits)

lemma sync_turn_refreshes:
  "sync_turn w y = (case UpdateSyncStatus (w_H w) (the_status y) (pn_chain (sy_node y)) of
      Inl e \<Rightarrow> (Inl e, y)
    | Inr ss \<Rightarrow> let y = refreshed w ss y; now = pw_clock w; (random, random') = pw_random w in
        if ss_numActiveConnections (the_status y) \<ge> MINIMUM_NUM_PEERS then
          bind_action (SyncHeaders (w_H w) now random) (\<lambda>syncingHeaders.
          if syncingHeaders then
            modify_action (\<lambda>y. if ss_syncStatus (the_status y) \<noteq> SYNCING_TXHASHSET \<and> ss_syncStatus (the_status y) \<noteq> PROCESSING_TXHASHSET
              then set_sync_status SYNCING_HEADERS y else y)
          else bind_action (SyncState (w_H w) now random (pw_shutdown w)) (\<lambda>syncingState.
            if syncingState then return_action ()
            else bind_action (SyncBlocks now random random') (\<lambda>syncingBlocks.
              if syncingBlocks then modify_action (set_sync_status SYNCING_BLOCKS)
              else modify_action (\<lambda>y. set_sync_status NOT_SYNCING (y\<lparr>sy_startup := False\<rparr>))))) y
        else (Inr (), if ss_syncStatus (the_status y) \<noteq> PROCESSING_TXHASHSET then set_sync_status WAITING_FOR_PEERS y else y))"
  by (auto simp: sync_turn_def Syncer_UpdateSyncStatus_def read_sync_chain_def bind_action_def action_simps refreshed_def Let_def
      split: sum.splits prod.splits)

definition ready_for_blocks :: "sync_status \<Rightarrow> bool \<Rightarrow> bool" where
  "ready_for_blocks ss startup \<longleftrightarrow> ss_numActiveConnections ss \<ge> MINIMUM_NUM_PEERS \<and> ss_networkHeight ss \<noteq> 0 \<and>
     \<not> behind (ss_headerHeight ss) (ss_networkHeight ss) startup \<and>
     ss_headerHeight ss - ucast CUT_THROUGH_HORIZON \<le> ss_blockHeight ss"

lemma UpdateStatus_same [simp]: "UpdateStatus (ss_syncStatus ss) ss = ss"
  by (simp add: UpdateStatus_def)

lemma status_set [simp]: "the_status (set_sync_status st y) = UpdateStatus st (the_status y)" "sy_block (set_sync_status st y) = sy_block y"
  "sy_startup (set_sync_status st y) = sy_startup y"
  by (simp_all add: frame_defs)

lemma sync_turn_outcome:
  assumes "UpdateSyncStatus (w_H w) (the_status y) (pn_chain (sy_node y)) = Inr ss\<^sub>0" and y: "refreshed w ss\<^sub>0 y = y\<^sub>1"
    and y': "snd (sync_turn w y) = y'"
  shows "\<exists>st. the_status y' = UpdateStatus st (the_status y\<^sub>1) \<and>
    (st \<in> {ss_syncStatus (the_status y\<^sub>1), WAITING_FOR_PEERS, SYNCING_HEADERS, SYNCING_TXHASHSET} \<and> sy_block y' = sy_block y\<^sub>1 \<or>
     ready_for_blocks (the_status y\<^sub>1) (sy_startup y\<^sub>1) \<and>
       (st \<in> {ss_syncStatus (the_status y\<^sub>1), SYNCING_BLOCKS} \<or>
        st = NOT_SYNCING \<and> \<not> sy_startup y' \<and> \<not> behind (ss_blockHeight (the_status y\<^sub>1)) (ss_networkHeight (the_status y\<^sub>1)) (sy_startup y\<^sub>1)))"
proof -
  let ?ss = "the_status y\<^sub>1" and ?u = "sy_startup y\<^sub>1" and ?b = "sy_block y\<^sub>1"
  obtain random random' where random: "pw_random w = (random, random')" by fastforce
  obtain r\<^sub>2 y\<^sub>2 where h: "SyncHeaders (w_H w) (pw_clock w) random y\<^sub>1 = (r\<^sub>2, y\<^sub>2)" by fastforce
  obtain r\<^sub>3 y\<^sub>3 where st: "SyncState (w_H w) (pw_clock w) random (pw_shutdown w) y\<^sub>2 = (r\<^sub>3, y\<^sub>3)" by fastforce
  obtain r\<^sub>4 y\<^sub>4 where b: "SyncBlocks (pw_clock w) random random' y\<^sub>3 = (r\<^sub>4, y\<^sub>4)" by fastforce
  note turn = y' [unfolded sync_turn_refreshes assms(1) sum.case Let_def y random prod.case]
  have f\<^sub>2: "the_status y\<^sub>2 = ?ss" "sy_startup y\<^sub>2 = ?u" "sy_block y\<^sub>2 = ?b"
    using keepsD [OF SyncHeaders_frame [of ?ss ?u ?b "w_H w" "pw_clock w" random], of y\<^sub>1] h by (auto simp: block_frame_def sync_frame_def)
  show ?thesis
  proof (cases "ss_numActiveConnections ?ss \<ge> MINIMUM_NUM_PEERS")
    case False
    then have "y' = y\<^sub>1 \<or> y' = set_sync_status WAITING_FOR_PEERS y\<^sub>1" using turn by (auto split: if_splits)
    then show ?thesis by (auto intro: exI [of _ "ss_syncStatus ?ss"])
  next
    case peers: True
    show ?thesis
    proof (cases "r\<^sub>2 = Inr False")
      case False
      then have "y' = y\<^sub>2 \<or> y' = set_sync_status SYNCING_HEADERS y\<^sub>2"
        using turn peers by (auto simp: bind_action_def h action_simps split: sum.splits)
      then show ?thesis using f\<^sub>2 by (auto intro: exI [of _ "ss_syncStatus ?ss"])
    next
      case headers: True
      have net: "ss_networkHeight ?ss \<noteq> 0" "\<not> behind (ss_headerHeight ?ss) (ss_networkHeight ?ss) ?u"
        using SyncHeaders_False [of "w_H w" "pw_clock w" random y\<^sub>1] h headers by auto
      show ?thesis
      proof (cases "r\<^sub>3 = Inr False")
        case False
        then have "y' = y\<^sub>3" using turn peers headers by (auto simp: bind_action_def h st action_simps split: sum.splits)
        then show ?thesis using SyncState_cases [OF st] f\<^sub>2 by (auto simp: block_frame_def sync_frame_def intro: exI [of _ "ss_syncStatus ?ss"])
      next
        case state: True
        then have y\<^sub>3: "y\<^sub>3 = y\<^sub>2" and ready: "ready_for_blocks ?ss ?u"
          using SyncState_cases [OF st] f\<^sub>2 peers net by (auto simp: ready_for_blocks_def)
        have f\<^sub>4: "the_status y\<^sub>4 = ?ss" using keepsD [OF SyncBlocks_frame [of ?ss ?u "pw_clock w" random random'], of y\<^sub>3] f\<^sub>2 b y\<^sub>3 by (auto simp: sync_frame_def)
        have "y' = y\<^sub>4 \<or> y' = set_sync_status SYNCING_BLOCKS y\<^sub>4 \<or> r\<^sub>4 = Inr False \<and> y' = set_sync_status NOT_SYNCING (y\<^sub>4\<lparr>sy_startup := False\<rparr>)"
          using turn peers headers state by (auto simp: bind_action_def h st b action_simps split: sum.splits if_splits)
        then show ?thesis
          using ready f\<^sub>2 f\<^sub>4 y\<^sub>3 SyncBlocks_False [of "pw_clock w" random random' y\<^sub>3] b
          by (auto intro: exI [of _ "ss_syncStatus ?ss"])
      qed
    qed
  qed
qed


text \<open>A network of four connections to the peers of the sample, and a chain whose tip is at height 20000.\<close>

definition sample_connection :: "u64 \<Rightarrow> u64 \<Rightarrow> connection" where
  "sample_connection i height = \<lparr>cn_id = i, cn_peer = 0, cn_inbound = False, cn_totalDifficulty = 100, cn_height = height, cn_sendQueue = [], cn_active = True\<rparr>"

definition sample_syncer :: "p2p_node \<Rightarrow> u64 \<Rightarrow> syncer" where
  "sample_syncer n height = \<lparr>sy_node = n, sy_connections = map (\<lambda>i. sample_connection i height) [1, 2, 3, 4],
     sy_header = \<lparr>hs_timeout = 0, hs_lastHeight = 0, hs_peer = None, hs_retried = False\<rparr>,
     sy_state = \<lparr>ts_timeRequested = 0, ts_requestedHeight = 0, ts_peer = None\<rparr>,
     sy_block = \<lparr>bs_timeout = 0, bs_lastHeight = 0, bs_requestedBlocks = [], bs_slowPeers = []\<rparr>, sy_startup = True\<rparr>"

definition grown_node :: p2p_node where
  "grown_node = test_node\<lparr>pn_chain := new_node\<lparr>st_blockDB :=
     (st_blockDB new_node)\<lparr>db_headersCache := [(BlockHeader_GetHash first_header, first_header\<lparr>bh_height := 20000\<rparr>)]\<rparr>\<rparr>\<rparr>"

lemma new_node_tip:
  "Chain_GetTipHash (candidate_chain new_node) = Inr (BlockHeader_GetHash first_header)"
  "Chain_GetTipHash (confirmed_chain new_node) = Inr (BlockHeader_GetHash first_header)"
proof -
  have "chain_ok (candidate_chain new_node)" "chain_ok (confirmed_chain new_node)"
    using new_node_chains(1) by (simp_all add: store_idle_def chain_idle_def)
  then show "Chain_GetTipHash (candidate_chain new_node) = Inr (BlockHeader_GetHash first_header)"
    "Chain_GetTipHash (confirmed_chain new_node) = Inr (BlockHeader_GetHash first_header)"
    using new_node_chains(2,3) by (simp_all add: chain_get(4))
qed

lemma test_p2p_random: "pw_random test_p2p_world = (0, 0)"
  by (simp add: test_p2p_world_def node_world.defs p2p_world.defs test_world_def)

lemma sample_status:
  "UpdateSyncStatus sample_hash (the_status (sample_syncer grown_node h)) (pn_chain grown_node) =
     Inr (SyncStatus_new\<lparr>ss_headerHeight := 20000, ss_headerDifficulty := bh_totalDifficulty first_header, ss_blockHeight := 20000,
       ss_blockDifficulty := bh_totalDifficulty first_header\<rparr>)"
  "UpdateSyncStatus sample_hash (the_status (sample_syncer test_node h)) (pn_chain test_node) =
     Inr (SyncStatus_new\<lparr>ss_headerHeight := 0, ss_headerDifficulty := bh_totalDifficulty first_header, ss_blockHeight := 0,
       ss_blockDifficulty := bh_totalDifficulty first_header\<rparr>)"
  by (simp_all add: UpdateSyncStatus_def GetTipBlockHeader_def GetChain_def new_node_tip grown_node_def test_node_def sample_syncer_def
      GetBlockHeader_def [of _ _ "db\<lparr>db_headersCache := c\<rparr>" for db c] new_node_db bind_result_def UpdateHeaderStatus_def UpdateBlockStatus_def
      SyncStatus_new_def first_header_def)


text \<open>C21. Block synchronization on a young chain. While the header chain is below the cut-through horizon and the confirmed chain is not
  above it, the unsigned difference of the header height and the horizon wraps around: the state synchronizer reports that the state is
  still being synchronized, although it requests none, so that no turn reaches the block synchronizer, and the status neither becomes
  "syncing blocks" nor "not syncing".
\<close>

theorem young_chain_never_syncs_blocks:
  assumes "UpdateSyncStatus (w_H w) (the_status y) (pn_chain (sy_node y)) = Inr ss" "ss_headerHeight ss < 10080" "ss_blockHeight ss \<le> ss_headerHeight ss"
    "ss_syncStatus (the_status y) \<noteq> NOT_SYNCING" "ss_syncStatus (the_status y) \<noteq> SYNCING_BLOCKS" "snd (sync_turn w y) = y'"
  shows "sy_block y' = sy_block y \<and> ss_syncStatus (the_status y') \<noteq> NOT_SYNCING \<and> ss_syncStatus (the_status y') \<noteq> SYNCING_BLOCKS"
proof -
  let ?ss = "the_status (refreshed w ss y)"
  note fields = refreshed_fields [OF assms(1), of w]
  have "\<not> ss_headerHeight ss - 10080 \<le> ss_blockHeight ss"
    using assms(2,3) unfolding word_le_nat_alt word_less_nat_alt by (simp add: unat_sub_if_size word_size)
  then have "\<not> ready_for_blocks ?ss (sy_startup y)" using fields by (simp add: ready_for_blocks_def consensus_consts)
  then show ?thesis using sync_turn_outcome [OF assms(1) refl assms(6)] fields assms(4,5) by (auto simp: UpdateStatus_def)
qed

theorem young_chain_never_syncs_blocks_witness:
  "sy_block (snd (sync_turn test_p2p_world (sample_syncer test_node 3))) = sy_block (sample_syncer test_node 3)"
proof -
  let ?y = "sample_syncer test_node 3"
  have ss: "UpdateSyncStatus (w_H test_p2p_world) (the_status ?y) (pn_chain (sy_node ?y)) = Inr (SyncStatus_new\<lparr>ss_headerHeight := 0,
      ss_headerDifficulty := bh_totalDifficulty first_header, ss_blockHeight := 0, ss_blockDifficulty := bh_totalDifficulty first_header\<rparr>)"
    using sample_status(2) [of 3] by (simp add: test_p2p_fields sample_syncer_def)
  show ?thesis using young_chain_never_syncs_blocks [OF ss _ _ _ _ refl] by (simp add: sample_syncer_def test_node_def SyncStatus_new_def)
qed

subsection \<open>The handshake between two nodes\<close>

text \<open>A node whose socket takes everything that is written, with a short name and a connection to a peer it knows.\<close>

definition can_shake :: "p2p_world \<Rightarrow> handshake_config \<Rightarrow> u64 \<Rightarrow> p2p_node \<Rightarrow> bool" where
  "can_shake w c difficulty n \<longleftrightarrow> (\<forall>bytes. pw_write w bytes = (length bytes, False)) \<and> so_outgoing (pn_socket n) = [] \<and>
     GetTotalDifficulty (w_H w) CONFIRMED (pn_chain n) = Inr difficulty \<and> length (hc_userAgent c) \<le> 256 \<and> length (hc_genesisHash c) = 32 \<and>
     pn_peer n < length (pm_peers (pn_peers n))"

text \<open>What a node has learned of its peer.\<close>

definition knows :: "p2p_node \<Rightarrow> handshake_config \<Rightarrow> u64 \<Rightarrow> bool" where
  "knows n c difficulty \<longleftrightarrow> p_version (this_peer n) = PROTOCOL_VERSION \<and> p_capabilities (this_peer n) = FAST_SYNC_NODE \<and>
     p_userAgent (this_peer n) = hc_userAgent c \<and> pn_totalDifficulty n = difficulty \<and> pn_height n = 0"

lemma hand_fits:
  assumes "length (hc_userAgent c) \<le> 256" "length (hc_genesisHash c) = 32"
  shows "length (body_bytes v (reverse_addresses (hand_of env c d))) \<le> unat (GetMaximumSize (GetMessageType (hand_of env c d)) * 4)"
    and "length (body_bytes v (reverse_addresses (shake_of c p d))) \<le> unat (GetMaximumSize (GetMessageType (shake_of c p d)) * 4)"
    and "message_ok H v (hand_of env c d)" and "message_ok H v (shake_of c p d)"
  using assms by (simp_all add: hand_of_def shake_of_def reverse_socket_def socket_enc_def varstr_enc_def Let_def)

lemma read_sent_body:
  assumes "message_ok H v m" "length (body_bytes v (reverse_addresses m)) \<le> unat (GetMaximumSize (GetMessageType m) * 4)"
  shows "read_body (body_reader H (GetMessageType m)) (ByteBuffer_new (body_bytes v (reverse_addresses m)) v) = return_process (reverse_addresses m)"
proof -
  have "length (body_bytes v (reverse_addresses m)) < 2 ^ 64" using assms(2) u64_bound [of "GetMaximumSize (GetMessageType m) * 4"] by simp
  from decodes_new [OF body_decodes [of H v "reverse_addresses m"] this] assms(1) show ?thesis by (simp add: read_body_def)
qed

lemma read_hand: 
  assumes "length (hc_userAgent c) \<le> 256" "length (hc_genesisHash c) = 32"
  shows "read_body HandMessage_Deserialize (ByteBuffer_new (body_bytes v (reverse_addresses (hand_of env c d))) V1) = 
      return_process (reverse_addresses (hand_of env c d))"
    "read_body ShakeMessage_Deserialize (ByteBuffer_new (body_bytes v (reverse_addresses (shake_of c p d))) V1) = 
      return_process (shake_of c p d)"
  using read_sent_body [OF hand_fits(3,1) [OF assms, where v = V1]] read_sent_body [OF hand_fits(4,2) [OF assms, where v = V1]]
  by (simp_all add: hand_of_def shake_of_def Let_def)

text \<open>C19. The handshake between two nodes of this program. The outbound node reads what the inbound node answers and the inbound node what
  the outbound node sent. If the random numbers of the two processes differ and the inbound node has no connection to that address,
  both sides complete the handshake; what each wrote is what the other read, both agree on the protocol version 2, and each
  has recorded the capabilities, the name and the total difficulty of the other, with height 0. The hashes of the two genesis blocks are
  sent but never compared: the handshake succeeds for any two of them.
\<close>

theorem handshake_agrees:
  assumes "can_shake wa ca da a" "can_shake wb cb db b" "w_env wa = w_env wb" "hc_nonce ca \<noteq> hc_nonce cb"
    "so_incoming (pn_socket b) = message_bytes (w_env wb) (hand_of (w_env wb) ca da) V2"
    "so_incoming (pn_socket a) = message_bytes (w_env wa) (shake_of cb PROTOCOL_VERSION db) V2"
  shows "\<exists>a' b'. PerformHandshake wa ca connected True a = Some (Inr True, a') \<and> PerformHandshake wb cb False False b = Some (Inr True, b') \<and>
    so_outgoing (pn_socket a') = so_incoming (pn_socket b) \<and> so_outgoing (pn_socket b') = so_incoming (pn_socket a) \<and>
    knows a' cb db \<and> knows b' ca da"
proof -
  have ok: "length (hc_userAgent ca) \<le> 256" "length (hc_genesisHash ca) = 32" "length (hc_userAgent cb) \<le> 256" "length (hc_genesisHash cb) = 32"
    using assms(1,2) by (simp_all add: can_shake_def)
  let ?hand = "hand_of (w_env wb) ca da" and ?shake = "shake_of cb PROTOCOL_VERSION db"
  let ?a = "a\<lparr>pn_socket := (pn_socket a)\<lparr>so_rateCounter := AddMessageSent (pw_clock wa) (so_rateCounter (pn_socket a)),
    so_outgoing := message_bytes (w_env wa) ?hand V2\<rparr>\<rparr>"
  have "so_incoming (pn_socket ?a) = message_bytes (w_env wa) ?shake V2 @ []" using assms(6) by simp
  note recv_a = RetrieveMessage_sent [OF hand_fits(2) [OF ok(3,4)] this]
  have "so_incoming (pn_socket b) = message_bytes (w_env wb) ?hand V2 @ []" using assms(5) by simp
  note recv_b = RetrieveMessage_sent [OF hand_fits(1) [OF ok(1,2)] this]
  have "TransmitHandMessage wa ca a = Some (Inr True, ?a)"
    using assms(1,3) by (simp add: TransmitHandMessage_def process_simps can_shake_def MessageSender_Send_def Socket_Send_def)
  then have "\<exists>a'. PerformHandshake wa ca connected True a = Some (Inr True, a') \<and> so_outgoing (pn_socket a') = so_incoming (pn_socket b) \<and> knows a' cb db"
    using assms(1,3,5) recv_a read_hand(2) [OF ok(3,4)]
    by (simp add: PerformHandshake_def PerformOutboundHandshake_def process_simps can_shake_def sent_header_def shake_of_def knows_def this_peer_def
        update_this_peer_def update_peer_def UpdateTotals_def UpdateLastContactTime_def)
  moreover have "\<exists>b'. PerformHandshake wb cb False False b = Some (Inr True, b') \<and> so_outgoing (pn_socket b') = so_incoming (pn_socket a) \<and> knows b' ca da"
    using assms(2,3,4,6) recv_b read_hand(1) [OF ok(1,2)]
    by (simp add: PerformHandshake_def PerformInboundHandshake_def TransmitShakeMessage_def MessageSender_Send_def Socket_Send_def process_simps can_shake_def
        sent_header_def hand_of_def knows_def this_peer_def update_this_peer_def update_peer_def UpdateTotals_def UpdateLastContactTime_def Let_def
        protocol_of_def PROTOCOL_VERSION_def)
  ultimately show ?thesis by blast
qed

definition sample_config :: "u8 \<Rightarrow> handshake_config" where
  "sample_config i = \<lparr>hc_nonce = ucast i, hc_genesisHash = replicate 32 i, hc_userAgent = [71, 114, 105, 110, 43, 43], hc_port = 3414\<rparr>"

definition node_reading :: "u8 list \<Rightarrow> p2p_node" where
  "node_reading bytes = test_node\<lparr>pn_socket := (pn_socket test_node)\<lparr>so_incoming := bytes\<rparr>\<rparr>"

lemma sample_can_shake: "can_shake test_p2p_world (sample_config i) (bh_totalDifficulty first_header) (node_reading bytes)"
proof -
  have "pw_write test_p2p_world bs = (length bs, False)" for bs
    by (simp add: test_p2p_world_def node_world.defs p2p_world.defs test_world_def)
  then show ?thesis
    by (simp add: can_shake_def node_reading_def test_node_def GetTotalDifficulty_def GetTipBlockHeader_def GetChain_def new_node_tip new_node_db
        bind_result_def test_p2p_fields sample_config_def one_peer_table)
qed

theorem handshake_agrees_witness:
  "\<exists>a' b'. knows a' (sample_config 2) (bh_totalDifficulty first_header) \<and> knows b' (sample_config 1) (bh_totalDifficulty first_header) \<and>
     PerformHandshake test_p2p_world (sample_config 1) False True
       (node_reading (message_bytes AUTOMATED_TESTING (shake_of (sample_config 2) PROTOCOL_VERSION (bh_totalDifficulty first_header)) V2)) = Some (Inr True, a') \<and>
     PerformHandshake test_p2p_world (sample_config 2) False False
       (node_reading (message_bytes AUTOMATED_TESTING (hand_of AUTOMATED_TESTING (sample_config 1) (bh_totalDifficulty first_header)) V2)) = Some (Inr True, b')"
proof -
  let ?shake = "message_bytes AUTOMATED_TESTING (shake_of (sample_config 2) PROTOCOL_VERSION (bh_totalDifficulty first_header)) V2"
    and ?hand = "message_bytes AUTOMATED_TESTING (hand_of AUTOMATED_TESTING (sample_config 1) (bh_totalDifficulty first_header)) V2"
  have env: "w_env test_p2p_world = AUTOMATED_TESTING" by (simp add: test_p2p_fields test_world_def)
  have "hc_nonce (sample_config 1) \<noteq> hc_nonce (sample_config 2)" by (simp add: sample_config_def)
  from handshake_agrees [OF sample_can_shake [where bytes = ?shake] sample_can_shake [where bytes = ?hand] refl this, unfolded env, where connected = False]
  show ?thesis by (auto simp: node_reading_def)
qed

end
