(* ===== verification/P2P_Services.thy ===== *)
theory P2P_Services
  imports P2P_Sync
begin

text \<open>
  The threads beside the synchronizers: \<^verbatim>\<open>Dandelion\<close>, which relays transactions to one peer or to all of them,
  \<^verbatim>\<open>Seeder\<close>, which opens connections, and the operations of \<^verbatim>\<open>P2PServer\<close> (\<^verbatim>\<open>src/P2P\<close>).
\<close>

section \<open>Dandelion\<close>

record dandelion =
  dn_syncer :: syncer
  dn_relayPeer :: "peer_ref option"
  dn_relayExpirationTime :: int

text \<open>The configuration, and what the outside gives one turn: the addresses of the transactions it allocates and the random part of
  the embargo.\<close>

record dandelion_world = p2p_world +
  dw_relaySeconds :: u16
  dw_embargoSeconds :: u16
  dw_stemProbability :: u8
  dw_addresses :: "nat \<times> nat"
  dw_embargoRandom :: u16

abbreviation network_world :: "dandelion_world \<Rightarrow> p2p_world" where
  "network_world w \<equiv> p2p_world.truncate w"

definition on_node :: "(p2p_node, 'a) process \<Rightarrow> (dandelion, 'a) process" where
  "on_node m d = (case m (sy_node (dn_syncer d)) of
      None \<Rightarrow> None
    | Some (r, n) \<Rightarrow> Some (r, d\<lparr>dn_syncer := (dn_syncer d)\<lparr>sy_node := n\<rparr>\<rparr>))"

definition with_pool :: "(transaction_pool \<times> proofs_cache, 'a) action \<Rightarrow> (dandelion, 'a) process" where
  "with_pool m = on_node (on_chainState (run_action (on_txPool m)))"

definition get_chain :: "(chain_state \<Rightarrow> 'a) \<Rightarrow> (dandelion, 'a) process" where
  "get_chain f = run_action (get_action (\<lambda>d. f (pn_chain (sy_node (dn_syncer d)))))"

text \<open>A transaction is added to the memory pool and, when it is accepted, announced to every peer.\<close>

definition fluff :: "dandelion_world \<Rightarrow> tx_ptr \<Rightarrow> (dandelion, unit) process" where
  "fluff w tx =
     bind_process (on_node (on_chainState (Server_AddTransaction (chain_world (network_world w)) 0 (dw_stemProbability w) tx MEMPOOL))) (\<lambda>status.
       if status = SUCCESS then on_node (BroadcastMessage (TransactionMessage (ptr_tx tx)) 0) else return_process ())"

text \<open>A relay is chosen when there is none or its time is over; \<open>False\<close> when no peer can be the relay.\<close>

definition choose_relay :: "dandelion_world \<Rightarrow> (dandelion, bool) process" where
  "choose_relay w = run_action (\<lambda>d.
     if dn_relayPeer d = None \<or> dn_relayExpirationTime d < pw_clock w then
       let mostWorkPeers = GetMostWorkPeers (fst (pw_random w)) (dn_syncer d)
       in if mostWorkPeers = [] then (Inr False, d)
          else (Inr True, d\<lparr>dn_relayExpirationTime := pw_clock w + uint (dw_relaySeconds w),
            dn_relayPeer := Some (mostWorkPeers ! (snd (pw_random w) mod length mostWorkPeers))\<rparr>)
     else (Inr True, d))"

definition ProcessStemPhase :: "dandelion_world \<Rightarrow> (dandelion, bool) process" where
  "ProcessStemPhase w =
     bind_process (choose_relay w) (\<lambda>hasRelay.
     if \<not> hasRelay then return_process False
     else bind_process (get_chain (\<lambda>s. (st_blockDB s, the_hash_set s))) (\<lambda>(db, txHashSet).
       if txHashSet = None then return_process False
       else bind_process (with_pool (GetTransactionToStem (w_env w) (w_H w) (w_secp w) (fst (dw_addresses w)) db txHashSet)) (\<lambda>transactionToStem.
         case transactionToStem of
           None \<Rightarrow> return_process True
         | Some tx \<Rightarrow>
             bind_process (run_action (\<lambda>d. case SendMessageToPeer (StemTransactionMessage (ptr_tx tx)) (the (dn_relayPeer d)) (dn_syncer d) of
                 (success, y) \<Rightarrow> (Inr success, d\<lparr>dn_syncer := y\<rparr>))) (\<lambda>success.
             bind_process (if success then return_process () else fluff w tx) (\<lambda>_. return_process True)))))"

definition ProcessFluffPhase :: "dandelion_world \<Rightarrow> (dandelion, bool) process" where
  "ProcessFluffPhase w =
     bind_process (get_chain (\<lambda>s. (st_blockDB s, the_hash_set s))) (\<lambda>(db, txHashSet).
     if txHashSet = None then return_process False
     else bind_process (with_pool (GetTransactionToFluff (w_env w) (w_H w) (w_secp w) (snd (dw_addresses w)) db txHashSet)) (\<lambda>transactionToFluff.
       bind_process (case transactionToFluff of
           None \<Rightarrow> return_process ()
         | Some tx \<Rightarrow> on_node (BroadcastMessage (TransactionMessage (ptr_tx tx)) 0)) (\<lambda>_. return_process True)))"

fun for_process :: "('a \<Rightarrow> ('s, unit) process) \<Rightarrow> 'a list \<Rightarrow> ('s, unit) process" where
  "for_process f [] = return_process ()"
| "for_process f (x # xs) = bind_process (f x) (\<lambda>_. for_process f xs)"

definition ProcessExpiredEntries :: "dandelion_world \<Rightarrow> (dandelion, bool) process" where
  "ProcessExpiredEntries w =
     bind_process (get_chain (\<lambda>s. GetExpiredTransactions (pw_clock w) (dw_embargoSeconds w) (dw_embargoRandom w) (st_txPool s))) (\<lambda>expiredTransactions.
     bind_process (for_process (fluff w) expiredTransactions) (\<lambda>_. return_process True))"

text \<open>One turn of the monitor thread: an exception ends the turn.\<close>

definition Thread_Monitor :: "dandelion_world \<Rightarrow> (dandelion, unit) process" where
  "Thread_Monitor w = catch_process
     (bind_process (ProcessStemPhase w) (\<lambda>_.
      bind_process (ProcessFluffPhase w) (\<lambda>_.
      bind_process (ProcessExpiredEntries w) (\<lambda>_. return_process ()))))
     (\<lambda>_. return_process ())"

section \<open>Seeder\<close>

text \<open>The connections it has started, newest last: the identifier, the peer and whether the peer opened it.\<close>

record seeder =
  sd_syncer :: syncer
  sd_nextId :: u64
  sd_usedDNS :: bool
  sd_lastConnectTime :: int
  sd_started :: "(u64 \<times> peer_ref \<times> bool) list"

definition on_manager :: "(peer_manager, 'a) action \<Rightarrow> (seeder, 'a) action" where
  "on_manager = zoom_action (\<lambda>d. pn_peers (sy_node (sd_syncer d)))
     (\<lambda>p d. d\<lparr>sd_syncer := (sd_syncer d)\<lparr>sy_node := (sy_node (sd_syncer d))\<lparr>pn_peers := p\<rparr>\<rparr>\<rparr>)"

definition start_connection :: "peer_ref \<Rightarrow> bool \<Rightarrow> seeder \<Rightarrow> seeder" where
  "start_connection peer inbound d = d\<lparr>sd_started := sd_started d @ [(sd_nextId d, peer, inbound)], sd_nextId := sd_nextId d + 1\<rparr>"

text \<open>\<open>dns\<close> is what the DNS servers answer.\<close>

definition SeedNewConnection :: "p2p_world \<Rightarrow> socket_address list \<Rightarrow> (seeder, unit) action" where
  "SeedNewConnection w dns =
     bind_action (on_manager (GetNewPeer (pw_clock w) (fst (pw_random w)) (snd (pw_random w)) FAST_SYNC_NODE)) (\<lambda>peer. case peer of
         Some peer \<Rightarrow> modify_action (start_connection peer False)
       | None \<Rightarrow>
           bind_action (get_action sd_usedDNS) (\<lambda>usedDNS.
           if usedDNS then return_action ()
           else bind_action (modify_action (\<lambda>d. d\<lparr>sd_usedDNS := True\<rparr>)) (\<lambda>_. on_manager (modify_action (AddFreshPeers dns)))))"

text \<open>One turn of the seeding thread; each attempt to seed sees its own random numbers.\<close>

definition seed_turn :: "p2p_world \<Rightarrow> (nat \<Rightarrow> nat \<times> nat) \<Rightarrow> socket_address list \<Rightarrow> nat \<Rightarrow> (seeder, unit) action" where
  "seed_turn w randoms dns minimumConnections d =
     (case PruneConnections True (sd_syncer d) of ((_, numOutbound), y) \<Rightarrow>
        let d = d\<lparr>sd_syncer := y\<rparr>
        in if numOutbound < minimumConnections \<and> sd_lastConnectTime d + 2 < pw_clock w then
             for_action (\<lambda>i. SeedNewConnection (w\<lparr>pw_random := randoms i\<rparr>) dns) [0..<min 15 (minimumConnections - numOutbound)]
               (d\<lparr>sd_lastConnectTime := pw_clock w\<rparr>)
           else (Inr (), d))"

text \<open>One turn of the listener: \<open>remote\<close> is the address of a peer that connects, if one does.\<close>

definition listen_turn :: "ip_address option \<Rightarrow> nat \<Rightarrow> seeder \<Rightarrow> seeder" where
  "listen_turn remote maximumConnections d =
     (if length (sy_connections (sd_syncer d)) < maximumConnections then
        case remote of
          None \<Rightarrow> d
        | Some address \<Rightarrow> (case on_manager (\<lambda>m. case PeerManager_GetPeer address m of (r, m) \<Rightarrow> (Inr r, m)) d of
              (Inl e, d) \<Rightarrow> d
            | (Inr peer, d) \<Rightarrow> start_connection peer True d)
      else d)"

section \<open>P2PServer\<close>

definition Server_GetPeer :: "ip_address \<Rightarrow> syncer \<Rightarrow> peer option result" where
  "Server_GetPeer address y = (case GetConnectedPeer address y of
      Some (_, r) \<Rightarrow> Inr (Some (peer_at y r))
    | None \<Rightarrow> PeerManager_GetPeer_const address (pn_peers (sy_node y)))"

definition Server_BanPeer :: "int \<Rightarrow> ip_address \<Rightarrow> ban_reason \<Rightarrow> peer_manager \<Rightarrow> bool \<times> peer_manager" where
  "Server_BanPeer now address banReason m =
     (case PeerManager_GetPeer address m of (r, m) \<Rightarrow> (True, update_peer r (Ban now banReason) m))"

definition UnbanAllPeers :: "int \<Rightarrow> peer_manager \<Rightarrow> bool \<times> peer_manager" where
  "UnbanAllPeers now m =
     (True, fold (\<lambda>r m. if IsBanned now (pm_peers m ! r) then update_peer r Unban m else m) (GetAllPeers m) m)"

definition BroadcastTransaction :: "transaction \<Rightarrow> (p2p_node, unit) process" where
  "BroadcastTransaction tx = for_process (\<lambda>kernel. BroadcastMessage (TransactionKernelMessage (tk_hash kernel)) 0) (tb_kernels (tx_body tx))"

section \<open>A stemmed transaction goes to one peer\<close>

lemma send_to_address_once:
  "case send_to_address matches m cs of
      (True, cs') \<Rightarrow> \<exists>i < length cs. matches (cs ! i) \<and> cs' = cs[i := Connection_Send m (cs ! i)]
    | (False, cs') \<Rightarrow> cs' = cs"
proof (induction cs)
  case (Cons c cs)
  show ?case
  proof (cases "matches c")
    case True
    then show ?thesis by (auto intro: exI [of _ 0])
  next
    case False
    obtain sent cs' where send: "send_to_address matches m cs = (sent, cs')" by fastforce
    show ?thesis
    proof (cases sent)
      case True
      then obtain i where "i < length cs" "matches (cs ! i)" "cs' = cs[i := Connection_Send m (cs ! i)]" using Cons send by auto
      then show ?thesis using send True False by (auto intro!: exI [of _ "Suc i"])
    next
      case failed: False
      then show ?thesis using Cons send False by simp
    qed
  qed
qed simp

abbreviation queues :: "dandelion \<Rightarrow> connection list" where
  "queues d \<equiv> sy_connections (dn_syncer d)"

abbreviation announced :: "dandelion \<Rightarrow> (u64 \<times> message) list" where
  "announced d \<equiv> pn_broadcasts (sy_node (dn_syncer d))"

abbreviation address_of :: "dandelion \<Rightarrow> peer_ref \<Rightarrow> ip_address" where
  "address_of d r \<equiv> p_ipAddress (peer_at (dn_syncer d) r)"

text \<open>What a step changes of the network side: nothing, or a message for every peer.\<close>

definition network_same :: "dandelion \<Rightarrow> dandelion \<Rightarrow> bool" where
  "network_same d d' \<longleftrightarrow> queues d' = queues d \<and> announced d' = announced d \<and> pn_peers (sy_node (dn_syncer d')) = pn_peers (sy_node (dn_syncer d))"

lemma with_pool_run:
  obtains r d' where "with_pool m d = Some (r, d')" "network_same d d'" "dn_relayPeer d' = dn_relayPeer d"
proof -
  obtain r c where "on_txPool m (pn_chain (sy_node (dn_syncer d))) = (r, c)" by fastforce
  then show thesis
    by (intro that [of r "d\<lparr>dn_syncer := (dn_syncer d)\<lparr>sy_node := (sy_node (dn_syncer d))\<lparr>pn_chain := c\<rparr>\<rparr>\<rparr>"])
      (simp_all add: with_pool_def on_node_def on_chainState_def run_action_def network_same_def)
qed

lemma add_transaction_run:
  obtains r d' where "on_node (on_chainState (Server_AddTransaction cw random p tx MEMPOOL)) d = Some (r, d')" "network_same d d'"
    "dn_relayPeer d' = dn_relayPeer d"
proof -
  obtain r c where "Server_AddTransaction cw random p tx MEMPOOL (pn_chain (sy_node (dn_syncer d))) = Some (r, c)"
    by (fastforce simp: Server_AddTransaction_def catch_status_def catch_process_def run_action_def split: prod.splits sum.splits)
  then show thesis
    by (intro that [of r "d\<lparr>dn_syncer := (dn_syncer d)\<lparr>sy_node := (sy_node (dn_syncer d))\<lparr>pn_chain := c\<rparr>\<rparr>\<rparr>"])
      (simp_all add: on_node_def on_chainState_def network_same_def)
qed

lemma fluff_run:
  obtains r d' where "fluff w tx d = Some (r, d')" "queues d' = queues d" "dn_relayPeer d' = dn_relayPeer d"
    "announced d' = announced d \<or> announced d' = announced d @ [(0, TransactionMessage (ptr_tx tx))]"
proof -
  obtain r d' where run: "on_node (on_chainState (Server_AddTransaction (chain_world (network_world w)) 0 (dw_stemProbability w) tx MEMPOOL)) d = Some (r, d')"
    "network_same d d'" "dn_relayPeer d' = dn_relayPeer d"
    by (rule add_transaction_run)
  show thesis
  proof (cases r)
    case (Inl e)
    then show thesis using run that [of "Inl e" d'] by (simp add: fluff_def bind_process_def network_same_def)
  next
    case (Inr status)
    let ?d = "if status = SUCCESS then d'\<lparr>dn_syncer := (dn_syncer d')\<lparr>sy_node := (sy_node (dn_syncer d'))
      \<lparr>pn_broadcasts := announced d' @ [(0, TransactionMessage (ptr_tx tx))]\<rparr>\<rparr>\<rparr> else d'"
    have "fluff w tx d = Some (Inr (), ?d)"
      using Inr run by (simp add: fluff_def bind_process_def on_node_def BroadcastMessage_def process_simps)
    then show thesis using run that [of "Inr ()" ?d] by (auto simp: network_same_def)
  qed
qed

text \<open>C22. Privacy of the stem phase. Whatever the pool, the connections and the random numbers are, the stem phase ends, and it either hands
  a transaction to no connection and announces at most one to all peers (the relay could not be reached), or it puts one message with
  the transaction into the queue of one connection, a connection to the address of the relay, changes no other queue and
  announces nothing.
\<close>

theorem stem_goes_to_one_peer:
  "\<exists>r d'. ProcessStemPhase w d = Some (r, d') \<and>
    (queues d' = queues d \<and> (announced d' = announced d \<or> (\<exists>tx. announced d' = announced d @ [(0, TransactionMessage tx)])) \<or>
     announced d' = announced d \<and> (\<exists>relay i tx. dn_relayPeer d' = Some relay \<and> i < length (queues d) \<and>
       address_of d (cn_peer (queues d ! i)) = address_of d relay \<and>
       queues d' = (queues d)[i := Connection_Send (StemTransactionMessage tx) (queues d ! i)]))"
proof -
  obtain found d\<^sub>1 where relay: "choose_relay w d = Some (Inr found, d\<^sub>1)" and same: "dn_syncer d\<^sub>1 = dn_syncer d"
    and chosen: "found \<Longrightarrow> dn_relayPeer d\<^sub>1 \<noteq> None"
    unfolding choose_relay_def run_action_def Let_def
    by (cases "dn_relayPeer d = None \<or> dn_relayExpirationTime d < pw_clock w";
        cases "GetMostWorkPeers (fst (pw_random w)) (dn_syncer d) = []") auto
  let ?s = "pn_chain (sy_node (dn_syncer d))"
  show ?thesis
  proof (cases "found \<and> the_hash_set ?s \<noteq> None")
    case False
    then show ?thesis using relay same
      by (auto simp: ProcessStemPhase_def bind_process_def run_action_def action_simps get_chain_def)
  next
    case True
    then obtain peer where peer: "dn_relayPeer d\<^sub>1 = Some peer" using chosen by blast
    obtain r d\<^sub>2 where pool: "with_pool (GetTransactionToStem (w_env w) (w_H w) (w_secp w) (fst (dw_addresses w)) (st_blockDB ?s) (the_hash_set ?s)) d\<^sub>1 = Some (r, d\<^sub>2)"
      "network_same d\<^sub>1 d\<^sub>2" "dn_relayPeer d\<^sub>2 = dn_relayPeer d\<^sub>1"
      by (rule with_pool_run)
    note run = ProcessStemPhase_def bind_process_def relay get_chain_def run_action_def action_simps same pool(1)
    show ?thesis
    proof (cases "\<exists>tx. r = Inr (Some tx)")
      case False
      then have "ProcessStemPhase w d = Some (case r of Inl e \<Rightarrow> Inl e | Inr _ \<Rightarrow> Inr True, d\<^sub>2)"
        using True by (auto simp: run split: sum.splits option.splits)
      then show ?thesis using pool(2) same by (auto simp: network_same_def)
    next
      case sends: True
      then obtain tx where r: "r = Inr (Some tx)" by blast
      obtain success y where send: "SendMessageToPeer (StemTransactionMessage (ptr_tx tx)) peer (dn_syncer d\<^sub>2) = (success, y)" by fastforce
      have node: "sy_node y = sy_node (dn_syncer d\<^sub>2)" using send_frame(1) [of "StemTransactionMessage (ptr_tx tx)" peer "dn_syncer d\<^sub>2"] send by simp
      have conns: "if success then \<exists>i < length (queues d). address_of d (cn_peer (queues d ! i)) = address_of d peer \<and>
          sy_connections y = (queues d)[i := Connection_Send (StemTransactionMessage (ptr_tx tx)) (queues d ! i)] else sy_connections y = queues d"
        using send send_to_address_once [where matches = "\<lambda>c. address_of d (cn_peer c) = address_of d peer" and
            m = "StemTransactionMessage (ptr_tx tx)" and cs = "queues d"] pool(2) same
        by (auto simp: SendMessageToPeer_def network_same_def split: prod.splits bool.splits)
      show ?thesis
      proof (cases success)
        case ok: True
        have "ProcessStemPhase w d = Some (Inr True, d\<^sub>2\<lparr>dn_syncer := y\<rparr>)"
          using True ok r peer pool(3) send by (auto simp: run)
        then show ?thesis using conns ok node pool(2,3) peer same by (auto simp: network_same_def)
      next
        case failed: False
        obtain q d\<^sub>3 where fl: "fluff w tx (d\<^sub>2\<lparr>dn_syncer := y\<rparr>) = Some (q, d\<^sub>3)" "queues d\<^sub>3 = sy_connections y"
          "announced d\<^sub>3 = announced d\<^sub>2 \<or> announced d\<^sub>3 = announced d\<^sub>2 @ [(0, TransactionMessage (ptr_tx tx))]"
          using fluff_run [of w tx "d\<^sub>2\<lparr>dn_syncer := y\<rparr>"] node by (metis dandelion.select_convs(1) dandelion.surjective dandelion.update_convs(1))
        have "ProcessStemPhase w d = Some (case q of Inl e \<Rightarrow> Inl e | Inr _ \<Rightarrow> Inr True, d\<^sub>3)"
          using True failed r peer pool(3) send fl(1) by (auto simp: run split: sum.splits)
        then show ?thesis using fl conns failed pool(2) same by (auto simp: network_same_def)
      qed
    qed
  qed
qed

end
