(* ===== verification/Spec2Isabelle.thy ===== *)
theory Spec2Isabelle
  imports Prelude Serialization Consensus MMR_Util Data_File Bitmap_File Prune_List MMR_Hash Tx_Models Block_Models Difficulty Crypto_Wrappers Validation State_Actions Lockable Block_DB Chains Tx_Hash_Set Tx_Hash_Set_Rewind Tx_Pool Chain_State Header_Processor Header_Chain Header_Safety Block_Processor Block_Safety P2P_Messages Peers Message_Processor P2P_Safety P2P_Sync P2P_Services
begin

text \<open>
  A verification library for Grin++, a MimbleWimble node and wallet in C++ (\<^verbatim>\<open>src/src\<close> and
  \<^verbatim>\<open>src/include\<close>; everything under \<^verbatim>\<open>src/deps\<close> is vendored).

  \<^bold>\<open>The program.\<close> A node receives headers, blocks and transactions from its peers. Headers extend the
  candidate chain, after their proof of work and difficulty were checked; blocks extend the confirmed chain. A block is applied
  to the transaction hash set: three Merkle mountain ranges of outputs, range proofs and kernels, each kept in
  append-only files with a bitmap of the unspent leaves and a list of pruned subtrees. The block database holds headers,
  blocks, block sums, output positions and the outputs each block spent. All these objects are written in batches that
  are committed or rolled back together. Transactions that are not in a block yet wait in the pool. Peers are found, connected and banned by the
  peer manager and the seeder; each connection exchanges messages, which the message processor turns into operations on the chain,
  the pool and the peers; a synchronizer asks the peer with the most work for headers, the transaction hash set and blocks.

  \<^bold>\<open>Theories and sources.\<close>
  \<^item> \<open>Prelude\<close>: machine integers, C++ exceptions as the values of \<open>exn\<close>, results (\<open>Inl\<close> an exception), byte
    images of words, ordered maps. \<open>UNDEFINED_BEHAVIOUR\<close> is the outcome of code whose behaviour the language leaves open; no
    handler catches it.
  \<^item> \<open>Serialization\<close>: \<^verbatim>\<open>EndianHelper\<close>, \<^verbatim>\<open>Serializer\<close>, \<^verbatim>\<open>ByteBuffer\<close>. The locales
    \<open>codec\<close> and \<open>canonical_codec\<close> are the contract of a wire format.
  \<^item> \<open>Consensus\<close>: \<^verbatim>\<open>include/Consensus\<close>, with the 64-bit arithmetic of the source.
  \<^item> \<open>MMR_Util\<close>: \<^verbatim>\<open>BitUtil\<close> and \<^verbatim>\<open>MMRUtil\<close>, compared with a recursive postorder traversal.
  \<^item> \<open>Data_File\<close>: \<^verbatim>\<open>MappedFile\<close>, \<^verbatim>\<open>AppendOnlyFile\<close>, \<^verbatim>\<open>DataFile\<close>. The locale
    \<open>batchable\<close> is what a commit and a rollback promise.
  \<^item> \<open>Bitmap_File\<close>: \<^verbatim>\<open>BitmapFile\<close> and \<^verbatim>\<open>LeafSet\<close>, with the locale \<open>leaf_set\<close>.
  \<^item> \<open>Prune_List\<close>: \<^verbatim>\<open>PruneList\<close>.
  \<^item> \<open>MMR_Hash\<close>: \<^verbatim>\<open>MMRHashUtil\<close> and the prunable MMR.
  \<^item> \<open>Tx_Models\<close>, \<open>Block_Models\<close>: the classes of \<^verbatim>\<open>include/Core/Models\<close> as records, with their wire formats.
  \<^item> \<open>Difficulty\<close>: \<^verbatim>\<open>src/PoW\<close>.
  \<^item> \<open>Crypto_Wrappers\<close>: \<^verbatim>\<open>src/Crypto\<close> over a record of the functions of the elliptic-curve library.
  \<^item> \<open>Validation\<close>: \<^verbatim>\<open>src/Core/Validation\<close>, the header and block validators of \<^verbatim>\<open>src/BlockChain/Validators\<close>,
    \<^verbatim>\<open>TransactionUtil\<close> and \<^verbatim>\<open>FeeUtil\<close>.
  \<^item> \<open>State_Actions\<close>: actions that change an object and may throw, the language the handlers below are written in.
  \<^item> \<open>Lockable\<close>: \<^verbatim>\<open>Writer\<close> and \<^verbatim>\<open>Locked\<close>, with the locale \<open>batch_writer\<close> of a batch that ends in a
    commit or a rollback.
  \<^item> \<open>Block_DB\<close>: \<^verbatim>\<open>RocksDB\<close> and \<^verbatim>\<open>BlockDB\<close>.
  \<^item> \<open>Chains\<close>: \<^verbatim>\<open>Chain\<close>, \<^verbatim>\<open>ChainStore\<close>, \<^verbatim>\<open>OrphanPool\<close>.
  \<^item> \<open>Tx_Hash_Set\<close>, \<open>Tx_Hash_Set_Rewind\<close>: \<^verbatim>\<open>KernelMMR\<close>, \<^verbatim>\<open>HeaderMMR\<close>,
    \<^verbatim>\<open>TxHashSet\<close>, \<^verbatim>\<open>TxHashSetManager\<close> and \<^verbatim>\<open>TxHashSetValidator\<close>.
  \<^item> \<open>Tx_Pool\<close>: \<^verbatim>\<open>src/TxPool\<close>.
  \<^item> \<open>Chain_State\<close>: \<^verbatim>\<open>ChainState\<close> with the batch over all its parts, and \<^verbatim>\<open>SyncStatus\<close>.
  \<^item> \<open>Header_Processor\<close>, \<open>Header_Chain\<close>, \<open>Header_Safety\<close>: \<^verbatim>\<open>BlockHeaderProcessor\<close> and what it keeps.
  \<^item> \<open>Block_Processor\<close>, \<open>Block_Safety\<close>: \<^verbatim>\<open>BlockProcessor\<close>, \<^verbatim>\<open>TxHashSetProcessor\<close>,
    \<^verbatim>\<open>ChainResyncer\<close>, \<^verbatim>\<open>BlockHydrator\<close>, \<^verbatim>\<open>CompactBlockFactory\<close> and \<^verbatim>\<open>BlockChainServer\<close>.
  \<^item> \<open>P2P_Messages\<close>: the messages of \<^verbatim>\<open>src/P2P/Messages\<close>, addresses (\<^verbatim>\<open>include/Net\<close>) and capabilities.
  \<^item> \<open>Peers\<close>: \<^verbatim>\<open>Peer\<close>, \<^verbatim>\<open>PeerManager\<close> and \<^verbatim>\<open>PeerDB\<close>.
  \<^item> \<open>Message_Processor\<close>, \<open>P2P_Safety\<close>: \<^verbatim>\<open>MessageProcessor\<close>, \<^verbatim>\<open>MessageRetriever\<close>,
    \<^verbatim>\<open>BlockLocator\<close> and the pipes of \<^verbatim>\<open>src/P2P/Pipeline\<close>, and what they keep.
  \<^item> \<open>P2P_Sync\<close>: \<^verbatim>\<open>HandShake\<close>, \<^verbatim>\<open>Connection\<close>, \<^verbatim>\<open>ConnectionManager\<close> and
    \<^verbatim>\<open>src/P2P/Sync\<close>.
  \<^item> \<open>P2P_Services\<close>: \<^verbatim>\<open>Dandelion\<close>, \<^verbatim>\<open>Seeder\<close> and \<^verbatim>\<open>P2PServer\<close>.

  \<^bold>\<open>State and operations.\<close> A class is a record with the members of the class (its prefix abbreviates the class), a method a
  function that takes the object last; a method that changes the object and may throw is an action, which returns its outcome beside
  the object as it was left. Integers keep the width of the source. What is not under \<^verbatim>\<open>src\<close>, or depends on the world, is an
  argument: the hash function, the elliptic-curve functions, whether a file can be opened, the clock, random numbers,
  the addresses of allocated objects.

  \<^bold>\<open>What is proved.\<close>
  \<^item> Index arithmetic and hashing: the bit manipulation agrees with the postorder traversal for every index that occurs;
    appending builds the Merkle mountain range of the leaves, and its root binds them unless the hash collides.
  \<^item> Storage: data files refine a pair of lists of blocks and leaf sets a pair of sets, for every sequence of operations; a commit makes the
    working state durable and a rollback discards it; what a failing commit loses is stated.
  \<^item> Formats: decoding an encoding gives the value back, and transactions of version 1 have one encoding.
  \<^item> Validation: an accepted transaction or block balances, is signed and in range; along a chain the supply grows by exactly the
    reward per block. The laws of the elliptic-curve functions used are named hypotheses, shown to hold for a sample instance.
  \<^item> Chain state: applying any sequence of blocks to the hash set and rewinding gives back what was there; every block that spends unspent
    outputs is accepted; reading a header through the cache equals reading the table; reorganising a chain switches to
    the fork and a rollback restores both chains.
  \<^item> Processing: whatever headers arrive, the header MMR on disk matches the candidate chain on disk; processing a block changes nothing on disk or moves
    the confirmed chain to a block that extends it or to a fork with more work. Where the code fails this is stated
    too: a header that is its own parent, and a commit that fails half way.
  \<^item> Network: every message sent is read back by the receiver, except that IP addresses are reversed; two nodes complete the handshake with
    each other; messages other than headers and blocks leave the chain alone; the locator and the headers sent for it are the intended ones;
    a stemmed transaction goes to one peer; a peer to connect to is found when there is one. The node says that it has caught up only
    when it has; a young chain never synchronizes blocks and an archive of 4 GiB is never received.
  \<^item> Pool: what is left after reconciling with a block can be mined together; the embargo timer never holds.

  \<^bold>\<open>Bounds and termination.\<close> Loops over data are structural recursions. The loops that may run forever are written with
  \<open>partial_function (option)\<close> (\<open>rewind_blocks\<close>, \<open>outputs_from\<close>, the ancestor walks of the prune list,
  \<open>collect_ancestors\<close>, \<open>fork_blocks\<close>, \<open>receive_archive\<close>); the theorems show that they return, or, for \<open>collect_ancestors\<close> and \<open>receive_archive\<close>, when they do not; \<open>FindCommonIndex_loop\<close> has a termination proof. Sizes are bounded where 64-bit arithmetic needs it: \<open>2 ^ 54\<close> leaves keep every file below \<open>2 ^ 64\<close> bytes.

  A thread of the network side is a sequence of turns; each turn gets the clock, the random numbers and the bytes it sees.

  \<^bold>\<open>Not modelled.\<close> The interleaving of threads, and locks; logging; opening and accepting connections, which is asio's;
  the wallet; the REST interface and Tor, which are input and output around the components above; the archive of
  the transaction hash set (zip files); JSON; the proof-of-work solver and the vendored libraries.
\<close>

end
